(* ===== verification/Prelude.thy ===== *)
theory Prelude
  imports Main "HOL-Library.Char_ord" "HOL-Library.List_Lexorder"
begin

text \<open>
  Generic layer shared by every component: the error monad on sums that models Python
  exceptions and early returns, monadic map and fold for the comprehensions and loops that
  may raise, lookup in insertion-ordered dictionaries, and the character classes of the
  identifier patterns the contracts use.  The collections declared here gather the facts
  that the component proofs hand to the simplifier as one bundle.
\<close>

section \<open>Collections\<close>

named_theorems wf_defs \<open>definitions of well-formedness predicates\<close>
named_theorems ok_intros \<open>introduction rules: an operation succeeds under its precondition\<close>
named_theorems inv_rules \<open>an operation preserves the invariant of its component\<close>

section \<open>The error monad\<close>

text \<open>
  A Python expression that may raise is a value of \<open>'e + 'a\<close>: \<open>Inl e\<close> for the exception,
  \<open>Inr x\<close> for a normal result.  \<open>bindE m f\<close> runs \<open>m\<close>, then \<open>f\<close> on its result.
\<close>

definition bindE :: "'e + 'a \<Rightarrow> ('a \<Rightarrow> 'e + 'b) \<Rightarrow> 'e + 'b" where
  "bindE m f = (case m of Inl e \<Rightarrow> Inl e | Inr x \<Rightarrow> f x)"

lemma bindE_simps [simp]:
  "bindE (Inl e) f = Inl e"
  "bindE (Inr x) f = f x"
  by (simp_all add: bindE_def)

lemma bindE_eq_Inr [simp]: "bindE m f = Inr y \<longleftrightarrow> (\<exists>x. m = Inr x \<and> f x = Inr y)"
  by (cases m) simp_all

lemma bindE_eq_Inl: "bindE m f = Inl e \<longleftrightarrow> m = Inl e \<or> (\<exists>x. m = Inr x \<and> f x = Inl e)"
  by (cases m) simp_all

lemma bindE_cong [fundef_cong]:
  "m = m' \<Longrightarrow> (\<And>x. m' = Inr x \<Longrightarrow> f x = f' x) \<Longrightarrow> bindE m f = bindE m' f'"
  by (cases m') simp_all

text \<open>\<open>mapE f xs\<close>: a comprehension whose body may raise; the first failure wins.\<close>

fun mapE :: "('a \<Rightarrow> 'e + 'b) \<Rightarrow> 'a list \<Rightarrow> 'e + 'b list" where
  "mapE f [] = Inr []"
| "mapE f (x # xs) = bindE (f x) (\<lambda>y. bindE (mapE f xs) (\<lambda>ys. Inr (y # ys)))"

lemma mapE_Inr_iff: "mapE f xs = Inr ys \<longleftrightarrow> list_all2 (\<lambda>x y. f x = Inr y) xs ys"
  by (induction xs arbitrary: ys) (auto simp: list_all2_Cons1)

lemma mapE_length: "mapE f xs = Inr ys \<Longrightarrow> length ys = length xs"
  by (simp add: mapE_Inr_iff list_all2_lengthD)

lemma mapE_in_set: "mapE f xs = Inr ys \<Longrightarrow> y \<in> set ys \<Longrightarrow> \<exists>x \<in> set xs. f x = Inr y"
  by (induction xs arbitrary: ys) auto

lemma mapE_Inl_in_set: "mapE f xs = Inl e \<Longrightarrow> \<exists>x \<in> set xs. f x = Inl e"
  by (induction xs) (auto simp: bindE_eq_Inl)

lemma mapE_Inr_each: "mapE f xs = Inr ys \<Longrightarrow> x \<in> set xs \<Longrightarrow> \<exists>y. f x = Inr y"
  by (induction xs arbitrary: ys) auto

lemma mapE_total: "(\<And>x. x \<in> set xs \<Longrightarrow> \<exists>y. f x = Inr y) \<Longrightarrow> \<exists>ys. mapE f xs = Inr ys"
  by (induction xs) (fastforce)+

lemma mapE_id: "(\<And>x. x \<in> set xs \<Longrightarrow> f x = Inr (g x)) \<Longrightarrow> mapE f xs = Inr (map g xs)"
  by (induction xs) auto

lemma mapE_cong [fundef_cong]:
  "xs = ys \<Longrightarrow> (\<And>x. x \<in> set ys \<Longrightarrow> f x = g x) \<Longrightarrow> mapE f xs = mapE g ys"
  by (induction ys arbitrary: xs) auto

text \<open>\<open>foldE f xs s\<close>: a loop over \<open>xs\<close> whose body updates the state or raises.\<close>

fun foldE :: "('a \<Rightarrow> 's \<Rightarrow> 'e + 's) \<Rightarrow> 'a list \<Rightarrow> 's \<Rightarrow> 'e + 's" where
  "foldE f [] s = Inr s"
| "foldE f (x # xs) s = bindE (f x s) (foldE f xs)"

lemma foldE_append: "foldE f (xs @ ys) s = bindE (foldE f xs s) (foldE f ys)"
  by (induction xs arbitrary: s) (auto simp: bindE_def split: sum.splits)

lemma foldE_invariant:
  assumes "foldE f xs s = Inr t" and "P s"
    and "\<And>x s t. x \<in> set xs \<Longrightarrow> P s \<Longrightarrow> f x s = Inr t \<Longrightarrow> P t"
  shows "P t"
  using assms
proof (induction xs arbitrary: s)
  case Nil
  then show ?case by simp
next
  case (Cons x xs)
  from Cons.prems(1) obtain u where u: "f x s = Inr u" "foldE f xs u = Inr t" by auto
  have "P u" using Cons.prems(2,3) u(1) by auto
  with u(2) show ?case using Cons.IH Cons.prems(3) by (metis list.set_intros(2))
qed

section \<open>Lists and dictionaries\<close>

text \<open>\<open>enumerate(xs)\<close> starting at \<open>n\<close>.\<close>

fun enum_from :: "nat \<Rightarrow> 'a list \<Rightarrow> (nat \<times> 'a) list" where
  "enum_from n [] = []"
| "enum_from n (x # xs) = (n, x) # enum_from (Suc n) xs"

lemma map_snd_enum_from [simp]: "map snd (enum_from n xs) = xs"
  by (induction xs arbitrary: n) auto

text \<open>
  A Python set built from a sequence, listed in the order of first appearance.  The code
  never depends on the iteration order of such a set; the order matters only for which of
  several simultaneous violations is reported first.
\<close>

fun uniq :: "'a list \<Rightarrow> 'a list" where
  "uniq [] = []"
| "uniq (x # xs) = x # filter (\<lambda>y. y \<noteq> x) (uniq xs)"

lemma set_uniq [simp]: "set (uniq xs) = set xs"
  by (induction xs) auto

lemma distinct_uniq [simp]: "distinct (uniq xs)"
  by (induction xs) auto

text \<open>A dictionary comprehension over pairs keeps the last value of a repeated key.\<close>

definition last_wins :: "('k \<times> 'v) list \<Rightarrow> ('k \<rightharpoonup> 'v)" where
  "last_wins kvs = map_of (rev kvs)"

lemma last_wins_distinct: "distinct (map fst kvs) \<Longrightarrow> last_wins kvs = map_of kvs"
  unfolding last_wins_def
  by (metis distinct_rev map_of_inject_set rev_map set_rev)

lemma dom_last_wins: "dom (last_wins kvs) = fst ` set kvs"
  by (simp add: last_wins_def dom_map_of_conv_image_fst)

lemma find_distinct:
  "distinct (map f xs) \<Longrightarrow> x \<in> set xs \<Longrightarrow> find (\<lambda>y. f y = f x) xs = Some x"
  by (induction xs) (auto intro: rev_image_eqI)

lemma find_SomeD: "find P xs = Some x \<Longrightarrow> x \<in> set xs \<and> P x"
  by (induction xs) (auto split: if_splits)

lemma find_None_iff2: "find P xs = None \<longleftrightarrow> (\<forall>x \<in> set xs. \<not> P x)"
  by (induction xs) auto

section \<open>Character classes and identifier patterns\<close>

abbreviation code_of :: "char \<Rightarrow> nat" where
  "code_of c \<equiv> of_char c"

definition is_upper :: "char \<Rightarrow> bool" where
  "is_upper c \<longleftrightarrow> 65 \<le> code_of c \<and> code_of c \<le> 90"

definition is_lower :: "char \<Rightarrow> bool" where
  "is_lower c \<longleftrightarrow> 97 \<le> code_of c \<and> code_of c \<le> 122"

definition is_digit :: "char \<Rightarrow> bool" where
  "is_digit c \<longleftrightarrow> 48 \<le> code_of c \<and> code_of c \<le> 57"

definition is_alpha :: "char \<Rightarrow> bool" where
  "is_alpha c \<longleftrightarrow> is_upper c \<or> is_lower c"

definition is_lower_hex :: "char \<Rightarrow> bool" where
  "is_lower_hex c \<longleftrightarrow> is_digit c \<or> (97 \<le> code_of c \<and> code_of c \<le> 102)"

text \<open>The class \<open>[A-Za-z0-9_.:/-]\<close> of the identifier tails.\<close>

definition is_ident_tail :: "char \<Rightarrow> bool" where
  "is_ident_tail c \<longleftrightarrow> is_alpha c \<or> is_digit c \<or>
     c = CHR ''_'' \<or> c = CHR ''.'' \<or> c = CHR '':'' \<or> c = CHR ''/'' \<or> c = CHR ''-''"

text \<open>\<open>head tail{0,n}\<close>, matched in full: the shape of every identifier pattern.\<close>

definition head_tail :: "(char \<Rightarrow> bool) \<Rightarrow> (char \<Rightarrow> bool) \<Rightarrow> nat \<Rightarrow> string \<Rightarrow> bool" where
  "head_tail h t n s = (case s of [] \<Rightarrow> False | c # cs \<Rightarrow> h c \<and> list_all t cs \<and> length cs \<le> n)"

lemma head_tail_not_Nil [simp]: "\<not> head_tail h t n []"
  by (simp add: head_tail_def)

lemma head_tail_length: "head_tail h t n s \<Longrightarrow> 1 \<le> length s \<and> length s \<le> Suc n"
  by (auto simp: head_tail_def split: list.splits)

text \<open>The characters \<open>str.strip\<close> removes, in the range of code points \<open>char\<close> covers.\<close>

definition is_space :: "char \<Rightarrow> bool" where
  "is_space c \<longleftrightarrow> (let n = code_of c in
     (9 \<le> n \<and> n \<le> 13) \<or> (28 \<le> n \<and> n \<le> 32) \<or> n = 133 \<or> n = 160)"

definition strip :: "string \<Rightarrow> string" where
  "strip s = rev (dropWhile is_space (rev (dropWhile is_space s)))"

lemma strip_Nil [simp]: "strip [] = []"
  by (simp add: strip_def)

end
