(* ===== verification/Float64.thy ===== *)
theory Float64
  imports Prelude Complex_Main
begin

text \<open>
  Python's \<open>float\<close>: IEEE 754 binary64 with round-half-even.  A finite float is the rational
  it denotes (the two zeros are identified: no modelled operation tells them apart), and
  every arithmetic operation is the exact operation followed by \<open>f64_round\<close>, written out
  concretely so that the model evaluates.  The lemmas give the facts the contracts rest on:
  rounding is monotone, fixes every float and every integer of magnitude at most \<open>2^53\<close>,
  and is odd.
\<close>

section \<open>Powers of two and the binary logarithm\<close>

definition pow2 :: "int \<Rightarrow> rat" where
  "pow2 e = (if 0 \<le> e then 2 ^ nat e else 1 / 2 ^ nat (- e))"

lemma pow2_powi: "pow2 e = 2 powi e"
proof (cases "0 \<le> e")
  case True
  then show ?thesis by (simp add: pow2_def power_int_def)
next
  case False
  then show ?thesis by (simp add: pow2_def power_int_def power_inverse inverse_eq_divide power_one_over)
qed

lemma pow2_pos [simp]: "0 < pow2 e"
  by (simp add: pow2_powi)

lemma pow2_nonzero [simp]: "pow2 e \<noteq> 0"
  by (simp add: pow2_powi)

lemma pow2_nonneg [simp]: "0 \<le> pow2 e"
  using pow2_pos[of e] by linarith

lemma abs_pow2 [simp]: "\<bar>pow2 e\<bar> = pow2 e"
  by simp

lemma pow2_add: "pow2 (a + b) = pow2 a * pow2 b"
  by (simp add: pow2_powi power_int_add)

lemma pow2_diff: "pow2 (a - b) = pow2 a / pow2 b"
  by (simp add: pow2_powi power_int_diff)

lemma pow2_0 [simp]: "pow2 0 = 1"
  by (simp add: pow2_powi)

lemma pow2_mono: "a \<le> b \<Longrightarrow> pow2 a \<le> pow2 b"
  by (simp add: pow2_powi power_int_increasing)

lemma pow2_strict_mono: "a < b \<Longrightarrow> pow2 a < pow2 b"
  by (simp add: pow2_powi power_int_strict_increasing)

lemma pow2_le_iff [simp]: "pow2 a \<le> pow2 b \<longleftrightarrow> a \<le> b"
  by (meson linorder_not_le pow2_mono pow2_strict_mono)

lemma pow2_less_iff [simp]: "pow2 a < pow2 b \<longleftrightarrow> a < b"
  by (meson linorder_not_le pow2_mono pow2_strict_mono)

lemma pow2_of_nat: "0 \<le> e \<Longrightarrow> pow2 e = of_int (2 ^ nat e)"
  by (simp add: pow2_def)

lemma pow2_Ints: "0 \<le> e \<Longrightarrow> pow2 e \<in> \<int>"
  by (simp add: pow2_of_nat)

text \<open>The exponent \<open>e\<close> with \<open>2^e \<le> x < 2^(e+1)\<close>, from the bit lengths of numerator and denominator.\<close>

fun bits :: "nat \<Rightarrow> nat" where
  "bits n = (if n = 0 then 0 else Suc (bits (n div 2)))"

declare bits.simps [simp del]

lemma bits_bounds: "0 < n \<Longrightarrow> 2 ^ (bits n - 1) \<le> n \<and> n < 2 ^ bits n"
proof (induction n rule: bits.induct)
  case (1 n)
  show ?case
  proof (cases "n div 2 = 0")
    case True
    with "1.prems" have "n = 1" by (metis One_nat_def Suc_1 Suc_leI div_eq_0_iff le_antisym less_2_cases_iff not_less_eq_eq zero_neq_numeral)
    then show ?thesis by (simp add: bits.simps)
  next
    case False
    with 1 have IH: "2 ^ (bits (n div 2) - 1) \<le> n div 2" "n div 2 < 2 ^ bits (n div 2)" by auto
    have b: "bits n = Suc (bits (n div 2))" using "1.prems" by (subst bits.simps) simp
    have pos: "bits (n div 2) \<noteq> 0" using False by (subst bits.simps) simp
    have "2 * 2 ^ (bits (n div 2) - 1) \<le> n" using IH(1) by linarith
    then have lo: "2 ^ bits (n div 2) \<le> n" using pos by (metis power_eq_if)
    have "n < 2 * 2 ^ bits (n div 2)" using IH(2) by linarith
    with lo show ?thesis by (simp add: b)
  qed
qed

definition ilog2 :: "rat \<Rightarrow> int" where
  "ilog2 x = (let (p, q) = quotient_of x; e = int (bits (nat p)) - int (bits (nat q))
              in if pow2 e \<le> x then e else e - 1)"

lemma bits_pow2:
  assumes "0 < p"
  shows "pow2 (int (bits (nat p)) - 1) \<le> of_int p" and "of_int p < pow2 (int (bits (nat p)))"
proof -
  define a where "a = bits (nat p)"
  have h: "2 ^ (a - 1) \<le> nat p" "nat p < 2 ^ a"
    using bits_bounds[of "nat p"] assms by (simp_all add: a_def)
  have a0: "a \<noteq> 0" using h(2) assms by (intro notI) simp
  have "int (2 ^ (a - 1)) \<le> int (nat p)" "int (nat p) < int (2 ^ a)"
    using h by (simp_all only: of_nat_le_iff of_nat_less_iff)
  then have i: "(2::int) ^ (a - 1) \<le> p" "p < 2 ^ a" using assms by simp_all
  have "(of_int (2 ^ (a - 1)) :: rat) \<le> of_int p" "(of_int p :: rat) < of_int (2 ^ a)"
    using i by (simp_all only: of_int_le_iff of_int_less_iff)
  moreover have "nat (int a - 1) = a - 1" using a0 by linarith
  ultimately show "pow2 (int (bits (nat p)) - 1) \<le> of_int p" "of_int p < pow2 (int (bits (nat p)))"
    using a0 unfolding a_def[symmetric] by (simp_all add: pow2_def)
qed

lemma ilog2_bounds:
  assumes "0 < x"
  shows "pow2 (ilog2 x) \<le> x" and "x < pow2 (ilog2 x + 1)"
proof -
  obtain p q where pq: "quotient_of x = (p, q)" by fastforce
  have q0: "0 < q" using pq by (rule quotient_of_denom_pos)
  have x: "x = of_int p / of_int q" using pq by (rule quotient_of_div)
  have p0: "0 < p" using assms x q0 by (simp add: zero_less_divide_iff)
  define a b where "a = int (bits (nat p))" and "b = int (bits (nat q))"
  have pa: "pow2 (a - 1) \<le> of_int p" "of_int p < pow2 a" using bits_pow2[OF p0] by (simp_all add: a_def)
  have qb: "pow2 (b - 1) \<le> of_int q" "of_int q < pow2 b" using bits_pow2[OF q0] by (simp_all add: b_def)
  have qpos: "(0::rat) < of_int q" using q0 by simp
  have "x < pow2 a / pow2 (b - 1)"
    unfolding x using pa(2) qb(1) p0 qpos by (intro frac_less) auto
  then have up: "x < pow2 (a - b + 1)" by (simp add: pow2_diff[symmetric] algebra_simps)
  have "pow2 (a - 1) / pow2 b \<le> x"
    unfolding x using pa qb q0 p0 by (intro frac_le) auto
  then have lo: "pow2 (a - b - 1) \<le> x" by (simp add: pow2_diff[symmetric] algebra_simps)
  show "pow2 (ilog2 x) \<le> x" "x < pow2 (ilog2 x + 1)"
    using up lo by (auto simp: ilog2_def pq Let_def a_def[symmetric] b_def[symmetric])
qed

lemma ilog2_less: "x < pow2 e \<Longrightarrow> 0 < x \<Longrightarrow> ilog2 x < e"
  using ilog2_bounds(1)[of x] le_less_trans pow2_less_iff by blast

lemma ilog2_ge: "pow2 e \<le> x \<Longrightarrow> e \<le> ilog2 x"
proof -
  assume a: "pow2 e \<le> x"
  then have "0 < x" using pow2_pos[of e] by linarith
  then have "pow2 e < pow2 (ilog2 x + 1)" using a ilog2_bounds(2)[of x] by linarith
  then show ?thesis by simp
qed

lemma ilog2_unique: "pow2 e \<le> x \<Longrightarrow> x < pow2 (e + 1) \<Longrightarrow> ilog2 x = e"
  using ilog2_ge[of e x] ilog2_less[of x "e + 1"] pow2_pos[of e] by linarith

lemma ilog2_mono: "0 < x \<Longrightarrow> x \<le> y \<Longrightarrow> ilog2 x \<le> ilog2 y"
  using ilog2_bounds(1)[of x] by (intro ilog2_ge) linarith

section \<open>Rounding to the nearest integer, ties to even\<close>

definition round_half_even :: "rat \<Rightarrow> int" where
  "round_half_even x = (let f = \<lfloor>x\<rfloor>; d = x - of_int f in
     if d < 1 / 2 then f else if 1 / 2 < d then f + 1 else if even f then f else f + 1)"

lemma round_half_even_of_int [simp]: "round_half_even (of_int n) = n"
  by (simp add: round_half_even_def Let_def)

lemma round_half_even_Ints: "x \<in> \<int> \<Longrightarrow> of_int (round_half_even x) = x"
  by (auto elim!: Ints_cases)

lemma round_half_even_bounds: "\<lfloor>x\<rfloor> \<le> round_half_even x \<and> round_half_even x \<le> \<lfloor>x\<rfloor> + 1"
  by (simp add: round_half_even_def Let_def)

lemma round_half_even_error: "\<bar>of_int (round_half_even x) - x\<bar> \<le> 1 / 2"
proof -
  have "of_int \<lfloor>x\<rfloor> \<le> x" "x < of_int \<lfloor>x\<rfloor> + 1" by linarith+
  then show ?thesis by (auto simp: round_half_even_def Let_def abs_le_iff)
qed

lemma round_half_even_near: "\<bar>x - of_int n\<bar> < 1 / 2 \<Longrightarrow> round_half_even x = n"
proof -
  assume "\<bar>x - of_int n\<bar> < 1 / 2"
  then have "\<bar>of_int (round_half_even x) - (of_int n :: rat)\<bar> < 1" using round_half_even_error[of x] by linarith
  then have "\<bar>round_half_even x - n\<bar> < 1" by linarith
  then show ?thesis by simp
qed

lemma round_half_even_mono:
  assumes "x \<le> y" shows "round_half_even x \<le> round_half_even y"
proof (cases "\<lfloor>x\<rfloor> = \<lfloor>y\<rfloor>")
  case True
  then show ?thesis using assms by (auto simp: round_half_even_def Let_def)
next
  case False
  then have "\<lfloor>x\<rfloor> + 1 \<le> \<lfloor>y\<rfloor>" using floor_mono[OF assms] by linarith
  then show ?thesis using round_half_even_bounds[of x] round_half_even_bounds[of y] by linarith
qed

lemma round_half_even_le: "x \<le> of_int n \<Longrightarrow> round_half_even x \<le> n"
  using round_half_even_mono[of x "of_int n"] by simp

lemma round_half_even_ge: "of_int n \<le> x \<Longrightarrow> n \<le> round_half_even x"
  using round_half_even_mono[of "of_int n" x] by simp

lemma round_half_even_uminus: "round_half_even (- x) = - round_half_even x"
proof (cases "x \<in> \<int>")
  case True
  then obtain n where "x = of_int n" by (auto elim: Ints_cases)
  then show ?thesis by (metis of_int_minus round_half_even_of_int)
next
  case False
  then have "x \<noteq> of_int \<lfloor>x\<rfloor>" by (metis Ints_of_int)
  then have c: "\<lfloor>- x\<rfloor> = - \<lfloor>x\<rfloor> - 1" by (simp add: floor_minus ceiling_altdef)
  show ?thesis unfolding round_half_even_def Let_def c by auto
qed

section \<open>Rounding a rational to a binary format\<close>

text \<open>
  A format has \<open>p\<close> significant bits and the subnormal spacing \<open>2^e\<close>; the grid around \<open>x\<close> has the
  spacing \<open>2^k\<close> with \<open>k = max (ilog2 \<bar>x\<bar> + 1 - p) e\<close>.
\<close>

definition grid_to :: "nat \<Rightarrow> int \<Rightarrow> rat \<Rightarrow> int" where
  "grid_to p e x = max (ilog2 \<bar>x\<bar> + 1 - int p) e"

definition round_to :: "nat \<Rightarrow> int \<Rightarrow> rat \<Rightarrow> rat" where
  "round_to p e x = (if x = 0 then 0 else of_int (round_half_even (x / pow2 (grid_to p e x))) * pow2 (grid_to p e x))"

lemma grid_to_uminus [simp]: "grid_to p e (- x) = grid_to p e x"
  by (simp add: grid_to_def)

lemma round_to_uminus: "round_to p e (- x) = - round_to p e x"
  by (simp add: round_to_def round_half_even_uminus)

lemma round_to_nonneg: "0 \<le> x \<Longrightarrow> 0 \<le> round_to p e x"
proof -
  assume "0 \<le> x"
  then have "of_int 0 \<le> x / pow2 (grid_to p e x)" by simp
  then have "0 \<le> round_half_even (x / pow2 (grid_to p e x))" by (rule round_half_even_ge)
  then show ?thesis by (simp add: round_to_def)
qed

lemma round_to_pos_mono:
  assumes "0 < x" "x \<le> y" "1 \<le> p"
  shows "round_to p e x \<le> round_to p e y"
proof -
  let ?g = "grid_to p e"
  have y0: "0 < y" using assms by linarith
  have ij: "ilog2 x \<le> ilog2 y" using ilog2_mono assms by blast
  have gx: "?g x = max (ilog2 x + 1 - int p) e" and gy: "?g y = max (ilog2 y + 1 - int p) e"
    using assms y0 by (simp_all add: grid_to_def)
  show ?thesis
  proof (cases "?g x = ?g y")
    case True
    have "x / pow2 (?g x) \<le> y / pow2 (?g y)"
      unfolding True using assms(2) by (simp add: divide_right_mono order_less_imp_le)
    then show ?thesis
      using assms y0 True by (simp add: round_to_def round_half_even_mono)
  next
    case False
    then have k: "?g x < ?g y" "?g y = ilog2 y + 1 - int p" and lt: "ilog2 x < ilog2 y"
      using gx gy ij by auto
    have gp: "?g x \<le> ilog2 y" using k assms(3) by linarith
    have "x < pow2 (ilog2 y)"
      using ilog2_bounds(2)[OF assms(1)] lt pow2_mono[of "ilog2 x + 1" "ilog2 y"] by linarith
    then have "x / pow2 (?g x) \<le> pow2 (ilog2 y - ?g x)"
      by (simp add: pow2_diff divide_right_mono order_less_imp_le)
    also have "\<dots> = of_int (2 ^ nat (ilog2 y - ?g x))" using gp by (intro pow2_of_nat) linarith
    finally have "round_half_even (x / pow2 (?g x)) \<le> 2 ^ nat (ilog2 y - ?g x)"
      by (rule round_half_even_le)
    then have "(of_int (round_half_even (x / pow2 (?g x))) :: rat) \<le> of_int (2 ^ nat (ilog2 y - ?g x))"
      by (simp only: of_int_le_iff)
    also have "\<dots> = pow2 (ilog2 y - ?g x)" using gp by (intro pow2_of_nat[symmetric]) linarith
    finally have "round_to p e x \<le> pow2 (ilog2 y - ?g x) * pow2 (?g x)"
      using assms(1) by (simp add: round_to_def mult_right_mono order_less_imp_le)
    also have "\<dots> = pow2 (ilog2 y)" by (simp add: pow2_add[symmetric])
    also have "\<dots> \<le> round_to p e y"
    proof -
      have n: "pow2 (int (p - 1)) = of_int (2 ^ (p - 1))" using pow2_of_nat[of "int (p - 1)"] by simp
      have i: "int (p - 1) + ?g y = ilog2 y" using assms(3) k(2) by simp
      have split: "pow2 (int (p - 1)) * pow2 (?g y) = pow2 (ilog2 y)" unfolding pow2_add[symmetric] i ..
      then have "pow2 (int (p - 1)) \<le> y / pow2 (?g y)"
        using ilog2_bounds(1)[OF y0] by (simp add: le_divide_eq)
      then have "2 ^ (p - 1) \<le> round_half_even (y / pow2 (?g y))" unfolding n by (rule round_half_even_ge)
      then have "(of_int (2 ^ (p - 1)) :: rat) \<le> of_int (round_half_even (y / pow2 (?g y)))"
        by (simp only: of_int_le_iff)
      then have "pow2 (int (p - 1)) * pow2 (?g y) \<le> round_to p e y"
        using y0 unfolding n by (simp add: round_to_def mult_right_mono order_less_imp_le)
      then show ?thesis unfolding split .
    qed
    finally show ?thesis .
  qed
qed

lemma round_to_mono:
  assumes "x \<le> y" "1 \<le> p" shows "round_to p e x \<le> round_to p e y"
proof -
  consider "0 < x" | "y < 0" | "x \<le> 0" "0 \<le> y" using assms(1) by linarith
  then show ?thesis
  proof cases
    case 1
    then show ?thesis using round_to_pos_mono assms by blast
  next
    case 2
    then have "round_to p e (- y) \<le> round_to p e (- x)" using assms by (intro round_to_pos_mono) auto
    then show ?thesis by (simp add: round_to_uminus)
  next
    case 3
    then show ?thesis using round_to_nonneg[of y p e] round_to_nonneg[of "- x" p e]
      by (simp add: round_to_uminus)
  qed
qed

text \<open>Multiples of \<open>2^k\<close> with at most \<open>p\<close> significant bits are on the grid.\<close>

lemma round_to_scaled:
  assumes "\<bar>m\<bar> \<le> 2 ^ p" "e \<le> k" "1 \<le> p"
  shows "round_to p e (of_int m * pow2 k) = of_int m * pow2 k"
proof (cases "m = 0")
  case True
  then show ?thesis by (simp add: round_to_def)
next
  case False
  define x where "x = of_int m * pow2 k"
  have x0: "x \<noteq> 0" using False by (simp add: x_def)
  have ax: "\<bar>x\<bar> = of_int \<bar>m\<bar> * pow2 k" by (simp add: x_def abs_mult)
  have pp: "pow2 (int p) = of_int (2 ^ p)" using pow2_of_nat[of "int p"] by simp
  have "x / pow2 (grid_to p e x) \<in> \<int>"
  proof (cases "\<bar>m\<bar> = 2 ^ p")
    case True
    then have "\<bar>x\<bar> = pow2 (int p + k)" by (simp add: ax pow2_add pp)
    then have "ilog2 \<bar>x\<bar> = int p + k" by (intro ilog2_unique) simp_all
    then have g: "grid_to p e x = k + 1" using assms(2) by (simp add: grid_to_def)
    have "(2::int) ^ p = 2 * 2 ^ (p - 1)" using assms(3) by (metis One_nat_def Suc_pred' less_eq_Suc_le power_Suc)
    then have "m = 2 * (sgn m * 2 ^ (p - 1))" using True by (cases "0 \<le> m") (auto simp: sgn_if)
    then obtain n where m: "m = 2 * n" by blast
    have "x / pow2 (grid_to p e x) = of_int n" unfolding g by (simp add: x_def m pow2_add pow2_def[of 1])
    then show ?thesis by simp
  next
    case False
    then have "\<bar>m\<bar> < 2 ^ p" using assms(1) by linarith
    then have "(of_int \<bar>m\<bar> :: rat) < of_int (2 ^ p)" by (simp only: of_int_less_iff)
    then have "\<bar>x\<bar> < pow2 (int p) * pow2 k" unfolding ax pp by (intro mult_strict_right_mono) simp_all
    then have "\<bar>x\<bar> < pow2 (int p + k)" by (simp add: pow2_add)
    then have "ilog2 \<bar>x\<bar> < int p + k" using x0 by (intro ilog2_less) auto
    then have le: "grid_to p e x \<le> k" using assms(2) by (simp add: grid_to_def)
    have "x / pow2 (grid_to p e x) = of_int m * pow2 (k - grid_to p e x)" by (simp add: x_def pow2_diff)
    then show ?thesis using le by (simp add: pow2_Ints)
  qed
  then show ?thesis
    unfolding x_def[symmetric] using x0 by (simp add: round_to_def round_half_even_Ints)
qed

lemma round_to_on_grid: "\<exists>m k. round_to p e x = of_int m * pow2 k \<and> \<bar>m\<bar> \<le> 2 ^ p \<and> e \<le> k"
proof (cases "x = 0")
  case True
  then show ?thesis by (intro exI[of _ 0] exI[of _ e]) (simp add: round_to_def)
next
  case False
  let ?g = "grid_to p e x" and ?q = "x / pow2 (grid_to p e x)"
  have pp: "pow2 (int p) = of_int (2 ^ p)" using pow2_of_nat[of "int p"] by simp
  have "\<bar>x\<bar> < pow2 (ilog2 \<bar>x\<bar> + 1)" using False by (intro ilog2_bounds) simp
  moreover have "pow2 (ilog2 \<bar>x\<bar> + 1) \<le> pow2 (int p + ?g)" by (simp add: grid_to_def)
  ultimately have "\<bar>x\<bar> \<le> of_int (2 ^ p) * pow2 ?g" unfolding pp[symmetric] by (simp add: pow2_add)
  then have "\<bar>?q\<bar> \<le> of_int (2 ^ p)" by (simp add: divide_le_eq)
  then have q: "?q \<le> of_int (2 ^ p)" "of_int (- (2 ^ p)) \<le> ?q" unfolding abs_le_iff by simp_all
  have "round_half_even ?q \<le> 2 ^ p" "- (2 ^ p) \<le> round_half_even ?q"
    using round_half_even_le[OF q(1)] round_half_even_ge[OF q(2)] by simp_all
  then show ?thesis
    using False by (intro exI[of _ "round_half_even ?q"] exI[of _ ?g])
      (simp add: round_to_def grid_to_def)
qed

lemma round_to_idem: "1 \<le> p \<Longrightarrow> round_to p e (round_to p e x) = round_to p e x"
  using round_to_on_grid[of p e x] round_to_scaled by metis

lemma round_to_error: "\<bar>round_to p e x - x\<bar> \<le> pow2 (grid_to p e x) / 2"
proof (cases "x = 0")
  case False
  let ?g = "grid_to p e x" and ?q = "x / pow2 (grid_to p e x)"
  have "round_to p e x - x = (of_int (round_half_even ?q) - ?q) * pow2 ?g"
    using False by (simp add: round_to_def left_diff_distrib)
  then have "\<bar>round_to p e x - x\<bar> = \<bar>of_int (round_half_even ?q) - ?q\<bar> * pow2 ?g"
    by (simp add: abs_mult)
  also have "\<dots> \<le> 1 / 2 * pow2 ?g"
    by (rule mult_right_mono[OF round_half_even_error]) simp
  finally show ?thesis by simp
qed (simp add: round_to_def)

lemma round_to_near:
  assumes "pow2 k \<le> x" "x < pow2 (k + 1)" "e \<le> k + 1 - int p" "\<bar>x / pow2 (k + 1 - int p) - of_int n\<bar> < 1 / 2"
  shows "round_to p e x = of_int n * pow2 (k + 1 - int p)"
proof -
  have x: "0 < x" using assms(1) pow2_pos[of k] by linarith
  then have g: "grid_to p e x = k + 1 - int p" using assms(3) ilog2_unique[OF assms(1,2)] by (simp add: grid_to_def)
  show ?thesis using x unfolding round_to_def g round_half_even_near[OF assms(4)] by simp
qed

lemma round_to_error_below:
  assumes "\<bar>x\<bar> < pow2 k" "e + int p \<le> k"
  shows "\<bar>round_to p e x - x\<bar> \<le> pow2 (k - int p - 1)"
proof (cases "x = 0")
  case False
  have "ilog2 \<bar>x\<bar> < k" using ilog2_less[OF assms(1)] False by simp
  then have "pow2 (grid_to p e x) \<le> pow2 (k - int p)" using assms(2) by (simp add: grid_to_def)
  moreover have "pow2 (k - int p - 1) = pow2 (k - int p) / 2" using pow2_diff[of "k - int p" 1] by (simp add: pow2_def[of 1])
  ultimately show ?thesis using round_to_error[of p e x] by linarith
qed (simp add: round_to_def)

section \<open>Rounding a rational to binary64\<close>

text \<open>53 significant bits, and the subnormal spacing below \<open>2^-1022\<close>.\<close>

definition round_rat :: "rat \<Rightarrow> rat" where
  "round_rat x = round_to 53 (- 1074) x"

lemma round_rat_0 [simp]: "round_rat 0 = 0"
  by (simp add: round_rat_def round_to_def)

lemma round_rat_uminus: "round_rat (- x) = - round_rat x"
  by (simp add: round_rat_def round_to_uminus)

lemma round_rat_nonneg: "0 \<le> x \<Longrightarrow> 0 \<le> round_rat x"
  by (simp add: round_rat_def round_to_nonneg)

lemma round_rat_mono: "x \<le> y \<Longrightarrow> round_rat x \<le> round_rat y"
  by (simp add: round_rat_def round_to_mono)

lemma round_rat_scaled: "\<bar>m\<bar> \<le> 2 ^ 53 \<Longrightarrow> - 1074 \<le> k \<Longrightarrow> round_rat (of_int m * pow2 k) = of_int m * pow2 k"
  using round_to_scaled[of m 53 "- 1074" k] by (simp add: round_rat_def)

lemma round_rat_of_int: "\<bar>n\<bar> \<le> 2 ^ 53 \<Longrightarrow> round_rat (of_int n) = of_int n"
  using round_rat_scaled[of n 0] by simp

lemma round_rat_on_grid: "\<exists>m k. round_rat x = of_int m * pow2 k \<and> \<bar>m\<bar> \<le> 2 ^ 53 \<and> - 1074 \<le> k"
  using round_to_on_grid[of 53 "- 1074" x] by (simp add: round_rat_def)

lemma round_rat_idem [simp]: "round_rat (round_rat x) = round_rat x"
  by (simp add: round_rat_def round_to_idem)

lemma round_error_below: "\<bar>x\<bar> < pow2 e \<Longrightarrow> - 1000 \<le> e \<Longrightarrow> \<bar>round_rat x - x\<bar> \<le> pow2 (e - 54)"
  using round_to_error_below[of x e "- 1074" 53] by (simp add: round_rat_def)

lemma round_rat_error:
  assumes "pow2 (- 1022) \<le> \<bar>x\<bar>"
  shows "\<bar>round_rat x - x\<bar> \<le> \<bar>x\<bar> / 2 ^ 53"
proof -
  have x0: "x \<noteq> 0" using assms pow2_pos[of "- 1022"] by force
  have "- 1022 \<le> ilog2 \<bar>x\<bar>" using assms by (rule ilog2_ge)
  then have "grid_to 53 (- 1074) x = ilog2 \<bar>x\<bar> - 52" by (simp add: grid_to_def)
  then have "pow2 (grid_to 53 (- 1074) x) / 2 = pow2 (ilog2 \<bar>x\<bar>) / 2 ^ 53" by (simp add: pow2_diff pow2_def[of 52])
  moreover have "pow2 (ilog2 \<bar>x\<bar>) / 2 ^ 53 \<le> \<bar>x\<bar> / 2 ^ 53" using ilog2_bounds(1)[of "\<bar>x\<bar>"] x0 by simp
  ultimately show ?thesis using round_to_error[of 53 "- 1074" x] unfolding round_rat_def by linarith
qed

section \<open>The type of floats and its operations\<close>

datatype f64 = Fin rat | PosInf | NegInf | NaN

definition f64_round :: "rat \<Rightarrow> f64" where
  "f64_round x = (let r = round_rat x in
     if pow2 1024 \<le> r then PosInf else if r \<le> - pow2 1024 then NegInf else Fin r)"

text \<open>Code equations that avoid computing \<open>2^1024\<close>.\<close>

lemma pow2_code [code]:
  "pow2 e = (if 0 \<le> e then of_int (2 ^ nat e) else Fract 1 (2 ^ nat (- e)))"
  by (simp add: pow2_def Fract_of_int_quotient)

lemma f64_round_code [code]:
  "f64_round x = (let r = round_rat x in
     if r = 0 \<or> ilog2 \<bar>r\<bar> < 1024 then Fin r else if 0 < r then PosInf else NegInf)"
proof -
  define r where "r = round_rat x"
  define B where "B = pow2 1024"
  have B: "0 < B" by (simp add: B_def)
  have iff: "r \<noteq> 0 \<Longrightarrow> B \<le> \<bar>r\<bar> \<longleftrightarrow> \<not> ilog2 \<bar>r\<bar> < 1024"
    using ilog2_ge[of 1024 "\<bar>r\<bar>"] ilog2_less[of "\<bar>r\<bar>" 1024] unfolding B_def by fastforce
  consider "r = 0" | "0 < r" | "r < 0" by linarith
  then show ?thesis
  proof cases
    case 1
    with B show ?thesis unfolding f64_round_def r_def[symmetric] Let_def B_def[symmetric] by simp
  next
    case 2
    with B have "\<not> r \<le> - B" by linarith
    with 2 iff show ?thesis unfolding f64_round_def r_def[symmetric] Let_def B_def[symmetric] by simp
  next
    case 3
    with B have "\<not> B \<le> r" by linarith
    moreover have "r \<le> - B \<longleftrightarrow> B \<le> \<bar>r\<bar>" using 3 by linarith
    ultimately show ?thesis using 3 iff unfolding f64_round_def r_def[symmetric] Let_def B_def[symmetric] by simp
  qed
qed

definition f64_rep :: "rat \<Rightarrow> bool" where
  "f64_rep r \<longleftrightarrow> round_rat r = r \<and> \<bar>r\<bar> < pow2 1024"

text \<open>A value that a Python \<open>float\<close> can hold.\<close>

fun f64_ok :: "f64 \<Rightarrow> bool" where
  "f64_ok (Fin r) = f64_rep r"
| "f64_ok _ = True"

fun is_finite :: "f64 \<Rightarrow> bool" where
  "is_finite (Fin _) = True"
| "is_finite _ = False"

lemma is_finite_iff: "is_finite x \<longleftrightarrow> (\<exists>r. x = Fin r)"
  by (cases x) auto

lemma f64_rep_round: "f64_rep r \<Longrightarrow> f64_round r = Fin r"
  by (auto simp: f64_rep_def f64_round_def Let_def abs_less_iff)

lemma f64_round_FinD: "f64_round x = Fin r \<Longrightarrow> f64_rep r \<and> r = round_rat x"
  by (auto simp: f64_rep_def f64_round_def Let_def abs_less_iff split: if_splits)

lemma f64_ok_round [simp]: "f64_ok (f64_round x)"
  by (cases "f64_round x") (auto dest: f64_round_FinD)

lemma f64_rep_of_int: "\<bar>n\<bar> \<le> 2 ^ 53 \<Longrightarrow> f64_rep (of_int n)"
proof -
  assume n: "\<bar>n\<bar> \<le> 2 ^ 53"
  then have "(of_int \<bar>n\<bar> :: rat) \<le> of_int (2 ^ 53)" by (simp only: of_int_le_iff)
  also have "(of_int (2 ^ 53) :: rat) < pow2 1024"
    using pow2_strict_mono[of 53 1024] by (simp add: pow2_def[of 53])
  finally show ?thesis using n by (simp add: f64_rep_def round_rat_of_int)
qed

text \<open>Comparisons: every comparison with a NaN is false.\<close>

fun f64_le :: "f64 \<Rightarrow> f64 \<Rightarrow> bool" where
  "f64_le NaN _ = False"
| "f64_le _ NaN = False"
| "f64_le NegInf _ = True"
| "f64_le _ PosInf = True"
| "f64_le (Fin a) (Fin b) = (a \<le> b)"
| "f64_le _ _ = False"

fun f64_lt :: "f64 \<Rightarrow> f64 \<Rightarrow> bool" where
  "f64_lt NaN _ = False"
| "f64_lt _ NaN = False"
| "f64_lt PosInf _ = False"
| "f64_lt _ NegInf = False"
| "f64_lt (Fin a) (Fin b) = (a < b)"
| "f64_lt _ _ = True"

fun f64_eq :: "f64 \<Rightarrow> f64 \<Rightarrow> bool" where
  "f64_eq NaN _ = False"
| "f64_eq a b = (a = b)"

lemma f64_le_trans: "f64_le a b \<Longrightarrow> f64_le b c \<Longrightarrow> f64_le a c"
  by (cases a; cases b; cases c) auto

lemma f64_lt_le_trans: "f64_lt a b \<Longrightarrow> f64_le b c \<Longrightarrow> f64_lt a c"
  by (cases a; cases b; cases c) auto

lemma f64_le_lt_trans: "f64_le a b \<Longrightarrow> f64_lt b c \<Longrightarrow> f64_lt a c"
  by (cases a; cases b; cases c) auto

lemma f64_lt_imp_le: "f64_lt a b \<Longrightarrow> f64_le a b"
  by (cases a; cases b) auto

lemma f64_round_mono: "x \<le> y \<Longrightarrow> f64_le (f64_round x) (f64_round y)"
  using round_rat_mono[of x y] pow2_pos[of 1024] by (auto simp: f64_round_def Let_def)

text \<open>Arithmetic.\<close>

fun f64_neg :: "f64 \<Rightarrow> f64" where
  "f64_neg (Fin a) = Fin (- a)"
| "f64_neg PosInf = NegInf"
| "f64_neg NegInf = PosInf"
| "f64_neg NaN = NaN"

fun f64_add :: "f64 \<Rightarrow> f64 \<Rightarrow> f64" where
  "f64_add (Fin a) (Fin b) = f64_round (a + b)"
| "f64_add NaN _ = NaN"
| "f64_add _ NaN = NaN"
| "f64_add PosInf NegInf = NaN"
| "f64_add NegInf PosInf = NaN"
| "f64_add PosInf _ = PosInf"
| "f64_add _ PosInf = PosInf"
| "f64_add NegInf _ = NegInf"
| "f64_add _ NegInf = NegInf"

definition f64_sub :: "f64 \<Rightarrow> f64 \<Rightarrow> f64" where
  "f64_sub a b = f64_add a (f64_neg b)"

fun f64_mul :: "f64 \<Rightarrow> f64 \<Rightarrow> f64" where
  "f64_mul (Fin a) (Fin b) = f64_round (a * b)"
| "f64_mul NaN _ = NaN"
| "f64_mul _ NaN = NaN"
| "f64_mul PosInf (Fin b) = (if b = 0 then NaN else if 0 < b then PosInf else NegInf)"
| "f64_mul NegInf (Fin b) = (if b = 0 then NaN else if 0 < b then NegInf else PosInf)"
| "f64_mul (Fin a) PosInf = (if a = 0 then NaN else if 0 < a then PosInf else NegInf)"
| "f64_mul (Fin a) NegInf = (if a = 0 then NaN else if 0 < a then NegInf else PosInf)"
| "f64_mul PosInf PosInf = PosInf"
| "f64_mul NegInf NegInf = PosInf"
| "f64_mul _ _ = NegInf"

text \<open>True division of two integers, correctly rounded (\<open>ZeroDivisionError\<close> is the caller's case).\<close>

definition int_truediv :: "int \<Rightarrow> int \<Rightarrow> f64" where
  "int_truediv a b = f64_round (of_int a / of_int b)"

text \<open>\<open>float(n)\<close> of an integer: \<open>OverflowError\<close> is \<open>None\<close>.\<close>

definition float_of_int :: "int \<Rightarrow> f64 option" where
  "float_of_int n = (let f = f64_round (of_int n) in if is_finite f then Some f else None)"

lemma float_of_int_small: "\<bar>n\<bar> \<le> 2 ^ 53 \<Longrightarrow> float_of_int n = Some (Fin (of_int n))"
  by (simp add: float_of_int_def f64_rep_round f64_rep_of_int)

lemma float_of_int_SomeD: "float_of_int n = Some f \<Longrightarrow> is_finite f \<and> f64_ok f"
  by (auto simp: float_of_int_def Let_def split: if_splits)

lemma f64_sub_le: "f64_rep t \<Longrightarrow> 0 \<le> h \<Longrightarrow> f64_le (f64_sub (Fin t) (Fin h)) (Fin t)"
  using f64_round_mono[of "t - h" t] by (simp add: f64_sub_def f64_rep_round)

lemma f64_add_ge: "f64_rep t \<Longrightarrow> 0 \<le> h \<Longrightarrow> f64_le (Fin t) (f64_add (Fin t) (Fin h))"
  using f64_round_mono[of t "t + h"] by (simp add: f64_rep_round)

end
