(* ===== verification/PyValues.thy ===== *)
theory PyValues
  imports Float64
begin

text \<open>
  Dynamic Python values, as far as the contracts inspect them: the JSON types and tuples.
  The constructors of the data classes and the JSON readers take such a value wherever the
  source tests a type at run time (\<open>isinstance\<close>, \<open>type(x) is int\<close>), so that every such test
  is a branch of the model.  Strings are \<open>string\<close> (one \<open>char\<close> per code point, so the model
  covers code points below 256).  A dictionary is its list of items in insertion order with
  string keys, as the JSON readers produce it.
\<close>

section \<open>Values\<close>

datatype pyval =
    PNone
  | PBool bool
  | PInt int
  | PFloat f64
  | PStr string
  | PList "pyval list"
  | PTuple "pyval list"
  | PDict "(string \<times> pyval) list"

text \<open>
  A parameter that the source requires to be an instance of one of its own classes
  (\<open>isinstance(guard, ScalarGuard)\<close>): an instance, or some other value.
\<close>

datatype 'a arg = Inst 'a | Other pyval

fun arg_insts :: "'a arg list \<Rightarrow> 'a list option" where
  "arg_insts [] = Some []"
| "arg_insts (Inst x # xs) = map_option ((#) x) (arg_insts xs)"
| "arg_insts (Other _ # xs) = None"

lemma arg_insts_Some_iff: "arg_insts xs = Some ys \<longleftrightarrow> xs = map Inst ys"
  by (induction xs arbitrary: ys rule: arg_insts.induct) (auto simp: Cons_eq_map_conv)

lemma arg_insts_map_Inst [simp]: "arg_insts (map Inst ys) = Some ys"
  by (simp add: arg_insts_Some_iff)

section \<open>Equality\<close>

text \<open>
  Python's \<open>==\<close>: numbers compare by value across \<open>bool\<close>, \<open>int\<close> and \<open>float\<close>, a list never
  equals a tuple, and dictionaries compare as finite maps.
\<close>

fun num_of :: "pyval \<Rightarrow> f64 option" where
  "num_of (PBool b) = Some (Fin (if b then 1 else 0))"
| "num_of (PInt n) = Some (Fin (of_int n))"
| "num_of (PFloat f) = Some f"
| "num_of _ = None"

fun py_eq :: "pyval \<Rightarrow> pyval \<Rightarrow> bool"
  and py_eq_list :: "pyval list \<Rightarrow> pyval list \<Rightarrow> bool"
  and py_sub_dict :: "(string \<times> pyval) list \<Rightarrow> (string \<times> pyval) list \<Rightarrow> bool"
  and py_has_item :: "(string \<times> pyval) \<Rightarrow> (string \<times> pyval) list \<Rightarrow> bool" where
  "py_eq (PList xs) (PList ys) = py_eq_list xs ys"
| "py_eq (PTuple xs) (PTuple ys) = py_eq_list xs ys"
| "py_eq (PDict xs) (PDict ys) = (length xs = length ys \<and> py_sub_dict xs ys)"
| "py_eq PNone PNone = True"
| "py_eq (PStr s) (PStr t) = (s = t)"
| "py_eq x y = (case num_of x of None \<Rightarrow> False
     | Some a \<Rightarrow> (case num_of y of None \<Rightarrow> False | Some b \<Rightarrow> f64_eq a b))"
| "py_eq_list [] [] = True"
| "py_eq_list (x # xs) (y # ys) = (py_eq x y \<and> py_eq_list xs ys)"
| "py_eq_list _ _ = False"
| "py_sub_dict [] ys = True"
| "py_sub_dict (x # xs) ys = (py_has_item x ys \<and> py_sub_dict xs ys)"
| "py_has_item (k, v) [] = False"
| "py_has_item (k, v) ((k', v') # ys) = (if k = k' then py_eq v v' else py_has_item (k, v) ys)"

lemma py_eq_int_iff: "py_eq v (PInt n) \<longleftrightarrow>
    v = PInt n \<or> v = PFloat (Fin (of_int n)) \<or> (\<exists>b. v = PBool b \<and> n = (if b then 1 else 0))"
  by (cases v) (auto elim: f64_eq.elims)

lemma py_eq_str_iff: "py_eq v (PStr s) \<longleftrightarrow> v = PStr s"
  by (cases v) auto

lemma py_eq_str_iff2: "py_eq (PStr s) v \<longleftrightarrow> v = PStr s"
  by (cases v) auto

section \<open>Type tests\<close>

text \<open>\<open>isinstance(v, int) and not isinstance(v, bool)\<close>, with its value.\<close>

fun as_int :: "pyval \<Rightarrow> int option" where
  "as_int (PInt n) = Some n"
| "as_int _ = None"

fun as_str :: "pyval \<Rightarrow> string option" where
  "as_str (PStr s) = Some s"
| "as_str _ = None"

fun as_dict :: "pyval \<Rightarrow> (string \<times> pyval) list option" where
  "as_dict (PDict d) = Some d"
| "as_dict _ = None"

fun as_list :: "pyval \<Rightarrow> pyval list option" where
  "as_list (PList xs) = Some xs"
| "as_list _ = None"

text \<open>\<open>isinstance(v, Sequence)\<close> without \<open>str\<close> and \<open>bytes\<close>.\<close>

fun as_sequence :: "pyval \<Rightarrow> pyval list option" where
  "as_sequence (PList xs) = Some xs"
| "as_sequence (PTuple xs) = Some xs"
| "as_sequence _ = None"

lemma as_Some_iff [simp]:
  "as_int v = Some n \<longleftrightarrow> v = PInt n"
  "as_str v = Some s \<longleftrightarrow> v = PStr s"
  "as_dict v = Some d \<longleftrightarrow> v = PDict d"
  "as_list v = Some xs \<longleftrightarrow> v = PList xs"
  by (cases v; simp)+

definition bounded_int :: "int \<Rightarrow> int \<Rightarrow> pyval \<Rightarrow> bool" where
  "bounded_int lo hi v = (case v of PInt n \<Rightarrow> lo \<le> n \<and> n \<le> hi | _ \<Rightarrow> False)"

lemma bounded_int_iff: "bounded_int lo hi v \<longleftrightarrow> (\<exists>n. v = PInt n \<and> lo \<le> n \<and> n \<le> hi)"
  by (cases v) (auto simp: bounded_int_def)

text \<open>
  \<open>isinstance(v, Real)\<close> without \<open>bool\<close>, then \<open>float(v)\<close>: what the numeric readers of the
  contracts share.  \<open>float\<close> of an integer beyond the binary64 range raises \<open>OverflowError\<close>.
\<close>

datatype num_read = NotNumeric | Overflow | Number f64

fun read_number :: "pyval \<Rightarrow> num_read" where
  "read_number (PInt n) = (case float_of_int n of None \<Rightarrow> Overflow | Some f \<Rightarrow> Number f)"
| "read_number (PFloat f) = Number f"
| "read_number _ = NotNumeric"

text \<open>Every float inside a value is a binary64 value.\<close>

fun py_ok :: "pyval \<Rightarrow> bool" where
  "py_ok (PFloat f) = f64_ok f"
| "py_ok (PList xs) = (\<forall>x \<in> set xs. py_ok x)"
| "py_ok (PTuple xs) = (\<forall>x \<in> set xs. py_ok x)"
| "py_ok (PDict d) = (\<forall>x \<in> set d. py_ok (snd x))"
| "py_ok _ = True"

lemma read_number_ok: "read_number v = Number f \<Longrightarrow> py_ok v \<Longrightarrow> f64_ok f"
  by (cases v) (auto split: option.splits dest: float_of_int_SomeD)

lemma read_number_PFloat_iff: "read_number (PFloat f) = Number g \<longleftrightarrow> f = g"
  by simp

section \<open>Dictionaries\<close>

definition dict_get :: "(string \<times> pyval) list \<Rightarrow> string \<Rightarrow> pyval option" where
  "dict_get d k = map_of d k"

definition dict_keys :: "(string \<times> pyval) list \<Rightarrow> string list" where
  "dict_keys d = map fst d"

text \<open>\<open>set(d) == keys\<close>, for a dictionary whose keys are distinct.\<close>

definition keys_are :: "string list \<Rightarrow> (string \<times> pyval) list \<Rightarrow> bool" where
  "keys_are ks d \<longleftrightarrow> set (dict_keys d) = set ks"

lemma dict_get_keys_are: "keys_are ks d \<Longrightarrow> k \<in> set ks \<Longrightarrow> \<exists>v. dict_get d k = Some v"
  unfolding keys_are_def dict_keys_def dict_get_def
  by (metis domD dom_map_of_conv_image_fst image_set)

lemma dict_get_in: "dict_get d k = Some v \<Longrightarrow> (k, v) \<in> set d"
  by (simp add: dict_get_def map_of_SomeD)

lemma py_ok_dict_get: "py_ok (PDict d) \<Longrightarrow> dict_get d k = Some v \<Longrightarrow> py_ok v"
  using dict_get_in by fastforce

section \<open>Canonical JSON\<close>

text \<open>
  \<open>json.dumps(v, sort_keys=True, separators=(",", ":"), ensure_ascii=False)\<close>, the text that
  every content hash of the program is taken of.  The decimal text of a float is a
  parameter (\<open>float.__repr__\<close>), as is the SHA-256 digest.
\<close>

record hasher =
  float_repr :: "f64 \<Rightarrow> string"
  sha256_hex :: "string \<Rightarrow> string"

fun digit_char :: "nat \<Rightarrow> char" where
  "digit_char n = char_of (48 + n)"

fun nat_text :: "nat \<Rightarrow> string" where
  "nat_text n = (if n < 10 then [digit_char n] else nat_text (n div 10) @ [digit_char (n mod 10)])"

declare nat_text.simps [simp del]

definition int_text :: "int \<Rightarrow> string" where
  "int_text n = (if n < 0 then CHR ''-'' # nat_text (nat (- n)) else nat_text (nat n))"

definition hex_char :: "nat \<Rightarrow> char" where
  "hex_char n = (if n < 10 then char_of (48 + n) else char_of (87 + n))"

definition escape_char :: "char \<Rightarrow> string" where
  "escape_char c = (let n = code_of c in
     if n = 34 then [char_of (92::nat), char_of (34::nat)]
     else if n = 92 then [char_of (92::nat), char_of (92::nat)]
     else if n = 10 then [char_of (92::nat), CHR ''n'']
     else if n = 13 then [char_of (92::nat), CHR ''r'']
     else if n = 9 then [char_of (92::nat), CHR ''t'']
     else if n = 12 then [char_of (92::nat), CHR ''f'']
     else if n = 8 then [char_of (92::nat), CHR ''b'']
     else if n < 32 then [char_of (92::nat), CHR ''u'', CHR ''0'', CHR ''0'', hex_char (n div 16), hex_char (n mod 16)]
     else [c])"

definition string_text :: "string \<Rightarrow> string" where
  "string_text s = [char_of (34::nat)] @ concat (map escape_char s) @ [char_of (34::nat)]"

fun join :: "string \<Rightarrow> string list \<Rightarrow> string" where
  "join sep [] = []"
| "join sep [x] = x"
| "join sep (x # xs) = x @ sep @ join sep xs"

text \<open>The items sorted by key; a stable sort, so a repeated key would keep its order.\<close>

fun canonical_json :: "(f64 \<Rightarrow> string) \<Rightarrow> pyval \<Rightarrow> string" where
  "canonical_json fr PNone = ''null''"
| "canonical_json fr (PBool b) = (if b then ''true'' else ''false'')"
| "canonical_json fr (PInt n) = int_text n"
| "canonical_json fr (PFloat f) = fr f"
| "canonical_json fr (PStr s) = string_text s"
| "canonical_json fr (PList xs) = ''['' @ join '','' (map (canonical_json fr) xs) @ '']''"
| "canonical_json fr (PTuple xs) = ''['' @ join '','' (map (canonical_json fr) xs) @ '']''"
| "canonical_json fr (PDict d) =
     ''{'' @ join '','' (map snd (sort_key fst
        (map (\<lambda>(k, v). (k, string_text k @ '':'' @ canonical_json fr v)) d))) @ ''}''"

definition content_hash :: "hasher \<Rightarrow> pyval \<Rightarrow> string" where
  "content_hash h v = sha256_hex h (canonical_json (float_repr h) v)"

end
