(* ===== verification/Reference.thy ===== *)
theory Reference
  imports PyValues
begin

text \<open>
  \<^verbatim>\<open>src/oracle_composition/contracts/reference.py\<close>: immutable, content-addressed reference data.
  A schema, an identity and an artifact are records; each constructor takes the dynamic
  values that \<open>__post_init__\<close> tests and returns the record or the contract error.  The last
  section proves the laws the oracle runtime relies on: rows are rectangular and finite, an
  artifact that \<open>create\<close> builds verifies, and a window holds the final admitted frame.
\<close>

section \<open>Errors and scalar readers\<close>

datatype ref_error =
    NotNumericScalar string | NotFinite string
  | FeatureNamesNotSequence | FeatureUnitsNotSequence
  | NoFeatures | FeatureLengthsDiffer | FeatureNamesNotUnique
  | InvalidFeatureName | EmptyUnit | RootFrameEmpty | RootFrameWhitespace | CadenceNotPositive
  | InvalidArtifactId | NotSha256 string | NotPositiveInt string
  | WindowIndicesAndRowsDiffer | WindowShape | WindowIndexNegative
  | RowsNotSequence | RowsNotIterable | RowNotSequence nat | RowWidth nat | NoRows
  | IdentityMismatch "string list"
  | NotAnInteger string | HorizonOutOfRange | EndNotInteger | WindowBounds
  | SchemaMismatch "string list"
  | RaisesTypeError | RaisesOverflowError

definition MAX_HORIZON_STEPS :: int where
  "MAX_HORIZON_STEPS = 256"

text \<open>The patterns \<open>_IDENTIFIER\<close>, \<open>_FEATURE_NAME\<close> and \<open>_SHA256\<close>.\<close>

definition is_identifier :: "string \<Rightarrow> bool" where
  "is_identifier s = head_tail (\<lambda>c. is_alpha c \<or> is_digit c) is_ident_tail 255 s"

definition is_feature_name :: "string \<Rightarrow> bool" where
  "is_feature_name s = head_tail is_alpha is_ident_tail 127 s"

definition is_sha256 :: "string \<Rightarrow> bool" where
  "is_sha256 s \<longleftrightarrow> length s = 64 \<and> list_all is_lower_hex s"

definition finite_number :: "string \<Rightarrow> pyval \<Rightarrow> ref_error + f64" where
  "finite_number field v = (case read_number v of
       NotNumeric \<Rightarrow> Inl (NotNumericScalar field)
     | Overflow \<Rightarrow> Inl RaisesOverflowError
     | Number f \<Rightarrow> if is_finite f then Inr f else Inl (NotFinite field))"

lemma finite_number_InrD: "finite_number field v = Inr f \<Longrightarrow> is_finite f \<and> read_number v = Number f"
  by (auto simp: finite_number_def split: num_read.splits if_splits)

lemma finite_number_PFloat [simp]: "is_finite f \<Longrightarrow> finite_number field (PFloat f) = Inr f"
  by (simp add: finite_number_def)

section \<open>Schemas\<close>

record ref_schema =
  feature_names :: "string list"
  feature_units :: "string list"
  root_frame :: string
  cadence_hz :: f64

text \<open>\<open>len(set(names)) != len(names)\<close>; a set of an unhashable value raises \<open>TypeError\<close>.\<close>

fun py_hashable :: "pyval \<Rightarrow> bool" where
  "py_hashable (PList _) = False"
| "py_hashable (PDict _) = False"
| "py_hashable (PTuple xs) = (\<forall>x \<in> set xs. py_hashable x)"
| "py_hashable _ = True"

fun py_distinct :: "pyval list \<Rightarrow> bool" where
  "py_distinct [] = True"
| "py_distinct (x # xs) = ((\<forall>y \<in> set xs. \<not> py_eq x y) \<and> py_distinct xs)"

lemma py_distinct_strs [simp]: "py_distinct (map PStr ss) = distinct ss"
  by (induction ss) auto

fun strs_of :: "pyval list \<Rightarrow> string list" where
  "strs_of [] = []"
| "strs_of (PStr s # xs) = s # strs_of xs"
| "strs_of (_ # xs) = strs_of xs"

lemma strs_of_map [simp]: "strs_of (map PStr ss) = ss"
  by (induction ss) auto

lemma all_strs: "(\<forall>v \<in> set vs. case as_str v of None \<Rightarrow> False | Some s \<Rightarrow> P s) \<Longrightarrow>
    vs = map PStr (strs_of vs) \<and> (\<forall>s \<in> set (strs_of vs). P s)"
  by (induction vs rule: strs_of.induct) auto

definition str_satisfies :: "(string \<Rightarrow> bool) \<Rightarrow> pyval \<Rightarrow> bool" where
  "str_satisfies P v = (case as_str v of None \<Rightarrow> False | Some s \<Rightarrow> P s)"

lemma str_satisfies_iff: "str_satisfies P v \<longleftrightarrow> (\<exists>s. v = PStr s \<and> P s)"
  by (cases v) (auto simp: str_satisfies_def)

definition mk_schema :: "pyval \<Rightarrow> pyval \<Rightarrow> pyval \<Rightarrow> pyval \<Rightarrow> ref_error + ref_schema" where
  "mk_schema names units frame cadence = (case as_sequence names of
      None \<Rightarrow> Inl FeatureNamesNotSequence
    | Some ns \<Rightarrow> (case as_sequence units of
        None \<Rightarrow> Inl FeatureUnitsNotSequence
      | Some us \<Rightarrow> bindE (finite_number ''cadence_hz'' cadence) (\<lambda>hz.
          if ns = [] then Inl NoFeatures
          else if length ns \<noteq> length us then Inl FeatureLengthsDiffer
          else if \<not> list_all py_hashable ns then Inl RaisesTypeError
          else if \<not> py_distinct ns then Inl FeatureNamesNotUnique
          else if \<not> list_all (str_satisfies is_feature_name) ns then Inl InvalidFeatureName
          else if \<not> list_all (str_satisfies (\<lambda>u. strip u \<noteq> [])) us then Inl EmptyUnit
          else if \<not> str_satisfies (\<lambda>r. strip r \<noteq> []) frame then Inl RootFrameEmpty
          else if \<not> str_satisfies (\<lambda>r. r = strip r) frame then Inl RootFrameWhitespace
          else if f64_le hz (Fin 0) then Inl CadenceNotPositive
          else Inr \<lparr>feature_names = strs_of ns, feature_units = strs_of us,
                    root_frame = (case frame of PStr r \<Rightarrow> r | _ \<Rightarrow> []), cadence_hz = hz\<rparr>)))"

definition schema_ok :: "ref_schema \<Rightarrow> bool" where
  "schema_ok s \<longleftrightarrow> feature_names s \<noteq> [] \<and> distinct (feature_names s) \<and>
     length (feature_units s) = length (feature_names s) \<and>
     (\<forall>n \<in> set (feature_names s). is_feature_name n) \<and>
     (\<forall>u \<in> set (feature_units s). strip u \<noteq> []) \<and>
     strip (root_frame s) \<noteq> [] \<and> root_frame s = strip (root_frame s) \<and>
     (\<exists>r. cadence_hz s = Fin r \<and> 0 < r)"

definition schema_width :: "ref_schema \<Rightarrow> nat" where
  "schema_width s = length (feature_names s)"

lemma mk_schema_ok: "mk_schema names units frame cadence = Inr s \<Longrightarrow> schema_ok s"
proof -
  assume h: "mk_schema names units frame cadence = Inr s"
  then obtain ns us hz where n: "ns \<noteq> []" "length ns = length us" "py_distinct ns"
      "list_all (str_satisfies is_feature_name) ns"
      "list_all (str_satisfies (\<lambda>u. strip u \<noteq> [])) us"
      "str_satisfies (\<lambda>r. strip r \<noteq> []) frame" "str_satisfies (\<lambda>r. r = strip r) frame"
      "\<not> f64_le hz (Fin 0)" "is_finite hz"
    and s: "s = \<lparr>feature_names = strs_of ns, feature_units = strs_of us,
                 root_frame = (case frame of PStr r \<Rightarrow> r | _ \<Rightarrow> []), cadence_hz = hz\<rparr>"
    by (auto simp: mk_schema_def dest: finite_number_InrD split: option.splits if_splits)
  have a: "ns = map PStr (strs_of ns)" "\<forall>x \<in> set (strs_of ns). is_feature_name x"
    using all_strs[of ns is_feature_name] n(4) by (simp_all add: list_all_iff str_satisfies_def)
  have b: "us = map PStr (strs_of us)" "\<forall>x \<in> set (strs_of us). strip x \<noteq> []"
    using all_strs[of us "\<lambda>u. strip u \<noteq> []"] n(5) by (simp_all add: list_all_iff str_satisfies_def)
  have "distinct (strs_of ns)" using n(3) a(1) by (metis py_distinct_strs)
  moreover have "strs_of ns \<noteq> []" using n(1) a(1) by auto
  moreover have "length (strs_of us) = length (strs_of ns)" using n(2) a(1) b(1) by (metis length_map)
  moreover obtain r where "hz = Fin r" using n(9) by (auto simp: is_finite_iff)
  ultimately show "schema_ok s"
    using n(6-8) a(2) b(2) by (auto simp: schema_ok_def s str_satisfies_iff)
qed

definition schema_to_dict :: "ref_schema \<Rightarrow> pyval" where
  "schema_to_dict s = PDict [
     (''feature_names'', PList (map PStr (feature_names s))),
     (''feature_units'', PList (map PStr (feature_units s))),
     (''root_frame'', PStr (root_frame s)),
     (''cadence_hz'', PFloat (cadence_hz s))]"

definition schema_sha256_of :: "hasher \<Rightarrow> ref_schema \<Rightarrow> string" where
  "schema_sha256_of h s = content_hash h (schema_to_dict s)"

definition assert_exact_schema :: "ref_schema \<Rightarrow> ref_schema \<Rightarrow> ref_error + unit" where
  "assert_exact_schema expected observed = (let mismatches =
       (if feature_names observed \<noteq> feature_names expected then [''ordered feature_names''] else []) @
       (if feature_units observed \<noteq> feature_units expected then [''ordered feature_units''] else []) @
       (if root_frame observed \<noteq> root_frame expected then [''root_frame''] else []) @
       (if \<not> f64_eq (cadence_hz observed) (cadence_hz expected) then [''cadence_hz''] else [])
     in if mismatches \<noteq> [] then Inl (SchemaMismatch mismatches) else Inr ())"

lemma assert_exact_schema_iff:
  assumes "schema_ok expected"
  shows "assert_exact_schema expected observed = Inr () \<longleftrightarrow> observed = expected"
  using assms by (auto simp: assert_exact_schema_def schema_ok_def Let_def split: if_splits
      elim: f64_eq.elims)

section \<open>Identities\<close>

record ref_identity =
  artifact_id :: string
  content_sha256 :: string
  schema_sha256 :: string
  n_frames :: int
  n_features :: int

definition mk_identity :: "pyval \<Rightarrow> pyval \<Rightarrow> pyval \<Rightarrow> pyval \<Rightarrow> pyval \<Rightarrow> ref_error + ref_identity" where
  "mk_identity aid csha ssha frames features =
     (if \<not> str_satisfies is_identifier aid then Inl InvalidArtifactId
      else if \<not> str_satisfies is_sha256 csha then Inl (NotSha256 ''content_sha256'')
      else if \<not> str_satisfies is_sha256 ssha then Inl (NotSha256 ''schema_sha256'')
      else case as_int frames of None \<Rightarrow> Inl (NotPositiveInt ''n_frames'')
      | Some nf \<Rightarrow> if nf < 1 then Inl (NotPositiveInt ''n_frames'')
        else (case as_int features of None \<Rightarrow> Inl (NotPositiveInt ''n_features'')
        | Some nx \<Rightarrow> if nx < 1 then Inl (NotPositiveInt ''n_features'')
          else Inr \<lparr>artifact_id = (case aid of PStr s \<Rightarrow> s | _ \<Rightarrow> []),
                    content_sha256 = (case csha of PStr s \<Rightarrow> s | _ \<Rightarrow> []),
                    schema_sha256 = (case ssha of PStr s \<Rightarrow> s | _ \<Rightarrow> []),
                    n_frames = nf, n_features = nx\<rparr>))"

definition identity_ok :: "ref_identity \<Rightarrow> bool" where
  "identity_ok i \<longleftrightarrow> is_identifier (artifact_id i) \<and> is_sha256 (content_sha256 i) \<and>
     is_sha256 (schema_sha256 i) \<and> 1 \<le> n_frames i \<and> 1 \<le> n_features i"

lemma mk_identity_ok: "mk_identity a c s f x = Inr i \<Longrightarrow> identity_ok i"
  by (auto simp: mk_identity_def identity_ok_def str_satisfies_iff split: if_splits option.splits)

lemma mk_identity_Inr:
  assumes "identity_ok i"
  shows "mk_identity (PStr (artifact_id i)) (PStr (content_sha256 i)) (PStr (schema_sha256 i))
           (PInt (n_frames i)) (PInt (n_features i)) = Inr i"
  using assms by (auto simp: mk_identity_def identity_ok_def str_satisfies_iff)

section \<open>Windows\<close>

text \<open>
  \<open>ReferenceWindow\<close>, built only from integer indices and float rows; the tests of the
  constructor that remain at these types are its shape, its sign and its finiteness checks.
\<close>

record ref_window =
  frame_indices :: "int list"
  window_values :: "f64 list list"

definition mk_window :: "int list \<Rightarrow> f64 list list \<Rightarrow> ref_error + ref_window" where
  "mk_window indices rows =
     (if indices = [] \<or> length indices \<noteq> length rows then Inl WindowIndicesAndRowsDiffer
      else let width = length (hd rows) in
        if width < 1 \<or> (\<exists>row \<in> set rows. length row \<noteq> width) then Inl WindowShape
        else if \<exists>i \<in> set indices. i < 0 then Inl WindowIndexNegative
        else bindE (mapE (mapE (\<lambda>v. finite_number ''window'' (PFloat v))) rows) (\<lambda>_.
          Inr \<lparr>frame_indices = indices, window_values = rows\<rparr>))"

text \<open>The items a \<open>for\<close> loop over the value visits; \<open>None\<close> when it is not iterable.\<close>

fun py_iter :: "pyval \<Rightarrow> pyval list option" where
  "py_iter (PList xs) = Some xs"
| "py_iter (PTuple xs) = Some xs"
| "py_iter (PDict d) = Some (map (\<lambda>(k, _). PStr k) d)"
| "py_iter (PStr s) = Some (map (\<lambda>c. PStr [c]) s)"
| "py_iter _ = None"

fun is_str :: "pyval \<Rightarrow> bool" where
  "is_str (PStr _) = True"
| "is_str _ = False"

definition canonical_row :: "nat \<Rightarrow> nat \<times> pyval \<Rightarrow> ref_error + f64 list" where
  "canonical_row width = (\<lambda>(row_index, row).
     if is_str row then Inl (RowNotSequence row_index)
     else case py_iter row of None \<Rightarrow> Inl (RowNotSequence row_index)
     | Some row_values \<Rightarrow>
         if length row_values \<noteq> width then Inl (RowWidth row_index)
         else mapE (finite_number ''reference'') row_values)"

definition canonical_rows :: "pyval \<Rightarrow> nat \<Rightarrow> ref_error + f64 list list" where
  "canonical_rows rows width =
     (if is_str rows then Inl RowsNotSequence
      else case py_iter rows of None \<Rightarrow> Inl RowsNotIterable
      | Some rs \<Rightarrow> bindE (mapE (canonical_row width) (enum_from 0 rs)) (\<lambda>canonical.
          if canonical = [] then Inl NoRows else Inr canonical))"

definition rows_value :: "f64 list list \<Rightarrow> pyval" where
  "rows_value rows = PTuple (map (\<lambda>row. PTuple (map PFloat row)) rows)"

definition rows_ok :: "nat \<Rightarrow> f64 list list \<Rightarrow> bool" where
  "rows_ok width rows \<longleftrightarrow> rows \<noteq> [] \<and> (\<forall>row \<in> set rows. length row = width \<and> (\<forall>v \<in> set row. is_finite v))"

lemma canonical_row_ok:
  "canonical_row width p = Inr row \<Longrightarrow> length row = width \<and> (\<forall>v \<in> set row. is_finite v)"
  by (auto simp: canonical_row_def split: if_splits option.splits prod.splits
      dest: mapE_length mapE_in_set finite_number_InrD)

lemma canonical_rows_ok: "canonical_rows rows width = Inr canonical \<Longrightarrow> rows_ok width canonical"
proof -
  assume h: "canonical_rows rows width = Inr canonical"
  then obtain rs where r: "mapE (canonical_row width) (enum_from 0 rs) = Inr canonical" "canonical \<noteq> []"
    by (auto simp: canonical_rows_def split: if_splits option.splits)
  have "length row = width \<and> (\<forall>v \<in> set row. is_finite v)" if "row \<in> set canonical" for row
    using mapE_in_set[OF r(1) that] canonical_row_ok by blast
  with r(2) show ?thesis by (simp add: rows_ok_def)
qed

lemma canonical_row_PTuple:
  assumes "length row = width" "\<forall>v \<in> set row. is_finite v"
  shows "canonical_row width (i, PTuple (map PFloat row)) = Inr row"
proof -
  have "mapE (finite_number ''reference'') (map PFloat row) = Inr row"
    using assms(2) by (auto simp: mapE_Inr_iff list_all2_conv_all_nth)
  then show ?thesis using assms(1) by (simp add: canonical_row_def)
qed

lemma set_enum_from: "p \<in> set (enum_from n xs) \<Longrightarrow> snd p \<in> set xs"
  by (induction xs arbitrary: n) auto

lemma canonical_rows_value: "rows_ok width rows \<Longrightarrow> canonical_rows (rows_value rows) width = Inr rows"
proof -
  assume ok: "rows_ok width rows"
  have "mapE (canonical_row width) (enum_from n (map (\<lambda>row. PTuple (map PFloat row)) rs)) = Inr rs"
    if "\<forall>row \<in> set rs. length row = width \<and> (\<forall>v \<in> set row. is_finite v)" for n rs
    using that by (induction rs arbitrary: n) (auto simp: canonical_row_PTuple)
  then show ?thesis using ok by (simp add: canonical_rows_def rows_value_def rows_ok_def)
qed

section \<open>Artifacts\<close>

record ref_artifact =
  art_identity :: ref_identity
  art_schema :: ref_schema
  art_values :: "f64 list list"

definition reference_content_sha256 :: "hasher \<Rightarrow> ref_schema \<Rightarrow> f64 list list \<Rightarrow> string" where
  "reference_content_sha256 h schema rows = content_hash h (PDict [
     (''schema'', schema_to_dict schema),
     (''shape'', PList [PInt (int (length rows)), PInt (int (schema_width schema))]),
     (''values'', PList (map (\<lambda>row. PList (map PFloat row)) rows))])"

definition verify_artifact :: "hasher \<Rightarrow> ref_artifact \<Rightarrow> ref_error + unit" where
  "verify_artifact h a = (let i = art_identity a; schema = art_schema a; errors =
       (if schema_sha256 i \<noteq> schema_sha256_of h schema then [''schema hash''] else []) @
       (if n_frames i \<noteq> int (length (art_values a)) then [''frame count''] else []) @
       (if n_features i \<noteq> int (schema_width schema) then [''feature count''] else []) @
       (if content_sha256 i \<noteq> reference_content_sha256 h schema (art_values a) then [''content hash''] else [])
     in if errors \<noteq> [] then Inl (IdentityMismatch errors) else Inr ())"

definition mk_artifact :: "hasher \<Rightarrow> ref_identity \<Rightarrow> ref_schema \<Rightarrow> pyval \<Rightarrow> ref_error + ref_artifact" where
  "mk_artifact h i schema values = bindE (canonical_rows values (schema_width schema)) (\<lambda>rows.
     let a = \<lparr>art_identity = i, art_schema = schema, art_values = rows\<rparr>
     in bindE (verify_artifact h a) (\<lambda>_. Inr a))"

definition create_artifact :: "hasher \<Rightarrow> pyval \<Rightarrow> ref_schema \<Rightarrow> pyval \<Rightarrow> ref_error + ref_artifact" where
  "create_artifact h aid schema values = bindE (canonical_rows values (schema_width schema)) (\<lambda>rows.
     bindE (mk_identity aid (PStr (reference_content_sha256 h schema rows))
              (PStr (schema_sha256_of h schema)) (PInt (int (length rows)))
              (PInt (int (schema_width schema)))) (\<lambda>i.
     mk_artifact h i schema (rows_value rows)))"

text \<open>What the runtime may assume of an artifact that was constructed.\<close>

definition artifact_ok :: "hasher \<Rightarrow> ref_artifact \<Rightarrow> bool" where
  "artifact_ok h a \<longleftrightarrow> schema_ok (art_schema a) \<and> identity_ok (art_identity a) \<and>
     rows_ok (schema_width (art_schema a)) (art_values a) \<and> verify_artifact h a = Inr ()"

lemma verify_artifact_iff: "verify_artifact h a = Inr () \<longleftrightarrow>
    schema_sha256 (art_identity a) = schema_sha256_of h (art_schema a) \<and>
    n_frames (art_identity a) = int (length (art_values a)) \<and>
    n_features (art_identity a) = int (schema_width (art_schema a)) \<and>
    content_sha256 (art_identity a) = reference_content_sha256 h (art_schema a) (art_values a)"
  by (simp add: verify_artifact_def Let_def)

lemma mk_artifact_ok:
  "mk_artifact h i schema values = Inr a \<Longrightarrow> schema_ok schema \<Longrightarrow> identity_ok i \<Longrightarrow> artifact_ok h a"
  by (auto simp: mk_artifact_def artifact_ok_def Let_def dest: canonical_rows_ok)

lemma create_artifact_ok:
  "create_artifact h aid schema values = Inr a \<Longrightarrow> schema_ok schema \<Longrightarrow> artifact_ok h a"
  by (auto simp: create_artifact_def intro: mk_artifact_ok dest: mk_identity_ok)

lemma artifact_n_frames: "artifact_ok h a \<Longrightarrow> n_frames (art_identity a) = int (length (art_values a))"
  by (simp add: artifact_ok_def verify_artifact_iff)

lemma create_artifact_total:
  assumes schema: "schema_ok schema" and rows: "canonical_rows values (schema_width schema) = Inr rows"
    and aid: "is_identifier aid" and hash: "\<And>s. is_sha256 (sha256_hex h s)"
  shows "\<exists>a. create_artifact h (PStr aid) schema values = Inr a \<and> art_values a = rows \<and>
    artifact_id (art_identity a) = aid"
proof -
  define i where "i = \<lparr>artifact_id = aid, content_sha256 = reference_content_sha256 h schema rows,
    schema_sha256 = schema_sha256_of h schema, n_frames = int (length rows),
    n_features = int (schema_width schema)\<rparr>"
  have r: "rows_ok (schema_width schema) rows" using rows by (rule canonical_rows_ok)
  have "identity_ok i"
    using schema aid hash r
    by (auto simp: i_def identity_ok_def reference_content_sha256_def schema_sha256_of_def
        content_hash_def rows_ok_def schema_ok_def schema_width_def Suc_le_eq)
  then have "mk_identity (PStr aid) (PStr (reference_content_sha256 h schema rows))
      (PStr (schema_sha256_of h schema)) (PInt (int (length rows))) (PInt (int (schema_width schema))) = Inr i"
    using mk_identity_Inr[of i] by (simp add: i_def)
  moreover have "mk_artifact h i schema (rows_value rows) =
      Inr \<lparr>art_identity = i, art_schema = schema, art_values = rows\<rparr>"
    using r by (simp add: mk_artifact_def canonical_rows_value verify_artifact_iff Let_def i_def)
  ultimately show ?thesis using rows by (simp add: create_artifact_def i_def)
qed

text \<open>
  \<open>window\<close>: the arguments are dynamic; \<open>end_exclusive\<close> is \<open>None\<close> for the Python default.
  Every index the comprehension reads is below \<open>stop \<le> len(values)\<close>.
\<close>

definition window :: "ref_artifact \<Rightarrow> pyval \<Rightarrow> pyval \<Rightarrow> pyval option \<Rightarrow> ref_error + ref_window" where
  "window a start_frame horizon_steps end_exclusive = (let len = int (length (art_values a)) in
     case as_int start_frame of None \<Rightarrow> Inl (NotAnInteger ''start_frame'')
     | Some start \<Rightarrow> (case as_int horizon_steps of None \<Rightarrow> Inl (NotAnInteger ''horizon_steps'')
       | Some horizon \<Rightarrow>
         if \<not> (1 \<le> horizon \<and> horizon \<le> MAX_HORIZON_STEPS) then Inl HorizonOutOfRange
         else (case (case end_exclusive of None \<Rightarrow> Some len | Some e \<Rightarrow> as_int e) of
             None \<Rightarrow> Inl EndNotInteger
           | Some stop \<Rightarrow>
             if \<not> (0 \<le> start \<and> start < stop \<and> stop \<le> len) then Inl WindowBounds
             else let indices = map (\<lambda>offset. min (start + int offset) (stop - 1)) [0..<nat horizon]
               in mk_window indices (map (\<lambda>index. art_values a ! nat index) indices))))"

lemma mapE_finite: "\<forall>row \<in> set rows. \<forall>v \<in> set row. is_finite v \<Longrightarrow>
    mapE (mapE (\<lambda>v. finite_number ''window'' (PFloat v))) rows = Inr rows"
proof -
  assume fin: "\<forall>row \<in> set rows. \<forall>v \<in> set row. is_finite v"
  have "mapE (\<lambda>v. finite_number ''window'' (PFloat v)) row = Inr (map id row)" if "row \<in> set rows" for row
    using fin that by (intro mapE_id) simp
  then have "mapE (mapE (\<lambda>v. finite_number ''window'' (PFloat v))) rows = Inr (map id rows)"
    by (intro mapE_id) simp
  then show ?thesis by simp
qed

lemma mk_window_Inr:
  assumes "indices \<noteq> []" "length indices = length rows" "0 < width"
    and "\<forall>row \<in> set rows. length row = width \<and> (\<forall>v \<in> set row. is_finite v)"
    and "\<forall>i \<in> set indices. 0 \<le> i"
  shows "mk_window indices rows = Inr \<lparr>frame_indices = indices, window_values = rows\<rparr>"
proof -
  have rows: "rows \<noteq> []" using assms(1,2) by auto
  then have "length (hd rows) = width" using assms(4) by simp
  then show ?thesis using assms by (auto simp: mk_window_def Let_def mapE_finite not_less)
qed

lemma window_Inr:
  assumes ok: "artifact_ok h a" and h: "1 \<le> horizon" "horizon \<le> MAX_HORIZON_STEPS"
    and b: "0 \<le> start" "start < stop" "stop \<le> int (length (art_values a))"
  shows "window a (PInt start) (PInt horizon) (Some (PInt stop)) = Inr
    \<lparr>frame_indices = map (\<lambda>k. min (start + int k) (stop - 1)) [0..<nat horizon],
     window_values = map (\<lambda>k. art_values a ! nat (min (start + int k) (stop - 1))) [0..<nat horizon]\<rparr>"
proof -
  let ?ix = "map (\<lambda>k. min (start + int k) (stop - 1)) [0..<nat horizon]"
  have rows: "rows_ok (schema_width (art_schema a)) (art_values a)" and sch: "schema_ok (art_schema a)"
    using ok by (simp_all add: artifact_ok_def)
  have in_rows: "art_values a ! nat (min (start + int k) (stop - 1)) \<in> set (art_values a)" for k
    using b by (intro nth_mem) auto
  have "mk_window ?ix (map (\<lambda>i. art_values a ! nat i) ?ix) =
      Inr \<lparr>frame_indices = ?ix, window_values = map (\<lambda>i. art_values a ! nat i) ?ix\<rparr>"
  proof (rule mk_window_Inr)
    show "0 < schema_width (art_schema a)" using sch by (simp add: schema_ok_def schema_width_def)
    show "\<forall>row \<in> set (map (\<lambda>i. art_values a ! nat i) ?ix).
        length row = schema_width (art_schema a) \<and> (\<forall>v \<in> set row. is_finite v)"
      using rows in_rows by (auto simp: rows_ok_def)
  qed (use h b in auto)
  then show ?thesis using h b by (simp add: window_def Let_def o_def)
qed

section \<open>An example artifact\<close>

text \<open>Six frames of one feature, under a digest that is constant.\<close>

definition demo_hasher :: hasher where
  "demo_hasher = \<lparr>float_repr = (\<lambda>_. ''0''), sha256_hex = (\<lambda>_. replicate 64 CHR ''a'')\<rparr>"

definition demo_schema :: ref_schema where
  "demo_schema = \<lparr>feature_names = [''x''], feature_units = [''m''], root_frame = ''world'', cadence_hz = Fin 50\<rparr>"

definition demo_rows :: "f64 list list" where
  "demo_rows = [[Fin 0], [Fin 1], [Fin 2], [Fin 3], [Fin 4], [Fin 5]]"

definition demo_artifact :: ref_artifact where
  "demo_artifact = \<lparr>art_identity = \<lparr>artifact_id = ''clip'', content_sha256 = replicate 64 CHR ''a'',
     schema_sha256 = replicate 64 CHR ''a'', n_frames = 6, n_features = 1\<rparr>,
     art_schema = demo_schema, art_values = demo_rows\<rparr>"

lemma demo_schema_ok: "schema_ok demo_schema"
  unfolding schema_ok_def demo_schema_def by simp code_simp

lemma demo_created: "create_artifact demo_hasher (PStr ''clip'') demo_schema (rows_value demo_rows) = Inr demo_artifact"
proof -
  have "rows_ok (schema_width demo_schema) demo_rows"
    by (simp add: rows_ok_def schema_width_def demo_schema_def demo_rows_def)
  then have rows: "canonical_rows (rows_value demo_rows) (schema_width demo_schema) = Inr demo_rows"
    by (rule canonical_rows_value)
  have hash: "content_hash demo_hasher v = replicate 64 CHR ''a''" for v
    by (simp add: content_hash_def demo_hasher_def)
  have i: "identity_ok (art_identity demo_artifact)"
    unfolding identity_ok_def demo_artifact_def by (intro conjI; code_simp)
  show ?thesis
    using mk_identity_Inr[OF i] rows
    by (simp add: create_artifact_def mk_artifact_def verify_artifact_iff Let_def hash
        reference_content_sha256_def schema_sha256_of_def demo_artifact_def)
      (simp add: demo_rows_def schema_width_def demo_schema_def)
qed

lemma demo_artifact_ok: "artifact_ok demo_hasher demo_artifact"
  using create_artifact_ok[OF demo_created demo_schema_ok] .

section \<open>Properties\<close>

text \<open>
  An artifact that \<open>ReferenceArtifact.create\<close> returns under a valid schema verifies against
  its own identity, its rows are rectangular and finite, and its identity records the number
  of rows and of features.
\<close>

lemma created_artifact_verifies:
  assumes "create_artifact h aid schema values = Inr a" and "schema_ok schema"
  shows "verify_artifact h a = Inr () \<and> art_schema a = schema \<and>
    n_frames (art_identity a) = int (length (art_values a)) \<and>
    n_features (art_identity a) = int (length (feature_names schema)) \<and>
    art_values a \<noteq> [] \<and>
    (\<forall>row \<in> set (art_values a). length row = length (feature_names schema) \<and> (\<forall>v \<in> set row. is_finite v))"
proof -
  have ok: "artifact_ok h a" using assms by (rule create_artifact_ok)
  moreover have "art_schema a = schema"
    using assms(1) by (auto simp: create_artifact_def mk_artifact_def Let_def)
  ultimately show ?thesis by (auto simp: artifact_ok_def verify_artifact_iff rows_ok_def schema_width_def)
qed

lemma created_artifact_verifies_witness:
  "verify_artifact demo_hasher demo_artifact = Inr () \<and> length (art_values demo_artifact) = 6"
proof
  show "verify_artifact demo_hasher demo_artifact = Inr ()"
    using created_artifact_verifies[OF demo_created demo_schema_ok] by (rule conjunct1)
  show "length (art_values demo_artifact) = 6" by code_simp
qed

text \<open>
  A window request is served exactly when its three bounds hold: the horizon is in
  \<open>[1, 256]\<close> and \<open>[start, end)\<close> is a non-empty span of the data.  The window then has one row per
  step, its indices run through the span and hold its last frame, and its rows are the data
  at those indices.
\<close>

lemma window_served:
  assumes "artifact_ok h a"
  shows "if 1 \<le> horizon \<and> horizon \<le> MAX_HORIZON_STEPS \<and> 0 \<le> start \<and> start < stop \<and> stop \<le> int (length (art_values a))
    then window a (PInt start) (PInt horizon) (Some (PInt stop)) = Inr
      \<lparr>frame_indices = map (\<lambda>k. min (start + int k) (stop - 1)) [0..<nat horizon],
       window_values = map (\<lambda>k. art_values a ! nat (min (start + int k) (stop - 1))) [0..<nat horizon]\<rparr>
    else window a (PInt start) (PInt horizon) (Some (PInt stop)) \<in> {Inl HorizonOutOfRange, Inl WindowBounds}"
proof (cases "1 \<le> horizon \<and> horizon \<le> MAX_HORIZON_STEPS \<and> 0 \<le> start \<and> start < stop \<and> stop \<le> int (length (art_values a))")
  case True
  then show ?thesis using window_Inr[OF assms, of horizon start stop] by simp
next
  case False
  then have "window a (PInt start) (PInt horizon) (Some (PInt stop)) \<in> {Inl HorizonOutOfRange, Inl WindowBounds}"
    by (auto simp: window_def Let_def)
  then show ?thesis unfolding if_not_P[OF False] .
qed

lemma window_served_witness:
  "window demo_artifact (PInt 2) (PInt 4) (Some (PInt 4)) = Inr
     \<lparr>frame_indices = [2, 3, 3, 3], window_values = [[Fin 2], [Fin 3], [Fin 3], [Fin 3]]\<rparr> \<and>
   window demo_artifact (PInt 2) (PInt 4) (Some (PInt 7)) \<in> {Inl HorizonOutOfRange, Inl WindowBounds}"
proof -
  have "map (\<lambda>k. min (2 + int k) (4 - 1)) [0..<nat 4] = [2, 3, 3, 3]"
    "map (\<lambda>k. art_values demo_artifact ! nat (min (2 + int k) (4 - 1))) [0..<nat 4] =
       [[Fin 2], [Fin 3], [Fin 3], [Fin 3]]"
    "(1::int) \<le> 4 \<and> 4 \<le> MAX_HORIZON_STEPS \<and> (0::int) \<le> 2 \<and> (2::int) < 4 \<and> 4 \<le> int (length (art_values demo_artifact))"
    "\<not> 7 \<le> int (length (art_values demo_artifact))" by code_simp+
  then show ?thesis
    using window_served[OF demo_artifact_ok, of 4 2 4] window_served[OF demo_artifact_ok, of 4 2 7]
    by (simp only: if_True if_False simp_thms)
qed

end
