(* ===== verification/Graphs.thy ===== *)
theory Graphs
  imports Prelude
begin

text \<open>
  The graph algorithms of the two program validators.  A graph is the dictionary of
  adjacency sets the code builds: an association list from a node to the list of its
  successors.  \<^verbatim>\<open>contracts/program.py\<close> searches depth first, by an explicit frontier for
  reachability and by recursion for cycles; \<^verbatim>\<open>harness/contract.py\<close> searches breadth first for
  reachability and keeps an explicit stack with three colours for cycles.  Two locales state
  what a validator needs of either pair; the four algorithms are interpreted there.
\<close>

section \<open>Adjacency dictionaries\<close>

type_synonym adj = "(string \<times> string list) list"

text \<open>\<open>adjacency.get(node, set())\<close>\<close>

definition adj_get :: "adj \<Rightarrow> string \<Rightarrow> string list" where
  "adj_get a v = (case map_of a v of None \<Rightarrow> [] | Some ts \<Rightarrow> ts)"

text \<open>\<open>adjacency[u].add(v)\<close>\<close>

definition adj_add :: "adj \<Rightarrow> string \<Rightarrow> string \<Rightarrow> adj" where
  "adj_add a u v = map (\<lambda>(k, ts). if k = u then (k, if v \<in> set ts then ts else ts @ [v]) else (k, ts)) a"

definition adj_rel :: "adj \<Rightarrow> (string \<times> string) set" where
  "adj_rel a = {(u, v). v \<in> set (adj_get a u)}"

definition adj_nodes :: "adj \<Rightarrow> string list" where
  "adj_nodes a = map fst a @ concat (map snd a)"

lemma adj_rel_iff: "(u, v) \<in> adj_rel a \<longleftrightarrow> v \<in> set (adj_get a u)"
  by (simp add: adj_rel_def)

lemma adj_get_nodes: "v \<in> set (adj_get a u) \<Longrightarrow> u \<in> fst ` set a \<and> v \<in> set (adj_nodes a)"
proof -
  assume v: "v \<in> set (adj_get a u)"
  then obtain ts where ts: "map_of a u = Some ts" "v \<in> set ts"
    by (cases "map_of a u") (auto simp: adj_get_def)
  then have "(u, ts) \<in> set a" by (simp add: map_of_SomeD)
  then show ?thesis using ts(2) by (force simp: adj_nodes_def)
qed

lemma adj_rel_nodes: "(u, v) \<in> adj_rel a \<Longrightarrow> u \<in> fst ` set a \<and> v \<in> set (adj_nodes a)"
  by (simp add: adj_rel_iff adj_get_nodes)

lemma map_fst_adj_add [simp]: "map fst (adj_add a u v) = map fst a"
  by (induction a) (auto simp: adj_add_def)

lemma adj_get_adj_add:
  "adj_get (adj_add a u v) w =
     (if w = u \<and> u \<in> fst ` set a then (if v \<in> set (adj_get a u) then adj_get a u else adj_get a u @ [v])
      else adj_get a w)"
  by (induction a) (auto simp: adj_add_def adj_get_def split: if_splits)

lemma adj_rel_adj_add: "u \<in> fst ` set a \<Longrightarrow> adj_rel (adj_add a u v) = insert (u, v) (adj_rel a)"
proof -
  assume u: "u \<in> fst ` set a"
  have "(x, y) \<in> adj_rel (adj_add a u v) \<longleftrightarrow> (x, y) \<in> insert (u, v) (adj_rel a)" for x y
    by (cases "x = u") (auto simp: adj_rel_iff adj_get_adj_add u)
  then show ?thesis by auto
qed

lemma adj_rel_empty: "adj_rel (map (\<lambda>n. (n, [])) ns) = {}"
  by (induction ns) (auto simp: adj_rel_def adj_get_def)

section \<open>Reachability by a frontier\<close>

text \<open>
  The body of the loop over the targets of one node: a target not seen yet is marked and
  pushed.  \<open>push\<close> is \<open>frontier.append\<close>; the list's head is the end that \<open>pop\<close> takes.
\<close>

fun push_fresh :: "string list \<Rightarrow> string list \<times> string list \<Rightarrow> string list \<times> string list" where
  "push_fresh [] s = s"
| "push_fresh (t # ts) (seen, frontier) =
     (if t \<notin> set seen then push_fresh ts (t # seen, t # frontier) else push_fresh ts (seen, frontier))"

lemma push_fresh_seen: "set (fst (push_fresh ts (seen, fr))) = set seen \<union> set ts"
  by (induction ts arbitrary: seen fr) auto

lemma push_fresh_frontier: "set (snd (push_fresh ts (seen, fr))) = set fr \<union> (set ts - set seen)"
  by (induction ts arbitrary: seen fr) auto

lemma push_fresh_none: "set ts \<subseteq> set seen \<Longrightarrow> push_fresh ts (seen, fr) = (seen, fr)"
  by (induction ts) auto

lemma frontier_decreases:
  assumes "push_fresh (adj_get a c) (seen, fr) = (seen', fr')"
  shows "(length fr' < Suc (length fr) \<and> set seen' = set seen) \<or>
    card (set (adj_nodes a) - set seen') < card (set (adj_nodes a) - set seen)"
proof (cases "set (adj_get a c) \<subseteq> set seen")
  case True
  then show ?thesis using assms by (simp add: push_fresh_none)
next
  case False
  then obtain t where t: "t \<in> set (adj_get a c)" "t \<notin> set seen" by auto
  have "set seen' = set seen \<union> set (adj_get a c)" using assms push_fresh_seen by (metis fst_conv)
  then have "set (adj_nodes a) - set seen' \<subset> set (adj_nodes a) - set seen"
    using t adj_get_nodes by fastforce
  then show ?thesis by (simp add: psubset_card_mono)
qed

text \<open>\<open>_path_reachable\<close> of \<^verbatim>\<open>contracts/program.py\<close>: \<open>frontier.pop()\<close> takes the last pushed node.\<close>

function path_loop :: "adj \<Rightarrow> string list \<Rightarrow> string list \<Rightarrow> string list" where
  "path_loop a seen [] = seen"
| "path_loop a seen (c # frontier) =
     (let (seen', frontier') = push_fresh (adj_get a c) (seen, frontier) in path_loop a seen' frontier')"
  by pat_completeness auto
termination
proof (relation "measures [\<lambda>(a, seen, fr). card (set (adj_nodes a) - set seen), \<lambda>(a, seen, fr). length fr]")
  fix a seen c fr x seen' fr'
  assume "x = push_fresh (adj_get a c) (seen, fr)" "(seen', fr') = x"
  then have "push_fresh (adj_get a c) (seen, fr) = (seen', fr')" by simp
  from frontier_decreases[OF this]
  show "((a, seen', fr'), a, seen, c # fr) \<in>
      measures [\<lambda>(a, seen, fr). card (set (adj_nodes a) - set seen), \<lambda>(a, seen, fr). length fr]"
    by auto
qed simp

declare path_loop.simps [simp del]

definition path_reachable :: "string \<Rightarrow> adj \<Rightarrow> string list" where
  "path_reachable start a = path_loop a [start] [start]"

text \<open>The breadth-first loop of \<^verbatim>\<open>harness/contract.py\<close>: \<open>popleft\<close>, targets in sorted order, \<open>append\<close>.\<close>

function bfs_loop :: "adj \<Rightarrow> string list \<Rightarrow> string list \<Rightarrow> string list" where
  "bfs_loop a seen [] = seen"
| "bfs_loop a seen (c # pending) =
     (let (seen', fresh) = push_fresh (sort (adj_get a c)) (seen, []) in bfs_loop a seen' (pending @ rev fresh))"
  by pat_completeness auto
termination
proof (relation "measures [\<lambda>(a, seen, fr). card (set (adj_nodes a) - set seen), \<lambda>(a, seen, fr). length fr]")
  fix a seen c pending x seen' fresh
  assume "x = push_fresh (sort (adj_get a c)) (seen, [])" "(seen', fresh) = x"
  then have p: "push_fresh (sort (adj_get a c)) (seen, []) = (seen', fresh)" by simp
  show "((a, seen', pending @ rev fresh), a, seen, c # pending) \<in>
      measures [\<lambda>(a, seen, fr). card (set (adj_nodes a) - set seen), \<lambda>(a, seen, fr). length fr]"
  proof (cases "set (adj_get a c) \<subseteq> set seen")
    case True
    then show ?thesis using p push_fresh_none[of "sort (adj_get a c)" seen "[]"] by simp
  next
    case False
    then obtain t where t: "t \<in> set (adj_get a c)" "t \<notin> set seen" by auto
    have "set seen' = set seen \<union> set (adj_get a c)" using p push_fresh_seen by (metis fst_conv set_sort)
    then have "set (adj_nodes a) - set seen' \<subset> set (adj_nodes a) - set seen"
      using t adj_get_nodes by fastforce
    then have "card (set (adj_nodes a) - set seen') < card (set (adj_nodes a) - set seen)"
      by (simp add: psubset_card_mono)
    then show ?thesis by simp
  qed
qed simp

declare bfs_loop.simps [simp del]

definition bfs_reachable :: "string \<Rightarrow> adj \<Rightarrow> string list" where
  "bfs_reachable start a = bfs_loop a [start] [start]"

text \<open>
  The invariant of both loops: what is seen is reachable, and every successor of a seen
  node that is no longer on the frontier is seen.
\<close>

definition search_inv :: "adj \<Rightarrow> string \<Rightarrow> string list \<Rightarrow> string list \<Rightarrow> bool" where
  "search_inv a s seen fr \<longleftrightarrow> s \<in> set seen \<and> set fr \<subseteq> set seen \<and>
     (\<forall>v \<in> set seen. (s, v) \<in> (adj_rel a)\<^sup>*) \<and>
     (\<forall>v \<in> set seen - set fr. set (adj_get a v) \<subseteq> set seen)"

lemma search_inv_init: "search_inv a s [s] [s]"
  by (simp add: search_inv_def)

lemma search_inv_step:
  assumes inv: "search_inv a s seen (c # fr)"
    and seen': "set seen' = set seen \<union> set (adj_get a c)"
    and fr': "set fr' = set fr \<union> (set (adj_get a c) - set seen)"
  shows "search_inv a s seen' fr'"
proof -
  have c: "(s, c) \<in> (adj_rel a)\<^sup>*" using inv by (simp add: search_inv_def)
  have "(s, v) \<in> (adj_rel a)\<^sup>*" if "v \<in> set (adj_get a c)" for v
    using c that by (meson adj_rel_iff rtrancl.rtrancl_into_rtrancl)
  then show ?thesis using inv seen' fr' by (auto simp: search_inv_def)
qed

lemma search_inv_done:
  assumes "search_inv a s seen []"
  shows "set seen = {v. (s, v) \<in> (adj_rel a)\<^sup>*}"
proof -
  have "v \<in> set seen" if "(s, v) \<in> (adj_rel a)\<^sup>*" for v
    using that
  proof (induction rule: rtrancl_induct)
    case base
    show ?case using assms by (simp add: search_inv_def)
  next
    case (step u v)
    then show ?case using assms by (auto simp: search_inv_def adj_rel_iff)
  qed
  then show ?thesis using assms by (auto simp: search_inv_def)
qed

lemma path_loop_correct:
  "search_inv a s seen fr \<Longrightarrow> set (path_loop a seen fr) = {v. (s, v) \<in> (adj_rel a)\<^sup>*}"
proof (induction a seen fr rule: path_loop.induct)
  case (1 a seen)
  then show ?case unfolding path_loop.simps(1) by (rule search_inv_done)
next
  case (2 a seen c fr)
  obtain seen' fr' where p: "push_fresh (adj_get a c) (seen, fr) = (seen', fr')" by fastforce
  have "search_inv a s seen' fr'"
    by (rule search_inv_step[OF "2.prems"])
      (use push_fresh_seen[of "adj_get a c" seen fr] push_fresh_frontier[of "adj_get a c" seen fr] in \<open>simp_all add: p\<close>)
  then show ?case using "2.IH"[OF p[symmetric] refl] by (simp add: p path_loop.simps(2))
qed

lemma bfs_loop_correct:
  "search_inv a s seen fr \<Longrightarrow> set (bfs_loop a seen fr) = {v. (s, v) \<in> (adj_rel a)\<^sup>*}"
proof (induction a seen fr rule: bfs_loop.induct)
  case (1 a seen)
  then show ?case unfolding bfs_loop.simps(1) by (rule search_inv_done)
next
  case (2 a seen c fr)
  obtain seen' fresh where p: "push_fresh (sort (adj_get a c)) (seen, []) = (seen', fresh)" by fastforce
  have "search_inv a s seen' (fr @ rev fresh)"
    by (rule search_inv_step[OF "2.prems"])
      (use push_fresh_seen[of "sort (adj_get a c)" seen "[]"]
        push_fresh_frontier[of "sort (adj_get a c)" seen "[]"] in \<open>auto simp: p\<close>)
  then show ?case using "2.IH"[OF p[symmetric] refl] by (simp add: p bfs_loop.simps(2))
qed

text \<open>What a validator needs of a reachability search.\<close>

locale reachability =
  fixes reach :: "string \<Rightarrow> adj \<Rightarrow> string list"
  assumes reach_set: "set (reach s a) = {v. (s, v) \<in> (adj_rel a)\<^sup>*}"
begin

lemma reach_start: "s \<in> set (reach s a)"
  by (simp add: reach_set)

lemma reach_closed: "v \<in> set (reach s a) \<Longrightarrow> (v, w) \<in> adj_rel a \<Longrightarrow> w \<in> set (reach s a)"
  by (auto simp: reach_set intro: rtrancl_into_rtrancl)

lemma all_reachable_iff:
  "(\<forall>v \<in> V. v \<in> set (reach s a)) \<longleftrightarrow> V \<subseteq> (adj_rel a)\<^sup>* `` {s}"
  by (auto simp: reach_set)

end

interpretation dfs_reach: reachability path_reachable
  by unfold_locales (simp add: path_reachable_def path_loop_correct search_inv_init)

interpretation bfs_reach: reachability bfs_reachable
  by unfold_locales (simp add: bfs_reachable_def bfs_loop_correct search_inv_init)

section \<open>Cycles by recursion\<close>

text \<open>
  \<open>_has_directed_cycle\<close> of \<^verbatim>\<open>contracts/program.py\<close>.  The state is the pair of the sets
  \<open>active\<close> (the nodes of the current call chain) and \<open>visited\<close>; \<open>any\<close> stops at the first
  \<open>True\<close>.  The first argument bounds the depth of the recursion; \<open>visit_enough\<close> shows that
  one more than the number of nodes is enough, and \<open>has_directed_cycle\<close> supplies it.
\<close>

type_synonym dfs_state = "string list \<times> string list"

fun visit :: "nat \<Rightarrow> adj \<Rightarrow> string \<Rightarrow> dfs_state \<Rightarrow> (bool \<times> dfs_state) option"
  and visit_any :: "nat \<Rightarrow> adj \<Rightarrow> string list \<Rightarrow> dfs_state \<Rightarrow> (bool \<times> dfs_state) option" where
  "visit 0 a node s = None"
| "visit (Suc n) a node (active, visited) =
     (if node \<in> set active then Some (True, (active, visited))
      else if node \<in> set visited then Some (False, (active, visited))
      else (case visit_any n a (adj_get a node) (node # active, node # visited) of
          None \<Rightarrow> None
        | Some (True, s) \<Rightarrow> Some (True, s)
        | Some (False, (active', visited')) \<Rightarrow> Some (False, (remove1 node active', visited'))))"
| "visit_any n a [] s = Some (False, s)"
| "visit_any n a (t # ts) s = (case visit n a t s of
       None \<Rightarrow> None
     | Some (True, s') \<Rightarrow> Some (True, s')
     | Some (False, s') \<Rightarrow> visit_any n a ts s')"

definition has_directed_cycle :: "adj \<Rightarrow> bool" where
  "has_directed_cycle a =
     (case visit_any (Suc (length (adj_nodes a))) a (map fst a) ([], []) of
        Some (b, _) \<Rightarrow> b | None \<Rightarrow> False)"

text \<open>
  The finished nodes (visited and no longer active) are closed under successors and span an
  acyclic graph; the active nodes are a path whose last edge leads to the node visited next.
\<close>

definition finished_ok :: "adj \<Rightarrow> string set \<Rightarrow> bool" where
  "finished_ok a B \<longleftrightarrow> adj_rel a `` B \<subseteq> B \<and> acyclic (adj_rel a \<inter> B \<times> B)"

definition call_chain :: "adj \<Rightarrow> string list \<Rightarrow> bool" where
  "call_chain a act \<longleftrightarrow> successively (\<lambda>x y. (y, x) \<in> adj_rel a) act"

lemma call_chain_Cons: "call_chain a act \<Longrightarrow> (act \<noteq> [] \<longrightarrow> (hd act, v) \<in> adj_rel a) \<Longrightarrow> call_chain a (v # act)"
  by (cases act) (auto simp: call_chain_def)

lemma call_chain_reaches: "call_chain a act \<Longrightarrow> v \<in> set act \<Longrightarrow> (v, hd act) \<in> (adj_rel a)\<^sup>*"
proof (induction act)
  case (Cons x act)
  show ?case
  proof (cases "act = []")
    case False
    with Cons.prems have "call_chain a act" "(hd act, x) \<in> adj_rel a"
      by (cases act; simp add: call_chain_def)+
    with Cons show ?thesis by (metis list.sel(1) rtrancl.simps set_ConsD)
  qed (use Cons.prems in auto)
qed simp

lemma closed_trancl:
  assumes "(x, y) \<in> r\<^sup>+" "x \<in> B" "r `` B \<subseteq> B"
  shows "y \<in> B \<and> (x, y) \<in> (r \<inter> B \<times> B)\<^sup>+"
  using assms(1)
proof (induction rule: trancl_induct)
  case (base y)
  then show ?case using assms by auto
next
  case (step y z)
  then have "z \<in> B" using assms(3) by auto
  moreover have "(y, z) \<in> r \<inter> B \<times> B" using step calculation by auto
  ultimately show ?case using step.IH by (meson trancl_into_trancl)
qed

lemma finished_ok_insert:
  assumes B: "finished_ok a B" and v: "v \<notin> B" and succ: "set (adj_get a v) \<subseteq> B"
  shows "finished_ok a (insert v B)"
proof -
  let ?G = "adj_rel a"
  have cl: "?G `` B \<subseteq> B" and ac: "acyclic (?G \<inter> B \<times> B)" using B by (simp_all add: finished_ok_def)
  have out: "?G `` {v} \<subseteq> B" using succ by (auto simp: adj_rel_iff)
  have "(x, x) \<notin> (?G \<inter> insert v B \<times> insert v B)\<^sup>+" for x
  proof
    assume cyc: "(x, x) \<in> (?G \<inter> insert v B \<times> insert v B)\<^sup>+"
    then have G: "(x, x) \<in> ?G\<^sup>+" by (rule trancl_mono) auto
    obtain y where y: "(x, y) \<in> ?G" "(y, x) \<in> ?G\<^sup>*" using tranclD[OF G] by blast
    have xB: "x \<in> insert v B" using cyc by (metis (no_types, lifting) Int_iff SigmaD1 converse_tranclE)
    show False
    proof (cases "x \<in> B")
      case True
      from closed_trancl[OF G True cl] ac show False by (auto simp: acyclic_def)
    next
      case False
      then have "x = v" using xB by simp
      then have "y \<in> B" using y(1) out by auto
      with y(2) have "x \<in> B" using closed_trancl[of y x ?G B] cl by (metis rtranclD)
      with False show False by simp
    qed
  qed
  then show ?thesis using cl out by (auto simp: finished_ok_def acyclic_def)
qed

lemma active_closes_cycle:
  assumes "call_chain a act" "v \<in> set act" "(hd act, v) \<in> adj_rel a"
  shows "\<not> acyclic (adj_rel a)"
  using call_chain_reaches[OF assms(1,2)] assms(3) unfolding acyclic_def
  by (metis rtrancl_into_trancl1)

lemma visit_correct:
  "visit n a v (act, vis) = Some (b, (act', vis')) \<Longrightarrow>
     set act \<subseteq> set vis \<Longrightarrow> finished_ok a (set vis - set act) \<Longrightarrow> call_chain a act \<Longrightarrow>
     (act \<noteq> [] \<longrightarrow> (hd act, v) \<in> adj_rel a) \<Longrightarrow>
     (b \<longrightarrow> \<not> acyclic (adj_rel a)) \<and>
     (\<not> b \<longrightarrow> act' = act \<and> set vis \<subseteq> set vis' \<and> finished_ok a (set vis' - set act) \<and> v \<in> set vis' - set act)"
  "visit_any n a ts (act, vis) = Some (b, (act', vis')) \<Longrightarrow>
     set act \<subseteq> set vis \<Longrightarrow> finished_ok a (set vis - set act) \<Longrightarrow> call_chain a act \<Longrightarrow>
     (act \<noteq> [] \<longrightarrow> (\<forall>t \<in> set ts. (hd act, t) \<in> adj_rel a)) \<Longrightarrow>
     (b \<longrightarrow> \<not> acyclic (adj_rel a)) \<and>
     (\<not> b \<longrightarrow> act' = act \<and> set vis \<subseteq> set vis' \<and> finished_ok a (set vis' - set act) \<and> set ts \<subseteq> set vis' - set act)"
proof (induction n a v "(act, vis)" and n a ts "(act, vis)" arbitrary: act vis b act' vis' and act vis b act' vis'
    rule: visit_visit_any.induct)
  case (1 a node)
  then show ?case by simp
next
  case (2 n a node act vis)
  show ?case
  proof (cases "node \<in> set act \<or> node \<in> set vis")
    case True
    show ?thesis
    proof (cases "node \<in> set act")
      case act: True
      then have "b" using "2.prems"(1) by auto
      moreover have "act \<noteq> []" using act by auto
      ultimately show ?thesis using active_closes_cycle[OF "2.prems"(4) act] "2.prems"(5) by simp
    next
      case False
      then have "b = False" "act' = act" "vis' = vis" using "2.prems"(1) True by auto
      then show ?thesis using "2.prems"(3) True False by simp
    qed
  next
    case False
    then obtain b1 act1 vis1 where r:
      "visit_any n a (adj_get a node) (node # act, node # vis) = Some (b1, (act1, vis1))"
      using "2.prems"(1) by (auto split: option.splits)
    have fin: "set (node # vis) - set (node # act) = set vis - set act" using False by auto
    have IH: "(b1 \<longrightarrow> \<not> acyclic (adj_rel a)) \<and> (\<not> b1 \<longrightarrow> act1 = node # act \<and> set (node # vis) \<subseteq> set vis1 \<and>
        finished_ok a (set vis1 - set (node # act)) \<and> set (adj_get a node) \<subseteq> set vis1 - set (node # act))"
    proof (rule "2.hyps"[OF _ _ r])
      show "set (node # act) \<subseteq> set (node # vis)" using "2.prems"(2) by auto
      show "finished_ok a (set (node # vis) - set (node # act))" unfolding fin by (rule "2.prems"(3))
      show "call_chain a (node # act)" using "2.prems"(4,5) by (rule call_chain_Cons)
    qed (use False in \<open>auto simp: adj_rel_iff\<close>)
    show ?thesis
    proof (cases b1)
      case True
      then show ?thesis using "2.prems"(1) False r IH by auto
    next
      case nb: False
      then have res: "b = False" "act' = act" "vis' = vis1"
        using "2.prems"(1) False r IH by auto
      have eq: "set vis1 - set act = insert node (set vis1 - set (node # act))"
        using False IH nb by auto
      have "finished_ok a (set vis1 - set act)"
        unfolding eq using IH nb by (intro finished_ok_insert) auto
      then show ?thesis using res IH nb False by auto
    qed
  qed
next
  case (3 n a)
  then show ?case by auto
next
  case (4 n a t ts act vis)
  obtain b1 act1 vis1 where r: "visit n a t (act, vis) = Some (b1, (act1, vis1))"
    using "4.prems"(1) by (auto split: option.splits)
  have IH: "(b1 \<longrightarrow> \<not> acyclic (adj_rel a)) \<and> (\<not> b1 \<longrightarrow> act1 = act \<and> set vis \<subseteq> set vis1 \<and>
      finished_ok a (set vis1 - set act) \<and> t \<in> set vis1 - set act)"
    using "4.hyps"(1)[OF r] "4.prems" by auto
  show ?case
  proof (cases b1)
    case True
    then show ?thesis using "4.prems"(1) r IH by auto
  next
    case False
    then have rest: "visit_any n a ts (act, vis1) = Some (b, (act', vis'))" and "act1 = act"
      using "4.prems"(1) r IH by auto
    have sub: "set act \<subseteq> set vis1" using "4.prems"(2) IH False by auto
    have "(b \<longrightarrow> \<not> acyclic (adj_rel a)) \<and> (\<not> b \<longrightarrow> act' = act \<and> set vis1 \<subseteq> set vis' \<and>
        finished_ok a (set vis' - set act) \<and> set ts \<subseteq> set vis' - set act)"
      using "4.hyps"(2)[OF r, of False act vis1] rest sub IH False "4.prems" \<open>act1 = act\<close> by auto
    then show ?thesis using IH False by auto
  qed
qed

text \<open>Enough depth: every nested call visits a node that was not visited before.\<close>

lemma visit_grows:
  "visit n a v (act, vis) = Some (b, (act', vis')) \<Longrightarrow> set vis \<subseteq> set vis'"
  "visit_any n a ts (act, vis) = Some (b, (act', vis')) \<Longrightarrow> set vis \<subseteq> set vis'"
proof (induction n a v "(act, vis)" and n a ts "(act, vis)" arbitrary: act vis b act' vis' and act vis b act' vis'
    rule: visit_visit_any.induct)
  case (2 n a node act vis)
  show ?case
  proof (cases "node \<in> set act \<or> node \<in> set vis")
    case False
    then obtain b1 act1 vis1 where r:
      "visit_any n a (adj_get a node) (node # act, node # vis) = Some (b1, (act1, vis1))"
      using "2.prems" by (auto split: option.splits)
    have "set (node # vis) \<subseteq> set vis1" by (rule "2.hyps"[OF _ _ r]) (use False in auto)
    moreover have "vis' = vis1" using "2.prems" False r by (cases b1) auto
    ultimately show ?thesis by auto
  qed (use "2.prems" in \<open>auto split: if_splits\<close>)
next
  case (4 n a t ts act vis)
  obtain b1 act1 vis1 where r: "visit n a t (act, vis) = Some (b1, (act1, vis1))"
    using "4.prems" by (auto split: option.splits)
  have "set vis \<subseteq> set vis1" by (rule "4.hyps"(1)[OF r])
  moreover have "set vis1 \<subseteq> set vis'"
  proof (cases b1)
    case False
    then show ?thesis using "4.hyps"(2)[OF r, of False act1 vis1] "4.prems" r by auto
  qed (use "4.prems" r in auto)
  ultimately show ?case by blast
qed auto

lemma visit_enough:
  "v \<in> set (adj_nodes a) \<Longrightarrow> card (set (adj_nodes a) - set vis) < n \<Longrightarrow> visit n a v (act, vis) \<noteq> None"
  "set ts \<subseteq> set (adj_nodes a) \<Longrightarrow> card (set (adj_nodes a) - set vis) < n \<Longrightarrow> visit_any n a ts (act, vis) \<noteq> None"
proof (induction n a v "(act, vis)" and n a ts "(act, vis)" arbitrary: act vis and act vis
    rule: visit_visit_any.induct)
  case (2 n a node act vis)
  show ?case
  proof (cases "node \<in> set act \<or> node \<in> set vis")
    case True
    then show ?thesis by auto
  next
    case False
    have "set (adj_nodes a) - set (node # vis) \<subset> set (adj_nodes a) - set vis"
      using False "2.prems"(1) by auto
    then have "card (set (adj_nodes a) - set (node # vis)) < card (set (adj_nodes a) - set vis)"
      by (intro psubset_card_mono) simp
    then have "card (set (adj_nodes a) - set (node # vis)) < n" using "2.prems"(2) by linarith
    moreover have "set (adj_get a node) \<subseteq> set (adj_nodes a)" using adj_get_nodes by blast
    ultimately have "visit_any n a (adj_get a node) (node # act, node # vis) \<noteq> None"
      using "2.hyps" False by blast
    then show ?thesis using False by (auto split: option.splits bool.splits)
  qed
next
  case (4 n a t ts act vis)
  then obtain b1 act1 vis1 where r: "visit n a t (act, vis) = Some (b1, (act1, vis1))" by force
  show ?case
  proof (cases b1)
    case False
    have "set (adj_nodes a) - set vis1 \<subseteq> set (adj_nodes a) - set vis" using visit_grows(1)[OF r] by auto
    then have "card (set (adj_nodes a) - set vis1) < n"
      using "4.prems"(2) by (meson List.finite_set card_mono finite_Diff le_less_trans)
    then show ?thesis using "4.hyps"(2)[OF r, of False act1 vis1] "4.prems" r False by auto
  qed (use r in auto)
qed auto

lemma has_directed_cycle_iff: "has_directed_cycle a \<longleftrightarrow> \<not> acyclic (adj_rel a)"
proof -
  let ?n = "Suc (length (adj_nodes a))"
  have "card (set (adj_nodes a) - set []) < ?n" using card_length[of "adj_nodes a"] by simp
  then have "visit_any ?n a (map fst a) ([], []) \<noteq> None"
    by (intro visit_enough(2)) (auto simp: adj_nodes_def)
  then obtain b act' vis' where r: "visit_any ?n a (map fst a) ([], []) = Some (b, (act', vis'))" by force
  have c: "(b \<longrightarrow> \<not> acyclic (adj_rel a)) \<and> (\<not> b \<longrightarrow> finished_ok a (set vis') \<and> fst ` set a \<subseteq> set vis')"
    using visit_correct(2)[OF r] by (auto simp: finished_ok_def call_chain_def acyclic_def)
  moreover have "acyclic (adj_rel a)" if "\<not> b"
  proof -
    have "adj_rel a \<subseteq> adj_rel a \<inter> set vis' \<times> set vis'"
      using c that adj_rel_nodes by (fastforce simp: finished_ok_def)
    then show ?thesis using c that by (metis acyclic_subset finished_ok_def)
  qed
  ultimately show ?thesis using r by (auto simp: has_directed_cycle_def)
qed

section \<open>Cycles by an explicit stack and three colours\<close>

text \<open>
  The loop of \<open>_reject_zero_dwell_cycles\<close> in \<^verbatim>\<open>harness/contract.py\<close>.  \<open>colors\<close> maps every node to
  0 (new), 1 (on the stack) or 2 (finished); a stack entry is a node with the targets its
  iterator still has to yield.
\<close>

datatype color_error = CycleFound | ColorKeyError string

type_synonym colors = "(string \<times> nat) list"

definition set_color :: "string \<Rightarrow> nat \<Rightarrow> colors \<Rightarrow> colors" where
  "set_color k c cs = map (\<lambda>(k', c'). if k' = k then (k', c) else (k', c')) cs"

definition whites :: "colors \<Rightarrow> nat" where
  "whites cs = length (filter (\<lambda>p. snd p = 0) cs)"

lemma map_of_set_color: "map_of (set_color k c cs) k' = (if k' = k then map_option (\<lambda>_. c) (map_of cs k) else map_of cs k')"
  by (induction cs) (auto simp: set_color_def)

lemma whites_set_color_le: "whites (set_color k (Suc c) cs) \<le> whites cs"
  by (induction cs) (auto simp: set_color_def whites_def split: if_splits)

lemma whites_set_color_less: "map_of cs k = Some 0 \<Longrightarrow> whites (set_color k (Suc c) cs) < whites cs"
proof (induction cs)
  case (Cons p cs)
  then show ?case
    using whites_set_color_le[of k c cs] by (cases p) (auto simp: set_color_def whites_def split: if_splits)
qed simp

function color_loop :: "adj \<Rightarrow> colors \<Rightarrow> (string \<times> string list) list \<Rightarrow> color_error + colors" where
  "color_loop a cs [] = Inr cs"
| "color_loop a cs ((node, []) # stack) = color_loop a (set_color node 2 cs) stack"
| "color_loop a cs ((node, target # targets) # stack) = (case map_of cs target of
       None \<Rightarrow> Inl (ColorKeyError target)
     | Some color \<Rightarrow>
         if color = 1 then Inl CycleFound
         else if color = 0 then
           color_loop a (set_color target 1 cs) ((target, adj_get a target) # (node, targets) # stack)
         else color_loop a cs ((node, targets) # stack))"
  by pat_completeness auto
termination
proof (relation "measures [\<lambda>(a, cs, st). whites cs, \<lambda>(a, cs, st). sum_list (map (\<lambda>e. Suc (length (snd e))) st)]")
  fix a :: adj and cs :: colors and node :: string and stack :: "(string \<times> string list) list"
  have "whites (set_color node 2 cs) \<le> whites cs" using whites_set_color_le[of node 1 cs] by (simp add: numeral_2_eq_2)
  then show "((a, set_color node 2 cs, stack), a, cs, (node, []) # stack)
      \<in> measures [\<lambda>(a, cs, st). whites cs, \<lambda>(a, cs, st). sum_list (map (\<lambda>e. Suc (length (snd e))) st)]"
    by auto
next
  fix a :: adj and cs :: colors and node target :: string and targets :: "string list"
    and stack :: "(string \<times> string list) list" and x2 :: nat
  assume "map_of cs target = Some x2" "x2 \<noteq> (1::nat)" "x2 = 0"
  then have "whites (set_color target 1 cs) < whites cs" using whites_set_color_less[of cs target 0] by simp
  then show "((a, set_color target 1 cs, (target, adj_get a target) # (node, targets) # stack), a, cs, (node, target # targets) # stack)
      \<in> measures [\<lambda>(a, cs, st). whites cs, \<lambda>(a, cs, st). sum_list (map (\<lambda>e. Suc (length (snd e))) st)]"
    by auto
qed auto

declare color_loop.simps [simp del]

text \<open>\<open>for start in sorted(zero_states): if colors[start] != 0: continue; ...\<close>\<close>

fun color_starts :: "adj \<Rightarrow> string list \<Rightarrow> colors \<Rightarrow> color_error + colors" where
  "color_starts a [] cs = Inr cs"
| "color_starts a (start # starts) cs = (case map_of cs start of
       None \<Rightarrow> Inl (ColorKeyError start)
     | Some color \<Rightarrow>
         if color \<noteq> 0 then color_starts a starts cs
         else bindE (color_loop a (set_color start 1 cs) [(start, adj_get a start)]) (color_starts a starts))"

definition color_check :: "string list \<Rightarrow> adj \<Rightarrow> color_error + colors" where
  "color_check ns a = color_starts a (sort ns) (map (\<lambda>n. (n, 0)) ns)"

definition black :: "colors \<Rightarrow> string set" where
  "black cs = {k. map_of cs k = Some 2}"

text \<open>
  Every target a stack entry has already yielded is finished, or is the node right above it
  on the stack (\<open>X\<close>).
\<close>

fun stack_ok :: "adj \<Rightarrow> string set \<Rightarrow> string set \<Rightarrow> (string \<times> string list) list \<Rightarrow> bool" where
  "stack_ok a B X [] = True"
| "stack_ok a B X ((v, rest) # st) =
     (set rest \<subseteq> set (adj_get a v) \<and> set (adj_get a v) \<subseteq> set rest \<union> B \<union> X \<and> stack_ok a B {v} st)"

lemma stack_ok_mono: "stack_ok a B X st \<Longrightarrow> B \<union> X \<subseteq> B' \<union> X' \<Longrightarrow> B \<subseteq> B' \<Longrightarrow> stack_ok a B' X' st"
proof (induction st arbitrary: X X')
  case (Cons e st)
  obtain v rest where e: "e = (v, rest)" by force
  have "stack_ok a B' {v} st"
    using Cons.IH[of "{v}" "{v}"] Cons.prems e by (auto intro: Un_mono)
  then show ?case using Cons.prems e by auto
qed simp

definition color_inv :: "adj \<Rightarrow> colors \<Rightarrow> (string \<times> string list) list \<Rightarrow> bool" where
  "color_inv a cs st \<longleftrightarrow> (\<forall>k. (\<exists>c. map_of cs k = Some c \<and> c = 1) \<longleftrightarrow> k \<in> set (map fst st)) \<and>
     (\<forall>k c. map_of cs k = Some c \<longrightarrow> c \<le> 2) \<and> distinct (map fst st) \<and>
     (\<forall>k. set (adj_get a k) \<subseteq> dom (map_of cs)) \<and>
     finished_ok a (black cs) \<and> call_chain a (map fst st) \<and> stack_ok a (black cs) {} st"

lemma color_inv_finish:
  assumes inv: "color_inv a cs ((v, []) # st)"
  shows "color_inv a (set_color v 2 cs) st" "black (set_color v 2 cs) = insert v (black cs)"
proof -
  have v1: "map_of cs v = Some 1" using inv by (auto simp: color_inv_def)
  show b: "black (set_color v 2 cs) = insert v (black cs)"
    using v1 by (auto simp: black_def map_of_set_color)
  have vB: "v \<notin> black cs" using v1 by (simp add: black_def)
  have "finished_ok a (insert v (black cs))"
    using inv vB by (intro finished_ok_insert) (auto simp: color_inv_def)
  moreover have "stack_ok a (insert v (black cs)) {} st"
    using inv by (auto simp: color_inv_def intro: stack_ok_mono)
  moreover have "call_chain a (map fst st)"
    using inv by (cases st) (auto simp: color_inv_def call_chain_def)
  ultimately show "color_inv a (set_color v 2 cs) st"
    using inv v1 unfolding color_inv_def b by (auto simp: map_of_set_color dom_def split: if_splits)
qed

lemma color_inv_push:
  assumes inv: "color_inv a cs ((v, t # ts) # st)" and t0: "map_of cs t = Some 0"
  shows "color_inv a (set_color t 1 cs) ((t, adj_get a t) # (v, ts) # st)"
    "black (set_color t 1 cs) = black cs"
proof -
  show b: "black (set_color t 1 cs) = black cs" using t0 by (auto simp: black_def map_of_set_color)
  have "k \<in> set (map fst ((v, t # ts) # st)) \<Longrightarrow> map_of cs k = Some 1" for k
    using inv unfolding color_inv_def by metis
  then have tn: "t \<notin> set (map fst ((v, t # ts) # st))" using t0 by force
  have e: "(v, t) \<in> adj_rel a" using inv by (simp add: color_inv_def adj_rel_iff)
  have "call_chain a (t # v # map fst st)"
    using inv e by (simp add: color_inv_def call_chain_def)
  moreover have "stack_ok a (black cs) {} ((t, adj_get a t) # (v, ts) # st)"
    using inv by (auto simp: color_inv_def)
  ultimately show "color_inv a (set_color t 1 cs) ((t, adj_get a t) # (v, ts) # st)"
    using inv t0 tn unfolding color_inv_def b by (auto simp: map_of_set_color dom_def)
qed

lemma color_inv_skip:
  "color_inv a cs ((v, t # ts) # st) \<Longrightarrow> map_of cs t = Some 2 \<Longrightarrow> color_inv a cs ((v, ts) # st)"
  by (auto simp: color_inv_def black_def)

lemma color_loop_correct:
  "color_inv a cs st \<Longrightarrow>
     (case color_loop a cs st of
        Inl e \<Rightarrow> e = CycleFound \<and> \<not> acyclic (adj_rel a)
      | Inr cs' \<Rightarrow> color_inv a cs' [] \<and> black cs \<union> set (map fst st) \<subseteq> black cs' \<and> dom (map_of cs') = dom (map_of cs))"
proof (induction a cs st rule: color_loop.induct)
  case (1 a cs)
  then show ?case by (simp add: color_loop.simps)
next
  case (2 a cs v st)
  from color_inv_finish[OF "2.prems"] "2.IH" show ?case
    by (auto simp: color_loop.simps map_of_set_color dom_def split: sum.splits)
next
  case (3 a cs v t ts st)
  have "t \<in> dom (map_of cs)" using "3.prems" by (auto simp: color_inv_def)
  then obtain c where c: "map_of cs t = Some c" by auto
  then have "c \<le> 2" using "3.prems" by (auto simp: color_inv_def)
  then consider "c = 0" | "c = 1" | "c = 2" by linarith
  then show ?case
  proof cases
    case 1
    have "map_of cs t = Some 0" using c 1 by simp
    from color_inv_push[OF "3.prems" this] "3.IH"(1)[OF c] 1 c show ?thesis
      by (auto simp: color_loop.simps(3) map_of_set_color dom_def split: sum.splits)
  next
    case 2
    then have "t \<in> set (map fst ((v, t # ts) # st))" using c "3.prems" by (auto simp: color_inv_def)
    then have "\<not> acyclic (adj_rel a)"
      using "3.prems" active_closes_cycle[of a "map fst ((v, t # ts) # st)" t]
      by (simp add: color_inv_def adj_rel_iff)
    then show ?thesis using c 2 by (simp add: color_loop.simps(3))
  next
    case 3
    have "map_of cs t = Some 2" using c 3 by simp
    from color_inv_skip[OF "3.prems" this] "3.IH"(2)[OF c] 3 c show ?thesis
      by (auto simp: color_loop.simps(3) split: sum.splits)
  qed
qed

lemma color_starts_correct:
  "color_inv a cs [] \<Longrightarrow> set starts \<subseteq> dom (map_of cs) \<Longrightarrow>
     (case color_starts a starts cs of
        Inl e \<Rightarrow> e = CycleFound \<and> \<not> acyclic (adj_rel a)
      | Inr cs' \<Rightarrow> color_inv a cs' [] \<and> black cs \<union> set starts \<subseteq> black cs')"
proof (induction starts arbitrary: cs)
  case Nil
  then show ?case by simp
next
  case (Cons s starts)
  then obtain c where c: "map_of cs s = Some c" by auto
  show ?case
  proof (cases "c = 0")
    case False
    have "c \<le> 2" "c \<noteq> 1" using c Cons.prems(1) by (auto simp: color_inv_def)
    then have "s \<in> black cs" using False c by (auto simp: black_def)
    then show ?thesis using Cons.IH[OF Cons.prems(1)] Cons.prems(2) c False by (auto split: sum.splits)
  next
    case True
    have b: "black (set_color s 1 cs) = black cs" using c True by (auto simp: black_def map_of_set_color)
    have "color_inv a (set_color s 1 cs) [(s, adj_get a s)]"
      using Cons.prems(1) c True unfolding color_inv_def b
      by (auto simp: map_of_set_color dom_def call_chain_def)
    note loop = color_loop_correct[OF this]
    show ?thesis
    proof (cases "color_loop a (set_color s 1 cs) [(s, adj_get a s)]")
      case (Inl e)
      then show ?thesis using loop c True by simp
    next
      case (Inr cs1)
      have d: "dom (map_of cs1) = dom (map_of cs)" "color_inv a cs1 []" "insert s (black cs) \<subseteq> black cs1"
        using loop Inr b c by (auto simp: map_of_set_color dom_def split: if_splits)
      have "set starts \<subseteq> dom (map_of cs1)" using Cons.prems(2) d(1) by simp
      from Cons.IH[OF d(2) this] d(3) Inr c True show ?thesis by (auto split: sum.splits)
    qed
  qed
qed

lemma color_check_iff:
  assumes "\<And>k. set (adj_get a k) \<subseteq> set ns" and "\<And>k. adj_get a k \<noteq> [] \<Longrightarrow> k \<in> set ns"
  shows "color_check ns a = Inl CycleFound \<longleftrightarrow> \<not> acyclic (adj_rel a)"
    and "acyclic (adj_rel a) \<Longrightarrow> \<exists>cs. color_check ns a = Inr cs"
proof -
  let ?cs = "map (\<lambda>n. (n, 0)) ns :: colors"
  have m: "map_of ?cs k = (if k \<in> set ns then Some 0 else None)" for k by (induction ns) auto
  have inv: "color_inv a ?cs []"
    using assms(1) by (auto simp: color_inv_def m dom_def black_def finished_ok_def call_chain_def acyclic_def)
  have d: "set (sort ns) \<subseteq> dom (map_of ?cs)" by (auto simp: m dom_def)
  have r: "case color_check ns a of Inl e \<Rightarrow> e = CycleFound \<and> \<not> acyclic (adj_rel a)
      | Inr cs' \<Rightarrow> color_inv a cs' [] \<and> black ?cs \<union> set (sort ns) \<subseteq> black cs'"
    unfolding color_check_def by (rule color_starts_correct[OF inv d])
  have ac: "acyclic (adj_rel a)" if "color_check ns a = Inr cs" for cs
  proof -
    have "finished_ok a (black cs)" "set ns \<subseteq> black cs" using r that by (auto simp: color_inv_def)
    moreover have "(u, v) \<in> adj_rel a \<Longrightarrow> u \<in> set ns \<and> v \<in> set ns" for u v
      using assms(1)[of u] assms(2)[of u] by (cases "adj_get a u") (auto simp: adj_rel_iff)
    then have "adj_rel a \<subseteq> set ns \<times> set ns" by auto
    ultimately have "adj_rel a \<subseteq> adj_rel a \<inter> black cs \<times> black cs" "finished_ok a (black cs)" by auto
    then show ?thesis by (metis acyclic_subset finished_ok_def)
  qed
  show "color_check ns a = Inl CycleFound \<longleftrightarrow> \<not> acyclic (adj_rel a)"
    using r ac by (auto split: sum.splits)
  show "acyclic (adj_rel a) \<Longrightarrow> \<exists>cs. color_check ns a = Inr cs"
    using r by (auto split: sum.splits)
qed

section \<open>The contract of a cycle check\<close>

text \<open>
  What both validators need: the check fires exactly on a cyclic graph over the declared
  nodes.  Its client is the well-formedness of an accepted program: a trip through the
  graph can be ranked.
\<close>

locale cycle_check =
  fixes cyclic :: "string list \<Rightarrow> adj \<Rightarrow> bool"
  assumes cyclic_iff: "(\<And>u v. (u, v) \<in> adj_rel a \<Longrightarrow> u \<in> set ns \<and> v \<in> set ns) \<Longrightarrow>
    cyclic ns a \<longleftrightarrow> \<not> acyclic (adj_rel a)"
begin

lemma accepted_wf:
  assumes "\<And>u v. (u, v) \<in> adj_rel a \<Longrightarrow> u \<in> set ns \<and> v \<in> set ns" and "\<not> cyclic ns a"
  shows "wf (adj_rel a)"
proof (rule finite_acyclic_wf)
  have "adj_rel a \<subseteq> set ns \<times> set ns" using assms(1) by auto
  then show "finite (adj_rel a)" by (rule finite_subset) simp
  show "acyclic (adj_rel a)" using cyclic_iff[OF assms(1)] assms(2) by blast
qed

end

interpretation dfs_check: cycle_check "\<lambda>_. has_directed_cycle"
  by unfold_locales (simp add: has_directed_cycle_iff)

interpretation stack_check: cycle_check "\<lambda>ns a. color_check ns a = Inl CycleFound"
proof unfold_locales
  fix a :: adj and ns
  assume "\<And>u v. (u, v) \<in> adj_rel a \<Longrightarrow> u \<in> set ns \<and> v \<in> set ns"
  then have n: "set (adj_get a k) \<subseteq> set ns" "adj_get a k \<noteq> [] \<Longrightarrow> k \<in> set ns" for k
    by (auto simp: adj_rel_iff) (metis list.set_sel(1))
  show "color_check ns a = Inl CycleFound \<longleftrightarrow> \<not> acyclic (adj_rel a)"
    by (rule color_check_iff(1)) (use n in auto)
qed

end
