(* ===== verification/Validate.thy ===== *)
theory Validate
  imports Program
begin

text \<open>
  \<open>validate_program\<close> of \<^verbatim>\<open>src/oracle_composition/contracts/program.py\<close> and the constructor of
  \<open>OracleProgram\<close> that calls it.  The loop over the transitions is \<open>scan_rule\<close> folded over the
  enumerated rules: its state holds the violations so far, the sets of rule ids and of
  (mode, priority) keys already seen, the two adjacency dictionaries and the lists of
  outgoing rules.
\<close>

section \<open>Violations\<close>

datatype rule_violation =
    UndeclaredGuardSignal string | UndeclaredPhaseSignal string | PhaseSignalUnit string
  | DuplicateRuleId string | UnknownFromMode string | UnknownToMode string | SelfTransition
  | DuplicatePriority | MinDwellExceedsMax
  | NotRecoveryEdge | RecoveryEdgeElsewhere | NotRejoinEdge | RejoinNotToTask | RejoinElsewhere

datatype violation =
    BadProgramId | BadReferenceIdentity | BadHorizon | BadMaxQueries
  | NoModes | NotModeSpec | NotTransitionRule | NotSignalSpec
  | DuplicateSignalNames | DuplicateModeNames | UnknownEntryMode | NoTerminalMode | EntryNotTask
  | SpanExceedsReference string | TerminalWithMaxDwell string | MissingMaxDwell string
  | InRule nat rule_violation
  | TerminalWithOutgoing string | NoOutgoing string
  | NoRecoveryEdge string | NoRejoinEdge string
  | ZeroDwellCycle | Unreachable string | NoPathToTerminal string

definition check :: "bool \<Rightarrow> 'v \<Rightarrow> 'v list" where
  "check bad v = (if bad then [v] else [])"

lemma check_empty [simp]: "check bad v = [] \<longleftrightarrow> \<not> bad"
  by (simp add: check_def)

section \<open>The loop over the transitions\<close>

text \<open>What the loop body reads: the dictionaries built before it.\<close>

record scan_context =
  c_modes :: "mode_spec list"
  c_signals :: "signal_spec list"

definition c_kind :: "scan_context \<Rightarrow> string \<Rightarrow> mode_kind option" where
  "c_kind c = last_wins (map (\<lambda>m. (m_name m, m_kind m)) (c_modes c))"

definition c_signal :: "scan_context \<Rightarrow> string \<Rightarrow> signal_spec option" where
  "c_signal c = last_wins (map (\<lambda>s. (sig_name s, s)) (c_signals c))"

definition known :: "scan_context \<Rightarrow> string \<Rightarrow> bool" where
  "known c name \<longleftrightarrow> name \<in> m_name ` set (c_modes c)"

definition declared :: "scan_context \<Rightarrow> string \<Rightarrow> bool" where
  "declared c name \<longleftrightarrow> name \<in> sig_name ` set (c_signals c)"

record scan =
  s_errors :: "violation list"
  s_rule_ids :: "string list"
  s_priorities :: "(string \<times> int) list"
  s_adjacency :: adj
  s_zero_dwell :: adj
  s_outgoing :: "(string \<times> transition_rule list) list"

definition add_outgoing :: "(string \<times> transition_rule list) list \<Rightarrow> string \<Rightarrow> transition_rule \<Rightarrow>
    (string \<times> transition_rule list) list" where
  "add_outgoing d k r = map (\<lambda>(k', rs). if k' = k then (k', rs @ [r]) else (k', rs)) d"

text \<open>The checks of an edge between two known modes.\<close>

definition edge_errors :: "scan_context \<Rightarrow> transition_rule \<Rightarrow> rule_violation list" where
  "edge_errors c r =
     (let source = find (\<lambda>m. m_name m = from_mode r) (c_modes c);
          source_kind = c_kind c (from_mode r); target_kind = c_kind c (to_mode r) in
       check (case source of None \<Rightarrow> False
         | Some m \<Rightarrow> (case max_dwell m of None \<Rightarrow> False | Some n \<Rightarrow> n < min_dwell r)) MinDwellExceedsMax @
       (if target_kind = Some RECOVERY then check (rule_kind r \<noteq> RECOVERY_EDGE) NotRecoveryEdge
        else check (rule_kind r = RECOVERY_EDGE) RecoveryEdgeElsewhere) @
       (if source_kind = Some RECOVERY
        then check (rule_kind r \<noteq> REJOIN) NotRejoinEdge @ check (target_kind \<noteq> Some TASK) RejoinNotToTask
        else check (rule_kind r = REJOIN) RejoinElsewhere))"

definition rule_errors :: "scan_context \<Rightarrow> string list \<Rightarrow> (string \<times> int) list \<Rightarrow> transition_rule \<Rightarrow> rule_violation list" where
  "rule_errors c rule_ids priorities r =
     check (\<not> declared c (g_signal (rule_guard r))) (UndeclaredGuardSignal (g_signal (rule_guard r))) @
     (case pt_signal (rule_transfer r) of None \<Rightarrow> []
      | Some s \<Rightarrow> if \<not> declared c s then [UndeclaredPhaseSignal s]
          else check (map_option sig_unit (c_signal c s) \<noteq> Some ''1'') (PhaseSignalUnit s)) @
     check (rule_id r \<in> set rule_ids) (DuplicateRuleId (rule_id r)) @
     check (\<not> known c (from_mode r)) (UnknownFromMode (from_mode r)) @
     check (\<not> known c (to_mode r)) (UnknownToMode (to_mode r)) @
     check (from_mode r = to_mode r) SelfTransition @
     check ((from_mode r, priority r) \<in> set priorities) DuplicatePriority @
     (if known c (from_mode r) \<and> known c (to_mode r) then edge_errors c r else [])"

definition scan_rule :: "scan_context \<Rightarrow> nat \<times> transition_rule \<Rightarrow> scan \<Rightarrow> scan" where
  "scan_rule c = (\<lambda>(index, r) s.
     let both = known c (from_mode r) \<and> known c (to_mode r) in
     \<lparr>s_errors = s_errors s @ map (InRule index) (rule_errors c (s_rule_ids s) (s_priorities s) r),
      s_rule_ids = rule_id r # s_rule_ids s,
      s_priorities = (from_mode r, priority r) # s_priorities s,
      s_adjacency = (if both then adj_add (s_adjacency s) (from_mode r) (to_mode r) else s_adjacency s),
      s_zero_dwell = (if both \<and> min_dwell r = 0
        then adj_add (s_zero_dwell s) (from_mode r) (to_mode r) else s_zero_dwell s),
      s_outgoing = (if both then add_outgoing (s_outgoing s) (from_mode r) r else s_outgoing s)\<rparr>)"

definition scan_start :: "scan_context \<Rightarrow> scan" where
  "scan_start c = (let names = uniq (map m_name (c_modes c)) in
     \<lparr>s_errors = [], s_rule_ids = [], s_priorities = [],
      s_adjacency = map (\<lambda>n. (n, [])) names, s_zero_dwell = map (\<lambda>n. (n, [])) names,
      s_outgoing = map (\<lambda>n. (n, [])) names\<rparr>)"

definition scan_rules :: "scan_context \<Rightarrow> transition_rule list \<Rightarrow> scan" where
  "scan_rules c rules = fold (scan_rule c) (enum_from 0 rules) (scan_start c)"

section \<open>The validator\<close>

text \<open>\<open>for source, targets in adjacency.items(): for target in targets: reverse[target].add(source)\<close>\<close>

definition reverse_adj :: "string list \<Rightarrow> adj \<Rightarrow> adj" where
  "reverse_adj names a = fold (\<lambda>(source, targets) rev. fold (\<lambda>target rev'. adj_add rev' target source) targets rev)
     a (map (\<lambda>n. (n, [])) (uniq names))"

definition header_errors :: "program_fields \<Rightarrow> violation list" where
  "header_errors f =
     check (\<not> str_satisfies is_identifier (f_program_id f)) BadProgramId @
     check (case f_reference_identity f of Inst _ \<Rightarrow> False | Other _ \<Rightarrow> True) BadReferenceIdentity @
     check (\<not> bounded_int 1 MAX_HORIZON_STEPS (f_horizon_steps f)) BadHorizon @
     check (\<not> bounded_int 1 MAX_QUERIES (f_max_queries f)) BadMaxQueries"

definition reference_frames :: "program_fields \<Rightarrow> int" where
  "reference_frames f = (case f_reference_identity f of Inst i \<Rightarrow> n_frames i | Other _ \<Rightarrow> 0)"

definition names_of_kind :: "scan_context \<Rightarrow> mode_kind \<Rightarrow> string list" where
  "names_of_kind c k = filter (\<lambda>n. c_kind c n = Some k) (uniq (map m_name (c_modes c)))"

definition name_errors :: "scan_context \<Rightarrow> string \<Rightarrow> violation list" where
  "name_errors c entry =
     check (\<not> distinct (map sig_name (c_signals c))) DuplicateSignalNames @
     check (\<not> distinct (map m_name (c_modes c))) DuplicateModeNames @
     check (\<not> known c entry) UnknownEntryMode @
     check (names_of_kind c TERMINAL = []) NoTerminalMode @
     check (known c entry \<and> c_kind c entry \<noteq> Some TASK) EntryNotTask"

definition mode_errors :: "int \<Rightarrow> mode_spec \<Rightarrow> violation list" where
  "mode_errors frames m =
     check (frames < span_stop m) (SpanExceedsReference (m_name m)) @
     (if m_kind m = TERMINAL then check (max_dwell m \<noteq> None) (TerminalWithMaxDwell (m_name m))
      else check (max_dwell m = None) (MissingMaxDwell (m_name m)))"

definition outgoing_errors :: "scan \<Rightarrow> mode_spec \<Rightarrow> violation list" where
  "outgoing_errors s m = (let rs = map_of (s_outgoing s) (m_name m) in
     check (m_kind m = TERMINAL \<and> rs \<noteq> Some []) (TerminalWithOutgoing (m_name m)) @
     check (m_kind m \<noteq> TERMINAL \<and> rs = Some []) (NoOutgoing (m_name m)))"

definition recovery_errors :: "transition_rule list \<Rightarrow> string \<Rightarrow> violation list" where
  "recovery_errors rules recovery =
     check (\<not> (\<exists>r \<in> set rules. to_mode r = recovery \<and> rule_kind r = RECOVERY_EDGE)) (NoRecoveryEdge recovery) @
     check (\<not> (\<exists>r \<in> set rules. from_mode r = recovery \<and> rule_kind r = REJOIN)) (NoRejoinEdge recovery)"

definition graph_errors :: "scan_context \<Rightarrow> string \<Rightarrow> scan \<Rightarrow> violation list" where
  "graph_errors c entry s =
     (let names = map m_name (c_modes c); reverse = reverse_adj names (s_adjacency s);
          can_reach_terminal = concat (map (\<lambda>t. path_reachable t reverse) (names_of_kind c TERMINAL)) in
     check (has_directed_cycle (s_zero_dwell s)) ZeroDwellCycle @
     (if known c entry
      then let reachable = path_reachable entry (s_adjacency s)
        in concat (map (\<lambda>n. check (n \<notin> set reachable) (Unreachable n)) names)
      else []) @
     concat (map (\<lambda>n. check (n \<notin> set can_reach_terminal) (NoPathToTerminal n)) names))"

definition validate_parts :: "int \<Rightarrow> scan_context \<Rightarrow> string \<Rightarrow> transition_rule list \<Rightarrow> violation list" where
  "validate_parts frames c entry rules = (let s = scan_rules c rules in
     name_errors c entry @
     concat (map (mode_errors frames) (c_modes c)) @
     s_errors s @
     concat (map (outgoing_errors s) (c_modes c)) @
     concat (map (recovery_errors rules) (names_of_kind c RECOVERY)) @
     graph_errors c entry s)"

definition validate_program :: "program_fields \<Rightarrow> violation list" where
  "validate_program f = (let errors = header_errors f in
     if f_modes f = [] then errors @ [NoModes]
     else case arg_insts (f_modes f) of None \<Rightarrow> errors @ [NotModeSpec]
     | Some ms \<Rightarrow> (case arg_insts (f_transitions f) of None \<Rightarrow> errors @ [NotTransitionRule]
       | Some rs \<Rightarrow> (case arg_insts (f_signal_specs f) of None \<Rightarrow> errors @ [NotSignalSpec]
         | Some ss \<Rightarrow> errors @ validate_parts (reference_frames f)
             \<lparr>c_modes = ms, c_signals = ss\<rparr> (f_entry_mode f) rs)))"

text \<open>\<open>OracleProgram.__post_init__\<close>\<close>

definition mk_program :: "program_fields \<Rightarrow> violation list + oracle_program" where
  "mk_program f = (let errors = validate_program f in
     if errors \<noteq> [] then Inl errors
     else case (f_reference_identity f, arg_insts (f_modes f), arg_insts (f_transitions f), arg_insts (f_signal_specs f)) of
       (Inst i, Some ms, Some rs, Some ss) \<Rightarrow> Inr \<lparr>program_id = str_of (f_program_id f),
         reference_identity = i, entry_mode = f_entry_mode f, modes = ms, transitions = rs,
         signal_specs = ss, horizon_steps = int_of (f_horizon_steps f), max_queries = int_of (f_max_queries f)\<rparr>
     | _ \<Rightarrow> Inl errors)"

section \<open>What the loop computes\<close>

lemma rule_errors_Nil_iff:
  "rule_errors c ids prios r = [] \<longleftrightarrow>
     rule_errors c [] [] r = [] \<and> rule_id r \<notin> set ids \<and> (from_mode r, priority r) \<notin> set prios"
  by (auto simp: rule_errors_def)

definition scan_from :: "scan_context \<Rightarrow> nat \<Rightarrow> transition_rule list \<Rightarrow> scan \<Rightarrow> scan" where
  "scan_from c n rules s = fold (scan_rule c) (enum_from n rules) s"

lemma scan_from_simps [simp]:
  "scan_from c n [] s = s"
  "scan_from c n (r # rs) s = scan_from c (Suc n) rs (scan_rule c (n, r) s)"
  by (simp_all add: scan_from_def)

lemma scan_from_errors:
  "s_errors (scan_from c n rs s) = [] \<longleftrightarrow> s_errors s = [] \<and> (\<forall>r \<in> set rs. rule_errors c [] [] r = []) \<and>
     distinct (map rule_id rs) \<and> (\<forall>r \<in> set rs. rule_id r \<notin> set (s_rule_ids s)) \<and>
     distinct (map (\<lambda>r. (from_mode r, priority r)) rs) \<and>
     (\<forall>r \<in> set rs. (from_mode r, priority r) \<notin> set (s_priorities s))"
proof (induction rs arbitrary: n s)
  case (Cons r rs)
  show ?case
    using rule_errors_Nil_iff[of c "s_rule_ids s" "s_priorities s" r]
    by (auto simp: Cons.IH scan_rule_def Let_def image_iff)
qed simp

definition edge_set :: "transition_rule list \<Rightarrow> (string \<times> string) set" where
  "edge_set rs = (\<lambda>r. (from_mode r, to_mode r)) ` set rs"

definition both_known :: "scan_context \<Rightarrow> transition_rule \<Rightarrow> bool" where
  "both_known c r \<longleftrightarrow> known c (from_mode r) \<and> known c (to_mode r)"

lemma scan_from_adjacency:
  assumes "fst ` set (s_adjacency s) = m_name ` set (c_modes c)"
    and "fst ` set (s_zero_dwell s) = m_name ` set (c_modes c)"
  shows "adj_rel (s_adjacency (scan_from c n rs s)) =
      adj_rel (s_adjacency s) \<union> edge_set (filter (both_known c) rs) \<and>
    adj_rel (s_zero_dwell (scan_from c n rs s)) =
      adj_rel (s_zero_dwell s) \<union> edge_set (filter (\<lambda>r. both_known c r \<and> min_dwell r = 0) rs) \<and>
    map fst (s_adjacency (scan_from c n rs s)) = map fst (s_adjacency s)"
  using assms
proof (induction rs arbitrary: n s)
  case Nil
  show ?case by (simp add: edge_set_def)
next
  case (Cons r rs)
  let ?s = "scan_rule c (n, r) s"
  have keys: "map fst (s_adjacency ?s) = map fst (s_adjacency s)"
    "map fst (s_zero_dwell ?s) = map fst (s_zero_dwell s)"
    by (simp_all add: scan_rule_def Let_def)
  have k: "fst ` set (s_adjacency ?s) = m_name ` set (c_modes c)"
    "fst ` set (s_zero_dwell ?s) = m_name ` set (c_modes c)"
    using keys Cons.prems by (metis list.set_map)+
  have a: "adj_rel (s_adjacency ?s) = adj_rel (s_adjacency s) \<union> edge_set (filter (both_known c) [r])"
    using Cons.prems by (auto simp: scan_rule_def Let_def both_known_def known_def adj_rel_adj_add edge_set_def)
  have z: "adj_rel (s_zero_dwell ?s) = adj_rel (s_zero_dwell s) \<union>
      edge_set (filter (\<lambda>r. both_known c r \<and> min_dwell r = 0) [r])"
    using Cons.prems by (auto simp: scan_rule_def Let_def both_known_def known_def adj_rel_adj_add edge_set_def)
  have e: "edge_set (filter P (r # rs)) = edge_set (filter P [r]) \<union> edge_set (filter P rs)" for P
    by (auto simp: edge_set_def)
  show ?case
    using Cons.IH[OF k, of "Suc n"] a z keys e[of "both_known c"]
      e[of "\<lambda>r. both_known c r \<and> min_dwell r = 0"]
    by (simp only: scan_from_simps Un_assoc)
qed

lemma scan_from_outgoing:
  "map_of (s_outgoing (scan_from c n rs s)) k =
     map_option (\<lambda>l. l @ filter (\<lambda>r. both_known c r \<and> from_mode r = k) rs) (map_of (s_outgoing s) k)"
proof (induction rs arbitrary: n s)
  case Nil
  then show ?case by (simp add: option.map_ident)
next
  case (Cons r rs)
  have "map_of (add_outgoing d k' r) k =
      map_option (\<lambda>l. if k = k' then l @ [r] else l) (map_of d k)" for d k'
    by (induction d) (auto simp: add_outgoing_def)
  then show ?case
    by (auto simp: Cons.IH scan_rule_def Let_def both_known_def option.map_comp o_def intro!: map_option_cong)
qed

lemma reverse_fold:
  assumes "fst ` set d = N" "\<forall>(s, ts) \<in> set a. set ts \<subseteq> N"
  shows "adj_rel (fold (\<lambda>(source, targets) d. fold (\<lambda>target d2. adj_add d2 target source) targets d) a d) =
    adj_rel d \<union> {(t, s). \<exists>ts. (s, ts) \<in> set a \<and> t \<in> set ts}"
  using assms
proof (induction a arbitrary: d)
  case (Cons e a)
  obtain s ts where e: "e = (s, ts)" by force
  have inner: "fst ` set (fold (\<lambda>t d2. adj_add d2 t s) ts d) = N \<and>
      adj_rel (fold (\<lambda>t d2. adj_add d2 t s) ts d) = adj_rel d \<union> (\<lambda>t. (t, s)) ` set ts"
    if "fst ` set d = N" "set ts \<subseteq> N" for ts d
    using that
  proof (induction ts arbitrary: d)
    case (Cons t ts)
    have "fst ` set (adj_add d t s) = N" using Cons.prems(1) by (metis map_fst_adj_add list.set_map)
    then show ?case using Cons by (auto simp: adj_rel_adj_add)
  qed simp
  have "set ts \<subseteq> N" using Cons.prems(2) e by auto
  then show ?case using inner[OF Cons.prems(1)] Cons.IH Cons.prems(2) e by auto
qed simp

lemma reverse_adj_rel:
  assumes "distinct (map fst a)" "\<And>s t. (s, t) \<in> adj_rel a \<Longrightarrow> t \<in> set names"
  shows "adj_rel (reverse_adj names a) = (adj_rel a)\<inverse>"
proof -
  have e: "(s, ts) \<in> set a \<Longrightarrow> adj_get a s = ts" for s ts
    using assms(1) by (simp add: adj_get_def)
  have "adj_rel (reverse_adj names a) = adj_rel (map (\<lambda>n. (n, [])) (uniq names)) \<union>
      {(t, s). \<exists>ts. (s, ts) \<in> set a \<and> t \<in> set ts}"
    unfolding reverse_adj_def
  proof (rule reverse_fold)
    show "\<forall>(s, ts) \<in> set a. set ts \<subseteq> set names" using assms(2) e by (fastforce simp: adj_rel_iff)
  qed force
  moreover have "(\<exists>ts. (s, ts) \<in> set a \<and> t \<in> set ts) \<longleftrightarrow> (s, t) \<in> adj_rel a" for s t
    using e adj_get_nodes[of t a s] by (fastforce simp: adj_rel_iff)
  ultimately show ?thesis by (auto simp: adj_rel_empty)
qed

section \<open>The specification of an accepted program\<close>

text \<open>One transition: where it leads, what it reads, and the role its kind gives it.\<close>

definition wf_rule :: "mode_spec list \<Rightarrow> signal_spec list \<Rightarrow> transition_rule \<Rightarrow> bool" where
  "wf_rule ms ss r \<longleftrightarrow>
     g_signal (rule_guard r) \<in> sig_name ` set ss \<and>
     (\<forall>n. pt_signal (rule_transfer r) = Some n \<longrightarrow> (\<exists>s \<in> set ss. sig_name s = n \<and> sig_unit s = ''1'')) \<and>
     from_mode r \<noteq> to_mode r \<and>
     (\<exists>source \<in> set ms. \<exists>target \<in> set ms. m_name source = from_mode r \<and> m_name target = to_mode r \<and>
        (\<forall>n. max_dwell source = Some n \<longrightarrow> min_dwell r \<le> n) \<and>
        (m_kind target = RECOVERY \<longleftrightarrow> rule_kind r = RECOVERY_EDGE) \<and>
        (m_kind source = RECOVERY \<longleftrightarrow> rule_kind r = REJOIN) \<and>
        (m_kind source = RECOVERY \<longrightarrow> m_kind target = TASK))"

definition wf_mode :: "int \<Rightarrow> transition_rule list \<Rightarrow> mode_spec \<Rightarrow> bool" where
  "wf_mode frames rs m \<longleftrightarrow> span_stop m \<le> frames \<and>
     (m_kind m = TERMINAL \<longleftrightarrow> max_dwell m = None) \<and>
     (m_kind m = TERMINAL \<longleftrightarrow> \<not> (\<exists>r \<in> set rs. from_mode r = m_name m)) \<and>
     (m_kind m = RECOVERY \<longrightarrow> (\<exists>r \<in> set rs. to_mode r = m_name m \<and> rule_kind r = RECOVERY_EDGE) \<and>
        (\<exists>r \<in> set rs. from_mode r = m_name m \<and> rule_kind r = REJOIN))"

definition wf_graph :: "mode_spec list \<Rightarrow> string \<Rightarrow> transition_rule list \<Rightarrow> bool" where
  "wf_graph ms entry rs \<longleftrightarrow>
     acyclic (edge_set (filter (\<lambda>r. min_dwell r = 0) rs)) \<and>
     (\<forall>m \<in> set ms. (entry, m_name m) \<in> (edge_set rs)\<^sup>*) \<and>
     (\<forall>m \<in> set ms. \<exists>t \<in> set ms. m_kind t = TERMINAL \<and> (m_name m, m_name t) \<in> (edge_set rs)\<^sup>*)"

definition wf_parts :: "int \<Rightarrow> mode_spec list \<Rightarrow> signal_spec list \<Rightarrow> string \<Rightarrow> transition_rule list \<Rightarrow> bool" where
  "wf_parts frames ms ss entry rs \<longleftrightarrow>
     distinct (map sig_name ss) \<and> distinct (map m_name ms) \<and>
     distinct (map rule_id rs) \<and> distinct (map (\<lambda>r. (from_mode r, priority r)) rs) \<and>
     (\<exists>m \<in> set ms. m_name m = entry \<and> m_kind m = TASK) \<and> (\<exists>m \<in> set ms. m_kind m = TERMINAL) \<and>
     (\<forall>m \<in> set ms. wf_mode frames rs m) \<and> (\<forall>r \<in> set rs. wf_rule ms ss r) \<and> wf_graph ms entry rs"

definition wf_program :: "oracle_program \<Rightarrow> bool" where
  "wf_program p \<longleftrightarrow> is_identifier (program_id p) \<and>
     1 \<le> horizon_steps p \<and> horizon_steps p \<le> MAX_HORIZON_STEPS \<and>
     1 \<le> max_queries p \<and> max_queries p \<le> MAX_QUERIES \<and>
     wf_parts (n_frames (reference_identity p)) (modes p) (signal_specs p) (entry_mode p) (transitions p)"

section \<open>The validator decides the specification\<close>

abbreviation ctx :: "mode_spec list \<Rightarrow> signal_spec list \<Rightarrow> scan_context" where
  "ctx ms ss \<equiv> \<lparr>c_modes = ms, c_signals = ss\<rparr>"

lemma key_inj: "distinct (map f xs) \<Longrightarrow> x \<in> set xs \<Longrightarrow> y \<in> set xs \<Longrightarrow> f x = f y \<Longrightarrow> x = y"
  by (meson distinct_map inj_onD)

lemma map_of_key: "distinct (map f xs) \<Longrightarrow> x \<in> set xs \<Longrightarrow> map_of (map (\<lambda>x. (f x, g x)) xs) (f x) = Some (g x)"
  by (induction xs) (auto simp: rev_image_eqI)

lemma last_wins_key:
  "distinct (map f xs) \<Longrightarrow> x \<in> set xs \<Longrightarrow> last_wins (map (\<lambda>x. (f x, g x)) xs) (f x) = Some (g x)"
  by (simp add: last_wins_distinct o_def map_of_key)

lemma c_kind_of: "distinct (map m_name ms) \<Longrightarrow> m \<in> set ms \<Longrightarrow> c_kind (ctx ms ss) (m_name m) = Some (m_kind m)"
  by (simp add: c_kind_def last_wins_key)

lemma c_signal_of: "distinct (map sig_name ss) \<Longrightarrow> s \<in> set ss \<Longrightarrow> c_signal (ctx ms ss) (sig_name s) = Some s"
  using last_wins_key[of sig_name ss s id] by (simp add: c_signal_def)

lemma known_iff: "known (ctx ms ss) n \<longleftrightarrow> n \<in> m_name ` set ms"
  by (simp add: known_def)

lemma declared_iff: "declared (ctx ms ss) n \<longleftrightarrow> n \<in> sig_name ` set ss"
  by (simp add: declared_def)

lemma names_of_kind_set:
  "distinct (map m_name ms) \<Longrightarrow> set (names_of_kind (ctx ms ss) k) = m_name ` {m \<in> set ms. m_kind m = k}"
  by (auto simp: names_of_kind_def c_kind_of)

lemma name_errors_Nil_iff:
  assumes "distinct (map m_name ms)"
  shows "name_errors (ctx ms ss) entry = [] \<longleftrightarrow> distinct (map sig_name ss) \<and>
    (\<exists>m \<in> set ms. m_name m = entry \<and> m_kind m = TASK) \<and> (\<exists>m \<in> set ms. m_kind m = TERMINAL)"
proof -
  have "names_of_kind (ctx ms ss) TERMINAL = [] \<longleftrightarrow> \<not> (\<exists>m \<in> set ms. m_kind m = TERMINAL)"
    using names_of_kind_set[OF assms, of ss TERMINAL] by (auto simp flip: set_empty)
  then show ?thesis
    using assms key_inj[OF assms] by (auto simp: name_errors_def known_iff c_kind_of) blast
qed

lemma rule_errors_wf:
  assumes "distinct (map m_name ms)" "distinct (map sig_name ss)"
  shows "rule_errors (ctx ms ss) [] [] r = [] \<longleftrightarrow> wf_rule ms ss r"
proof (cases "\<exists>source \<in> set ms. \<exists>target \<in> set ms. m_name source = from_mode r \<and> m_name target = to_mode r")
  case True
  then obtain source target where st: "source \<in> set ms" "target \<in> set ms"
    "m_name source = from_mode r" "m_name target = to_mode r" by blast
  have u: "m = source" if "m \<in> set ms" "m_name m = from_mode r" for m
    using that st assms(1) by (metis distinct_map inj_onD)
  have v: "m = target" if "m \<in> set ms" "m_name m = to_mode r" for m
    using that st assms(1) by (metis distinct_map inj_onD)
  have f: "find (\<lambda>m. m_name m = from_mode r) ms = Some source"
    using find_distinct[OF assms(1) st(1)] st(3) by simp
  have k: "c_kind (ctx ms ss) (from_mode r) = Some (m_kind source)"
    "c_kind (ctx ms ss) (to_mode r) = Some (m_kind target)"
    using c_kind_of[OF assms(1)] st by metis+
  have kn: "known (ctx ms ss) (from_mode r)" "known (ctx ms ss) (to_mode r)"
    using st by (force simp: known_iff)+
  have e: "edge_errors (ctx ms ss) r = [] \<longleftrightarrow> (\<forall>n. max_dwell source = Some n \<longrightarrow> min_dwell r \<le> n) \<and>
        (m_kind target = RECOVERY \<longleftrightarrow> rule_kind r = RECOVERY_EDGE) \<and>
        (m_kind source = RECOVERY \<longleftrightarrow> rule_kind r = REJOIN) \<and>
        (m_kind source = RECOVERY \<longrightarrow> m_kind target = TASK)"
    by (auto simp: edge_errors_def f k Let_def split: option.splits)
  have p: "(case pt_signal (rule_transfer r) of None \<Rightarrow> []
      | Some s \<Rightarrow> if \<not> declared (ctx ms ss) s then [UndeclaredPhaseSignal s]
          else check (map_option sig_unit (c_signal (ctx ms ss) s) \<noteq> Some ''1'') (PhaseSignalUnit s)) = [] \<longleftrightarrow>
     (\<forall>n. pt_signal (rule_transfer r) = Some n \<longrightarrow> (\<exists>s \<in> set ss. sig_name s = n \<and> sig_unit s = ''1''))"
    using c_signal_of[OF assms(2), of _ ms] key_inj[OF assms(2)]
    by (auto simp: declared_iff split: option.splits)
  have q: "(\<exists>a \<in> set ms. \<exists>b \<in> set ms. m_name a = from_mode r \<and> m_name b = to_mode r \<and> P a b) \<longleftrightarrow> P source target" for P
    using st u v by metis
  show ?thesis
    unfolding rule_errors_def wf_rule_def append_is_Nil_conv p q
    by (simp add: kn e declared_iff)
next
  case False
  then show ?thesis by (auto simp: rule_errors_def wf_rule_def known_iff)
qed

lemma scan_errors_wf:
  assumes "distinct (map m_name ms)" "distinct (map sig_name ss)"
  shows "s_errors (scan_rules (ctx ms ss) rs) = [] \<longleftrightarrow> (\<forall>r \<in> set rs. wf_rule ms ss r) \<and>
    distinct (map rule_id rs) \<and> distinct (map (\<lambda>r. (from_mode r, priority r)) rs)"
  using scan_from_errors[of "ctx ms ss" 0 rs "scan_start (ctx ms ss)"] rule_errors_wf[OF assms]
  by (auto simp: scan_rules_def scan_from_def scan_start_def Let_def)

lemma wf_rule_known: "wf_rule ms ss r \<Longrightarrow> both_known (ctx ms ss) r"
  by (auto simp: wf_rule_def both_known_def known_iff intro: rev_image_eqI)

lemma scan_rules_graph:
  assumes "\<forall>r \<in> set rs. wf_rule ms ss r"
  defines "s \<equiv> scan_rules (ctx ms ss) rs"
  shows "adj_rel (s_adjacency s) = edge_set rs"
    and "adj_rel (s_zero_dwell s) = edge_set (filter (\<lambda>r. min_dwell r = 0) rs)"
    and "distinct (map fst (s_adjacency s))"
    and "n \<in> m_name ` set ms \<Longrightarrow> map_of (s_outgoing s) n = Some (filter (\<lambda>r. from_mode r = n) rs)"
proof -
  let ?s0 = "scan_start (ctx ms ss)"
  have s: "s = scan_from (ctx ms ss) 0 rs ?s0" by (simp add: s_def scan_rules_def scan_from_def)
  have keys: "fst ` set (s_adjacency ?s0) = m_name ` set (c_modes (ctx ms ss))"
    "fst ` set (s_zero_dwell ?s0) = m_name ` set (c_modes (ctx ms ss))"
    by (force simp: scan_start_def Let_def)+
  have "\<forall>r \<in> set rs. both_known (ctx ms ss) r" using assms(1) wf_rule_known by blast
  then have known: "filter (\<lambda>r. both_known (ctx ms ss) r \<and> P r) rs = filter P rs"
    "filter (both_known (ctx ms ss)) rs = rs" for P
    by (auto intro!: filter_cong filter_True)
  have empty: "adj_rel (s_adjacency ?s0) = {}" "adj_rel (s_zero_dwell ?s0) = {}"
    by (simp_all add: scan_start_def Let_def adj_rel_empty)
  note r = scan_from_adjacency[OF keys, of 0 rs, unfolded known empty, folded s]
  show "adj_rel (s_adjacency s) = edge_set rs"
    "adj_rel (s_zero_dwell s) = edge_set (filter (\<lambda>r. min_dwell r = 0) rs)"
    using r by simp_all
  show "distinct (map fst (s_adjacency s))"
    using r by (simp add: scan_start_def Let_def o_def)
  assume "n \<in> m_name ` set ms"
  then have "map_of (s_outgoing ?s0) n = Some []"
    by (auto simp: scan_start_def Let_def map_of_map_restrict o_def)
  then show "map_of (s_outgoing s) n = Some (filter (\<lambda>r. from_mode r = n) rs)"
    by (simp add: s scan_from_outgoing known)
qed

lemma edge_set_names:
  "\<forall>r \<in> set rs. wf_rule ms ss r \<Longrightarrow> (a, b) \<in> edge_set rs \<Longrightarrow> a \<in> m_name ` set ms \<and> b \<in> m_name ` set ms"
  using wf_rule_known by (fastforce simp: edge_set_def both_known_def known_iff)

lemma graph_errors_Nil_iff:
  assumes names: "distinct (map m_name ms)" and rules: "\<forall>r \<in> set rs. wf_rule ms ss r"
    and entry: "entry \<in> m_name ` set ms"
  shows "graph_errors (ctx ms ss) entry (scan_rules (ctx ms ss) rs) = [] \<longleftrightarrow> wf_graph ms entry rs"
proof -
  let ?s = "scan_rules (ctx ms ss) rs"
  note g = scan_rules_graph[OF rules]
  have rv: "adj_rel (reverse_adj (map m_name ms) (s_adjacency ?s)) = (edge_set rs)\<inverse>"
    using reverse_adj_rel[OF g(3), of "map m_name ms"] edge_set_names[OF rules] g(1) by auto
  have conv: "(t, n) \<in> ((edge_set rs)\<inverse>)\<^sup>* \<longleftrightarrow> (n, t) \<in> (edge_set rs)\<^sup>*" for t n
    by (simp add: rtrancl_converse)
  show ?thesis
    using entry unfolding graph_errors_def wf_graph_def
    by (simp add: Let_def known_iff dfs_check.cyclic_iff[of _ "[]"] has_directed_cycle_iff g(1,2)
        dfs_reach.reach_set rv conv names_of_kind_set[OF names]) (auto simp: image_iff)
qed

lemma outgoing_errors_Nil_iff:
  assumes rules: "\<forall>r \<in> set rs. wf_rule ms ss r" and m: "m \<in> set ms"
  shows "outgoing_errors (scan_rules (ctx ms ss) rs) m = [] \<longleftrightarrow>
    (m_kind m = TERMINAL \<longleftrightarrow> \<not> (\<exists>r \<in> set rs. from_mode r = m_name m))"
  using scan_rules_graph(4)[OF rules, of "m_name m"] m
  by (auto simp: outgoing_errors_def Let_def filter_empty_conv)

lemma recovery_errors_Nil_iff:
  assumes "distinct (map m_name ms)"
  shows "concat (map (recovery_errors rs) (names_of_kind (ctx ms ss) RECOVERY)) = [] \<longleftrightarrow>
    (\<forall>m \<in> set ms. m_kind m = RECOVERY \<longrightarrow> (\<exists>r \<in> set rs. to_mode r = m_name m \<and> rule_kind r = RECOVERY_EDGE) \<and>
        (\<exists>r \<in> set rs. from_mode r = m_name m \<and> rule_kind r = REJOIN))"
  by (auto simp: names_of_kind_set[OF assms] recovery_errors_def)

lemma mode_errors_Nil_iff:
  "mode_errors frames m = [] \<longleftrightarrow> span_stop m \<le> frames \<and> (m_kind m = TERMINAL \<longleftrightarrow> max_dwell m = None)"
  by (auto simp: mode_errors_def)

lemma validate_parts_iff: "validate_parts frames (ctx ms ss) entry rs = [] \<longleftrightarrow> wf_parts frames ms ss entry rs"
proof (cases "distinct (map m_name ms) \<and> distinct (map sig_name ss) \<and>
    (\<exists>m \<in> set ms. m_name m = entry \<and> m_kind m = TASK) \<and> (\<exists>m \<in> set ms. m_kind m = TERMINAL) \<and>
    (\<forall>r \<in> set rs. wf_rule ms ss r)")
  case True
  then have h: "distinct (map m_name ms)" "distinct (map sig_name ss)" "entry \<in> m_name ` set ms"
    "\<forall>r \<in> set rs. wf_rule ms ss r" by auto
  have "name_errors (ctx ms ss) entry = []" using True name_errors_Nil_iff by blast
  then show ?thesis
    unfolding validate_parts_def Let_def append_is_Nil_conv wf_parts_def wf_mode_def
      scan_errors_wf[OF h(1,2)] graph_errors_Nil_iff[OF h(1,4,3)] recovery_errors_Nil_iff[OF h(1)]
    using True by (auto simp: outgoing_errors_Nil_iff[OF h(4)] mode_errors_Nil_iff)
next
  case False
  have "validate_parts frames (ctx ms ss) entry rs \<noteq> []"
  proof
    assume e: "validate_parts frames (ctx ms ss) entry rs = []"
    then have n: "name_errors (ctx ms ss) entry = []" and s: "s_errors (scan_rules (ctx ms ss) rs) = []"
      by (simp_all add: validate_parts_def Let_def)
    have "distinct (map m_name ms)" using n by (simp add: name_errors_def)
    then show False using n s False name_errors_Nil_iff scan_errors_wf by blast
  qed
  then show ?thesis using False by (auto simp: wf_parts_def)
qed

lemma validate_program_iff:
  "validate_program f = [] \<longleftrightarrow> (\<exists>p. f = fields_of p \<and> wf_program p)"
proof
  assume e: "validate_program f = []"
  then obtain ms rs ss where l: "f_modes f = map Inst ms" "f_transitions f = map Inst rs"
      "f_signal_specs f = map Inst ss" "ms \<noteq> []"
    and h: "header_errors f = []"
    and v: "validate_parts (reference_frames f) (ctx ms ss) (f_entry_mode f) rs = []"
    by (auto simp: validate_program_def Let_def arg_insts_Some_iff split: if_splits option.splits)
  from h obtain i pid hz mq where hd: "f_reference_identity f = Inst i" "f_program_id f = PStr pid"
      "is_identifier pid" "f_horizon_steps f = PInt hz" "1 \<le> hz" "hz \<le> MAX_HORIZON_STEPS"
      "f_max_queries f = PInt mq" "1 \<le> mq" "mq \<le> MAX_QUERIES"
    by (auto simp: header_errors_def str_satisfies_iff bounded_int_iff split: arg.splits)
  define p where "p = \<lparr>program_id = pid, reference_identity = i, entry_mode = f_entry_mode f,
    modes = ms, transitions = rs, signal_specs = ss, horizon_steps = hz, max_queries = mq\<rparr>"
  have "f = fields_of p" using l hd by (cases f) (simp add: fields_of_def p_def)
  moreover have "wf_program p"
    using v hd by (simp add: wf_program_def p_def validate_parts_iff reference_frames_def)
  ultimately show "\<exists>p. f = fields_of p \<and> wf_program p" by blast
next
  assume "\<exists>p. f = fields_of p \<and> wf_program p"
  then obtain p where p: "f = fields_of p" "wf_program p" by blast
  have "modes p \<noteq> []" using p(2) by (auto simp: wf_program_def wf_parts_def)
  then show "validate_program f = []"
    using p(2) by (simp add: p(1) validate_program_def fields_of_def header_errors_def wf_program_def
        reference_frames_def validate_parts_iff str_satisfies_iff bounded_int_iff)
qed

lemma mk_program_iff: "mk_program f = Inr p \<longleftrightarrow> f = fields_of p \<and> wf_program p"
proof -
  have "mk_program (fields_of q) = Inr q" if "wf_program q" for q
    using that validate_program_iff[of "fields_of q"]
    by (auto simp: mk_program_def Let_def fields_of_def)
  moreover have "validate_program f = []" if "mk_program f = Inr p"
    using that by (auto simp: mk_program_def Let_def split: if_splits)
  ultimately show ?thesis using validate_program_iff[of f] by (metis sum.inject(2))
qed

section \<open>What an accepted program gives the runtime\<close>

text \<open>A program whose parts their constructors made and that the validator accepted.\<close>

definition program_ok :: "oracle_program \<Rightarrow> bool" where
  "program_ok p \<longleftrightarrow> wf_program p \<and> (\<forall>m \<in> set (modes p). mode_ok m) \<and>
     (\<forall>r \<in> set (transitions p). rule_ok r) \<and> (\<forall>s \<in> set (signal_specs p). signal_ok s)"

lemma program_ok_distinct:
  assumes "program_ok p"
  shows "distinct (map m_name (modes p))" "distinct (map rule_id (transitions p))"
    "distinct (map (\<lambda>r. (from_mode r, priority r)) (transitions p))" "distinct (map sig_name (signal_specs p))"
  using assms by (simp_all add: program_ok_def wf_program_def wf_parts_def)

lemma program_mode_in:
  "program_ok p \<Longrightarrow> m \<in> set (modes p) \<Longrightarrow> program_mode p (m_name m) = Inr m"
  by (simp add: program_mode_def find_distinct program_ok_distinct)

lemma program_mode_InrD: "program_mode p n = Inr m \<Longrightarrow> m \<in> set (modes p) \<and> m_name m = n"
  by (auto simp: program_mode_def split: option.splits dest: find_SomeD)

lemma set_outgoing: "set (outgoing p n) = {r \<in> set (transitions p). from_mode r = n}"
  by (auto simp: outgoing_def)

lemma outgoing_sorted: "sorted (map priority (outgoing p n))"
  by (simp add: outgoing_def)

lemma outgoing_priorities_distinct:
  assumes "program_ok p"
  shows "distinct (map priority (outgoing p n))"
proof -
  have "distinct (map (\<lambda>r. (from_mode r, priority r)) (outgoing p n))"
    using program_ok_distinct(3)[OF assms]
    by (auto simp: outgoing_def distinct_map inj_on_def)
  then show ?thesis by (auto simp: distinct_map inj_on_def set_outgoing)
qed

lemma program_ok_rule:
  assumes "program_ok p" "r \<in> set (transitions p)"
  obtains source target where "source \<in> set (modes p)" "target \<in> set (modes p)"
    "m_name source = from_mode r" "m_name target = to_mode r"
    "\<And>n. max_dwell source = Some n \<Longrightarrow> min_dwell r \<le> n"
    "m_kind source = RECOVERY \<Longrightarrow> m_kind target = TASK"
    "from_mode r \<noteq> to_mode r"
proof -
  have "wf_rule (modes p) (signal_specs p) r"
    using assms by (simp add: program_ok_def wf_program_def wf_parts_def)
  then show thesis unfolding wf_rule_def using that by metis
qed

lemma program_ok_mode:
  assumes "program_ok p" "m \<in> set (modes p)"
  shows "0 \<le> span_start m" "span_start m < span_stop m" "span_stop m \<le> n_frames (reference_identity p)"
    "1 \<le> mode_frames m" "m_kind m = TERMINAL \<longleftrightarrow> max_dwell m = None"
  using assms by (auto simp: program_ok_def wf_program_def wf_parts_def wf_mode_def mode_ok_def mode_frames_def)

lemma program_ok_entry:
  assumes "program_ok p"
  obtains m where "m \<in> set (modes p)" "m_name m = entry_mode p" "m_kind m = TASK"
  using assms by (auto simp: program_ok_def wf_program_def wf_parts_def)

section \<open>An example program\<close>

text \<open>A run with one recovery mode: a fall leaves \<open>run\<close>, the rejoin resumes it at a phase.\<close>

definition demo_modes :: "mode_spec list" where
  "demo_modes = [
     \<lparr>m_name = ''run'', span_start = 0, span_stop = 3, m_kind = TASK, max_dwell = Some 2\<rparr>,
     \<lparr>m_name = ''fall'', span_start = 3, span_stop = 5, m_kind = RECOVERY, max_dwell = Some 3\<rparr>,
     \<lparr>m_name = ''done'', span_start = 5, span_stop = 6, m_kind = TERMINAL, max_dwell = None\<rparr>]"

definition demo_rules :: "transition_rule list" where
  "demo_rules = [
     \<lparr>rule_id = ''finish'', from_mode = ''run'', to_mode = ''done'',
      rule_guard = \<lparr>g_signal = ''phase'', g_operator = GE, g_threshold = Fin 1, g_hysteresis = Fin 0\<rparr>,
      priority = 1, rule_transfer = \<lparr>pt_kind = RESET_TO_START, pt_signal = None\<rparr>, min_dwell = 1, rule_kind = ADVANCE\<rparr>,
     \<lparr>rule_id = ''fell'', from_mode = ''run'', to_mode = ''fall'', rule_guard = demo_guard,
      priority = 0, rule_transfer = \<lparr>pt_kind = RESET_TO_START, pt_signal = None\<rparr>, min_dwell = 0, rule_kind = RECOVERY_EDGE\<rparr>,
     \<lparr>rule_id = ''up'', from_mode = ''fall'', to_mode = ''run'',
      rule_guard = \<lparr>g_signal = ''tilt'', g_operator = LT, g_threshold = Fin (1 / 2), g_hysteresis = Fin 0\<rparr>,
      priority = 0, rule_transfer = \<lparr>pt_kind = NORMALIZED_PHASE_FROM_SIGNAL, pt_signal = Some ''phase''\<rparr>,
      min_dwell = 1, rule_kind = REJOIN\<rparr>]"

definition demo_signals :: "signal_spec list" where
  "demo_signals = [
     \<lparr>sig_name = ''tilt'', sig_unit = ''rad'', sig_visibility = OBSERVABLE, sig_source = ''imu'', sig_latency_steps = 1\<rparr>,
     \<lparr>sig_name = ''phase'', sig_unit = ''1'', sig_visibility = PRIVILEGED, sig_source = ''clock'', sig_latency_steps = 0\<rparr>]"

definition demo_program :: oracle_program where
  "demo_program = \<lparr>program_id = ''demo'', reference_identity = art_identity demo_artifact,
     entry_mode = ''run'', modes = demo_modes, transitions = demo_rules, signal_specs = demo_signals,
     horizon_steps = 2, max_queries = 10\<rparr>"

lemma demo_validates: "validate_program (fields_of demo_program) = []"
  by code_simp

lemma demo_mk_program: "mk_program (fields_of demo_program) = Inr demo_program"
  using demo_validates validate_program_iff[of "fields_of demo_program"] by (auto simp: mk_program_iff)

lemma demo_program_ok: "program_ok demo_program"
proof -
  have "wf_program demo_program" using demo_mk_program by (simp add: mk_program_iff)
  moreover have "list_all signal_ok demo_signals" by code_simp
  moreover have "list_all mode_ok demo_modes" by code_simp
  moreover have "list_all rule_ok demo_rules" by code_simp
  ultimately show ?thesis by (simp add: program_ok_def demo_program_def list_all_iff)
qed

section \<open>Properties\<close>

text \<open>
  C1. The validator and the constructor decide the specification: \<open>OracleProgram(...)\<close> succeeds
  exactly on the fields of a well-formed program and returns that program.  Well-formed means
  unique names, rule ids and (mode, priority) keys, an entry task mode, spans inside the bound
  reference, declared signals, explicit recovery and rejoin edges, no zero-dwell cycle, every
  mode reachable and every mode with a path to a terminal mode.
\<close>

theorem program_accepted_iff: "mk_program f = Inr p \<longleftrightarrow> f = fields_of p \<and> wf_program p"
  by (rule mk_program_iff)

definition rule_walk :: "transition_rule list \<Rightarrow> bool" where
  "rule_walk rs = successively (\<lambda>a b. to_mode a = from_mode b) rs"

lemma rule_walk_path:
  "rule_walk rs \<Longrightarrow> rs \<noteq> [] \<Longrightarrow> set rs \<subseteq> set R \<Longrightarrow> (from_mode (hd rs), to_mode (last rs)) \<in> (edge_set R)\<^sup>+"
proof (induction rs)
  case (Cons r rs)
  have e: "(from_mode r, to_mode r) \<in> edge_set R" using Cons.prems(3) by (auto simp: edge_set_def)
  show ?case
  proof (cases rs)
    case Nil
    then show ?thesis using e by auto
  next
    case (Cons r' rs')
    then have "(from_mode r', to_mode (last rs)) \<in> (edge_set R)\<^sup>+" "to_mode r = from_mode r'"
      using Cons.IH Cons.prems by (auto simp: rule_walk_def)
    then show ?thesis using e Cons by (metis last.simps list.sel(1) list.simps(3) trancl_into_trancl2)
  qed
qed simp

text \<open>
  C21. No accepted program can spin without dwelling: along every closed walk of transitions
  some transition requires a positive dwell.
\<close>

theorem closed_walk_dwells:
  assumes "mk_program f = Inr p" and "rs \<noteq> []" "set rs \<subseteq> set (transitions p)" "rule_walk rs"
    and "to_mode (last rs) = from_mode (hd rs)" and "\<forall>r \<in> set rs. 0 \<le> min_dwell r"
  shows "\<exists>r \<in> set rs. 0 < min_dwell r"
proof (rule ccontr)
  assume "\<not> (\<exists>r \<in> set rs. 0 < min_dwell r)"
  then have "set rs \<subseteq> set (filter (\<lambda>r. min_dwell r = 0) (transitions p))" using assms(3,6) by force
  from rule_walk_path[OF assms(4,2) this] assms(5)
  have "\<not> acyclic (edge_set (filter (\<lambda>r. min_dwell r = 0) (transitions p)))" by (auto simp: acyclic_def)
  then show False using assms(1) by (simp add: mk_program_iff wf_program_def wf_parts_def wf_graph_def)
qed

theorem closed_walk_dwells_witness:
  "\<exists>r \<in> set [demo_rules ! 1, demo_rules ! 2]. 0 < min_dwell r"
  by (rule closed_walk_dwells[OF demo_mk_program]; code_simp)

text \<open>
  From every mode of an accepted program a path of declared transitions leads to a terminal
  mode, every mode lies on a path from the entry mode, and terminal modes are exactly the
  modes without an outgoing transition and exactly those without a dwell bound.
\<close>

lemma accepted_topology:
  assumes "mk_program f = Inr p" "m \<in> set (modes p)"
  shows "(entry_mode p, m_name m) \<in> (edge_set (transitions p))\<^sup>* \<and>
    (\<exists>t \<in> set (modes p). m_kind t = TERMINAL \<and> (m_name m, m_name t) \<in> (edge_set (transitions p))\<^sup>*) \<and>
    (outgoing p (m_name m) = [] \<longleftrightarrow> m_kind m = TERMINAL) \<and> (max_dwell m = None \<longleftrightarrow> m_kind m = TERMINAL)"
proof -
  have "wf_program p" using assms(1) by (simp add: mk_program_iff)
  moreover have "outgoing p (m_name m) = [] \<longleftrightarrow> \<not> (\<exists>r \<in> set (transitions p). from_mode r = m_name m)"
    using set_outgoing[of p "m_name m"] by (auto simp flip: set_empty)
  ultimately show ?thesis using assms(2)
    by (auto simp: wf_program_def wf_parts_def wf_graph_def wf_mode_def)
qed

lemma accepted_topology_witness:
  "outgoing demo_program ''done'' = [] \<and> (''run'', ''done'') \<in> (edge_set (transitions demo_program))\<^sup>*"
proof -
  define m where "m = demo_modes ! 2"
  have "m \<in> set (modes demo_program)" "m_name m = ''done''" "m_kind m = TERMINAL" "entry_mode demo_program = ''run''"
    by (simp_all add: m_def demo_modes_def demo_program_def)
  then show ?thesis using accepted_topology[OF demo_mk_program, of m] by simp
qed

end
