(* ===== verification/OracleRuntime.thy ===== *)
theory OracleRuntime
  imports Validate "HOL-Library.AList"
begin

text \<open>
  \<^verbatim>\<open>src/oracle_composition/runtime/oracle.py\<close>: the episode-local executor of a validated
  program.  \<open>oracle_runtime\<close> holds the attributes of \<open>OracleRuntime\<close>; \<open>query\<close> is the whole
  method, in the code's order, and returns the result with the next runtime or the error
  that leaves the runtime as it was.
\<close>

section \<open>State and results\<close>

datatype runtime_error =
    SignalsNotMapping | MissingSignals "string list"
  | SignalNotNumeric string | SignalNotFinite string | SignalOverflows string
  | NoBoundSignal | PhaseOutOfRange string
  | MaxQueriesExceeded int | MaxDwellExceeded string int
  | NotBoundToReference
  | FromProgram program_error | FromReference ref_error
  | RaisesKeyError string | FloorRaises

record runtime_state =
  mode_name :: string
  dwell_steps :: int
  reference_offset_frames :: int
  query_index :: int

record mode_phase =
  ph_mode_name :: string
  ph_mode_index :: nat
  ph_mode_kind :: mode_kind
  ph_local_phase :: f64
  ph_frame_index :: int
  ph_dwell_steps :: int
  ph_reference_offset :: int

record transition_event =
  ev_rule_id :: string
  ev_kind :: transition_kind
  ev_from_mode :: string
  ev_to_mode :: string
  ev_priority :: int
  ev_pre_dwell :: int
  ev_transfer_kind :: phase_transfer_kind
  ev_phase_signal :: "string option"
  ev_phase_value :: "f64 option"
  ev_entry_frame :: int
  ev_entry_phase :: f64

record oracle_result =
  res_phase :: mode_phase
  res_window :: ref_window
  res_transition :: "transition_event option"
  res_query_index :: int
  res_program_sha256 :: string
  res_reference_sha256 :: string

record oracle_runtime =
  rt_program :: oracle_program
  rt_reference :: ref_artifact
  rt_mode_index :: "(string \<times> nat) list"
  rt_guard_active :: "(string \<times> bool) list"
  rt_state :: runtime_state

definition initial_state :: "oracle_program \<Rightarrow> runtime_state" where
  "initial_state p = \<lparr>mode_name = entry_mode p, dwell_steps = 0, reference_offset_frames = 0, query_index = 0\<rparr>"

definition idle_guards :: "oracle_program \<Rightarrow> (string \<times> bool) list" where
  "idle_guards p = map (\<lambda>r. (rule_id r, False)) (transitions p)"

definition mk_runtime :: "hasher \<Rightarrow> oracle_program \<Rightarrow> ref_artifact \<Rightarrow> runtime_error + oracle_runtime" where
  "mk_runtime h p a = (case verify_artifact h a of
       Inl e \<Rightarrow> Inl (FromReference e)
     | Inr _ \<Rightarrow> if art_identity a \<noteq> reference_identity p then Inl NotBoundToReference
         else Inr \<lparr>rt_program = p, rt_reference = a,
           rt_mode_index = map (\<lambda>(i, m). (m_name m, i)) (enum_from 0 (modes p)),
           rt_guard_active = idle_guards p, rt_state = initial_state p\<rparr>)"

definition reset :: "oracle_runtime \<Rightarrow> oracle_runtime" where
  "reset rt = rt\<lparr>rt_guard_active := idle_guards (rt_program rt), rt_state := initial_state (rt_program rt)\<rparr>"

section \<open>Signals\<close>

definition runtime_scalar :: "string \<Rightarrow> pyval \<Rightarrow> runtime_error + f64" where
  "runtime_scalar name v = (case read_number v of
       NotNumeric \<Rightarrow> Inl (SignalNotNumeric name)
     | Overflow \<Rightarrow> Inl (SignalOverflows name)
     | Number f \<Rightarrow> if is_finite f then Inr f else Inl (SignalNotFinite name))"

fun opt_list :: "'a option \<Rightarrow> 'a list" where
  "opt_list None = []"
| "opt_list (Some x) = [x]"

definition required_signals :: "transition_rule list \<Rightarrow> string list" where
  "required_signals rules = sort (uniq (concat (map (\<lambda>r.
     g_signal (rule_guard r) # opt_list (pt_signal (rule_transfer r))) rules)))"

text \<open>\<open>d[k]\<close> on a dictionary of the runtime's own making.\<close>

definition lookup :: "(string \<times> 'v) list \<Rightarrow> string \<Rightarrow> runtime_error + 'v" where
  "lookup d k = (case map_of d k of None \<Rightarrow> Inl (RaisesKeyError k) | Some v \<Rightarrow> Inr v)"

definition check_phase_signal :: "(string \<times> f64) list \<Rightarrow> string option \<Rightarrow> runtime_error + unit" where
  "check_phase_signal observed s = (case s of None \<Rightarrow> Inl NoBoundSignal
     | Some name \<Rightarrow> bindE (lookup observed name) (\<lambda>v.
         if f64_le (Fin 0) v \<and> f64_le v (Fin 1) then Inr () else Inl (PhaseOutOfRange name)))"

definition validate_signals :: "transition_rule list \<Rightarrow> pyval \<Rightarrow> runtime_error + (string \<times> f64) list" where
  "validate_signals rules signals = (case as_dict signals of None \<Rightarrow> Inl SignalsNotMapping
     | Some d \<Rightarrow>
         let required = required_signals rules;
             missing = filter (\<lambda>name. dict_get d name = None) required
         in if missing \<noteq> [] then Inl (MissingSignals missing)
         else bindE (mapE (\<lambda>name. bindE (case dict_get d name of None \<Rightarrow> Inl (RaisesKeyError name) | Some v \<Rightarrow> Inr v)
                (\<lambda>v. bindE (runtime_scalar name v) (\<lambda>f. Inr (name, f)))) required) (\<lambda>observed.
           bindE (mapE (check_phase_signal observed)
                (uniq (map (\<lambda>r. pt_signal (rule_transfer r))
                  (filter (\<lambda>r. pt_kind (rule_transfer r) = NORMALIZED_PHASE_FROM_SIGNAL) rules)))) (\<lambda>_.
           Inr observed)))"

section \<open>Phase transfer\<close>

text \<open>\<open>math.floor\<close> raises on an infinity or a NaN.\<close>

fun floor_f64 :: "f64 \<Rightarrow> runtime_error + int" where
  "floor_f64 (Fin r) = Inr \<lfloor>r\<rfloor>"
| "floor_f64 _ = Inl FloorRaises"

text \<open>\<open>math.floor(normalized_phase * (target_n_frames - 1) + 0.5)\<close>; the product of a float and
  an int converts the int first, which raises beyond the binary64 range.\<close>

definition nearest_frame :: "f64 \<Rightarrow> int \<Rightarrow> runtime_error + int" where
  "nearest_frame phase n = (case float_of_int (n - 1) of
       None \<Rightarrow> Inl FloorRaises
     | Some m \<Rightarrow> floor_f64 (f64_add (f64_mul phase m) (Fin (1 / 2))))"

definition phase_transfer_offset ::
    "transition_rule \<Rightarrow> int \<Rightarrow> (string \<times> f64) list \<Rightarrow> runtime_error + (int \<times> f64 option)" where
  "phase_transfer_offset r target_n_frames observed =
     (if pt_kind (rule_transfer r) = RESET_TO_START then Inr (0, None)
      else case pt_signal (rule_transfer r) of None \<Rightarrow> Inl NoBoundSignal
      | Some signal \<Rightarrow> bindE (lookup observed signal) (\<lambda>normalized_phase.
          if target_n_frames = 1 then Inr (0, Some normalized_phase)
          else bindE (nearest_frame normalized_phase target_n_frames) (\<lambda>offset.
            Inr (min (max offset 0) (target_n_frames - 1), Some normalized_phase))))"

section \<open>The query\<close>

text \<open>One turn of the loop that evaluates the guards: the rules that match so far and the
  next activation of every guard.\<close>

definition guard_step :: "oracle_runtime \<Rightarrow> (string \<times> f64) list \<Rightarrow> transition_rule \<Rightarrow>
    transition_rule list \<times> (string \<times> bool) list \<Rightarrow>
    runtime_error + (transition_rule list \<times> (string \<times> bool) list)" where
  "guard_step rt observed r = (\<lambda>(matching, next_active).
     bindE (lookup observed (g_signal (rule_guard r))) (\<lambda>v.
     bindE (lookup (rt_guard_active rt) (rule_id r)) (\<lambda>was_active.
     case evaluate_guard (rule_guard r) (PFloat v) was_active of
       Inl e \<Rightarrow> Inl (FromProgram e)
     | Inr active \<Rightarrow> Inr
         (if active \<and> min_dwell r \<le> dwell_steps (rt_state rt) then matching @ [r] else matching,
          AList.update (rule_id r) active next_active))))"

definition local_phase :: "int \<Rightarrow> int \<Rightarrow> f64" where
  "local_phase offset n = (if n = 1 then Fin 0 else int_truediv offset (n - 1))"

text \<open>What the dispatch decides: the mode, its dwell and offset, the event and the guards.\<close>

record dispatch =
  d_mode :: mode_spec
  d_dwell :: int
  d_offset :: int
  d_event :: "transition_event option"
  d_guards :: "(string \<times> bool) list"

definition take_rule :: "oracle_runtime \<Rightarrow> transition_rule list \<Rightarrow> (string \<times> f64) list \<Rightarrow>
    (string \<times> bool) list \<Rightarrow> transition_rule \<Rightarrow> runtime_error + dispatch" where
  "take_rule rt rules observed next_active chosen =
     (case program_mode (rt_program rt) (to_mode chosen) of Inl e \<Rightarrow> Inl (FromProgram e)
      | Inr target \<Rightarrow> bindE (phase_transfer_offset chosen (mode_frames target) observed) (\<lambda>(offset, value).
          Inr \<lparr>d_mode = target, d_dwell = 0, d_offset = offset,
            d_event = Some \<lparr>ev_rule_id = rule_id chosen, ev_kind = rule_kind chosen,
              ev_from_mode = from_mode chosen, ev_to_mode = to_mode chosen,
              ev_priority = priority chosen, ev_pre_dwell = dwell_steps (rt_state rt),
              ev_transfer_kind = pt_kind (rule_transfer chosen),
              ev_phase_signal = pt_signal (rule_transfer chosen), ev_phase_value = value,
              ev_entry_frame = span_start target + offset,
              ev_entry_phase = local_phase offset (mode_frames target)\<rparr>,
            d_guards = fold (\<lambda>r d. AList.update (rule_id r) False d) rules next_active\<rparr>))"

definition stay :: "oracle_runtime \<Rightarrow> mode_spec \<Rightarrow> (string \<times> bool) list \<Rightarrow> runtime_error + dispatch" where
  "stay rt current next_active = (let dwell = dwell_steps (rt_state rt) in
     case max_dwell current of
       Some limit \<Rightarrow>
         if limit \<le> dwell then Inl (MaxDwellExceeded (m_name current) limit)
         else Inr \<lparr>d_mode = current, d_dwell = dwell, d_offset = reference_offset_frames (rt_state rt),
               d_event = None, d_guards = next_active\<rparr>
     | None \<Rightarrow> Inr \<lparr>d_mode = current, d_dwell = dwell, d_offset = reference_offset_frames (rt_state rt),
               d_event = None, d_guards = next_active\<rparr>)"

definition emit :: "hasher \<Rightarrow> oracle_runtime \<Rightarrow> dispatch \<Rightarrow> runtime_error + (oracle_result \<times> oracle_runtime)" where
  "emit h rt d = (let p = rt_program rt; current = d_mode d; start = span_start current; stop = span_stop current;
       frame_index = min (start + d_offset d) (stop - 1) in
     case window (rt_reference rt) (PInt frame_index) (PInt (horizon_steps p)) (Some (PInt stop)) of
       Inl e \<Rightarrow> Inl (FromReference e)
     | Inr w \<Rightarrow> bindE (lookup (rt_mode_index rt) (m_name current)) (\<lambda>index.
         Inr (\<lparr>res_phase = \<lparr>ph_mode_name = m_name current, ph_mode_index = index, ph_mode_kind = m_kind current,
                 ph_local_phase = local_phase (frame_index - start) (mode_frames current),
                 ph_frame_index = frame_index, ph_dwell_steps = d_dwell d, ph_reference_offset = d_offset d\<rparr>,
               res_window = w, res_transition = d_event d, res_query_index = query_index (rt_state rt),
               res_program_sha256 = program_sha256 h p,
               res_reference_sha256 = content_sha256 (art_identity (rt_reference rt))\<rparr>,
              rt\<lparr>rt_guard_active := d_guards d,
                 rt_state := \<lparr>mode_name = m_name current, dwell_steps = d_dwell d + 1,
                   reference_offset_frames = min (d_offset d + 1) (mode_frames current - 1),
                   query_index = query_index (rt_state rt) + 1\<rparr>\<rparr>)))"

definition query :: "hasher \<Rightarrow> oracle_runtime \<Rightarrow> pyval \<Rightarrow> runtime_error + (oracle_result \<times> oracle_runtime)" where
  "query h rt signals = (let p = rt_program rt; s = rt_state rt in
     if max_queries p \<le> query_index s then Inl (MaxQueriesExceeded (max_queries p))
     else case program_mode p (mode_name s) of Inl e \<Rightarrow> Inl (FromProgram e)
     | Inr current \<Rightarrow>
         let rules = outgoing p (m_name current) in
         bindE (validate_signals rules signals) (\<lambda>observed.
         bindE (foldE (guard_step rt observed) rules ([], rt_guard_active rt)) (\<lambda>(matching, next_active).
         bindE (case matching of chosen # _ \<Rightarrow> take_rule rt rules observed next_active chosen
                | [] \<Rightarrow> stay rt current next_active) (emit h rt))))"

section \<open>The reference window as an interface\<close>

text \<open>
  The runtime's only use of the reference is \<open>window\<close>.  The locale states what it relies on:
  a request inside the data is served with the indices that run through the span and hold its
  last frame.
\<close>

locale window_source =
  fixes good :: "'a \<Rightarrow> bool"
    and frames :: "'a \<Rightarrow> int"
    and get_window :: "'a \<Rightarrow> pyval \<Rightarrow> pyval \<Rightarrow> pyval option \<Rightarrow> ref_error + ref_window"
  assumes served: "good a \<Longrightarrow> 1 \<le> h \<Longrightarrow> h \<le> MAX_HORIZON_STEPS \<Longrightarrow> 0 \<le> s \<Longrightarrow> s < e \<Longrightarrow> e \<le> frames a \<Longrightarrow>
    \<exists>w. get_window a (PInt s) (PInt h) (Some (PInt e)) = Inr w \<and>
      frame_indices w = map (\<lambda>k. min (s + int k) (e - 1)) [0..<nat h] \<and>
      length (window_values w) = nat h"
begin

lemma served_span:
  assumes "good a" "1 \<le> h" "h \<le> MAX_HORIZON_STEPS" "0 \<le> s" "s < e" "e \<le> frames a"
  shows "\<exists>w. get_window a (PInt s) (PInt h) (Some (PInt e)) = Inr w \<and>
    length (frame_indices w) = nat h \<and> length (window_values w) = nat h \<and> hd (frame_indices w) = s \<and>
    sorted (frame_indices w) \<and> (\<forall>i \<in> set (frame_indices w). s \<le> i \<and> i < e)"
proof -
  from served[OF assms] obtain w where w: "get_window a (PInt s) (PInt h) (Some (PInt e)) = Inr w"
    "frame_indices w = map (\<lambda>k. min (s + int k) (e - 1)) [0..<nat h]" "length (window_values w) = nat h" by blast
  have "[0..<nat h] \<noteq> []" using assms(2) by simp
  then have "hd (frame_indices w) = s" using w(2) assms by (simp add: hd_map)
  moreover have "sorted (frame_indices w)" by (auto simp: w(2) sorted_iff_nth_mono)
  ultimately show ?thesis using w assms by auto
qed

end

interpretation reference_source: window_source "artifact_ok h" "\<lambda>a. int (length (art_values a))" window for h
proof unfold_locales
  fix a n s e
  assume "artifact_ok h a" "1 \<le> n" "n \<le> MAX_HORIZON_STEPS" "0 \<le> s" "s < e" "e \<le> int (length (art_values a))"
  from window_Inr[OF this]
  show "\<exists>w. window a (PInt s) (PInt n) (Some (PInt e)) = Inr w \<and>
      frame_indices w = map (\<lambda>k. min (s + int k) (e - 1)) [0..<nat n] \<and> length (window_values w) = nat n"
    by simp
qed

section \<open>Signals and guards\<close>

lemma set_required: "set (required_signals rules) =
    (\<Union>r \<in> set rules. insert (g_signal (rule_guard r)) (set (opt_list (pt_signal (rule_transfer r)))))"
  by (auto simp: required_signals_def)

lemma mapE_pairs: "mapE (\<lambda>n. bindE (f n) (\<lambda>v. bindE (g n v) (\<lambda>x. Inr (n, x)))) ns = Inr obs \<Longrightarrow>
    map fst obs = ns \<and> (\<forall>(n, x) \<in> set obs. \<exists>v. f n = Inr v \<and> g n v = Inr x)"
  by (induction ns arbitrary: obs) auto

lemma runtime_scalar_finite: "runtime_scalar n v = Inr f \<Longrightarrow> is_finite f"
  by (auto simp: runtime_scalar_def split: num_read.splits if_splits)

text \<open>What a successful validation gives: a finite value for every signal of every rule, and a
  phase in \<open>[0, 1]\<close> for every rule that transfers one.\<close>

lemma validate_signals_InrD:
  assumes "validate_signals rules signals = Inr obs" "r \<in> set rules"
  shows "\<exists>v. map_of obs (g_signal (rule_guard r)) = Some v \<and> is_finite v"
    and "pt_kind (rule_transfer r) = NORMALIZED_PHASE_FROM_SIGNAL \<Longrightarrow>
      \<exists>n q. pt_signal (rule_transfer r) = Some n \<and> map_of obs n = Some (Fin q) \<and> 0 \<le> q \<and> q \<le> 1"
proof -
  from assms(1) obtain d us where
      "mapE (\<lambda>name. bindE (case dict_get d name of None \<Rightarrow> Inl (RaisesKeyError name) | Some v \<Rightarrow> Inr v)
          (\<lambda>v. bindE (runtime_scalar name v) (\<lambda>f. Inr (name, f)))) (required_signals rules) = Inr obs"
    and p: "mapE (check_phase_signal obs) (uniq (map (\<lambda>r. pt_signal (rule_transfer r))
        (filter (\<lambda>r. pt_kind (rule_transfer r) = NORMALIZED_PHASE_FROM_SIGNAL) rules))) = Inr us"
    by (auto simp: validate_signals_def Let_def split: option.splits if_splits)
  from mapE_pairs[OF this(1)] have o: "map fst obs = required_signals rules"
      and fin: "\<forall>(n, x) \<in> set obs. is_finite x"
    using runtime_scalar_finite by blast+
  have "fst ` set obs = set (required_signals rules)" using o by (metis list.set_map)
  then have "g_signal (rule_guard r) \<in> fst ` set obs"
    using assms(2) by (auto simp: set_required)
  then obtain v where "map_of obs (g_signal (rule_guard r)) = Some v"
    by (metis domD dom_map_of_conv_image_fst)
  then show "\<exists>v. map_of obs (g_signal (rule_guard r)) = Some v \<and> is_finite v"
    using fin map_of_SomeD by fastforce
  assume k: "pt_kind (rule_transfer r) = NORMALIZED_PHASE_FROM_SIGNAL"
  have "check_phase_signal obs (pt_signal (rule_transfer r)) = Inr ()"
  proof -
    have "pt_signal (rule_transfer r) \<in> set (uniq (map (\<lambda>r. pt_signal (rule_transfer r))
        (filter (\<lambda>r. pt_kind (rule_transfer r) = NORMALIZED_PHASE_FROM_SIGNAL) rules)))"
      using assms(2) k by auto
    from mapE_Inr_each[OF p this] show ?thesis by simp
  qed
  then obtain n v where n: "pt_signal (rule_transfer r) = Some n" "map_of obs n = Some v"
      "f64_le (Fin 0) v" "f64_le v (Fin 1)"
    by (auto simp: check_phase_signal_def lookup_def split: option.splits if_splits)
  from n(3,4) obtain q where "v = Fin q" by (cases v) auto
  then show "\<exists>n q. pt_signal (rule_transfer r) = Some n \<and> map_of obs n = Some (Fin q) \<and> 0 \<le> q \<and> q \<le> 1"
    using n by auto
qed

definition rule_active :: "oracle_runtime \<Rightarrow> (string \<times> f64) list \<Rightarrow> transition_rule \<Rightarrow> bool" where
  "rule_active rt observed r =
     (case (map_of observed (g_signal (rule_guard r)), map_of (rt_guard_active rt) (rule_id r)) of
        (Some v, Some was_active) \<Rightarrow> evaluate_guard (rule_guard r) (PFloat v) was_active = Inr True
      | _ \<Rightarrow> False)"

definition eligible :: "oracle_runtime \<Rightarrow> (string \<times> f64) list \<Rightarrow> transition_rule \<Rightarrow> bool" where
  "eligible rt observed r \<longleftrightarrow> rule_active rt observed r \<and> min_dwell r \<le> dwell_steps (rt_state rt)"

definition set_guards :: "(transition_rule \<Rightarrow> bool) \<Rightarrow> transition_rule list \<Rightarrow> (string \<times> bool) list \<Rightarrow> (string \<times> bool) list" where
  "set_guards f rules d = fold (\<lambda>r d. AList.update (rule_id r) (f r) d) rules d"

lemma guard_loop:
  assumes "\<And>r. r \<in> set rules \<Longrightarrow> \<exists>v. map_of obs (g_signal (rule_guard r)) = Some v \<and> is_finite v"
    and "\<And>r. r \<in> set rules \<Longrightarrow> \<exists>b. map_of (rt_guard_active rt) (rule_id r) = Some b"
  shows "foldE (guard_step rt obs) rules (matching, d) =
    Inr (matching @ filter (eligible rt obs) rules, set_guards (rule_active rt obs) rules d)"
  using assms
proof (induction rules arbitrary: matching d)
  case Nil
  show ?case by (simp add: set_guards_def)
next
  case (Cons r rules)
  obtain v b where v: "map_of obs (g_signal (rule_guard r)) = Some v" "is_finite v"
      "map_of (rt_guard_active rt) (rule_id r) = Some b"
    using Cons.prems by (meson list.set_intros(1))
  then obtain x where x: "evaluate_guard (rule_guard r) (PFloat v) b = Inr x"
    using evaluate_guard_PFloat by blast
  have a: "rule_active rt obs r = x" using v x by (simp add: rule_active_def)
  have "guard_step rt obs r (matching, d) =
      Inr (matching @ filter (eligible rt obs) [r], AList.update (rule_id r) x d)"
    using v x a by (simp add: guard_step_def lookup_def eligible_def)
  then show ?case using Cons a by (simp add: set_guards_def)
qed

lemma map_of_set_guards: "distinct (map rule_id rules) \<Longrightarrow> map_of (set_guards f rules d) k =
    (case find (\<lambda>r. rule_id r = k) rules of Some r \<Rightarrow> Some (f r) | None \<Rightarrow> map_of d k)"
proof (induction rules arbitrary: d)
  case (Cons r rules)
  have "find (\<lambda>r. rule_id r = rule_id r') rules = None" if "r' = r" for r'
    using Cons.prems that by (auto simp: find_None_iff) (metis image_eqI)
  then show ?case using Cons by (auto simp: set_guards_def update_conv split: option.splits)
qed (simp add: set_guards_def)

lemma keys_set_guards: "set (map rule_id rules) \<subseteq> set (map fst d) \<Longrightarrow> map fst (set_guards f rules d) = map fst d"
proof (induction rules arbitrary: d)
  case (Cons r rules)
  have "map fst (AList.update (rule_id r) (f r) d) = map fst d"
    using Cons.prems by (auto simp: update_keys)
  then show ?case
    using Cons.IH[of "AList.update (rule_id r) (f r) d"] Cons.prems
    by (simp add: set_guards_def del: set_map)
qed (simp add: set_guards_def)

section \<open>The phase transfer\<close>

lemma pow2_53_less: "(2::rat) ^ 53 < pow2 1024"
  using pow2_strict_mono[of 53 1024] by (simp add: pow2_def)

lemma f64_round_unit_bound:
  assumes "0 \<le> x" "x \<le> of_int m" "m \<le> 2 ^ 53"
  shows "\<exists>y. f64_round x = Fin y \<and> 0 \<le> y \<and> y \<le> of_int m"
proof -
  have "0 \<le> (of_int m :: rat)" using assms(1,2) by linarith
  then have m: "0 \<le> m" by simp
  have r: "round_rat x \<le> round_rat (of_int m)" by (rule round_rat_mono[OF assms(2)])
  have "round_rat (of_int m) = of_int m" using m assms(3) by (intro round_rat_of_int) simp
  with r have le: "round_rat x \<le> of_int m" by simp
  also have "(of_int m :: rat) \<le> 2 ^ 53" using assms(3) by (metis of_int_le_iff of_int_numeral of_int_power)
  finally have "round_rat x < pow2 1024" using pow2_53_less by linarith
  moreover have "0 \<le> round_rat x" using assms(1) by (rule round_rat_nonneg)
  ultimately show ?thesis using le by (auto simp: f64_round_def Let_def) 
qed

lemma nearest_frame_total:
  assumes "0 \<le> q" "q \<le> 1" "1 \<le> n" "n \<le> 2 ^ 52"
  shows "\<exists>k. nearest_frame (Fin q) n = Inr k"
proof -
  have m: "0 \<le> (of_int (n - 1) :: rat)" using assms(3) by simp
  have "q * of_int (n - 1) \<le> of_int (n - 1)" using mult_right_mono[OF assms(2) m] by simp
  then obtain y where y: "f64_round (q * of_int (n - 1)) = Fin y" "0 \<le> y" "y \<le> of_int (n - 1)"
    using f64_round_unit_bound[of "q * of_int (n - 1)" "n - 1"] assms m by auto
  have "y + 1 / 2 \<le> of_int n" using y(3) by simp
  then obtain z where "f64_round (y + 1 / 2) = Fin z"
    using f64_round_unit_bound[of "y + 1 / 2" n] assms(4) y(2) by auto
  moreover have "float_of_int (n - 1) = Some (Fin (of_int (n - 1)))"
    using assms(3,4) by (intro float_of_int_small) simp
  ultimately show ?thesis using y(1) by (simp add: nearest_frame_def)
qed

lemma phase_transfer_offset_total:
  assumes rule: "transfer_ok (rule_transfer r)" and n: "1 \<le> n" "n \<le> 2 ^ 52"
    and obs: "pt_kind (rule_transfer r) = NORMALIZED_PHASE_FROM_SIGNAL \<Longrightarrow>
      \<exists>s q. pt_signal (rule_transfer r) = Some s \<and> map_of observed s = Some (Fin q) \<and> 0 \<le> q \<and> q \<le> 1"
  shows "\<exists>k v. phase_transfer_offset r n observed = Inr (k, v) \<and> 0 \<le> k \<and> k < n"
proof (cases "pt_kind (rule_transfer r)")
  case RESET_TO_START
  then show ?thesis using n by (simp add: phase_transfer_offset_def)
next
  case NORMALIZED_PHASE_FROM_SIGNAL
  from obs[OF this] obtain s q where s: "pt_signal (rule_transfer r) = Some s"
    "map_of observed s = Some (Fin q)" "0 \<le> q" "q \<le> 1" by blast
  from nearest_frame_total[OF s(3,4) n] obtain k where "nearest_frame (Fin q) n = Inr k" by blast
  then show ?thesis
    using s NORMALIZED_PHASE_FROM_SIGNAL n by (auto simp: phase_transfer_offset_def lookup_def)
qed

section \<open>The invariant\<close>

definition current_ok :: "oracle_program \<Rightarrow> runtime_state \<Rightarrow> bool" where
  "current_ok p s \<longleftrightarrow> (\<exists>m \<in> set (modes p). m_name m = mode_name s \<and>
     0 \<le> reference_offset_frames s \<and> reference_offset_frames s < mode_frames m \<and>
     0 \<le> dwell_steps s \<and> (\<forall>n. max_dwell m = Some n \<longrightarrow> dwell_steps s \<le> n))"

definition runtime_inv :: "hasher \<Rightarrow> oracle_runtime \<Rightarrow> bool" where
  "runtime_inv h rt \<longleftrightarrow> program_ok (rt_program rt) \<and> artifact_ok h (rt_reference rt) \<and>
     art_identity (rt_reference rt) = reference_identity (rt_program rt) \<and>
     rt_mode_index rt = map (\<lambda>(i, m). (m_name m, i)) (enum_from 0 (modes (rt_program rt))) \<and>
     map fst (rt_guard_active rt) = map rule_id (transitions (rt_program rt)) \<and>
     current_ok (rt_program rt) (rt_state rt) \<and>
     0 \<le> query_index (rt_state rt) \<and> query_index (rt_state rt) \<le> max_queries (rt_program rt) \<and>
     (\<forall>r \<in> set (transitions (rt_program rt)). map_of (rt_guard_active rt) (rule_id r) = Some True \<longrightarrow>
        from_mode r = mode_name (rt_state rt))"

lemma runtime_invD:
  assumes "runtime_inv h rt"
  shows "program_ok (rt_program rt)" "artifact_ok h (rt_reference rt)"
    "current_ok (rt_program rt) (rt_state rt)"
    "map fst (rt_guard_active rt) = map rule_id (transitions (rt_program rt))"
    "n_frames (reference_identity (rt_program rt)) = int (length (art_values (rt_reference rt)))"
  using assms artifact_n_frames[of h "rt_reference rt"] by (auto simp: runtime_inv_def)

lemma initial_current_ok: "program_ok p \<Longrightarrow> current_ok p (initial_state p)"
proof -
  assume p: "program_ok p"
  then obtain m where m: "m \<in> set (modes p)" "m_name m = entry_mode p" by (rule program_ok_entry)
  moreover have "mode_ok m" using p m(1) by (simp add: program_ok_def)
  ultimately show ?thesis
    using program_ok_mode(4)[OF p m(1)] by (auto simp: current_ok_def initial_state_def mode_ok_def)
qed

lemma idle_guards_lookup: "map_of (idle_guards p) k \<noteq> Some True"
  by (induction "transitions p") (auto simp: idle_guards_def map_of_map_restrict dest!: map_of_SomeD)

lemma fresh_inv:
  assumes "program_ok (rt_program rt)" "artifact_ok h (rt_reference rt)"
    "art_identity (rt_reference rt) = reference_identity (rt_program rt)"
    "rt_mode_index rt = map (\<lambda>(i, m). (m_name m, i)) (enum_from 0 (modes (rt_program rt)))"
  shows "runtime_inv h (reset rt)"
proof -
  have "1 \<le> max_queries (rt_program rt)" using assms(1) by (simp add: program_ok_def wf_program_def)
  then show ?thesis
    using assms initial_current_ok[OF assms(1)]
    by (auto simp: runtime_inv_def reset_def idle_guards_lookup initial_state_def)
      (simp add: idle_guards_def)
qed

lemma mk_runtime_inv:
  assumes "mk_runtime h p a = Inr rt" "program_ok p" "artifact_ok h a"
  shows "runtime_inv h rt"
proof -
  have "runtime_inv h (reset rt)"
    using assms by (intro fresh_inv) (auto simp: mk_runtime_def split: sum.splits if_splits)
  moreover have "reset rt = rt"
    using assms(1) by (auto simp: mk_runtime_def reset_def split: sum.splits if_splits)
  ultimately show ?thesis by simp
qed

lemma reset_inv: "runtime_inv h rt \<Longrightarrow> runtime_inv h (reset rt)"
  by (rule fresh_inv) (simp_all add: runtime_inv_def)

section \<open>What a query does\<close>

text \<open>The dispatch a query makes, once its signals are read.\<close>

definition dispatch_of :: "oracle_runtime \<Rightarrow> mode_spec \<Rightarrow> (string \<times> f64) list \<Rightarrow> runtime_error + dispatch" where
  "dispatch_of rt current observed = (let rules = outgoing (rt_program rt) (m_name current);
       next_active = set_guards (rule_active rt observed) rules (rt_guard_active rt) in
     case filter (eligible rt observed) rules of
       chosen # _ \<Rightarrow> take_rule rt rules observed next_active chosen
     | [] \<Rightarrow> stay rt current next_active)"

lemma guard_keys:
  assumes "runtime_inv h rt" "r \<in> set (transitions (rt_program rt))"
  shows "\<exists>b. map_of (rt_guard_active rt) (rule_id r) = Some b"
proof -
  have "rule_id r \<in> set (map fst (rt_guard_active rt))" using assms runtime_invD(4) by force
  then show ?thesis by (metis domD dom_map_of_conv_image_fst list.set_map)
qed

lemma current_mode:
  assumes "runtime_inv h rt"
  obtains m where "m \<in> set (modes (rt_program rt))" "m_name m = mode_name (rt_state rt)"
    "program_mode (rt_program rt) (mode_name (rt_state rt)) = Inr m"
    "0 \<le> reference_offset_frames (rt_state rt)" "reference_offset_frames (rt_state rt) < mode_frames m"
    "0 \<le> dwell_steps (rt_state rt)" "\<forall>n. max_dwell m = Some n \<longrightarrow> dwell_steps (rt_state rt) \<le> n"
proof -
  from runtime_invD(3)[OF assms] obtain m where m: "m \<in> set (modes (rt_program rt))"
    "m_name m = mode_name (rt_state rt)" "0 \<le> reference_offset_frames (rt_state rt)"
    "reference_offset_frames (rt_state rt) < mode_frames m"
    "0 \<le> dwell_steps (rt_state rt)" "\<forall>n. max_dwell m = Some n \<longrightarrow> dwell_steps (rt_state rt) \<le> n"
    unfolding current_ok_def by blast
  have "program_mode (rt_program rt) (mode_name (rt_state rt)) = Inr m"
    using program_mode_in[OF runtime_invD(1)[OF assms] m(1)] m(2) by simp
  with m that show thesis by blast
qed

lemma query_eq:
  assumes inv: "runtime_inv h rt" and m: "program_mode (rt_program rt) (mode_name (rt_state rt)) = Inr m"
  shows "query h rt signals =
    (if max_queries (rt_program rt) \<le> query_index (rt_state rt)
     then Inl (MaxQueriesExceeded (max_queries (rt_program rt)))
     else bindE (validate_signals (outgoing (rt_program rt) (m_name m)) signals) (\<lambda>observed.
       bindE (dispatch_of rt m observed) (emit h rt)))"
proof (cases "validate_signals (outgoing (rt_program rt) (m_name m)) signals")
  case (Inl e)
  then show ?thesis by (simp add: query_def m Let_def)
next
  case (Inr obs)
  let ?rules = "outgoing (rt_program rt) (m_name m)"
  have "foldE (guard_step rt obs) ?rules ([], rt_guard_active rt) =
      Inr ([] @ filter (eligible rt obs) ?rules, set_guards (rule_active rt obs) ?rules (rt_guard_active rt))"
    by (rule guard_loop) (use validate_signals_InrD(1)[OF Inr] guard_keys[OF inv] in \<open>auto simp: set_outgoing\<close>)
  then show ?thesis by (simp add: query_def m Let_def Inr dispatch_of_def)
qed

text \<open>The runtime after a dispatch.\<close>

definition after_dispatch :: "oracle_runtime \<Rightarrow> dispatch \<Rightarrow> oracle_runtime" where
  "after_dispatch rt d = rt\<lparr>rt_guard_active := d_guards d,
     rt_state := \<lparr>mode_name = m_name (d_mode d), dwell_steps = d_dwell d + 1,
       reference_offset_frames = min (d_offset d + 1) (mode_frames (d_mode d) - 1),
       query_index = query_index (rt_state rt) + 1\<rparr>\<rparr>"

definition dispatch_ok :: "oracle_runtime \<Rightarrow> dispatch \<Rightarrow> bool" where
  "dispatch_ok rt d \<longleftrightarrow> d_mode d \<in> set (modes (rt_program rt)) \<and>
     0 \<le> d_offset d \<and> d_offset d < mode_frames (d_mode d) \<and> 0 \<le> d_dwell d \<and>
     (\<forall>n. max_dwell (d_mode d) = Some n \<longrightarrow> d_dwell d < n) \<and>
     map fst (d_guards d) = map fst (rt_guard_active rt) \<and>
     (\<forall>r \<in> set (transitions (rt_program rt)). map_of (d_guards d) (rule_id r) = Some True \<longrightarrow>
        from_mode r = m_name (d_mode d))"

lemma mode_index_lookup:
  "m \<in> set ms \<Longrightarrow> \<exists>i. lookup (map (\<lambda>(i, m). (m_name m, i)) (enum_from n ms)) (m_name m) = Inr i"
proof -
  assume m: "m \<in> set ms"
  have "map fst (map (\<lambda>(i, m). (m_name m, i)) (enum_from n ms)) = map m_name ms"
    by (induction ms arbitrary: n) auto
  then have "m_name m \<in> fst ` set (map (\<lambda>(i, m). (m_name m, i)) (enum_from n ms))"
    using m by (metis image_eqI list.set_map)
  then show ?thesis by (auto simp: lookup_def dom_map_of_conv_image_fst[symmetric] dom_def simp del: set_map map_map)
qed

lemma emit_ok:
  assumes inv: "runtime_inv h rt" and d: "dispatch_ok rt d"
  obtains res where "emit h rt d = Inr (res, after_dispatch rt d)"
    "res_transition res = d_event d" "ph_mode_name (res_phase res) = m_name (d_mode d)"
    "ph_dwell_steps (res_phase res) = d_dwell d"
    "ph_frame_index (res_phase res) = span_start (d_mode d) + d_offset d"
    "length (frame_indices (res_window res)) = nat (horizon_steps (rt_program rt))"
    "hd (frame_indices (res_window res)) = span_start (d_mode d) + d_offset d"
    "sorted (frame_indices (res_window res))"
    "\<forall>i \<in> set (frame_indices (res_window res)). span_start (d_mode d) + d_offset d \<le> i \<and> i < span_stop (d_mode d)"
    "res_query_index res = query_index (rt_state rt)"
    "ph_local_phase (res_phase res) = local_phase (d_offset d) (mode_frames (d_mode d))"
proof -
  let ?m = "d_mode d"
  have m: "?m \<in> set (modes (rt_program rt))" and o: "0 \<le> d_offset d" "d_offset d < span_stop ?m - span_start ?m"
    using d by (auto simp: dispatch_ok_def mode_frames_def)
  have f: "min (span_start ?m + d_offset d) (span_stop ?m - 1) = span_start ?m + d_offset d" using o by simp
  have hz: "1 \<le> horizon_steps (rt_program rt)" "horizon_steps (rt_program rt) \<le> MAX_HORIZON_STEPS"
    using runtime_invD(1)[OF inv] by (simp_all add: program_ok_def wf_program_def)
  note pm = program_ok_mode[OF runtime_invD(1)[OF inv] m]
  have b: "0 \<le> span_start ?m + d_offset d" "span_start ?m + d_offset d < span_stop ?m"
    "span_stop ?m \<le> int (length (art_values (rt_reference rt)))"
    using pm o runtime_invD(5)[OF inv] by simp_all
  from reference_source.served_span[OF runtime_invD(2)[OF inv] hz b]
  obtain w where w: "window (rt_reference rt) (PInt (span_start ?m + d_offset d))
        (PInt (horizon_steps (rt_program rt))) (Some (PInt (span_stop ?m))) = Inr w"
      "length (frame_indices w) = nat (horizon_steps (rt_program rt))"
      "hd (frame_indices w) = span_start ?m + d_offset d" "sorted (frame_indices w)"
      "\<forall>i \<in> set (frame_indices w). span_start ?m + d_offset d \<le> i \<and> i < span_stop ?m" by blast
  have "rt_mode_index rt = map (\<lambda>(i, m). (m_name m, i)) (enum_from 0 (modes (rt_program rt)))"
    using inv by (simp add: runtime_inv_def)
  then obtain i where i: "lookup (rt_mode_index rt) (m_name ?m) = Inr i"
    using mode_index_lookup[OF m] by metis
  have "\<exists>res. emit h rt d = Inr (res, after_dispatch rt d) \<and> res_transition res = d_event d \<and>
      ph_mode_name (res_phase res) = m_name ?m \<and> ph_dwell_steps (res_phase res) = d_dwell d \<and>
      ph_frame_index (res_phase res) = span_start ?m + d_offset d \<and> res_window res = w \<and>
      res_query_index res = query_index (rt_state rt) \<and>
      ph_local_phase (res_phase res) = local_phase (d_offset d) (mode_frames ?m)"
    by (simp add: emit_def Let_def f w(1) i after_dispatch_def)
  then obtain res where "emit h rt d = Inr (res, after_dispatch rt d)" "res_transition res = d_event d"
      "ph_mode_name (res_phase res) = m_name ?m" "ph_dwell_steps (res_phase res) = d_dwell d"
      "ph_frame_index (res_phase res) = span_start ?m + d_offset d" "res_window res = w"
      "res_query_index res = query_index (rt_state rt)"
      "ph_local_phase (res_phase res) = local_phase (d_offset d) (mode_frames ?m)" by blast
  with w show thesis by (intro that[of res]) simp_all
qed

lemma after_dispatch_inv:
  assumes inv: "runtime_inv h rt" and d: "dispatch_ok rt d"
    and q: "query_index (rt_state rt) < max_queries (rt_program rt)"
  shows "runtime_inv h (after_dispatch rt d)"
proof -
  have "current_ok (rt_program rt) (rt_state (after_dispatch rt d))"
    using d by (auto simp: current_ok_def dispatch_ok_def after_dispatch_def intro!: bexI[of _ "d_mode d"])
  then show ?thesis
    using inv d q by (auto simp: runtime_inv_def dispatch_ok_def after_dispatch_def)
qed

lemma outgoing_ids_distinct: "program_ok p \<Longrightarrow> distinct (map rule_id (outgoing p n))"
proof -
  assume p: "program_ok p"
  have "distinct (map rule_id (filter (\<lambda>r. from_mode r = n) (transitions p)))"
    using program_ok_distinct(2)[OF p] by (simp add: distinct_map_filter)
  then show ?thesis by (auto simp: outgoing_def distinct_map)
qed

lemma find_rule:
  assumes "program_ok p" "r \<in> set (transitions p)"
  shows "find (\<lambda>x. rule_id x = rule_id r) (outgoing p n) = (if from_mode r = n then Some r else None)"
proof (cases "from_mode r = n")
  case True
  then have "r \<in> set (outgoing p n)" using assms(2) by (simp add: set_outgoing)
  from find_distinct[OF outgoing_ids_distinct[OF assms(1)] this] True show ?thesis by simp
next
  case False
  then show ?thesis
    using key_inj[OF program_ok_distinct(2)[OF assms(1)]] assms(2) by (auto simp: find_None_iff set_outgoing)
qed

lemma outgoing_keys:
  "runtime_inv h rt \<Longrightarrow> set (map rule_id (outgoing (rt_program rt) n)) \<subseteq> set (map fst (rt_guard_active rt))"
  using runtime_invD(4) by (force simp: set_outgoing)

lemma map_of_set_guards_rule:
  assumes "program_ok p" "r \<in> set (transitions p)"
  shows "map_of (set_guards f (outgoing p n) d) (rule_id r) =
    (if from_mode r = n then Some (f r) else map_of d (rule_id r))"
  by (simp add: map_of_set_guards[OF outgoing_ids_distinct[OF assms(1)]] find_rule[OF assms])

lemma take_rule_ok:
  assumes inv: "runtime_inv h rt" and m: "m_name m = mode_name (rt_state rt)"
    and sig: "validate_signals (outgoing (rt_program rt) (m_name m)) signals = Inr obs"
    and r: "r \<in> set (outgoing (rt_program rt) (m_name m))"
    and size: "n_frames (reference_identity (rt_program rt)) \<le> 2 ^ 52"
  obtains d ev where "take_rule rt (outgoing (rt_program rt) (m_name m)) obs
      (set_guards f (outgoing (rt_program rt) (m_name m)) (rt_guard_active rt)) r = Inr d"
    "dispatch_ok rt d" "m_name (d_mode d) = to_mode r" "d_dwell d = 0" "d_event d = Some ev"
    "ev_rule_id ev = rule_id r" "ev_from_mode ev = from_mode r" "ev_to_mode ev = to_mode r"
    "ev_priority ev = priority r" "ev_pre_dwell ev = dwell_steps (rt_state rt)"
    "ev_kind ev = rule_kind r" "ev_entry_frame ev = span_start (d_mode d) + d_offset d"
proof -
  let ?p = "rt_program rt" and ?rules = "outgoing (rt_program rt) (m_name m)"
  note p = runtime_invD(1)[OF inv]
  have rt: "r \<in> set (transitions ?p)" using r by (simp add: set_outgoing)
  from program_ok_rule[OF p rt] obtain t where t: "t \<in> set (modes ?p)" "m_name t = to_mode r"
    by metis
  have pm: "program_mode ?p (to_mode r) = Inr t" using program_mode_in[OF p t(1)] t(2) by simp
  have "rule_ok r" "mode_ok t" using p rt t(1) by (simp_all add: program_ok_def)
  then have tr: "transfer_ok (rule_transfer r)" and md: "\<And>n. max_dwell t = Some n \<Longrightarrow> 0 < n"
    by (auto simp: rule_ok_def mode_ok_def)
  have "mode_frames t \<le> 2 ^ 52" using program_ok_mode[OF p t(1)] size by (simp add: mode_frames_def)
  from phase_transfer_offset_total[OF tr program_ok_mode(4)[OF p t(1)] this validate_signals_InrD(2)[OF sig r]]
  obtain k v where k: "phase_transfer_offset r (mode_frames t) obs = Inr (k, v)" "0 \<le> k" "k < mode_frames t" by blast
  let ?next = "set_guards f ?rules (rt_guard_active rt)"
  let ?d = "set_guards (\<lambda>_. False) ?rules ?next"
  have keys: "map fst ?next = map fst (rt_guard_active rt)" "map fst ?d = map fst (rt_guard_active rt)"
    using keys_set_guards[of ?rules] outgoing_keys[OF inv, of "m_name m"] by metis+
  have off: "map_of ?d (rule_id x) \<noteq> Some True" if "x \<in> set (transitions ?p)" for x
    using that inv m by (auto simp: map_of_set_guards_rule[OF p that] runtime_inv_def)
  show thesis
    by (rule that[of "\<lparr>d_mode = t, d_dwell = 0, d_offset = k,
          d_event = Some \<lparr>ev_rule_id = rule_id r, ev_kind = rule_kind r, ev_from_mode = from_mode r,
            ev_to_mode = to_mode r, ev_priority = priority r, ev_pre_dwell = dwell_steps (rt_state rt),
            ev_transfer_kind = pt_kind (rule_transfer r), ev_phase_signal = pt_signal (rule_transfer r),
            ev_phase_value = v, ev_entry_frame = span_start t + k,
            ev_entry_phase = local_phase k (mode_frames t)\<rparr>, d_guards = ?d\<rparr>"])
      (use k t off keys md in \<open>auto simp: take_rule_def pm dispatch_ok_def set_guards_def\<close>)
qed

lemma stay_ok:
  assumes inv: "runtime_inv h rt" and m: "m \<in> set (modes (rt_program rt))" "m_name m = mode_name (rt_state rt)"
    and s: "stay rt m (set_guards f (outgoing (rt_program rt) (m_name m)) (rt_guard_active rt)) = Inr d"
  shows "dispatch_ok rt d" "d_mode d = m" "d_dwell d = dwell_steps (rt_state rt)" "d_event d = None"
    "d_offset d = reference_offset_frames (rt_state rt)"
    "\<And>r. r \<in> set (transitions (rt_program rt)) \<Longrightarrow> map_of (d_guards d) (rule_id r) =
       (if from_mode r = m_name m then Some (f r) else map_of (rt_guard_active rt) (rule_id r))"
proof -
  note p = runtime_invD(1)[OF inv]
  let ?next = "set_guards f (outgoing (rt_program rt) (m_name m)) (rt_guard_active rt)"
  from s have d: "d = \<lparr>d_mode = m, d_dwell = dwell_steps (rt_state rt),
      d_offset = reference_offset_frames (rt_state rt), d_event = None, d_guards = ?next\<rparr>"
    and lim: "\<And>n. max_dwell m = Some n \<Longrightarrow> dwell_steps (rt_state rt) < n"
    by (auto simp: stay_def Let_def split: option.splits if_splits)
  show "d_mode d = m" "d_dwell d = dwell_steps (rt_state rt)" "d_event d = None"
    "d_offset d = reference_offset_frames (rt_state rt)" by (simp_all add: d)
  show g: "map_of (d_guards d) (rule_id r) =
       (if from_mode r = m_name m then Some (f r) else map_of (rt_guard_active rt) (rule_id r))"
    if "r \<in> set (transitions (rt_program rt))" for r
    using map_of_set_guards_rule[OF p that] by (simp add: d)
  obtain m' where "m' \<in> set (modes (rt_program rt))" "m_name m' = mode_name (rt_state rt)"
    "0 \<le> reference_offset_frames (rt_state rt)" "reference_offset_frames (rt_state rt) < mode_frames m'"
    "0 \<le> dwell_steps (rt_state rt)"
    by (rule current_mode[OF inv])
  moreover from this m have "m' = m" using key_inj[OF program_ok_distinct(1)[OF p]] by metis
  moreover have "map fst ?next = map fst (rt_guard_active rt)"
    using keys_set_guards outgoing_keys[OF inv] by metis
  ultimately show "dispatch_ok rt d"
    using lim m inv g by (auto simp: dispatch_ok_def d runtime_inv_def split: if_splits)
qed

text \<open>The classes of errors a query may end with.\<close>

fun is_signal_error :: "runtime_error \<Rightarrow> bool" where
  "is_signal_error SignalsNotMapping = True"
| "is_signal_error (MissingSignals _) = True"
| "is_signal_error (SignalNotNumeric _) = True"
| "is_signal_error (SignalNotFinite _) = True"
| "is_signal_error (SignalOverflows _) = True"
| "is_signal_error (PhaseOutOfRange _) = True"
| "is_signal_error _ = False"

lemma lookup_observed:
  assumes "mapE (\<lambda>n. bindE (f n) (\<lambda>v. bindE (g n v) (\<lambda>x. Inr (n, x)))) ns = Inr obs" "n \<in> set ns"
  shows "\<exists>x. lookup obs n = Inr x"
proof -
  have "n \<in> fst ` set obs" using mapE_pairs[OF assms(1)] assms(2) by (metis list.set_map)
  then show ?thesis by (auto simp: lookup_def simp flip: dom_map_of_conv_image_fst)
qed

lemma validate_signals_Inl:
  assumes e: "validate_signals rules signals = Inl e" and ok: "\<forall>r \<in> set rules. transfer_ok (rule_transfer r)"
  shows "is_signal_error e"
proof -
  consider (a) "as_dict signals = None" | d where "as_dict signals = Some d" by fastforce
  then show ?thesis
  proof cases
    case a
    then show ?thesis using e by (auto simp: validate_signals_def)
  next
    case (2 d)
    let ?f = "\<lambda>name. case dict_get d name of None \<Rightarrow> Inl (RaisesKeyError name) | Some v \<Rightarrow> Inr v"
    let ?m = "mapE (\<lambda>name. bindE (?f name) (\<lambda>v. bindE (runtime_scalar name v) (\<lambda>f. Inr (name, f)))) (required_signals rules)"
    show ?thesis
    proof (cases "filter (\<lambda>name. dict_get d name = None) (required_signals rules) = []")
      case False
      then show ?thesis using e 2 by (auto simp: validate_signals_def Let_def split: if_splits)
    next
      case full: True
      show ?thesis
      proof (cases ?m)
        case (Inl e')
        then have "e' = e" using e 2 full by (simp add: validate_signals_def Let_def)
        moreover from mapE_Inl_in_set[OF Inl] obtain n where "n \<in> set (required_signals rules)"
            "bindE (?f n) (\<lambda>v. bindE (runtime_scalar n v) (\<lambda>f. Inr (n, f))) = Inl e'" by blast
        ultimately show ?thesis
          using full by (auto simp: filter_empty_conv bindE_eq_Inl runtime_scalar_def
              split: option.splits num_read.splits if_splits)
      next
        case (Inr obs)
        then have "mapE (check_phase_signal obs) (uniq (map (\<lambda>r. pt_signal (rule_transfer r))
            (filter (\<lambda>r. pt_kind (rule_transfer r) = NORMALIZED_PHASE_FROM_SIGNAL) rules))) = Inl e"
          using e 2 full by (auto simp: validate_signals_def Let_def bindE_eq_Inl)
        from mapE_Inl_in_set[OF this] obtain r where r: "r \<in> set rules"
            "pt_kind (rule_transfer r) = NORMALIZED_PHASE_FROM_SIGNAL"
            "check_phase_signal obs (pt_signal (rule_transfer r)) = Inl e" by auto
        moreover obtain n where n: "pt_signal (rule_transfer r) = Some n"
          using bspec[OF ok r(1)] r(2) by (auto simp: transfer_ok_def)
        moreover have "n \<in> set (required_signals rules)" using r(1) n by (force simp: set_required)
        from lookup_observed[OF Inr this] obtain x where "lookup obs n = Inr x" by blast
        ultimately show ?thesis by (auto simp: check_phase_signal_def split: if_splits)
      qed
    qed
  qed
qed

text \<open>A query on a runtime in its invariant: what it returns, and the only ways it fails.\<close>

definition small_reference :: "oracle_runtime \<Rightarrow> bool" where
  "small_reference rt \<longleftrightarrow> n_frames (reference_identity (rt_program rt)) \<le> 2 ^ 52"

lemma dispatch_cases:
  assumes inv: "runtime_inv h rt" and m: "m \<in> set (modes (rt_program rt))" "m_name m = mode_name (rt_state rt)"
    and sig: "validate_signals (outgoing (rt_program rt) (m_name m)) signals = Inr obs"
    and size: "small_reference rt"
  shows "(\<exists>d. dispatch_of rt m obs = Inr d \<and> dispatch_ok rt d) \<or>
    (\<exists>n. dispatch_of rt m obs = Inl (MaxDwellExceeded (m_name m) n) \<and> max_dwell m = Some n \<and>
       n = dwell_steps (rt_state rt) \<and> filter (eligible rt obs) (outgoing (rt_program rt) (m_name m)) = [])"
proof (cases "filter (eligible rt obs) (outgoing (rt_program rt) (m_name m))")
  case (Cons r rs)
  then have "r \<in> set (filter (eligible rt obs) (outgoing (rt_program rt) (m_name m)))" by simp
  then have "r \<in> set (outgoing (rt_program rt) (m_name m))" by simp
  from take_rule_ok[OF inv m(2) sig this, of "rule_active rt obs"] size
  obtain d where "take_rule rt (outgoing (rt_program rt) (m_name m)) obs
      (set_guards (rule_active rt obs) (outgoing (rt_program rt) (m_name m)) (rt_guard_active rt)) r = Inr d"
    "dispatch_ok rt d" by (auto simp: small_reference_def)
  then show ?thesis by (simp add: dispatch_of_def Let_def Cons)
next
  case Nil
  let ?next = "set_guards (rule_active rt obs) (outgoing (rt_program rt) (m_name m)) (rt_guard_active rt)"
  have e: "dispatch_of rt m obs = stay rt m ?next" by (simp add: dispatch_of_def Let_def Nil)
  show ?thesis
  proof (cases "stay rt m ?next")
    case (Inr d)
    then show ?thesis using stay_ok(1)[OF inv m Inr] e by simp
  next
    case (Inl x)
    then obtain n where n: "max_dwell m = Some n" "n \<le> dwell_steps (rt_state rt)" "x = MaxDwellExceeded (m_name m) n"
      by (auto simp: stay_def Let_def split: option.splits if_splits)
    obtain m' where "m' \<in> set (modes (rt_program rt))" "m_name m' = mode_name (rt_state rt)"
      "\<forall>n. max_dwell m' = Some n \<longrightarrow> dwell_steps (rt_state rt) \<le> n"
      by (rule current_mode[OF inv])
    moreover from this m have "m' = m" using key_inj[OF program_ok_distinct(1)[OF runtime_invD(1)[OF inv]]] by metis
    ultimately have "n = dwell_steps (rt_state rt)" using n by fastforce
    then show ?thesis using Inl e n Nil by simp
  qed
qed

lemma query_InrD:
  assumes inv: "runtime_inv h rt" and size: "small_reference rt" and q: "query h rt signals = Inr (res, rt')"
  obtains m obs d where "m \<in> set (modes (rt_program rt))" "m_name m = mode_name (rt_state rt)"
    "validate_signals (outgoing (rt_program rt) (m_name m)) signals = Inr obs"
    "dispatch_of rt m obs = Inr d" "dispatch_ok rt d" "emit h rt d = Inr (res, rt')"
    "rt' = after_dispatch rt d" "query_index (rt_state rt) < max_queries (rt_program rt)"
proof -
  obtain m where m: "m \<in> set (modes (rt_program rt))" "m_name m = mode_name (rt_state rt)"
    "program_mode (rt_program rt) (mode_name (rt_state rt)) = Inr m" by (rule current_mode[OF inv])
  from q obtain obs d where o: "query_index (rt_state rt) < max_queries (rt_program rt)"
    "validate_signals (outgoing (rt_program rt) (m_name m)) signals = Inr obs"
    "dispatch_of rt m obs = Inr d" "emit h rt d = Inr (res, rt')"
    by (auto simp: query_eq[OF inv m(3)] split: if_splits)
  have ok: "dispatch_ok rt d" using dispatch_cases[OF inv m(1,2) o(2) size] o(3) by auto
  from emit_ok[OF inv ok] o(4) have "rt' = after_dispatch rt d" by (metis Pair_inject sum.inject(2))
  with m o ok show thesis by (intro that) auto
qed

lemma query_inv:
  "runtime_inv h rt \<Longrightarrow> small_reference rt \<Longrightarrow> query h rt signals = Inr (res, rt') \<Longrightarrow> runtime_inv h rt'"
  by (metis query_InrD after_dispatch_inv)

lemma query_errors:
  assumes inv: "runtime_inv h rt" and size: "small_reference rt" and q: "query h rt signals = Inl e"
  shows "is_signal_error e \<or>
    (e = MaxQueriesExceeded (max_queries (rt_program rt)) \<and>
       query_index (rt_state rt) = max_queries (rt_program rt)) \<or>
    e = MaxDwellExceeded (mode_name (rt_state rt)) (dwell_steps (rt_state rt))"
proof -
  obtain m where m: "m \<in> set (modes (rt_program rt))" "m_name m = mode_name (rt_state rt)"
    "program_mode (rt_program rt) (mode_name (rt_state rt)) = Inr m" by (rule current_mode[OF inv])
  have le: "query_index (rt_state rt) \<le> max_queries (rt_program rt)" using inv by (simp add: runtime_inv_def)
  show ?thesis
  proof (cases "max_queries (rt_program rt) \<le> query_index (rt_state rt)")
    case True
    then show ?thesis using q le by (simp add: query_eq[OF inv m(3)])
  next
    case False
    show ?thesis
    proof (cases "validate_signals (outgoing (rt_program rt) (m_name m)) signals")
      case (Inl e')
      have "\<forall>r \<in> set (outgoing (rt_program rt) (m_name m)). transfer_ok (rule_transfer r)"
        using runtime_invD(1)[OF inv] by (auto simp: program_ok_def rule_ok_def set_outgoing)
      from validate_signals_Inl[OF Inl this] show ?thesis
        using q False Inl by (simp add: query_eq[OF inv m(3)])
    next
      case (Inr obs)
      from dispatch_cases[OF inv m(1,2) Inr size] show ?thesis
      proof (elim disjE exE conjE)
        fix d assume d: "dispatch_of rt m obs = Inr d" "dispatch_ok rt d"
        obtain res where "emit h rt d = Inr (res, after_dispatch rt d)" by (rule emit_ok[OF inv d(2)])
        then show ?thesis using q False Inr d by (simp add: query_eq[OF inv m(3)])
      qed (use q False Inr m(2) in \<open>simp add: query_eq[OF inv m(3)]\<close>)
    qed
  qed
qed

text \<open>The rule a query takes: enabled, past its minimum dwell, and first in priority.\<close>

lemma filter_first: "filter P xs = y # ys \<Longrightarrow> sorted (map f xs) \<Longrightarrow> distinct (map f xs) \<Longrightarrow>
    y \<in> set xs \<and> P y \<and> (\<forall>x \<in> set xs. P x \<longrightarrow> x = y \<or> (f y :: int) < f x)"
proof (induction xs)
  case (Cons x xs)
  show ?case
  proof (cases "P x")
    case True
    then have "y = x" using Cons.prems(1) by simp
    moreover have "f x < f z" if "z \<in> set xs" for z
      using Cons.prems(2,3) that by (force simp: order.strict_iff_order)
    ultimately show ?thesis using True by auto
  next
    case False
    then show ?thesis using Cons by auto
  qed
qed simp

lemma query_takes_rule:
  assumes inv: "runtime_inv h rt" and size: "small_reference rt"
    and q: "query h rt signals = Inr (res, rt')" and ev: "res_transition res = Some ev"
  obtains obs r where "validate_signals (outgoing (rt_program rt) (mode_name (rt_state rt))) signals = Inr obs"
    "r \<in> set (transitions (rt_program rt))" "rule_id r = ev_rule_id ev" "from_mode r = mode_name (rt_state rt)"
    "to_mode r = mode_name (rt_state rt')" "eligible rt obs r"
    "\<forall>x \<in> set (transitions (rt_program rt)). from_mode x = mode_name (rt_state rt) \<and> eligible rt obs x \<longrightarrow>
       x = r \<or> priority r < priority x"
    "dwell_steps (rt_state rt') = 1" "ev_kind ev = rule_kind r" "ev_pre_dwell ev = dwell_steps (rt_state rt)"
    "ev_from_mode ev = from_mode r" "ev_to_mode ev = to_mode r" "ev_priority ev = priority r"
    "hd (frame_indices (res_window res)) = ev_entry_frame ev"
proof -
  from query_InrD[OF inv size q] obtain m obs d where m: "m \<in> set (modes (rt_program rt))"
    "m_name m = mode_name (rt_state rt)"
    "validate_signals (outgoing (rt_program rt) (m_name m)) signals = Inr obs"
    "dispatch_of rt m obs = Inr d" "dispatch_ok rt d" "emit h rt d = Inr (res, rt')"
    "rt' = after_dispatch rt d" by metis
  let ?rules = "outgoing (rt_program rt) (m_name m)"
  obtain res' where res': "emit h rt d = Inr (res', after_dispatch rt d)" "res_transition res' = d_event d"
    "hd (frame_indices (res_window res')) = span_start (d_mode d) + d_offset d"
    by (rule emit_ok[OF inv m(5)])
  with m(6) ev have d: "d_event d = Some ev" "res' = res" by simp_all
  show thesis
  proof (cases "filter (eligible rt obs) ?rules")
    case Nil
    then have "stay rt m (set_guards (rule_active rt obs) ?rules (rt_guard_active rt)) = Inr d"
      using m(4) by (simp add: dispatch_of_def Let_def)
    from stay_ok(4)[OF inv m(1,2) this] d(1) show thesis by simp
  next
    case (Cons r rs)
    from filter_first[OF Cons outgoing_sorted outgoing_priorities_distinct[OF runtime_invD(1)[OF inv]]]
    have r: "r \<in> set ?rules" "eligible rt obs r"
      "\<forall>x \<in> set ?rules. eligible rt obs x \<longrightarrow> x = r \<or> priority r < priority x" by simp_all
    have "take_rule rt ?rules obs (set_guards (rule_active rt obs) ?rules (rt_guard_active rt)) r = Inr d"
      using m(4) Cons by (simp add: dispatch_of_def Let_def)
    moreover obtain d' ev' where "take_rule rt ?rules obs
        (set_guards (rule_active rt obs) ?rules (rt_guard_active rt)) r = Inr d'"
      "dispatch_ok rt d'" "m_name (d_mode d') = to_mode r" "d_dwell d' = 0" "d_event d' = Some ev'"
      "ev_rule_id ev' = rule_id r" "ev_from_mode ev' = from_mode r" "ev_to_mode ev' = to_mode r"
      "ev_priority ev' = priority r" "ev_pre_dwell ev' = dwell_steps (rt_state rt)"
      "ev_kind ev' = rule_kind r" "ev_entry_frame ev' = span_start (d_mode d') + d_offset d'"
      using size by (auto simp: small_reference_def intro: take_rule_ok[OF inv m(2,3) r(1), of "rule_active rt obs"])
    ultimately show thesis
      using r m d res' by (intro that[of obs r]) (auto simp: set_outgoing after_dispatch_def)
  qed
qed

lemma query_stays:
  assumes inv: "runtime_inv h rt" and size: "small_reference rt"
    and q: "query h rt signals = Inr (res, rt')" and ev: "res_transition res = None"
  shows "mode_name (rt_state rt') = mode_name (rt_state rt)"
    "dwell_steps (rt_state rt') = dwell_steps (rt_state rt) + 1"
    "\<exists>obs. validate_signals (outgoing (rt_program rt) (mode_name (rt_state rt))) signals = Inr obs \<and>
       (\<forall>x \<in> set (transitions (rt_program rt)). from_mode x = mode_name (rt_state rt) \<longrightarrow> \<not> eligible rt obs x) \<and>
       (\<forall>x \<in> set (transitions (rt_program rt)). from_mode x = mode_name (rt_state rt) \<longrightarrow>
          map_of (rt_guard_active rt') (rule_id x) = Some (rule_active rt obs x))"
proof -
  from query_InrD[OF inv size q] obtain m obs d where m: "m \<in> set (modes (rt_program rt))"
    "m_name m = mode_name (rt_state rt)"
    "validate_signals (outgoing (rt_program rt) (m_name m)) signals = Inr obs"
    "dispatch_of rt m obs = Inr d" "dispatch_ok rt d" "emit h rt d = Inr (res, rt')"
    "rt' = after_dispatch rt d" by metis
  let ?rules = "outgoing (rt_program rt) (m_name m)"
  obtain res' where "emit h rt d = Inr (res', after_dispatch rt d)" "res_transition res' = d_event d"
    by (rule emit_ok[OF inv m(5)])
  with m(6) ev have d: "d_event d = None" by simp
  have nil: "filter (eligible rt obs) ?rules = []"
  proof (cases "filter (eligible rt obs) ?rules")
    case (Cons r rs)
    then have "take_rule rt ?rules obs (set_guards (rule_active rt obs) ?rules (rt_guard_active rt)) r = Inr d"
      using m(4) by (simp add: dispatch_of_def Let_def)
    then show ?thesis using d by (auto simp: take_rule_def split: sum.splits)
  qed
  then have "stay rt m (set_guards (rule_active rt obs) ?rules (rt_guard_active rt)) = Inr d"
    using m(4) by (simp add: dispatch_of_def Let_def)
  note st = stay_ok[OF inv m(1,2) this]
  show "mode_name (rt_state rt') = mode_name (rt_state rt)"
    "dwell_steps (rt_state rt') = dwell_steps (rt_state rt) + 1"
    using st(2,3) m(2,7) by (simp_all add: after_dispatch_def)
  show "\<exists>obs. validate_signals (outgoing (rt_program rt) (mode_name (rt_state rt))) signals = Inr obs \<and>
       (\<forall>x \<in> set (transitions (rt_program rt)). from_mode x = mode_name (rt_state rt) \<longrightarrow> \<not> eligible rt obs x) \<and>
       (\<forall>x \<in> set (transitions (rt_program rt)). from_mode x = mode_name (rt_state rt) \<longrightarrow>
          map_of (rt_guard_active rt') (rule_id x) = Some (rule_active rt obs x))"
    using m(2,3,7) nil st(6) by (intro exI[of _ obs]) (auto simp: filter_empty_conv set_outgoing after_dispatch_def)
qed

end
