(* ===== verification/RuntimeProperties.thy ===== *)
theory RuntimeProperties
  imports OracleRuntime
begin

text \<open>
  What the oracle runtime promises over an episode: \<open>reachable\<close> is the step relation of the
  calls a client makes (construct, reset, query), and the properties hold of every reachable
  runtime of a deployment, that is of an accepted program bound to a verified reference.
\<close>

section \<open>Deployments, reachable runtimes, runs\<close>

text \<open>The bound on the frame count keeps a frame index exact in binary64.\<close>

definition deployment :: "hasher \<Rightarrow> oracle_program \<Rightarrow> ref_artifact \<Rightarrow> bool" where
  "deployment h p a \<longleftrightarrow> program_ok p \<and> artifact_ok h a \<and> n_frames (reference_identity p) \<le> 2 ^ 49"

inductive reachable :: "hasher \<Rightarrow> oracle_program \<Rightarrow> ref_artifact \<Rightarrow> oracle_runtime \<Rightarrow> bool"
  for h p a where
  constructed: "mk_runtime h p a = Inr rt \<Longrightarrow> reachable h p a rt"
| was_reset: "reachable h p a rt \<Longrightarrow> reachable h p a (reset rt)"
| queried: "reachable h p a rt \<Longrightarrow> query h rt signals = Inr (res, rt') \<Longrightarrow> reachable h p a rt'"

lemma emit_keeps: "emit h rt d = Inr (res, rt') \<Longrightarrow>
    rt_program rt' = rt_program rt \<and> rt_reference rt' = rt_reference rt"
  by (cases "window (rt_reference rt) (PInt (min (span_start (d_mode d) + d_offset d) (span_stop (d_mode d) - 1)))
      (PInt (horizon_steps (rt_program rt))) (Some (PInt (span_stop (d_mode d))))")
    (auto simp: emit_def Let_def)

lemma query_keeps: "query h rt signals = Inr (res, rt') \<Longrightarrow>
    rt_program rt' = rt_program rt \<and> rt_reference rt' = rt_reference rt"
  by (cases "program_mode (rt_program rt) (mode_name (rt_state rt))")
    (auto simp: query_def Let_def split: if_splits dest: emit_keeps)

lemma reachable_inv:
  assumes "reachable h p a rt" "deployment h p a"
  shows "runtime_inv h rt \<and> rt_program rt = p \<and> small_reference rt"
  using assms(1)
proof induction
  case (constructed rt)
  have "rt_program rt = p" using constructed by (auto simp: mk_runtime_def split: sum.splits if_splits)
  then show ?case
    using constructed assms(2) mk_runtime_inv by (simp add: deployment_def small_reference_def)
next
  case (was_reset rt)
  then show ?case using reset_inv[of h rt] by (auto simp: small_reference_def) (simp_all add: reset_def)
next
  case (queried rt signals res rt')
  then have "runtime_inv h rt'" using query_inv by blast
  then show ?case using query_keeps[OF queried.hyps(2)] queried.IH by (auto simp: small_reference_def)
qed

fun run :: "hasher \<Rightarrow> oracle_runtime \<Rightarrow> pyval list \<Rightarrow> runtime_error + (oracle_result list \<times> oracle_runtime)" where
  "run h rt [] = Inr ([], rt)"
| "run h rt (s # ss) = bindE (query h rt s) (\<lambda>(res, rt').
     bindE (run h rt' ss) (\<lambda>(rs, rt''). Inr (res # rs, rt'')))"

lemma run_reachable: "run h rt ss = Inr (rs, rt') \<Longrightarrow> reachable h p a rt \<Longrightarrow> reachable h p a rt'"
  by (induction ss arbitrary: rt rs) (auto intro: queried)

lemma run_length: "run h rt ss = Inr (rs, rt') \<Longrightarrow> length rs = length ss"
  by (induction ss arbitrary: rt rs) auto

section \<open>An example deployment\<close>

definition demo_runtime :: oracle_runtime where
  "demo_runtime = \<lparr>rt_program = demo_program, rt_reference = demo_artifact,
     rt_mode_index = [(''run'', 0), (''fall'', 1), (''done'', 2)],
     rt_guard_active = [(''finish'', False), (''fell'', False), (''up'', False)],
     rt_state = initial_state demo_program\<rparr>"

definition demo_input :: "rat \<Rightarrow> rat \<Rightarrow> pyval" where
  "demo_input tilt phase = PDict [(''tilt'', PFloat (Fin tilt)), (''phase'', PFloat (Fin phase))]"

lemma demo_deployment: "deployment demo_hasher demo_program demo_artifact"
  unfolding deployment_def
  using demo_program_ok demo_artifact_ok by (simp add: demo_program_def demo_artifact_def)

lemma demo_reachable: "reachable demo_hasher demo_program demo_artifact demo_runtime"
  by (rule constructed) code_simp

text \<open>
  \<open>plan\<close> is a query without the two digests of its result, so that an example evaluates
  without the canonical JSON of the program.
\<close>

definition plan :: "oracle_runtime \<Rightarrow> pyval \<Rightarrow> runtime_error + (dispatch \<times> ref_window \<times> nat)" where
  "plan rt signals = (let p = rt_program rt; s = rt_state rt in
     if max_queries p \<le> query_index s then Inl (MaxQueriesExceeded (max_queries p))
     else case program_mode p (mode_name s) of Inl e \<Rightarrow> Inl (FromProgram e)
     | Inr current \<Rightarrow>
         let rules = outgoing p (m_name current) in
         bindE (validate_signals rules signals) (\<lambda>observed.
         bindE (foldE (guard_step rt observed) rules ([], rt_guard_active rt)) (\<lambda>(matching, next_active).
         bindE (case matching of chosen # _ \<Rightarrow> take_rule rt rules observed next_active chosen
                | [] \<Rightarrow> stay rt current next_active) (\<lambda>d.
         let current = d_mode d in
         case window (rt_reference rt) (PInt (min (span_start current + d_offset d) (span_stop current - 1)))
             (PInt (horizon_steps p)) (Some (PInt (span_stop current))) of
           Inl e \<Rightarrow> Inl (FromReference e)
         | Inr w \<Rightarrow> bindE (lookup (rt_mode_index rt) (m_name current)) (\<lambda>index. Inr (d, w, index))))))"

definition planned :: "(dispatch \<Rightarrow> ref_window \<Rightarrow> bool) \<Rightarrow> runtime_error + (dispatch \<times> ref_window \<times> nat) \<Rightarrow> bool" where
  "planned P x = (case x of Inl _ \<Rightarrow> False | Inr (d, w, _) \<Rightarrow> P d w)"

lemma emit_window: "window (rt_reference rt) (PInt (min (span_start (d_mode d) + d_offset d) (span_stop (d_mode d) - 1)))
      (PInt (horizon_steps (rt_program rt))) (Some (PInt (span_stop (d_mode d)))) = Inr w \<Longrightarrow>
    lookup (rt_mode_index rt) (m_name (d_mode d)) = Inr i \<Longrightarrow>
    \<exists>res. emit h rt d = Inr (res, after_dispatch rt d) \<and> res_transition res = d_event d \<and> res_window res = w"
  by (simp add: emit_def Let_def after_dispatch_def)

lemma case_raises_Inr: "(case x of Inl e \<Rightarrow> Inl (f e) | Inr w \<Rightarrow> g w) = Inr y \<longleftrightarrow> (\<exists>w. x = Inr w \<and> g w = Inr y)"
  by (cases x) auto

lemma planned_query:
  assumes "planned P (plan rt signals)"
  shows "\<exists>res d. query h rt signals = Inr (res, after_dispatch rt d) \<and> P d (res_window res) \<and> res_transition res = d_event d"
proof -
  from assms obtain d w i where p: "plan rt signals = Inr (d, w, i)" "P d w"
    by (auto simp: planned_def split: sum.splits)
  from p(1) obtain m where m: "program_mode (rt_program rt) (mode_name (rt_state rt)) = Inr m"
    by (cases "program_mode (rt_program rt) (mode_name (rt_state rt))") (auto simp: plan_def Let_def split: if_splits)
  have "\<exists>w'. window (rt_reference rt) (PInt (min (span_start (d_mode d) + d_offset d) (span_stop (d_mode d) - 1)))
      (PInt (horizon_steps (rt_program rt))) (Some (PInt (span_stop (d_mode d)))) = Inr w' \<and> w' = w \<and>
      lookup (rt_mode_index rt) (m_name (d_mode d)) = Inr i"
    using p(1) m by (auto simp: plan_def Let_def case_raises_Inr split: if_splits)
  then obtain res where "emit h rt d = Inr (res, after_dispatch rt d)" "res_transition res = d_event d" "res_window res = w"
    using emit_window by blast
  moreover have "query h rt signals = emit h rt d"
    using p(1) m by (auto simp: plan_def query_def Let_def case_raises_Inr split: if_splits)
  ultimately show ?thesis using p(2) by auto
qed

definition demo_second :: oracle_runtime where
  "demo_second = demo_runtime\<lparr>rt_state := \<lparr>mode_name = ''run'', dwell_steps = 1, reference_offset_frames = 1, query_index = 1\<rparr>\<rparr>"

definition demo_third :: oracle_runtime where
  "demo_third = demo_runtime\<lparr>rt_state := \<lparr>mode_name = ''run'', dwell_steps = 2, reference_offset_frames = 2, query_index = 2\<rparr>\<rparr>"

definition demo_fallen :: oracle_runtime where
  "demo_fallen = demo_runtime\<lparr>rt_state := \<lparr>mode_name = ''fall'', dwell_steps = 1, reference_offset_frames = 1, query_index = 2\<rparr>\<rparr>"

definition demo_done :: oracle_runtime where
  "demo_done = demo_runtime\<lparr>rt_state := \<lparr>mode_name = ''done'', dwell_steps = 1, reference_offset_frames = 0, query_index = 2\<rparr>\<rparr>"

lemma demo_q1: "\<exists>res. query demo_hasher demo_runtime (demo_input 0 0) = Inr (res, demo_second) \<and>
    res_transition res = None \<and> frame_indices (res_window res) = [0, 1]"
proof -
  have "planned (\<lambda>d w. after_dispatch demo_runtime d = demo_second \<and> d_event d = None \<and> frame_indices w = [0, 1])
    (plan demo_runtime (demo_input 0 0))" by code_simp
  from planned_query[OF this, of demo_hasher] show ?thesis by metis
qed

lemma demo_q2: "\<exists>res. query demo_hasher demo_second (demo_input 0 0) = Inr (res, demo_third) \<and> res_transition res = None"
proof -
  have "planned (\<lambda>d w. after_dispatch demo_second d = demo_third \<and> d_event d = None) (plan demo_second (demo_input 0 0))" by code_simp
  from planned_query[OF this, of demo_hasher] show ?thesis by metis
qed

lemma demo_q3: "\<exists>res ev. query demo_hasher demo_second (demo_input 2 1) = Inr (res, demo_fallen) \<and> res_transition res = Some ev"
proof -
  have "planned (\<lambda>d w. after_dispatch demo_second d = demo_fallen \<and> map_option ev_rule_id (d_event d) = Some ''fell'')
    (plan demo_second (demo_input 2 1))" by code_simp
  from planned_query[OF this, of demo_hasher] show ?thesis by (metis map_option_eq_Some)
qed

lemma demo_q4: "\<exists>res. query demo_hasher demo_second (demo_input 0 1) = Inr (res, demo_done)"
proof -
  have "planned (\<lambda>d w. after_dispatch demo_second d = demo_done) (plan demo_second (demo_input 0 1))" by code_simp
  from planned_query[OF this, of demo_hasher] show ?thesis by metis
qed

lemma demo_second_reachable: "reachable demo_hasher demo_program demo_artifact demo_second"
  using demo_q1 queried[OF demo_reachable] by blast

lemma demo_done_reachable: "reachable demo_hasher demo_program demo_artifact demo_done"
  using demo_q4 queried[OF demo_second_reachable] by blast

section \<open>Failures\<close>

text \<open>
  C2. A query of a deployed runtime fails in three ways only: the client's signals break their
  declared interface, the query budget is used up, or the current mode has reached its
  declared dwell bound without an eligible rule.  No lookup fails, no window request is
  refused, no mode is unknown and no floor is taken of an infinity.
\<close>

theorem runtime_failures:
  assumes "deployment h p a" "reachable h p a rt" "query h rt signals = Inl e"
  shows "is_signal_error e \<or>
    (e = MaxQueriesExceeded (max_queries p) \<and> query_index (rt_state rt) = max_queries p) \<or>
    (\<exists>m \<in> set (modes p). m_name m = mode_name (rt_state rt) \<and> max_dwell m = Some (dwell_steps (rt_state rt)) \<and>
       e = MaxDwellExceeded (m_name m) (dwell_steps (rt_state rt)))"
proof -
  from reachable_inv[OF assms(2,1)] have i: "runtime_inv h rt" "rt_program rt = p" "small_reference rt" by simp_all
  obtain m where m: "m \<in> set (modes (rt_program rt))" "m_name m = mode_name (rt_state rt)"
    "program_mode (rt_program rt) (mode_name (rt_state rt)) = Inr m" by (rule current_mode[OF i(1)])
  show ?thesis
  proof (cases "is_signal_error e \<or> max_queries p \<le> query_index (rt_state rt)")
    case True
    then show ?thesis using query_errors[OF i(1,3) assms(3)] i(2) assms(3) by (auto simp: query_eq[OF i(1) m(3)])
  next
    case False
    then have "\<not> is_signal_error e" "query_index (rt_state rt) < max_queries p" by auto
    then obtain obs where o: "validate_signals (outgoing p (m_name m)) signals = Inr obs"
        "bindE (dispatch_of rt m obs) (emit h rt) = Inl e"
      using assms(3) i validate_signals_Inl[of "outgoing p (m_name m)" signals e] runtime_invD(1)[OF i(1)]
      by (auto simp: query_eq[OF i(1) m(3)] bindE_eq_Inl program_ok_def rule_ok_def set_outgoing split: sum.splits)
    from dispatch_cases[OF i(1) m(1,2) o(1)[folded i(2)] i(3)] show ?thesis
    proof (elim disjE exE conjE)
      fix d assume d: "dispatch_of rt m obs = Inr d" "dispatch_ok rt d"
      obtain res where "emit h rt d = Inr (res, after_dispatch rt d)" by (rule emit_ok[OF i(1) d(2)])
      then show ?thesis using o(2) d(1) by simp
    qed (use o(2) m i(2) in auto)
  qed
qed

theorem runtime_failures_witness:
  "query demo_hasher demo_runtime (PDict [(''tilt'', PInt 1)]) = Inl (MissingSignals [''phase'']) \<and>
   is_signal_error (MissingSignals [''phase''])"
proof -
  have q: "query demo_hasher demo_runtime (PDict [(''tilt'', PInt 1)]) = Inl (MissingSignals [''phase''])" by code_simp
  from runtime_failures[OF demo_deployment demo_reachable q] q show ?thesis by simp
qed

text \<open>
  A query returns whenever the signals are valid, the budget is not used up and the mode
  is below its dwell bound; and then the next runtime is reachable again, so an episode can
  go on.
\<close>

lemma query_returns:
  assumes "deployment h p a" "reachable h p a rt" and "query_index (rt_state rt) < max_queries p"
    and "\<exists>obs. validate_signals (outgoing p (mode_name (rt_state rt))) signals = Inr obs"
    and "\<forall>m \<in> set (modes p). m_name m = mode_name (rt_state rt) \<longrightarrow> max_dwell m \<noteq> Some (dwell_steps (rt_state rt))"
  shows "\<exists>res rt'. query h rt signals = Inr (res, rt') \<and> query_index (rt_state rt') = query_index (rt_state rt) + 1"
proof -
  from reachable_inv[OF assms(2,1)] have i: "runtime_inv h rt" "rt_program rt = p" "small_reference rt" by simp_all
  obtain m where m: "m \<in> set (modes (rt_program rt))" "m_name m = mode_name (rt_state rt)"
    "program_mode (rt_program rt) (mode_name (rt_state rt)) = Inr m" by (rule current_mode[OF i(1)])
  from assms(4) m(2) obtain obs where o: "validate_signals (outgoing (rt_program rt) (m_name m)) signals = Inr obs"
    by (auto simp: i(2))
  from dispatch_cases[OF i(1) m(1,2) o i(3)] assms(5) m(1,2) i(2)
  obtain d where d: "dispatch_of rt m obs = Inr d" "dispatch_ok rt d" by auto
  obtain res where "emit h rt d = Inr (res, after_dispatch rt d)" by (rule emit_ok[OF i(1) d(2)])
  then show ?thesis
    using assms(3) o d i(2) by (auto simp: query_eq[OF i(1) m(3)] after_dispatch_def)
qed

lemma query_returns_witness:
  "\<exists>res rt'. query demo_hasher demo_runtime (demo_input 0 0) = Inr (res, rt') \<and> query_index (rt_state rt') = 1"
proof -
  have v: "validate_signals (outgoing demo_program (mode_name (rt_state demo_runtime))) (demo_input 0 0) =
      Inr [(''phase'', Fin 0), (''tilt'', Fin 0)]" by code_simp
  have "query_index (rt_state demo_runtime) < max_queries demo_program" by code_simp
  moreover have "\<forall>m \<in> set (modes demo_program). m_name m = mode_name (rt_state demo_runtime) \<longrightarrow>
      max_dwell m \<noteq> Some (dwell_steps (rt_state demo_runtime))" by code_simp
  moreover have "query_index (rt_state demo_runtime) = 0" by code_simp
  moreover have "\<exists>obs. validate_signals (outgoing demo_program (mode_name (rt_state demo_runtime))) (demo_input 0 0) = Inr obs"
    using v by blast
  ultimately show ?thesis using query_returns[OF demo_deployment demo_reachable] by simp
qed

section \<open>Dispatch\<close>

text \<open>
  C3. The rule a query takes leaves the current mode, is active on the observed signals and past its minimum dwell, and comes
  strictly first in priority among all rules that are; the event names it, the next state is
  its target mode with dwell 1, and the window starts at the frame the event announces.
\<close>

theorem transition_is_first_eligible:
  assumes "deployment h p a" "reachable h p a rt" "query h rt signals = Inr (res, rt')"
    and "res_transition res = Some ev"
  shows "\<exists>obs r. validate_signals (outgoing p (mode_name (rt_state rt))) signals = Inr obs \<and>
    r \<in> set (transitions p) \<and> from_mode r = mode_name (rt_state rt) \<and> eligible rt obs r \<and>
    (\<forall>x \<in> set (transitions p). from_mode x = mode_name (rt_state rt) \<and> eligible rt obs x \<longrightarrow>
       x = r \<or> priority r < priority x) \<and>
    ev_rule_id ev = rule_id r \<and> ev_kind ev = rule_kind r \<and> ev_pre_dwell ev = dwell_steps (rt_state rt) \<and>
    mode_name (rt_state rt') = to_mode r \<and> dwell_steps (rt_state rt') = 1 \<and>
    hd (frame_indices (res_window res)) = ev_entry_frame ev"
proof -
  from reachable_inv[OF assms(2,1)] have i: "runtime_inv h rt" "rt_program rt = p" "small_reference rt" by simp_all
  from query_takes_rule[OF i(1,3) assms(3,4)] show ?thesis unfolding i(2) by metis
qed

lemma stay_means_none:
  assumes "deployment h p a" "reachable h p a rt" "query h rt signals = Inr (res, rt')"
    and "res_transition res = None"
  shows "mode_name (rt_state rt') = mode_name (rt_state rt) \<and>
    dwell_steps (rt_state rt') = dwell_steps (rt_state rt) + 1"
  using reachable_inv[OF assms(2,1)] query_stays[OF _ _ assms(3,4)] by simp

text \<open>
  A query without a transition means that no rule of the mode is eligible; the mode is
  kept, its dwell grows by one, and every guard of the mode carries the activation the
  query has just computed.
\<close>

lemma stay_means_none_eligible:
  assumes "deployment h p a" "reachable h p a rt" "query h rt signals = Inr (res, rt')"
    and "res_transition res = None"
  shows "mode_name (rt_state rt') = mode_name (rt_state rt) \<and>
    dwell_steps (rt_state rt') = dwell_steps (rt_state rt) + 1 \<and>
    (\<exists>obs. validate_signals (outgoing p (mode_name (rt_state rt))) signals = Inr obs \<and>
      (\<forall>x \<in> set (transitions p). from_mode x = mode_name (rt_state rt) \<longrightarrow> \<not> eligible rt obs x \<and>
         map_of (rt_guard_active rt') (rule_id x) = Some (rule_active rt obs x)))"
proof -
  from reachable_inv[OF assms(2,1)] have i: "runtime_inv h rt" "rt_program rt = p" "small_reference rt" by simp_all
  from query_stays[OF i(1,3) assms(3,4)] show ?thesis unfolding i(2) by metis
qed

theorem transition_is_first_eligible_witness:
  "\<exists>res ev. query demo_hasher demo_second (demo_input 2 1) = Inr (res, demo_fallen) \<and> res_transition res = Some ev \<and>
     ev_pre_dwell ev = 1 \<and> hd (frame_indices (res_window res)) = ev_entry_frame ev"
proof -
  obtain res ev where q: "query demo_hasher demo_second (demo_input 2 1) = Inr (res, demo_fallen)" "res_transition res = Some ev"
    using demo_q3 by blast
  have "dwell_steps (rt_state demo_second) = 1" by (simp add: demo_second_def)
  then show ?thesis using q transition_is_first_eligible[OF demo_deployment demo_second_reachable q] by auto
qed

lemma stay_means_none_eligible_witness:
  "mode_name (rt_state demo_second) = mode_name (rt_state demo_runtime) \<and>
   dwell_steps (rt_state demo_second) = dwell_steps (rt_state demo_runtime) + 1"
proof -
  obtain res where q: "query demo_hasher demo_runtime (demo_input 0 0) = Inr (res, demo_second)" "res_transition res = None"
    using demo_q1 by blast
  from stay_means_none_eligible[OF demo_deployment demo_reachable q] show ?thesis by blast
qed

text \<open>
  Every window a query emits stays inside the span of the mode it reports: it has one
  index per horizon step, starts at the reported frame, never decreases, and no index leaves
  \<open>[start, stop)\<close> of that mode.
\<close>

lemma window_within_mode:
  assumes "deployment h p a" "reachable h p a rt" "query h rt signals = Inr (res, rt')"
  shows "\<exists>m \<in> set (modes p). m_name m = ph_mode_name (res_phase res) \<and> m_name m = mode_name (rt_state rt') \<and>
    length (frame_indices (res_window res)) = nat (horizon_steps p) \<and>
    hd (frame_indices (res_window res)) = ph_frame_index (res_phase res) \<and>
    sorted (frame_indices (res_window res)) \<and>
    (\<forall>i \<in> set (frame_indices (res_window res)). span_start m \<le> i \<and> i < span_stop m)"
proof -
  from reachable_inv[OF assms(2,1)] have i: "runtime_inv h rt" "rt_program rt = p" "small_reference rt" by simp_all
  from query_InrD[OF i(1,3) assms(3)] obtain d where d: "dispatch_ok rt d" "emit h rt d = Inr (res, rt')"
    "rt' = after_dispatch rt d" by metis
  obtain res' where r: "emit h rt d = Inr (res', after_dispatch rt d)"
    "ph_mode_name (res_phase res') = m_name (d_mode d)"
    "ph_frame_index (res_phase res') = span_start (d_mode d) + d_offset d"
    "length (frame_indices (res_window res')) = nat (horizon_steps (rt_program rt))"
    "hd (frame_indices (res_window res')) = span_start (d_mode d) + d_offset d"
    "sorted (frame_indices (res_window res'))"
    "\<forall>i \<in> set (frame_indices (res_window res')). span_start (d_mode d) + d_offset d \<le> i \<and> i < span_stop (d_mode d)"
    by (rule emit_ok[OF i(1) d(1)])
  then have "res' = res" using d(2) by simp
  moreover have "d_mode d \<in> set (modes p)" "0 \<le> d_offset d" using d(1) i(2) by (simp_all add: dispatch_ok_def)
  ultimately show ?thesis
    using r d(3) i(2) by (intro bexI[of _ "d_mode d"]) (auto simp: after_dispatch_def)
qed

lemma window_within_mode_witness:
  "\<exists>res. query demo_hasher demo_runtime (demo_input 0 0) = Inr (res, demo_second) \<and>
     length (frame_indices (res_window res)) = 2 \<and> ph_frame_index (res_phase res) = 0"
proof -
  obtain res where q: "query demo_hasher demo_runtime (demo_input 0 0) = Inr (res, demo_second)"
      "frame_indices (res_window res) = [0, 1]" using demo_q1 by blast
  from window_within_mode[OF demo_deployment demo_reachable q(1)] q show ?thesis by auto
qed

lemma reachable_bounds:
  assumes "deployment h p a" "reachable h p a rt"
  shows "\<exists>m \<in> set (modes p). m_name m = mode_name (rt_state rt) \<and>
    0 \<le> reference_offset_frames (rt_state rt) \<and> reference_offset_frames (rt_state rt) < span_stop m - span_start m \<and>
    0 \<le> dwell_steps (rt_state rt) \<and> (max_dwell m = None \<or> dwell_steps (rt_state rt) \<le> the (max_dwell m)) \<and>
    0 \<le> query_index (rt_state rt) \<and> query_index (rt_state rt) \<le> max_queries p \<and>
    (\<forall>r \<in> set (transitions p). from_mode r \<noteq> m_name m \<longrightarrow> map_of (rt_guard_active rt) (rule_id r) = Some False)"
proof -
  from reachable_inv[OF assms(2,1)] have i: "runtime_inv h rt" "rt_program rt = p" by simp_all
  obtain m where m: "m \<in> set (modes (rt_program rt))" "m_name m = mode_name (rt_state rt)"
    "program_mode (rt_program rt) (mode_name (rt_state rt)) = Inr m"
    "0 \<le> reference_offset_frames (rt_state rt)" "reference_offset_frames (rt_state rt) < mode_frames m"
    "0 \<le> dwell_steps (rt_state rt)" "\<forall>n. max_dwell m = Some n \<longrightarrow> dwell_steps (rt_state rt) \<le> n"
    by (rule current_mode[OF i(1)])
  have "map_of (rt_guard_active rt) (rule_id r) = Some False"
    if "r \<in> set (transitions p)" "from_mode r \<noteq> m_name m" for r
    using guard_keys[OF i(1), of r] that i m(2) by (auto simp: runtime_inv_def)
  moreover have "max_dwell m = None \<or> dwell_steps (rt_state rt) \<le> the (max_dwell m)"
    using m(7) by (cases "max_dwell m") auto
  ultimately show ?thesis using m i by (intro bexI[of _ m]) (auto simp: mode_frames_def runtime_inv_def)
qed

text \<open>
  C4. Every reachable state is bounded: the mode is declared, the reference offset is a frame
  of its span, the dwell is at most its declared maximum, the query index is at most the
  budget, and only guards of the current mode can be active.
\<close>

theorem reachable_state_bounded:
  assumes "deployment h p a" "reachable h p a rt"
  shows "\<exists>m \<in> set (modes p). m_name m = mode_name (rt_state rt) \<and>
    0 \<le> reference_offset_frames (rt_state rt) \<and> reference_offset_frames (rt_state rt) < span_stop m - span_start m \<and>
    0 \<le> dwell_steps (rt_state rt) \<and> (max_dwell m = None \<or> dwell_steps (rt_state rt) \<le> the (max_dwell m)) \<and>
    0 \<le> query_index (rt_state rt) \<and> query_index (rt_state rt) \<le> max_queries p \<and>
    (\<forall>r \<in> set (transitions p). from_mode r \<noteq> m_name m \<longrightarrow> map_of (rt_guard_active rt) (rule_id r) = Some False)"
  using assms by (rule reachable_bounds)

theorem reachable_state_bounded_witness:
  "dwell_steps (rt_state demo_second) \<le> 2 \<and> mode_name (rt_state demo_second) = ''run''"
proof -
  have n: "mode_name (rt_state demo_second) = ''run''" by (simp add: demo_second_def)
  from reachable_state_bounded[OF demo_deployment demo_second_reachable]
  obtain m where "m \<in> set (modes demo_program)" "m_name m = ''run''"
      "max_dwell m = None \<or> dwell_steps (rt_state demo_second) \<le> the (max_dwell m)" unfolding n by blast
  then show ?thesis using n by (auto simp: demo_program_def demo_modes_def)
qed

section \<open>Liveness\<close>

lemma no_transition_run:
  assumes "deployment h p a"
  shows "reachable h p a rt \<Longrightarrow> run h rt ss = Inr (rs, rt') \<Longrightarrow> \<forall>r \<in> set rs. res_transition r = None \<Longrightarrow>
    mode_name (rt_state rt') = mode_name (rt_state rt) \<and>
    dwell_steps (rt_state rt') = dwell_steps (rt_state rt) + int (length ss)"
proof (induction ss arbitrary: rt rs)
  case (Cons s ss)
  from Cons.prems(2) obtain res rt1 rs1 where q: "query h rt s = Inr (res, rt1)" "run h rt1 ss = Inr (rs1, rt')"
      "rs = res # rs1" by auto
  have r: "reachable h p a rt1" using Cons.prems(1) q(1) by (rule queried)
  have "mode_name (rt_state rt1) = mode_name (rt_state rt)" "dwell_steps (rt_state rt1) = dwell_steps (rt_state rt) + 1"
    using stay_means_none[OF assms Cons.prems(1) q(1)] Cons.prems(3) q(3) by auto
  then show ?case using Cons.IH[OF r q(2)] Cons.prems(3) q(3) by simp
qed simp

lemma run_index:
  assumes "deployment h p a"
  shows "reachable h p a rt \<Longrightarrow> run h rt ss = Inr (rs, rt') \<Longrightarrow>
    query_index (rt_state rt') = query_index (rt_state rt) + int (length ss)"
proof (induction ss arbitrary: rt rs)
  case (Cons s ss)
  from Cons.prems(2) obtain res rt1 rs1 where q: "query h rt s = Inr (res, rt1)" "run h rt1 ss = Inr (rs1, rt')" by auto
  from reachable_inv[OF Cons.prems(1) assms] have i: "runtime_inv h rt" "small_reference rt" by simp_all
  from query_InrD[OF i q(1)] obtain d where "rt1 = after_dispatch rt d" by metis
  then have "query_index (rt_state rt1) = query_index (rt_state rt) + 1" by (simp add: after_dispatch_def)
  then show ?case using Cons.IH[OF queried[OF Cons.prems(1) q(1)] q(2)] by simp
qed simp

lemma run_take: "run h rt ss = Inr (rs, rt') \<Longrightarrow> \<exists>rt1. run h rt (take k ss) = Inr (take k rs, rt1)"
proof (induction ss arbitrary: rt rs k)
  case (Cons s ss)
  from Cons.prems obtain res rt1 rs1 where "query h rt s = Inr (res, rt1)" "run h rt1 ss = Inr (rs1, rt')" "rs = res # rs1" by auto
  then show ?case using Cons.IH[of rt1 rs1 "k - 1"] by (cases k) auto
qed simp

text \<open>
  C5. Fail-closed liveness.  Every run of successful queries, with or without transitions, uses up one
  unit of the query budget per query and never more than the budget, so no run is longer than what is
  left of it; and a stretch without a transition at the beginning of a run, from any reachable state
  whose mode declares a dwell bound \<open>n\<close>, is no longer than \<open>n\<close> less the dwell already spent.
\<close>

theorem dwell_is_bounded:
  assumes "deployment h p a" "reachable h p a rt" "run h rt ss = Inr (rs, rt')"
  shows "length rs = length ss \<and> query_index (rt_state rt') = query_index (rt_state rt) + int (length rs) \<and>
    int (length rs) \<le> max_queries p - query_index (rt_state rt) \<and>
    (\<forall>m \<in> set (modes p). \<forall>n k. m_name m = mode_name (rt_state rt) \<longrightarrow> max_dwell m = Some n \<longrightarrow> k \<le> length rs \<longrightarrow>
      (\<forall>r \<in> set (take k rs). res_transition r = None) \<longrightarrow> int k \<le> n - dwell_steps (rt_state rt))"
proof -
  have p: "program_ok p" using assms(1) by (simp add: deployment_def)
  have stretch: "int k \<le> n - dwell_steps (rt_state rt)"
    if m: "m \<in> set (modes p)" "m_name m = mode_name (rt_state rt)" "max_dwell m = Some n"
      and k: "k \<le> length rs" "\<forall>r \<in> set (take k rs). res_transition r = None" for m n k
  proof -
    obtain rt1 where run: "run h rt (take k ss) = Inr (take k rs, rt1)" using run_take[OF assms(3)] by blast
    note e = no_transition_run[OF assms(1,2) run k(2)]
    from reachable_bounds[OF assms(1) run_reachable[OF run assms(2)]] obtain m' where m': "m' \<in> set (modes p)"
        "m_name m' = mode_name (rt_state rt1)" "max_dwell m' = None \<or> dwell_steps (rt_state rt1) \<le> the (max_dwell m')" by blast
    have "m' = m" using key_inj[OF program_ok_distinct(1)[OF p]] m'(1,2) m(1,2) e by metis
    then show ?thesis using m' m(3) e k(1) run_length[OF assms(3)] by simp
  qed
  have "query_index (rt_state rt') \<le> max_queries p"
    using reachable_bounds[OF assms(1) run_reachable[OF assms(3,2)]] by blast
  with stretch show ?thesis using run_index[OF assms] run_length[OF assms(3)] by simp
qed

theorem dwell_is_bounded_witness:
  "\<exists>rs rt'. run demo_hasher demo_runtime [demo_input 0 0, demo_input 2 1] = Inr (rs, rt') \<and> query_index (rt_state rt') = 2 \<and>
    map (\<lambda>r. res_transition r = None) rs = [True, False] \<and>
    int 1 \<le> 2 - dwell_steps (rt_state demo_runtime)"
proof -
  obtain r1 r2 ev where q: "query demo_hasher demo_runtime (demo_input 0 0) = Inr (r1, demo_second)" "res_transition r1 = None"
      "query demo_hasher demo_second (demo_input 2 1) = Inr (r2, demo_fallen)" "res_transition r2 = Some ev"
    using demo_q1 demo_q3 by blast
  then have r: "run demo_hasher demo_runtime [demo_input 0 0, demo_input 2 1] = Inr ([r1, r2], demo_fallen)" by simp
  have m: "demo_modes ! 0 \<in> set (modes demo_program)" "m_name (demo_modes ! 0) = mode_name (rt_state demo_runtime)"
    "max_dwell (demo_modes ! 0) = Some 2" "dwell_steps (rt_state demo_runtime) = 0" "query_index (rt_state demo_runtime) = 0"
    by (simp_all add: demo_modes_def demo_program_def demo_runtime_def initial_state_def)
  note d = dwell_is_bounded[OF demo_deployment demo_reachable r]
  have "\<forall>x \<in> set (take 1 [r1, r2]). res_transition x = None" using q(2) by simp
  with d m have "query_index (rt_state demo_fallen) = 2 \<and> int 1 \<le> 2 - dwell_steps (rt_state demo_runtime)" by auto
  then show ?thesis using r q(2,4) by (intro exI[of _ "[r1, r2]"] exI[of _ demo_fallen]) simp
qed

text \<open>
  A terminal mode is absorbing: every query answered in it keeps the mode, takes no
  transition, and never fails for its dwell.
\<close>

lemma terminal_absorbs:
  assumes "deployment h p a" "reachable h p a rt" "m \<in> set (modes p)"
    and "m_name m = mode_name (rt_state rt)" "m_kind m = TERMINAL"
  shows "(\<forall>res rt'. query h rt signals = Inr (res, rt') \<longrightarrow>
      res_transition res = None \<and> mode_name (rt_state rt') = m_name m) \<and>
    (query_index (rt_state rt) < max_queries p \<and> as_dict signals \<noteq> None \<longrightarrow> (\<exists>res rt'. query h rt signals = Inr (res, rt')))"
proof -
  from reachable_inv[OF assms(2,1)] have i: "runtime_inv h rt" "rt_program rt = p" "small_reference rt" by simp_all
  note p = runtime_invD(1)[OF i(1), unfolded i(2)]
  have "\<not> (\<exists>r \<in> set (transitions p). from_mode r = m_name m)"
    using p assms(3,5) by (auto simp: program_ok_def wf_program_def wf_parts_def wf_mode_def)
  then have none: "outgoing p (m_name m) = []" using set_outgoing[of p "m_name m"] by (auto simp flip: set_empty)
  have pm: "program_mode (rt_program rt) (mode_name (rt_state rt)) = Inr m"
    using program_mode_in[OF p assms(3)] assms(4) i(2) by simp
  have "max_dwell m = None" using program_ok_mode(5)[OF p assms(3)] assms(5) by simp
  then have d: "dispatch_of rt m obs = Inr \<lparr>d_mode = m, d_dwell = dwell_steps (rt_state rt),
      d_offset = reference_offset_frames (rt_state rt), d_event = None, d_guards = rt_guard_active rt\<rparr>" (is "_ = Inr ?d") for obs
    by (simp add: dispatch_of_def Let_def none i(2) stay_def set_guards_def)
  have s: "validate_signals [] signals = (if as_dict signals = None then Inl SignalsNotMapping else Inr [])"
    by (auto simp: validate_signals_def required_signals_def Let_def split: option.splits)
  have m: "m \<in> set (modes (rt_program rt))" using assms(3) i(2) by simp
  have "stay rt m (set_guards (\<lambda>_. False) (outgoing (rt_program rt) (m_name m)) (rt_guard_active rt)) = Inr ?d"
    by (simp add: stay_def Let_def none i(2) set_guards_def \<open>max_dwell m = None\<close>)
  from stay_ok(1)[OF i(1) m assms(4) this] have "dispatch_ok rt ?d" .
  then obtain res where e: "emit h rt ?d = Inr (res, after_dispatch rt ?d)" "res_transition res = d_event ?d"
    by (rule emit_ok[OF i(1)])
  show ?thesis
    using e by (auto simp: query_eq[OF i(1) pm] i(2) none s d after_dispatch_def split: if_splits)
qed

lemma terminal_absorbs_witness:
  "\<exists>res rt'. query demo_hasher demo_done (PDict []) = Inr (res, rt') \<and>
     res_transition res = None \<and> mode_name (rt_state rt') = ''done''"
proof -
  let ?m = "demo_modes ! 2"
  have m: "?m \<in> set (modes demo_program)" "m_kind ?m = TERMINAL" "m_name ?m = ''done''"
    by (simp_all add: demo_modes_def demo_program_def)
  have n: "m_name ?m = mode_name (rt_state demo_done)" by (simp add: m(3) demo_done_def)
  have b: "query_index (rt_state demo_done) < max_queries demo_program" "as_dict (PDict []) \<noteq> None"
    by (simp_all add: demo_done_def demo_program_def)
  note t = terminal_absorbs[OF demo_deployment demo_done_reachable m(1) n m(2), of "PDict []"]
  from t b obtain res rt' where q: "query demo_hasher demo_done (PDict []) = Inr (res, rt')" by blast
  with t m(3) have "res_transition res = None \<and> mode_name (rt_state rt') = ''done''" by simp
  with q show ?thesis by blast
qed

section \<open>Guards over an episode\<close>

text \<open>
  Hysteresis over queries: if a query that stays in its mode leaves a guard active, and the
  next query observes a value that would switch the idle guard on, the guard is active again;
  so whether the rule is taken then depends only on its dwell and on the priorities.
\<close>

lemma active_guard_persists:
  assumes "deployment h p a" "reachable h p a rt" "r \<in> set (transitions p)"
    and "map_of observed (g_signal (rule_guard r)) = Some v"
    and "evaluate_guard (rule_guard r) (PFloat v) False = Inr True"
  shows "rule_active rt observed r"
proof -
  from reachable_inv[OF assms(2,1)] have i: "runtime_inv h rt" "rt_program rt = p" by simp_all
  obtain b where b: "map_of (rt_guard_active rt) (rule_id r) = Some b"
    using guard_keys[OF i(1), of r] assms(3) i(2) by blast
  have "guard_ok (rule_guard r)"
    using runtime_invD(1)[OF i(1)] i(2) assms(3) by (simp add: program_ok_def rule_ok_def)
  then have "evaluate_guard (rule_guard r) (PFloat v) b = Inr True"
    using guard_hysteresis assms(5) by (cases b) auto
  then show ?thesis by (simp add: rule_active_def b assms(4))
qed

lemma active_guard_persists_witness:
  "rule_active demo_second [(''tilt'', Fin 2), (''phase'', Fin 0)] (demo_rules ! 1)"
  by (rule active_guard_persists[OF demo_deployment demo_second_reachable, where v = "Fin 2"]; code_simp)

text \<open>
  A transition leaves no guard active: whatever the activations before it, all guards
  are idle in the state after it, so the new mode starts with its unshifted thresholds.
\<close>

lemma transition_clears_guards:
  assumes "deployment h p a" "reachable h p a rt" "query h rt signals = Inr (res, rt')"
    and "res_transition res \<noteq> None" "r \<in> set (transitions p)"
  shows "map_of (rt_guard_active rt') (rule_id r) = Some False"
proof -
  from reachable_inv[OF assms(2,1)] have i: "runtime_inv h rt" "rt_program rt = p" "small_reference rt" by simp_all
  from assms(4) obtain ev where "res_transition res = Some ev" by blast
  from query_takes_rule[OF i(1,3) assms(3) this] obtain x where x: "x \<in> set (transitions p)"
    "from_mode x = mode_name (rt_state rt)" "to_mode x = mode_name (rt_state rt')" unfolding i(2) by metis
  note p = runtime_invD(1)[OF i(1), unfolded i(2)]
  have ne: "mode_name (rt_state rt') \<noteq> mode_name (rt_state rt)"
    using program_ok_rule[OF p x(1)] x(2,3) by metis
  have i': "runtime_inv h rt'" "rt_program rt' = p" using reachable_inv[OF queried[OF assms(2,3)] assms(1)] by simp_all
  obtain b where b: "map_of (rt_guard_active rt') (rule_id r) = Some b"
    using guard_keys[OF i'(1), of r] assms(5) i'(2) by blast
  have "\<not> b"
  proof
    assume b1: b
    then have to: "from_mode r = mode_name (rt_state rt')" using i' b assms(5) by (simp add: runtime_inv_def)
    from query_InrD[OF i(1,3) assms(3)] obtain m obs d where m: "m_name m = mode_name (rt_state rt)"
      "validate_signals (outgoing (rt_program rt) (m_name m)) signals = Inr obs"
      "dispatch_of rt m obs = Inr d" "rt' = after_dispatch rt d" "m \<in> set (modes (rt_program rt))" by metis
    have "map_of (d_guards d) (rule_id r) = map_of (rt_guard_active rt) (rule_id r)"
    proof (cases "filter (eligible rt obs) (outgoing (rt_program rt) (m_name m))")
      case Nil
      then show ?thesis using m(3) stay_ok(6)[OF i(1) m(5,1), of _ d r] assms(5) i(2) to ne m(1)
        by (auto simp: dispatch_of_def Let_def)
    next
      case (Cons y ys)
      have idem: "fold (\<lambda>r. AList.update (rule_id r) False) rules (set_guards f rules g) =
          set_guards (\<lambda>_. False) rules (set_guards f rules g)" for f g rules
        by (simp add: set_guards_def)
      from Cons m(3) show ?thesis using to ne m(1) map_of_set_guards_rule[OF p assms(5)]
        by (auto simp: dispatch_of_def Let_def take_rule_def idem i(2) split: sum.splits)
    qed
    then have "map_of (rt_guard_active rt) (rule_id r) = Some True" using b b1 m(4) by (simp add: after_dispatch_def)
    then have "from_mode r = mode_name (rt_state rt)" using i(1,2) assms(5) by (simp add: runtime_inv_def)
    then show False using to ne by simp
  qed
  then show ?thesis using b by simp
qed

lemma transition_clears_guards_witness:
  "map_of (rt_guard_active demo_fallen) ''fell'' = Some False"
proof -
  obtain res where q: "query demo_hasher demo_second (demo_input 2 1) = Inr (res, demo_fallen)" "res_transition res \<noteq> None"
    using demo_q3 by blast
  from transition_clears_guards[OF demo_deployment demo_second_reachable q, of "demo_rules ! 1"]
  show ?thesis by (simp add: demo_rules_def demo_program_def)
qed

section \<open>The phase of a frame\<close>

lemma round_error: "0 \<le> x \<Longrightarrow> x = 0 \<or> pow2 (- 1022) \<le> x \<Longrightarrow> \<bar>round_rat x - x\<bar> \<le> x / 2 ^ 53"
  using round_rat_error[of x] by auto

lemma above_subnormal: "1 / 2 ^ 60 \<le> x \<Longrightarrow> pow2 (- 1022) \<le> x"
proof -
  assume "1 / 2 ^ 60 \<le> x"
  moreover have "pow2 (- 1022) \<le> pow2 (- 60)" by simp
  moreover have "pow2 (- 60) = 1 / 2 ^ 60" by (simp add: pow2_def)
  ultimately show ?thesis by linarith
qed

text \<open>The value of the product and the sum of \<open>nearest_frame\<close>, and how far they are off.\<close>

lemma nearest_frame_value:
  assumes "0 \<le> q" "q \<le> 1" "1 \<le> n" "n \<le> 2 ^ 52"
  shows "nearest_frame (Fin q) n = Inr \<lfloor>round_rat (round_rat (q * of_int (n - 1)) + 1 / 2)\<rfloor>"
proof -
  have m: "0 \<le> (of_int (n - 1) :: rat)" using assms(3) by simp
  have "q * of_int (n - 1) \<le> of_int (n - 1)" using mult_right_mono[OF assms(2) m] by simp
  then obtain y where y: "f64_round (q * of_int (n - 1)) = Fin y" "0 \<le> y" "y \<le> of_int (n - 1)"
    using f64_round_unit_bound[of "q * of_int (n - 1)" "n - 1"] assms m by auto
  have "y + 1 / 2 \<le> of_int n" using y(3) by simp
  then obtain z where z: "f64_round (y + 1 / 2) = Fin z"
    using f64_round_unit_bound[of "y + 1 / 2" n] assms(4) y(2) by auto
  have "float_of_int (n - 1) = Some (Fin (of_int (n - 1)))"
    using assms(3,4) by (intro float_of_int_small) simp
  moreover have "y = round_rat (q * of_int (n - 1))" "z = round_rat (y + 1 / 2)"
    using f64_round_FinD y(1) z by blast+
  ultimately show ?thesis using y(1) z by (simp add: nearest_frame_def)
qed

lemma nearest_frame_mono:
  assumes "0 \<le> q" "q \<le> q'" "q' \<le> 1" "1 \<le> n" "n \<le> 2 ^ 52"
    and "nearest_frame (Fin q) n = Inr k" "nearest_frame (Fin q') n = Inr k'"
  shows "k \<le> k'"
proof -
  have "q * of_int (n - 1) \<le> q' * of_int (n - 1)" using assms(2,4) by (intro mult_right_mono) simp_all
  then have "round_rat (round_rat (q * of_int (n - 1)) + 1 / 2) \<le> round_rat (round_rat (q' * of_int (n - 1)) + 1 / 2)"
    by (intro round_rat_mono add_right_mono)
  from floor_mono[OF this] show ?thesis
    using assms nearest_frame_value[of q n] nearest_frame_value[of q' n] by simp
qed

text \<open>The sum is within an eighth of \<open>x + 1/2\<close> when the product is within a sixteenth of \<open>x\<close>.\<close>

lemma product_error:
  fixes x :: rat
  assumes "0 \<le> x" "x \<le> 2 ^ 49" "x = 0 \<or> 1 / 2 ^ 60 \<le> x"
  shows "\<bar>round_rat x - x\<bar> \<le> 1 / 16"
proof -
  have "\<bar>round_rat x - x\<bar> \<le> x / 2 ^ 53" using assms(1,3) above_subnormal by (intro round_error) auto
  then show ?thesis using assms(2) by (simp add: field_simps)
qed

lemma sum_error:
  fixes y :: rat
  assumes "0 \<le> y" "y \<le> 2 ^ 49 + 1"
  shows "\<bar>round_rat (y + 1 / 2) - (y + 1 / 2)\<bar> \<le> 1 / 8"
proof -
  have "pow2 (- 1022) \<le> y + 1 / 2" using assms(1) by (intro above_subnormal) simp
  then have "\<bar>round_rat (y + 1 / 2) - (y + 1 / 2)\<bar> \<le> (y + 1 / 2) / 2 ^ 53" using assms(1) by (intro round_error) simp_all
  then show ?thesis using assms(2) by (simp add: field_simps)
qed

lemma scale_back: "(b::rat) \<noteq> 0 \<Longrightarrow> a / b / c * b = a / c"
  by (simp add: field_simps)

lemma local_phase_value:
  assumes "0 \<le> k" "k < n" "1 < n" "n \<le> 2 ^ 49"
  obtains q where "local_phase k n = Fin q" "0 \<le> q" "q \<le> 1" "\<bar>q * of_int (n - 1) - of_int k\<bar> \<le> 1 / 16"
    "k = 0 \<longrightarrow> q = 0"
proof -
  let ?x = "of_int k / of_int (n - 1) :: rat"
  have big: "(of_int j :: rat) \<le> 2 ^ 49" if "j \<le> 2 ^ 49" for j
    using that by (metis of_int_le_iff of_int_numeral of_int_power)
  have m: "(0::rat) < of_int (n - 1)" "of_int (n - 1) \<le> (2 ^ 49 :: rat)"
    using assms by (simp, intro big) simp
  have x: "0 \<le> ?x" "?x \<le> 1" using assms m by (simp_all add: field_simps)
  obtain q where q: "f64_round ?x = Fin q" "0 \<le> q" "q \<le> 1"
    using f64_round_unit_bound[of ?x 1] x by auto
  have qr: "q = round_rat ?x" using f64_round_FinD[OF q(1)] by simp
  have "?x = 0 \<or> pow2 (- 1022) \<le> ?x"
  proof (cases "k = 0")
    case False
    then have "1 \<le> (of_int k :: rat)" using assms(1) by simp
    then have "1 / 2 ^ 49 \<le> ?x" using m by (intro frac_le) simp_all
    then have "1 / 2 ^ 60 \<le> ?x" by (rule order_trans[rotated]) simp
    then show ?thesis by (intro disjI2 above_subnormal)
  qed simp
  then have "\<bar>q - ?x\<bar> \<le> ?x / 2 ^ 53" unfolding qr using x(1) by (intro round_error)
  then have "\<bar>q - ?x\<bar> * of_int (n - 1) \<le> ?x / 2 ^ 53 * of_int (n - 1)" using m by (intro mult_right_mono) simp_all
  moreover have "\<bar>q - ?x\<bar> * of_int (n - 1) = \<bar>q * of_int (n - 1) - of_int k\<bar>"
    using m by (simp add: abs_mult_pos left_diff_distrib)
  moreover have "?x / 2 ^ 53 * of_int (n - 1) = of_int k / 2 ^ 53" by (rule scale_back) (use m in linarith)
  moreover have "(of_int k :: rat) \<le> 2 ^ 49" using assms by (intro big) simp
  then have "(of_int k :: rat) / 2 ^ 53 \<le> 1 / 16" by (simp add: field_simps)
  ultimately have e: "\<bar>q * of_int (n - 1) - of_int k\<bar> \<le> 1 / 16" by linarith
  have "local_phase k n = Fin q" using assms(3) q(1) by (simp add: local_phase_def int_truediv_def)
  moreover have "k = 0 \<longrightarrow> q = 0" using qr by simp
  ultimately show thesis using q e by (intro that)
qed

lemma nearest_frame_local_phase:
  assumes "0 \<le> k" "k < n" "1 < n" "n \<le> 2 ^ 49"
  shows "nearest_frame (local_phase k n) n = Inr k"
proof -
  obtain q where q: "local_phase k n = Fin q" "0 \<le> q" "q \<le> 1" "\<bar>q * of_int (n - 1) - of_int k\<bar> \<le> 1 / 16"
    "k = 0 \<longrightarrow> q = 0" by (rule local_phase_value[OF assms])
  let ?x = "q * of_int (n - 1)"
  have k: "(of_int k :: rat) \<le> 2 ^ 49 - 1"
  proof -
    have "of_int k \<le> (of_int (2 ^ 49 - 1) :: rat)" using assms unfolding of_int_le_iff by simp
    then show ?thesis by simp
  qed
  have "0 \<le> ?x" using q(2) assms(3) by simp
  moreover have "?x \<le> 2 ^ 49" using q(4) k by linarith
  ultimately have x: "0 \<le> ?x" "?x \<le> 2 ^ 49" .
  have nz: "?x = 0 \<or> 1 / 2 ^ 60 \<le> ?x"
  proof (cases "k = 0")
    case False
    then have "1 \<le> (of_int k :: rat)" using assms(1) by simp
    then have "15 / 16 \<le> ?x" using q(4) by linarith
    then show ?thesis by simp
  qed (use q(5) in simp)
  have y: "\<bar>round_rat ?x - ?x\<bar> \<le> 1 / 16" by (rule product_error[OF x nz])
  then have "round_rat ?x \<le> 2 ^ 49 + 1" using x(2) by linarith
  from sum_error[OF round_rat_nonneg[OF x(1)] this]
  have z: "\<bar>round_rat (round_rat ?x + 1 / 2) - (round_rat ?x + 1 / 2)\<bar> \<le> 1 / 8" .
  have "of_int k \<le> round_rat (round_rat ?x + 1 / 2)" "round_rat (round_rat ?x + 1 / 2) < of_int k + 1"
    using q(4) y z by linarith+
  then have "\<lfloor>round_rat (round_rat ?x + 1 / 2)\<rfloor> = k" by (simp add: floor_eq_iff)
  then show ?thesis using nearest_frame_value[OF q(2,3), of n] q(1) assms by simp
qed

text \<open>
  Round trip: a transfer that receives the local phase the runtime reports for frame \<open>k\<close> of
  a span of \<open>n\<close> frames enters exactly frame \<open>k\<close> of a target of \<open>n\<close> frames, in binary64
  arithmetic, for every span up to \<open>2^49\<close> frames.
\<close>

lemma phase_round_trip:
  assumes "0 \<le> k" "k < n" "n \<le> 2 ^ 49"
    and "pt_kind (rule_transfer r) = NORMALIZED_PHASE_FROM_SIGNAL" "pt_signal (rule_transfer r) = Some s"
    and "map_of observed s = Some (local_phase k n)"
  shows "phase_transfer_offset r n observed = Inr (k, Some (local_phase k n))"
proof (cases "n = 1")
  case True
  then show ?thesis using assms by (simp add: phase_transfer_offset_def lookup_def)
next
  case False
  then show ?thesis
    using assms nearest_frame_local_phase[of k n] by (simp add: phase_transfer_offset_def lookup_def)
qed

lemma phase_round_trip_witness:
  "phase_transfer_offset (demo_rules ! 2) 5 [(''phase'', local_phase 3 5)] = Inr (3, Some (local_phase 3 5))"
  by (rule phase_round_trip[where s = "''phase''"]) (simp_all add: demo_rules_def)

text \<open>
  The transferred offset is always a frame of the target, it grows with the phase, and the
  two ends of the phase interval select the first and the last frame.
\<close>

lemma phase_transfer_monotone:
  assumes "1 \<le> n" "n \<le> 2 ^ 49" "0 \<le> q" "q \<le> q'" "q' \<le> 1"
    and "pt_kind (rule_transfer r) = NORMALIZED_PHASE_FROM_SIGNAL" "pt_signal (rule_transfer r) = Some s"
  shows "\<exists>k k'. phase_transfer_offset r n [(s, Fin q)] = Inr (k, Some (Fin q)) \<and>
    phase_transfer_offset r n [(s, Fin q')] = Inr (k', Some (Fin q')) \<and>
    0 \<le> k \<and> k \<le> k' \<and> k' < n \<and> (q = 0 \<longrightarrow> k = 0) \<and> (q' = 1 \<longrightarrow> k' = n - 1)"
proof (cases "n = 1")
  case True
  then show ?thesis using assms by (simp add: phase_transfer_offset_def lookup_def)
next
  case False
  have n: "1 < n" "n \<le> 2 ^ 52" using False assms(1,2) by simp_all
  obtain k k' where k: "nearest_frame (Fin q) n = Inr k" "nearest_frame (Fin q') n = Inr k'"
    using nearest_frame_total[of q n] nearest_frame_total[of q' n] assms n by auto
  have le: "k \<le> k'" using nearest_frame_mono[OF assms(3,4,5,1) n(2) k] .
  have "f64_round 0 = Fin 0" using f64_rep_round[OF f64_rep_of_int[of 0]] by simp
  then have "local_phase 0 n = Fin 0" using n(1) by (simp add: local_phase_def int_truediv_def)
  then have z: "q = 0 \<Longrightarrow> k = 0" using nearest_frame_local_phase[of 0 n] n(1) assms(2) k(1) by simp
  have "f64_round 1 = Fin 1" using f64_rep_round[OF f64_rep_of_int[of 1]] by simp
  then have "local_phase (n - 1) n = Fin 1" using n(1) by (simp add: local_phase_def int_truediv_def)
  then have o: "q' = 1 \<Longrightarrow> k' = n - 1" using nearest_frame_local_phase[of "n - 1" n] n(1) assms(2) k(2) by simp
  show ?thesis
    using k le z o assms(6,7) n(1) False by (auto simp: phase_transfer_offset_def lookup_def)
qed

lemma phase_transfer_monotone_witness:
  "\<exists>k k'. phase_transfer_offset (demo_rules ! 2) 3 [(''phase'', Fin 0)] = Inr (k, Some (Fin 0)) \<and>
    phase_transfer_offset (demo_rules ! 2) 3 [(''phase'', Fin 1)] = Inr (k', Some (Fin 1)) \<and> k = 0 \<and> k' = 2"
  using phase_transfer_monotone[of 3 0 1 "demo_rules ! 2" "''phase''"] by (simp add: demo_rules_def)

end
