(* ===== verification/GuardLang.thy ===== *)
theory GuardLang
  imports PyValues
begin

text \<open>
  The guard language of \<^verbatim>\<open>src/oracle_composition/harness/contract.py\<close>.  A guard is text that
  \<open>ast.parse(source, mode="eval")\<close> turns into a Python syntax tree; the parser is a parameter.
  \<open>validate_node\<close> admits a sublanguage of the trees, \<open>eval_node\<close> evaluates a tree with Python's
  short circuits, and \<open>GuardExpression.parse\<close> bounds the text, the node count and the depth.
  \<open>sem\<close> is the reference semantics, without errors and without an order of evaluation.
\<close>

section \<open>Syntax trees\<close>

datatype unary_op = Not | UAdd | USub | Invert
datatype bool_op = And | Or
datatype cmp_op = Eq | NotEq | Lt | LtE | Gt | GtE | OtherCmp string

text \<open>
  The nodes of the \<open>ast\<close> module that the code inspects.  \<open>OtherNode\<close> stands for every other class
  of expression with its children; operators and contexts are nodes of their own in Python and
  appear among the children as \<open>Token\<close>.
\<close>

datatype ast =
    Expression ast
  | Name string
  | Constant pyval
  | BoolOp bool_op "ast list"
  | UnaryOp unary_op ast
  | Compare ast "cmp_op list" "ast list"
  | Call "ast list"
  | Attribute ast
  | Token string
  | OtherNode string "ast list"

text \<open>\<open>ast.iter_child_nodes\<close>\<close>

fun children :: "ast \<Rightarrow> ast list" where
  "children (Expression b) = [b]"
| "children (Name _) = [Token ''Load'']"
| "children (Constant _) = []"
| "children (BoolOp _ vs) = Token ''op'' # vs"
| "children (UnaryOp _ e) = [Token ''op'', e]"
| "children (Compare l ops cs) = l # map (\<lambda>_. Token ''op'') ops @ cs"
| "children (Call parts) = parts"
| "children (Attribute e) = [e, Token ''Load'']"
| "children (Token _) = []"
| "children (OtherNode _ cs) = cs"

text \<open>\<open>len(tuple(ast.walk(parsed)))\<close>\<close>

fun nodes :: "ast \<Rightarrow> nat" where
  "nodes (Expression b) = Suc (nodes b)"
| "nodes (Name _) = 2"
| "nodes (Constant _) = 1"
| "nodes (BoolOp _ vs) = 2 + sum_list (map nodes vs)"
| "nodes (UnaryOp _ e) = 2 + nodes e"
| "nodes (Compare l ops cs) = 1 + nodes l + length ops + sum_list (map nodes cs)"
| "nodes (Call parts) = 1 + sum_list (map nodes parts)"
| "nodes (Attribute e) = 2 + nodes e"
| "nodes (Token _) = 1"
| "nodes (OtherNode _ cs) = 1 + sum_list (map nodes cs)"

fun depth :: "ast \<Rightarrow> nat" where
  "depth (Expression b) = Suc (depth b)"
| "depth (Name _) = 2"
| "depth (Constant _) = 1"
| "depth (BoolOp _ vs) = Suc (foldr max (map depth vs) 1)"
| "depth (UnaryOp _ e) = Suc (max 1 (depth e))"
| "depth (Compare l ops cs) = Suc (foldr max (map depth cs) (max (depth l) (if ops = [] then 0 else 1)))"
| "depth (Call parts) = Suc (foldr max (map depth parts) 0)"
| "depth (Attribute e) = Suc (max 1 (depth e))"
| "depth (Token _) = 1"
| "depth (OtherNode _ cs) = Suc (foldr max (map depth cs) 0)"

lemma sum_list_tokens: "sum_list (map (\<lambda>_. Suc 0) xs) = length xs"
  by (induction xs) auto

lemma nodes_children: "nodes n = Suc (sum_list (map nodes (children n)))"
  by (cases n) (auto simp: o_def sum_list_tokens)

lemma nodes_pos: "0 < nodes n"
  by (cases n) auto

lemma foldr_max_le: "foldr max xs a \<le> (m::nat) \<longleftrightarrow> a \<le> m \<and> (\<forall>x \<in> set xs. x \<le> m)"
  by (induction xs) auto

lemma depth_le_iff: "depth n \<le> m \<longleftrightarrow> 1 \<le> m \<and> (\<forall>c \<in> set (children n). depth c \<le> m - 1)"
proof (cases m)
  case 0
  then show ?thesis by (cases n) auto
next
  case (Suc k)
  then show ?thesis by (cases n) (auto simp: foldr_max_le neq_Nil_conv)
qed

section \<open>Bounds on the tree\<close>

definition MAX_GUARD_CHARACTERS :: nat where "MAX_GUARD_CHARACTERS = 512"
definition MAX_GUARD_NODES :: nat where "MAX_GUARD_NODES = 128"
definition MAX_GUARD_DEPTH :: nat where "MAX_GUARD_DEPTH = 32"

definition ALLOWED_SIGNALS :: "string list" where
  "ALLOWED_SIGNALS = [''t'', ''v_x'', ''v_target'', ''z_root'', ''torso_up'', ''x_travelled'', ''dwell'']"

text \<open>The loop that pops a node with its depth and pushes its children; \<open>True\<close> when it raises.\<close>

function too_deep :: "(ast \<times> nat) list \<Rightarrow> bool" where
  "too_deep [] = False"
| "too_deep ((node, d) # pending) =
     (if MAX_GUARD_DEPTH < d then True
      else too_deep (rev (map (\<lambda>c. (c, d + 1)) (children node)) @ pending))"
  by pat_completeness auto
termination
proof (relation "measure (\<lambda>p. sum_list (map (nodes \<circ> fst) p))")
  fix node and d :: nat and pending :: "(ast \<times> nat) list"
  have "sum_list (map (nodes \<circ> fst) (rev (map (\<lambda>c. (c, d + 1)) (children node)))) = sum_list (map nodes (children node))"
    by (simp add: rev_map[symmetric] o_def sum_list_rev)
  then show "(rev (map (\<lambda>c. (c, d + 1)) (children node)) @ pending, (node, d) # pending)
      \<in> measure (\<lambda>p. sum_list (map (nodes \<circ> fst) p))"
    using nodes_children[of node] by simp
qed simp

declare too_deep.simps [simp del]

lemma too_deep_iff: "\<not> too_deep pending \<longleftrightarrow> (\<forall>(n, d) \<in> set pending. d + depth n \<le> Suc MAX_GUARD_DEPTH)"
proof (induction pending rule: too_deep.induct)
  case 1
  show ?case by (simp add: too_deep.simps)
next
  case (2 node d pending)
  show ?case
  proof (cases "MAX_GUARD_DEPTH < d")
    case True
    moreover have "1 \<le> depth node" by (cases node) auto
    ultimately show ?thesis by (auto simp: too_deep.simps)
  next
    case False
    then have "\<not> too_deep ((node, d) # pending) \<longleftrightarrow>
        (\<forall>c \<in> set (children node). d + 1 + depth c \<le> Suc MAX_GUARD_DEPTH) \<and>
        (\<forall>(n, d) \<in> set pending. d + depth n \<le> Suc MAX_GUARD_DEPTH)"
      using 2 by (auto simp: too_deep.simps ball_Un)
    moreover have "(\<forall>c \<in> set (children node). d + 1 + depth c \<le> Suc MAX_GUARD_DEPTH) \<longleftrightarrow>
        d + depth node \<le> Suc MAX_GUARD_DEPTH"
      using False depth_le_iff[of node "Suc MAX_GUARD_DEPTH - d"] by auto
    ultimately show ?thesis by simp
  qed
qed

section \<open>Admission of a tree\<close>

datatype guard_error =
    GuardNotText | GuardSyntax | GuardTooManyNodes | GuardTooDeep
  | UnknownSignal string | ConstantNotNumeric | ConstantNotFinite
  | BoolOpArity | SignedNotNumeric | ComparisonMalformed | ComparisonForbidden
  | CallForbidden | AttributeForbidden | SyntaxForbidden
  | SignalSetDiffers | SignalNotNumber string | SignalNotFiniteNumber string
  | GuardKeyError string | GuardOverflow | GuardAssertion | ZipLengths

text \<open>\<open>_finite_number\<close>: \<open>type(value) in {int, float}\<close>, and \<open>OverflowError\<close> is caught.\<close>

definition finite_value :: "'e \<Rightarrow> 'e \<Rightarrow> pyval \<Rightarrow> 'e + f64" where
  "finite_value not_numeric not_finite v = (case read_number v of
       NotNumeric \<Rightarrow> Inl not_numeric
     | Overflow \<Rightarrow> Inl not_finite
     | Number f \<Rightarrow> if is_finite f then Inr f else Inl not_finite)"

lemma finite_value_InrD: "finite_value a b v = Inr f \<Longrightarrow> is_finite f \<and> read_number v = Number f"
  by (auto simp: finite_value_def split: num_read.splits if_splits)

fun negate_value :: "pyval \<Rightarrow> pyval" where
  "negate_value (PInt n) = PInt (- n)"
| "negate_value (PFloat f) = PFloat (f64_neg f)"
| "negate_value v = v"

fun is_constant :: "ast \<Rightarrow> bool" where
  "is_constant (Constant _) = True"
| "is_constant _ = False"

fun cmp_allowed :: "cmp_op \<Rightarrow> bool" where
  "cmp_allowed (OtherCmp _) = False"
| "cmp_allowed _ = True"

fun validate_node :: "ast \<Rightarrow> guard_error + unit" where
  "validate_node (Expression b) = validate_node b"
| "validate_node (Name s) = (if s \<notin> set ALLOWED_SIGNALS then Inl (UnknownSignal s) else Inr ())"
| "validate_node (Constant v) = bindE (finite_value ConstantNotNumeric ConstantNotFinite v) (\<lambda>_. Inr ())"
| "validate_node (BoolOp op vs) =
     (if length vs < 2 then Inl BoolOpArity else bindE (mapE validate_node vs) (\<lambda>_. Inr ()))"
| "validate_node (UnaryOp op e) =
     (if op = Not then validate_node e
      else if op \<in> {UAdd, USub} \<and> is_constant e then
        bindE (validate_node e) (\<lambda>_. case e of
          Constant v \<Rightarrow> if read_number v = NotNumeric then Inl SignedNotNumeric
            else bindE (finite_value ConstantNotNumeric ConstantNotFinite (if op = UAdd then v else negate_value v)) (\<lambda>_. Inr ())
        | _ \<Rightarrow> Inl SyntaxForbidden)
      else Inl SyntaxForbidden)"
| "validate_node (Compare l ops cs) =
     (if ops = [] \<or> length ops \<noteq> length cs then Inl ComparisonMalformed
      else if \<not> list_all cmp_allowed ops then Inl ComparisonForbidden
      else bindE (validate_node l) (\<lambda>_. bindE (mapE validate_node cs) (\<lambda>_. Inr ())))"
| "validate_node (Call _) = Inl CallForbidden"
| "validate_node (Attribute _) = Inl AttributeForbidden"
| "validate_node (Token _) = Inl SyntaxForbidden"
| "validate_node (OtherNode _ _) = Inl SyntaxForbidden"

section \<open>Evaluation\<close>

datatype gval = GNum f64 | GBool bool

text \<open>\<open>bool(x)\<close> and \<open>float(x)\<close> of a float or a bool.\<close>

fun truth :: "gval \<Rightarrow> bool" where
  "truth (GNum f) = (\<not> f64_eq f (Fin 0))"
| "truth (GBool b) = b"

fun as_float :: "gval \<Rightarrow> f64" where
  "as_float (GNum f) = f"
| "as_float (GBool b) = Fin (if b then 1 else 0)"

fun compare_floats :: "cmp_op \<Rightarrow> f64 \<Rightarrow> f64 \<Rightarrow> bool" where
  "compare_floats Eq a b = f64_eq a b"
| "compare_floats NotEq a b = (\<not> f64_eq a b)"
| "compare_floats Lt a b = f64_lt a b"
| "compare_floats LtE a b = f64_le a b"
| "compare_floats Gt a b = f64_lt b a"
| "compare_floats GtE a b = f64_le b a"
| "compare_floats (OtherCmp _) a b = f64_le b a"

text \<open>\<open>float(node.value)\<close> of a constant; a constant without a float value raises \<open>TypeError\<close> or
  \<open>ValueError\<close>, which an admitted tree never reaches.\<close>

fun constant_float :: "pyval \<Rightarrow> guard_error + f64" where
  "constant_float (PBool b) = Inr (Fin (if b then 1 else 0))"
| "constant_float v = (case read_number v of NotNumeric \<Rightarrow> Inl ConstantNotNumeric
     | Overflow \<Rightarrow> Inl GuardOverflow | Number f \<Rightarrow> Inr f)"

type_synonym gsignals = "(string \<times> f64) list"

fun eval_node :: "gsignals \<Rightarrow> ast \<Rightarrow> guard_error + gval"
  and eval_all :: "gsignals \<Rightarrow> ast list \<Rightarrow> guard_error + bool"
  and eval_any :: "gsignals \<Rightarrow> ast list \<Rightarrow> guard_error + bool"
  and eval_chain :: "gsignals \<Rightarrow> f64 \<Rightarrow> cmp_op list \<Rightarrow> ast list \<Rightarrow> guard_error + bool" where
  "eval_node s (Expression b) = eval_node s b"
| "eval_node s (Name n) = (case map_of s n of None \<Rightarrow> Inl (GuardKeyError n) | Some f \<Rightarrow> Inr (GNum f))"
| "eval_node s (Constant v) = bindE (constant_float v) (\<lambda>f. Inr (GNum f))"
| "eval_node s (UnaryOp op e) = bindE (eval_node s e) (\<lambda>x.
     case op of Not \<Rightarrow> Inr (GBool (\<not> truth x))
     | UAdd \<Rightarrow> Inr (GNum (as_float x))
     | USub \<Rightarrow> Inr (GNum (f64_neg (as_float x)))
     | Invert \<Rightarrow> Inl GuardAssertion)"
| "eval_node s (BoolOp op vs) = bindE (case op of And \<Rightarrow> eval_all s vs | Or \<Rightarrow> eval_any s vs) (\<lambda>b. Inr (GBool b))"
| "eval_node s (Compare l ops cs) = bindE (eval_node s l) (\<lambda>x.
     bindE (eval_chain s (as_float x) ops cs) (\<lambda>b. Inr (GBool b)))"
| "eval_node s (Call _) = Inl GuardAssertion"
| "eval_node s (Attribute _) = Inl GuardAssertion"
| "eval_node s (Token _) = Inl GuardAssertion"
| "eval_node s (OtherNode _ _) = Inl GuardAssertion"
| "eval_all s [] = Inr True"
| "eval_all s (v # vs) = bindE (eval_node s v) (\<lambda>x. if truth x then eval_all s vs else Inr False)"
| "eval_any s [] = Inr False"
| "eval_any s (v # vs) = bindE (eval_node s v) (\<lambda>x. if truth x then Inr True else eval_any s vs)"
| "eval_chain s left [] [] = Inr True"
| "eval_chain s left (op # ops) (c # cs) = bindE (eval_node s c) (\<lambda>x.
     if compare_floats op left (as_float x) then eval_chain s (as_float x) ops cs else Inr False)"
| "eval_chain s left _ _ = Inl ZipLengths"

section \<open>Guard expressions\<close>

record guard_expr =
  ge_source :: string
  ge_tree :: ast

definition parse_guard :: "(string \<Rightarrow> ast option) \<Rightarrow> pyval \<Rightarrow> guard_error + guard_expr" where
  "parse_guard parser source = (case source of
       PStr text \<Rightarrow>
         if strip text = [] \<or> MAX_GUARD_CHARACTERS < length text then Inl GuardNotText
         else (case parser text of None \<Rightarrow> Inl GuardSyntax
         | Some parsed \<Rightarrow>
             if MAX_GUARD_NODES < nodes parsed then Inl GuardTooManyNodes
             else if too_deep [(parsed, 1)] then Inl GuardTooDeep
             else bindE (validate_node parsed) (\<lambda>_. Inr \<lparr>ge_source = text, ge_tree = parsed\<rparr>))
     | _ \<Rightarrow> Inl GuardNotText)"

definition evaluate_prevalidated :: "guard_expr \<Rightarrow> gsignals \<Rightarrow> guard_error + bool" where
  "evaluate_prevalidated g signals = bindE (eval_node signals (ge_tree g)) (\<lambda>x. Inr (truth x))"

text \<open>\<open>evaluate\<close> on a dictionary of dynamic values: its keys must be exactly the allowed signals.\<close>

definition check_signals :: "(string \<times> pyval) list \<Rightarrow> guard_error + gsignals" where
  "check_signals signals = mapE (\<lambda>name. bindE (case dict_get signals name of
       None \<Rightarrow> Inl (GuardKeyError name)
     | Some v \<Rightarrow> finite_value (SignalNotNumber name) (SignalNotFiniteNumber name) v) (\<lambda>f. Inr (name, f)))
     (sort ALLOWED_SIGNALS)"

definition evaluate_expr :: "guard_expr \<Rightarrow> (string \<times> pyval) list \<Rightarrow> guard_error + bool" where
  "evaluate_expr g signals =
     (if \<not> keys_are ALLOWED_SIGNALS signals then Inl SignalSetDiffers
      else bindE (check_signals signals) (evaluate_prevalidated g))"

section \<open>The admitted sublanguage\<close>

definition finite_constant :: "pyval \<Rightarrow> bool" where
  "finite_constant v = (case read_number v of Number f \<Rightarrow> is_finite f | _ \<Rightarrow> False)"

fun admitted :: "ast \<Rightarrow> bool" where
  "admitted (Expression b) = admitted b"
| "admitted (Name s) = (s \<in> set ALLOWED_SIGNALS)"
| "admitted (Constant v) = finite_constant v"
| "admitted (BoolOp _ vs) = (2 \<le> length vs \<and> list_all admitted vs)"
| "admitted (UnaryOp Not e) = admitted e"
| "admitted (UnaryOp UAdd (Constant v)) = finite_constant v"
| "admitted (UnaryOp USub (Constant v)) = finite_constant v"
| "admitted (Compare l ops cs) =
     (ops \<noteq> [] \<and> length ops = length cs \<and> list_all cmp_allowed ops \<and> admitted l \<and> list_all admitted cs)"
| "admitted _ = False"

lemma finite_value_iff: "(\<exists>f. finite_value a b v = Inr f) \<longleftrightarrow> finite_constant v"
  by (auto simp: finite_value_def finite_constant_def split: num_read.splits)

lemma f64_round_uminus_finite: "is_finite (f64_round (- x)) \<longleftrightarrow> is_finite (f64_round x)"
proof -
  have "(0::rat) < pow2 1024" by simp
  then show ?thesis by (auto simp: f64_round_def Let_def round_rat_uminus)
qed

lemma finite_constant_negate: "read_number v \<noteq> NotNumeric \<Longrightarrow> finite_constant (negate_value v) = finite_constant v"
proof (cases v)
  case (PInt n)
  then show ?thesis
    using f64_round_uminus_finite[of "of_int n"]
    by (auto simp: finite_constant_def float_of_int_def Let_def)
next
  case (PFloat f)
  then show ?thesis by (cases f) (auto simp: finite_constant_def)
qed (auto simp: finite_constant_def)

lemma mapE_unit: "bindE (mapE f xs) (\<lambda>_. Inr ()) = Inr () \<longleftrightarrow> (\<forall>x \<in> set xs. f x = Inr ())"
  by (induction xs) auto

lemma validate_node_iff: "validate_node n = Inr () \<longleftrightarrow> admitted n"
proof (induction n rule: validate_node.induct)
  case (3 v)
  show ?case using finite_value_iff[of ConstantNotNumeric ConstantNotFinite v] by auto
next
  case (4 op vs)
  then show ?case by (auto simp: mapE_unit list_all_iff not_less simp del: bindE_eq_Inr)
next
  case (5 op e)
  show ?case
  proof (cases op)
    case Not
    then show ?thesis using 5 by simp
  next
    case UAdd
    show ?thesis
    proof (cases e)
      case (Constant v)
      then show ?thesis
        using UAdd finite_value_iff[of ConstantNotNumeric ConstantNotFinite v]
        by (auto simp: finite_constant_def)
    qed (use UAdd in simp_all)
  next
    case USub
    show ?thesis
    proof (cases e)
      case (Constant v)
      then show ?thesis
        using USub finite_value_iff[of ConstantNotNumeric ConstantNotFinite v]
          finite_value_iff[of ConstantNotNumeric ConstantNotFinite "negate_value v"] finite_constant_negate[of v]
        by (cases "read_number v = NotNumeric") (auto simp: finite_constant_def)
    qed (use USub in simp_all)
  qed simp
next
  case (6 l ops cs)
  then show ?case by (auto simp: mapE_unit list_all_iff simp del: bindE_eq_Inr simp add: bindE_eq_Inr[of "validate_node l"])
qed auto

section \<open>The reference semantics\<close>

fun sem :: "(string \<Rightarrow> f64) \<Rightarrow> ast \<Rightarrow> gval" where
  "sem env (Expression b) = sem env b"
| "sem env (Name n) = GNum (env n)"
| "sem env (Constant v) = GNum (case read_number v of Number f \<Rightarrow> f | _ \<Rightarrow> NaN)"
| "sem env (UnaryOp op e) = (case op of
       Not \<Rightarrow> GBool (\<not> truth (sem env e))
     | USub \<Rightarrow> GNum (f64_neg (as_float (sem env e)))
     | _ \<Rightarrow> GNum (as_float (sem env e)))"
| "sem env (BoolOp op vs) = GBool (case op of
       And \<Rightarrow> list_all (\<lambda>v. truth (sem env v)) vs | Or \<Rightarrow> list_ex (\<lambda>v. truth (sem env v)) vs)"
| "sem env (Compare l ops cs) =
     (let xs = map (\<lambda>c. as_float (sem env c)) cs in
      GBool (list_all (\<lambda>(op, a, b). compare_floats op a b) (zip ops (zip (as_float (sem env l) # xs) xs))))"
| "sem env _ = GBool False"

text \<open>Evaluation of an admitted tree on a complete environment never fails and agrees with it.\<close>

lemma eval_sem:
  assumes "\<And>n. n \<in> set ALLOWED_SIGNALS \<Longrightarrow> map_of s n = Some (env n)"
  shows "admitted n \<Longrightarrow> eval_node s n = Inr (sem env n)"
    and "\<forall>v \<in> set vs. admitted v \<Longrightarrow> eval_all s vs = Inr (list_all (\<lambda>v. truth (sem env v)) vs)"
    and "\<forall>v \<in> set vs. admitted v \<Longrightarrow> eval_any s vs = Inr (list_ex (\<lambda>v. truth (sem env v)) vs)"
    and "\<forall>v \<in> set vs. admitted v \<Longrightarrow> length ops = length vs \<Longrightarrow> eval_chain s left ops vs =
      Inr (list_all (\<lambda>(op, a, b). compare_floats op a b)
        (zip ops (zip (left # map (\<lambda>c. as_float (sem env c)) vs) (map (\<lambda>c. as_float (sem env c)) vs))))"
  using assms
proof (induction s n and s vs and s vs and s left ops vs rule: eval_node_eval_all_eval_any_eval_chain.induct)
  case (3 s v)
  then show ?case by (cases v) (auto simp: finite_constant_def split: num_read.splits)
next
  case (4 s op e)
  then show ?case by (cases op; cases e) (auto simp: finite_constant_def split: num_read.splits)
next
  case (5 s op vs)
  then show ?case by (cases op) (auto simp: list_all_iff)
next
  case (6 s l ops cs)
  then show ?case by (auto simp: list_all_iff Let_def)
qed (auto split: if_splits)

lemma check_signals_ok:
  assumes "keys_are ALLOWED_SIGNALS signals" "\<forall>(n, v) \<in> set signals. finite_constant v"
  obtains s where "check_signals signals = Inr s"
    "\<And>n. n \<in> set ALLOWED_SIGNALS \<Longrightarrow> \<exists>v f. dict_get signals n = Some v \<and> read_number v = Number f \<and> map_of s n = Some f"
proof -
  let ?f = "\<lambda>name. bindE (case dict_get signals name of None \<Rightarrow> Inl (GuardKeyError name)
     | Some v \<Rightarrow> finite_value (SignalNotNumber name) (SignalNotFiniteNumber name) v) (\<lambda>f. Inr (name, f))"
  have f: "\<exists>v x. dict_get signals n = Some v \<and> read_number v = Number x \<and> ?f n = Inr (n, x)"
    if "n \<in> set ALLOWED_SIGNALS" for n
  proof -
    have "\<exists>v. dict_get signals n = Some v" using assms(1) that by (rule dict_get_keys_are)
    then obtain v where v: "dict_get signals n = Some v" by blast
    then have "finite_constant v" using assms(2) dict_get_in by fastforce
    then show ?thesis using v by (auto simp: finite_constant_def finite_value_def split: num_read.splits)
  qed
  have "\<exists>s. mapE ?f (sort ALLOWED_SIGNALS) = Inr s"
  proof (rule mapE_total)
    fix n assume "n \<in> set (sort ALLOWED_SIGNALS)"
    then have "n \<in> set ALLOWED_SIGNALS" by simp
    from f[OF this] show "\<exists>y. ?f n = Inr y" by blast
  qed
  then obtain s where s: "mapE ?f (sort ALLOWED_SIGNALS) = Inr s" by blast
  have "\<exists>v x. dict_get signals n = Some v \<and> read_number v = Number x \<and> map_of s n = Some x"
    if "n \<in> set ALLOWED_SIGNALS" for n
  proof -
    from f[OF that] obtain v x where v: "dict_get signals n = Some v" "read_number v = Number x" "?f n = Inr (n, x)" by blast
    have m: "mapE ?f ns = Inr s \<Longrightarrow> n \<in> set ns \<Longrightarrow> map_of s n = Some x" for ns s
      using v(3) by (induction ns arbitrary: s) auto
    show ?thesis using v m[OF s] that by auto
  qed
  then show thesis using s that by (auto simp: check_signals_def)
qed

text \<open>The value of each allowed signal in a dictionary.\<close>

definition signal_env :: "(string \<times> pyval) list \<Rightarrow> string \<Rightarrow> f64" where
  "signal_env signals n = (case dict_get signals n of
       Some v \<Rightarrow> (case read_number v of Number f \<Rightarrow> f | _ \<Rightarrow> NaN) | None \<Rightarrow> NaN)"

lemma evaluate_expr_sem:
  assumes "admitted (ge_tree g)" "keys_are ALLOWED_SIGNALS signals" "\<forall>(n, v) \<in> set signals. finite_constant v"
  shows "evaluate_expr g signals = Inr (truth (sem (signal_env signals) (ge_tree g)))"
proof -
  obtain s where s: "check_signals signals = Inr s"
    "\<And>n. n \<in> set ALLOWED_SIGNALS \<Longrightarrow> \<exists>v f. dict_get signals n = Some v \<and> read_number v = Number f \<and> map_of s n = Some f"
    using check_signals_ok[OF assms(2,3)] by blast
  have "map_of s n = Some (signal_env signals n)" if "n \<in> set ALLOWED_SIGNALS" for n
    using s(2)[OF that] by (auto simp: signal_env_def)
  from eval_sem(1)[OF this assms(1)] show ?thesis
    using assms(2) s(1) by (simp add: evaluate_expr_def evaluate_prevalidated_def)
qed

lemma parse_guard_iff:
  "parse_guard parser (PStr text) = Inr g \<longleftrightarrow> strip text \<noteq> [] \<and> length text \<le> MAX_GUARD_CHARACTERS \<and>
     (\<exists>tree. parser text = Some tree \<and> nodes tree \<le> MAX_GUARD_NODES \<and> depth tree \<le> MAX_GUARD_DEPTH \<and>
       admitted tree \<and> g = \<lparr>ge_source = text, ge_tree = tree\<rparr>)"
proof -
  have v: "bindE (validate_node t) (\<lambda>_. Inr x) = Inr g \<longleftrightarrow> admitted t \<and> g = x" for t and x :: guard_expr
    by (auto simp: validate_node_iff[symmetric])
  have d: "too_deep [(t, Suc 0)] \<longleftrightarrow> \<not> depth t \<le> MAX_GUARD_DEPTH" for t
    using too_deep_iff[of "[(t, 1)]"] by auto
  show ?thesis
    by (auto simp: parse_guard_def v d not_less simp del: bindE_eq_Inr split: option.splits)
qed

section \<open>Properties\<close>

text \<open>
  \<open>GuardExpression.parse\<close> accepts exactly the bounded admitted guards: non-blank text of at
  most 512 characters whose tree has at most 128 nodes and depth at most 32 and lies in the
  admitted sublanguage (allowed signals, finite constants and their signs, \<open>and\<close>, \<open>or\<close>,
  \<open>not\<close>, the six comparisons); the explicit stack of the depth check computes the depth.
\<close>

lemma guard_parse_accepts_iff:
  "parse_guard parser (PStr text) = Inr g \<longleftrightarrow> strip text \<noteq> [] \<and> length text \<le> 512 \<and>
     (\<exists>tree. parser text = Some tree \<and> nodes tree \<le> 128 \<and> depth tree \<le> 32 \<and>
       admitted tree \<and> g = \<lparr>ge_source = text, ge_tree = tree\<rparr>)"
  unfolding parse_guard_iff by (simp add: MAX_GUARD_CHARACTERS_def MAX_GUARD_NODES_def MAX_GUARD_DEPTH_def)

text \<open>
  C6. A parsed guard evaluates on every complete set of finite signals without any error, and its
  value is the one of the order-free semantics: connectives and comparison chains mean the
  conjunction of their parts although the code stops at the first part that decides.
\<close>

theorem guard_evaluation_total:
  assumes "parse_guard parser source = Inr g" "keys_are ALLOWED_SIGNALS signals"
    and "\<forall>(n, v) \<in> set signals. finite_constant v"
  shows "evaluate_expr g signals = Inr (truth (sem (signal_env signals) (ge_tree g)))"
proof -
  from assms(1) have "admitted (ge_tree g)"
    by (cases source) (auto simp: parse_guard_iff parse_guard_def[of _ "PNone"] parse_guard_def[of _ "PBool _"]
        parse_guard_def[of _ "PInt _"] parse_guard_def[of _ "PFloat _"] parse_guard_def[of _ "PList _"]
        parse_guard_def[of _ "PTuple _"] parse_guard_def[of _ "PDict _"])
  then show ?thesis using assms(2,3) by (rule evaluate_expr_sem)
qed

text \<open>An example: \<open>0 < v_x <= 2 and not t >= 5\<close>.\<close>

definition demo_tree :: ast where
  "demo_tree = Expression (BoolOp And [
     Compare (Constant (PInt 0)) [Lt, LtE] [Name ''v_x'', Constant (PInt 2)],
     UnaryOp Not (Compare (Name ''t'') [GtE] [Constant (PFloat (Fin 5))])])"

definition demo_text :: string where
  "demo_text = ''0 < v_x <= 2 and not t >= 5''"

definition demo_parser :: "string \<Rightarrow> ast option" where
  "demo_parser text = (if text = demo_text then Some demo_tree else None)"

definition demo_signal_dict :: "(string \<times> pyval) list" where
  "demo_signal_dict = [(''t'', PFloat (Fin 4)), (''v_x'', PFloat (Fin (3 / 2))), (''v_target'', PInt 0), (''z_root'', PInt 1),
     (''torso_up'', PInt 1), (''x_travelled'', PInt 0), (''dwell'', PInt 3)]"

lemma demo_guard_parses: "parse_guard demo_parser (PStr demo_text) = Inr \<lparr>ge_source = demo_text, ge_tree = demo_tree\<rparr>"
  by code_simp

theorem guard_evaluation_total_witness:
  "evaluate_expr \<lparr>ge_source = demo_text, ge_tree = demo_tree\<rparr> demo_signal_dict = Inr True"
proof -
  have k: "keys_are ALLOWED_SIGNALS demo_signal_dict" "\<forall>(n, v) \<in> set demo_signal_dict. finite_constant v"
    unfolding keys_are_def by code_simp+
  have "truth (sem (signal_env demo_signal_dict) demo_tree)" by code_simp
  then show ?thesis using guard_evaluation_total[OF demo_guard_parses k] by simp
qed

end
