(* ===== verification/TaskTerm.thy ===== *)
theory TaskTerm
  imports GuardLang
begin

text \<open>
  The task-term source language of \<^verbatim>\<open>src/oracle_composition/rewards/static_validation.py\<close>: the
  Python syntax trees the validator inspects, \<open>_FunctionValidator\<close>, the literal metadata of a
  module and \<open>parse_and_validate_task_term_source\<close>.  \<open>ast.parse\<close> is a parameter.  The last section
  states the admitted language as a predicate (\<open>term_ok\<close>) and proves that the validator
  decides it.
\<close>

section \<open>Syntax trees\<close>

datatype bin_op = Add | Sub | Mult | Div | FloorDiv | Mod | Pow | OtherBin string

text \<open>
  Expressions, one constructor for every class of node the code tests for.  A constant that is
  neither None, a boolean, a number nor text is \<open>EOtherConst\<close> with its class (bytes, complex,
  ellipsis); \<open>ECall\<close> has the positional arguments and the values of the keywords; a class of node
  that no branch names is \<open>EOther\<close> with its number of nodes.
\<close>

datatype expr =
    EConst pyval
  | EOtherConst string
  | EName string
  | EAttr expr string
  | EBin bin_op expr expr
  | EUn unary_op expr
  | EBool bool_op "expr list"
  | ECmp expr "cmp_op list" "expr list"
  | EIf expr expr expr
  | ECall expr "expr list" "expr list"
  | EStarred expr
  | ETuple "expr list"
  | EList "expr list"
  | ESet "expr list"
  | EDict "(expr \<times> expr) list"
  | EOther string nat

record signature =
  sg_name :: string
  sg_args :: "(string \<times> expr option) list"
  sg_posonly :: "(string \<times> expr option) list"
  sg_kwonly :: "(string \<times> expr option) list"
  sg_vararg :: "(string \<times> expr option) option"
  sg_kwarg :: "(string \<times> expr option) option"
  sg_defaults :: "expr list"
  sg_kw_defaults :: "expr option list"
  sg_decorators :: "expr list"
  sg_returns :: "expr option"
  sg_type_params :: "nat list"

datatype stmt =
    SAssign "expr list" expr
  | SReturn "expr option"
  | SIf expr "stmt list" "stmt list"
  | SFunctionDef signature "stmt list"
  | SOther string nat

text \<open>
  \<open>sum(1 for _node in ast.walk(module))\<close>.  Operators and contexts are nodes of their own, and so
  are the argument list of a function, each argument and each keyword.
\<close>

fun expr_nodes :: "expr \<Rightarrow> nat" where
  "expr_nodes (EConst _) = 1"
| "expr_nodes (EOtherConst _) = 1"
| "expr_nodes (EName _) = 2"
| "expr_nodes (EAttr e _) = 2 + expr_nodes e"
| "expr_nodes (EBin _ l r) = 2 + expr_nodes l + expr_nodes r"
| "expr_nodes (EUn _ e) = 2 + expr_nodes e"
| "expr_nodes (EBool _ es) = 2 + sum_list (map expr_nodes es)"
| "expr_nodes (ECmp l ops cs) = 1 + expr_nodes l + length ops + sum_list (map expr_nodes cs)"
| "expr_nodes (EIf c a b) = 1 + expr_nodes c + expr_nodes a + expr_nodes b"
| "expr_nodes (ECall f args kws) = 1 + expr_nodes f + sum_list (map expr_nodes args)
     + length kws + sum_list (map expr_nodes kws)"
| "expr_nodes (EStarred e) = 2 + expr_nodes e"
| "expr_nodes (ETuple es) = 2 + sum_list (map expr_nodes es)"
| "expr_nodes (EList es) = 2 + sum_list (map expr_nodes es)"
| "expr_nodes (ESet es) = 1 + sum_list (map expr_nodes es)"
| "expr_nodes (EDict kvs) = 1 + sum_list (map (\<lambda>p. expr_nodes (fst p) + expr_nodes (snd p)) kvs)"
| "expr_nodes (EOther _ n) = n"

definition opt_nodes :: "expr option \<Rightarrow> nat" where
  "opt_nodes v = (case v of None \<Rightarrow> 0 | Some e \<Rightarrow> expr_nodes e)"

definition arg_nodes :: "string \<times> expr option \<Rightarrow> nat" where
  "arg_nodes a = 1 + opt_nodes (snd a)"

definition signature_nodes :: "signature \<Rightarrow> nat" where
  "signature_nodes g = 1 + sum_list (map arg_nodes (sg_posonly g @ sg_args g @ sg_kwonly g))
     + (case sg_vararg g of None \<Rightarrow> 0 | Some a \<Rightarrow> arg_nodes a) + (case sg_kwarg g of None \<Rightarrow> 0 | Some a \<Rightarrow> arg_nodes a)
     + sum_list (map expr_nodes (sg_defaults g @ sg_decorators g)) + sum_list (map opt_nodes (sg_kw_defaults g))
     + opt_nodes (sg_returns g) + sum_list (sg_type_params g)"

fun stmt_nodes :: "stmt \<Rightarrow> nat" where
  "stmt_nodes (SAssign ts e) = 1 + sum_list (map expr_nodes ts) + expr_nodes e"
| "stmt_nodes (SReturn v) = 1 + opt_nodes v"
| "stmt_nodes (SIf c b e) = 1 + expr_nodes c + sum_list (map stmt_nodes b) + sum_list (map stmt_nodes e)"
| "stmt_nodes (SFunctionDef g b) = 1 + signature_nodes g + sum_list (map stmt_nodes b)"
| "stmt_nodes (SOther _ n) = n"

definition module_nodes :: "stmt list \<Rightarrow> nat" where
  "module_nodes m = 1 + sum_list (map stmt_nodes m)"

section \<open>Names, literals and constants\<close>

datatype static_error =
    PrivateName string | NotNumericLiteral | IntegerTooLarge | LiteralNotFinite
  | AssignmentTarget | ReservedName string | SignatureDiffers | PathWithoutReturn | EmptyBlock
  | ReturnsNothing | StatementForbidden string | NestingTooDeep | NotSafeFunction string | UnknownName string
  | AttributeBase | SignalForbidden string | ArithmeticForbidden | ExponentRefused
  | ExponentOverflow | UnaryForbidden | BooleanRefused | MalformedComparison | ComparisonRefused
  | DynamicCall | WrongArity string | StarredCall | ExpressionForbidden string
  | MetadataTarget | ModuleStatement | MetadataName string | MetadataValue
  | SourceNotText | SourceNotUtf8 | SourceSize | SourceNotPython | TooManyNodes | NotOneFunction
  | ReceiptSha256 | ReceiptBytes | ReceiptNodes | ReceiptReadSet | ReceiptMetadata | ReceiptStatus | ReceiptKeys
  | ReceiptStale

definition MAX_SOURCE_BYTES :: nat where "MAX_SOURCE_BYTES = 16 * 1024"
definition MAX_AST_NODES :: nat where "MAX_AST_NODES = 512"
definition MAX_CONDITIONAL_DEPTH :: nat where "MAX_CONDITIONAL_DEPTH = 8"

definition CANDIDATE_READ_SET_V1 :: "string list" where
  "CANDIDATE_READ_SET_V1 = [''com_x_velocity_m_s'', ''target_speed_m_s'']"

definition CALL_ARITIES :: "(string \<times> nat) list" where
  "CALL_ARITIES = [(''abs'', 1), (''min'', 2), (''max'', 2), (''exp'', 1), (''sqrt'', 1), (''clip'', 3)]"

definition SAFE_FUNCTION_NAMES :: "string list" where
  "SAFE_FUNCTION_NAMES = map fst CALL_ARITIES"

definition reserved_names :: "string list" where
  "reserved_names = ''x'' # ''task_term'' # SAFE_FUNCTION_NAMES"

text \<open>
  \<open>str.isidentifier\<close>, on code points below 256: the characters that may begin a name (\<open>XID_Start\<close>) are the letters of
  ASCII and of Latin-1, and those that may follow (\<open>XID_Continue\<close>) also digits, the underscore and the middle dot.
\<close>

definition xid_start :: "char \<Rightarrow> bool" where
  "xid_start c \<longleftrightarrow> is_alpha c \<or> (let n = code_of c in n = 170 \<or> n = 181 \<or> n = 186 \<or> 192 \<le> n \<and> n \<noteq> 215 \<and> n \<noteq> 247)"

definition xid_continue :: "char \<Rightarrow> bool" where
  "xid_continue c \<longleftrightarrow> xid_start c \<or> is_digit c \<or> c = CHR ''_'' \<or> code_of c = 183"

definition is_identifier_text :: "string \<Rightarrow> bool" where
  "is_identifier_text s = (case s of [] \<Rightarrow> False
     | c # cs \<Rightarrow> (xid_start c \<or> c = CHR ''_'') \<and> list_all xid_continue cs)"

fun has_dunder :: "string \<Rightarrow> bool" where
  "has_dunder (c # d # s) = (c = CHR ''_'' \<and> d = CHR ''_'' \<or> has_dunder (d # s))"
| "has_dunder _ = False"

definition is_public :: "string \<Rightarrow> bool" where
  "is_public s \<longleftrightarrow> is_identifier_text s \<and> hd s \<noteq> CHR ''_'' \<and> \<not> has_dunder s"

definition public_name :: "string \<Rightarrow> static_error + unit" where
  "public_name s = (if is_public s then Inr () else Inl (PrivateName s))"

definition numeric_literal :: "pyval \<Rightarrow> static_error + unit" where
  "numeric_literal v = (case v of
       PInt n \<Rightarrow> if 2 ^ 128 \<le> \<bar>n\<bar> then Inl IntegerTooLarge else Inr ()
     | PFloat f \<Rightarrow> if is_finite f then Inr () else Inl LiteralNotFinite
     | _ \<Rightarrow> Inl NotNumericLiteral)"

fun f64_abs :: "f64 \<Rightarrow> f64" where
  "f64_abs (Fin a) = Fin \<bar>a\<bar>"
| "f64_abs NegInf = PosInf"
| "f64_abs f = f"

text \<open>
  The exponent of a power: a numeric literal whose magnitude is at most 16.  \<open>float(value)\<close> of an
  integer literal beyond the binary64 range raises \<open>OverflowError\<close>, which nothing catches.
\<close>

definition power_exponent :: "expr \<Rightarrow> static_error + unit" where
  "power_exponent e = (case e of
       EConst (PInt n) \<Rightarrow> (case float_of_int n of None \<Rightarrow> Inl ExponentOverflow
          | Some f \<Rightarrow> if f64_lt (Fin 16) (f64_abs f) then Inl ExponentRefused else Inr ())
     | EConst (PFloat f) \<Rightarrow> if \<not> is_finite f \<or> f64_lt (Fin 16) (f64_abs f) then Inl ExponentRefused else Inr ()
     | _ \<Rightarrow> Inl ExponentRefused)"

section \<open>The function validator\<close>

text \<open>\<open>_collect_assignment_names\<close>\<close>

fun collect_names :: "string list \<Rightarrow> stmt list \<Rightarrow> static_error + string list" where
  "collect_names acc [] = Inr acc"
| "collect_names acc (SAssign targets _ # ss) = (case targets of
       [EName n] \<Rightarrow> bindE (public_name n) (\<lambda>_.
         if n \<in> set reserved_names then Inl (ReservedName n) else collect_names (n # acc) ss)
     | _ \<Rightarrow> Inl AssignmentTarget)"
| "collect_names acc (SIf _ b e # ss) =
     bindE (collect_names acc b) (\<lambda>acc. bindE (collect_names acc e) (\<lambda>acc. collect_names acc ss))"
| "collect_names acc (SReturn _ # ss) = collect_names acc ss"
| "collect_names acc (SFunctionDef _ _ # ss) = collect_names acc ss"
| "collect_names acc (SOther _ _ # ss) = collect_names acc ss"

definition nested_depth :: "nat \<Rightarrow> static_error + nat" where
  "nested_depth d = (if MAX_CONDITIONAL_DEPTH < d + 1 then Inl NestingTooDeep else Inr (d + 1))"

definition comparison_allowed :: "cmp_op \<Rightarrow> bool" where
  "comparison_allowed op = (case op of OtherCmp _ \<Rightarrow> False | _ \<Rightarrow> True)"

text \<open>A direct call name: \<open>_expression(node.func, direct_call_name=True)\<close> and the arity table.\<close>

definition call_name :: "expr \<Rightarrow> static_error + nat" where
  "call_name f = (case f of
       EName n \<Rightarrow> bindE (public_name n) (\<lambda>_. case map_of CALL_ARITIES n of
          None \<Rightarrow> Inl (NotSafeFunction n) | Some k \<Rightarrow> Inr k)
     | _ \<Rightarrow> Inl DynamicCall)"

definition is_starred :: "expr \<Rightarrow> bool" where
  "is_starred e \<longleftrightarrow> (\<exists>x. e = EStarred x)"

lemma is_starred_simps [simp, code]:
  "is_starred (EStarred e) = True" "is_starred (EConst v) = False" "is_starred (EOtherConst k) = False"
  "is_starred (EName n) = False" "is_starred (EAttr e a) = False" "is_starred (EBin b l r) = False"
  "is_starred (EUn u e) = False" "is_starred (EBool o' es) = False" "is_starred (ECmp e ops cs) = False"
  "is_starred (EIf e l r) = False" "is_starred (ECall e es cs) = False" "is_starred (ETuple es) = False"
  "is_starred (EList es) = False" "is_starred (ESet es) = False" "is_starred (EDict kvs) = False" "is_starred (EOther k m) = False"
  by (simp_all add: is_starred_def)

fun check_expr :: "string list \<Rightarrow> nat \<Rightarrow> expr \<Rightarrow> static_error + unit" where
  "check_expr ls d (EConst v) = numeric_literal v"
| "check_expr ls d (EOtherConst _) = Inl NotNumericLiteral"
| "check_expr ls d (EName n) = bindE (public_name n) (\<lambda>_.
     if n = ''x'' \<or> n \<in> set ls then Inr () else Inl (UnknownName n))"
| "check_expr ls d (EAttr e a) = (if e \<noteq> EName ''x'' then Inl AttributeBase
     else bindE (public_name a) (\<lambda>_. if a \<in> set CANDIDATE_READ_SET_V1 then Inr () else Inl (SignalForbidden a)))"
| "check_expr ls d (EBin op l r) =
     (case op of OtherBin _ \<Rightarrow> Inl ArithmeticForbidden
      | _ \<Rightarrow> bindE (if op = Pow then power_exponent r else Inr ()) (\<lambda>_.
          bindE (check_expr ls d l) (\<lambda>_. check_expr ls d r)))"
| "check_expr ls d (EUn op e) = (if op = Invert then Inl UnaryForbidden else check_expr ls d e)"
| "check_expr ls d (EBool op es) = (if length es < 2 then Inl BooleanRefused
     else bindE (mapE (check_expr ls d) es) (\<lambda>_. Inr ()))"
| "check_expr ls d (ECmp l ops cs) =
     (if ops = [] \<or> length ops \<noteq> length cs then Inl MalformedComparison
      else if \<not> list_all comparison_allowed ops then Inl ComparisonRefused
      else bindE (check_expr ls d l) (\<lambda>_. bindE (mapE (check_expr ls d) cs) (\<lambda>_. Inr ())))"
| "check_expr ls d (EIf c a b) = bindE (nested_depth d) (\<lambda>d'.
     bindE (check_expr ls d' c) (\<lambda>_. bindE (check_expr ls d' a) (\<lambda>_. check_expr ls d' b)))"
| "check_expr ls d (ECall f args kws) = bindE (call_name f) (\<lambda>arity.
     if length args \<noteq> arity \<or> kws \<noteq> [] then Inl (WrongArity (case f of EName n \<Rightarrow> n | _ \<Rightarrow> []))
     else bindE (mapE (\<lambda>e. if is_starred e then Inl StarredCall else check_expr ls d e) args) (\<lambda>_. Inr ()))"
| "check_expr ls d (EStarred _) = Inl (ExpressionForbidden ''Starred'')"
| "check_expr ls d (ETuple _) = Inl (ExpressionForbidden ''Tuple'')"
| "check_expr ls d (EList _) = Inl (ExpressionForbidden ''List'')"
| "check_expr ls d (ESet _) = Inl (ExpressionForbidden ''Set'')"
| "check_expr ls d (EDict _) = Inl (ExpressionForbidden ''Dict'')"
| "check_expr ls d (EOther k _) = Inl (ExpressionForbidden k)"

text \<open>The loop of \<open>_statements\<close>; the test for an empty block is at its calls.\<close>

fun check_stmts :: "string list \<Rightarrow> nat \<Rightarrow> stmt list \<Rightarrow> static_error + unit" where
  "check_stmts ls d [] = Inr ()"
| "check_stmts ls d (SAssign _ e # ss) = bindE (check_expr ls d e) (\<lambda>_. check_stmts ls d ss)"
| "check_stmts ls d (SReturn None # ss) = Inl ReturnsNothing"
| "check_stmts ls d (SReturn (Some e) # ss) = bindE (check_expr ls d e) (\<lambda>_. check_stmts ls d ss)"
| "check_stmts ls d (SIf c b e # ss) = bindE (nested_depth d) (\<lambda>d'.
     bindE (check_expr ls d' c) (\<lambda>_.
     bindE (if b = [] then Inl EmptyBlock else check_stmts ls d' b) (\<lambda>_.
     bindE (if e = [] then Inr () else check_stmts ls d' e) (\<lambda>_. check_stmts ls d ss))))"
| "check_stmts ls d (SFunctionDef _ _ # ss) = Inl (StatementForbidden ''FunctionDef'')"
| "check_stmts ls d (SOther k _ # ss) = Inl (StatementForbidden k)"

definition check_block :: "string list \<Rightarrow> nat \<Rightarrow> stmt list \<Rightarrow> static_error + unit" where
  "check_block ls d ss = (if ss = [] then Inl EmptyBlock else check_stmts ls d ss)"

fun block_always_returns :: "stmt list \<Rightarrow> bool" where
  "block_always_returns [] = False"
| "block_always_returns (SReturn _ # ss) = True"
| "block_always_returns (SIf _ b e # ss) =
     (e \<noteq> [] \<and> block_always_returns b \<and> block_always_returns e \<or> block_always_returns ss)"
| "block_always_returns (SAssign _ _ # ss) = block_always_returns ss"
| "block_always_returns (SFunctionDef _ _ # ss) = block_always_returns ss"
| "block_always_returns (SOther _ _ # ss) = block_always_returns ss"

definition signature_ok :: "signature \<Rightarrow> bool" where
  "signature_ok g \<longleftrightarrow> sg_name g = ''task_term'' \<and> sg_args g = [(''x'', None)] \<and> sg_posonly g = [] \<and>
     sg_kwonly g = [] \<and> sg_vararg g = None \<and> sg_kwarg g = None \<and> sg_defaults g = [] \<and> sg_kw_defaults g = [] \<and>
     sg_decorators g = [] \<and> sg_returns g = None \<and> sg_type_params g = []"

text \<open>\<open>_FunctionValidator(function).validate()\<close>; the result is the set of local names.\<close>

definition validate_function :: "signature \<Rightarrow> stmt list \<Rightarrow> static_error + string list" where
  "validate_function g body = bindE (collect_names [] body) (\<lambda>ls.
     if \<not> signature_ok g then Inl SignatureDiffers
     else bindE (check_block ls 0 body) (\<lambda>_.
       if \<not> block_always_returns body then Inl PathWithoutReturn else Inr ls))"

section \<open>The admitted language\<close>

text \<open>
  The same language as a predicate: which trees, with which local names, and how deep the
  conditionals nest, without an order of tests and without errors.
\<close>

definition small_exponent :: "expr \<Rightarrow> bool" where
  "small_exponent e \<longleftrightarrow> (case e of EConst v \<Rightarrow> (case read_number v of
     Number f \<Rightarrow> is_finite f \<and> f64_le (f64_abs f) (Fin 16) | _ \<Rightarrow> False) | _ \<Rightarrow> False)"

definition arithmetic_allowed :: "bin_op \<Rightarrow> bool" where
  "arithmetic_allowed op = (case op of OtherBin _ \<Rightarrow> False | _ \<Rightarrow> True)"

fun admitted_expr :: "string list \<Rightarrow> expr \<Rightarrow> bool" where
  "admitted_expr ls (EConst v) = (numeric_literal v = Inr ())"
| "admitted_expr ls (EName n) = (is_public n \<and> (n = ''x'' \<or> n \<in> set ls))"
| "admitted_expr ls (EAttr e a) = (e = EName ''x'' \<and> a \<in> set CANDIDATE_READ_SET_V1)"
| "admitted_expr ls (EBin op l r) = (arithmetic_allowed op \<and> (op = Pow \<longrightarrow> small_exponent r) \<and>
     admitted_expr ls l \<and> admitted_expr ls r)"
| "admitted_expr ls (EUn op e) = (op \<noteq> Invert \<and> admitted_expr ls e)"
| "admitted_expr ls (EBool op es) = (2 \<le> length es \<and> (\<forall>e \<in> set es. admitted_expr ls e))"
| "admitted_expr ls (ECmp l ops cs) = (ops \<noteq> [] \<and> length ops = length cs \<and> (\<forall>op \<in> set ops. comparison_allowed op) \<and>
     admitted_expr ls l \<and> (\<forall>c \<in> set cs. admitted_expr ls c))"
| "admitted_expr ls (EIf c a b) = (admitted_expr ls c \<and> admitted_expr ls a \<and> admitted_expr ls b)"
| "admitted_expr ls (ECall f args kws) = (kws = [] \<and> (case f of EName n \<Rightarrow> map_of CALL_ARITIES n = Some (length args) | _ \<Rightarrow> False) \<and>
     (\<forall>e \<in> set args. admitted_expr ls e))"
| "admitted_expr ls _ = False"

definition max_of :: "nat list \<Rightarrow> nat" where
  "max_of ns = foldr max ns 0"

fun expr_depth :: "expr \<Rightarrow> nat" where
  "expr_depth (EBin _ l r) = max (expr_depth l) (expr_depth r)"
| "expr_depth (EUn _ e) = expr_depth e"
| "expr_depth (EBool _ es) = max_of (map expr_depth es)"
| "expr_depth (ECmp l _ cs) = max (expr_depth l) (max_of (map expr_depth cs))"
| "expr_depth (EIf c a b) = Suc (max (expr_depth c) (max (expr_depth a) (expr_depth b)))"
| "expr_depth (ECall _ args _) = max_of (map expr_depth args)"
| "expr_depth _ = 0"

fun admitted_stmts :: "string list \<Rightarrow> stmt list \<Rightarrow> bool" where
  "admitted_stmts ls [] = True"
| "admitted_stmts ls (SAssign _ e # ss) = (admitted_expr ls e \<and> admitted_stmts ls ss)"
| "admitted_stmts ls (SReturn None # ss) = False"
| "admitted_stmts ls (SReturn (Some e) # ss) = (admitted_expr ls e \<and> admitted_stmts ls ss)"
| "admitted_stmts ls (SIf c b e # ss) = (admitted_expr ls c \<and> b \<noteq> [] \<and> admitted_stmts ls b \<and>
     admitted_stmts ls e \<and> admitted_stmts ls ss)"
| "admitted_stmts ls (_ # ss) = False"

fun stmts_depth :: "stmt list \<Rightarrow> nat" where
  "stmts_depth [] = 0"
| "stmts_depth (SAssign _ e # ss) = max (expr_depth e) (stmts_depth ss)"
| "stmts_depth (SReturn (Some e) # ss) = max (expr_depth e) (stmts_depth ss)"
| "stmts_depth (SIf c b e # ss) = max (Suc (max (expr_depth c) (max (stmts_depth b) (stmts_depth e)))) (stmts_depth ss)"
| "stmts_depth (_ # ss) = stmts_depth ss"

fun assigned :: "stmt list \<Rightarrow> string list" where
  "assigned [] = []"
| "assigned (SAssign [EName n] _ # ss) = n # assigned ss"
| "assigned (SIf _ b e # ss) = assigned b @ assigned e @ assigned ss"
| "assigned (_ # ss) = assigned ss"

fun targets_ok :: "stmt list \<Rightarrow> bool" where
  "targets_ok [] = True"
| "targets_ok (SAssign ts _ # ss) = ((case ts of [EName n] \<Rightarrow> is_public n \<and> n \<notin> set reserved_names | _ \<Rightarrow> False) \<and> targets_ok ss)"
| "targets_ok (SIf _ b e # ss) = (targets_ok b \<and> targets_ok e \<and> targets_ok ss)"
| "targets_ok (_ # ss) = targets_ok ss"

definition term_ok :: "signature \<Rightarrow> stmt list \<Rightarrow> bool" where
  "term_ok g body \<longleftrightarrow> signature_ok g \<and> body \<noteq> [] \<and> targets_ok body \<and> admitted_stmts (assigned body) body \<and>
     stmts_depth body \<le> MAX_CONDITIONAL_DEPTH \<and> block_always_returns body"

lemma mapE_ex_unit: "(\<exists>us. mapE f xs = Inr us) \<longleftrightarrow> (\<forall>x \<in> set xs. f x = Inr ())"
  by (induction xs) auto

lemma max_of_le: "max_of ns \<le> m \<longleftrightarrow> (\<forall>n \<in> set ns. n \<le> m)"
  by (induction ns) (auto simp: max_of_def)

lemma public_name_Inr [simp]: "public_name s = Inr u \<longleftrightarrow> is_public s"
  by (simp add: public_name_def)

lemma nested_depth_Inr [simp]: "nested_depth d = Inr d' \<longleftrightarrow> d' = Suc d \<and> Suc d \<le> MAX_CONDITIONAL_DEPTH"
  by (auto simp: nested_depth_def)

lemma f64_abs_le_iff: "is_finite f \<Longrightarrow> f64_le (f64_abs f) (Fin a) \<longleftrightarrow> \<not> f64_lt (Fin a) (f64_abs f)"
  by (cases f) auto

lemma power_exponent_iff: "power_exponent e = Inr () \<longleftrightarrow> small_exponent e"
proof (cases e)
  case (EConst v)
  then show ?thesis
    by (cases v) (auto simp: power_exponent_def small_exponent_def f64_abs_le_iff split: option.split dest: float_of_int_SomeD)
qed (auto simp: power_exponent_def small_exponent_def)

lemma signals_public: "a \<in> set CANDIDATE_READ_SET_V1 \<Longrightarrow> is_public a"
  unfolding CANDIDATE_READ_SET_V1_def by (auto; code_simp)

lemma safe_names_public: "map_of CALL_ARITIES n = Some k \<Longrightarrow> is_public n"
proof -
  have "list_all is_public (map fst CALL_ARITIES)" by code_simp
  then show "map_of CALL_ARITIES n = Some k \<Longrightarrow> is_public n"
    by (auto simp: list_all_iff dest!: map_of_SomeD)
qed

lemma call_name_Inr: "call_name f = Inr k \<longleftrightarrow> (\<exists>n. f = EName n \<and> map_of CALL_ARITIES n = Some k)"
  by (cases f) (auto simp: call_name_def safe_names_public split: option.splits)

lemma expr_depth_plus: "d \<le> m \<Longrightarrow> d + max_of ns \<le> m \<longleftrightarrow> (\<forall>n \<in> set ns. d + n \<le> (m::nat))"
proof -
  assume "d \<le> m"
  then have "d + max_of ns \<le> m \<longleftrightarrow> max_of ns \<le> m - d" "\<And>n. d + n \<le> m \<longleftrightarrow> n \<le> m - d" by auto
  then show ?thesis by (simp add: max_of_le)
qed

lemma plus_max_le: "d + max a b \<le> m \<longleftrightarrow> d + a \<le> m \<and> d + b \<le> (m::nat)"
    "Suc (d + max a b) \<le> m \<longleftrightarrow> Suc (d + a) \<le> m \<and> Suc (d + b) \<le> m"
  by auto

lemma check_expr_iff:
  "d \<le> MAX_CONDITIONAL_DEPTH \<Longrightarrow>
    check_expr ls d e = Inr () \<longleftrightarrow> admitted_expr ls e \<and> d + expr_depth e \<le> MAX_CONDITIONAL_DEPTH"
proof (induction ls d e rule: check_expr.induct)
  case (5 ls d op l r)
  then show ?case by (cases op) (auto simp: power_exponent_iff plus_max_le arithmetic_allowed_def)
next
  case (7 ls d op es)
  then show ?case by (auto simp: mapE_ex_unit expr_depth_plus)
next
  case (8 ls d l ops cs)
  show ?case
  proof (cases "ops = [] \<or> length ops \<noteq> length cs \<or> \<not> list_all comparison_allowed ops")
    case True
    then show ?thesis by (auto simp: list_all_iff)
  next
    case False
    then have "\<forall>op \<in> set ops. comparison_allowed op" by (simp add: list_all_iff)
    moreover have l: "check_expr ls d l = Inr () \<longleftrightarrow> admitted_expr ls l \<and> d + expr_depth l \<le> MAX_CONDITIONAL_DEPTH"
      using False 8(1,3) by blast
    moreover have c: "check_expr ls d c = Inr () \<longleftrightarrow> admitted_expr ls c \<and> d + expr_depth c \<le> MAX_CONDITIONAL_DEPTH"
      if "c \<in> set cs" "check_expr ls d l = Inr ()" for c using that False 8(2,3) by blast
    have "check_expr ls d (ECmp l ops cs) = Inr () \<longleftrightarrow> check_expr ls d l = Inr () \<and> (\<forall>c \<in> set cs. check_expr ls d c = Inr ())"
      using False by (simp add: mapE_ex_unit)
    ultimately show ?thesis
      using False 8(3) c by (cases "check_expr ls d l = Inr ()") (auto simp: plus_max_le expr_depth_plus)
  qed
next
  case (9 ls d c a b)
  then show ?case by auto
next
  case (10 ls d f args kws)
  show ?case
  proof (cases "call_name f")
    case (Inl e)
    then show ?thesis using call_name_Inr[of f "length args"] by (cases f) auto
  next
    case (Inr k)
    then obtain n where f: "f = EName n" "map_of CALL_ARITIES n = Some k" by (auto simp: call_name_Inr)
    show ?thesis
    proof (cases "length args = k \<and> kws = []")
      case True
      have "(if is_starred e then Inl StarredCall else check_expr ls d e) = Inr () \<longleftrightarrow>
          admitted_expr ls e \<and> d + expr_depth e \<le> MAX_CONDITIONAL_DEPTH" if "e \<in> set args" for e
        using that 10 Inr True by (cases "is_starred e") (auto simp: is_starred_def)
      then show ?thesis using Inr True f 10(2) by (auto simp: mapE_ex_unit expr_depth_plus)
    qed (use Inr f in auto)
  qed
qed (auto simp: signals_public)

lemma collect_names_eq: "collect_names acc ss = Inr ls \<Longrightarrow> targets_ok ss \<and> ls = rev (assigned ss) @ acc"
proof (induction acc ss arbitrary: ls rule: collect_names.induct)
  case (3 acc c b e ss)
  then obtain l1 l2 where "collect_names acc b = Inr l1" "collect_names l1 e = Inr l2" "collect_names l2 ss = Inr ls" by auto
  with 3 show ?case by fastforce
qed (auto split: list.splits expr.splits if_splits)

lemma collect_names_targets: "targets_ok ss \<Longrightarrow> collect_names acc ss = Inr (rev (assigned ss) @ acc)"
  by (induction acc ss rule: collect_names.induct) (auto split: list.splits expr.splits)

lemma collect_names_Inr: "collect_names acc ss = Inr ls \<longleftrightarrow> targets_ok ss \<and> ls = rev (assigned ss) @ acc"
  using collect_names_eq collect_names_targets by blast

lemma admitted_expr_mono: "admitted_expr ls e \<Longrightarrow> set ls \<subseteq> set ls' \<Longrightarrow> admitted_expr ls' e"
  by (induction ls e rule: admitted_expr.induct) auto

lemma admitted_stmts_mono: "admitted_stmts ls ss \<Longrightarrow> set ls \<subseteq> set ls' \<Longrightarrow> admitted_stmts ls' ss"
  by (induction ls ss rule: admitted_stmts.induct) (auto intro: admitted_expr_mono)

lemma admitted_stmts_set: "set ls = set ls' \<Longrightarrow> admitted_stmts ls ss = admitted_stmts ls' ss"
  using admitted_stmts_mono[of ls ss ls'] admitted_stmts_mono[of ls' ss ls] by auto

lemma check_stmts_iff:
  "d \<le> MAX_CONDITIONAL_DEPTH \<Longrightarrow>
    check_stmts ls d ss = Inr () \<longleftrightarrow> admitted_stmts ls ss \<and> d + stmts_depth ss \<le> MAX_CONDITIONAL_DEPTH"
proof (induction ls d ss rule: check_stmts.induct)
  case (5 ls d c b e ss)
  show ?case
  proof (cases "Suc d \<le> MAX_CONDITIONAL_DEPTH \<and> check_expr ls (Suc d) c = Inr () \<and> b \<noteq> [] \<and> check_stmts ls (Suc d) b = Inr ()")
    case True
    then have n: "nested_depth d = Inr (Suc d)" by simp
    have b: "(if e = [] then Inr () else check_stmts ls (Suc d) e) = check_stmts ls (Suc d) e" by simp
    have e: "check_stmts ls (Suc d) e = Inr () \<longleftrightarrow> admitted_stmts ls e \<and> Suc d + stmts_depth e \<le> MAX_CONDITIONAL_DEPTH"
      using True 5(2)[OF n] by (cases "e = []") (simp_all add: b)
    then have "check_stmts ls d (SIf c b e # ss) = Inr () \<longleftrightarrow> check_stmts ls (Suc d) e = Inr () \<and> check_stmts ls d ss = Inr ()"
      using True by (auto simp: n b)
    then show ?thesis
      using True e 5 by (auto simp: n b check_expr_iff plus_max_le)
  next
    case False
    then show ?thesis using 5(1)[of "Suc d"] by (auto simp: check_expr_iff plus_max_le)
  qed
qed (auto simp: check_expr_iff plus_max_le)

lemma validate_function_iff: "validate_function g body = Inr ls \<longleftrightarrow> term_ok g body \<and> ls = rev (assigned body)"
  using admitted_stmts_set[of "rev (assigned body)" "assigned body" body]
  by (auto simp: validate_function_def collect_names_Inr check_block_def check_stmts_iff term_ok_def)

end
