(* ===== verification/TaskTermSource.thy ===== *)
theory TaskTermSource
  imports TaskTerm
begin

text \<open>
  The rest of \<^verbatim>\<open>src/oracle_composition/rewards/static_validation.py\<close>: literal metadata, the bytes
  of a source, \<open>parse_and_validate_task_term_source\<close>, the acceptance receipt and the accepted
  source.  Bytes are \<open>string\<close> (one \<open>char\<close> per byte), text is the list of its code points, and
  \<open>ast.parse\<close> and SHA-256 are parameters.
\<close>

section \<open>UTF-8\<close>

text \<open>\<open>str.encode("utf-8", errors="strict")\<close>: a surrogate code point is refused.\<close>

definition utf8_char :: "nat \<Rightarrow> string option" where
  "utf8_char n = (if n < 128 then Some [char_of n]
     else if n < 2048 then Some [char_of (192 + n div 64), char_of (128 + n mod 64)]
     else if 55296 \<le> n \<and> n < 57344 then None
     else if n < 65536 then Some [char_of (224 + n div 4096), char_of (128 + n div 64 mod 64), char_of (128 + n mod 64)]
     else if n < 1114112 then Some [char_of (240 + n div 262144), char_of (128 + n div 4096 mod 64),
       char_of (128 + n div 64 mod 64), char_of (128 + n mod 64)]
     else None)"

fun utf8_encode :: "nat list \<Rightarrow> string option" where
  "utf8_encode [] = Some []"
| "utf8_encode (n # ns) = (case utf8_char n of None \<Rightarrow> None | Some cs \<Rightarrow> map_option ((@) cs) (utf8_encode ns))"

text \<open>\<open>bytes.decode("utf-8", errors="strict")\<close>: the well-formed byte sequences of the Unicode standard.\<close>

definition cont :: "char \<Rightarrow> bool" where
  "cont c \<longleftrightarrow> 128 \<le> code_of c \<and> code_of c < 192"

fun utf8_decode :: "string \<Rightarrow> nat list option" where
  "utf8_decode [] = Some []"
| "utf8_decode (a # s) = (let m = code_of a in
     if m < 128 then map_option ((#) m) (utf8_decode s)
     else if m < 194 then None
     else if m < 224 then (case s of
         b # s' \<Rightarrow> if cont b then map_option ((#) ((m - 192) * 64 + (code_of b - 128))) (utf8_decode s') else None
       | _ \<Rightarrow> None)
     else if m < 240 then (case s of
         b # c # s' \<Rightarrow> let n = (m - 224) * 4096 + (code_of b - 128) * 64 + (code_of c - 128) in
           if cont b \<and> cont c \<and> 2048 \<le> n \<and> \<not> (55296 \<le> n \<and> n < 57344) then map_option ((#) n) (utf8_decode s') else None
       | _ \<Rightarrow> None)
     else if m < 245 then (case s of
         b # c # d # s' \<Rightarrow> let n = (m - 240) * 262144 + (code_of b - 128) * 4096 + (code_of c - 128) * 64 + (code_of d - 128) in
           if cont b \<and> cont c \<and> cont d \<and> 65536 \<le> n \<and> n < 1114112 then map_option ((#) n) (utf8_decode s') else None
       | _ \<Rightarrow> None)
     else None)"

lemma code_of_char_of: "n < 256 \<Longrightarrow> code_of (char_of n) = n"
  by (simp add: of_char_of)

lemma utf8_char_decodes:
  assumes "utf8_char n = Some cs"
  shows "utf8_decode (cs @ s) = map_option ((#) n) (utf8_decode s)"
proof -
  have e: "n div 64 div 64 = n div 4096" "n div 4096 div 64 = n div 262144" by (simp_all add: div_mult2_eq[symmetric])
  have d: "n = n div 64 * 64 + n mod 64" "n div 64 = n div 4096 * 64 + n div 64 mod 64"
    "n div 4096 = n div 262144 * 64 + n div 4096 mod 64"
    using div_mult_mod_eq[of n 64] div_mult_mod_eq[of "n div 64" 64] div_mult_mod_eq[of "n div 4096" 64] by (simp_all add: e)
  have m: "n mod 64 < 64" "n div 64 mod 64 < 64" "n div 4096 mod 64 < 64" by simp_all
  consider "n < 128" | "128 \<le> n" "n < 2048" | "2048 \<le> n" "n < 65536" | "65536 \<le> n" by linarith
  then show ?thesis
  proof cases
    case 1
    then show ?thesis using assms by (auto simp: utf8_char_def code_of_char_of Let_def)
  next
    case 2
    then have "2 \<le> n div 64" "n div 64 < 32" by auto
    then show ?thesis using assms 2 d(1) m(1) by (auto simp: utf8_char_def code_of_char_of cont_def Let_def)
  next
    case 3
    then have "n div 4096 < 16" "\<not> (55296 \<le> n \<and> n < 57344)" using assms by (auto simp: utf8_char_def split: if_splits)
    moreover have "n = n div 4096 * 4096 + n div 64 mod 64 * 64 + n mod 64" using d by linarith
    ultimately show ?thesis using assms 3 m by (auto simp: utf8_char_def code_of_char_of cont_def Let_def)
  next
    case 4
    then have "n div 262144 < 5" using assms by (auto simp: utf8_char_def split: if_splits)
    moreover have "n = n div 262144 * 262144 + n div 4096 mod 64 * 4096 + n div 64 mod 64 * 64 + n mod 64" using d by linarith
    moreover have "n < 1114112" using assms 4 by (auto simp: utf8_char_def split: if_splits)
    ultimately show ?thesis using assms 4 m by (auto simp: utf8_char_def code_of_char_of cont_def Let_def split: if_splits)
  qed
qed

lemma utf8_round: "utf8_encode ns = Some s \<Longrightarrow> utf8_decode s = Some ns"
  by (induction ns arbitrary: s) (auto simp: utf8_char_decodes split: option.splits)

section \<open>Literal metadata\<close>

text \<open>
  The values \<open>ast.literal_eval\<close> builds.  Keys of a dictionary that are no strings keep their own
  entries here, whether or not Python would merge them: \<open>_copy_plain_json\<close> refuses all of them.
\<close>

datatype literal =
    LConst pyval
  | LOther string
  | LTuple "literal list"
  | LList "literal list"
  | LSet "literal list"
  | LDict "(literal \<times> literal) list"

fun hashable :: "literal \<Rightarrow> bool" where
  "hashable (LTuple ls) = (\<forall>l \<in> set ls. hashable l)"
| "hashable (LList _) = False"
| "hashable (LSet _) = False"
| "hashable (LDict _) = False"
| "hashable _ = True"

definition literal_put :: "literal \<times> literal \<Rightarrow> (literal \<times> literal) list \<Rightarrow> (literal \<times> literal) list" where
  "literal_put kv d = (if fst kv \<in> fst ` set d then map (\<lambda>p. if fst p = fst kv then (fst p, snd kv) else p) d else d @ [kv])"

text \<open>\<open>_convert_num\<close> and \<open>_convert_signed_num\<close>\<close>

fun literal_num :: "expr \<Rightarrow> literal option" where
  "literal_num (EConst (PInt n)) = Some (LConst (PInt n))"
| "literal_num (EConst (PFloat f)) = Some (LConst (PFloat f))"
| "literal_num (EOtherConst k) = (if k = ''complex'' then Some (LOther k) else None)"
| "literal_num _ = None"

fun literal_negate :: "literal \<Rightarrow> literal" where
  "literal_negate (LConst v) = LConst (negate_value v)"
| "literal_negate l = l"

fun literal_signed :: "expr \<Rightarrow> literal option" where
  "literal_signed (EUn op e) = (if op = UAdd then literal_num e
     else if op = USub then map_option literal_negate (literal_num e) else None)"
| "literal_signed e = literal_num e"

fun option_all :: "'a option list \<Rightarrow> 'a list option" where
  "option_all [] = Some []"
| "option_all (None # xs) = None"
| "option_all (Some x # xs) = map_option ((#) x) (option_all xs)"

fun literal_eval :: "expr \<Rightarrow> literal option" where
  "literal_eval (EConst v) = Some (LConst v)"
| "literal_eval (EOtherConst k) = Some (LOther k)"
| "literal_eval (ETuple es) = map_option LTuple (option_all (map literal_eval es))"
| "literal_eval (EList es) = map_option LList (option_all (map literal_eval es))"
| "literal_eval (ESet es) = (case option_all (map literal_eval es) of
       None \<Rightarrow> None | Some ls \<Rightarrow> if list_all hashable ls then Some (LSet ls) else None)"
| "literal_eval (EDict kvs) = (case option_all (map (\<lambda>p. literal_eval (fst p)) kvs) of
       None \<Rightarrow> None | Some ks \<Rightarrow>
     (case option_all (map (\<lambda>p. literal_eval (snd p)) kvs) of
       None \<Rightarrow> None | Some vs \<Rightarrow>
         if list_all hashable ks then Some (LDict (fold literal_put (zip ks vs) [])) else None))"
| "literal_eval (ECall f args kws) = (if f = EName ''set'' \<and> args = [] \<and> kws = [] then Some (LSet []) else None)"
| "literal_eval (EBin op l r) = (if op = Add \<or> op = Sub then (case literal_signed l of
       Some (LConst _) \<Rightarrow> (case literal_num r of Some (LOther k) \<Rightarrow> Some (LOther k) | _ \<Rightarrow> None)
     | _ \<Rightarrow> None) else None)"
| "literal_eval e = literal_signed e"

text \<open>\<open>_copy_plain_json\<close>, on the values of \<open>literal_eval\<close> and on the values of the contracts.\<close>

definition key_text :: "literal \<Rightarrow> string option" where
  "key_text l = (case l of LConst v \<Rightarrow> as_str v | _ \<Rightarrow> None)"

definition plain_const :: "pyval \<Rightarrow> bool" where
  "plain_const v = (case v of PFloat f \<Rightarrow> is_finite f | _ \<Rightarrow> True)"

fun copy_plain :: "literal \<Rightarrow> pyval option" where
  "copy_plain (LConst v) = (if plain_const v then Some v else None)"
| "copy_plain (LList ls) = map_option PList (option_all (map copy_plain ls))"
| "copy_plain (LDict kvs) = (case option_all (map (\<lambda>p. key_text (fst p)) kvs) of None \<Rightarrow> None
     | Some ks \<Rightarrow> map_option (\<lambda>vs. PDict (zip ks vs)) (option_all (map (\<lambda>p. copy_plain (snd p)) kvs)))"
| "copy_plain (LOther _) = None"
| "copy_plain (LTuple _) = None"
| "copy_plain (LSet _) = None"

fun plain_json :: "pyval \<Rightarrow> bool" where
  "plain_json (PFloat f) = is_finite f"
| "plain_json (PTuple _) = False"
| "plain_json (PList vs) = list_all plain_json vs"
| "plain_json (PDict d) = list_all (\<lambda>p. plain_json (snd p)) d"
| "plain_json _ = True"

text \<open>
  \<open>canonical_json_bytes\<close> does not raise on plain data unless the decimal text of an integer has
  more than 4300 digits, the limit Python sets on the conversion.
\<close>

definition INT_TEXT_DIGITS :: nat where "INT_TEXT_DIGITS = 4300"

fun encodable :: "pyval \<Rightarrow> bool" where
  "encodable (PInt n) = (\<bar>n\<bar> < 10 ^ INT_TEXT_DIGITS)"
| "encodable (PList vs) = list_all encodable vs"
| "encodable (PTuple vs) = list_all encodable vs"
| "encodable (PDict d) = list_all (\<lambda>p. encodable (snd p)) d"
| "encodable _ = True"

definition metadata_value :: "expr \<Rightarrow> static_error + pyval" where
  "metadata_value e = (case literal_eval e of None \<Rightarrow> Inl MetadataValue
     | Some l \<Rightarrow> (case copy_plain l of None \<Rightarrow> Inl MetadataValue
       | Some v \<Rightarrow> if encodable v then Inr v else Inl MetadataValue))"

text \<open>\<open>_literal_metadata\<close>; the one function of the module is skipped.\<close>

definition metadata_step :: "stmt \<Rightarrow> (string \<times> pyval) list \<Rightarrow> static_error + (string \<times> pyval) list" where
  "metadata_step s d = (case s of
       SFunctionDef _ _ \<Rightarrow> Inr d
     | SAssign [EName n] e \<Rightarrow> bindE (public_name n) (\<lambda>_.
         if n \<in> set reserved_names \<or> n \<in> fst ` set d then Inl (MetadataName n)
         else bindE (metadata_value e) (\<lambda>v. Inr (d @ [(n, v)])))
     | SAssign _ _ \<Rightarrow> Inl MetadataTarget
     | _ \<Rightarrow> Inl ModuleStatement)"

definition literal_metadata :: "stmt list \<Rightarrow> static_error + (string \<times> pyval) list" where
  "literal_metadata m = foldE metadata_step m []"

section \<open>Source bytes\<close>

datatype source = SrcBytes string | SrcText "nat list" | SrcOther

definition source_bytes :: "source \<Rightarrow> static_error + string" where
  "source_bytes src = bindE (case src of
       SrcText t \<Rightarrow> (case utf8_encode t of None \<Rightarrow> Inl SourceNotUtf8 | Some b \<Rightarrow> Inr b)
     | SrcBytes b \<Rightarrow> Inr b
     | SrcOther \<Rightarrow> Inl SourceNotText) (\<lambda>encoded.
     if encoded = [] \<or> MAX_SOURCE_BYTES < length encoded then Inl SourceSize
     else if utf8_decode encoded = None then Inl SourceNotUtf8
     else Inr encoded)"

type_synonym parser = "nat list \<Rightarrow> stmt list option"

definition function_defs :: "stmt list \<Rightarrow> (signature \<times> stmt list) list" where
  "function_defs m = concat (map (\<lambda>s. case s of SFunctionDef g b \<Rightarrow> [(g, b)] | _ \<Rightarrow> []) m)"

definition has_async :: "stmt list \<Rightarrow> bool" where
  "has_async m \<longleftrightarrow> list_ex (\<lambda>s. case s of SOther k _ \<Rightarrow> k = ''AsyncFunctionDef'' | _ \<Rightarrow> False) m"

text \<open>The checks on a parsed module: its size, its one function and its metadata.\<close>

definition validate_module :: "stmt list \<Rightarrow> static_error + (string \<times> pyval) list" where
  "validate_module m = (if MAX_AST_NODES < module_nodes m then Inl TooManyNodes
     else case function_defs m of
         [(g, body)] \<Rightarrow> if has_async m then Inl NotOneFunction
           else bindE (validate_function g body) (\<lambda>_. literal_metadata m)
       | _ \<Rightarrow> Inl NotOneFunction)"

definition parse_and_validate_task_term_source :: "parser \<Rightarrow> source \<Rightarrow>
    static_error + (string \<times> stmt list \<times> (string \<times> pyval) list)" where
  "parse_and_validate_task_term_source parser src = bindE (source_bytes src) (\<lambda>encoded.
     case Option.bind (utf8_decode encoded) parser of None \<Rightarrow> Inl SourceNotPython
     | Some m \<Rightarrow> bindE (validate_module m) (\<lambda>d. Inr (encoded, m, d)))"

section \<open>The receipt\<close>

definition STATIC_VALIDATION_SCOPE_V1 :: string where "STATIC_VALIDATION_SCOPE_V1 = ''source_bytes_and_ast_only''"
definition DYNAMIC_VALIDATION_NOT_PERFORMED :: string where "DYNAMIC_VALIDATION_NOT_PERFORMED = ''not_performed''"

record receipt =
  rc_source_sha256 :: string
  rc_source_bytes :: int
  rc_ast_nodes :: int
  rc_read_set :: "string list"
  rc_metadata :: "(string \<times> pyval) list"
  rc_scope :: string
  rc_accepted :: bool
  rc_dynamic :: string

definition hex_digest :: "string \<Rightarrow> bool" where
  "hex_digest s \<longleftrightarrow> length s = 64 \<and> list_all is_lower_hex s"

definition string_items :: "pyval \<Rightarrow> string list option" where
  "string_items v = (case v of PTuple vs \<Rightarrow> option_all (map as_str vs) | PList vs \<Rightarrow> option_all (map as_str vs) | _ \<Rightarrow> None)"

definition mk_receipt :: "pyval \<Rightarrow> pyval \<Rightarrow> pyval \<Rightarrow> pyval \<Rightarrow> pyval \<Rightarrow> pyval \<Rightarrow> pyval \<Rightarrow> pyval \<Rightarrow> static_error + receipt" where
  "mk_receipt sha size_v nodes_v read_set metadata scope accepted dynamic = (case sha of
     PStr s \<Rightarrow> if \<not> hex_digest s then Inl ReceiptSha256
       else if \<not> bounded_int 1 (int MAX_SOURCE_BYTES) size_v then Inl ReceiptBytes
       else if \<not> bounded_int 1 (int MAX_AST_NODES) nodes_v then Inl ReceiptNodes
       else if string_items read_set \<noteq> Some CANDIDATE_READ_SET_V1 then Inl ReceiptReadSet
       else (case metadata of
         PDict d \<Rightarrow> if \<not> plain_json metadata \<or> \<not> encodable metadata then Inl ReceiptMetadata
           else if scope \<noteq> PStr STATIC_VALIDATION_SCOPE_V1 \<or> accepted \<noteq> PBool True
             \<or> dynamic \<noteq> PStr DYNAMIC_VALIDATION_NOT_PERFORMED then Inl ReceiptStatus
           else Inr \<lparr>rc_source_sha256 = s, rc_source_bytes = the (as_int size_v), rc_ast_nodes = the (as_int nodes_v),
             rc_read_set = CANDIDATE_READ_SET_V1, rc_metadata = d, rc_scope = STATIC_VALIDATION_SCOPE_V1,
             rc_accepted = True, rc_dynamic = DYNAMIC_VALIDATION_NOT_PERFORMED\<rparr>
       | _ \<Rightarrow> Inl ReceiptMetadata)
   | _ \<Rightarrow> Inl ReceiptSha256)"

definition receipt_to_dict :: "receipt \<Rightarrow> pyval" where
  "receipt_to_dict r = PDict [
     (''schema_version'', PInt 1),
     (''source_sha256'', PStr (rc_source_sha256 r)),
     (''source_bytes'', PInt (rc_source_bytes r)),
     (''ast_nodes'', PInt (rc_ast_nodes r)),
     (''read_set'', PList (map PStr (rc_read_set r))),
     (''metadata'', PDict (rc_metadata r)),
     (''validation_scope'', PStr (rc_scope r)),
     (''static_accepted'', PBool (rc_accepted r)),
     (''dynamic_validation_status'', PStr (rc_dynamic r))]"

definition receipt_keys :: "string list" where
  "receipt_keys = [''schema_version'', ''source_sha256'', ''source_bytes'', ''ast_nodes'', ''read_set'', ''metadata'',
     ''validation_scope'', ''static_accepted'', ''dynamic_validation_status'']"

definition item :: "(string \<times> pyval) list \<Rightarrow> string \<Rightarrow> pyval" where
  "item d k = (case dict_get d k of Some v \<Rightarrow> v | None \<Rightarrow> PNone)"

definition receipt_from_dict :: "pyval \<Rightarrow> static_error + receipt" where
  "receipt_from_dict v = (case v of
     PDict d \<Rightarrow> if \<not> keys_are receipt_keys d \<or> item d ''schema_version'' \<noteq> PInt 1 then Inl ReceiptKeys
       else (case (item d ''read_set'', item d ''metadata'') of
           (PList vs, PDict md) \<Rightarrow> if option_all (map as_str vs) = None then Inl ReceiptReadSet
             else mk_receipt (item d ''source_sha256'') (item d ''source_bytes'') (item d ''ast_nodes'')
               (PTuple vs) (PDict md) (item d ''validation_scope'') (item d ''static_accepted'')
               (item d ''dynamic_validation_status'')
         | (PList vs, _) \<Rightarrow> if option_all (map as_str vs) = None then Inl ReceiptReadSet else Inl ReceiptMetadata
         | _ \<Rightarrow> Inl ReceiptReadSet)
   | _ \<Rightarrow> Inl ReceiptKeys)"

definition receipt_bytes :: "hasher \<Rightarrow> receipt \<Rightarrow> string" where
  "receipt_bytes h r = canonical_json (float_repr h) (receipt_to_dict r)"

definition receipt_sha256 :: "hasher \<Rightarrow> receipt \<Rightarrow> string" where
  "receipt_sha256 h r = sha256_hex h (receipt_bytes h r)"

section \<open>Accepted sources\<close>

record accepted_source =
  as_bytes :: string
  as_receipt :: receipt

definition derive_static_acceptance :: "hasher \<Rightarrow> parser \<Rightarrow> source \<Rightarrow> static_error + (string \<times> receipt)" where
  "derive_static_acceptance h parser src = bindE (parse_and_validate_task_term_source parser src) (\<lambda>(encoded, m, d).
     bindE (mk_receipt (PStr (sha256_hex h encoded)) (PInt (int (length encoded))) (PInt (int (module_nodes m)))
       (PTuple (map PStr CANDIDATE_READ_SET_V1)) (PDict d) (PStr STATIC_VALIDATION_SCOPE_V1) (PBool True)
       (PStr DYNAMIC_VALIDATION_NOT_PERFORMED)) (\<lambda>r. Inr (encoded, r)))"

definition mk_accepted :: "hasher \<Rightarrow> parser \<Rightarrow> string \<Rightarrow> receipt \<Rightarrow> static_error + accepted_source" where
  "mk_accepted h parser encoded r = bindE (derive_static_acceptance h parser (SrcBytes encoded)) (\<lambda>(_, current).
     if receipt_bytes h current \<noteq> receipt_bytes h r then Inl ReceiptStale
     else Inr \<lparr>as_bytes = encoded, as_receipt = r\<rparr>)"

definition statically_validate_task_term_source :: "hasher \<Rightarrow> parser \<Rightarrow> source \<Rightarrow> static_error + accepted_source" where
  "statically_validate_task_term_source h parser src =
     bindE (derive_static_acceptance h parser src) (\<lambda>(encoded, r). mk_accepted h parser encoded r)"

definition assert_static_acceptance_current :: "hasher \<Rightarrow> parser \<Rightarrow> accepted_source \<Rightarrow> static_error + accepted_source" where
  "assert_static_acceptance_current h parser a = mk_accepted h parser (as_bytes a) (as_receipt a)"

section \<open>What acceptance means\<close>

lemma validate_module_Inr: "validate_module m = Inr d \<longleftrightarrow>
    module_nodes m \<le> MAX_AST_NODES \<and> \<not> has_async m \<and> literal_metadata m = Inr d \<and>
    (\<exists>g body. function_defs m = [(g, body)] \<and> term_ok g body)"
proof (cases "function_defs m")
  case (Cons gb rest)
  then show ?thesis
    by (cases gb; cases rest) (auto simp: validate_module_def validate_function_iff not_less)
qed (simp add: validate_module_def)

lemma parse_and_validate_Inr: "parse_and_validate_task_term_source parser src = Inr (encoded, m, d) \<longleftrightarrow>
    source_bytes src = Inr encoded \<and> Option.bind (utf8_decode encoded) parser = Some m \<and> validate_module m = Inr d"
  by (auto simp: parse_and_validate_task_term_source_def split: option.splits)

lemma source_bytes_again: "source_bytes src = Inr b \<Longrightarrow> source_bytes (SrcBytes b) = Inr b"
  by (auto simp: source_bytes_def split: if_splits)

lemma derive_again:
  assumes "derive_static_acceptance h parser src = Inr (encoded, r)"
  shows "derive_static_acceptance h parser (SrcBytes encoded) = Inr (encoded, r)"
proof -
  from assms obtain m d where p: "parse_and_validate_task_term_source parser src = Inr (encoded, m, d)"
    by (auto simp: derive_static_acceptance_def)
  then have "parse_and_validate_task_term_source parser (SrcBytes encoded) = Inr (encoded, m, d)"
    by (auto simp: parse_and_validate_Inr dest: source_bytes_again)
  then show ?thesis using assms p by (simp add: derive_static_acceptance_def)
qed

lemma statically_validate_Inr: "statically_validate_task_term_source h parser src = Inr a \<longleftrightarrow>
    derive_static_acceptance h parser src = Inr (as_bytes a, as_receipt a)" (is "?l = ?r")
proof
  assume ?r
  from derive_again[OF this] this show ?l
    by (simp add: statically_validate_task_term_source_def mk_accepted_def)
next
  assume ?l
  then show ?r by (auto simp: statically_validate_task_term_source_def mk_accepted_def split: if_splits)
qed

lemma mk_receipt_Inr: "mk_receipt sha size_v nodes_v read_set metadata scope accepted dynamic = Inr r \<longleftrightarrow>
    sha = PStr (rc_source_sha256 r) \<and> hex_digest (rc_source_sha256 r) \<and>
    size_v = PInt (rc_source_bytes r) \<and> 1 \<le> rc_source_bytes r \<and> rc_source_bytes r \<le> int MAX_SOURCE_BYTES \<and>
    nodes_v = PInt (rc_ast_nodes r) \<and> 1 \<le> rc_ast_nodes r \<and> rc_ast_nodes r \<le> int MAX_AST_NODES \<and>
    string_items read_set = Some CANDIDATE_READ_SET_V1 \<and> rc_read_set r = CANDIDATE_READ_SET_V1 \<and>
    metadata = PDict (rc_metadata r) \<and> plain_json metadata \<and> encodable metadata \<and>
    scope = PStr STATIC_VALIDATION_SCOPE_V1 \<and> rc_scope r = STATIC_VALIDATION_SCOPE_V1 \<and>
    accepted = PBool True \<and> rc_accepted r \<and>
    dynamic = PStr DYNAMIC_VALIDATION_NOT_PERFORMED \<and> rc_dynamic r = DYNAMIC_VALIDATION_NOT_PERFORMED"
  by (cases r) (auto simp: mk_receipt_def bounded_int_iff split: pyval.splits if_splits)

lemma option_all_map_Some [simp]: "option_all (map (\<lambda>x. Some (f x)) xs) = Some (map f xs)"
  by (induction xs) auto

lemma receipt_round:
  assumes "mk_receipt a b c d e f g i = Inr r"
  shows "receipt_from_dict (receipt_to_dict r) = Inr r"
proof -
  have "keys_are receipt_keys (case receipt_to_dict r of PDict d \<Rightarrow> d | _ \<Rightarrow> [])"
    by (auto simp: keys_are_def receipt_keys_def receipt_to_dict_def dict_keys_def)
  then show ?thesis
    using assms by (auto simp: receipt_from_dict_def receipt_to_dict_def item_def dict_get_def mk_receipt_Inr string_items_def o_def)
qed

end
