(* ===== verification/TaskTermRun.thy ===== *)
theory TaskTermRun
  imports TaskTermSource
begin

text \<open>
  Running an accepted task term: the part of \<^verbatim>\<open>src/oracle_composition/rewards/_sandbox_worker.py\<close>
  that executes the source and answers requests, with \<open>CandidateTaskInputsV1\<close> of
  \<^verbatim>\<open>src/oracle_composition/rewards/contract.py\<close>.  The evaluator gives Python's order of evaluation and
  name resolution to the trees; the arithmetic of the values is a parameter, so the theorems hold
  for every arithmetic.  Whatever would leave the language (a foreign name, attribute or call, a
  function without a value) is the fault \<open>Escape\<close> or \<open>NoValue\<close>, and accepted sources never reach it.
\<close>

section \<open>Inputs\<close>

definition TARGET_SPEEDS_M_S :: "f64 list" where
  "TARGET_SPEEDS_M_S = [Fin (1 / 2), Fin 1, Fin (3 / 2)]"

record task_inputs =
  com_x_velocity_m_s :: f64
  target_speed_m_s :: f64

datatype reward_error = NotFiniteReal string | TargetSpeedUnknown | InputKeys | InputOverflow string

text \<open>\<open>_finite_float\<close>; the \<open>OverflowError\<close> of \<open>float\<close> is not caught there.\<close>

definition finite_float :: "string \<Rightarrow> pyval \<Rightarrow> reward_error + f64" where
  "finite_float field v = (case read_number v of
       Number f \<Rightarrow> if is_finite f then Inr f else Inl (NotFiniteReal field)
     | Overflow \<Rightarrow> Inl (InputOverflow field)
     | NotNumeric \<Rightarrow> Inl (NotFiniteReal field))"

definition target_speed :: "pyval \<Rightarrow> reward_error + f64" where
  "target_speed v = bindE (finite_float ''target_speed_m_s'' v) (\<lambda>f.
     if list_ex (f64_eq f) TARGET_SPEEDS_M_S then Inr f else Inl TargetSpeedUnknown)"

definition mk_inputs :: "pyval \<Rightarrow> pyval \<Rightarrow> reward_error + task_inputs" where
  "mk_inputs velocity target = bindE (finite_float ''com_x_velocity_m_s'' velocity) (\<lambda>v.
     bindE (target_speed target) (\<lambda>t. Inr \<lparr>com_x_velocity_m_s = v, target_speed_m_s = t\<rparr>))"

definition inputs_to_dict :: "task_inputs \<Rightarrow> pyval" where
  "inputs_to_dict x = PDict [(''com_x_velocity_m_s'', PFloat (com_x_velocity_m_s x)),
     (''target_speed_m_s'', PFloat (target_speed_m_s x))]"

definition inputs_from_dict :: "pyval \<Rightarrow> reward_error + task_inputs" where
  "inputs_from_dict v = (case v of
       PDict d \<Rightarrow> if \<not> keys_are CANDIDATE_READ_SET_V1 d then Inl InputKeys
         else mk_inputs (item d ''com_x_velocity_m_s'') (item d ''target_speed_m_s'')
     | _ \<Rightarrow> Inl InputKeys)"

section \<open>Evaluation\<close>

text \<open>A value is the input object or a value of the arithmetic.\<close>

datatype 'v operand = Input | Num 'v

datatype 'e fault = Arithmetic 'e | ClipBounds | UnboundLocal string | Escape string | NoValue

record ('v, 'e) arithmetic =
  ar_const :: "pyval \<Rightarrow> 'v"
  ar_bin :: "bin_op \<Rightarrow> 'v operand \<Rightarrow> 'v operand \<Rightarrow> 'e + 'v operand"
  ar_un :: "unary_op \<Rightarrow> 'v operand \<Rightarrow> 'e + 'v operand"
  ar_cmp :: "cmp_op \<Rightarrow> 'v operand \<Rightarrow> 'v operand \<Rightarrow> 'e + 'v operand"
  ar_truth :: "'v operand \<Rightarrow> 'e + bool"
  ar_call :: "string \<Rightarrow> 'v operand list \<Rightarrow> 'e + 'v operand"
  ar_float :: "'v operand \<Rightarrow> f64 option"

definition lift_arith :: "'e + 'a \<Rightarrow> 'e fault + 'a" where
  "lift_arith r = (case r of Inl e \<Rightarrow> Inl (Arithmetic e) | Inr v \<Rightarrow> Inr v)"

definition attribute :: "task_inputs \<Rightarrow> string \<Rightarrow> f64 option" where
  "attribute x a = map_of [(''com_x_velocity_m_s'', com_x_velocity_m_s x), (''target_speed_m_s'', target_speed_m_s x)] a"

text \<open>\<open>_clip\<close>\<close>

definition clip_values :: "('v, 'e) arithmetic \<Rightarrow> 'v operand \<Rightarrow> 'v operand \<Rightarrow> 'v operand \<Rightarrow> 'e fault + 'v operand" where
  "clip_values A v lower upper = bindE (lift_arith (ar_cmp A Gt lower upper)) (\<lambda>t.
     bindE (lift_arith (ar_truth A t)) (\<lambda>b. if b then Inl ClipBounds
     else bindE (lift_arith (ar_call A ''max'' [v, lower])) (\<lambda>w. lift_arith (ar_call A ''min'' [w, upper]))))"

text \<open>
  The injected functions of the namespace.  A name that the function assigns is local, and a
  name that the metadata binds shadows the injected function.
\<close>

record scope =
  sc_locals :: "string list"
  sc_globals :: "string list"

definition callable :: "scope \<Rightarrow> expr \<Rightarrow> 'e fault + string" where
  "callable sc f = (case f of
       EName n \<Rightarrow> if n \<in> set (sc_locals sc) \<or> n \<in> set (sc_globals sc) \<or> n \<notin> set SAFE_FUNCTION_NAMES
         then Inl (Escape n) else Inr n
     | _ \<Rightarrow> Inl (Escape ''call''))"

definition call_injected :: "('v, 'e) arithmetic \<Rightarrow> string \<Rightarrow> 'v operand list \<Rightarrow> 'e fault + 'v operand" where
  "call_injected A n vs = (if map_of CALL_ARITIES n \<noteq> Some (length vs) then Inl (Escape n)
     else if n = ''clip'' then clip_values A (vs ! 0) (vs ! 1) (vs ! 2)
     else lift_arith (ar_call A n vs))"

definition read_name_value :: "scope \<Rightarrow> (string \<times> 'v operand) list \<Rightarrow> string \<Rightarrow> 'e fault + 'v operand" where
  "read_name_value sc env n = (if n \<in> set (sc_locals sc)
     then (case map_of env n of None \<Rightarrow> Inl (UnboundLocal n) | Some v \<Rightarrow> Inr v)
     else Inl (Escape n))"

fun eval_expr :: "('v, 'e) arithmetic \<Rightarrow> task_inputs \<Rightarrow> scope \<Rightarrow> (string \<times> 'v operand) list \<Rightarrow> expr \<Rightarrow> 'e fault + 'v operand"
  and eval_bools :: "('v, 'e) arithmetic \<Rightarrow> task_inputs \<Rightarrow> scope \<Rightarrow> (string \<times> 'v operand) list \<Rightarrow> bool_op \<Rightarrow> expr list \<Rightarrow> 'e fault + 'v operand"
  and eval_compare :: "('v, 'e) arithmetic \<Rightarrow> task_inputs \<Rightarrow> scope \<Rightarrow> (string \<times> 'v operand) list \<Rightarrow> 'v operand \<Rightarrow> cmp_op list \<Rightarrow> expr list \<Rightarrow> 'e fault + 'v operand"
  and eval_list :: "('v, 'e) arithmetic \<Rightarrow> task_inputs \<Rightarrow> scope \<Rightarrow> (string \<times> 'v operand) list \<Rightarrow> expr list \<Rightarrow> 'e fault + 'v operand list" where
  "eval_expr A x sc env (EConst v) = Inr (Num (ar_const A v))"
| "eval_expr A x sc env (EName n) = read_name_value sc env n"
| "eval_expr A x sc env (EAttr e a) = bindE (eval_expr A x sc env e) (\<lambda>v. case v of
       Input \<Rightarrow> (case attribute x a of None \<Rightarrow> Inl (Escape a) | Some f \<Rightarrow> Inr (Num (ar_const A (PFloat f))))
     | Num _ \<Rightarrow> Inl (Escape a))"
| "eval_expr A x sc env (EBin op l r) = bindE (eval_expr A x sc env l) (\<lambda>a.
     bindE (eval_expr A x sc env r) (\<lambda>b. lift_arith (ar_bin A op a b)))"
| "eval_expr A x sc env (EUn op e) = bindE (eval_expr A x sc env e) (\<lambda>a. lift_arith (ar_un A op a))"
| "eval_expr A x sc env (EBool op es) = eval_bools A x sc env op es"
| "eval_expr A x sc env (ECmp l ops cs) = bindE (eval_expr A x sc env l) (\<lambda>a. eval_compare A x sc env a ops cs)"
| "eval_expr A x sc env (EIf c a b) = bindE (eval_expr A x sc env c) (\<lambda>v.
     bindE (lift_arith (ar_truth A v)) (\<lambda>t. if t then eval_expr A x sc env a else eval_expr A x sc env b))"
| "eval_expr A x sc env (ECall f args kws) = (if kws \<noteq> [] then Inl (Escape ''keyword'')
     else bindE (callable sc f) (\<lambda>n. bindE (eval_list A x sc env args) (\<lambda>vs. call_injected A n vs)))"
| "eval_expr A x sc env _ = Inl (Escape ''expression'')"
| "eval_bools A x sc env op [] = Inl (Escape ''expression'')"
| "eval_bools A x sc env op [e] = eval_expr A x sc env e"
| "eval_bools A x sc env op (e # es) = bindE (eval_expr A x sc env e) (\<lambda>v.
     bindE (lift_arith (ar_truth A v)) (\<lambda>t. if t = (op = Or) then Inr v else eval_bools A x sc env op es))"
| "eval_compare A x sc env a [op] [c] = bindE (eval_expr A x sc env c) (\<lambda>b. lift_arith (ar_cmp A op a b))"
| "eval_compare A x sc env a (op # ops) (c # cs) = bindE (eval_expr A x sc env c) (\<lambda>b.
     bindE (lift_arith (ar_cmp A op a b)) (\<lambda>v. bindE (lift_arith (ar_truth A v)) (\<lambda>t.
       if t then eval_compare A x sc env b ops cs else Inr v)))"
| "eval_compare A x sc env a _ _ = Inl (Escape ''expression'')"
| "eval_list A x sc env [] = Inr []"
| "eval_list A x sc env (e # es) = bindE (eval_expr A x sc env e) (\<lambda>v.
     bindE (eval_list A x sc env es) (\<lambda>vs. Inr (v # vs)))"

text \<open>A block: the value it returned, if it did, and the local variables.\<close>

fun exec_stmts :: "('v, 'e) arithmetic \<Rightarrow> task_inputs \<Rightarrow> scope \<Rightarrow> (string \<times> 'v operand) list \<Rightarrow> stmt list \<Rightarrow>
    'e fault + ('v operand option \<times> (string \<times> 'v operand) list)" where
  "exec_stmts A x sc env [] = Inr (None, env)"
| "exec_stmts A x sc env (SAssign [EName n] e # ss) = bindE (eval_expr A x sc env e) (\<lambda>v.
     exec_stmts A x sc ((n, v) # env) ss)"
| "exec_stmts A x sc env (SReturn (Some e) # ss) = bindE (eval_expr A x sc env e) (\<lambda>v. Inr (Some v, env))"
| "exec_stmts A x sc env (SIf c b e # ss) = bindE (eval_expr A x sc env c) (\<lambda>v.
     bindE (lift_arith (ar_truth A v)) (\<lambda>t.
     bindE (exec_stmts A x sc env (if t then b else e)) (\<lambda>(r, env').
       if r \<noteq> None then Inr (r, env') else exec_stmts A x sc env' ss)))"
| "exec_stmts A x sc env (_ # ss) = Inl (Escape ''statement'')"

definition run_task_term :: "('v, 'e) arithmetic \<Rightarrow> string list \<Rightarrow> signature \<Rightarrow> stmt list \<Rightarrow> task_inputs \<Rightarrow> 'e fault + 'v operand" where
  "run_task_term A globals g body x = (case sg_args g of
       [(p, _)] \<Rightarrow> bindE (exec_stmts A x \<lparr>sc_locals = p # assigned body, sc_globals = globals\<rparr> [(p, Input)] body)
         (\<lambda>(r, _). case r of Some v \<Rightarrow> Inr v | None \<Rightarrow> Inl NoValue)
     | _ \<Rightarrow> Inl (Escape ''signature''))"

section \<open>The worker\<close>

definition TASK_TERM_ABS_MAX :: f64 where "TASK_TERM_ABS_MAX = Fin 1000"

datatype 'e worker_error = TermFault "'e fault" | TermNotFloat | TermNotFinite | TermEnvelope
  | PipeClosed | FrameLength | RequestSize | RequestOpcode | RequestNotFinite | RequestInputs reward_error

definition evaluate_task_term :: "('v, 'e) arithmetic \<Rightarrow> (task_inputs \<Rightarrow> 'e fault + 'v operand) \<Rightarrow> task_inputs \<Rightarrow> 'e worker_error + f64" where
  "evaluate_task_term A f x = (case f x of Inl e \<Rightarrow> Inl (TermFault e)
     | Inr v \<Rightarrow> (case ar_float A v of None \<Rightarrow> Inl TermNotFloat
       | Some r \<Rightarrow> if \<not> is_finite r then Inl TermNotFinite
           else if f64_lt TASK_TERM_ABS_MAX (f64_abs r) then Inl TermEnvelope else Inr r))"

text \<open>
  Pipes are byte streams; \<open>read_frame\<close> takes a big-endian length and as many bytes.
\<close>

definition take_exact :: "nat \<Rightarrow> string \<Rightarrow> (string \<times> string) option" where
  "take_exact n s = (if length s < n then None else Some (take n s, drop n s))"

definition big_endian :: "string \<Rightarrow> nat" where
  "big_endian s = foldl (\<lambda>acc c. acc * 256 + code_of c) 0 s"

definition read_frame :: "nat \<Rightarrow> string \<Rightarrow> (string \<times> string) option" where
  "read_frame maximum_bytes s = (case take_exact 4 s of None \<Rightarrow> None
     | Some (header, rest) \<Rightarrow> let n = big_endian header in
         if n < 1 \<or> maximum_bytes < n then None else take_exact n rest)"

text \<open>\<open>struct.unpack(">d")\<close>: the binary64 value of eight bytes (a negative zero is zero).\<close>

definition unpack_double :: "string \<Rightarrow> f64" where
  "unpack_double s = (let n = big_endian s; negative = 2 ^ 63 \<le> n; e = n div 2 ^ 52 mod 2048; fraction = n mod 2 ^ 52 in
     if e = 2047 then (if fraction \<noteq> 0 then NaN else if negative then NegInf else PosInf)
     else let m = (if e = 0 then of_nat fraction * pow2 (- 1074) else of_nat (2 ^ 52 + fraction) * pow2 (int e - 1075)) in
       Fin (if negative then - m else m))"

fun unpack_doubles :: "nat \<Rightarrow> string \<Rightarrow> f64 list" where
  "unpack_doubles 0 s = []"
| "unpack_doubles (Suc n) s = unpack_double (take 8 s) # unpack_doubles n (drop 8 s)"

definition SOURCE_FRAME_MAX_BYTES :: nat where "SOURCE_FRAME_MAX_BYTES = 16 * 1024 + 36"
definition REQUEST_FRAME_MAX_BYTES :: nat where "REQUEST_FRAME_MAX_BYTES = 1024"
definition SOURCE_MAGIC :: string where "SOURCE_MAGIC = ''RWS1''"
definition BATCH_OPCODE :: nat where "BATCH_OPCODE = 66"
definition QUIT_OPCODE :: nat where "QUIT_OPCODE = 81"
definition EXIT_SOURCE_BOOTSTRAP_FAILED :: nat where "EXIT_SOURCE_BOOTSTRAP_FAILED = 70"
definition EXIT_REQUEST_OR_EVALUATION_FAILED :: nat where "EXIT_REQUEST_OR_EVALUATION_FAILED = 71"

text \<open>The response frames, by opcode: ready with the digest, four values, quit, or an error.\<close>

datatype response = Ready string | Values "f64 list" | QuitAck | ErrorCode nat

text \<open>\<open>_install_task_term\<close>\<close>

definition install_task_term :: "('v, 'e) arithmetic \<Rightarrow> parser \<Rightarrow> string \<Rightarrow> static_error + (task_inputs \<Rightarrow> 'e fault + 'v operand)" where
  "install_task_term A parser src = bindE (parse_and_validate_task_term_source parser (SrcBytes src)) (\<lambda>(_, m, d).
     case function_defs m of [(g, body)] \<Rightarrow> Inr (run_task_term A (map fst d) g body) | _ \<Rightarrow> Inl NotOneFunction)"

text \<open>One request: four pairs of velocity and target.\<close>

fun evaluate_pairs :: "('v, 'e) arithmetic \<Rightarrow> (task_inputs \<Rightarrow> 'e fault + 'v operand) \<Rightarrow> f64 list \<Rightarrow> 'e worker_error + f64 list" where
  "evaluate_pairs A f (v # t # rest) = bindE (case mk_inputs (PFloat v) (PFloat t) of Inl e \<Rightarrow> Inl (RequestInputs e) | Inr x \<Rightarrow> Inr x)
     (\<lambda>x. bindE (evaluate_task_term A f x) (\<lambda>r. bindE (evaluate_pairs A f rest) (\<lambda>rs. Inr (r # rs))))"
| "evaluate_pairs A f _ = Inr []"

definition answer_request :: "('v, 'e) arithmetic \<Rightarrow> (task_inputs \<Rightarrow> 'e fault + 'v operand) \<Rightarrow> string \<Rightarrow> 'e worker_error + f64 list" where
  "answer_request A f payload =
     (if length payload \<noteq> 66 then Inl RequestSize
      else if code_of (payload ! 0) \<noteq> BATCH_OPCODE \<or> code_of (payload ! 1) \<noteq> 4 then Inl RequestOpcode
      else let values = unpack_doubles 8 (drop 2 payload) in
        if \<not> list_all is_finite values then Inl RequestNotFinite else evaluate_pairs A f values)"

lemma read_frame_shorter: "read_frame n s = Some (payload, rest) \<Longrightarrow> length rest < length s"
  by (auto simp: read_frame_def take_exact_def Let_def split: option.splits if_splits)

function run_requests :: "('v, 'e) arithmetic \<Rightarrow> (task_inputs \<Rightarrow> 'e fault + 'v operand) \<Rightarrow> string \<Rightarrow> response list \<times> nat" where
  "run_requests A f stream = (case read_frame REQUEST_FRAME_MAX_BYTES stream of
       None \<Rightarrow> ([ErrorCode 2], EXIT_REQUEST_OR_EVALUATION_FAILED)
     | Some (payload, rest) \<Rightarrow>
         if payload = [char_of QUIT_OPCODE] then ([QuitAck], 0)
         else (case answer_request A f payload of
             Inl _ \<Rightarrow> ([ErrorCode 2], EXIT_REQUEST_OR_EVALUATION_FAILED)
           | Inr values \<Rightarrow> (case run_requests A f rest of (rs, code) \<Rightarrow> (Values values # rs, code))))"
  by pat_completeness auto
termination
  by (relation "measure (\<lambda>(_, _, s). length s)") (auto dest: read_frame_shorter)

declare run_requests.simps [simp del]

text \<open>\<open>_run_worker\<close>, with the raw SHA-256 digest as a parameter.\<close>

definition bootstrap :: "('v, 'e) arithmetic \<Rightarrow> parser \<Rightarrow> (string \<Rightarrow> string) \<Rightarrow> string \<Rightarrow> (string \<times> (task_inputs \<Rightarrow> 'e fault + 'v operand)) option" where
  "bootstrap A parser digest stream = (case read_frame SOURCE_FRAME_MAX_BYTES stream of None \<Rightarrow> None
     | Some (frame, _) \<Rightarrow>
        if length frame < 37 \<or> take 4 frame \<noteq> SOURCE_MAGIC then None
        else if digest (drop 36 frame) \<noteq> take 32 (drop 4 frame) then None
        else (case install_task_term A parser (drop 36 frame) of Inl _ \<Rightarrow> None
          | Inr f \<Rightarrow> Some (take 32 (drop 4 frame), f)))"

definition run_worker :: "('v, 'e) arithmetic \<Rightarrow> parser \<Rightarrow> (string \<Rightarrow> string) \<Rightarrow> string \<Rightarrow> string \<Rightarrow> response list \<times> nat" where
  "run_worker A parser digest sources requests = (case bootstrap A parser digest sources of
       None \<Rightarrow> ([ErrorCode 1], EXIT_SOURCE_BOOTSTRAP_FAILED)
     | Some (d, f) \<Rightarrow> (case run_requests A f requests of (rs, code) \<Rightarrow> (Ready d # rs, code)))"

section \<open>Accepted terms stay inside the language\<close>

definition contained :: "string list \<Rightarrow> 'e fault + 'a \<Rightarrow> bool" where
  "contained ls r \<longleftrightarrow> (case r of Inr _ \<Rightarrow> True | Inl (Arithmetic _) \<Rightarrow> True | Inl ClipBounds \<Rightarrow> True
     | Inl (UnboundLocal n) \<Rightarrow> n \<in> set ls | Inl _ \<Rightarrow> False)"

lemma contained_Inr [simp]: "contained ls (Inr v)"
  by (simp add: contained_def)

lemma contained_lift [simp]: "contained ls (lift_arith r)"
  by (cases r) (simp_all add: contained_def lift_arith_def)

lemma contained_bindE:
  "contained ls m \<Longrightarrow> (\<And>v. m = Inr v \<Longrightarrow> contained ls (f v)) \<Longrightarrow> contained ls (bindE m f)"
  by (cases m) (auto simp: contained_def)

lemma contained_ClipBounds [simp]: "contained ls (Inl ClipBounds)"
  by (simp add: contained_def)

lemma contained_clip [simp]: "contained ls (clip_values A a b c)"
  unfolding clip_values_def by (auto intro!: contained_bindE)

text \<open>The scope of an accepted function: \<open>x\<close> is bound to the inputs and nothing shadows a function.\<close>

definition scope_ok :: "scope \<Rightarrow> (string \<times> 'v operand) list \<Rightarrow> bool" where
  "scope_ok sc env \<longleftrightarrow> map_of env ''x'' = Some Input \<and> ''x'' \<in> set (sc_locals sc) \<and>
     set (sc_locals sc) \<inter> set SAFE_FUNCTION_NAMES = {} \<and> set (sc_globals sc) \<inter> set SAFE_FUNCTION_NAMES = {}"

lemma attribute_read_set: "a \<in> set CANDIDATE_READ_SET_V1 \<Longrightarrow> \<exists>f. attribute x a = Some f"
  by (auto simp: CANDIDATE_READ_SET_V1_def attribute_def)

lemma callable_safe:
  assumes "scope_ok sc env" "map_of CALL_ARITIES n = Some k"
  shows "callable sc (EName n) = Inr n"
proof -
  have "n \<in> set SAFE_FUNCTION_NAMES" using assms(2) by (auto simp: SAFE_FUNCTION_NAMES_def dest!: map_of_SomeD intro: rev_image_eqI)
  then show ?thesis using assms(1) by (auto simp: callable_def scope_ok_def)
qed

lemma eval_list_length: "eval_list A x sc env es = Inr vs \<Longrightarrow> length vs = length es"
  by (induction es arbitrary: vs) auto

lemma read_name_contained:
  "scope_ok sc env \<Longrightarrow> set (sc_locals sc) \<subseteq> insert ''x'' (set us) \<Longrightarrow> n \<in> set (sc_locals sc) \<Longrightarrow>
    contained us (read_name_value sc env n)"
  by (auto simp: read_name_value_def contained_def scope_ok_def split: option.split)

lemma eval_contained:
  assumes "scope_ok sc env" "set ls \<subseteq> set (sc_locals sc)" "set (sc_locals sc) \<subseteq> insert ''x'' (set us)"
  shows "admitted_expr ls e \<Longrightarrow> contained us (eval_expr A x sc env e)"
    and "es \<noteq> [] \<Longrightarrow> \<forall>e \<in> set es. admitted_expr ls e \<Longrightarrow> contained us (eval_bools A x sc env op es)"
    and "ops \<noteq> [] \<Longrightarrow> length ops = length cs \<Longrightarrow> \<forall>e \<in> set cs. admitted_expr ls e \<Longrightarrow>
      contained us (eval_compare A x sc env a ops cs)"
    and "\<forall>e \<in> set es. admitted_expr ls e \<Longrightarrow> contained us (eval_list A x sc env es)"
  using assms
proof (induction A x sc env e and A x sc env op es and A x sc env a ops cs and A x sc env es
    rule: eval_expr_eval_bools_eval_compare_eval_list.induct)
  case (2 A x sc env n)
  then have "n \<in> set (sc_locals sc)" by (auto simp: scope_ok_def)
  then show ?case using 2 by (simp add: read_name_contained)
next
  case (3 A x sc env e a)
  then have "eval_expr A x sc env e = Inr Input" by (simp add: scope_ok_def read_name_value_def)
  then show ?case using 3 attribute_read_set[of a x] by auto
next
  case (6 A x sc env op es)
  then have "es \<noteq> []" by auto
  then show ?case using 6 by simp
next
  case (9 A x sc env f args kws)
  then obtain n where f: "f = EName n" "map_of CALL_ARITIES n = Some (length args)" "kws = []" by (auto split: expr.splits)
  have "contained us (call_injected A n vs)" if "length vs = length args" for vs
    using f(2) that by (simp add: call_injected_def)
  then show ?case using 9 f callable_safe[OF 9(3) f(2)] by (auto intro!: contained_bindE dest: eval_list_length)
qed (auto intro!: contained_bindE, fastforce)

lemma lift_arith_Inr [simp]: "lift_arith r = Inr v \<longleftrightarrow> r = Inr v"
  by (cases r) (simp_all add: lift_arith_def)

text \<open>
  A block keeps the scope, and a block that returns on every path returns a value.
\<close>

lemma exec_scope:
  "scope_ok sc env \<Longrightarrow> targets_ok ss \<Longrightarrow> exec_stmts A x sc env ss = Inr (r, env') \<Longrightarrow> scope_ok sc env'"
proof (induction A x sc env ss arbitrary: r env' rule: exec_stmts.induct)
  case (2 A x sc env n e ss)
  then show ?case by (auto simp: scope_ok_def reserved_names_def)
next
  case (4 A x sc env c b e ss)
  from 4(5) obtain v t r1 env1 where s: "eval_expr A x sc env c = Inr v" "ar_truth A v = Inr t"
      "exec_stmts A x sc env (if t then b else e) = Inr (r1, env1)"
      "(if r1 \<noteq> None then Inr (r1, env1) else exec_stmts A x sc env1 ss) = Inr (r, env')" by auto
  have "scope_ok sc env1" using 4(1)[OF s(1), of t] 4(3,4) s(2,3) by (cases t) auto
  then show ?case using 4(2)[OF s(1), of t "(r1, env1)" r1 env1] 4(4) s by (cases r1) auto
qed auto

lemma exec_returns:
  "block_always_returns ss \<Longrightarrow> exec_stmts A x sc env ss = Inr (r, env') \<Longrightarrow> r \<noteq> None"
proof (induction A x sc env ss arbitrary: r env' rule: exec_stmts.induct)
  case (4 A x sc env c b e ss)
  from 4(4) obtain v t r1 env1 where s: "eval_expr A x sc env c = Inr v" "ar_truth A v = Inr t"
      "exec_stmts A x sc env (if t then b else e) = Inr (r1, env1)"
      "(if r1 \<noteq> None then Inr (r1, env1) else exec_stmts A x sc env1 ss) = Inr (r, env')" by auto
  show ?case
  proof (cases "block_always_returns b \<and> block_always_returns e")
    case True
    then have "r1 \<noteq> None" using 4(1)[OF s(1), of t] s(2,3) by (cases t) auto
    then show ?thesis using s(4) by auto
  next
    case False
    then show ?thesis using 4(2)[OF s(1), of t "(r1, env1)" r1 env1] 4(3) s by (cases r1) auto
  qed
qed auto

lemma targets_ok_assign: "targets_ok (SAssign ts e # ss) \<longleftrightarrow>
    (\<exists>n. ts = [EName n] \<and> is_public n \<and> n \<notin> set reserved_names) \<and> targets_ok ss"
  by (cases ts; cases "tl ts") (auto split: expr.splits)

declare targets_ok.simps(2) [simp del]

lemma exec_contained:
  "scope_ok sc env \<Longrightarrow> set ls \<subseteq> set (sc_locals sc) \<Longrightarrow> set (sc_locals sc) \<subseteq> insert ''x'' (set us) \<Longrightarrow>
    targets_ok ss \<Longrightarrow> admitted_stmts ls ss \<Longrightarrow> contained us (exec_stmts A x sc env ss)"
proof (induction A x sc env ss rule: exec_stmts.induct)
  case (2 A x sc env n e ss)
  then have "scope_ok sc ((n, v) # env)" for v by (auto simp: scope_ok_def reserved_names_def targets_ok_assign)
  then show ?case using 2 targets_ok_assign eval_contained(1)[OF 2(2-4)] by (auto intro!: contained_bindE)
next
  case (3 A x sc env e ss)
  then show ?case using eval_contained(1)[OF 3(1-3)] by (auto intro!: contained_bindE)
next
  case (4 A x sc env c b e ss)
  have branch: "contained us (exec_stmts A x sc env (if t then b else e))"
    if "eval_expr A x sc env c = Inr v" "lift_arith (ar_truth A v) = Inr t" for v t
    using 4(1)[OF that 4(3-5)] 4(6,7) by (cases t) auto
  have rest: "contained us (exec_stmts A x sc env' ss)"
    if "eval_expr A x sc env c = Inr v" "lift_arith (ar_truth A v) = Inr t"
      "exec_stmts A x sc env (if t then b else e) = Inr (None, env')" for v t env'
  proof -
    have "scope_ok sc env'" using exec_scope[OF 4(3) _ that(3)] 4(6) by (cases t) auto
    then show ?thesis using 4(2)[OF that, of None env'] 4(4-7) by auto
  qed
  show ?case using eval_contained(1)[OF 4(3-5)] 4(7)
    by (auto intro!: contained_bindE intro: branch rest[where t = True, simplified] rest[where t = False, simplified] split: if_splits)
qed (auto simp: targets_ok_assign)

lemma term_contained:
  assumes "term_ok g body" "set globals \<inter> set SAFE_FUNCTION_NAMES = {}"
  shows "contained (assigned body) (run_task_term A globals g body x)"
proof -
  let ?sc = "\<lparr>sc_locals = ''x'' # assigned body, sc_globals = globals\<rparr>"
  have ok: "signature_ok g" "targets_ok body" "admitted_stmts (assigned body) body" "block_always_returns body"
    using assms(1) by (simp_all add: term_ok_def)
  have "set (assigned body) \<inter> set SAFE_FUNCTION_NAMES = {}" using ok(2)
    by (induction body rule: targets_ok.induct) (auto simp: reserved_names_def targets_ok_assign)
  moreover have "''x'' \<notin> set SAFE_FUNCTION_NAMES" by (simp add: SAFE_FUNCTION_NAMES_def CALL_ARITIES_def)
  ultimately have s: "scope_ok ?sc [(''x'', Input)]" using assms(2) by (simp add: scope_ok_def)
  have c: "contained (assigned body) (exec_stmts A x ?sc [(''x'', Input)] body)"
    by (rule exec_contained[OF s _ _ ok(2,3)]) auto
  have g: "sg_args g = [(''x'', None)]" using ok(1) by (simp add: signature_ok_def)
  have "r \<noteq> None" if "exec_stmts A x ?sc [(''x'', Input)] body = Inr (r, env)" for r env
    by (rule exec_returns[OF ok(4) that])
  then show ?thesis
    unfolding run_task_term_def g by (auto intro!: contained_bindE[OF c] split: option.split)
qed

lemma metadata_names:
  assumes "literal_metadata m = Inr d"
  shows "fst ` set d \<inter> set SAFE_FUNCTION_NAMES = {}"
proof -
  have "foldE metadata_step m [] = Inr d" using assms by (simp add: literal_metadata_def)
  then have "list_all (\<lambda>p. fst p \<notin> set SAFE_FUNCTION_NAMES) d"
    by (rule foldE_invariant[where P = "list_all (\<lambda>p. fst p \<notin> set SAFE_FUNCTION_NAMES)"])
      (auto simp: metadata_step_def reserved_names_def split: stmt.splits list.splits expr.splits if_splits)
  then show ?thesis by (auto simp: list_all_iff)
qed

lemma install_Inr:
  assumes "install_task_term A parser src = Inr f"
  obtains m d g body where "validate_module m = Inr d" "function_defs m = [(g, body)]" "term_ok g body"
    "f = run_task_term A (map fst d) g body"
proof -
  obtain e m d where p: "parse_and_validate_task_term_source parser (SrcBytes src) = Inr (e, m, d)"
    using assms by (auto simp: install_task_term_def)
  then have v: "validate_module m = Inr d" by (simp add: parse_and_validate_Inr)
  then obtain g body where g: "function_defs m = [(g, body)]" "term_ok g body" by (auto simp: validate_module_Inr)
  then show thesis using assms p by (intro that[OF v g]) (simp add: install_task_term_def)
qed

lemma installed_contained:
  assumes "install_task_term A parser src = Inr f"
  obtains ls where "\<And>x. contained ls (f x)"
proof -
  obtain m d g body where i: "validate_module m = Inr d" "function_defs m = [(g, body)]" "term_ok g body"
    "f = run_task_term A (map fst d) g body" using assms by (rule install_Inr)
  have "literal_metadata m = Inr d" using i(1) by (simp add: validate_module_Inr)
  from metadata_names[OF this] have "set (map fst d) \<inter> set SAFE_FUNCTION_NAMES = {}" by simp
  from term_contained[OF i(3) this] show thesis by (intro that[of "assigned body"]) (simp add: i(4))
qed

definition in_envelope :: "f64 \<Rightarrow> bool" where
  "in_envelope r \<longleftrightarrow> is_finite r \<and> f64_le (f64_abs r) TASK_TERM_ABS_MAX"

lemma evaluate_pairs_Inr: "evaluate_pairs A f vs = Inr rs \<Longrightarrow> 2 * length rs \<le> length vs \<and> length vs \<le> Suc (2 * length rs) \<and> list_all in_envelope rs"
proof (induction A f vs arbitrary: rs rule: evaluate_pairs.induct)
  case (1 A f v t rest)
  then show ?case
    by (auto simp: evaluate_task_term_def in_envelope_def TASK_TERM_ABS_MAX_def f64_abs_le_iff split: sum.splits option.splits if_splits)
qed auto

lemma unpack_doubles_length [simp]: "length (unpack_doubles n s) = n"
  by (induction n arbitrary: s) auto

lemma answer_request_Inr: "answer_request A f payload = Inr rs \<Longrightarrow> length rs = 4 \<and> list_all in_envelope rs"
  by (auto simp: answer_request_def Let_def simp del: unpack_doubles.simps dest!: evaluate_pairs_Inr split: if_splits)

lemma run_requests_shape:
  "run_requests A f stream = (rs, code) \<Longrightarrow>
    \<exists>batches. rs = map Values batches @ [if code = 0 then QuitAck else ErrorCode 2] \<and>
      (code = 0 \<or> code = EXIT_REQUEST_OR_EVALUATION_FAILED) \<and> list_all (\<lambda>b. length b = 4 \<and> list_all in_envelope b) batches"
proof (induction A f stream arbitrary: rs rule: run_requests.induct)
  case (1 A f stream)
  show ?case
  proof (cases "read_frame REQUEST_FRAME_MAX_BYTES stream")
    case None
    then show ?thesis using 1(2) by (auto simp: run_requests.simps[of A f stream] EXIT_REQUEST_OR_EVALUATION_FAILED_def)
  next
    case (Some p)
    obtain payload rest where p: "p = (payload, rest)" by (cases p)
    show ?thesis
    proof (cases "payload = [char_of QUIT_OPCODE]")
      case True
      then show ?thesis using 1(2) Some p by (auto simp: run_requests.simps[of A f stream])
    next
      case quit: False
      show ?thesis
      proof (cases "answer_request A f payload")
        case (Inl e)
        then show ?thesis using 1(2) Some p quit
          by (auto simp: run_requests.simps[of A f stream] EXIT_REQUEST_OR_EVALUATION_FAILED_def)
      next
        case (Inr vs)
        obtain rs' where r: "run_requests A f rest = (rs', code)" "rs = Values vs # rs'"
          using 1(2) Some p quit Inr by (auto simp: run_requests.simps[of A f stream] split: prod.splits)
        from 1(1)[OF Some p[symmetric] quit Inr r(1)] obtain batches where
          "rs' = map Values batches @ [if code = 0 then QuitAck else ErrorCode 2]"
          "code = 0 \<or> code = EXIT_REQUEST_OR_EVALUATION_FAILED" "list_all (\<lambda>b. length b = 4 \<and> list_all in_envelope b) batches" by blast
        then show ?thesis using r(2) answer_request_Inr[OF Inr] by (intro exI[of _ "vs # batches"]) simp
      qed
    qed
  qed
qed

end
