(* ===== verification/TaskTermLanguage.thy ===== *)
theory TaskTermLanguage
  imports TaskTerm
begin

text \<open>
  The task-term language as a grammar, independent of the validator: which names, literals and operators there
  are, the judgments of admitted expressions and statements with the number of conditionals that may still be
  nested, and the control paths of a block.  Its agreement with the predicates of \<open>TaskTerm\<close> is proved here.
\<close>

section \<open>Words\<close>

text \<open>A name: a letter, then letters, digits, underscores and middle dots, with no two underscores in a row.\<close>

definition letter_codes :: "nat set" where
  "letter_codes = {65..90} \<union> {97..122} \<union> {170, 181, 186} \<union> {192..214} \<union> {216..246} \<union> {248..255}"

definition tail_codes :: "nat set" where
  "tail_codes = letter_codes \<union> {48..57} \<union> {95, 183}"

definition plain_name :: "string \<Rightarrow> bool" where
  "plain_name s \<longleftrightarrow> (\<exists>c cs. s = c # cs \<and> code_of c \<in> letter_codes \<and> code_of ` set cs \<subseteq> tail_codes) \<and> (\<nexists>u v. s = u @ ''__'' @ v)"

definition signal_names :: "string set" where
  "signal_names = {''com_x_velocity_m_s'', ''target_speed_m_s''}"

definition function_arities :: "(string \<times> nat) set" where
  "function_arities = {(''abs'', 1), (''exp'', 1), (''sqrt'', 1), (''min'', 2), (''max'', 2), (''clip'', 3)}"

definition local_name :: "string \<Rightarrow> bool" where
  "local_name n \<longleftrightarrow> plain_name n \<and> n \<noteq> ''x'' \<and> n \<noteq> ''task_term'' \<and> n \<notin> fst ` function_arities"

definition number_literal :: "pyval \<Rightarrow> bool" where
  "number_literal v \<longleftrightarrow> (\<exists>n. v = PInt n \<and> \<bar>n\<bar> < 2 ^ 128) \<or> (\<exists>q. v = PFloat (Fin q))"

definition bounded_exponent :: "expr \<Rightarrow> bool" where
  "bounded_exponent e \<longleftrightarrow> (\<exists>n. e = EConst (PInt n) \<and> \<bar>n\<bar> \<le> 16) \<or> (\<exists>q. e = EConst (PFloat (Fin q)) \<and> \<bar>q\<bar> \<le> 16)"

section \<open>Sentences\<close>

inductive expr_in :: "string set \<Rightarrow> nat \<Rightarrow> expr \<Rightarrow> bool" for L where
  number: "number_literal v \<Longrightarrow> expr_in L d (EConst v)"
| input: "expr_in L d (EName ''x'')"
| variable: "n \<in> L \<Longrightarrow> plain_name n \<Longrightarrow> expr_in L d (EName n)"
| signal: "a \<in> signal_names \<Longrightarrow> expr_in L d (EAttr (EName ''x'') a)"
| arith: "op \<in> {Add, Sub, Mult, Div, FloorDiv, Mod} \<Longrightarrow> expr_in L d l \<Longrightarrow> expr_in L d r \<Longrightarrow> expr_in L d (EBin op l r)"
| power: "expr_in L d l \<Longrightarrow> bounded_exponent r \<Longrightarrow> expr_in L d (EBin Pow l r)"
| sign: "op \<in> {UAdd, USub, unary_op.Not} \<Longrightarrow> expr_in L d e \<Longrightarrow> expr_in L d (EUn op e)"
| connective: "2 \<le> length es \<Longrightarrow> \<forall>e \<in> set es. expr_in L d e \<Longrightarrow> expr_in L d (EBool op es)"
| comparison: "ops \<noteq> [] \<Longrightarrow> set ops \<subseteq> {Eq, NotEq, Lt, LtE, Gt, GtE} \<Longrightarrow> length cs = length ops \<Longrightarrow>
    expr_in L d l \<Longrightarrow> \<forall>c \<in> set cs. expr_in L d c \<Longrightarrow> expr_in L d (ECmp l ops cs)"
| conditional: "expr_in L d c \<Longrightarrow> expr_in L d a \<Longrightarrow> expr_in L d b \<Longrightarrow> expr_in L (Suc d) (EIf c a b)"
| call: "(n, length args) \<in> function_arities \<Longrightarrow> \<forall>e \<in> set args. expr_in L d e \<Longrightarrow> expr_in L d (ECall (EName n) args [])"

inductive stmts_in :: "string set \<Rightarrow> nat \<Rightarrow> stmt list \<Rightarrow> bool" for L where
  empty: "stmts_in L d []"
| assign: "local_name n \<Longrightarrow> expr_in L d e \<Longrightarrow> stmts_in L d ss \<Longrightarrow> stmts_in L d (SAssign [EName n] e # ss)"
| return: "expr_in L d e \<Longrightarrow> stmts_in L d ss \<Longrightarrow> stmts_in L d (SReturn (Some e) # ss)"
| branch: "expr_in L d c \<Longrightarrow> b \<noteq> [] \<Longrightarrow> stmts_in L d b \<Longrightarrow> stmts_in L d e \<Longrightarrow> stmts_in L (Suc d) ss \<Longrightarrow>
    stmts_in L (Suc d) (SIf c b e # ss)"

text \<open>A block has a control path that reaches its end without a return.\<close>

inductive falls_through :: "stmt list \<Rightarrow> bool" where
  stop: "falls_through []"
| pass: "falls_through ss \<Longrightarrow> (\<And>v. s \<noteq> SReturn v) \<Longrightarrow> (\<And>c b e. s \<noteq> SIf c b e) \<Longrightarrow> falls_through (s # ss)"
| take: "falls_through b \<Longrightarrow> falls_through ss \<Longrightarrow> falls_through (SIf c b e # ss)"
| skip: "falls_through e \<Longrightarrow> falls_through ss \<Longrightarrow> falls_through (SIf c b e # ss)"

text \<open>The names that a block assigns on some path, reached or not.\<close>

inductive assigns :: "stmt list \<Rightarrow> string \<Rightarrow> bool" where
  here: "assigns (SAssign [EName n] e # ss) n"
| later: "assigns ss n \<Longrightarrow> assigns (s # ss) n"
| then_branch: "assigns b n \<Longrightarrow> assigns (SIf c b e # ss) n"
| else_branch: "assigns e n \<Longrightarrow> assigns (SIf c b e # ss) n"

definition task_term_signature :: signature where
  "task_term_signature = \<lparr>sg_name = ''task_term'', sg_args = [(''x'', None)], sg_posonly = [], sg_kwonly = [], sg_vararg = None,
     sg_kwarg = None, sg_defaults = [], sg_kw_defaults = [], sg_decorators = [], sg_returns = None, sg_type_params = []\<rparr>"

text \<open>A task term: conditionals nest at most eight deep, the names read are assigned somewhere, and every path returns.\<close>

definition task_term_language :: "signature \<Rightarrow> stmt list \<Rightarrow> bool" where
  "task_term_language g body \<longleftrightarrow> g = task_term_signature \<and> stmts_in {n. assigns body n} 8 body \<and> \<not> falls_through body"

section \<open>The predicates of the validator define this language\<close>

lemma char_codes: "code_of c \<in> letter_codes \<longleftrightarrow> xid_start c" "code_of c \<in> tail_codes \<longleftrightarrow> xid_continue c"
proof -
  have "code_of c < 256" using of_char_of by (metis of_char_mod_256 mod_less_divisor zero_less_numeral)
  then have n: "code_of c \<le> 255" by linarith
  have "code_of c = code_of (CHR ''_'') \<longleftrightarrow> c = CHR ''_''" by (rule of_char_eq_iff)
  then have u: "c = CHR ''_'' \<longleftrightarrow> code_of c = 95" by simp
  show s: "code_of c \<in> letter_codes \<longleftrightarrow> xid_start c"
    using n by (auto simp: letter_codes_def xid_start_def is_alpha_def is_upper_def is_lower_def Let_def)
  show "code_of c \<in> tail_codes \<longleftrightarrow> xid_continue c"
    using s u by (auto simp: tail_codes_def xid_continue_def is_digit_def)
qed

lemma has_dunder_iff: "has_dunder s \<longleftrightarrow> (\<exists>u v. s = u @ ''__'' @ v)"
proof (induction s rule: has_dunder.induct)
  case (1 c d s)
  have "(\<exists>u v. c # d # s = u @ ''__'' @ v) \<longleftrightarrow> (c = CHR ''_'' \<and> d = CHR ''_'') \<or> (\<exists>u v. d # s = u @ ''__'' @ v)"
  proof
    assume "\<exists>u v. c # d # s = u @ ''__'' @ v"
    then obtain u v where "c # d # s = u @ ''__'' @ v" by blast
    then show "(c = CHR ''_'' \<and> d = CHR ''_'') \<or> (\<exists>u v. d # s = u @ ''__'' @ v)" by (cases u) auto
  next
    assume "(c = CHR ''_'' \<and> d = CHR ''_'') \<or> (\<exists>u v. d # s = u @ ''__'' @ v)"
    then show "\<exists>u v. c # d # s = u @ ''__'' @ v" by (metis append_Cons append_Nil)
  qed
  then show ?case using 1 by simp
qed (auto simp: Cons_eq_append_conv)

lemma xid_not_underscore: "xid_start c \<Longrightarrow> c \<noteq> CHR ''_''"
  by (auto simp: xid_start_def is_alpha_def is_upper_def is_lower_def Let_def)

lemma plain_name_iff: "plain_name s \<longleftrightarrow> is_public s"
proof -
  have "plain_name s \<longleftrightarrow> (\<exists>c cs. s = c # cs \<and> xid_start c \<and> list_all xid_continue cs) \<and> \<not> has_dunder s"
    unfolding plain_name_def has_dunder_iff[symmetric] char_codes image_subset_iff by (simp add: list_all_iff)
  then show ?thesis by (cases s) (auto simp: is_public_def is_identifier_text_def dest: xid_not_underscore)
qed

lemma local_name_iff: "local_name n \<longleftrightarrow> is_public n \<and> n \<notin> set reserved_names"
  by (auto simp: local_name_def plain_name_iff reserved_names_def SAFE_FUNCTION_NAMES_def CALL_ARITIES_def function_arities_def)

lemma number_literal_iff: "number_literal v \<longleftrightarrow> numeric_literal v = Inr ()"
proof (cases v)
  case (PFloat f)
  then show ?thesis by (cases f) (simp_all add: number_literal_def numeric_literal_def)
qed (auto simp: number_literal_def numeric_literal_def)

lemma float_of_int_le16: "float_of_int n = Some f \<Longrightarrow> f64_le (f64_abs f) (Fin 16) \<longleftrightarrow> \<bar>n\<bar> \<le> 16"
proof -
  assume f: "float_of_int n = Some f"
  show ?thesis
  proof (cases "\<bar>n\<bar> \<le> 2 ^ 53")
    case True
    then have "f = Fin (of_int n)" using f float_of_int_small by simp
    moreover have "\<bar>of_int n\<bar> \<le> (16 :: rat) \<longleftrightarrow> \<bar>n\<bar> \<le> 16" by linarith
    ultimately show ?thesis by simp
  next
    case False
    then have big: "n \<le> - 17 \<or> 17 \<le> n" by auto
    have r: "f64_round 17 = Fin 17" "f64_round (- 17) = Fin (- 17)"
      using f64_rep_round[OF f64_rep_of_int[of 17]] f64_rep_round[OF f64_rep_of_int[of "- 17"]] by simp_all
    have e: "f = f64_round (of_int n)" using f by (auto simp: float_of_int_def Let_def split: if_splits)
    from big have "f64_le (Fin 17) f \<or> f64_le f (Fin (- 17))"
      using f64_round_mono[of 17 "of_int n"] f64_round_mono[of "of_int n" "- 17"] by (auto simp: e r)
    then have "\<not> f64_le (f64_abs f) (Fin 16)" by (cases f) auto
    then show ?thesis using False by simp
  qed
qed

lemma bounded_exponent_iff: "bounded_exponent e \<longleftrightarrow> small_exponent e"
proof (cases e)
  case (EConst v)
  show ?thesis
  proof (cases v)
    case (PInt n)
    show ?thesis
    proof (cases "float_of_int n")
      case None
      then have "\<not> \<bar>n\<bar> \<le> 16" using float_of_int_small[of n] by (cases "\<bar>n\<bar> \<le> 2 ^ 53") auto
      then show ?thesis using None by (simp add: EConst PInt bounded_exponent_def small_exponent_def)
    next
      case (Some f)
      then show ?thesis using float_of_int_le16[OF Some] float_of_int_SomeD[OF Some]
        by (simp add: EConst PInt bounded_exponent_def small_exponent_def)
    qed
  next
    case (PFloat f)
    then show ?thesis by (cases f) (simp_all add: EConst bounded_exponent_def small_exponent_def)
  qed (simp_all add: EConst bounded_exponent_def small_exponent_def)
qed (simp_all add: bounded_exponent_def small_exponent_def)

lemma exponent_admitted: "small_exponent e \<Longrightarrow> admitted_expr ls e \<and> expr_depth e = 0"
  unfolding bounded_exponent_iff[symmetric] by (auto simp: bounded_exponent_def numeric_literal_def)

lemma function_arities_iff: "(n, k) \<in> function_arities \<longleftrightarrow> map_of CALL_ARITIES n = Some k"
  by (auto simp: function_arities_def CALL_ARITIES_def)

inductive_simps expr_in_simps [simp]:
  "expr_in L d (EConst v)" "expr_in L d (EOtherConst k)" "expr_in L d (EName n)" "expr_in L d (EAttr e a)" "expr_in L d (EBin op l r)"
  "expr_in L d (EUn u e)" "expr_in L d (EBool c es)" "expr_in L d (ECmp e ops cs)" "expr_in L d (EIf c a b)"
  "expr_in L d (ECall f args kws)" "expr_in L d (EStarred e)" "expr_in L d (ETuple es)" "expr_in L d (EList es)"
  "expr_in L d (ESet es)" "expr_in L d (EDict kvs)" "expr_in L d (EOther k m)"

inductive_simps stmts_in_simps [simp]:
  "stmts_in L d []" "stmts_in L d (SAssign ts e # ss)" "stmts_in L d (SReturn v # ss)" "stmts_in L d (SIf c b e # ss)"
  "stmts_in L d (SFunctionDef g b # ss)" "stmts_in L d (SOther k m # ss)"

inductive_simps falls_through_simps [simp]:
  "falls_through []" "falls_through (SAssign ts e # ss)" "falls_through (SReturn v # ss)" "falls_through (SIf c b e # ss)"
  "falls_through (SFunctionDef g b # ss)" "falls_through (SOther k m # ss)"

inductive_simps assigns_simps [simp]:
  "assigns [] n" "assigns (SAssign ts e # ss) n" "assigns (SReturn v # ss) n" "assigns (SIf c b e # ss) n"
  "assigns (SFunctionDef g b # ss) n" "assigns (SOther k m # ss) n"

lemma x_public: "is_public ''x''" by code_simp

lemma expr_in_iff: "expr_in (set ls) d e \<longleftrightarrow> admitted_expr ls e \<and> expr_depth e \<le> d"
proof (induction ls e arbitrary: d rule: admitted_expr.induct)
  case (4 ls op l r)
  then show ?case using exponent_admitted[of r ls]
    by (cases op) (auto simp: arithmetic_allowed_def bounded_exponent_iff)
next
  case (5 ls op e)
  then show ?case by (cases op) auto
next
  case (7 ls l ops cs)
  have "set ops \<subseteq> {Eq, NotEq, Lt, LtE, Gt, GtE} \<longleftrightarrow> (\<forall>op \<in> set ops. comparison_allowed op)"
  proof -
    have "op \<in> {Eq, NotEq, Lt, LtE, Gt, GtE} \<longleftrightarrow> comparison_allowed op" for op by (cases op) (simp_all add: comparison_allowed_def)
    then show ?thesis by blast
  qed
  with 7 show ?case by (auto simp: max_of_le)
next
  case (8 ls c a b)
  then show ?case by (cases d) auto
qed (auto simp: number_literal_iff plain_name_iff x_public signal_names_def CANDIDATE_READ_SET_V1_def max_of_le
      function_arities_iff split: expr.splits unary_op.splits)

lemma stmts_in_iff: "stmts_in (set ls) d ss \<longleftrightarrow> targets_ok ss \<and> admitted_stmts ls ss \<and> stmts_depth ss \<le> d"
proof (induction ls ss arbitrary: d rule: admitted_stmts.induct)
  case (2 ls ts e ss)
  have "(case ts of [EName n] \<Rightarrow> is_public n \<and> n \<notin> set reserved_names | _ \<Rightarrow> False) \<longleftrightarrow> (\<exists>n. ts = [EName n] \<and> local_name n)"
    by (cases ts; cases "tl ts") (auto simp: local_name_iff split: expr.splits)
  with 2 show ?case by (auto simp: expr_in_iff)
next
  case (5 ls c b e ss)
  then show ?case by (cases d) (auto simp: expr_in_iff)
qed (auto simp: expr_in_iff)

lemma falls_through_iff: "falls_through ss \<longleftrightarrow> \<not> block_always_returns ss"
  by (induction ss rule: block_always_returns.induct) auto

lemma assigns_iff: "assigns ss n \<longleftrightarrow> n \<in> set (assigned ss)"
  by (induction ss rule: assigned.induct) auto

lemma signature_iff: "g = task_term_signature \<longleftrightarrow> signature_ok g"
  by (cases g) (auto simp: task_term_signature_def signature_ok_def)

lemma language_iff: "task_term_language g body \<longleftrightarrow> term_ok g body"
proof -
  have "{n. assigns body n} = set (assigned body)" by (auto simp: assigns_iff)
  then show ?thesis
    by (auto simp: task_term_language_def term_ok_def signature_iff stmts_in_iff falls_through_iff MAX_CONDITIONAL_DEPTH_def)
qed

end
