(* ===== verification/TaskTermProperties.thy ===== *)
theory TaskTermProperties
  imports TaskTermRun TaskTermLanguage
begin

text \<open>
  The properties of the task-term language, its acceptance and its worker, with an example
  source whose arithmetic is binary64.
\<close>

section \<open>An example term\<close>

definition demo_signature :: signature where
  "demo_signature = \<lparr>sg_name = ''task_term'', sg_args = [(''x'', None)], sg_posonly = [], sg_kwonly = [], sg_vararg = None,
     sg_kwarg = None, sg_defaults = [], sg_kw_defaults = [], sg_decorators = [], sg_returns = None, sg_type_params = []\<rparr>"

text \<open>
  \<open>e = abs(x.com_x_velocity_m_s - x.target_speed_m_s)\<close>, then zero when \<open>e > 1.0\<close> and
  \<open>1.0 - e\<close> otherwise.
\<close>

definition demo_body :: "stmt list" where
  "demo_body = [
     SAssign [EName ''e''] (ECall (EName ''abs'') [EBin Sub (EAttr (EName ''x'') ''com_x_velocity_m_s'')
       (EAttr (EName ''x'') ''target_speed_m_s'')] []),
     SIf (ECmp (EName ''e'') [Gt] [EConst (PFloat (Fin 1))]) [SReturn (Some (EConst (PFloat (Fin 0))))] [],
     SReturn (Some (EBin Sub (EConst (PFloat (Fin 1))) (EName ''e'')))]"

definition demo_module :: "stmt list" where
  "demo_module = [SAssign [EName ''title''] (EConst (PStr ''demo'')), SFunctionDef demo_signature demo_body]"

definition demo_source :: string where "demo_source = ''demo''"

definition demo_term_parser :: parser where
  "demo_term_parser = (\<lambda>_. Some demo_module)"

fun demo_bin :: "bin_op \<Rightarrow> pyval operand \<Rightarrow> pyval operand \<Rightarrow> string + pyval operand" where
  "demo_bin Sub (Num (PFloat a)) (Num (PFloat b)) = Inr (Num (PFloat (f64_sub a b)))"
| "demo_bin Add (Num (PFloat a)) (Num (PFloat b)) = Inr (Num (PFloat (f64_add a b)))"
| "demo_bin Mult (Num (PFloat a)) (Num (PFloat b)) = Inr (Num (PFloat (f64_mul a b)))"
| "demo_bin _ _ _ = Inl ''TypeError''"

fun demo_cmp :: "cmp_op \<Rightarrow> pyval operand \<Rightarrow> pyval operand \<Rightarrow> string + pyval operand" where
  "demo_cmp Gt (Num (PFloat a)) (Num (PFloat b)) = Inr (Num (PBool (f64_lt b a)))"
| "demo_cmp Lt (Num (PFloat a)) (Num (PFloat b)) = Inr (Num (PBool (f64_lt a b)))"
| "demo_cmp _ _ _ = Inl ''TypeError''"

fun demo_call :: "string \<Rightarrow> pyval operand list \<Rightarrow> string + pyval operand" where
  "demo_call n [Num (PFloat a)] = (if n = ''abs'' then Inr (Num (PFloat (f64_abs a))) else Inl ''ValueError'')"
| "demo_call _ _ = Inl ''TypeError''"

definition demo_arithmetic :: "(pyval, string) arithmetic" where
  "demo_arithmetic = \<lparr>ar_const = (\<lambda>v. v), ar_bin = demo_bin, ar_un = (\<lambda>_ _. Inl ''TypeError''), ar_cmp = demo_cmp,
     ar_truth = (\<lambda>v. case v of Num (PBool b) \<Rightarrow> Inr b | _ \<Rightarrow> Inr True), ar_call = demo_call,
     ar_float = (\<lambda>v. case v of Num (PFloat f) \<Rightarrow> Some f | _ \<Rightarrow> None)\<rparr>"

definition demo_inputs :: task_inputs where
  "demo_inputs = \<lparr>com_x_velocity_m_s = Fin (5 / 4), target_speed_m_s = Fin 1\<rparr>"

lemma demo_term_ok: "term_ok demo_signature demo_body"
  unfolding term_ok_def by code_simp

lemma demo_nodes: "module_nodes demo_module \<le> MAX_AST_NODES"
  by (simp add: module_nodes_def demo_module_def demo_body_def demo_signature_def signature_nodes_def arg_nodes_def opt_nodes_def MAX_AST_NODES_def)

lemma demo_term_validates: "validate_module demo_module = Inr [(''title'', PStr ''demo'')]"
proof -
  have "literal_metadata demo_module = Inr [(''title'', PStr ''demo'')]" by code_simp
  moreover have "function_defs demo_module = [(demo_signature, demo_body)]" "\<not> has_async demo_module"
    by (simp_all add: function_defs_def has_async_def demo_module_def)
  ultimately show ?thesis
    using demo_term_ok demo_nodes by (simp add: validate_module_Inr)
qed

lemma demo_decodes: "source_bytes (SrcBytes demo_source) = Inr demo_source" "utf8_decode demo_source \<noteq> None"
proof -
  show d: "utf8_decode demo_source \<noteq> None" by code_simp
  show "source_bytes (SrcBytes demo_source) = Inr demo_source"
    using d by (simp add: source_bytes_def MAX_SOURCE_BYTES_def demo_source_def)
qed

lemma demo_parses: "parse_and_validate_task_term_source demo_term_parser (SrcBytes demo_source) =
    Inr (demo_source, demo_module, [(''title'', PStr ''demo'')])"
  using demo_decodes demo_term_validates by (auto simp: parse_and_validate_Inr demo_term_parser_def)

section \<open>The language and its acceptance\<close>

text \<open>
  C16. The function validator decides the declared language: it accepts exactly the task terms of the
  grammar (the one signature \<open>task_term(x)\<close>, assignments to single new names, the admitted operators, calls and
  literals, conditionals at most eight deep, names that some assignment defines, and no control path
  that falls through without a return), and what it returns are the names these assignments define.
\<close>

theorem validator_decides_language:
  "case validate_function g body of
      Inl err \<Rightarrow> \<not> task_term_language g body
    | Inr ls \<Rightarrow> task_term_language g body \<and> set ls = {n. assigns body n}"
proof (cases "validate_function g body")
  case (Inl err)
  then show ?thesis using validate_function_iff[of g body "rev (assigned body)"] by (simp add: language_iff)
next
  case (Inr ls)
  then show ?thesis using validate_function_iff[of g body ls] by (auto simp: language_iff assigns_iff)
qed

text \<open>
  C15. Whatever arithmetic the worker has, an accepted term yields a value or fails in the
  arithmetic, in the bounds of a clip, or at a local name it has not assigned yet.  It never
  reads another name or attribute, calls anything but the six functions, or falls off its end.
\<close>

theorem accepted_term_contained:
  assumes "parse_and_validate_task_term_source parser src = Inr (encoded, m, d)" "function_defs m = [(g, body)]"
  shows "case run_task_term A (map fst d) g body x of
      Inr v \<Rightarrow> True
    | Inl (Arithmetic e) \<Rightarrow> True
    | Inl ClipBounds \<Rightarrow> True
    | Inl (UnboundLocal n) \<Rightarrow> n \<in> set (assigned body)
    | Inl (Escape s) \<Rightarrow> False
    | Inl NoValue \<Rightarrow> False"
proof -
  have v: "term_ok g body" "literal_metadata m = Inr d"
    using assms by (auto simp: parse_and_validate_Inr validate_module_Inr)
  have "set (map fst d) \<inter> set SAFE_FUNCTION_NAMES = {}" using metadata_names[OF v(2)] by simp
  from term_contained[OF v(1) this, of A x] show ?thesis by (simp add: contained_def)
qed

theorem accepted_term_contained_witness:
  "case run_task_term demo_arithmetic [''title''] demo_signature demo_body demo_inputs of
      Inr v \<Rightarrow> True | Inl (Arithmetic e) \<Rightarrow> True | Inl ClipBounds \<Rightarrow> True
    | Inl (UnboundLocal n) \<Rightarrow> n \<in> set (assigned demo_body) | Inl (Escape s) \<Rightarrow> False | Inl NoValue \<Rightarrow> False"
  using accepted_term_contained[OF demo_parses, of demo_signature demo_body demo_arithmetic demo_inputs]
  by (simp add: function_defs_def demo_module_def)

text \<open>
  A statically validated source is current: checking it again against its receipt returns
  it, its bytes parse to a module the validator accepts, and the receipt has the digest and
  the length of these bytes.
\<close>

lemma accepted_source_current:
  assumes "statically_validate_task_term_source h parser src = Inr a"
  shows "assert_static_acceptance_current h parser a = Inr a \<and> source_bytes src = Inr (as_bytes a) \<and>
    rc_source_sha256 (as_receipt a) = sha256_hex h (as_bytes a) \<and>
    rc_source_bytes (as_receipt a) = int (length (as_bytes a)) \<and>
    (\<exists>m. parse_and_validate_task_term_source parser src = Inr (as_bytes a, m, rc_metadata (as_receipt a)) \<and>
      rc_ast_nodes (as_receipt a) = int (module_nodes m))"
proof -
  have d: "derive_static_acceptance h parser src = Inr (as_bytes a, as_receipt a)"
    using assms by (simp add: statically_validate_Inr)
  then obtain m md where p: "parse_and_validate_task_term_source parser src = Inr (as_bytes a, m, md)"
    and r: "mk_receipt (PStr (sha256_hex h (as_bytes a))) (PInt (int (length (as_bytes a)))) (PInt (int (module_nodes m)))
       (PTuple (map PStr CANDIDATE_READ_SET_V1)) (PDict md) (PStr STATIC_VALIDATION_SCOPE_V1) (PBool True)
       (PStr DYNAMIC_VALIDATION_NOT_PERFORMED) = Inr (as_receipt a)"
    by (auto simp: derive_static_acceptance_def)
  have "assert_static_acceptance_current h parser a = Inr a"
    using derive_again[OF d] by (simp add: assert_static_acceptance_current_def mk_accepted_def)
  then show ?thesis using p r by (auto simp: mk_receipt_Inr parse_and_validate_Inr)
qed

definition demo_receipt :: receipt where
  "demo_receipt = \<lparr>rc_source_sha256 = replicate 64 CHR ''a'', rc_source_bytes = 4, rc_ast_nodes = int (module_nodes demo_module),
     rc_read_set = CANDIDATE_READ_SET_V1, rc_metadata = [(''title'', PStr ''demo'')], rc_scope = STATIC_VALIDATION_SCOPE_V1,
     rc_accepted = True, rc_dynamic = DYNAMIC_VALIDATION_NOT_PERFORMED\<rparr>"

definition term_hasher :: hasher where
  "term_hasher = \<lparr>float_repr = (\<lambda>_. ''0''), sha256_hex = (\<lambda>_. replicate 64 CHR ''a'')\<rparr>"

lemma demo_receipt_made:
  "mk_receipt (PStr (replicate 64 CHR ''a'')) (PInt 4) (PInt (int (module_nodes demo_module)))
     (PTuple (map PStr CANDIDATE_READ_SET_V1)) (PDict [(''title'', PStr ''demo'')]) (PStr STATIC_VALIDATION_SCOPE_V1)
     (PBool True) (PStr DYNAMIC_VALIDATION_NOT_PERFORMED) = Inr demo_receipt"
proof -
  have "hex_digest (replicate 64 CHR ''a'')" by code_simp
  moreover have "1 \<le> module_nodes demo_module" by (simp add: module_nodes_def)
  ultimately show ?thesis using demo_nodes
    by (simp add: mk_receipt_Inr demo_receipt_def MAX_SOURCE_BYTES_def string_items_def CANDIDATE_READ_SET_V1_def)
qed

lemma demo_statically_validated:
  "statically_validate_task_term_source term_hasher demo_term_parser (SrcBytes demo_source) =
    Inr \<lparr>as_bytes = demo_source, as_receipt = demo_receipt\<rparr>"
  using demo_parses demo_receipt_made
  by (simp add: statically_validate_Inr derive_static_acceptance_def term_hasher_def demo_source_def)

lemma accepted_source_current_witness:
  "assert_static_acceptance_current term_hasher demo_term_parser \<lparr>as_bytes = demo_source, as_receipt = demo_receipt\<rparr> =
    Inr \<lparr>as_bytes = demo_source, as_receipt = demo_receipt\<rparr>"
  using accepted_source_current[OF demo_statically_validated] by blast

text \<open>
  A receipt that the constructor accepts is read back from its dictionary unchanged.
\<close>

lemma receipt_round_trip:
  assumes "mk_receipt sha size_v nodes_v read_set metadata scope accepted dynamic = Inr r"
  shows "receipt_from_dict (receipt_to_dict r) = Inr r"
  using assms by (rule receipt_round)

lemma receipt_round_trip_witness: "receipt_from_dict (receipt_to_dict demo_receipt) = Inr demo_receipt"
  by (rule receipt_round_trip[OF demo_receipt_made])

section \<open>The worker\<close>

text \<open>
  C17. The frames of a worker: either the bootstrap fails, with one error frame and exit code
  70, or it answers ready, then four values for each served batch, and ends with the quit
  frame and code 0 or an error frame and code 71.  Every value it sends is finite and within
  the envelope of 1000.
\<close>

theorem worker_protocol:
  assumes "run_worker A parser digest sources requests = (rs, code)"
  shows "(rs = [ErrorCode 1] \<and> code = 70) \<or>
    (\<exists>d batches. rs = Ready d # map Values batches @ [if code = 0 then QuitAck else ErrorCode 2] \<and>
      (code = 0 \<or> code = 71) \<and> (\<forall>b \<in> set batches. length b = 4 \<and> (\<forall>r \<in> set b. \<exists>q. r = Fin q \<and> \<bar>q\<bar> \<le> 1000)))"
proof (cases "bootstrap A parser digest sources")
  case None
  then show ?thesis using assms by (simp add: run_worker_def EXIT_SOURCE_BOOTSTRAP_FAILED_def)
next
  case (Some df)
  obtain d f where df: "df = (d, f)" by (cases df)
  obtain rs' where r: "run_requests A f requests = (rs', code)" "rs = Ready d # rs'"
    using assms Some df by (auto simp: run_worker_def split: prod.splits)
  have e: "in_envelope x \<Longrightarrow> \<exists>q. x = Fin q \<and> \<bar>q\<bar> \<le> 1000" for x
    by (cases x) (auto simp: in_envelope_def TASK_TERM_ABS_MAX_def)
  from run_requests_shape[OF r(1)] obtain batches where b:
    "rs' = map Values batches @ [if code = 0 then QuitAck else ErrorCode 2]" "code = 0 \<or> code = 71"
    "list_all (\<lambda>b. length b = 4 \<and> list_all in_envelope b) batches"
    by (auto simp: EXIT_REQUEST_OR_EVALUATION_FAILED_def)
  have "\<forall>b \<in> set batches. length b = 4 \<and> (\<forall>r \<in> set b. \<exists>q. r = Fin q \<and> \<bar>q\<bar> \<le> 1000)"
    using b(3) e by (simp add: list_all_iff)
  then show ?thesis using b(1,2) r(2) by blast
qed

definition demo_digest :: "string \<Rightarrow> string" where
  "demo_digest = (\<lambda>_. replicate 32 CHR ''d'')"

definition demo_source_stream :: string where
  "demo_source_stream = map char_of [0, 0, 0, 40 :: nat] @ ''RWS1'' @ replicate 32 CHR ''d'' @ demo_source"

definition demo_requests :: string where
  "demo_requests = map char_of [0, 0, 0, 1, 81 :: nat]"

lemma demo_worker: "run_worker demo_arithmetic demo_term_parser demo_digest demo_source_stream demo_requests =
    ([Ready (replicate 32 CHR ''d''), QuitAck], 0)"
proof -
  let ?frame = "''RWS1'' @ replicate 32 CHR ''d'' @ demo_source"
  have f: "read_frame SOURCE_FRAME_MAX_BYTES demo_source_stream = Some (?frame, [])"
    by (simp add: read_frame_def take_exact_def demo_source_stream_def demo_source_def big_endian_def
        SOURCE_FRAME_MAX_BYTES_def of_char_of Let_def)
  have d: "take 4 ?frame = SOURCE_MAGIC" "drop 36 ?frame = demo_source"
    "take 32 (drop 4 ?frame) = replicate 32 CHR ''d''" "\<not> length ?frame < 37"
    by (simp_all add: SOURCE_MAGIC_def demo_source_def)
  have "install_task_term demo_arithmetic demo_term_parser demo_source = Inr (run_task_term demo_arithmetic [''title''] demo_signature demo_body)"
    using demo_parses by (simp add: install_task_term_def function_defs_def demo_module_def)
  then have b: "bootstrap demo_arithmetic demo_term_parser demo_digest demo_source_stream =
      Some (replicate 32 CHR ''d'', run_task_term demo_arithmetic [''title''] demo_signature demo_body)"
    unfolding bootstrap_def f option.case prod.case d by (simp add: demo_digest_def) (simp add: demo_source_def)
  have "read_frame REQUEST_FRAME_MAX_BYTES demo_requests = Some ([char_of QUIT_OPCODE], [])"
    by (simp add: read_frame_def take_exact_def demo_requests_def big_endian_def REQUEST_FRAME_MAX_BYTES_def
        QUIT_OPCODE_def of_char_of Let_def)
  then have "run_requests demo_arithmetic f demo_requests = ([QuitAck], 0)" for f
    by (simp add: run_requests.simps)
  then show ?thesis by (simp add: run_worker_def b)
qed

theorem worker_protocol_witness:
  "\<exists>d batches. [Ready (replicate 32 CHR ''d''), QuitAck] = Ready d # map Values batches @ [QuitAck]"
  using worker_protocol[OF demo_worker] by auto

section \<open>A fault of the validator\<close>

text \<open>
  An integer exponent beyond the binary64 range is refused with \<open>OverflowError\<close>, which is not
  among the errors of static validation.
\<close>

lemma exponent_overflow_escapes:
  assumes "2 ^ 1024 \<le> n"
  shows "check_expr ls d (EBin Pow l (EConst (PInt n))) = Inl ExponentOverflow"
proof -
  have "of_int (2 ^ 1024) \<le> (of_int n :: rat)" using assms by (simp only: of_int_le_iff)
  then have "pow2 1024 \<le> of_int n" by (simp add: pow2_def)
  moreover have "round_rat (pow2 1024) = pow2 1024" using round_rat_scaled[of 1 1024] by simp
  ultimately have "pow2 1024 \<le> round_rat (of_int n)" using round_rat_mono[of "pow2 1024" "of_int n"] by simp
  then show ?thesis by (simp add: power_exponent_def float_of_int_def f64_round_def Let_def)
qed

end
