(* ===== verification/JsonDecode.thy ===== *)
theory JsonDecode
  imports PyValues
begin

text \<open>
  \<open>decode_json_object\<close> of \<^verbatim>\<open>src/oracle_composition/harness/contract.py\<close>.  The JSON scanner of the
  standard library is a parameter that turns bytes into the tree of what it read; the hooks
  the code passes to it (\<open>object_pairs_hook\<close>, \<open>parse_constant\<close>) and the bounded walk over the
  result are modelled here.
\<close>

section \<open>What the scanner reads\<close>

text \<open>\<open>JConst\<close> is one of the texts \<open>NaN\<close>, \<open>Infinity\<close>, \<open>-Infinity\<close>; an object keeps its pairs in
  document order, repeated keys included.\<close>

datatype json_text =
    JNull | JBool bool | JInt int | JFloat f64 | JStr string | JConst string
  | JArray "json_text list"
  | JObject "(string \<times> json_text) list"

datatype json_error =
    JsonSize | JsonInvalid | ForbiddenConstant string | DuplicateKey string
  | NotOneObject | JsonTooDeep | JsonTooManyNodes

definition MAX_JSON_BYTES :: nat where "MAX_JSON_BYTES = 256 * 1024"
definition MAX_JSON_DEPTH :: nat where "MAX_JSON_DEPTH = 64"
definition MAX_JSON_NODES :: nat where "MAX_JSON_NODES = 65536"

section \<open>The hooks\<close>

text \<open>\<open>_unique_object\<close>: the loop that inserts the pairs and raises at the first repeated key.\<close>

fun unique_object :: "(string \<times> pyval) list \<Rightarrow> (string \<times> pyval) list \<Rightarrow> json_error + (string \<times> pyval) list" where
  "unique_object result [] = Inr result"
| "unique_object result ((key, value) # pairs) =
     (if key \<in> fst ` set result then Inl (DuplicateKey key) else unique_object (result @ [(key, value)]) pairs)"

text \<open>The scanner calls the hooks bottom-up and in document order.\<close>

fun load_tree :: "json_text \<Rightarrow> json_error + pyval"
  and load_list :: "json_text list \<Rightarrow> json_error + pyval list"
  and load_pairs :: "(string \<times> json_text) list \<Rightarrow> json_error + (string \<times> pyval) list" where
  "load_tree JNull = Inr PNone"
| "load_tree (JBool b) = Inr (PBool b)"
| "load_tree (JInt n) = Inr (PInt n)"
| "load_tree (JFloat f) = Inr (PFloat f)"
| "load_tree (JStr s) = Inr (PStr s)"
| "load_tree (JConst c) = Inl (ForbiddenConstant c)"
| "load_tree (JArray xs) = bindE (load_list xs) (\<lambda>vs. Inr (PList vs))"
| "load_tree (JObject ps) = bindE (load_pairs ps) (\<lambda>vs. bindE (unique_object [] vs) (\<lambda>d. Inr (PDict d)))"
| "load_list [] = Inr []"
| "load_list (x # xs) = bindE (load_tree x) (\<lambda>v. bindE (load_list xs) (\<lambda>vs. Inr (v # vs)))"
| "load_pairs [] = Inr []"
| "load_pairs ((k, x) # ps) = bindE (load_tree x) (\<lambda>v. bindE (load_pairs ps) (\<lambda>vs. Inr ((k, v) # vs)))"

section \<open>The bounded walk\<close>

fun json_children :: "pyval \<Rightarrow> pyval list" where
  "json_children (PDict d) = map snd d"
| "json_children (PList xs) = xs"
| "json_children _ = []"

fun json_nodes :: "pyval \<Rightarrow> nat" where
  "json_nodes (PDict d) = Suc (sum_list (map (\<lambda>p. json_nodes (snd p)) d))"
| "json_nodes (PList xs) = Suc (sum_list (map json_nodes xs))"
| "json_nodes _ = 1"

fun json_depth :: "pyval \<Rightarrow> nat" where
  "json_depth (PDict d) = Suc (foldr max (map (\<lambda>p. json_depth (snd p)) d) 0)"
| "json_depth (PList xs) = Suc (foldr max (map json_depth xs) 0)"
| "json_depth _ = 1"

lemma json_nodes_children: "json_nodes v = Suc (sum_list (map json_nodes (json_children v)))"
  by (cases v) (auto simp: o_def)

lemma foldr_max_bound: "foldr max xs 0 \<le> (m::nat) \<longleftrightarrow> (\<forall>x \<in> set xs. x \<le> m)"
  by (induction xs) auto

lemma json_depth_le_iff: "json_depth v \<le> m \<longleftrightarrow> 1 \<le> m \<and> (\<forall>c \<in> set (json_children v). json_depth c \<le> m - 1)"
  by (cases m; cases v) (auto simp: foldr_max_bound)

text \<open>\<open>pending.pop()\<close> takes the last pushed item; \<open>count\<close> is the number of items seen.\<close>

function walk_json :: "(pyval \<times> nat) list \<Rightarrow> nat \<Rightarrow> json_error + unit" where
  "walk_json [] count = Inr ()"
| "walk_json ((item, d) # pending) count =
     (if MAX_JSON_DEPTH < d then Inl JsonTooDeep
      else if MAX_JSON_NODES < Suc count then Inl JsonTooManyNodes
      else walk_json (rev (map (\<lambda>c. (c, d + 1)) (json_children item)) @ pending) (Suc count))"
  by pat_completeness auto
termination
proof (relation "measure (\<lambda>(p, _). sum_list (map (json_nodes \<circ> fst) p))")
  fix item :: pyval and d count :: nat and pending :: "(pyval \<times> nat) list"
  have "sum_list (map (json_nodes \<circ> fst) (rev (map (\<lambda>c. (c, d + 1)) (json_children item)))) =
      sum_list (map json_nodes (json_children item))"
    by (simp add: rev_map[symmetric] o_def sum_list_rev)
  then show "((rev (map (\<lambda>c. (c, d + 1)) (json_children item)) @ pending, Suc count), (item, d) # pending, count)
      \<in> measure (\<lambda>(p, _). sum_list (map (json_nodes \<circ> fst) p))"
    using json_nodes_children[of item] by simp
qed simp

declare walk_json.simps [simp del]

lemma kids_nodes: "(\<Sum>a\<leftarrow>rev (map (\<lambda>c. (c, e)) cs). json_nodes (fst a)) = sum_list (map json_nodes cs)"
  by (simp add: rev_map[symmetric] o_def sum_list_rev)

lemma walk_json_iff: "walk_json pending count = Inr () \<longleftrightarrow>
    (\<forall>(v, d) \<in> set pending. d + json_depth v \<le> Suc MAX_JSON_DEPTH) \<and>
    (pending = [] \<or> count + sum_list (map (json_nodes \<circ> fst) pending) \<le> MAX_JSON_NODES)"
proof (induction pending count rule: walk_json.induct)
  case (1 count)
  show ?case by (simp add: walk_json.simps)
next
  case (2 item d pending count)
  have one: "1 \<le> json_depth item" by (cases item) auto
  show ?case
  proof (cases "MAX_JSON_DEPTH < d \<or> MAX_JSON_NODES < Suc count")
    case True
    moreover have "0 < json_nodes item" using json_nodes_children[of item] by simp
    ultimately show ?thesis using one by (auto simp: walk_json.simps)
  next
    case False
    have "d + json_depth item \<le> Suc MAX_JSON_DEPTH \<longleftrightarrow>
        (\<forall>c \<in> set (json_children item). d + 1 + json_depth c \<le> Suc MAX_JSON_DEPTH)"
      using False json_depth_le_iff[of item "Suc MAX_JSON_DEPTH - d"] by auto
    moreover have "json_children item = [] \<Longrightarrow> json_nodes item = 1"
      using json_nodes_children[of item] by simp
    ultimately show ?thesis
      using 2 False json_nodes_children[of item]
      by (auto simp: walk_json.simps ball_Un o_def kids_nodes)
  qed
qed

section \<open>The decoder\<close>

definition decode_json_object :: "(string \<Rightarrow> json_text option) \<Rightarrow> string \<Rightarrow> json_error + (string \<times> pyval) list" where
  "decode_json_object scan encoded =
     (if encoded = [] \<or> MAX_JSON_BYTES < length encoded then Inl JsonSize
      else case scan encoded of None \<Rightarrow> Inl JsonInvalid
      | Some doc \<Rightarrow> bindE (load_tree doc) (\<lambda>value. case value of
          PDict d \<Rightarrow> bindE (walk_json [(value, 1)] 0) (\<lambda>_. Inr d)
        | _ \<Rightarrow> Inl NotOneObject))"

text \<open>A value whose dictionaries have no repeated key, as every Python value.\<close>

fun dicts_ok :: "pyval \<Rightarrow> bool" where
  "dicts_ok (PDict d) = (distinct (map fst d) \<and> (\<forall>p \<in> set d. dicts_ok (snd p)))"
| "dicts_ok (PList xs) = (\<forall>x \<in> set xs. dicts_ok x)"
| "dicts_ok (PTuple xs) = (\<forall>x \<in> set xs. dicts_ok x)"
| "dicts_ok _ = True"

lemma unique_object_Inr:
  "unique_object result pairs = Inr d \<Longrightarrow> distinct (map fst result) \<Longrightarrow>
    d = result @ pairs \<and> distinct (map fst (result @ pairs))"
proof (induction result pairs rule: unique_object.induct)
  case (2 result key v pairs)
  then have new: "key \<notin> fst ` set result" "unique_object (result @ [(key, v)]) pairs = Inr d"
    by (simp_all split: if_splits)
  then have "distinct (map fst (result @ [(key, v)]))" using "2.prems"(2) by simp
  from "2.IH"[OF new this] show ?case by (simp only: append_assoc append.simps)
qed simp

lemma load_tree_dicts_ok:
  "load_tree t = Inr v \<Longrightarrow> dicts_ok v"
  "load_list ts = Inr vs \<Longrightarrow> \<forall>v \<in> set vs. dicts_ok v"
  "load_pairs ps = Inr d \<Longrightarrow> \<forall>p \<in> set d. dicts_ok (snd p)"
proof (induction t and ts and ps arbitrary: v and vs and d rule: load_tree_load_list_load_pairs.induct)
  case (8 ps)
  from "8.prems" obtain vs d where v: "load_pairs ps = Inr vs" "unique_object [] vs = Inr d" "v = PDict d"
    by auto
  then show ?case using "8.IH"[OF v(1)] unique_object_Inr[OF v(2)] by auto
next
  case (12 k x ps)
  then show ?case by (fastforce)
qed auto

lemma case_PDict_Inr: "(case v of PDict d \<Rightarrow> f d | _ \<Rightarrow> Inl e) = Inr x \<longleftrightarrow> (\<exists>d. v = PDict d \<and> f d = Inr x)"
  by (cases v) auto

lemma decode_json_object_InrD:
  assumes "decode_json_object scan encoded = Inr d"
  shows "dicts_ok (PDict d) \<and> json_depth (PDict d) \<le> MAX_JSON_DEPTH \<and> json_nodes (PDict d) \<le> MAX_JSON_NODES \<and>
    encoded \<noteq> [] \<and> length encoded \<le> MAX_JSON_BYTES"
proof -
  from assms obtain doc where t: "load_tree doc = Inr (PDict d)" "walk_json [(PDict d, 1)] 0 = Inr ()"
      "encoded \<noteq> []" "length encoded \<le> MAX_JSON_BYTES"
    by (auto simp: decode_json_object_def case_PDict_Inr split: if_splits option.splits)
  then show ?thesis using load_tree_dicts_ok(1)[OF t(1)] walk_json_iff[of "[(PDict d, 1)]" 0] by auto
qed

section \<open>Properties\<close>

text \<open>
  What \<open>decode_json_object\<close> returns is a bounded object without repeated keys at any level
  and without the constants \<open>NaN\<close> and \<open>Infinity\<close>: the explicit stack enforces depth at most 64
  and at most 65536 nodes on the whole value, and the input had between 1 byte and 256 KiB.
\<close>

lemma decoded_object_bounded:
  assumes "decode_json_object scan encoded = Inr d"
  shows "dicts_ok (PDict d) \<and> json_depth (PDict d) \<le> 64 \<and> json_nodes (PDict d) \<le> 65536 \<and>
    1 \<le> length encoded \<and> length encoded \<le> 262144"
  using decode_json_object_InrD[OF assms]
  by (cases encoded) (simp_all add: MAX_JSON_DEPTH_def MAX_JSON_NODES_def MAX_JSON_BYTES_def)

definition demo_scan :: "string \<Rightarrow> json_text option" where
  "demo_scan encoded = (if encoded = ''{a:1}'' then Some (JObject [(''a'', JInt 1)])
     else if encoded = ''{a:1,a:2}'' then Some (JObject [(''a'', JInt 1), (''a'', JInt 2)]) else None)"

lemma decoded_object_bounded_witness:
  "dicts_ok (PDict [(''a'', PInt 1)]) \<and> decode_json_object demo_scan ''{a:1,a:2}'' = Inl (DuplicateKey ''a'')"
proof
  have d: "decode_json_object demo_scan ''{a:1}'' = Inr [(''a'', PInt 1)]"
    by (simp add: decode_json_object_def demo_scan_def walk_json.simps
        MAX_JSON_BYTES_def MAX_JSON_DEPTH_def MAX_JSON_NODES_def)
  from decoded_object_bounded[OF this] show "dicts_ok (PDict [(''a'', PInt 1)])" by blast
  show "decode_json_object demo_scan ''{a:1,a:2}'' = Inl (DuplicateKey ''a'')"
    by (simp add: decode_json_object_def demo_scan_def MAX_JSON_BYTES_def)
qed

text \<open>The loop stopped after \<open>n\<close> rounds: \<open>None\<close> when it is still running.\<close>

fun walk_rounds :: "nat \<Rightarrow> (pyval \<times> nat) list \<Rightarrow> nat \<Rightarrow> (json_error + unit) option" where
  "walk_rounds 0 pending count = None"
| "walk_rounds (Suc n) [] count = Some (Inr ())"
| "walk_rounds (Suc n) ((item, d) # pending) count =
     (if MAX_JSON_DEPTH < d then Some (Inl JsonTooDeep)
      else if MAX_JSON_NODES < Suc count then Some (Inl JsonTooManyNodes)
      else walk_rounds n (rev (map (\<lambda>c. (c, d + 1)) (json_children item)) @ pending) (Suc count))"

lemma walk_rounds_enough: "MAX_JSON_NODES < n + count \<Longrightarrow> 0 < n \<Longrightarrow> walk_rounds n pending count = Some (walk_json pending count)"
proof (induction pending count arbitrary: n rule: walk_json.induct)
  case (1 count)
  then show ?case by (cases n) (simp_all add: walk_json.simps)
next
  case (2 item d pending count)
  then obtain k where n: "n = Suc k" by (cases n) auto
  show ?case
  proof (cases "MAX_JSON_DEPTH < d \<or> MAX_JSON_NODES < Suc count")
    case True
    then show ?thesis by (auto simp: n walk_json.simps)
  next
    case False
    then have "MAX_JSON_NODES < k + Suc count" "0 < k" using 2(2) by (simp_all add: n)
    with "2.IH" False show ?thesis by (simp add: n walk_json.simps)
  qed
qed

text \<open>
  C40. The walk over a decoded value ends within 65537 rounds and with the verdict of \<open>walk_json\<close>,
  whatever the value: the node count is a bound on the work, also for a document of any size and depth.
\<close>

theorem walk_terminates: "walk_rounds (65536 + 1) [(v, 1)] 0 = Some (walk_json [(v, 1)] 0)"
  by (rule walk_rounds_enough) (simp_all add: MAX_JSON_NODES_def)

end
