(* ===== verification/SpeedFormula.thy ===== *)
theory SpeedFormula
  imports TaskTermRun JsonDecode
begin

text \<open>
  The trusted target-speed formula in binary64: \<^verbatim>\<open>src/oracle_composition/rewards/target_speed_formula.py\<close>
  (the recipe, its parser, the evaluation), \<^verbatim>\<open>target_speed_formula_t2.py\<close> and \<^verbatim>\<open>task_inputs_v2.py\<close> beside
  it (the fixed target of 3 m/s), and the certificate of \<^verbatim>\<open>src/oracle_composition/phase_b/task_input_admission.py\<close>.
  The interface \<open>speed_target\<close> holds what is proved of the arithmetic for any positive target.
\<close>

section \<open>Rounded values in an interval\<close>

definition fin_in :: "f64 \<Rightarrow> rat \<Rightarrow> rat \<Rightarrow> bool" where
  "fin_in x a b \<longleftrightarrow> (\<exists>q. x = Fin q \<and> f64_rep q \<and> a \<le> q \<and> q \<le> b)"

lemma fin_in_iff: "fin_in (Fin q) a b \<longleftrightarrow> f64_rep q \<and> a \<le> q \<and> q \<le> b"
  by (auto simp: fin_in_def)

lemma round_in:
  assumes "f64_rep a" "f64_rep b" "a \<le> q" "q \<le> b"
  shows "fin_in (f64_round q) a b"
proof -
  have "a \<le> round_rat q" "round_rat q \<le> b"
    using assms round_rat_mono[of a q] round_rat_mono[of q b] by (simp_all add: f64_rep_def)
  moreover from this assms(1,2) have "\<bar>round_rat q\<bar> < pow2 1024" by (auto simp: f64_rep_def abs_less_iff)
  ultimately show ?thesis by (auto simp: fin_in_def f64_round_def Let_def abs_less_iff f64_rep_def)
qed

lemma f64_rep_quarters:
  assumes "\<bar>m\<bar> \<le> 2 ^ 53"
  shows "f64_rep (of_int m / 4)"
proof -
  have q: "(of_int m / 4 :: rat) = of_int m * pow2 (- 2)" by (simp add: pow2_def)
  have "\<bar>of_int m :: rat\<bar> < pow2 1024" using f64_rep_of_int[OF assms] by (simp add: f64_rep_def)
  moreover have "\<bar>of_int m / 4 :: rat\<bar> \<le> \<bar>of_int m\<bar>" by simp
  ultimately show ?thesis using round_rat_scaled[OF assms, of "- 2"] by (simp add: f64_rep_def q[symmetric])
qed

lemma f64_rep_pow2:
  assumes "- 1074 \<le> e" "e < 1024"
  shows "f64_rep (pow2 e)"
  using round_rat_scaled[of 1 e] assms by (simp add: f64_rep_def)

lemma f64_rep_consts [simp]:
  "f64_rep 0" "f64_rep 1" "f64_rep 3" "f64_rep 4" "f64_rep 5" "f64_rep 10" "f64_rep (- 10)" "f64_rep 15" "f64_rep 25" "f64_rep (- 25)"
  "f64_rep (1 / 4)" "f64_rep (1 / 2)" "f64_rep (3 / 2)" "f64_rep (5 / 4)" "f64_rep (- (5 / 4))"
  using f64_rep_quarters[of 0] f64_rep_quarters[of 4] f64_rep_quarters[of 12] f64_rep_quarters[of 16]
    f64_rep_quarters[of 20] f64_rep_quarters[of 40] f64_rep_quarters[of "- 40"] f64_rep_quarters[of 60]
    f64_rep_quarters[of 100] f64_rep_quarters[of "- 100"]
    f64_rep_quarters[of 1] f64_rep_quarters[of 2] f64_rep_quarters[of 6] f64_rep_quarters[of 5] f64_rep_quarters[of "- 5"]
  by simp_all

text \<open>Division of floats: \<open>ZeroDivisionError\<close> is \<open>None\<close>.\<close>

fun f64_div :: "f64 \<Rightarrow> f64 \<Rightarrow> f64 option" where
  "f64_div NaN b = (if b = Fin 0 then None else Some NaN)"
| "f64_div a NaN = Some NaN"
| "f64_div (Fin a) (Fin b) = (if b = 0 then None else Some (f64_round (a / b)))"
| "f64_div (Fin a) _ = Some (Fin 0)"
| "f64_div PosInf (Fin b) = (if b = 0 then None else Some (if 0 < b then PosInf else NegInf))"
| "f64_div NegInf (Fin b) = (if b = 0 then None else Some (if 0 < b then NegInf else PosInf))"
| "f64_div _ _ = Some NaN"

text \<open>\<open>min(1.0, n)\<close>: the second argument only when it is smaller.\<close>

definition py_min :: "f64 \<Rightarrow> f64 \<Rightarrow> f64" where
  "py_min a b = (if f64_lt b a then b else a)"

section \<open>The recipe\<close>

definition FORMULA_ID :: string where "FORMULA_ID = ''target_speed_triangular_affine/v1''"
definition MAX_RECIPE_BYTES :: nat where "MAX_RECIPE_BYTES = 1024"
definition ALPHA_MIN :: f64 where "ALPHA_MIN = Fin (1 / 4)"
definition ALPHA_MAX :: f64 where "ALPHA_MAX = Fin 4"
definition BETA_MIN :: f64 where "BETA_MIN = Fin (- 10)"
definition BETA_MAX :: f64 where "BETA_MAX = Fin 10"
definition BASE_SCALE :: f64 where "BASE_SCALE = Fin (5 / 4)"
definition OUTPUT_MIN :: f64 where "OUTPUT_MIN = Fin (- 10)"
definition OUTPUT_MAX :: f64 where "OUTPUT_MAX = Fin 15"

datatype formula_error =
    FormulaIdDiffers | RecipeNotNumber string | RecipeNotFinite string | AlphaOutside | BetaOutside
  | RecipeTooLong | RecipeBytes | RecipeJson | RecipeKeysDiffer
  | RecipeForged | InputNotFinite | TargetNotFrozen | OutputEnvelope | ZeroDivision
  | InputsRefused | AdmissionRefused string

record recipe =
  re_alpha :: f64
  re_beta :: f64

text \<open>\<open>_safe_float\<close>: the built-in numbers, with the \<open>OverflowError\<close> caught.\<close>

definition safe_float :: "string \<Rightarrow> pyval \<Rightarrow> formula_error + f64" where
  "safe_float field v = (case read_number v of
       NotNumeric \<Rightarrow> Inl (RecipeNotNumber field)
     | Overflow \<Rightarrow> Inl (RecipeNotFinite field)
     | Number f \<Rightarrow> if is_finite f then Inr f else Inl (RecipeNotFinite field))"

definition between :: "f64 \<Rightarrow> f64 \<Rightarrow> f64 \<Rightarrow> bool" where
  "between lo hi x \<longleftrightarrow> f64_le lo x \<and> f64_le x hi"

definition mk_recipe :: "pyval \<Rightarrow> pyval \<Rightarrow> pyval \<Rightarrow> formula_error + recipe" where
  "mk_recipe fid alpha beta = (if fid \<noteq> PStr FORMULA_ID then Inl FormulaIdDiffers
     else bindE (safe_float ''alpha'' alpha) (\<lambda>a. bindE (safe_float ''beta'' beta) (\<lambda>b.
       if \<not> between ALPHA_MIN ALPHA_MAX a then Inl AlphaOutside
       else if \<not> between BETA_MIN BETA_MAX b then Inl BetaOutside
       else Inr \<lparr>re_alpha = a, re_beta = b\<rparr>)))"

definition recipe_to_dict :: "recipe \<Rightarrow> pyval" where
  "recipe_to_dict r = PDict [(''formula_id'', PStr FORMULA_ID), (''alpha'', PFloat (re_alpha r)), (''beta'', PFloat (re_beta r))]"

definition recipe_bytes :: "(f64 \<Rightarrow> string) \<Rightarrow> recipe \<Rightarrow> formula_error + string" where
  "recipe_bytes fr r = (let encoded = canonical_json fr (recipe_to_dict r) in
     if MAX_RECIPE_BYTES < length encoded then Inl RecipeTooLong else Inr encoded)"

definition RECIPE_KEYS :: "string list" where "RECIPE_KEYS = [''formula_id'', ''alpha'', ''beta'']"

text \<open>The scanner reads the bytes; the hooks refuse repeated keys and the JSON constants.\<close>

definition parse_target_speed_formula_recipe :: "(string \<Rightarrow> json_text option) \<Rightarrow> string \<Rightarrow> formula_error + recipe" where
  "parse_target_speed_formula_recipe scanner encoded =
     (if encoded = [] \<or> MAX_RECIPE_BYTES < length encoded then Inl RecipeBytes
      else case scanner encoded of None \<Rightarrow> Inl RecipeJson
        | Some t \<Rightarrow> (case load_tree t of Inl _ \<Rightarrow> Inl RecipeJson
          | Inr v \<Rightarrow> (case v of
              PDict d \<Rightarrow> if \<not> keys_are RECIPE_KEYS d then Inl RecipeKeysDiffer
                else mk_recipe (item d ''formula_id'') (item d ''alpha'') (item d ''beta'')
            | _ \<Rightarrow> Inl RecipeKeysDiffer)))"

definition recipe_ok :: "recipe \<Rightarrow> bool" where
  "recipe_ok r \<longleftrightarrow> fin_in (re_alpha r) (1 / 4) 4 \<and> fin_in (re_beta r) (- 10) 10"

section \<open>Evaluation\<close>

definition formula_base :: "f64 \<Rightarrow> f64 \<Rightarrow> formula_error + f64" where
  "formula_base velocity target = (let error = f64_abs (f64_sub velocity target) in
     bindE (if f64_le target error then Inr (Fin 1)
            else case f64_div error target of None \<Rightarrow> Inl ZeroDivision | Some n \<Rightarrow> Inr n) (\<lambda>normalized.
       Inr (f64_mul BASE_SCALE (f64_sub (Fin 1) (py_min (Fin 1) normalized)))))"

definition formula_output :: "recipe \<Rightarrow> f64 \<Rightarrow> f64" where
  "formula_output r base = f64_add (f64_mul (re_alpha r) base) (re_beta r)"

definition formula_value :: "recipe \<Rightarrow> f64 \<Rightarrow> f64 \<Rightarrow> formula_error + f64" where
  "formula_value r velocity target = bindE (formula_base velocity target) (\<lambda>base.
     let output = formula_output r base in
     if \<not> is_finite base \<or> \<not> between (Fin 0) BASE_SCALE base \<or> \<not> is_finite output \<or> \<not> between OUTPUT_MIN OUTPUT_MAX output
     then Inl OutputEnvelope else Inr output)"

definition evaluate_target_speed_formula :: "recipe \<Rightarrow> task_inputs \<Rightarrow> formula_error + f64" where
  "evaluate_target_speed_formula r x =
     (if \<not> is_finite (re_alpha r) \<or> \<not> is_finite (re_beta r) then Inl (RecipeNotFinite ''recipe'')
      else if \<not> between ALPHA_MIN ALPHA_MAX (re_alpha r) \<or> \<not> between BETA_MIN BETA_MAX (re_beta r) then Inl RecipeForged
      else if \<not> is_finite (com_x_velocity_m_s x) then Inl InputNotFinite
      else if \<not> is_finite (target_speed_m_s x) \<or> \<not> list_ex (f64_eq (target_speed_m_s x)) TARGET_SPEEDS_M_S then Inl TargetNotFrozen
      else formula_value r (com_x_velocity_m_s x) (target_speed_m_s x))"

section \<open>The fixed target of 3 m/s\<close>

definition TARGET_SPEED_M_S :: f64 where "TARGET_SPEED_M_S = Fin 3"

text \<open>\<open>validate_task_inputs_v2\<close>, on the two slots of an instance of the exact class.\<close>

definition validate_task_inputs_v2 :: "pyval \<times> pyval \<Rightarrow> formula_error + task_inputs" where
  "validate_task_inputs_v2 = (\<lambda>(velocity, target).
     bindE (safe_float ''com_x_velocity_m_s'' velocity) (\<lambda>v. bindE (safe_float ''target_speed_m_s'' target) (\<lambda>t.
       if \<not> f64_eq t TARGET_SPEED_M_S then Inl TargetNotFrozen
       else Inr \<lparr>com_x_velocity_m_s = v, target_speed_m_s = t\<rparr>)))"

definition inputs_slots :: "task_inputs \<Rightarrow> pyval \<times> pyval" where
  "inputs_slots x = (PFloat (com_x_velocity_m_s x), PFloat (target_speed_m_s x))"

definition inputs_v2_to_dict :: "task_inputs \<Rightarrow> formula_error + pyval" where
  "inputs_v2_to_dict x = bindE (validate_task_inputs_v2 (inputs_slots x)) (\<lambda>y. Inr (inputs_to_dict y))"

definition validated_recipe_copy :: "recipe \<Rightarrow> formula_error + recipe" where
  "validated_recipe_copy r = mk_recipe (PStr FORMULA_ID) (PFloat (re_alpha r)) (PFloat (re_beta r))"

definition evaluate_target_speed_formula_t2 :: "recipe \<Rightarrow> task_inputs \<Rightarrow> formula_error + f64" where
  "evaluate_target_speed_formula_t2 r x = bindE (validated_recipe_copy r) (\<lambda>r'.
     bindE (validate_task_inputs_v2 (inputs_slots x)) (\<lambda>y. formula_value r' (com_x_velocity_m_s y) (target_speed_m_s y)))"

section \<open>The admission certificate\<close>

definition TASK_INPUT_ADMISSION_ID :: string where "TASK_INPUT_ADMISSION_ID = ''phase_b_stock_com_task_input_admission/v1''"
definition MEASUREMENT_ORIGIN :: string where
  "MEASUREMENT_ORIGIN = ''stock_body_mass_weighted_com_x_delta_over_control_period''"
definition NUMERIC_REPRESENTATION :: string where
  "NUMERIC_REPRESENTATION = ''builtin_float_from_little_endian_float64_measurement''"

text \<open>The literals 0.015 and the admitted range.\<close>

definition CONTROL_PERIOD_SECONDS :: f64 where "CONTROL_PERIOD_SECONDS = f64_round (15 / 1000)"
definition VELOCITY_MIN_M_S :: f64 where "VELOCITY_MIN_M_S = Fin (- 25)"
definition VELOCITY_MAX_M_S :: f64 where "VELOCITY_MAX_M_S = Fin 25"

record admitted_inputs =
  ad_inputs :: task_inputs
  ad_origin :: string
  ad_representation :: string
  ad_cadence :: f64
  ad_id :: string

definition validate_velocity :: "pyval \<Rightarrow> formula_error + f64" where
  "validate_velocity v = (case v of
       PFloat f \<Rightarrow> if between VELOCITY_MIN_M_S VELOCITY_MAX_M_S f then Inr f else Inl (AdmissionRefused ''range'')
     | _ \<Rightarrow> Inl (AdmissionRefused ''representation''))"

definition admit_task_inputs_v2 :: "pyval \<Rightarrow> pyval \<Rightarrow> pyval \<Rightarrow> pyval \<Rightarrow> formula_error + admitted_inputs" where
  "admit_task_inputs_v2 velocity origin cadence form =
     bindE (validate_velocity velocity) (\<lambda>v.
       if origin \<noteq> PStr MEASUREMENT_ORIGIN then Inl (AdmissionRefused ''origin'')
       else (case cadence of
           PFloat c \<Rightarrow> if \<not> f64_eq c CONTROL_PERIOD_SECONDS then Inl (AdmissionRefused ''cadence'')
             else if form \<noteq> PStr NUMERIC_REPRESENTATION then Inl (AdmissionRefused ''representation'')
             else bindE (validate_task_inputs_v2 (PFloat v, PFloat (Fin 3))) (\<lambda>x.
               Inr \<lparr>ad_inputs = x, ad_origin = MEASUREMENT_ORIGIN, ad_representation = NUMERIC_REPRESENTATION,
                    ad_cadence = c, ad_id = TASK_INPUT_ADMISSION_ID\<rparr>)
         | _ \<Rightarrow> Inl (AdmissionRefused ''cadence'')))"

definition validate_admitted_task_inputs_v2 :: "admitted_inputs \<Rightarrow> formula_error + task_inputs" where
  "validate_admitted_task_inputs_v2 a =
     (if ad_id a \<noteq> TASK_INPUT_ADMISSION_ID \<or> ad_origin a \<noteq> MEASUREMENT_ORIGIN \<or> ad_representation a \<noteq> NUMERIC_REPRESENTATION
        \<or> \<not> f64_eq (ad_cadence a) CONTROL_PERIOD_SECONDS then Inl (AdmissionRefused ''certificate'')
      else bindE (validate_task_inputs_v2 (inputs_slots (ad_inputs a))) (\<lambda>x.
        bindE (validate_velocity (PFloat (com_x_velocity_m_s x))) (\<lambda>_. Inr (ad_inputs a))))"

section \<open>The arithmetic of one target\<close>

lemma f64_round_uminus: "f64_round (- x) = f64_neg (f64_round x)"
proof -
  have "(0::rat) < pow2 1024" by simp
  then have "pow2 1024 \<le> r \<Longrightarrow> \<not> pow2 1024 \<le> - r" for r by linarith
  then show ?thesis by (auto simp: f64_round_def Let_def round_rat_uminus)
qed

lemma f64_abs_round: "f64_abs (f64_round x) = f64_round \<bar>x\<bar>"
proof (cases "0 \<le> x")
  case True
  then have "0 \<le> round_rat x" by (rule round_rat_nonneg)
  then show ?thesis using True pow2_pos[of 1024] by (auto simp: f64_round_def Let_def)
next
  case False
  then have "0 \<le> round_rat (- x)" by (intro round_rat_nonneg) simp
  then have "f64_abs (f64_neg (f64_round (- x))) = f64_round (- x)"
    using pow2_pos[of 1024] by (auto simp: f64_round_def Let_def)
  then show ?thesis using False f64_round_uminus[of "- x"] by simp
qed

lemma f64_round_nonneg: "0 \<le> x \<Longrightarrow> f64_round x = PosInf \<or> (\<exists>q. f64_round x = Fin q \<and> 0 \<le> q)"
  using round_rat_nonneg[of x] pow2_pos[of 1024] by (auto simp: f64_round_def Let_def)

lemma f64_le_Fin_trans: "f64_le (Fin a) x \<Longrightarrow> f64_le x y \<Longrightarrow> f64_le (Fin a) y"
  by (rule f64_le_trans)

text \<open>
  What the formula relies on of its target: a positive binary64 value.  The base is a value in
  \<open>[0, 1.25]\<close> that does not grow with the distance from the target.
\<close>

locale speed_target =
  fixes t :: rat
  assumes t_rep: "f64_rep t" and t_pos: "0 < t"
begin

definition ratio :: "f64 \<Rightarrow> f64" where
  "ratio e = (if f64_le (Fin t) e then Fin 1 else case e of Fin q \<Rightarrow> f64_round (q / t) | _ \<Rightarrow> NaN)"

definition triangle :: "f64 \<Rightarrow> f64" where
  "triangle e = f64_mul BASE_SCALE (f64_sub (Fin 1) (py_min (Fin 1) (ratio e)))"

lemma ratio_in:
  assumes "f64_le (Fin 0) e"
  shows "fin_in (ratio e) 0 1"
proof (cases "f64_le (Fin t) e")
  case False
  then obtain q where q: "e = Fin q" "0 \<le> q" "q < t" using assms by (cases e) auto
  then have "q / t \<le> 1" using t_pos by simp
  then have "fin_in (f64_round (q / t)) 0 1" using q t_pos by (intro round_in) simp_all
  then show ?thesis using False q by (simp add: ratio_def)
qed (simp add: ratio_def fin_in_iff)

lemma ratio_mono:
  assumes "f64_le (Fin 0) a" "f64_le a b"
  shows "f64_le (ratio a) (ratio b)"
proof (cases "f64_le (Fin t) b")
  case True
  then show ?thesis using ratio_in[OF assms(1)] by (auto simp: fin_in_def ratio_def[of b])
next
  case False
  then obtain q where q: "b = Fin q" "q < t" using assms by (cases b; cases a) auto
  then obtain p where p: "a = Fin p" "0 \<le> p" "p \<le> q" using assms by (cases a) auto
  then have "p / t \<le> q / t" using t_pos by (simp add: divide_right_mono)
  from f64_round_mono[OF this] show ?thesis using p q by (simp add: ratio_def)
qed

lemma triangle_eq:
  assumes "f64_le (Fin 0) e"
  obtains n where "ratio e = Fin n" "0 \<le> n" "n \<le> 1" "triangle e = f64_mul BASE_SCALE (f64_round (1 - n))"
proof -
  obtain n where n: "ratio e = Fin n" "0 \<le> n" "n \<le> 1" using ratio_in[OF assms] by (auto simp: fin_in_def)
  then have "py_min (Fin 1) (ratio e) = Fin n" by (auto simp: py_min_def)
  then show thesis using n by (intro that[of n]) (simp_all add: triangle_def f64_sub_def)
qed

lemma triangle_in: "f64_le (Fin 0) e \<Longrightarrow> fin_in (triangle e) 0 (5 / 4)"
proof -
  assume "f64_le (Fin 0) e"
  then obtain n where n: "0 \<le> n" "n \<le> 1" "triangle e = f64_mul BASE_SCALE (f64_round (1 - n))" by (rule triangle_eq)
  have "fin_in (f64_round (1 - n)) 0 1" using n by (intro round_in) simp_all
  then obtain s where "f64_round (1 - n) = Fin s" "0 \<le> s" "s \<le> 1" by (auto simp: fin_in_def)
  then show ?thesis using n(3) by (simp add: BASE_SCALE_def) (rule round_in; simp)
qed

lemma triangle_antimono:
  assumes "f64_le (Fin 0) a" "f64_le a b"
  shows "f64_le (triangle b) (triangle a)"
proof -
  have b0: "f64_le (Fin 0) b" using assms by (rule f64_le_Fin_trans)
  obtain m where m: "ratio a = Fin m" "0 \<le> m" "m \<le> 1" "triangle a = f64_mul BASE_SCALE (f64_round (1 - m))" using assms(1) by (rule triangle_eq)
  obtain n where n: "ratio b = Fin n" "0 \<le> n" "n \<le> 1" "triangle b = f64_mul BASE_SCALE (f64_round (1 - n))" using b0 by (rule triangle_eq)
  have "m \<le> n" using ratio_mono[OF assms] m(1) n(1) by simp
  moreover obtain x y where "f64_round (1 - m) = Fin x" "f64_round (1 - n) = Fin y"
    using round_in[of 0 1 "1 - m"] round_in[of 0 1 "1 - n"] m n by (auto simp: fin_in_def)
  ultimately show ?thesis
    using f64_round_mono[of "1 - n" "1 - m"] m(4) n(4) by (auto simp: BASE_SCALE_def intro!: f64_round_mono)
qed

lemma base_eq: "formula_base (Fin v) (Fin t) = Inr (triangle (f64_round \<bar>v - t\<bar>))"
proof -
  let ?e = "f64_round \<bar>v - t\<bar>"
  have e: "f64_abs (f64_sub (Fin v) (Fin t)) = ?e" by (simp add: f64_sub_def f64_abs_round)
  have "(if f64_le (Fin t) ?e then Inr (Fin 1) else case f64_div ?e (Fin t) of None \<Rightarrow> Inl ZeroDivision | Some n \<Rightarrow> Inr n) =
      (Inr (ratio ?e) :: formula_error + f64)"
    using f64_round_nonneg[of "\<bar>v - t\<bar>"] t_pos by (auto simp: ratio_def)
  then show ?thesis by (simp add: formula_base_def e triangle_def Let_def)
qed

lemma error_nonneg: "f64_le (Fin 0) (f64_round \<bar>v - t\<bar>)"
  using f64_round_nonneg[of "\<bar>v - t\<bar>"] by auto

lemma base_antimono:
  "formula_base (Fin v) (Fin t) = Inr x \<Longrightarrow> formula_base (Fin w) (Fin t) = Inr y \<Longrightarrow> \<bar>v - t\<bar> \<le> \<bar>w - t\<bar> \<Longrightarrow> f64_le y x"
  using triangle_antimono[OF error_nonneg f64_round_mono] by (auto simp: base_eq)

end

lemma output_in:
  assumes "recipe_ok r" "fin_in base 0 (5 / 4)"
  shows "fin_in (formula_output r base) (- 10) 15"
proof -
  obtain a b c where v: "re_alpha r = Fin a" "1 / 4 \<le> a" "a \<le> 4" "re_beta r = Fin b" "- 10 \<le> b" "b \<le> 10"
    "base = Fin c" "0 \<le> c" "c \<le> 5 / 4" using assms by (auto simp: recipe_ok_def fin_in_def)
  have "a * c \<le> 4 * (5 / 4)" using v by (intro mult_mono) auto
  then have "fin_in (f64_round (a * c)) 0 5" using v by (intro round_in) simp_all
  then obtain d where d: "f64_round (a * c) = Fin d" "0 \<le> d" "d \<le> 5" by (auto simp: fin_in_def)
  then have "fin_in (f64_round (d + b)) (- 10) 15" using v by (intro round_in) simp_all
  then show ?thesis using v d by (simp add: formula_output_def)
qed

lemma output_mono:
  assumes "recipe_ok r" "fin_in x 0 (5 / 4)" "fin_in y 0 (5 / 4)" "f64_le x y"
  shows "f64_le (formula_output r x) (formula_output r y)"
proof -
  obtain a b p q where v: "re_alpha r = Fin a" "1 / 4 \<le> a" "a \<le> 4" "re_beta r = Fin b" "x = Fin p" "y = Fin q"
    "0 \<le> p" "p \<le> q" "q \<le> 5 / 4" using assms by (auto simp: recipe_ok_def fin_in_def)
  have m: "a * p \<le> a * q" using v by (intro mult_left_mono) auto
  have "a * q \<le> 4 * (5 / 4)" "a * p \<le> 4 * (5 / 4)"
    using v mult_mono[of a 4 q "5 / 4"] mult_mono[of a 4 p "5 / 4"] by simp_all
  then have "fin_in (f64_round (a * q)) 0 5" "fin_in (f64_round (a * p)) 0 5" using v by (auto intro!: round_in)
  then obtain c d where "f64_round (a * q) = Fin d" "f64_round (a * p) = Fin c" by (auto simp: fin_in_def)
  then show ?thesis using v f64_round_mono[OF m] by (auto simp: formula_output_def intro!: f64_round_mono)
qed

interpretation half_speed: speed_target "1 / 2" by unfold_locales simp_all
interpretation unit_speed: speed_target 1 by unfold_locales simp_all
interpretation fast_speed: speed_target "3 / 2" by unfold_locales simp_all
interpretation t2_speed: speed_target 3 by unfold_locales simp_all

text \<open>The targets of both tasks.\<close>

definition known_target :: "rat \<Rightarrow> bool" where
  "known_target t \<longleftrightarrow> t = 1 / 2 \<or> t = 1 \<or> t = 3 / 2 \<or> t = 3"

lemma formula_value_in:
  assumes "recipe_ok r" "known_target t"
  obtains b where "formula_base (Fin v) (Fin t) = Inr b" "fin_in b 0 (5 / 4)"
    "formula_value r (Fin v) (Fin t) = Inr (formula_output r b)" "fin_in (formula_output r b) (- 10) 15"
proof -
  have "\<exists>b. formula_base (Fin v) (Fin t) = Inr b \<and> fin_in b 0 (5 / 4)"
    using assms(2)[unfolded known_target_def]
      half_speed.base_eq half_speed.triangle_in[OF half_speed.error_nonneg]
      unit_speed.base_eq unit_speed.triangle_in[OF unit_speed.error_nonneg]
      fast_speed.base_eq fast_speed.triangle_in[OF fast_speed.error_nonneg]
      t2_speed.base_eq t2_speed.triangle_in[OF t2_speed.error_nonneg] by blast
  then obtain b where b: "formula_base (Fin v) (Fin t) = Inr b" "fin_in b 0 (5 / 4)" by blast
  note o = output_in[OF assms(1) b(2)]
  have "formula_value r (Fin v) (Fin t) = Inr (formula_output r b)"
    using b o by (auto simp: formula_value_def fin_in_def between_def BASE_SCALE_def OUTPUT_MIN_def OUTPUT_MAX_def Let_def)
  then show thesis using b o that by blast
qed

lemma formula_value_mono:
  assumes "recipe_ok r" "known_target t" "\<bar>v - t\<bar> \<le> \<bar>w - t\<bar>"
    and "formula_value r (Fin v) (Fin t) = Inr a" "formula_value r (Fin w) (Fin t) = Inr b"
  shows "f64_le b a"
proof -
  obtain x where x: "formula_base (Fin v) (Fin t) = Inr x" "fin_in x 0 (5 / 4)" "formula_value r (Fin v) (Fin t) = Inr (formula_output r x)"
    using formula_value_in[OF assms(1,2)] by blast
  obtain y where y: "formula_base (Fin w) (Fin t) = Inr y" "fin_in y 0 (5 / 4)" "formula_value r (Fin w) (Fin t) = Inr (formula_output r y)"
    using formula_value_in[OF assms(1,2)] by blast
  have "f64_le y x"
    using assms(2,3) x(1) y(1) unfolding known_target_def
    by (elim disjE) (blast intro: half_speed.base_antimono unit_speed.base_antimono fast_speed.base_antimono t2_speed.base_antimono)+
  from output_mono[OF assms(1) y(2) x(2) this] show ?thesis using x(3) y(3) assms(4,5) by simp
qed

section \<open>Constructed recipes and inputs\<close>

lemma safe_float_Inr: "safe_float field v = Inr f \<Longrightarrow> py_ok v \<Longrightarrow> \<exists>q. f = Fin q \<and> f64_rep q"
  using read_number_ok[of v f] by (auto simp: safe_float_def is_finite_iff split: num_read.splits if_splits)

lemma between_fin: "f = Fin q \<Longrightarrow> f64_rep q \<Longrightarrow> between (Fin a) (Fin b) f \<longleftrightarrow> fin_in f a b"
  by (simp add: between_def fin_in_iff)

lemma mk_recipe_ok:
  assumes "mk_recipe fid alpha beta = Inr r" "py_ok alpha" "py_ok beta"
  shows "recipe_ok r"
proof -
  from assms(1) have p: "safe_float ''alpha'' alpha = Inr (re_alpha r)" "safe_float ''beta'' beta = Inr (re_beta r)"
    "between ALPHA_MIN ALPHA_MAX (re_alpha r)" "between BETA_MIN BETA_MAX (re_beta r)"
    by (auto simp: mk_recipe_def split: if_splits)
  then show ?thesis using safe_float_Inr[OF p(1) assms(2)] safe_float_Inr[OF p(2) assms(3)]
    by (auto simp: recipe_ok_def ALPHA_MIN_def ALPHA_MAX_def BETA_MIN_def BETA_MAX_def between_def fin_in_iff)
qed

lemma recipe_ok_copy: "recipe_ok r \<Longrightarrow> validated_recipe_copy r = Inr r"
  by (cases r) (auto simp: recipe_ok_def validated_recipe_copy_def mk_recipe_def safe_float_def fin_in_def between_def
      ALPHA_MIN_def ALPHA_MAX_def BETA_MIN_def BETA_MAX_def)

text \<open>Inputs of the frozen targets.\<close>

definition inputs_ok :: "task_inputs \<Rightarrow> bool" where
  "inputs_ok x \<longleftrightarrow> (\<exists>v. com_x_velocity_m_s x = Fin v \<and> f64_rep v) \<and>
     (\<exists>t. target_speed_m_s x = Fin t \<and> (t = 1 / 2 \<or> t = 1 \<or> t = 3 / 2))"

lemma target_listed: "list_ex (f64_eq f) TARGET_SPEEDS_M_S \<longleftrightarrow> (\<exists>t. f = Fin t \<and> (t = 1 / 2 \<or> t = 1 \<or> t = 3 / 2))"
  by (cases f) (auto simp: TARGET_SPEEDS_M_S_def)

lemma mk_inputs_ok:
  assumes "mk_inputs velocity target = Inr x" "py_ok velocity"
  shows "inputs_ok x"
proof -
  from assms(1) have "finite_float ''com_x_velocity_m_s'' velocity = Inr (com_x_velocity_m_s x)"
    "list_ex (f64_eq (target_speed_m_s x)) TARGET_SPEEDS_M_S"
    by (auto simp: mk_inputs_def target_speed_def split: if_splits)
  moreover from this(1) have "read_number velocity = Number (com_x_velocity_m_s x)" "is_finite (com_x_velocity_m_s x)"
    by (auto simp: finite_float_def split: num_read.splits if_splits)
  then have "\<exists>v. com_x_velocity_m_s x = Fin v \<and> f64_rep v"
    using read_number_ok[OF _ assms(2), of "com_x_velocity_m_s x"] by (cases "com_x_velocity_m_s x") auto
  ultimately show ?thesis by (simp add: inputs_ok_def target_listed)
qed

lemma evaluate_is_value:
  assumes "recipe_ok r" "inputs_ok x"
  obtains v t where "com_x_velocity_m_s x = Fin v" "target_speed_m_s x = Fin t" "known_target t"
    "evaluate_target_speed_formula r x = formula_value r (Fin v) (Fin t)"
proof -
  obtain v t where vt: "com_x_velocity_m_s x = Fin v" "target_speed_m_s x = Fin t" "t = 1 / 2 \<or> t = 1 \<or> t = 3 / 2"
    using assms(2) by (auto simp: inputs_ok_def)
  have l: "list_ex (f64_eq (Fin t)) TARGET_SPEEDS_M_S" using vt(3) by (auto simp: target_listed)
  have r: "is_finite (re_alpha r)" "is_finite (re_beta r)" "between ALPHA_MIN ALPHA_MAX (re_alpha r)" "between BETA_MIN BETA_MAX (re_beta r)"
    using assms(1) by (auto simp: recipe_ok_def fin_in_def between_def ALPHA_MIN_def ALPHA_MAX_def BETA_MIN_def BETA_MAX_def)
  have "evaluate_target_speed_formula r x = formula_value r (Fin v) (Fin t)"
    using r l by (simp add: evaluate_target_speed_formula_def vt)
  then show thesis using vt that by (auto simp: known_target_def)
qed

lemma formula_value_bounds:
  assumes "recipe_ok r" "known_target t"
  shows "\<exists>q. formula_value r (Fin v) (Fin t) = Inr (Fin q) \<and> - 10 \<le> q \<and> q \<le> 15"
proof -
  obtain b where "formula_value r (Fin v) (Fin t) = Inr (formula_output r b)" "fin_in (formula_output r b) (- 10) 15"
    using formula_value_in[OF assms] by blast
  then show ?thesis by (auto simp: fin_in_def)
qed

lemma admit_Inr:
  assumes "admit_task_inputs_v2 velocity origin cadence form = Inr a" "py_ok velocity"
  obtains v where "ad_inputs a = \<lparr>com_x_velocity_m_s = Fin v, target_speed_m_s = Fin 3\<rparr>" "fin_in (Fin v) (- 25) 25"
    "ad_origin a = MEASUREMENT_ORIGIN" "ad_representation a = NUMERIC_REPRESENTATION" "ad_id a = TASK_INPUT_ADMISSION_ID"
    "f64_eq (ad_cadence a) CONTROL_PERIOD_SECONDS"
proof -
  from assms(1) obtain f x c where f: "validate_velocity velocity = Inr f" "validate_task_inputs_v2 (PFloat f, PFloat (Fin 3)) = Inr x"
    "f64_eq c CONTROL_PERIOD_SECONDS"
    "a = \<lparr>ad_inputs = x, ad_origin = MEASUREMENT_ORIGIN, ad_representation = NUMERIC_REPRESENTATION, ad_cadence = c, ad_id = TASK_INPUT_ADMISSION_ID\<rparr>"
    by (auto simp: admit_task_inputs_v2_def split: if_splits pyval.splits)
  from f(1) have v: "velocity = PFloat f" "between VELOCITY_MIN_M_S VELOCITY_MAX_M_S f"
    by (auto simp: validate_velocity_def split: pyval.splits if_splits)
  obtain q where q: "f = Fin q" using v(2) by (cases f) (auto simp: between_def VELOCITY_MIN_M_S_def VELOCITY_MAX_M_S_def)
  have "fin_in (Fin q) (- 25) 25" using v assms(2) q by (simp add: fin_in_iff between_def VELOCITY_MIN_M_S_def VELOCITY_MAX_M_S_def)
  moreover have "x = \<lparr>com_x_velocity_m_s = Fin q, target_speed_m_s = Fin 3\<rparr>"
    using f(2) q by (auto simp: validate_task_inputs_v2_def safe_float_def split: if_splits)
  ultimately show thesis using f(3,4) that by simp
qed

lemma t2_evaluates:
  assumes "recipe_ok r"
  shows "evaluate_target_speed_formula_t2 r \<lparr>com_x_velocity_m_s = Fin v, target_speed_m_s = Fin 3\<rparr> = formula_value r (Fin v) (Fin 3)"
  by (simp add: evaluate_target_speed_formula_t2_def recipe_ok_copy[OF assms] validate_task_inputs_v2_def inputs_slots_def
      safe_float_def TARGET_SPEED_M_S_def)

section \<open>Properties\<close>

text \<open>
  For every recipe the constructor accepts and all inputs of the frozen targets the
  formula returns a value between -10 and 15 in binary64: its guard against a violated
  envelope never fires.
\<close>

lemma formula_stays_in_envelope:
  assumes "mk_recipe fid alpha beta = Inr r" "py_ok alpha" "py_ok beta" "mk_inputs velocity target = Inr x" "py_ok velocity"
  shows "\<exists>q. evaluate_target_speed_formula r x = Inr (Fin q) \<and> - 10 \<le> q \<and> q \<le> 15"
proof -
  obtain v t where "known_target t" "evaluate_target_speed_formula r x = formula_value r (Fin v) (Fin t)"
    using evaluate_is_value[OF mk_recipe_ok[OF assms(1-3)] mk_inputs_ok[OF assms(4,5)]] by blast
  then show ?thesis using formula_value_bounds[OF mk_recipe_ok[OF assms(1-3)]] by simp
qed

definition demo_recipe :: recipe where
  "demo_recipe = \<lparr>re_alpha = Fin 2, re_beta = Fin (- 1)\<rparr>"

lemma demo_recipe_made: "mk_recipe (PStr FORMULA_ID) (PInt 2) (PFloat (Fin (- 1))) = Inr demo_recipe"
  using float_of_int_small[of 2]
  by (simp add: mk_recipe_def safe_float_def demo_recipe_def between_def ALPHA_MIN_def ALPHA_MAX_def BETA_MIN_def BETA_MAX_def)

lemma demo_beta_ok: "py_ok (PFloat (Fin (- 1)))"
  using f64_rep_of_int[of "- 1"] by simp

lemma demo_speed_inputs: "mk_inputs (PFloat (Fin (3 / 2))) (PInt 1) = Inr \<lparr>com_x_velocity_m_s = Fin (3 / 2), target_speed_m_s = Fin 1\<rparr>"
  using float_of_int_small[of 1]
  by (simp add: mk_inputs_def finite_float_def target_speed_def TARGET_SPEEDS_M_S_def)

lemma formula_stays_in_envelope_witness:
  "\<exists>q. evaluate_target_speed_formula demo_recipe \<lparr>com_x_velocity_m_s = Fin (3 / 2), target_speed_m_s = Fin 1\<rparr> = Inr (Fin q) \<and> - 10 \<le> q \<and> q \<le> 15"
  by (rule formula_stays_in_envelope[OF demo_recipe_made _ demo_beta_ok demo_speed_inputs]) simp_all

text \<open>
  The formula never rewards a velocity farther from the target more: for equal targets and
  one recipe, the value does not grow with the distance, roundings included.
\<close>

lemma closer_is_never_worse:
  assumes "mk_recipe fid alpha beta = Inr r" "py_ok alpha" "py_ok beta"
    and "mk_inputs (PFloat (Fin v)) target = Inr x" "mk_inputs (PFloat (Fin w)) target = Inr y" "f64_rep v" "f64_rep w"
    and "target_speed_m_s x = Fin t" "\<bar>v - t\<bar> \<le> \<bar>w - t\<bar>"
    and "evaluate_target_speed_formula r x = Inr a" "evaluate_target_speed_formula r y = Inr b"
  shows "f64_le b a"
proof -
  note ok = mk_recipe_ok[OF assms(1-3)]
  have xy: "com_x_velocity_m_s x = Fin v" "com_x_velocity_m_s y = Fin w" "target_speed_m_s y = target_speed_m_s x"
    using assms(4,5) by (auto simp: mk_inputs_def finite_float_def)
  have i: "inputs_ok x" "inputs_ok y" using assms(4-7) by (auto intro!: mk_inputs_ok)
  obtain "known_target t" "evaluate_target_speed_formula r x = formula_value r (Fin v) (Fin t)"
    using evaluate_is_value[OF ok i(1)] xy assms(8) by auto
  moreover obtain "evaluate_target_speed_formula r y = formula_value r (Fin w) (Fin t)"
    using evaluate_is_value[OF ok i(2)] xy assms(8) by auto
  ultimately show ?thesis using formula_value_mono[OF ok _ assms(9)] assms(10,11) by simp
qed

lemma closer_is_never_worse_witness:
  "\<exists>a b. evaluate_target_speed_formula demo_recipe \<lparr>com_x_velocity_m_s = Fin 1, target_speed_m_s = Fin 1\<rparr> = Inr a \<and>
     evaluate_target_speed_formula demo_recipe \<lparr>com_x_velocity_m_s = Fin (3 / 2), target_speed_m_s = Fin 1\<rparr> = Inr b \<and> f64_le b a"
proof -
  have ok: "recipe_ok demo_recipe" using mk_recipe_ok[OF demo_recipe_made _ demo_beta_ok] by simp
  have x: "mk_inputs (PFloat (Fin 1)) (PInt 1) = Inr \<lparr>com_x_velocity_m_s = Fin 1, target_speed_m_s = Fin 1\<rparr>"
    using float_of_int_small[of 1] by (simp add: mk_inputs_def finite_float_def target_speed_def TARGET_SPEEDS_M_S_def)
  have i: "inputs_ok \<lparr>com_x_velocity_m_s = Fin 1, target_speed_m_s = Fin 1\<rparr>"
    "inputs_ok \<lparr>com_x_velocity_m_s = Fin (3 / 2), target_speed_m_s = Fin 1\<rparr>"
    using mk_inputs_ok[OF x] mk_inputs_ok[OF demo_speed_inputs] by simp_all
  obtain a where a: "evaluate_target_speed_formula demo_recipe \<lparr>com_x_velocity_m_s = Fin 1, target_speed_m_s = Fin 1\<rparr> = Inr a"
    using evaluate_is_value[OF ok i(1)] formula_value_bounds[OF ok] by metis
  obtain b where b: "evaluate_target_speed_formula demo_recipe \<lparr>com_x_velocity_m_s = Fin (3 / 2), target_speed_m_s = Fin 1\<rparr> = Inr b"
    using evaluate_is_value[OF ok i(2)] formula_value_bounds[OF ok] by metis
  have d: "\<bar>1 - 1\<bar> \<le> \<bar>3 / 2 - (1::rat)\<bar>" by (simp add: abs_if)
  have "f64_le b a"
    by (rule closer_is_never_worse[OF demo_recipe_made _ demo_beta_ok x demo_speed_inputs _ _ _ d a b]) simp_all
  then show ?thesis using a b by blast
qed

text \<open>
  Inputs that the adapter admits pass the check at reward consumption and give, under every
  recipe the constructor accepts, a value between -10 and 15.
\<close>

lemma admitted_inputs_are_rewarded:
  assumes "admit_task_inputs_v2 velocity origin cadence form = Inr a" "py_ok velocity"
    and "mk_recipe fid alpha beta = Inr r" "py_ok alpha" "py_ok beta"
  shows "validate_admitted_task_inputs_v2 a = Inr (ad_inputs a) \<and>
    (\<exists>q. evaluate_target_speed_formula_t2 r (ad_inputs a) = Inr (Fin q) \<and> - 10 \<le> q \<and> q \<le> 15)"
proof -
  obtain v where v: "ad_inputs a = \<lparr>com_x_velocity_m_s = Fin v, target_speed_m_s = Fin 3\<rparr>" "fin_in (Fin v) (- 25) 25"
    "ad_origin a = MEASUREMENT_ORIGIN" "ad_representation a = NUMERIC_REPRESENTATION" "ad_id a = TASK_INPUT_ADMISSION_ID"
    "f64_eq (ad_cadence a) CONTROL_PERIOD_SECONDS" using assms(1,2) by (rule admit_Inr)
  have "validate_admitted_task_inputs_v2 a = Inr (ad_inputs a)"
    using v(2) by (simp add: validate_admitted_task_inputs_v2_def v validate_task_inputs_v2_def inputs_slots_def safe_float_def
        TARGET_SPEED_M_S_def validate_velocity_def between_def VELOCITY_MIN_M_S_def VELOCITY_MAX_M_S_def fin_in_iff)
  moreover have "known_target 3" by (simp add: known_target_def)
  ultimately show ?thesis
    using formula_value_bounds[OF mk_recipe_ok[OF assms(3-5)], of 3 v] t2_evaluates[OF mk_recipe_ok[OF assms(3-5)], of v] by (simp add: v(1))
qed

definition demo_admitted :: admitted_inputs where
  "demo_admitted = \<lparr>ad_inputs = \<lparr>com_x_velocity_m_s = Fin 3, target_speed_m_s = Fin 3\<rparr>, ad_origin = MEASUREMENT_ORIGIN,
     ad_representation = NUMERIC_REPRESENTATION, ad_cadence = CONTROL_PERIOD_SECONDS, ad_id = TASK_INPUT_ADMISSION_ID\<rparr>"

lemma demo_admitted_made: "admit_task_inputs_v2 (PFloat (Fin 3)) (PStr MEASUREMENT_ORIGIN) (PFloat CONTROL_PERIOD_SECONDS)
    (PStr NUMERIC_REPRESENTATION) = Inr demo_admitted"
proof -
  have "f64_eq CONTROL_PERIOD_SECONDS CONTROL_PERIOD_SECONDS"
    by (simp add: CONTROL_PERIOD_SECONDS_def f64_round_def Let_def)
  then show ?thesis
    by (simp add: admit_task_inputs_v2_def validate_velocity_def between_def VELOCITY_MIN_M_S_def VELOCITY_MAX_M_S_def
        validate_task_inputs_v2_def safe_float_def TARGET_SPEED_M_S_def demo_admitted_def)
qed

lemma admitted_inputs_are_rewarded_witness:
  "validate_admitted_task_inputs_v2 demo_admitted = Inr (ad_inputs demo_admitted)"
  using admitted_inputs_are_rewarded[OF demo_admitted_made _ demo_recipe_made _ demo_beta_ok] by simp

end
