(* ===== verification/RewardContract.thy ===== *)
theory RewardContract
  imports SpeedFormula
begin

text \<open>
  The reward data of \<^verbatim>\<open>src/oracle_composition/rewards/contract.py\<close>: the canonical byte encoding, the
  frozen schema and its digest, the result of one control step (\<open>RewardResultV1\<close>) and the content
  identity of a reward artifact (\<open>RewardArtifactIdentityV1\<close>).  The two records share the interface
  \<open>wire_format\<close>: a constructor that checks, a printer, and a reader that goes through the constructor.
\<close>

section \<open>Constants\<close>

definition SIGNED_TERM_NAMES_V1 :: "string list" where
  "SIGNED_TERM_NAMES_V1 = [''task_progress'', ''healthy'', ''control'', ''contact'']"

definition ACTUATOR_QVEL_INDICES_BY_ACTION_V1 :: "nat list" where
  "ACTUATOR_QVEL_INDICES_BY_ACTION_V1 = [7, 6, 8, 9, 10, 11, 12, 13, 14, 15, 16, 17, 18, 19, 20, 21, 22]"

definition GENERALIZED_ACTUATOR_TORQUE_CAPACITY_N_M :: "f64 list" where
  "GENERALIZED_ACTUATOR_TORQUE_CAPACITY_N_M = map Fin
     [40, 40, 40, 40, 40, 120, 80, 40, 40, 120, 80, 10, 10, 10, 10, 10, 10]"

definition TOTAL_REWARD_ABS_MAX :: f64 where "TOTAL_REWARD_ABS_MAX = Fin 1024"
definition TOTAL_REPRODUCTION_ABS_TOLERANCE :: f64 where
  "TOTAL_REPRODUCTION_ABS_TOLERANCE = f64_round (1 / 10 ^ 12)"

text \<open>The nearest binary32 value to 0.4.\<close>

definition STOCK_FLOAT32_CONTROL_ABS_MAX :: f64 where
  "STOCK_FLOAT32_CONTROL_ABS_MAX = Fin (13421773 / 2 ^ 25)"

definition schema_array :: "string \<Rightarrow> int list \<Rightarrow> pyval \<Rightarrow> (string \<times> pyval) list \<Rightarrow> string \<times> pyval" where
  "schema_array name shape units rest = (name, PDict ([(''shape'', PList (map PInt shape)),
     (''dtype'', PStr ''float64''), (''units'', units)] @ rest))"

definition unbounded :: "string \<times> pyval" where
  "unbounded = (''bounds'', PList [PNone, PNone])"

definition floats :: "f64 list \<Rightarrow> pyval" where
  "floats xs = PList (map PFloat xs)"

definition REWARD_SCHEMA_V1 :: pyval where
  "REWARD_SCHEMA_V1 = PDict [
     (''schema_version'', PInt 1),
     (''schema_id'', PStr ''family-b-target-speed/reward-contract/v1''),
     (''control_period_s'', PFloat CONTROL_PERIOD_SECONDS),
     (''candidate_read_set'', PList (map PStr CANDIDATE_READ_SET_V1)),
     (''trusted_step'', PDict [
       schema_array ''qpos_after_f64'' [24] (PStr ''m, unit quaternion, rad'') [unbounded],
       schema_array ''qvel_after_f64'' [23] (PStr ''m/s, rad/s'') [unbounded],
       schema_array ''com_x_velocity_m_s'' [] (PStr ''m/s'') [unbounded],
       schema_array ''ctrl_f64'' [17] (PStr ''MuJoCo control coordinate'')
         [(''bounds'', floats [f64_round (- 4 / 10), f64_round (4 / 10)])],
       schema_array ''generalized_actuator_torque_n_m_f64'' [17] (PStr ''N*m'') [
         (''order'', PStr ''actuator action order''),
         (''qvel_indices'', PList (map (\<lambda>i. PInt (int i)) ACTUATOR_QVEL_INDICES_BY_ACTION_V1)),
         (''bounds'', PList [floats (map f64_neg GENERALIZED_ACTUATOR_TORQUE_CAPACITY_N_M),
            floats GENERALIZED_ACTUATOR_TORQUE_CAPACITY_N_M]),
         (''absolute_capacity_n_m'', floats GENERALIZED_ACTUATOR_TORQUE_CAPACITY_N_M)],
       schema_array ''external_contact_wrench_f64'' [14, 6]
         (PList [PStr ''N'', PStr ''N'', PStr ''N'', PStr ''N*m'', PStr ''N*m'', PStr ''N*m''])
         [unbounded, (''includes_world_row'', PBool True)],
       schema_array ''target_speed_m_s'' [] (PStr ''m/s'') [(''allowed'', floats TARGET_SPEEDS_M_S)],
       schema_array ''control_period_s'' [] (PStr ''s'') [(''value'', PFloat CONTROL_PERIOD_SECONDS)]]),
     (''candidate_inputs'', PDict [
       schema_array ''com_x_velocity_m_s'' [] (PStr ''m/s'') [unbounded],
       schema_array ''target_speed_m_s'' [] (PStr ''m/s'') [(''allowed'', floats TARGET_SPEEDS_M_S)]]),
     (''result'', PDict [
       schema_array ''total'' [] (PStr ''reward unit/control step'')
         [(''bounds'', floats [f64_neg TOTAL_REWARD_ABS_MAX, TOTAL_REWARD_ABS_MAX])],
       (''signed_terms'', PList (map PStr SIGNED_TERM_NAMES_V1)),
       (''task_term_abs_max'', PFloat TASK_TERM_ABS_MAX),
       (''total_abs_max'', PFloat TOTAL_REWARD_ABS_MAX),
       (''total_reproduction_abs_tolerance'', PFloat TOTAL_REPRODUCTION_ABS_TOLERANCE)])]"

section \<open>Canonical bytes\<close>

datatype contract_error =
    Scalar reward_error
  | NotCanonicalJson | EncodedSize | EncodedInvalid | EncodingDiffers
  | TotalEnvelope | TermsNotMapping | TermNamesDiffer | TaskEnvelope | HealthyValue | CostSign | NotReproduced | ResultKeysDiffer
  | Sha256Invalid string | SchemaDiffers | NotIterable string | ReadSetDiffers | AffineBounds
  | DependenciesNotMapping | DependenciesEmpty | DependencyName | ArtifactDiffers | CandidateBytes | CandidateUtf8 | IdentityKeysDiffer
  | ArrayInvalid string | ControlPeriod | ControlBounds | UnitQuaternion | TorqueCapacity | TorqueControl | StepKeysDiffer
  | BodyArrays | BodyMasses | CentreNotFinite | NoModel | ComBefore | Cadence | IndexOutOfRange
  | TaskTermNotFinite | AffineNotFinite string

definition scalar :: "reward_error + 'a \<Rightarrow> contract_error + 'a" where
  "scalar r = (case r of Inl e \<Rightarrow> Inl (Scalar e) | Inr x \<Rightarrow> Inr x)"

lemma scalar_Inr [simp]: "scalar r = Inr x \<longleftrightarrow> r = Inr x"
  by (cases r) (simp_all add: scalar_def)

lemma scalar_of_Inr [simp]: "scalar (Inr x) = Inr x"
  by (simp add: scalar_def)

text \<open>\<open>allow_nan=False\<close> refuses the floats that are not finite.\<close>

fun finite_floats :: "pyval \<Rightarrow> bool" where
  "finite_floats (PFloat f) = is_finite f"
| "finite_floats (PList vs) = list_all finite_floats vs"
| "finite_floats (PTuple vs) = list_all finite_floats vs"
| "finite_floats (PDict d) = list_all (\<lambda>p. finite_floats (snd p)) d"
| "finite_floats _ = True"

text \<open>
  The tuples become lists in the text, and the keys of a dictionary are unique strings by
  construction, so \<open>_json_value\<close> changes nothing that the text shows.
\<close>

definition canonical_json_bytes :: "hasher \<Rightarrow> pyval \<Rightarrow> contract_error + string" where
  "canonical_json_bytes h v = (if \<not> finite_floats v \<or> \<not> encodable v then Inl NotCanonicalJson
     else case utf8_encode (map code_of (canonical_json (float_repr h) v)) of
         None \<Rightarrow> Inl NotCanonicalJson
       | Some b \<Rightarrow> Inr b)"

definition decode_canonical_json_object :: "hasher \<Rightarrow> (string \<Rightarrow> json_text option) \<Rightarrow> nat \<Rightarrow> string \<Rightarrow> contract_error + pyval" where
  "decode_canonical_json_object h scanner maximum encoded =
     (if encoded = [] \<or> maximum < length encoded then Inl EncodedSize
      else case scanner encoded of None \<Rightarrow> Inl EncodedInvalid
        | Some t \<Rightarrow> (case load_tree t of Inl _ \<Rightarrow> Inl EncodedInvalid
          | Inr v \<Rightarrow> (case v of
              PDict d \<Rightarrow> bindE (canonical_json_bytes h v) (\<lambda>b. if b \<noteq> encoded then Inl EncodingDiffers else Inr v)
            | _ \<Rightarrow> Inl EncodingDiffers)))"

definition DECODE_MAXIMUM_BYTES :: nat where "DECODE_MAXIMUM_BYTES = 64 * 1024"

definition reward_schema_sha256 :: "hasher \<Rightarrow> contract_error + string" where
  "reward_schema_sha256 h = bindE (canonical_json_bytes h REWARD_SCHEMA_V1) (\<lambda>b. Inr (sha256_hex h b))"

lemma decode_canonical_Inr:
  assumes "decode_canonical_json_object h scanner m encoded = Inr v"
  shows "canonical_json_bytes h v = Inr encoded \<and> (\<exists>d. v = PDict d)"
  using assms by (auto simp: decode_canonical_json_object_def split: if_splits option.splits sum.splits pyval.splits)

text \<open>
  A wire format: the constructor checks its fields, the printer writes them, and the reader accepts
  every printed value that the constructor has made.  The bytes then determine the value.
\<close>

locale wire_format =
  fixes made :: "'a \<Rightarrow> bool" and to_dict :: "'a \<Rightarrow> pyval" and from_dict :: "pyval \<Rightarrow> 'e + 'a"
  assumes reads_back: "made x \<Longrightarrow> from_dict (to_dict x) = Inr x"
begin

lemma to_dict_inject: "made x \<Longrightarrow> made y \<Longrightarrow> to_dict x = to_dict y \<longleftrightarrow> x = y"
  using reads_back by (metis sum.inject(2))

lemma decoded_reads:
  assumes "made x" "decode_canonical_json_object h scanner m encoded = Inr (to_dict x)"
  shows "canonical_json_bytes h (to_dict x) = Inr encoded \<and> from_dict (to_dict x) = Inr x"
  using assms reads_back decode_canonical_Inr by blast

end

section \<open>The result of one step\<close>

record reward_result =
  rr_total :: f64
  rr_task_progress :: f64
  rr_healthy :: f64
  rr_control :: f64
  rr_contact :: f64

text \<open>\<open>math.isclose(a, b, rel_tol=0.0, abs_tol=t)\<close>\<close>

definition isclose_abs :: "f64 \<Rightarrow> f64 \<Rightarrow> f64 \<Rightarrow> bool" where
  "isclose_abs a b t \<longleftrightarrow> f64_eq a b \<or>
     (is_finite a \<and> is_finite b \<and> (let d = f64_abs (f64_sub b a) in f64_le d (Fin 0) \<or> f64_le d t))"

lemma f64_eq_self: "is_finite x \<Longrightarrow> f64_eq x x"
  by (cases x) auto

lemma isclose_self: "is_finite a \<Longrightarrow> isclose_abs a a t"
  by (cases a) (auto simp: isclose_abs_def)

definition reproduced_total :: "f64 \<Rightarrow> f64 \<Rightarrow> f64 \<Rightarrow> f64 \<Rightarrow> f64" where
  "reproduced_total task healthy control contact = f64_add (f64_add (f64_add task healthy) control) contact"

definition mk_result :: "pyval \<Rightarrow> pyval \<Rightarrow> contract_error + reward_result" where
  "mk_result total_v terms_v = bindE (scalar (finite_float ''total'' total_v)) (\<lambda>total.
     if f64_lt TOTAL_REWARD_ABS_MAX (f64_abs total) then Inl TotalEnvelope
     else (case terms_v of
         PDict d \<Rightarrow> if \<not> keys_are SIGNED_TERM_NAMES_V1 d then Inl TermNamesDiffer
           else bindE (scalar (finite_float ''signed_terms.task_progress'' (item d ''task_progress''))) (\<lambda>task.
             bindE (scalar (finite_float ''signed_terms.healthy'' (item d ''healthy''))) (\<lambda>healthy.
             bindE (scalar (finite_float ''signed_terms.control'' (item d ''control''))) (\<lambda>control.
             bindE (scalar (finite_float ''signed_terms.contact'' (item d ''contact''))) (\<lambda>contact.
               if f64_lt TASK_TERM_ABS_MAX (f64_abs task) then Inl TaskEnvelope
               else if \<not> list_ex (f64_eq healthy) [Fin 0, Fin 5] then Inl HealthyValue
               else if f64_lt (Fin 0) control \<or> f64_lt (Fin 0) contact then Inl CostSign
               else if \<not> isclose_abs (reproduced_total task healthy control contact) total TOTAL_REPRODUCTION_ABS_TOLERANCE
               then Inl NotReproduced
               else Inr \<lparr>rr_total = total, rr_task_progress = task, rr_healthy = healthy, rr_control = control, rr_contact = contact\<rparr>))))
       | _ \<Rightarrow> Inl TermsNotMapping))"

definition signed_terms :: "f64 \<Rightarrow> f64 \<Rightarrow> f64 \<Rightarrow> f64 \<Rightarrow> pyval" where
  "signed_terms task healthy control contact = PDict [(''task_progress'', PFloat task), (''healthy'', PFloat healthy),
     (''control'', PFloat control), (''contact'', PFloat contact)]"

definition result_to_dict :: "reward_result \<Rightarrow> pyval" where
  "result_to_dict r = PDict [(''total'', PFloat (rr_total r)),
     (''signed_terms'', signed_terms (rr_task_progress r) (rr_healthy r) (rr_control r) (rr_contact r))]"

definition result_from_dict :: "pyval \<Rightarrow> contract_error + reward_result" where
  "result_from_dict v = (case v of
       PDict d \<Rightarrow> if \<not> keys_are [''total'', ''signed_terms''] d then Inl ResultKeysDiffer
         else (case item d ''signed_terms'' of
             PDict t \<Rightarrow> mk_result (item d ''total'') (PDict t)
           | _ \<Rightarrow> Inl TermsNotMapping)
     | _ \<Rightarrow> Inl ResultKeysDiffer)"

text \<open>What the constructor promises of a result.\<close>

definition result_ok :: "reward_result \<Rightarrow> bool" where
  "result_ok r \<longleftrightarrow>
     is_finite (rr_total r) \<and> f64_le (f64_abs (rr_total r)) (Fin 1024) \<and>
     is_finite (rr_task_progress r) \<and> f64_le (f64_abs (rr_task_progress r)) (Fin 1000) \<and>
     (rr_healthy r = Fin 0 \<or> rr_healthy r = Fin 5) \<and>
     is_finite (rr_control r) \<and> f64_le (rr_control r) (Fin 0) \<and>
     is_finite (rr_contact r) \<and> f64_le (rr_contact r) (Fin 0) \<and>
     isclose_abs (reproduced_total (rr_task_progress r) (rr_healthy r) (rr_control r) (rr_contact r))
       (rr_total r) TOTAL_REPRODUCTION_ABS_TOLERANCE"

lemma finite_float_PFloat [simp]: "finite_float field (PFloat f) = Inr g \<longleftrightarrow> is_finite f \<and> g = f"
  by (auto simp: finite_float_def)

lemma finite_float_finite: "finite_float field v = Inr f \<Longrightarrow> is_finite f"
  by (auto simp: finite_float_def split: num_read.splits if_splits)

lemma not_f64_lt_finite: "is_finite a \<Longrightarrow> is_finite b \<Longrightarrow> \<not> f64_lt a b \<longleftrightarrow> f64_le b a"
  by (cases a; cases b) auto

lemma is_finite_abs [simp]: "is_finite (f64_abs x) = is_finite x"
  by (cases x) auto

lemma f64_eq_Fin: "f64_eq a (Fin q) \<longleftrightarrow> a = Fin q"
  by (cases a) auto

lemma mk_result_made:
  assumes "mk_result u v = Inr r"
  shows "result_ok r"
proof -
  from assms obtain d where d: "finite_float ''total'' u = Inr (rr_total r)"
    "finite_float ''signed_terms.task_progress'' (item d ''task_progress'') = Inr (rr_task_progress r)"
    "finite_float ''signed_terms.healthy'' (item d ''healthy'') = Inr (rr_healthy r)"
    "finite_float ''signed_terms.control'' (item d ''control'') = Inr (rr_control r)"
    "finite_float ''signed_terms.contact'' (item d ''contact'') = Inr (rr_contact r)"
    and c: "\<not> f64_lt (Fin 1024) (f64_abs (rr_total r))" "\<not> f64_lt (Fin 1000) (f64_abs (rr_task_progress r))"
      "\<not> f64_lt (Fin 0) (rr_control r)" "\<not> f64_lt (Fin 0) (rr_contact r)"
    and h: "rr_healthy r = Fin 0 \<or> rr_healthy r = Fin 5"
    and e: "isclose_abs (reproduced_total (rr_task_progress r) (rr_healthy r) (rr_control r) (rr_contact r))
       (rr_total r) TOTAL_REPRODUCTION_ABS_TOLERANCE"
    by (auto simp: mk_result_def TASK_TERM_ABS_MAX_def TOTAL_REWARD_ABS_MAX_def f64_eq_Fin split: if_splits pyval.splits)
  note f = d[THEN finite_float_finite]
  show ?thesis
    using f c h e by (simp add: result_ok_def not_f64_lt_finite)
qed

lemma mk_result_of_ok:
  assumes "result_ok r"
  shows "mk_result (PFloat (rr_total r)) (signed_terms (rr_task_progress r) (rr_healthy r) (rr_control r) (rr_contact r)) = Inr r"
proof -
  have t: "\<not> f64_lt (Fin 1024) (f64_abs (rr_total r))" "\<not> f64_lt (Fin 1000) (f64_abs (rr_task_progress r))"
    "\<not> f64_lt (Fin 0) (rr_control r)" "\<not> f64_lt (Fin 0) (rr_contact r)"
    using assms by (simp_all add: result_ok_def not_f64_lt_finite)
  have f: "is_finite (rr_healthy r)" using assms by (auto simp: result_ok_def)
  have i: "scalar (finite_float n (PFloat x)) = Inr x" if "is_finite x" for n x using that by simp
  show ?thesis
    using assms t f
    by (simp add: mk_result_def signed_terms_def i keys_are_def dict_keys_def SIGNED_TERM_NAMES_V1_def item_def dict_get_def
        TASK_TERM_ABS_MAX_def TOTAL_REWARD_ABS_MAX_def f64_eq_Fin result_ok_def)
qed

lemma result_reads_back:
  assumes "result_ok r"
  shows "result_from_dict (result_to_dict r) = Inr r"
proof -
  obtain t where t: "signed_terms (rr_task_progress r) (rr_healthy r) (rr_control r) (rr_contact r) = PDict t"
    by (simp add: signed_terms_def)
  show ?thesis
    using mk_result_of_ok[OF assms]
    by (auto simp: result_from_dict_def result_to_dict_def keys_are_def dict_keys_def item_def dict_get_def t)
qed

interpretation result_wire: wire_format result_ok result_to_dict result_from_dict
  by unfold_locales (rule result_reads_back)

section \<open>The identity of a reward artifact\<close>

definition require_sha256 :: "string \<Rightarrow> pyval \<Rightarrow> contract_error + string" where
  "require_sha256 field v = (case v of
       PStr s \<Rightarrow> if hex_digest s then Inr s else Inl (Sha256Invalid field)
     | _ \<Rightarrow> Inl (Sha256Invalid field))"

record reward_identity =
  ri_candidate :: string
  ri_schema :: string
  ri_read_set :: "string list"
  ri_target_speed :: f64
  ri_alpha :: f64
  ri_beta :: f64
  ri_compositor :: string
  ri_gymnasium :: string
  ri_xml :: string
  ri_dependencies :: "(string \<times> pyval) list"
  ri_artifact :: string

text \<open>\<open>tuple(v)\<close>; the \<open>TypeError\<close> of a value that is not iterable is not caught.\<close>

definition iter_items :: "pyval \<Rightarrow> pyval list option" where
  "iter_items v = (case v of PList vs \<Rightarrow> Some vs | PTuple vs \<Rightarrow> Some vs
     | PDict d \<Rightarrow> Some (map PStr (dict_keys d)) | PStr s \<Rightarrow> Some (map (\<lambda>c. PStr [c]) s) | _ \<Rightarrow> None)"

definition dependency_name :: "string \<Rightarrow> bool" where
  "dependency_name s \<longleftrightarrow> s \<noteq> [] \<and> length s \<le> 255 \<and> hd s \<noteq> CHR ''_'' \<and> \<not> has_dunder s \<and> char_of (0::nat) \<notin> set s"

definition read_dependency :: "string \<times> pyval \<Rightarrow> contract_error + (string \<times> pyval)" where
  "read_dependency = (\<lambda>(name, digest). if \<not> dependency_name name then Inl DependencyName
     else bindE (require_sha256 (''dependency_hashes.'' @ name) digest) (\<lambda>s. Inr (name, PStr s)))"

definition identity_payload :: "reward_identity \<Rightarrow> pyval" where
  "identity_payload r = PDict [
     (''schema_version'', PInt 1),
     (''candidate_source_sha256'', PStr (ri_candidate r)),
     (''schema_sha256'', PStr (ri_schema r)),
     (''read_set'', PList (map PStr (ri_read_set r))),
     (''target_speed_m_s'', PFloat (ri_target_speed r)),
     (''affine_alpha'', PFloat (ri_alpha r)),
     (''affine_beta'', PFloat (ri_beta r)),
     (''compositor_source_sha256'', PStr (ri_compositor r)),
     (''gymnasium_source_sha256'', PStr (ri_gymnasium r)),
     (''humanoid_xml_sha256'', PStr (ri_xml r)),
     (''dependency_hashes'', PDict (ri_dependencies r))]"

definition identity_digest :: "hasher \<Rightarrow> pyval \<Rightarrow> contract_error + string" where
  "identity_digest h payload = bindE (canonical_json_bytes h payload) (\<lambda>b. Inr (sha256_hex h b))"

text \<open>The constructor, from the values of its eleven fields.\<close>

record identity_fields =
  if_candidate :: pyval
  if_schema :: pyval
  if_read_set :: pyval
  if_target_speed :: pyval
  if_alpha :: pyval
  if_beta :: pyval
  if_compositor :: pyval
  if_gymnasium :: pyval
  if_xml :: pyval
  if_dependencies :: pyval
  if_artifact :: pyval

definition read_identity :: "hasher \<Rightarrow> identity_fields \<Rightarrow> contract_error + reward_identity" where
  "read_identity h f =
     bindE (require_sha256 ''candidate_source_sha256'' (if_candidate f)) (\<lambda>candidate.
     bindE (require_sha256 ''schema_sha256'' (if_schema f)) (\<lambda>schema.
     bindE (require_sha256 ''compositor_source_sha256'' (if_compositor f)) (\<lambda>compositor.
     bindE (require_sha256 ''gymnasium_source_sha256'' (if_gymnasium f)) (\<lambda>gymnasium.
     bindE (require_sha256 ''humanoid_xml_sha256'' (if_xml f)) (\<lambda>xml.
     bindE (require_sha256 ''artifact_sha256'' (if_artifact f)) (\<lambda>artifact.
     bindE (reward_schema_sha256 h) (\<lambda>current.
       if schema \<noteq> current then Inl SchemaDiffers
       else (case iter_items (if_read_set f) of
           None \<Rightarrow> Inl (NotIterable ''read_set'')
         | Some vs \<Rightarrow> if vs \<noteq> map PStr CANDIDATE_READ_SET_V1 then Inl ReadSetDiffers
           else bindE (scalar (target_speed (if_target_speed f))) (\<lambda>target.
             bindE (scalar (finite_float ''affine_alpha'' (if_alpha f))) (\<lambda>alpha.
             bindE (scalar (finite_float ''affine_beta'' (if_beta f))) (\<lambda>beta.
               if \<not> between (Fin (1 / 4)) (Fin 4) alpha \<or> f64_lt (Fin 10) (f64_abs beta) then Inl AffineBounds
               else (case if_dependencies f of
                   PDict d \<Rightarrow> if d = [] then Inl DependenciesEmpty
                     else bindE (mapE read_dependency d) (\<lambda>ds.
                       Inr \<lparr>ri_candidate = candidate, ri_schema = schema, ri_read_set = CANDIDATE_READ_SET_V1,
                         ri_target_speed = target, ri_alpha = alpha, ri_beta = beta, ri_compositor = compositor,
                         ri_gymnasium = gymnasium, ri_xml = xml, ri_dependencies = sort_key fst ds, ri_artifact = artifact\<rparr>)
                 | _ \<Rightarrow> Inl DependenciesNotMapping))))))))))))"

definition mk_reward_identity :: "hasher \<Rightarrow> identity_fields \<Rightarrow> contract_error + reward_identity" where
  "mk_reward_identity h f = bindE (read_identity h f) (\<lambda>r.
     bindE (identity_digest h (identity_payload r)) (\<lambda>expected.
       if ri_artifact r \<noteq> expected then Inl ArtifactDiffers else Inr r))"

definition reward_identity_to_dict :: "reward_identity \<Rightarrow> pyval" where
  "reward_identity_to_dict r = (case identity_payload r of
       PDict d \<Rightarrow> PDict (d @ [(''artifact_sha256'', PStr (ri_artifact r))])
     | v \<Rightarrow> v)"

definition identity_keys :: "string list" where
  "identity_keys = [''schema_version'', ''candidate_source_sha256'', ''schema_sha256'', ''read_set'', ''target_speed_m_s'',
     ''affine_alpha'', ''affine_beta'', ''compositor_source_sha256'', ''gymnasium_source_sha256'', ''humanoid_xml_sha256'',
     ''dependency_hashes'', ''artifact_sha256'']"

definition identity_from_dict :: "hasher \<Rightarrow> pyval \<Rightarrow> contract_error + reward_identity" where
  "identity_from_dict h v = (case v of
       PDict d \<Rightarrow> if \<not> keys_are identity_keys d \<or> \<not> py_eq (item d ''schema_version'') (PInt 1) then Inl IdentityKeysDiffer
         else (case item d ''dependency_hashes'' of
             PDict ds \<Rightarrow> (case item d ''read_set'' of
                 PList vs \<Rightarrow> if option_all (map as_str vs) = None then Inl ReadSetDiffers
                   else mk_reward_identity h \<lparr>if_candidate = item d ''candidate_source_sha256'', if_schema = item d ''schema_sha256'',
                     if_read_set = PTuple vs, if_target_speed = item d ''target_speed_m_s'', if_alpha = item d ''affine_alpha'',
                     if_beta = item d ''affine_beta'', if_compositor = item d ''compositor_source_sha256'',
                     if_gymnasium = item d ''gymnasium_source_sha256'', if_xml = item d ''humanoid_xml_sha256'',
                     if_dependencies = PDict ds, if_artifact = item d ''artifact_sha256''\<rparr>
               | _ \<Rightarrow> Inl ReadSetDiffers)
           | _ \<Rightarrow> Inl DependenciesNotMapping)
     | _ \<Rightarrow> Inl IdentityKeysDiffer)"

definition MAX_CANDIDATE_BYTES :: nat where "MAX_CANDIDATE_BYTES = 16 * 1024"

text \<open>\<open>create\<close>; the dictionary that it hashes is the payload with the dependencies as given.\<close>

definition create_identity :: "hasher \<Rightarrow> string \<Rightarrow> pyval \<Rightarrow> pyval \<Rightarrow> pyval \<Rightarrow> pyval \<Rightarrow> pyval \<Rightarrow> pyval \<Rightarrow> (string \<times> pyval) list \<Rightarrow> contract_error + reward_identity" where
  "create_identity h source target_v alpha_v beta_v compositor_v gymnasium_v xml_v deps =
     (if source = [] \<or> MAX_CANDIDATE_BYTES < length source then Inl CandidateBytes
      else if utf8_decode source = None then Inl CandidateUtf8
      else bindE (reward_schema_sha256 h) (\<lambda>schema.
        bindE (scalar (target_speed target_v)) (\<lambda>target.
        bindE (scalar (finite_float ''affine_alpha'' alpha_v)) (\<lambda>alpha.
        bindE (scalar (finite_float ''affine_beta'' beta_v)) (\<lambda>beta.
        bindE (require_sha256 ''compositor_source_sha256'' compositor_v) (\<lambda>compositor.
        bindE (require_sha256 ''gymnasium_source_sha256'' gymnasium_v) (\<lambda>gymnasium.
        bindE (require_sha256 ''humanoid_xml_sha256'' xml_v) (\<lambda>xml.
        bindE (identity_digest h (identity_payload \<lparr>ri_candidate = sha256_hex h source, ri_schema = schema,
            ri_read_set = CANDIDATE_READ_SET_V1, ri_target_speed = target, ri_alpha = alpha, ri_beta = beta,
            ri_compositor = compositor, ri_gymnasium = gymnasium, ri_xml = xml, ri_dependencies = deps, ri_artifact = []\<rparr>)) (\<lambda>artifact.
          mk_reward_identity h \<lparr>if_candidate = PStr (sha256_hex h source), if_schema = PStr schema,
            if_read_set = PTuple (map PStr CANDIDATE_READ_SET_V1), if_target_speed = PFloat target, if_alpha = PFloat alpha,
            if_beta = PFloat beta, if_compositor = PStr compositor, if_gymnasium = PStr gymnasium, if_xml = PStr xml,
            if_dependencies = PDict deps, if_artifact = PStr artifact\<rparr>)))))))))"

section \<open>What an identity is\<close>

lemma require_sha256_Inr [simp]: "require_sha256 field v = Inr s \<longleftrightarrow> v = PStr s \<and> hex_digest s"
  by (auto simp: require_sha256_def split: pyval.splits)

definition dependency_ok :: "string \<times> pyval \<Rightarrow> bool" where
  "dependency_ok p \<longleftrightarrow> dependency_name (fst p) \<and> (case snd p of PStr s \<Rightarrow> hex_digest s | _ \<Rightarrow> False)"

lemma read_dependency_Inr: "read_dependency p = Inr q \<longleftrightarrow> q = p \<and> dependency_ok p"
  by (cases p) (auto simp: read_dependency_def dependency_ok_def split: pyval.splits)

lemma read_dependencies_Inr: "mapE read_dependency ds = Inr es \<longleftrightarrow> es = ds \<and> list_all dependency_ok ds"
  by (induction ds arbitrary: es) (auto simp: read_dependency_Inr)

definition identity_ok :: "hasher \<Rightarrow> reward_identity \<Rightarrow> bool" where
  "identity_ok h r \<longleftrightarrow>
     list_all hex_digest [ri_candidate r, ri_schema r, ri_compositor r, ri_gymnasium r, ri_xml r, ri_artifact r] \<and>
     reward_schema_sha256 h = Inr (ri_schema r) \<and> ri_read_set r = CANDIDATE_READ_SET_V1 \<and>
     ri_target_speed r \<in> set TARGET_SPEEDS_M_S \<and>
     is_finite (ri_alpha r) \<and> between (Fin (1 / 4)) (Fin 4) (ri_alpha r) \<and>
     is_finite (ri_beta r) \<and> f64_le (f64_abs (ri_beta r)) (Fin 10) \<and>
     ri_dependencies r \<noteq> [] \<and> list_all dependency_ok (ri_dependencies r) \<and> sorted (map fst (ri_dependencies r)) \<and>
     identity_digest h (identity_payload r) = Inr (ri_artifact r)"

lemma list_ex_f64_eq: "list_ex (f64_eq f) TARGET_SPEEDS_M_S \<longleftrightarrow> f \<in> set TARGET_SPEEDS_M_S"
  by (auto simp: TARGET_SPEEDS_M_S_def f64_eq_Fin)

lemma target_speed_PFloat: "f \<in> set TARGET_SPEEDS_M_S \<Longrightarrow> target_speed (PFloat f) = Inr f"
  by (auto simp: target_speed_def list_ex_f64_eq finite_float_def TARGET_SPEEDS_M_S_def)

lemma target_speed_listed: "target_speed v = Inr f \<Longrightarrow> f \<in> set TARGET_SPEEDS_M_S"
  by (auto simp: target_speed_def list_ex_f64_eq split: if_splits)

lemma mk_reward_identity_ok:
  assumes "mk_reward_identity h f = Inr r"
  shows "identity_ok h r"
proof -
  from assms have r: "read_identity h f = Inr r" and d: "identity_digest h (identity_payload r) = Inr (ri_artifact r)"
    by (auto simp: mk_reward_identity_def split: if_splits)
  from r obtain ds where "list_all hex_digest [ri_candidate r, ri_schema r, ri_compositor r, ri_gymnasium r, ri_xml r, ri_artifact r]"
    "reward_schema_sha256 h = Inr (ri_schema r)" "ri_read_set r = CANDIDATE_READ_SET_V1"
    "target_speed (if_target_speed f) = Inr (ri_target_speed r)"
    and a: "finite_float ''affine_alpha'' (if_alpha f) = Inr (ri_alpha r)" "finite_float ''affine_beta'' (if_beta f) = Inr (ri_beta r)"
    and b: "between (Fin (1 / 4)) (Fin 4) (ri_alpha r)" "\<not> f64_lt (Fin 10) (f64_abs (ri_beta r))"
    and e: "ds \<noteq> []" "list_all dependency_ok ds" "ri_dependencies r = sort_key fst ds"
    by (auto simp: read_identity_def read_dependencies_Inr split: if_splits option.splits pyval.splits)
  moreover have "ri_target_speed r \<in> set TARGET_SPEEDS_M_S" using calculation(4) by (rule target_speed_listed)
  moreover have "ri_dependencies r \<noteq> []" using e(1,3) by (metis set_empty set_sort)
  moreover have "list_all dependency_ok (ri_dependencies r)" using e by (simp add: list_all_iff)
  ultimately show ?thesis
    using d finite_float_finite[OF a(1)] finite_float_finite[OF a(2)] by (simp add: identity_ok_def not_f64_lt_finite)
qed

definition fields_of_identity :: "reward_identity \<Rightarrow> identity_fields" where
  "fields_of_identity r = \<lparr>if_candidate = PStr (ri_candidate r), if_schema = PStr (ri_schema r),
     if_read_set = PTuple (map PStr (ri_read_set r)), if_target_speed = PFloat (ri_target_speed r),
     if_alpha = PFloat (ri_alpha r), if_beta = PFloat (ri_beta r), if_compositor = PStr (ri_compositor r),
     if_gymnasium = PStr (ri_gymnasium r), if_xml = PStr (ri_xml r),
     if_dependencies = PDict (ri_dependencies r), if_artifact = PStr (ri_artifact r)\<rparr>"

lemma read_identity_fields:
  assumes "list_all hex_digest [ri_candidate r, ri_schema r, ri_compositor r, ri_gymnasium r, ri_xml r, ri_artifact r]"
    and "reward_schema_sha256 h = Inr (ri_schema r)" "ri_read_set r = CANDIDATE_READ_SET_V1"
    and "ri_target_speed r \<in> set TARGET_SPEEDS_M_S"
    and "is_finite (ri_alpha r)" "between (Fin (1 / 4)) (Fin 4) (ri_alpha r)"
    and "is_finite (ri_beta r)" "f64_le (f64_abs (ri_beta r)) (Fin 10)"
    and "ri_dependencies r \<noteq> []" "list_all dependency_ok (ri_dependencies r)"
  shows "read_identity h (fields_of_identity r) = Inr (r\<lparr>ri_dependencies := sort_key fst (ri_dependencies r)\<rparr>)"
proof -
  have q: "require_sha256 n (PStr s) = Inr s" if "hex_digest s" for n s using that by simp
  have f: "scalar (finite_float n (PFloat x)) = Inr x" if "is_finite x" for n x using that by simp
  have b: "\<not> f64_lt (Fin 10) (f64_abs (ri_beta r))" using assms(7,8) by (simp add: not_f64_lt_finite)
  have d: "mapE read_dependency (ri_dependencies r) = Inr (ri_dependencies r)" using assms(10) by (simp add: read_dependencies_Inr)
  show ?thesis
    using assms b by (simp add: read_identity_def fields_of_identity_def q f d iter_items_def target_speed_PFloat)
qed

lemma mk_identity_again:
  assumes "identity_ok h r"
  shows "mk_reward_identity h (fields_of_identity r) = Inr r"
proof -
  have "sort_key fst (ri_dependencies r) = ri_dependencies r"
    using assms by (intro sort_key_id_if_sorted) (simp add: identity_ok_def)
  then show ?thesis
    using assms by (simp add: mk_reward_identity_def read_identity_fields identity_ok_def)
qed

lemma identity_reads_back:
  assumes "identity_ok h r"
  shows "identity_from_dict h (reward_identity_to_dict r) = Inr r"
proof -
  have k: "keys_are identity_keys (case reward_identity_to_dict r of PDict d \<Rightarrow> d | _ \<Rightarrow> [])"
    by (auto simp: keys_are_def dict_keys_def identity_keys_def reward_identity_to_dict_def identity_payload_def)
  have o: "option_all (map (as_str \<circ> PStr) xs) = Some xs" for xs
    by (simp add: comp_def)
  show ?thesis
    using k mk_identity_again[OF assms]
    by (simp add: identity_from_dict_def reward_identity_to_dict_def identity_payload_def item_def dict_get_def fields_of_identity_def o)
qed

interpretation identity_wire: wire_format "identity_ok h" reward_identity_to_dict "identity_from_dict h" for h
  by unfold_locales (rule identity_reads_back)

section \<open>Creation\<close>

lemma utf8_encode_bytes: "\<exists>b. utf8_encode (map code_of s) = Some b"
proof (induction s)
  case (Cons c s)
  have "code_of c < 256" by simp
  then have "\<not> 55296 \<le> code_of c" "code_of c < 1114112" by linarith+
  then show ?case using Cons by (auto simp: utf8_char_def)
qed simp

lemma canonical_bytes_total: "finite_floats v \<Longrightarrow> encodable v \<Longrightarrow> \<exists>b. canonical_json_bytes h v = Inr b"
  using utf8_encode_bytes[of "canonical_json (float_repr h) v"] by (auto simp: canonical_json_bytes_def)

lemma sort_key_map_keys:
  assumes "\<And>x. fst (f x) = fst x"
  shows "sort_key fst (map f xs) = map f (sort_key fst xs)"
proof -
  have "insort_key fst (f x) (map f ys) = map f (insort_key fst x ys)" for x ys
    by (induction ys) (simp_all add: assms)
  then show ?thesis by (induction xs) simp_all
qed

lemma canonical_json_sorted: "canonical_json fr (PDict (sort_key fst d)) = canonical_json fr (PDict d)"
proof -
  let ?f = "\<lambda>(k, v). (k, string_text k @ '':'' @ canonical_json fr v)"
  have m: "sort_key fst (map ?f xs) = map ?f (sort_key fst xs)" for xs
    by (rule sort_key_map_keys) auto
  have "sort_key fst (sort_key fst d) = sort_key fst d"
    by (rule sort_key_id_if_sorted) simp
  then have "sort_key fst (map ?f (sort_key fst d)) = sort_key fst (map ?f d)"
    unfolding m by simp
  then show ?thesis by (simp only: canonical_json.simps)
qed

lemma payload_sorted:
  "canonical_json_bytes h (identity_payload (r\<lparr>ri_dependencies := sort_key fst ds\<rparr>)) =
   canonical_json_bytes h (identity_payload (r\<lparr>ri_dependencies := ds\<rparr>))"
proof -
  have "list_all P (sort_key fst ds) = list_all P ds" for P by (simp add: list_all_iff)
  then show ?thesis
    using canonical_json_sorted[of "float_repr h" ds]
    by (simp add: canonical_json_bytes_def identity_payload_def del: canonical_json.simps(8))
       (simp add: canonical_json.simps(8))
qed

lemma small_int_text: "\<bar>n\<bar> < 100 \<Longrightarrow> encodable (PInt n)"
proof -
  assume "\<bar>n\<bar> < 100"
  also have "(100::int) = 10 ^ 2" by simp
  also have "(10::int) ^ 2 \<le> 10 ^ INT_TEXT_DIGITS" by (rule power_increasing) (simp_all add: INT_TEXT_DIGITS_def)
  finally show ?thesis by simp
qed

lemma dependency_values: "list_all dependency_ok ds \<Longrightarrow> list_all (\<lambda>p. finite_floats (snd p) \<and> encodable (snd p)) ds"
  by (induction ds) (auto simp: dependency_ok_def split: pyval.splits)

lemma payload_encodes:
  assumes "is_finite (ri_target_speed r)" "is_finite (ri_alpha r)" "is_finite (ri_beta r)" "list_all dependency_ok (ri_dependencies r)"
  shows "\<exists>b. canonical_json_bytes h (identity_payload r) = Inr b"
proof (rule canonical_bytes_total)
  have d: "list_all (\<lambda>p. finite_floats (snd p)) (ri_dependencies r)" "list_all (\<lambda>p. encodable (snd p)) (ri_dependencies r)"
    using dependency_values[OF assms(4)] by (simp_all add: list_all_iff)
  show "finite_floats (identity_payload r)" using assms d by (simp add: identity_payload_def list_all_iff)
  show "encodable (identity_payload r)" using d small_int_text[of 1] by (simp add: identity_payload_def list_all_iff)
qed

lemma control_period_finite: "is_finite CONTROL_PERIOD_SECONDS"
  using round_in[of 0 1 "15 / 1000"] by (auto simp: CONTROL_PERIOD_SECONDS_def fin_in_def)

lemma schema_encodes: "\<exists>s. reward_schema_sha256 h = Inr s"
proof -
  have tol: "is_finite TOTAL_REPRODUCTION_ABS_TOLERANCE" "is_finite (f64_round (4 / 10))" "is_finite (f64_round (- (4 / 10)))"
    using round_in[of 0 1 "1 / 10 ^ 12"] round_in[of 0 1 "4 / 10"] round_in[of "- 10" 0 "- (4 / 10)"]
    by (auto simp: TOTAL_REPRODUCTION_ABS_TOLERANCE_def fin_in_def)
  have "finite_floats REWARD_SCHEMA_V1"
    using tol control_period_finite
    by (simp add: REWARD_SCHEMA_V1_def schema_array_def unbounded_def floats_def TARGET_SPEEDS_M_S_def
        GENERALIZED_ACTUATOR_TORQUE_CAPACITY_N_M_def TOTAL_REWARD_ABS_MAX_def TASK_TERM_ABS_MAX_def list_all_iff)
  moreover have "encodable REWARD_SCHEMA_V1"
    using small_int_text
    by (simp add: REWARD_SCHEMA_V1_def schema_array_def unbounded_def floats_def list_all_iff
        ACTUATOR_QVEL_INDICES_BY_ACTION_V1_def del: encodable.simps(1))
  ultimately show ?thesis using canonical_bytes_total by (fastforce simp: reward_schema_sha256_def)
qed

text \<open>The arguments that \<open>create\<close> accepts.\<close>

definition creation_ok :: "string \<Rightarrow> pyval \<Rightarrow> pyval \<Rightarrow> pyval \<Rightarrow> pyval list \<Rightarrow> (string \<times> pyval) list \<Rightarrow> bool" where
  "creation_ok source target alpha beta digests deps \<longleftrightarrow>
     source \<noteq> [] \<and> length source \<le> MAX_CANDIDATE_BYTES \<and> utf8_decode source \<noteq> None \<and>
     list_ex (\<lambda>t. target_speed target = Inr t) TARGET_SPEEDS_M_S \<and>
     (case finite_float ''affine_alpha'' alpha of Inr a \<Rightarrow> between (Fin (1 / 4)) (Fin 4) a | Inl _ \<Rightarrow> False) \<and>
     (case finite_float ''affine_beta'' beta of Inr b \<Rightarrow> f64_le (f64_abs b) (Fin 10) | Inl _ \<Rightarrow> False) \<and>
     list_all (\<lambda>v. case v of PStr s \<Rightarrow> hex_digest s | _ \<Rightarrow> False) digests \<and>
     deps \<noteq> [] \<and> list_all dependency_ok deps"

lemma created_parts:
  assumes "create_identity h source target_v alpha_v beta_v compositor_v gymnasium_v xml_v deps = Inr r"
  shows "creation_ok source target_v alpha_v beta_v [compositor_v, gymnasium_v, xml_v] deps \<and> identity_ok h r \<and>
    ri_candidate r = sha256_hex h source \<and> ri_dependencies r = sort_key fst deps"
proof -
  from assms obtain target alpha beta f where
    s: "source \<noteq> []" "length source \<le> MAX_CANDIDATE_BYTES" "utf8_decode source \<noteq> None"
    and t: "target_speed target_v = Inr target" and a: "finite_float ''affine_alpha'' alpha_v = Inr alpha"
    and b: "finite_float ''affine_beta'' beta_v = Inr beta"
    and q: "list_all (\<lambda>v. case v of PStr s \<Rightarrow> hex_digest s | _ \<Rightarrow> False) [compositor_v, gymnasium_v, xml_v]"
    and m: "mk_reward_identity h f = Inr r"
    and f: "if_candidate f = PStr (sha256_hex h source)" "if_alpha f = PFloat alpha" "if_beta f = PFloat beta" "if_dependencies f = PDict deps"
    by (auto simp: create_identity_def not_less split: if_splits)
  have r: "between (Fin (1 / 4)) (Fin 4) alpha" "\<not> f64_lt (Fin 10) (f64_abs beta)" "deps \<noteq> []" "list_all dependency_ok deps"
    "ri_dependencies r = sort_key fst deps" "ri_candidate r = sha256_hex h source"
    using m f by (auto simp: mk_reward_identity_def read_identity_def read_dependencies_Inr split: if_splits option.splits)
  have "list_ex (\<lambda>t. target_speed target_v = Inr t) TARGET_SPEEDS_M_S"
    using t target_speed_listed[OF t] by (auto simp: list_ex_iff)
  then show ?thesis
    using s a b q r mk_reward_identity_ok[OF m] finite_float_finite[OF b] by (simp add: creation_ok_def not_f64_lt_finite)
qed

lemma create_accepts:
  assumes "creation_ok source target_v alpha_v beta_v [compositor_v, gymnasium_v, xml_v] deps"
    and digests: "\<And>x. hex_digest (sha256_hex h x)"
  shows "\<exists>r. create_identity h source target_v alpha_v beta_v compositor_v gymnasium_v xml_v deps = Inr r"
proof -
  obtain schema where schema: "reward_schema_sha256 h = Inr schema" using schema_encodes by blast
  then have schema_hex: "hex_digest schema" using digests by (auto simp: reward_schema_sha256_def)
  obtain target alpha beta c g x where v: "target_speed target_v = Inr target" "target \<in> set TARGET_SPEEDS_M_S"
    "finite_float ''affine_alpha'' alpha_v = Inr alpha" "between (Fin (1 / 4)) (Fin 4) alpha"
    "finite_float ''affine_beta'' beta_v = Inr beta" "f64_le (f64_abs beta) (Fin 10)"
    "compositor_v = PStr c" "gymnasium_v = PStr g" "xml_v = PStr x" "hex_digest c" "hex_digest g" "hex_digest x"
    using assms(1) by (auto simp: creation_ok_def list_ex_iff split: sum.splits pyval.splits)
  have deps: "deps \<noteq> []" "list_all dependency_ok deps"
    and src: "source \<noteq> []" "length source \<le> MAX_CANDIDATE_BYTES" "utf8_decode source \<noteq> None"
    using assms(1) by (simp_all add: creation_ok_def)
  define r where "r artifact = \<lparr>ri_candidate = sha256_hex h source, ri_schema = schema, ri_read_set = CANDIDATE_READ_SET_V1,
    ri_target_speed = target, ri_alpha = alpha, ri_beta = beta, ri_compositor = c, ri_gymnasium = g, ri_xml = x,
    ri_dependencies = deps, ri_artifact = artifact\<rparr>" for artifact
  have fin: "is_finite target" "is_finite alpha" "is_finite beta"
    using v(2) finite_float_finite[OF v(3)] finite_float_finite[OF v(5)] by (auto simp: TARGET_SPEEDS_M_S_def)
  obtain b where b: "canonical_json_bytes h (identity_payload (r [])) = Inr b"
    using payload_encodes[of "r []" h] fin deps by (auto simp: r_def)
  let ?a = "sha256_hex h b"
  have p: "identity_payload (r ?a) = identity_payload (r [])" by (simp add: r_def identity_payload_def)
  have again: "canonical_json_bytes h (identity_payload ((r ?a)\<lparr>ri_dependencies := sort_key fst deps\<rparr>)) = Inr b"
    using payload_sorted[where h = h and r = "r ?a" and ds = deps] b p by (simp add: r_def)
  have "read_identity h (fields_of_identity (r ?a)) = Inr ((r ?a)\<lparr>ri_dependencies := sort_key fst (ri_dependencies (r ?a))\<rparr>)"
    using schema schema_hex digests v fin deps by (intro read_identity_fields) (simp_all add: r_def)
  then have "mk_reward_identity h (fields_of_identity (r ?a)) = Inr ((r ?a)\<lparr>ri_dependencies := sort_key fst deps\<rparr>)"
    using again by (simp add: mk_reward_identity_def identity_digest_def r_def)
  then show ?thesis
    using src schema v b finite_float_PFloat fin
    by (simp add: create_identity_def identity_digest_def r_def fields_of_identity_def not_less)
qed

section \<open>Properties\<close>

text \<open>
  A reward result that the constructor accepts keeps its bounds: the total is at most 1024 in
  magnitude, the task term at most 1000, the healthy term is 0 or 5, the costs are not positive, and
  the terms reproduce the total; reading its dictionary gives the result back, and two accepted
  results with the same dictionary are equal.
\<close>

lemma accepted_result_round_trip:
  assumes "mk_result u v = Inr r"
  shows "result_ok r \<and> result_from_dict (result_to_dict r) = Inr r \<and>
    (\<forall>q \<in> {q. result_ok q}. result_to_dict q = result_to_dict r \<longrightarrow> q = r)"
proof -
  have r: "result_ok r" using assms by (rule mk_result_made)
  then show ?thesis using result_reads_back result_wire.to_dict_inject by blast
qed

lemma demo_result_made: "mk_result (PInt 4) (PDict [(''healthy'', PInt 5), (''task_progress'', PInt 0), (''control'', PInt (- 1)), (''contact'', PInt 0)]) =
    Inr \<lparr>rr_total = Fin 4, rr_task_progress = Fin 0, rr_healthy = Fin 5, rr_control = Fin (- 1), rr_contact = Fin 0\<rparr>"
proof -
  have i: "float_of_int 0 = Some (Fin 0)" "float_of_int 5 = Some (Fin 5)" "float_of_int 4 = Some (Fin 4)" "float_of_int (- 1) = Some (Fin (- 1))"
    using float_of_int_small[of 0] float_of_int_small[of 5] float_of_int_small[of 4] float_of_int_small[of "- 1"] by simp_all
  have s: "f64_round 5 = Fin 5" "f64_round 4 = Fin 4" by (simp_all add: f64_rep_round)
  show ?thesis
    by (simp add: mk_result_def finite_float_def i keys_are_def dict_keys_def item_def dict_get_def SIGNED_TERM_NAMES_V1_def
        TOTAL_REWARD_ABS_MAX_def TASK_TERM_ABS_MAX_def isclose_abs_def reproduced_total_def s insert_commute)
qed

lemma accepted_result_round_trip_witness:
  "result_from_dict (result_to_dict \<lparr>rr_total = Fin 4, rr_task_progress = Fin 0, rr_healthy = Fin 5, rr_control = Fin (- 1), rr_contact = Fin 0\<rparr>) =
     Inr \<lparr>rr_total = Fin 4, rr_task_progress = Fin 0, rr_healthy = Fin 5, rr_control = Fin (- 1), rr_contact = Fin 0\<rparr>"
  using accepted_result_round_trip[OF demo_result_made] by simp

text \<open>
  When the digest function returns digests, \<open>create\<close> accepts exactly the admissible arguments.
  What it returns passes every check of the constructor, names the digest of the candidate source,
  carries the digest of its own canonical payload whatever the order in which the dependencies were
  given, and is read back from its dictionary.
\<close>

lemma created_identity_binds:
  assumes "\<And>x. hex_digest (sha256_hex h x)"
  shows "case create_identity h source target alpha beta compositor gymnasium xml deps of
      Inl _ \<Rightarrow> \<not> creation_ok source target alpha beta [compositor, gymnasium, xml] deps
    | Inr r \<Rightarrow> creation_ok source target alpha beta [compositor, gymnasium, xml] deps \<and> identity_ok h r \<and>
        ri_candidate r = sha256_hex h source \<and> ri_dependencies r = sort_key fst deps \<and>
        identity_from_dict h (reward_identity_to_dict r) = Inr r"
proof (cases "create_identity h source target alpha beta compositor gymnasium xml deps")
  case (Inl e)
  have "\<not> creation_ok source target alpha beta [compositor, gymnasium, xml] deps"
    using create_accepts[of source target alpha beta compositor gymnasium xml deps h] assms Inl by auto
  then show ?thesis using Inl by simp
next
  case (Inr r)
  then show ?thesis using created_parts[OF Inr] by (simp add: identity_wire.reads_back)
qed

definition zero_digest :: string where "zero_digest = replicate 64 (CHR ''0'')"

definition demo_hasher :: hasher where "demo_hasher = \<lparr>float_repr = (\<lambda>_. ''1.0''), sha256_hex = (\<lambda>_. zero_digest)\<rparr>"

lemma zero_digest_hex: "hex_digest zero_digest"
  by (simp add: hex_digest_def zero_digest_def list_all_iff is_lower_hex_def is_digit_def)

lemma created_identity_binds_witness:
  "\<exists>r. create_identity demo_hasher ''x'' (PFloat (Fin 1)) (PFloat (Fin 1)) (PFloat (Fin 0)) (PStr zero_digest) (PStr zero_digest) (PStr zero_digest)
     [(''numpy'', PStr zero_digest), (''mujoco'', PStr zero_digest)] = Inr r \<and>
     ri_dependencies r = [(''mujoco'', PStr zero_digest), (''numpy'', PStr zero_digest)]"
proof -
  have d: "hex_digest (sha256_hex demo_hasher x)" for x by (simp add: demo_hasher_def zero_digest_hex)
  have n: "dependency_ok (''numpy'', PStr zero_digest)" "dependency_ok (''mujoco'', PStr zero_digest)"
    by (simp add: dependency_ok_def dependency_name_def zero_digest_hex, code_simp)+
  have "creation_ok ''x'' (PFloat (Fin 1)) (PFloat (Fin 1)) (PFloat (Fin 0)) [PStr zero_digest, PStr zero_digest, PStr zero_digest]
      [(''numpy'', PStr zero_digest), (''mujoco'', PStr zero_digest)]"
    using n target_speed_PFloat[of "Fin 1"]
    by (simp add: creation_ok_def zero_digest_hex MAX_CANDIDATE_BYTES_def TARGET_SPEEDS_M_S_def finite_float_def between_def)
  moreover have "sort_key fst [(''numpy'', PStr zero_digest), (''mujoco'', PStr zero_digest)] =
      [(''mujoco'', PStr zero_digest), (''numpy'', PStr zero_digest)]"
    by simp
  ultimately show ?thesis
    using created_identity_binds[of demo_hasher "''x''" "PFloat (Fin 1)" "PFloat (Fin 1)" "PFloat (Fin 0)"
        "PStr zero_digest" "PStr zero_digest" "PStr zero_digest" "[(''numpy'', PStr zero_digest), (''mujoco'', PStr zero_digest)]", OF d]
    by (auto split: sum.splits)
qed

end
