(* ===== verification/RewardStep.thy ===== *)
theory RewardStep
  imports RewardContract "HOL-Library.Multiset"
begin

text \<open>
  One control step of the reward: \<open>TrustedRewardStepV1\<close> of \<^verbatim>\<open>src/oracle_composition/rewards/contract.py\<close>
  and the composition of \<^verbatim>\<open>src/oracle_composition/rewards/stock_humanoid.py\<close>.  Arrays are flat lists
  of binary64 values with a shape; the operations of numpy are the fields of a record, and what the
  theorems need of them is the hypothesis \<open>ieee_numpy\<close>.
\<close>

section \<open>Arrays\<close>

datatype ndarray = F64Array "nat list" "f64 list" | OtherArray "nat list"

datatype array_arg = ArrayArg ndarray | Plain pyval

text \<open>An array has as many elements as its shape says.\<close>

fun ndarray_ok :: "ndarray \<Rightarrow> bool" where
  "ndarray_ok (F64Array shape data) = (length data = prod_list shape \<and> list_all f64_ok data)"
| "ndarray_ok (OtherArray shape) = True"

record numpy =
  np_multiply :: "f64 \<Rightarrow> f64 \<Rightarrow> f64"
  np_divide :: "f64 \<Rightarrow> f64 \<Rightarrow> f64"
  np_subtract :: "f64 \<Rightarrow> f64 \<Rightarrow> f64"
  np_square :: "f64 \<Rightarrow> f64"
  np_clip :: "f64 \<Rightarrow> f64 \<Rightarrow> f64 \<Rightarrow> f64"
  np_sum :: "f64 list \<Rightarrow> f64"
  np_norm :: "f64 list \<Rightarrow> f64"
  np_allclose :: "f64 list \<Rightarrow> f64 list \<Rightarrow> f64 \<Rightarrow> bool"
  np_einsum :: "f64 list \<Rightarrow> f64 list \<Rightarrow> f64 list"

definition exact_f64_array :: "nat list \<Rightarrow> string \<Rightarrow> array_arg \<Rightarrow> contract_error + f64 list" where
  "exact_f64_array shape field v = (case v of
       ArrayArg (F64Array s data) \<Rightarrow> if s \<noteq> shape \<or> \<not> list_all is_finite data then Inl (ArrayInvalid field) else Inr data
     | _ \<Rightarrow> Inl (ArrayInvalid field))"

text \<open>\<open>validate_json_array\<close>, and the elements of an accepted value in order.\<close>

fun json_array :: "pyval \<Rightarrow> nat list \<Rightarrow> f64 list option" where
  "json_array node [] = (case read_number node of Number f \<Rightarrow> if is_finite f then Some [f] else None | _ \<Rightarrow> None)"
| "json_array node (n # shape) = (case node of
       PList vs \<Rightarrow> if length vs \<noteq> n then None else map_option concat (option_all (map (\<lambda>v. json_array v shape) vs))
     | _ \<Rightarrow> None)"

definition wire_f64_array :: "nat list \<Rightarrow> string \<Rightarrow> array_arg \<Rightarrow> contract_error + array_arg" where
  "wire_f64_array shape field v = (case v of
       ArrayArg (F64Array s data) \<Rightarrow> if s \<noteq> shape then Inl (ArrayInvalid field) else Inr v
     | ArrayArg (OtherArray s) \<Rightarrow> Inl (ArrayInvalid field)
     | Plain node \<Rightarrow> (case json_array node shape of None \<Rightarrow> Inl (ArrayInvalid field) | Some data \<Rightarrow> Inr (ArrayArg (F64Array shape data))))"

section \<open>The trusted step\<close>

record trusted_step =
  ts_qpos :: "f64 list"
  ts_qvel :: "f64 list"
  ts_com_x_velocity :: f64
  ts_ctrl :: "f64 list"
  ts_torque :: "f64 list"
  ts_wrench :: "f64 list"
  ts_target_speed :: f64
  ts_control_period :: f64

record step_fields =
  sf_qpos :: array_arg
  sf_qvel :: array_arg
  sf_com_x_velocity :: pyval
  sf_ctrl :: array_arg
  sf_torque :: array_arg
  sf_wrench :: array_arg
  sf_target_speed :: pyval
  sf_control_period :: pyval

definition torque_limit :: "numpy \<Rightarrow> f64 \<Rightarrow> f64" where
  "torque_limit N capacity = np_multiply N capacity (f64_add (Fin 1) (f64_round (1 / 10 ^ 9)))"

definition step_admitted :: "numpy \<Rightarrow> trusted_step \<Rightarrow> contract_error + unit" where
  "step_admitted N s = (let capacities = GENERALIZED_ACTUATOR_TORQUE_CAPACITY_N_M in
     if \<not> f64_eq (ts_control_period s) CONTROL_PERIOD_SECONDS then Inl ControlPeriod
     else if list_ex (\<lambda>x. f64_lt x (f64_neg STOCK_FLOAT32_CONTROL_ABS_MAX)) (ts_ctrl s)
       \<or> list_ex (\<lambda>x. f64_lt STOCK_FLOAT32_CONTROL_ABS_MAX x) (ts_ctrl s) then Inl ControlBounds
     else if \<not> isclose_abs (np_norm N (take 4 (drop 3 (ts_qpos s)))) (Fin 1) (f64_round (1 / 10 ^ 6)) then Inl UnitQuaternion
     else if list_ex (\<lambda>(torque, capacity). f64_lt (torque_limit N capacity) (f64_abs torque)) (zip (ts_torque s) capacities)
       then Inl TorqueCapacity
     else if \<not> np_allclose N (map2 (np_divide N) (ts_torque s) capacities)
         (map (\<lambda>x. np_divide N x (f64_round (4 / 10))) (ts_ctrl s)) (f64_round (1 / 10 ^ 7)) then Inl TorqueControl
     else Inr ())"

definition mk_step :: "numpy \<Rightarrow> step_fields \<Rightarrow> contract_error + trusted_step" where
  "mk_step N f =
     bindE (exact_f64_array [24] ''qpos_after_f64'' (sf_qpos f)) (\<lambda>qpos.
     bindE (exact_f64_array [23] ''qvel_after_f64'' (sf_qvel f)) (\<lambda>qvel.
     bindE (exact_f64_array [17] ''ctrl_f64'' (sf_ctrl f)) (\<lambda>ctrl.
     bindE (exact_f64_array [17] ''generalized_actuator_torque_n_m_f64'' (sf_torque f)) (\<lambda>torque.
     bindE (exact_f64_array [14, 6] ''external_contact_wrench_f64'' (sf_wrench f)) (\<lambda>wrench.
     bindE (scalar (finite_float ''com_x_velocity_m_s'' (sf_com_x_velocity f))) (\<lambda>velocity.
     bindE (scalar (target_speed (sf_target_speed f))) (\<lambda>target.
     bindE (scalar (finite_float ''control_period_s'' (sf_control_period f))) (\<lambda>period.
       let s = \<lparr>ts_qpos = qpos, ts_qvel = qvel, ts_com_x_velocity = velocity, ts_ctrl = ctrl, ts_torque = torque,
                ts_wrench = wrench, ts_target_speed = target, ts_control_period = period\<rparr>
       in bindE (step_admitted N s) (\<lambda>_. Inr s)))))))))"

definition candidate_inputs :: "trusted_step \<Rightarrow> reward_error + task_inputs" where
  "candidate_inputs s = mk_inputs (PFloat (ts_com_x_velocity s)) (PFloat (ts_target_speed s))"

definition tolist_rows :: "nat \<Rightarrow> nat \<Rightarrow> f64 list \<Rightarrow> pyval" where
  "tolist_rows n k data = PList (map (\<lambda>i. floats (take k (drop (k * i) data))) [0..<n])"

definition step_to_dict :: "trusted_step \<Rightarrow> pyval" where
  "step_to_dict s = PDict [
     (''qpos_after_f64'', floats (ts_qpos s)),
     (''qvel_after_f64'', floats (ts_qvel s)),
     (''com_x_velocity_m_s'', PFloat (ts_com_x_velocity s)),
     (''ctrl_f64'', floats (ts_ctrl s)),
     (''generalized_actuator_torque_n_m_f64'', floats (ts_torque s)),
     (''external_contact_wrench_f64'', tolist_rows 14 6 (ts_wrench s)),
     (''target_speed_m_s'', PFloat (ts_target_speed s)),
     (''control_period_s'', PFloat (ts_control_period s))]"

definition step_keys :: "string list" where
  "step_keys = [''qpos_after_f64'', ''qvel_after_f64'', ''com_x_velocity_m_s'', ''ctrl_f64'', ''generalized_actuator_torque_n_m_f64'',
     ''external_contact_wrench_f64'', ''target_speed_m_s'', ''control_period_s'']"

text \<open>\<open>from_dict\<close>: the values are JSON values or arrays; an array is no scalar.\<close>

definition arg_item :: "(string \<times> array_arg) list \<Rightarrow> string \<Rightarrow> array_arg" where
  "arg_item d k = (case map_of d k of Some v \<Rightarrow> v | None \<Rightarrow> Plain PNone)"

definition plain_item :: "(string \<times> array_arg) list \<Rightarrow> string \<Rightarrow> pyval" where
  "plain_item d k = (case arg_item d k of Plain v \<Rightarrow> v | ArrayArg _ \<Rightarrow> PNone)"

definition step_from_items :: "numpy \<Rightarrow> (string \<times> array_arg) list \<Rightarrow> contract_error + trusted_step" where
  "step_from_items N d = (if set (map fst d) \<noteq> set step_keys then Inl StepKeysDiffer
     else bindE (wire_f64_array [24] ''qpos_after_f64'' (arg_item d ''qpos_after_f64'')) (\<lambda>qpos.
       bindE (wire_f64_array [23] ''qvel_after_f64'' (arg_item d ''qvel_after_f64'')) (\<lambda>qvel.
       bindE (wire_f64_array [17] ''ctrl_f64'' (arg_item d ''ctrl_f64'')) (\<lambda>ctrl.
       bindE (wire_f64_array [17] ''generalized_actuator_torque_n_m_f64'' (arg_item d ''generalized_actuator_torque_n_m_f64'')) (\<lambda>torque.
       bindE (wire_f64_array [14, 6] ''external_contact_wrench_f64'' (arg_item d ''external_contact_wrench_f64'')) (\<lambda>wrench.
         mk_step N \<lparr>sf_qpos = qpos, sf_qvel = qvel, sf_com_x_velocity = plain_item d ''com_x_velocity_m_s'', sf_ctrl = ctrl,
           sf_torque = torque, sf_wrench = wrench, sf_target_speed = plain_item d ''target_speed_m_s'',
           sf_control_period = plain_item d ''control_period_s''\<rparr>))))))"

definition step_from_dict :: "numpy \<Rightarrow> pyval \<Rightarrow> contract_error + trusted_step" where
  "step_from_dict N v = (case v of
       PDict d \<Rightarrow> step_from_items N (map (\<lambda>(k, x). (k, Plain x)) d)
     | _ \<Rightarrow> Inl StepKeysDiffer)"

section \<open>Composition\<close>

definition FORWARD_REWARD_WEIGHT :: f64 where "FORWARD_REWARD_WEIGHT = Fin (5 / 4)"
definition HEALTHY_REWARD :: f64 where "HEALTHY_REWARD = Fin 5"
definition CTRL_COST_WEIGHT :: f64 where "CTRL_COST_WEIGHT = f64_round (1 / 10)"
definition CONTACT_COST_WEIGHT :: f64 where "CONTACT_COST_WEIGHT = f64_round (5 / 10 ^ 7)"
definition CONTACT_COST_MAX :: f64 where "CONTACT_COST_MAX = Fin 10"

text \<open>\<open>5.0 * True\<close> is 5.0 and \<open>5.0 * False\<close> is 0.0.\<close>

definition healthy_term :: "trusted_step \<Rightarrow> f64" where
  "healthy_term s = (let z = ts_qpos s ! 2 in if f64_lt (Fin 1) z \<and> f64_lt z (Fin 2) then HEALTHY_REWARD else Fin 0)"

definition control_cost :: "numpy \<Rightarrow> trusted_step \<Rightarrow> f64" where
  "control_cost N s = np_multiply N CTRL_COST_WEIGHT (np_sum N (map (np_square N) (ts_ctrl s)))"

definition contact_cost :: "numpy \<Rightarrow> trusted_step \<Rightarrow> f64" where
  "contact_cost N s = np_clip N (np_multiply N CONTACT_COST_WEIGHT (np_sum N (map (np_square N) (ts_wrench s)))) NegInf CONTACT_COST_MAX"

definition trusted_base_terms :: "numpy \<Rightarrow> trusted_step \<Rightarrow> f64 \<times> f64 \<times> f64" where
  "trusted_base_terms N s = (healthy_term s, control_cost N s, contact_cost N s)"

definition composed_total :: "f64 \<Rightarrow> f64 \<Rightarrow> f64 \<Rightarrow> f64 \<Rightarrow> f64" where
  "composed_total task healthy control contact = f64_sub (f64_add task healthy) (f64_add control contact)"

definition finalize :: "numpy \<Rightarrow> trusted_step \<Rightarrow> f64 \<Rightarrow> contract_error + reward_result" where
  "finalize N s task = (if \<not> is_finite task then Inl TaskTermNotFinite
     else if f64_lt TASK_TERM_ABS_MAX (f64_abs task) then Inl TaskEnvelope
     else let (healthy, control, contact) = trusted_base_terms N s
       in mk_result (PFloat (composed_total task healthy control contact))
            (signed_terms task healthy (f64_neg control) (f64_neg contact)))"

definition compose_stock_humanoid_reward :: "numpy \<Rightarrow> trusted_step \<Rightarrow> contract_error + reward_result" where
  "compose_stock_humanoid_reward N s = finalize N s (f64_mul FORWARD_REWARD_WEIGHT (ts_com_x_velocity s))"

text \<open>\<open>type(v) is float and math.isfinite(v)\<close>\<close>

definition python_float :: "contract_error \<Rightarrow> pyval \<Rightarrow> contract_error + f64" where
  "python_float e v = (case v of PFloat x \<Rightarrow> if is_finite x then Inr x else Inl e | _ \<Rightarrow> Inl e)"

definition scaled_term :: "pyval \<Rightarrow> pyval \<Rightarrow> pyval \<Rightarrow> contract_error + f64" where
  "scaled_term raw_v alpha_v beta_v =
     bindE (python_float (AffineNotFinite ''affine_alpha'') alpha_v) (\<lambda>alpha.
     bindE (python_float (AffineNotFinite ''affine_beta'') beta_v) (\<lambda>beta.
       if \<not> between (Fin (1 / 4)) (Fin 4) alpha \<or> f64_lt (Fin 10) (f64_abs beta) then Inl AffineBounds
       else bindE (python_float TaskTermNotFinite raw_v) (\<lambda>raw.
         if f64_lt TASK_TERM_ABS_MAX (f64_abs raw) then Inl TaskEnvelope
         else let scaled = f64_add (f64_mul alpha raw) beta
           in if is_finite scaled then Inr scaled else Inl TaskTermNotFinite)))"

definition compose_trusted_humanoid_reward :: "numpy \<Rightarrow> trusted_step \<Rightarrow> pyval \<Rightarrow> pyval \<Rightarrow> pyval \<Rightarrow> contract_error + reward_result" where
  "compose_trusted_humanoid_reward N s raw_v alpha_v beta_v = bindE (scaled_term raw_v alpha_v beta_v) (finalize N s)"

section \<open>Capturing a step\<close>

text \<open>\<open>body_mass_weighted_com_xy_f64\<close>; the positions are a flat list of rows of three.\<close>

definition body_mass_weighted_com_xy_f64 :: "numpy \<Rightarrow> array_arg \<Rightarrow> array_arg \<Rightarrow> contract_error + f64 list" where
  "body_mass_weighted_com_xy_f64 N mass_v xipos_v = (case (mass_v, xipos_v) of
       (ArrayArg (F64Array mass_shape mass), ArrayArg (F64Array xipos_shape xipos)) \<Rightarrow>
         (case mass_shape of
             [bodies] \<Rightarrow>
               if xipos_shape \<noteq> [bodies, 3] then Inl BodyArrays
               else if bodies < 1 \<or> \<not> list_all is_finite mass then Inl BodyMasses
               else if list_ex (\<lambda>m. f64_lt m (Fin 0)) mass \<or> f64_le (np_sum N mass) (Fin 0) \<or> \<not> list_all is_finite xipos
               then Inl BodyMasses
               else let result = take 2 (map (\<lambda>x. np_divide N x (np_sum N mass)) (np_einsum N mass xipos))
                 in if length result \<noteq> 2 \<or> \<not> list_all is_finite result then Inl CentreNotFinite else Inr result
           | _ \<Rightarrow> Inl BodyArrays)
     | _ \<Rightarrow> Inl BodyArrays)"

definition body_mass_weighted_com_x_velocity_m_s :: "numpy \<Rightarrow> array_arg \<Rightarrow> array_arg \<Rightarrow> array_arg \<Rightarrow> pyval \<Rightarrow> contract_error + f64" where
  "body_mass_weighted_com_x_velocity_m_s N mass before_v after_v period_v = (case period_v of
       PFloat period \<Rightarrow> if \<not> f64_eq period CONTROL_PERIOD_SECONDS then Inl Cadence
         else bindE (body_mass_weighted_com_xy_f64 N mass before_v) (\<lambda>before.
           bindE (body_mass_weighted_com_xy_f64 N mass after_v) (\<lambda>after.
             let velocity = np_divide N (np_subtract N (after ! 0) (before ! 0)) period
             in if is_finite velocity then Inr velocity else Inl CentreNotFinite))
     | _ \<Rightarrow> Inl Cadence)"

text \<open>
  What the adapter reads of a Humanoid environment after a step: the arrays of the model and of the
  data, absent when either is not exposed, and \<open>float(dt)\<close>, which is NaN when there is no such attribute.
\<close>

record humanoid =
  hm_body_mass :: ndarray
  hm_xipos :: ndarray
  hm_qpos :: ndarray
  hm_qvel :: ndarray
  hm_ctrl :: ndarray
  hm_qfrc_actuator :: ndarray
  hm_cfrc_ext :: ndarray

text \<open>Indexing with a list of rows; an index outside raises \<open>IndexError\<close>.\<close>

fun take_rows :: "nat list \<Rightarrow> ndarray \<Rightarrow> contract_error + ndarray" where
  "take_rows idx (F64Array (n # rest) data) = (if list_ex (\<lambda>i. n \<le> i) idx then Inl IndexOutOfRange
     else Inr (F64Array (length idx # rest) (concat (map (\<lambda>i. take (prod_list rest) (drop (prod_list rest * i) data)) idx))))"
| "take_rows idx (OtherArray (n # rest)) = (if list_ex (\<lambda>i. n \<le> i) idx then Inl IndexOutOfRange
     else Inr (OtherArray (length idx # rest)))"
| "take_rows idx _ = Inl IndexOutOfRange"

definition trusted_step_from_post_step_humanoid :: "numpy \<Rightarrow> humanoid option \<Rightarrow> f64 \<Rightarrow> array_arg \<Rightarrow> pyval \<Rightarrow> contract_error + trusted_step" where
  "trusted_step_from_post_step_humanoid N environment dt before_v target_v = (case environment of
       None \<Rightarrow> Inl NoModel
     | Some e \<Rightarrow> (case before_v of
         ArrayArg (F64Array shape before) \<Rightarrow>
           if shape \<noteq> [2] \<or> \<not> list_all is_finite before then Inl ComBefore
           else bindE (body_mass_weighted_com_xy_f64 N (ArrayArg (hm_body_mass e)) (ArrayArg (hm_xipos e))) (\<lambda>after.
             if \<not> f64_eq dt CONTROL_PERIOD_SECONDS then Inl Cadence
             else bindE (take_rows ACTUATOR_QVEL_INDICES_BY_ACTION_V1 (hm_qfrc_actuator e)) (\<lambda>torque.
               mk_step N \<lparr>sf_qpos = ArrayArg (hm_qpos e), sf_qvel = ArrayArg (hm_qvel e),
                 sf_com_x_velocity = PFloat (np_divide N (np_subtract N (after ! 0) (before ! 0)) dt),
                 sf_ctrl = ArrayArg (hm_ctrl e), sf_torque = ArrayArg torque, sf_wrench = ArrayArg (hm_cfrc_ext e),
                 sf_target_speed = target_v, sf_control_period = PFloat dt\<rparr>))
       | _ \<Rightarrow> Inl ComBefore))"

section \<open>What the composition relies on of numpy\<close>

text \<open>A sum of floats is the rounded addition of its items in some order and bracketing.\<close>

inductive adds :: "f64 list \<Rightarrow> f64 \<Rightarrow> bool" where
  none: "adds [] (Fin 0)"
| one: "adds [x] x"
| app: "adds xs a \<Longrightarrow> adds ys b \<Longrightarrow> mset zs = mset xs + mset ys \<Longrightarrow> adds zs (f64_add a b)"

definition ieee_numpy :: "numpy \<Rightarrow> bool" where
  "ieee_numpy N \<longleftrightarrow>
     (\<forall>a b. np_multiply N a b = f64_mul a b) \<and> (\<forall>a. np_square N a = f64_mul a a) \<and> (\<forall>xs. adds xs (np_sum N xs)) \<and>
     (\<forall>x c. np_clip N x NegInf (Fin c) = (if f64_lt (Fin c) x then Fin c else x))"

lemma numpyD:
  assumes "ieee_numpy N"
  shows "np_multiply N a b = f64_mul a b" "np_square N a = f64_mul a a" "adds xs (np_sum N xs)"
    "np_clip N x NegInf (Fin c) = (if f64_lt (Fin c) x then Fin c else x)"
  using assms by (simp_all add: ieee_numpy_def)

text \<open>A float that is not negative: an exact value from 0 on, or infinity.\<close>

definition nonneg :: "f64 \<Rightarrow> bool" where
  "nonneg x \<longleftrightarrow> x = PosInf \<or> (\<exists>q. x = Fin q \<and> 0 \<le> q)"

lemma nonneg_round: "0 \<le> q \<Longrightarrow> nonneg (f64_round q)"
  using f64_round_nonneg[of q] by (auto simp: nonneg_def)

lemma nonneg_add:
  assumes "nonneg a" "nonneg b"
  shows "nonneg (f64_add a b)"
proof (cases "\<exists>p q. a = Fin p \<and> b = Fin q")
  case True
  then show ?thesis using assms by (auto simp: nonneg_def[of "Fin p" for p] intro!: nonneg_round)
next
  case False
  then show ?thesis using assms by (auto simp: nonneg_def)
qed

lemma nonneg_square: "is_finite a \<Longrightarrow> nonneg (f64_mul a a)"
  by (cases a) (auto intro: nonneg_round)

lemma adds_nonneg: "adds xs s \<Longrightarrow> (\<And>x. x \<in> set xs \<Longrightarrow> nonneg x) \<Longrightarrow> nonneg s"
proof (induction rule: adds.induct)
  case (app xs a ys b zs)
  have "set zs = set xs \<union> set ys" using app.hyps(3) by (metis set_mset_mset set_mset_union)
  then show ?case using app.IH app.prems by (auto intro: nonneg_add)
qed (auto simp: nonneg_def)

text \<open>The partial sums of values in \<open>[0, 1/4]\<close> never exceed a quarter of their number.\<close>

lemma f64_rep_quarter: "n \<le> 2 ^ 53 \<Longrightarrow> f64_rep (of_nat n / 4)"
  using f64_rep_quarters[of "int n"] by simp

lemma adds_bounded:
  assumes "adds xs s" and "\<And>x. x \<in> set xs \<Longrightarrow> fin_in x 0 (1 / 4)" and "length xs \<le> 2 ^ 53"
  shows "fin_in s 0 (of_nat (length xs) / 4)"
  using assms
proof (induction rule: adds.induct)
  case (app xs a ys b zs)
  have s: "set zs = set xs \<union> set ys" using app.hyps(3) by (metis set_mset_mset set_mset_union)
  have l: "length zs = length xs + length ys" using app.hyps(3) by (metis size_mset size_union)
  have "fin_in a 0 (of_nat (length xs) / 4)" "fin_in b 0 (of_nat (length ys) / 4)"
    using app.IH app.prems s l by auto
  then obtain p q where "a = Fin p" "b = Fin q" "0 \<le> p + q" "p + q \<le> of_nat (length zs) / 4"
    by (auto simp: fin_in_def l field_simps)
  then show ?case using app.prems(2) f64_rep_quarter[of "length zs"] by (simp add: round_in)
qed (auto simp: fin_in_def)

section \<open>Rounding errors of the composition\<close>

lemma round_value:
  assumes "\<bar>x\<bar> < 1024"
  obtains q where "f64_round x = Fin q" "f64_rep q" "\<bar>q\<bar> \<le> 1024" "\<bar>q - x\<bar> \<le> 1 / 2 ^ 44"
proof -
  have r: "f64_rep 1024" "f64_rep (- 1024)" using f64_rep_quarters[of 4096] f64_rep_quarters[of "- 4096"] by simp_all
  have "fin_in (f64_round x) (- 1024) 1024" using assms r by (intro round_in) auto
  then obtain q where q: "f64_round x = Fin q" "f64_rep q" "\<bar>q\<bar> \<le> 1024" by (auto simp: fin_in_def)
  then have "q = round_rat x" using f64_round_FinD by blast
  then have "\<bar>q - x\<bar> \<le> 1 / 2 ^ 44"
    using round_error_below[of x 10] assms by (simp add: pow2_def)
  with q show ?thesis using that by blast
qed

text \<open>The two orders in which the terms are added differ by rounding only.\<close>

lemma totals_agree:
  assumes "\<bar>t\<bar> \<le> 1000" "0 \<le> h" "h \<le> 5" "0 \<le> c" "c \<le> 2" "0 \<le> k" "k \<le> 10"
  obtains u v where "composed_total (Fin t) (Fin h) (Fin c) (Fin k) = Fin u" "\<bar>u\<bar> \<le> 1024"
    "reproduced_total (Fin t) (Fin h) (Fin (- c)) (Fin (- k)) = Fin v" "\<bar>u - v\<bar> \<le> 1 / 10 ^ 12"
proof -
  have th: "\<bar>t + h\<bar> < 1024" and ck: "\<bar>c + k\<bar> < 1024" using assms by linarith+
  obtain a where a: "f64_round (t + h) = Fin a" "\<bar>a - (t + h)\<bar> \<le> 1 / 2 ^ 44"
    using round_value[of "t + h"] th by metis
  obtain b where b: "f64_round (c + k) = Fin b" "\<bar>b - (c + k)\<bar> \<le> 1 / 2 ^ 44"
    using round_value[of "c + k"] ck by metis
  have small: "(1::rat) / 2 ^ 44 \<le> 1" by simp
  have "\<bar>a - b\<bar> < 1024" using a(2) b(2) assms small by (simp only: abs_le_iff abs_less_iff) linarith
  then obtain u where u: "f64_round (a - b) = Fin u" "\<bar>u\<bar> \<le> 1024" "\<bar>u - (a - b)\<bar> \<le> 1 / 2 ^ 44"
    using round_value by metis
  have "\<bar>a - c\<bar> < 1024" using a(2) assms small by (simp only: abs_le_iff abs_less_iff) linarith
  then obtain p where p: "f64_round (a - c) = Fin p" "\<bar>p - (a - c)\<bar> \<le> 1 / 2 ^ 44"
    using round_value by metis
  have "\<bar>p - k\<bar> < 1024" using a(2) p(2) assms small by (simp only: abs_le_iff abs_less_iff) linarith
  then obtain v where v: "f64_round (p - k) = Fin v" "\<bar>v - (p - k)\<bar> \<le> 1 / 2 ^ 44"
    using round_value by metis
  have "\<bar>u - v\<bar> \<le> 4 * (1 / 2 ^ 44)" using b(2) u(3) p(2) v(2) by linarith
  also have "\<dots> \<le> 1 / 10 ^ 12" by simp
  finally have "\<bar>u - v\<bar> \<le> 1 / 10 ^ 12" .
  moreover have "composed_total (Fin t) (Fin h) (Fin c) (Fin k) = Fin u"
    using a b u by (simp add: composed_total_def f64_sub_def)
  moreover have "reproduced_total (Fin t) (Fin h) (Fin (- c)) (Fin (- k)) = Fin v"
    using a p v by (simp add: reproduced_total_def)
  ultimately show ?thesis using u(2) that by blast
qed

lemma isclose_of_bound:
  assumes "\<bar>u - v\<bar> \<le> 1 / 10 ^ 12"
  shows "isclose_abs (Fin v) (Fin u) TOTAL_REPRODUCTION_ABS_TOLERANCE"
proof -
  have "f64_abs (f64_sub (Fin u) (Fin v)) = f64_round \<bar>u - v\<bar>" by (simp add: f64_sub_def f64_abs_round)
  then show ?thesis
    using f64_round_mono[OF assms] by (simp add: isclose_abs_def TOTAL_REPRODUCTION_ABS_TOLERANCE_def Let_def)
qed

section \<open>What an accepted step is\<close>

definition step_ok :: "numpy \<Rightarrow> trusted_step \<Rightarrow> bool" where
  "step_ok N s \<longleftrightarrow> length (ts_qpos s) = 24 \<and> length (ts_qvel s) = 23 \<and> length (ts_ctrl s) = 17 \<and>
     length (ts_torque s) = 17 \<and> length (ts_wrench s) = 84 \<and>
     list_all is_finite (ts_qpos s @ ts_qvel s @ ts_ctrl s @ ts_torque s @ ts_wrench s) \<and>
     is_finite (ts_com_x_velocity s) \<and> ts_target_speed s \<in> set TARGET_SPEEDS_M_S \<and> is_finite (ts_control_period s) \<and>
     step_admitted N s = Inr ()"

fun array_ok :: "array_arg \<Rightarrow> bool" where
  "array_ok (ArrayArg a) = ndarray_ok a"
| "array_ok (Plain v) = True"

definition arrays_ok :: "step_fields \<Rightarrow> bool" where
  "arrays_ok f \<longleftrightarrow> list_all array_ok [sf_qpos f, sf_qvel f, sf_ctrl f, sf_torque f, sf_wrench f]"

lemma exact_f64_array_Inr: "exact_f64_array shape field v = Inr data \<longleftrightarrow> v = ArrayArg (F64Array shape data) \<and> list_all is_finite data"
  by (auto simp: exact_f64_array_def split: array_arg.splits ndarray.splits)

lemma mk_step_made:
  assumes "mk_step N f = Inr s" "arrays_ok f"
  shows "step_ok N s"
proof -
  from assms(1) have a: "sf_qpos f = ArrayArg (F64Array [24] (ts_qpos s))" "sf_qvel f = ArrayArg (F64Array [23] (ts_qvel s))"
    "sf_ctrl f = ArrayArg (F64Array [17] (ts_ctrl s))" "sf_torque f = ArrayArg (F64Array [17] (ts_torque s))"
    "sf_wrench f = ArrayArg (F64Array [14, 6] (ts_wrench s))"
    and i: "list_all is_finite (ts_qpos s)" "list_all is_finite (ts_qvel s)" "list_all is_finite (ts_ctrl s)"
      "list_all is_finite (ts_torque s)" "list_all is_finite (ts_wrench s)"
    and v: "finite_float ''com_x_velocity_m_s'' (sf_com_x_velocity f) = Inr (ts_com_x_velocity s)"
      "target_speed (sf_target_speed f) = Inr (ts_target_speed s)"
      "finite_float ''control_period_s'' (sf_control_period f) = Inr (ts_control_period s)"
    and d: "step_admitted N s = Inr ()"
    by (auto simp: mk_step_def exact_f64_array_Inr Let_def)
  show ?thesis
    using assms(2) a i d finite_float_finite[OF v(1)] target_speed_listed[OF v(2)] finite_float_finite[OF v(3)]
    by (simp add: step_ok_def arrays_ok_def)
qed

definition fields_of_step :: "trusted_step \<Rightarrow> step_fields" where
  "fields_of_step s = \<lparr>sf_qpos = ArrayArg (F64Array [24] (ts_qpos s)), sf_qvel = ArrayArg (F64Array [23] (ts_qvel s)),
     sf_com_x_velocity = PFloat (ts_com_x_velocity s), sf_ctrl = ArrayArg (F64Array [17] (ts_ctrl s)),
     sf_torque = ArrayArg (F64Array [17] (ts_torque s)), sf_wrench = ArrayArg (F64Array [14, 6] (ts_wrench s)),
     sf_target_speed = PFloat (ts_target_speed s), sf_control_period = PFloat (ts_control_period s)\<rparr>"

lemma mk_step_again: "step_ok N s \<Longrightarrow> mk_step N (fields_of_step s) = Inr s"
proof -
  assume s: "step_ok N s"
  have e: "exact_f64_array shape field (ArrayArg (F64Array shape data)) = Inr data" if "list_all is_finite data" for shape field data
    using that by (simp add: exact_f64_array_Inr)
  have f: "scalar (finite_float n (PFloat x)) = Inr x" if "is_finite x" for n x using that by simp
  show ?thesis
    using s by (cases s) (simp add: mk_step_def fields_of_step_def e f target_speed_PFloat step_ok_def Let_def)
qed

text \<open>Lists and nested lists are read back as the array they print.\<close>

lemma json_array_floats: "list_all is_finite xs \<Longrightarrow> json_array (floats xs) [length xs] = Some xs"
proof -
  assume "list_all is_finite xs"
  then have "option_all (map (\<lambda>v. json_array v []) (map PFloat xs)) = Some (map (\<lambda>x. [x]) xs)"
    by (induction xs) auto
  then show ?thesis by (simp add: floats_def)
qed

lemma concat_rows: "concat (map (\<lambda>i. take k (drop (k * i) xs)) [0..<n]) = take (k * n) xs"
proof (induction n)
  case (Suc n)
  have "take (k * Suc n) xs = take (k * n) xs @ take k (drop (k * n) xs)"
    using take_add[of "k * n" k xs] by (simp add: add.commute)
  then show ?case using Suc by simp
qed simp

lemma json_array_rows:
  assumes "list_all is_finite xs" "length xs = n * k"
  shows "json_array (tolist_rows n k xs) [n, k] = Some xs"
proof -
  have r: "json_array (floats (take k (drop (k * i) xs))) [k] = Some (take k (drop (k * i) xs))" if "i < n" for i
  proof -
    have "k * i + k \<le> n * k" using that by (metis Suc_leI mult.commute mult_Suc_right mult_le_mono2 add.commute)
    then have "length (take k (drop (k * i) xs)) = k" using assms(2) by simp
    moreover have "list_all is_finite (take k (drop (k * i) xs))"
      using assms(1) by (auto simp: list_all_iff dest!: in_set_takeD in_set_dropD)
    ultimately show ?thesis using json_array_floats by metis
  qed
  let ?row = "\<lambda>i. take k (drop (k * i) xs)"
  have "map (\<lambda>i. json_array (floats (?row i)) [k]) [0..<n] = map (\<lambda>i. Some (?row i)) [0..<n]"
    by (rule map_cong[OF refl]) (simp only: set_upt atLeastLessThan_iff r)
  then have "option_all (map (\<lambda>v. json_array v [k]) (map (\<lambda>i. floats (?row i)) [0..<n])) = Some (map ?row [0..<n])"
    by (simp only: map_map o_def option_all_map_Some)
  then show ?thesis
    using concat_rows[of k xs n] assms(2) unfolding tolist_rows_def json_array.simps(2)[of _ n]
    by (simp add: mult.commute del: json_array.simps map_map)
qed

lemma wire_floats: "list_all is_finite xs \<Longrightarrow> length xs = n \<Longrightarrow> wire_f64_array [n] field (Plain (floats xs)) = Inr (ArrayArg (F64Array [n] xs))"
  using json_array_floats[of xs] by (simp add: wire_f64_array_def del: json_array.simps)

lemma wire_rows: "list_all is_finite xs \<Longrightarrow> length xs = n * k \<Longrightarrow>
    wire_f64_array [n, k] field (Plain (tolist_rows n k xs)) = Inr (ArrayArg (F64Array [n, k] xs))"
  using json_array_rows[of xs n k] by (simp add: wire_f64_array_def del: json_array.simps)

lemma step_reads_back:
  assumes "step_ok N s"
  shows "step_from_dict N (step_to_dict s) = Inr s"
proof -
  have w: "wire_f64_array [24] f (Plain (floats (ts_qpos s))) = Inr (ArrayArg (F64Array [24] (ts_qpos s)))"
    "wire_f64_array [23] f (Plain (floats (ts_qvel s))) = Inr (ArrayArg (F64Array [23] (ts_qvel s)))"
    "wire_f64_array [17] f (Plain (floats (ts_ctrl s))) = Inr (ArrayArg (F64Array [17] (ts_ctrl s)))"
    "wire_f64_array [17] f (Plain (floats (ts_torque s))) = Inr (ArrayArg (F64Array [17] (ts_torque s)))"
    "wire_f64_array [14, 6] f (Plain (tolist_rows 14 6 (ts_wrench s))) = Inr (ArrayArg (F64Array [14, 6] (ts_wrench s)))" for f
    using assms by (simp_all add: wire_floats wire_rows step_ok_def)
  have k: "set (map fst (map (\<lambda>(k, x). (k, Plain x)) (case step_to_dict s of PDict d \<Rightarrow> d | _ \<Rightarrow> []))) = set step_keys"
    by (simp add: step_to_dict_def step_keys_def insert_commute)
  show ?thesis
    using k mk_step_again[OF assms]
    by (simp add: step_from_dict_def step_from_items_def step_to_dict_def arg_item_def plain_item_def w fields_of_step_def)
qed

interpretation step_wire: wire_format "step_ok N" step_to_dict "step_from_dict N" for N
  by unfold_locales (rule step_reads_back)

lemma step_candidate_inputs: "step_ok N s \<Longrightarrow>
    candidate_inputs s = Inr \<lparr>com_x_velocity_m_s = ts_com_x_velocity s, target_speed_m_s = ts_target_speed s\<rparr>"
  by (simp add: candidate_inputs_def mk_inputs_def step_ok_def target_speed_PFloat finite_float_def)

section \<open>The costs are bounded\<close>

lemma square_in:
  assumes "is_finite x" "\<not> f64_lt x (f64_neg STOCK_FLOAT32_CONTROL_ABS_MAX)" "\<not> f64_lt STOCK_FLOAT32_CONTROL_ABS_MAX x"
  shows "fin_in (f64_mul x x) 0 (1 / 4)"
proof -
  obtain a where a: "x = Fin a" using assms(1) by (auto simp: is_finite_iff)
  have "\<bar>a\<bar> \<le> 1 / 2" using assms(2,3) by (auto simp: a STOCK_FLOAT32_CONTROL_ABS_MAX_def)
  then have "\<bar>a\<bar> * \<bar>a\<bar> \<le> 1 / 2 * (1 / 2)" by (intro mult_mono) auto
  then have "0 \<le> a * a" "a * a \<le> 1 / 4" by (simp_all add: abs_mult_self_eq)
  then show ?thesis by (simp add: a round_in)
qed

lemma control_cost_in:
  assumes "ieee_numpy N" "step_ok N s"
  shows "fin_in (control_cost N s) 0 2"
proof -
  have c: "\<not> f64_lt x (f64_neg STOCK_FLOAT32_CONTROL_ABS_MAX) \<and> \<not> f64_lt STOCK_FLOAT32_CONTROL_ABS_MAX x \<and> is_finite x"
    if "x \<in> set (ts_ctrl s)" for x
    using assms(2) that by (auto simp: step_ok_def step_admitted_def Let_def list_ex_iff list_all_iff split: if_splits)
  have l: "length (ts_ctrl s) = 17" using assms(2) by (simp add: step_ok_def)
  have "fin_in (np_sum N (map (np_square N) (ts_ctrl s))) 0 (of_nat (length (map (np_square N) (ts_ctrl s))) / 4)"
    using assms(1) c l by (intro adds_bounded) (auto simp: ieee_numpy_def square_in)
  then obtain a where a: "np_sum N (map (np_square N) (ts_ctrl s)) = Fin a" "0 \<le> a" "a \<le> 17 / 4"
    by (auto simp: fin_in_def l)
  obtain w where w: "CTRL_COST_WEIGHT = Fin w" "0 \<le> w" "w \<le> 1 / 4"
    using round_in[of 0 "1 / 4" "1 / 10"] by (auto simp: CTRL_COST_WEIGHT_def fin_in_def)
  have "w * a \<le> 1 / 4 * (17 / 4)" using a w by (intro mult_mono) auto
  then have "0 \<le> w * a" "w * a \<le> 2" using a w by auto
  moreover have "f64_rep 2" using f64_rep_quarters[of 8] by simp
  ultimately have "fin_in (f64_round (w * a)) 0 2" by (intro round_in) simp_all
  then show ?thesis unfolding control_cost_def numpyD(1)[OF assms(1)] a(1) w(1) by simp
qed

lemma contact_cost_in:
  assumes "ieee_numpy N" "step_ok N s"
  obtains k where "contact_cost N s = Fin k" "0 \<le> k" "k \<le> 10"
proof -
  let ?sum = "np_sum N (map (np_square N) (ts_wrench s))"
  have sum: "nonneg ?sum"
    using assms(2) by (intro adds_nonneg[OF numpyD(3)[OF assms(1)]])
      (auto simp: numpyD(2)[OF assms(1)] step_ok_def list_all_iff intro: nonneg_square)
  have "fin_in CONTACT_COST_WEIGHT (pow2 (- 21)) 1"
    unfolding CONTACT_COST_WEIGHT_def by (intro round_in f64_rep_pow2 f64_rep_consts) (simp_all add: pow2_def)
  then obtain w where w: "CONTACT_COST_WEIGHT = Fin w" "pow2 (- 21) \<le> w" by (auto simp: fin_in_def)
  have w0: "0 < w" using w(2) pow2_pos[of "- 21"] by (rule less_le_trans[rotated])
  have "nonneg (f64_mul (Fin w) ?sum)"
  proof (cases "?sum = PosInf")
    case True
    then show ?thesis using w0 by (simp add: nonneg_def)
  next
    case False
    then obtain q where "?sum = Fin q" "0 \<le> q" using sum by (auto simp: nonneg_def)
    then show ?thesis using w0 by (simp add: nonneg_round)
  qed
  then consider "f64_mul (Fin w) ?sum = PosInf" | q where "f64_mul (Fin w) ?sum = Fin q" "0 \<le> q" by (auto simp: nonneg_def)
  moreover have "contact_cost N s = (if f64_lt (Fin 10) (f64_mul (Fin w) ?sum) then Fin 10 else f64_mul (Fin w) ?sum)"
    by (simp only: contact_cost_def numpyD[OF assms(1)] w(1) CONTACT_COST_MAX_def)
  ultimately show ?thesis using that by cases (force split: if_splits)+
qed

lemma healthy_term_values: "healthy_term s = Fin 0 \<or> healthy_term s = Fin 5"
  by (simp add: healthy_term_def HEALTHY_REWARD_def Let_def)

text \<open>Once the task term is inside its envelope, the result is made.\<close>

lemma finalize_makes:
  assumes "ieee_numpy N" "step_ok N s" "\<bar>t\<bar> \<le> 1000"
  shows "finalize N s (Fin t) = Inr \<lparr>rr_total = composed_total (Fin t) (healthy_term s) (control_cost N s) (contact_cost N s),
    rr_task_progress = Fin t, rr_healthy = healthy_term s, rr_control = f64_neg (control_cost N s), rr_contact = f64_neg (contact_cost N s)\<rparr>"
    (is "_ = Inr ?r")
proof -
  obtain h where h: "healthy_term s = Fin h" "0 \<le> h" "h \<le> 5" "h = 0 \<or> h = 5" using healthy_term_values[of s] by auto
  obtain c where c: "control_cost N s = Fin c" "0 \<le> c" "c \<le> 2" using control_cost_in[OF assms(1,2)] by (auto simp: fin_in_def)
  obtain k where k: "contact_cost N s = Fin k" "0 \<le> k" "k \<le> 10" using contact_cost_in[OF assms(1,2)] .
  obtain u v where uv: "composed_total (Fin t) (Fin h) (Fin c) (Fin k) = Fin u" "\<bar>u\<bar> \<le> 1024"
    "reproduced_total (Fin t) (Fin h) (Fin (- c)) (Fin (- k)) = Fin v" "\<bar>u - v\<bar> \<le> 1 / 10 ^ 12"
    using totals_agree[OF assms(3) h(2,3) c(2,3) k(2,3)] .
  have "result_ok ?r"
    using h c k uv assms(3) isclose_of_bound[OF uv(4)] by (auto simp: result_ok_def)
  from mk_result_of_ok[OF this] show ?thesis
    using assms(3) by (simp add: finalize_def TASK_TERM_ABS_MAX_def trusted_base_terms_def)
qed

section \<open>Captured steps\<close>

definition humanoid_ok :: "humanoid \<Rightarrow> bool" where
  "humanoid_ok e \<longleftrightarrow> list_all ndarray_ok [hm_qpos e, hm_qvel e, hm_ctrl e, hm_qfrc_actuator e, hm_cfrc_ext e]"

lemma take_rows_ok:
  assumes "take_rows idx a = Inr b" "ndarray_ok a"
  shows "ndarray_ok b"
  using assms
proof (cases rule: take_rows.cases[of "(idx, a)"])
  case (1 idx' n rest data)
  let ?k = "prod_list rest"
  have r: "length (take ?k (drop (?k * i) data)) = ?k" if "i \<in> set idx" for i
  proof -
    have "i < n" using assms(1) 1 that by (auto simp: list_ex_iff not_le split: if_splits)
    then have "?k * i + ?k \<le> ?k * n" by (metis Suc_leI mult_Suc_right mult_le_mono2 add.commute)
    then show ?thesis using assms(2) 1 by (simp add: mult.commute)
  qed
  have b: "b = F64Array (length idx # rest) (concat (map (\<lambda>i. take ?k (drop (?k * i) data)) idx))"
    using assms(1) 1 by (auto split: if_splits)
  have "length (concat (map (\<lambda>i. take ?k (drop (?k * i) data)) idx)) = length idx * ?k"
    using r by (induction idx) (simp_all)
  then show ?thesis
    using assms(2) 1 by (auto simp: b list_all_iff dest: in_set_takeD in_set_dropD)
qed (auto split: if_splits)

lemma captured_step_ok:
  assumes "trusted_step_from_post_step_humanoid N (Some e) dt before_v target_v = Inr s" "humanoid_ok e"
  shows "step_ok N s"
proof -
  from assms(1) obtain torque v where t: "take_rows ACTUATOR_QVEL_INDICES_BY_ACTION_V1 (hm_qfrc_actuator e) = Inr torque"
    and m: "mk_step N \<lparr>sf_qpos = ArrayArg (hm_qpos e), sf_qvel = ArrayArg (hm_qvel e), sf_com_x_velocity = v,
      sf_ctrl = ArrayArg (hm_ctrl e), sf_torque = ArrayArg torque, sf_wrench = ArrayArg (hm_cfrc_ext e),
      sf_target_speed = target_v, sf_control_period = PFloat dt\<rparr> = Inr s"
    by (auto simp: trusted_step_from_post_step_humanoid_def split: array_arg.splits ndarray.splits if_splits)
  have "ndarray_ok torque" using take_rows_ok[OF t] assms(2) by (simp add: humanoid_ok_def)
  then show ?thesis
    using assms(2) by (intro mk_step_made[OF m]) (simp add: arrays_ok_def humanoid_ok_def)
qed

lemma small_term_scaled:
  assumes "- 10 \<le> v" "v \<le> 15" "is_finite a" "between (Fin (1 / 4)) (Fin 4) a" "is_finite b" "f64_le (f64_abs b) (Fin 10)"
  obtains t where "scaled_term (PFloat (Fin v)) (PFloat a) (PFloat b) = Inr (Fin t)" "\<bar>t\<bar> \<le> 1000"
proof -
  obtain p q where p: "a = Fin p" "1 / 4 \<le> p" "p \<le> 4" and q: "b = Fin q" "\<bar>q\<bar> \<le> 10"
    using assms(3-6) by (auto simp: is_finite_iff between_def)
  have "\<bar>p * v\<bar> \<le> 4 * 15" unfolding abs_mult using p assms(1,2) by (intro mult_mono) auto
  then have "fin_in (f64_round (p * v)) (- 60) 60"
    using f64_rep_quarters[of 240] f64_rep_quarters[of "- 240"] by (intro round_in) auto
  then obtain x where x: "f64_round (p * v) = Fin x" "- 60 \<le> x" "x \<le> 60" by (auto simp: fin_in_def)
  have "fin_in (f64_round (x + q)) (- 1000) 1000"
    using f64_rep_quarters[of 4000] f64_rep_quarters[of "- 4000"] x(2,3) q(2) by (intro round_in) auto
  then obtain t where t: "f64_round (x + q) = Fin t" "\<bar>t\<bar> \<le> 1000" by (auto simp: fin_in_def)
  have "scaled_term (PFloat (Fin v)) (PFloat (Fin p)) (PFloat (Fin q)) = Inr (Fin t)"
    using assms(1,2) p q x(1) t(1) by (simp add: scaled_term_def python_float_def between_def TASK_TERM_ABS_MAX_def)
  with t(2) show ?thesis using that p q by blast
qed

section \<open>Properties\<close>

text \<open>
  C18. For every step that the constructor accepts, the composition fails only for its own arguments:
  it returns a result exactly when the parameters and the task term are admissible and the scaled
  term is at most 1000 in magnitude, and the result shows the healthy term and the negated costs.
  The reproduction test of the result, which adds the terms in another order, never refuses.
\<close>

theorem composition_never_refused:
  assumes "ieee_numpy N" "mk_step N f = Inr s" "arrays_ok f"
  shows "compose_trusted_humanoid_reward N s raw alpha beta = (case scaled_term raw alpha beta of
      Inl e \<Rightarrow> Inl e
    | Inr t \<Rightarrow> if f64_le (f64_abs t) (Fin 1000)
        then Inr \<lparr>rr_total = composed_total t (healthy_term s) (control_cost N s) (contact_cost N s), rr_task_progress = t,
          rr_healthy = healthy_term s, rr_control = f64_neg (control_cost N s), rr_contact = f64_neg (contact_cost N s)\<rparr>
        else Inl TaskEnvelope)"
proof (cases "scaled_term raw alpha beta")
  case (Inr t)
  then obtain q where q: "t = Fin q"
    by (auto simp: scaled_term_def is_finite_iff Let_def split: if_splits)
  have m: "finalize N s (Fin q) = Inl TaskEnvelope" if "\<not> \<bar>q\<bar> \<le> 1000"
    using that by (simp add: finalize_def TASK_TERM_ABS_MAX_def)
  show ?thesis
    using Inr q finalize_makes[OF assms(1) mk_step_made[OF assms(2,3)], of q] m
    by (simp add: compose_trusted_humanoid_reward_def)
qed (simp add: compose_trusted_humanoid_reward_def)

text \<open>
  C19. From the simulator to the reward: a step captured from an environment gives candidate inputs,
  the formula evaluates on them, and the composition accepts its value under all admissible affine
  parameters, with a result that keeps the bounds of the contract.
\<close>

theorem captured_step_is_rewarded:
  assumes "ieee_numpy N" "trusted_step_from_post_step_humanoid N (Some e) dt before target = Inr s" "humanoid_ok e"
    and "f64_ok (ts_com_x_velocity s)"
    and "mk_recipe fid a b = Inr r" "py_ok a" "py_ok b"
    and "is_finite alpha" "between (Fin (1 / 4)) (Fin 4) alpha" "is_finite beta" "f64_le (f64_abs beta) (Fin 10)"
  shows "\<exists>x v q. candidate_inputs s = Inr x \<and> evaluate_target_speed_formula r x = Inr v \<and>
    compose_trusted_humanoid_reward N s (PFloat v) (PFloat alpha) (PFloat beta) = Inr q \<and> result_ok q"
proof -
  have s: "step_ok N s" using captured_step_ok[OF assms(2,3)] .
  let ?x = "\<lparr>com_x_velocity_m_s = ts_com_x_velocity s, target_speed_m_s = ts_target_speed s\<rparr>"
  have r: "recipe_ok r" using mk_recipe_ok[OF assms(5-7)] .
  have "inputs_ok ?x" using s assms(4) by (auto simp: inputs_ok_def step_ok_def is_finite_iff TARGET_SPEEDS_M_S_def)
  then obtain v where v: "evaluate_target_speed_formula r ?x = Inr (Fin v)" "- 10 \<le> v" "v \<le> 15"
    using evaluate_is_value[OF r] formula_value_bounds[OF r] by metis
  obtain t where t: "scaled_term (PFloat (Fin v)) (PFloat alpha) (PFloat beta) = Inr (Fin t)" "\<bar>t\<bar> \<le> 1000"
    using small_term_scaled[OF v(2,3) assms(8-11)] .
  obtain q where q: "finalize N s (Fin t) = Inr q" using finalize_makes[OF assms(1) s t(2)] by blast
  then have "result_ok q"
    by (auto simp: finalize_def Let_def trusted_base_terms_def intro: mk_result_made split: if_splits)
  then show ?thesis
    using q v t step_candidate_inputs[OF s] by (auto simp: compose_trusted_humanoid_reward_def)
qed

text \<open>
  A step that the constructor accepts is read back from its dictionary, whose arrays are lists
  and nested lists of numbers, and its candidate inputs exist.
\<close>

lemma accepted_step_round_trip:
  assumes "mk_step N f = Inr s" "arrays_ok f"
  shows "step_from_dict N (step_to_dict s) = Inr s \<and>
    candidate_inputs s = Inr \<lparr>com_x_velocity_m_s = ts_com_x_velocity s, target_speed_m_s = ts_target_speed s\<rparr>"
  using step_wire.reads_back[OF mk_step_made[OF assms]] step_candidate_inputs[OF mk_step_made[OF assms]] by simp

section \<open>Witnesses\<close>

text \<open>Sequential summation, and a norm that is exact on the unit vectors of the axes.\<close>

definition demo_numpy :: numpy where
  "demo_numpy = \<lparr>np_multiply = f64_mul, np_divide = (\<lambda>a b. case f64_div a b of Some q \<Rightarrow> q | None \<Rightarrow> NaN),
     np_subtract = f64_sub, np_square = (\<lambda>a. f64_mul a a),
     np_clip = (\<lambda>x lo hi. let y = (if f64_lt x lo then lo else x) in if f64_lt hi y then hi else y),
     np_sum = (\<lambda>xs. foldr f64_add xs (Fin 0)), np_norm = (\<lambda>xs. foldr (\<lambda>x. f64_add (f64_abs x)) xs (Fin 0)),
     np_allclose = (\<lambda>xs ys t. list_all2 (\<lambda>x y. f64_le (f64_abs (f64_sub x y)) t) xs ys),
     np_einsum = (\<lambda>m x. map (\<lambda>j. foldr f64_add (map (\<lambda>i. f64_mul (m ! i) (x ! (3 * i + j))) [0..<length m]) (Fin 0)) [0..<3])\<rparr>"

lemma adds_foldr: "adds xs (foldr f64_add xs (Fin 0))"
proof (induction xs)
  case (Cons x xs)
  have "adds (x # xs) (f64_add x (foldr f64_add xs (Fin 0)))"
    by (rule adds.app[OF adds.one Cons.IH]) simp
  then show ?case by simp
qed (simp add: adds.none)

lemma not_lt_NegInf [simp]: "\<not> f64_lt x NegInf"
  by (cases x) auto

lemma demo_numpy_ieee: "ieee_numpy demo_numpy"
  by (simp add: ieee_numpy_def demo_numpy_def adds_foldr Let_def)

lemma nonneg_not_lt: "nonneg x \<Longrightarrow> \<not> f64_lt x (Fin 0)"
  by (auto simp: nonneg_def)

definition demo_pose :: "f64 list" where
  "demo_pose = [Fin 0, Fin 0, Fin (3 / 2), Fin 1] @ replicate 20 (Fin 0)"

definition demo_step :: trusted_step where
  "demo_step = \<lparr>ts_qpos = demo_pose, ts_qvel = replicate 23 (Fin 0), ts_com_x_velocity = Fin 0, ts_ctrl = replicate 17 (Fin 0),
     ts_torque = replicate 17 (Fin 0), ts_wrench = replicate 84 (Fin 0), ts_target_speed = Fin 1,
     ts_control_period = CONTROL_PERIOD_SECONDS\<rparr>"

lemma demo_limit: "\<not> f64_lt (torque_limit demo_numpy (Fin c)) (Fin 0)" if "0 \<le> c"
proof -
  have "nonneg (f64_add (Fin 1) (f64_round (1 / 10 ^ 9)))"
    by (intro nonneg_add nonneg_round) (simp_all add: nonneg_def)
  then consider "f64_add (Fin 1) (f64_round (1 / 10 ^ 9)) = PosInf" | q where "f64_add (Fin 1) (f64_round (1 / 10 ^ 9)) = Fin q" "0 \<le> q"
    by (auto simp: nonneg_def)
  then show ?thesis
    using that by cases (simp_all add: torque_limit_def demo_numpy_def nonneg_not_lt nonneg_round)
qed

lemma demo_quotient: "is_finite t \<Longrightarrow> t \<noteq> Fin 0 \<Longrightarrow> np_divide demo_numpy (Fin 0) t = Fin 0"
  by (cases t) (auto simp: demo_numpy_def f64_rep_round)

lemma demo_step_admitted: "step_admitted demo_numpy demo_step = Inr ()"
proof -
  have period: "f64_eq CONTROL_PERIOD_SECONDS CONTROL_PERIOD_SECONDS" using control_period_finite by (rule f64_eq_self)
  have "fin_in (f64_round (4 / 10)) (1 / 4) 1" by (intro round_in) simp_all
  then have q: "is_finite (f64_round (4 / 10))" "f64_round (4 / 10) \<noteq> Fin 0" by (auto simp: fin_in_def)
  have tol: "f64_le (Fin 0) (f64_round (1 / 10 ^ 7))" using f64_round_mono[of 0 "1 / 10 ^ 7"] by (simp add: f64_rep_round)
  have sum: "f64_round 1 = Fin 1" "f64_round 0 = Fin 0" by (simp_all add: f64_rep_round)
  have norm: "np_norm demo_numpy (take 4 (drop 3 demo_pose)) = Fin 1"
    by (simp add: demo_numpy_def demo_pose_def numeral_eq_Suc sum)
  have caps: "\<not> list_ex (\<lambda>(torque, capacity). f64_lt (torque_limit demo_numpy capacity) (f64_abs torque))
      (zip (replicate 17 (Fin 0)) GENERALIZED_ACTUATOR_TORQUE_CAPACITY_N_M)"
  proof -
    have "f64_abs t = Fin 0 \<and> \<not> f64_lt (torque_limit demo_numpy c) (Fin 0)"
      if "(t, c) \<in> set (zip (replicate 17 (Fin 0)) GENERALIZED_ACTUATOR_TORQUE_CAPACITY_N_M)" for t c
      using set_zip_leftD[OF that] set_zip_rightD[OF that] demo_limit by (auto simp: GENERALIZED_ACTUATOR_TORQUE_CAPACITY_N_M_def)
    then show ?thesis by (auto simp: list_ex_iff)
  qed
  have ratios: "map2 (np_divide demo_numpy) (replicate 17 (Fin 0)) GENERALIZED_ACTUATOR_TORQUE_CAPACITY_N_M = replicate 17 (Fin 0)"
    by (simp add: GENERALIZED_ACTUATOR_TORQUE_CAPACITY_N_M_def numeral_eq_Suc demo_quotient)
  have close: "np_allclose demo_numpy (replicate 17 (Fin 0)) (replicate 17 (Fin 0)) (f64_round (1 / 10 ^ 7))"
    using tol sum by (simp add: demo_numpy_def list_all2_conv_all_nth f64_sub_def)
  show ?thesis
    using period norm caps sum demo_quotient[OF q] ratios close
    by (simp add: step_admitted_def demo_step_def STOCK_FLOAT32_CONTROL_ABS_MAX_def list_ex_iff isclose_abs_def Let_def)
qed

lemma demo_step_ok: "step_ok demo_numpy demo_step"
  using demo_step_admitted control_period_finite
  by (simp add: step_ok_def demo_step_def demo_pose_def list_all_iff TARGET_SPEEDS_M_S_def)

lemma demo_arrays_ok: "arrays_ok (fields_of_step demo_step)"
  by (simp add: arrays_ok_def fields_of_step_def demo_step_def demo_pose_def list_all_iff)

theorem composition_never_refused_witness:
  "\<exists>q. compose_trusted_humanoid_reward demo_numpy demo_step (PFloat (Fin 2)) (PFloat (Fin 1)) (PFloat (Fin 0)) = Inr q \<and>
     rr_task_progress q = Fin 2 \<and> rr_healthy q = Fin 5"
proof -
  have two: "f64_round 2 = Fin 2" using f64_rep_quarters[of 8] by (simp add: f64_rep_round)
  have "scaled_term (PFloat (Fin 2)) (PFloat (Fin 1)) (PFloat (Fin 0)) = Inr (Fin 2)"
    by (simp add: scaled_term_def python_float_def between_def TASK_TERM_ABS_MAX_def two)
  moreover have "healthy_term demo_step = Fin 5"
    by (simp add: healthy_term_def demo_step_def demo_pose_def HEALTHY_REWARD_def)
  ultimately show ?thesis
    using composition_never_refused[OF demo_numpy_ieee mk_step_again[OF demo_step_ok] demo_arrays_ok,
        of "PFloat (Fin 2)" "PFloat (Fin 1)" "PFloat (Fin 0)"] by simp
qed

lemma accepted_step_round_trip_witness: "step_from_dict demo_numpy (step_to_dict demo_step) = Inr demo_step"
  using accepted_step_round_trip[OF mk_step_again[OF demo_step_ok] demo_arrays_ok] by simp

definition demo_humanoid :: humanoid where
  "demo_humanoid = \<lparr>hm_body_mass = F64Array [1] [Fin 1], hm_xipos = F64Array [1, 3] [Fin 0, Fin 0, Fin 0],
     hm_qpos = F64Array [24] demo_pose, hm_qvel = F64Array [23] (replicate 23 (Fin 0)), hm_ctrl = F64Array [17] (replicate 17 (Fin 0)),
     hm_qfrc_actuator = F64Array [23] (replicate 23 (Fin 0)), hm_cfrc_ext = F64Array [14, 6] (replicate 84 (Fin 0))\<rparr>"

lemma demo_captured: "trusted_step_from_post_step_humanoid demo_numpy (Some demo_humanoid) CONTROL_PERIOD_SECONDS
    (ArrayArg (F64Array [2] [Fin 0, Fin 0])) (PFloat (Fin 1)) = Inr demo_step"
proof -
  have sum: "f64_round 1 = Fin 1" "f64_round 0 = Fin 0" by (simp_all add: f64_rep_round)
  have com: "body_mass_weighted_com_xy_f64 demo_numpy (ArrayArg (F64Array [1] [Fin 1])) (ArrayArg (F64Array [1, 3] [Fin 0, Fin 0, Fin 0])) =
      Inr [Fin 0, Fin 0]"
    by (simp add: body_mass_weighted_com_xy_f64_def demo_numpy_def sum numeral_eq_Suc Let_def)
  have rows: "take_rows ACTUATOR_QVEL_INDICES_BY_ACTION_V1 (F64Array [23] (replicate 23 (Fin 0))) = Inr (F64Array [17] (replicate 17 (Fin 0)))"
    by code_simp
  have "fin_in CONTROL_PERIOD_SECONDS (pow2 (- 7)) 1"
    unfolding CONTROL_PERIOD_SECONDS_def by (intro round_in f64_rep_pow2 f64_rep_consts) (simp_all add: pow2_def)
  then have nz: "CONTROL_PERIOD_SECONDS \<noteq> Fin 0" using fin_in_iff[of 0 "pow2 (- 7)" 1] pow2_pos[of "- 7"] by (metis not_le)
  have v: "np_divide demo_numpy (np_subtract demo_numpy (Fin 0) (Fin 0)) CONTROL_PERIOD_SECONDS = Fin 0"
    using demo_quotient[OF control_period_finite nz] sum(2) by (simp add: demo_numpy_def f64_sub_def)
  have "mk_step demo_numpy (fields_of_step demo_step) = Inr demo_step" by (rule mk_step_again[OF demo_step_ok])
  then show ?thesis
    using com rows v f64_eq_self[OF control_period_finite]
    by (simp add: trusted_step_from_post_step_humanoid_def demo_humanoid_def fields_of_step_def demo_step_def)
qed

theorem captured_step_is_rewarded_witness:
  "\<exists>x v q. candidate_inputs demo_step = Inr x \<and> evaluate_target_speed_formula demo_recipe x = Inr v \<and>
    compose_trusted_humanoid_reward demo_numpy demo_step (PFloat v) (PFloat (Fin 2)) (PFloat (Fin (- 3))) = Inr q \<and> result_ok q"
proof -
  have h: "humanoid_ok demo_humanoid"
    by (simp add: humanoid_ok_def demo_humanoid_def demo_pose_def list_all_iff)
  have v: "f64_ok (ts_com_x_velocity demo_step)" by (simp add: demo_step_def)
  show ?thesis
    by (rule captured_step_is_rewarded[OF demo_numpy_ieee demo_captured h v demo_recipe_made _ demo_beta_ok])
       (simp_all add: between_def)
qed

end
