(* ===== verification/CycleContract.thy ===== *)
theory CycleContract
  imports GuardLang JsonDecode Graphs
begin

text \<open>
  The controller-switching oracle of \<^verbatim>\<open>src/oracle_composition/harness/contract.py\<close>: its data
  classes and \<open>oracle_program_from_dict\<close>, which reads a decoded JSON object.  The guards are
  parsed through the parser parameter of the guard language.  \<open>cycle_ok\<close> specifies an accepted
  program, and \<open>cycle_to_dict\<close> prints it back.
\<close>

section \<open>Data\<close>

record cycle_state =
  st_behavior :: string
  st_min_dwell :: int

record cycle_transition =
  t_source :: string
  t_target :: string
  t_guard :: guard_expr
  t_priority :: int

record cycle_recovery =
  r_behavior :: string
  r_guard :: guard_expr
  r_min_dwell :: int
  r_max_duration :: int
  r_reentry_dwell :: int
  r_rejoin :: string
  r_explicit :: bool

record cycle_program =
  cy_oracle_id :: string
  cy_behaviors :: "string list"
  cy_initial :: string
  cy_states :: "(string \<times> cycle_state) list"
  cy_transitions :: "cycle_transition list"
  cy_recovery :: "cycle_recovery option"

datatype cycle_error =
    NotAnObject string | KeysDiffer string | BadName string
  | BadSchemaVersion | BadEvidenceClass | BadAvailable
  | BadBehaviors | BehaviorsNotUnique | UndefinedBehaviors "string list"
  | BadStates | TooManyStates | UndefinedStateBehavior string string | BadStateDwell string
  | InitialMissing | BadTransitions | TooManyTransitions | UndefinedState nat | BadPriority nat
  | DuplicatePriorityFrom string int | BadGuard guard_error
  | UnreachableStates "string list" | ZeroDwellLoop | MissingKey string
  | UndefinedRecoveryBehavior | PartialRecovery | BadRecoveryDwell | BadRecoveryDuration
  | BadReentryDwell | BadRejoin | RecoveryIncomplete

definition EVIDENCE_CLASS :: string where "EVIDENCE_CLASS = ''exploratory_oracle_cycle''"
definition MAX_ORACLE_STATES :: nat where "MAX_ORACLE_STATES = 64"
definition MAX_ORACLE_TRANSITIONS :: nat where "MAX_ORACLE_TRANSITIONS = 256"
definition LEGACY_RECOVERY_MIN_DWELL :: int where "LEGACY_RECOVERY_MIN_DWELL = 1"
definition LEGACY_RECOVERY_MAX_DURATION :: int where "LEGACY_RECOVERY_MAX_DURATION = 64"
definition LEGACY_RECOVERY_REENTRY_DWELL :: int where "LEGACY_RECOVERY_REENTRY_DWELL = 1"
definition RECOVERY_REJOIN_SEMANTICS :: string where
  "RECOVERY_REJOIN_SEMANTICS = ''suspended_state_dwell_reset''"

section \<open>Field readers\<close>

definition is_name :: "string \<Rightarrow> bool" where
  "is_name s = head_tail is_lower (\<lambda>c. is_lower c \<or> is_digit c \<or> c = CHR ''_'') 63 s"

definition exact_keys :: "string list \<Rightarrow> string list \<Rightarrow> string \<Rightarrow> pyval \<Rightarrow> cycle_error + (string \<times> pyval) list" where
  "exact_keys required optional field v = (case v of
       PDict d \<Rightarrow> if set required \<subseteq> set (dict_keys d) \<and> set (dict_keys d) \<subseteq> set required \<union> set optional
         then Inr d else Inl (KeysDiffer field)
     | _ \<Rightarrow> Inl (NotAnObject field))"

definition read_name :: "string \<Rightarrow> pyval \<Rightarrow> cycle_error + string" where
  "read_name field v = (case v of PStr s \<Rightarrow> if is_name s then Inr s else Inl (BadName field) | _ \<Rightarrow> Inl (BadName field))"

text \<open>\<open>item[key]\<close>\<close>

definition get_key :: "(string \<times> pyval) list \<Rightarrow> string \<Rightarrow> cycle_error + pyval" where
  "get_key d k = (case dict_get d k of None \<Rightarrow> Inl (MissingKey k) | Some v \<Rightarrow> Inr v)"

text \<open>\<open>type(v) is int and lo <= v <= hi\<close>\<close>

definition read_int :: "int \<Rightarrow> int \<Rightarrow> cycle_error \<Rightarrow> pyval \<Rightarrow> cycle_error + int" where
  "read_int lo hi e v = (case v of PInt n \<Rightarrow> if lo \<le> n \<and> n \<le> hi then Inr n else Inl e | _ \<Rightarrow> Inl e)"

lemma read_int_Inr [simp]: "read_int lo hi e v = Inr n \<longleftrightarrow> v = PInt n \<and> lo \<le> n \<and> n \<le> hi"
  by (cases v) (auto simp: read_int_def)

lemma read_name_Inr [simp]: "read_name f v = Inr s \<longleftrightarrow> v = PStr s \<and> is_name s"
  by (cases v) (auto simp: read_name_def)

lemma exact_keys_Inr [simp]: "exact_keys required optional field v = Inr d \<longleftrightarrow>
    v = PDict d \<and> set required \<subseteq> fst ` set d \<and> fst ` set d \<subseteq> set required \<union> set optional"
  by (cases v) (auto simp: exact_keys_def dict_keys_def)

lemma get_key_Inr [simp]: "get_key d k = Inr v \<longleftrightarrow> map_of d k = Some v"
  by (auto simp: get_key_def dict_get_def split: option.splits)

section \<open>States and behaviors\<close>

definition read_available :: "pyval list \<Rightarrow> cycle_error + string list" where
  "read_available items = bindE (mapE (read_name ''available behavior'') items) (\<lambda>available.
     if available = [] \<or> \<not> distinct available then Inl BadAvailable else Inr available)"

definition read_behaviors :: "string list \<Rightarrow> pyval \<Rightarrow> cycle_error + string list" where
  "read_behaviors available raw = (case raw of
       PList items \<Rightarrow>
         if items = [] then Inl BadBehaviors
         else bindE (mapE (read_name ''behavior'') items) (\<lambda>behaviors.
           if \<not> distinct behaviors then Inl BehaviorsNotUnique
           else let unknown = filter (\<lambda>b. b \<notin> set available) behaviors in
             if unknown \<noteq> [] then Inl (UndefinedBehaviors (sort unknown)) else Inr behaviors)
     | _ \<Rightarrow> Inl BadBehaviors)"

definition read_state :: "string list \<Rightarrow> string \<times> pyval \<Rightarrow> cycle_error + (string \<times> cycle_state)" where
  "read_state behaviors = (\<lambda>(raw_name, raw_state).
     bindE (read_name ''state name'' (PStr raw_name)) (\<lambda>name.
     bindE (exact_keys [''behavior'', ''min_dwell''] [] name raw_state) (\<lambda>item.
     bindE (get_key item ''behavior'') (\<lambda>b. bindE (read_name name b) (\<lambda>behavior.
       if behavior \<notin> set behaviors then Inl (UndefinedStateBehavior name behavior)
       else bindE (get_key item ''min_dwell'') (\<lambda>d. bindE (read_int 0 1000000 (BadStateDwell name) d) (\<lambda>min_dwell.
         Inr (name, \<lparr>st_behavior = behavior, st_min_dwell = min_dwell\<rparr>))))))))"

definition read_states :: "string list \<Rightarrow> pyval \<Rightarrow> cycle_error + (string \<times> cycle_state) list" where
  "read_states behaviors raw = (case raw of
       PDict items \<Rightarrow>
         if items = [] then Inl BadStates
         else if MAX_ORACLE_STATES < length items then Inl TooManyStates
         else mapE (read_state behaviors) items
     | _ \<Rightarrow> Inl BadStates)"

section \<open>Transitions\<close>

text \<open>\<open>adjacency[source].add(target)\<close> and \<open>graph[source].append(target)\<close> on a \<open>defaultdict\<close>.\<close>

definition dd_add :: "adj \<Rightarrow> string \<Rightarrow> string \<Rightarrow> adj" where
  "dd_add a u v = (if u \<in> fst ` set a then adj_add a u v else a @ [(u, [v])])"

definition dd_append :: "adj \<Rightarrow> string \<Rightarrow> string \<Rightarrow> adj" where
  "dd_append a u v = (if u \<in> fst ` set a then map (\<lambda>(k, ts). if k = u then (k, ts @ [v]) else (k, ts)) a else a @ [(u, [v])])"

lemma adj_get_fresh:
  assumes "u \<notin> fst ` set a"
  shows "adj_rel (a @ [(u, [v])]) = insert (u, v) (adj_rel a)"
proof -
  have n: "map_of a u = None" using assms by (simp add: map_of_eq_None_iff)
  have "adj_get (a @ [(u, [v])]) w = (if w = u then [v] else adj_get a w)" for w
    using n by (auto simp: adj_get_def map_add_def split: option.splits)
  moreover have "adj_get a u = []" using n by (simp add: adj_get_def)
  ultimately have "(x, y) \<in> adj_rel (a @ [(u, [v])]) \<longleftrightarrow> (x, y) \<in> insert (u, v) (adj_rel a)" for x y
    by (cases "x = u") (simp_all add: adj_rel_iff)
  then show ?thesis by auto
qed

lemma dd_add_rel: "adj_rel (dd_add a u v) = insert (u, v) (adj_rel a)"
  by (simp add: dd_add_def adj_rel_adj_add adj_get_fresh)

lemma dd_append_rel: "adj_rel (dd_append a u v) = insert (u, v) (adj_rel a)"
proof (cases "u \<in> fst ` set a")
  case True
  have m: "map_of (map (\<lambda>(k, ts). if k = u then (k, ts @ [v]) else (k, ts)) a) w =
      (if w = u then map_option (\<lambda>ts. ts @ [v]) (map_of a u) else map_of a w)" for w
    by (induction a) auto
  obtain ts where "map_of a u = Some ts" using True by (metis domD dom_map_of_conv_image_fst)
  then have "(x, y) \<in> adj_rel (dd_append a u v) \<longleftrightarrow> (x, y) \<in> insert (u, v) (adj_rel a)" for x y
    using True by (cases "x = u") (simp_all add: dd_append_def adj_rel_iff adj_get_def m)
  then show ?thesis by auto
qed (simp add: dd_append_def adj_get_fresh)

record read_transitions_state =
  rt_transitions :: "cycle_transition list"
  rt_priorities :: "(string \<times> int) list"
  rt_adjacency :: adj

definition parse_guard_field :: "(string \<Rightarrow> ast option) \<Rightarrow> pyval \<Rightarrow> cycle_error + guard_expr" where
  "parse_guard_field parser v = (case parse_guard parser v of Inl e \<Rightarrow> Inl (BadGuard e) | Inr g \<Rightarrow> Inr g)"

lemma parse_guard_field_Inr [simp]: "parse_guard_field parser v = Inr g \<longleftrightarrow> parse_guard parser v = Inr g"
  by (auto simp: parse_guard_field_def split: sum.splits)

definition read_transition :: "(string \<Rightarrow> ast option) \<Rightarrow> string list \<Rightarrow> nat \<times> pyval \<Rightarrow>
    read_transitions_state \<Rightarrow> cycle_error + read_transitions_state" where
  "read_transition parser states = (\<lambda>(index, raw) s.
     bindE (exact_keys [''from'', ''to'', ''guard'', ''priority''] [] ''transitions'' raw) (\<lambda>item.
     bindE (get_key item ''from'') (\<lambda>a. bindE (read_name ''from'' a) (\<lambda>source.
     bindE (get_key item ''to'') (\<lambda>b. bindE (read_name ''to'' b) (\<lambda>target.
       if source \<notin> set states \<or> target \<notin> set states then Inl (UndefinedState index)
       else bindE (get_key item ''priority'') (\<lambda>c. bindE (read_int 0 1000000 (BadPriority index) c) (\<lambda>priority.
         if (source, priority) \<in> set (rt_priorities s) then Inl (DuplicatePriorityFrom source priority)
         else bindE (get_key item ''guard'') (\<lambda>g. bindE (parse_guard_field parser g) (\<lambda>guard.
           Inr \<lparr>rt_transitions = rt_transitions s @
                  [\<lparr>t_source = source, t_target = target, t_guard = guard, t_priority = priority\<rparr>],
                rt_priorities = (source, priority) # rt_priorities s,
                rt_adjacency = dd_add (rt_adjacency s) source target\<rparr>))))))))))"

definition read_transitions :: "(string \<Rightarrow> ast option) \<Rightarrow> string list \<Rightarrow> pyval \<Rightarrow> cycle_error + read_transitions_state" where
  "read_transitions parser states raw = (case raw of
       PList items \<Rightarrow>
         if MAX_ORACLE_TRANSITIONS < length items then Inl TooManyTransitions
         else foldE (read_transition parser states) (enum_from 0 items)
           \<lparr>rt_transitions = [], rt_priorities = [], rt_adjacency = []\<rparr>
     | _ \<Rightarrow> Inl BadTransitions)"

text \<open>\<open>_reject_zero_dwell_cycles\<close>\<close>

definition zero_names :: "(string \<times> cycle_state) list \<Rightarrow> string list" where
  "zero_names states = map fst (filter (\<lambda>p. st_min_dwell (snd p) = 0) states)"

definition zero_graph :: "(string \<times> cycle_state) list \<Rightarrow> cycle_transition list \<Rightarrow> adj" where
  "zero_graph states ts = fold (\<lambda>t g.
     if t_source t \<in> set (zero_names states) \<and> t_target t \<in> set (zero_names states)
     then dd_append g (t_source t) (t_target t) else g) ts []"

definition reject_zero_dwell_cycles :: "(string \<times> cycle_state) list \<Rightarrow> cycle_transition list \<Rightarrow> cycle_error + unit" where
  "reject_zero_dwell_cycles states ts = (case color_check (zero_names states) (zero_graph states ts) of
       Inl CycleFound \<Rightarrow> Inl ZeroDwellLoop
     | Inl (ColorKeyError k) \<Rightarrow> Inl (MissingKey k)
     | Inr _ \<Rightarrow> Inr ())"

section \<open>Recovery\<close>

definition semantic_fields :: "string list" where
  "semantic_fields = [''min_dwell'', ''max_duration'', ''reentry_dwell'', ''rejoin'']"

definition read_explicit :: "(string \<times> pyval) list \<Rightarrow> cycle_error + (int \<times> int \<times> int \<times> string)" where
  "read_explicit d =
     bindE (get_key d ''min_dwell'') (\<lambda>a. bindE (get_key d ''max_duration'') (\<lambda>b.
     bindE (get_key d ''reentry_dwell'') (\<lambda>c. bindE (get_key d ''rejoin'') (\<lambda>e.
     bindE (read_int 1 1000000 BadRecoveryDwell a) (\<lambda>min_dwell.
     bindE (read_int min_dwell 1000000 BadRecoveryDuration b) (\<lambda>max_duration.
     bindE (read_int 1 1000000 BadReentryDwell c) (\<lambda>reentry_dwell.
       if \<not> py_eq e (PStr RECOVERY_REJOIN_SEMANTICS) then Inl BadRejoin
       else Inr (min_dwell, max_duration, reentry_dwell, RECOVERY_REJOIN_SEMANTICS))))))))"

definition read_recovery :: "(string \<Rightarrow> ast option) \<Rightarrow> bool \<Rightarrow> string list \<Rightarrow> pyval \<Rightarrow> cycle_error + cycle_recovery" where
  "read_recovery parser allow_legacy behaviors raw =
     bindE (exact_keys [''behavior'', ''guard''] semantic_fields ''recovery'' raw) (\<lambda>d.
     bindE (get_key d ''behavior'') (\<lambda>b. bindE (read_name ''recovery.behavior'' b) (\<lambda>behavior.
       if behavior \<notin> set behaviors then Inl UndefinedRecoveryBehavior
       else let supplied = filter (\<lambda>k. k \<in> set (dict_keys d)) semantic_fields;
                explicit = (supplied = semantic_fields) in
         if supplied \<noteq> [] \<and> supplied \<noteq> semantic_fields then Inl PartialRecovery
         else bindE (if explicit then read_explicit d
                     else if allow_legacy then Inr (LEGACY_RECOVERY_MIN_DWELL, LEGACY_RECOVERY_MAX_DURATION,
                       LEGACY_RECOVERY_REENTRY_DWELL, RECOVERY_REJOIN_SEMANTICS)
                     else Inl RecoveryIncomplete) (\<lambda>(min_dwell, max_duration, reentry_dwell, rejoin).
           bindE (get_key d ''guard'') (\<lambda>g. bindE (parse_guard_field parser g) (\<lambda>guard.
             Inr \<lparr>r_behavior = behavior, r_guard = guard, r_min_dwell = min_dwell, r_max_duration = max_duration,
                  r_reentry_dwell = reentry_dwell, r_rejoin = rejoin, r_explicit = explicit\<rparr>))))))"

definition read_recovery_field :: "(string \<Rightarrow> ast option) \<Rightarrow> bool \<Rightarrow> string list \<Rightarrow> (string \<times> pyval) list \<Rightarrow>
    cycle_error + cycle_recovery option" where
  "read_recovery_field parser allow_legacy behaviors doc = (case dict_get doc ''recovery'' of
       None \<Rightarrow> Inr None
     | Some raw \<Rightarrow> bindE (read_recovery parser allow_legacy behaviors raw) (\<lambda>r. Inr (Some r)))"

section \<open>The reader\<close>

definition oracle_keys :: "string list" where
  "oracle_keys = [''schema_version'', ''evidence_class'', ''oracle_id'', ''behaviors'', ''initial'', ''states'', ''transitions'']"

definition oracle_program_from_dict :: "(string \<Rightarrow> ast option) \<Rightarrow> pyval list \<Rightarrow> bool \<Rightarrow> pyval \<Rightarrow> cycle_error + cycle_program" where
  "oracle_program_from_dict parser available_behaviors allow_legacy value =
     bindE (exact_keys oracle_keys [''recovery''] ''oracle'' value) (\<lambda>doc.
     bindE (get_key doc ''schema_version'') (\<lambda>version. if \<not> py_eq version (PInt 1) then Inl BadSchemaVersion else
     bindE (get_key doc ''evidence_class'') (\<lambda>cls. if \<not> py_eq cls (PStr EVIDENCE_CLASS) then Inl BadEvidenceClass else
     bindE (get_key doc ''oracle_id'') (\<lambda>i. bindE (read_name ''oracle_id'' i) (\<lambda>oracle_id.
     bindE (read_available available_behaviors) (\<lambda>available.
     bindE (get_key doc ''behaviors'') (\<lambda>b. bindE (read_behaviors available b) (\<lambda>behaviors.
     bindE (get_key doc ''states'') (\<lambda>s. bindE (read_states behaviors s) (\<lambda>states.
     bindE (get_key doc ''initial'') (\<lambda>n. bindE (read_name ''initial'' n) (\<lambda>initial.
       if map_of states initial = None then Inl InitialMissing else
     bindE (get_key doc ''transitions'') (\<lambda>t. bindE (read_transitions parser (map fst states) t) (\<lambda>rs.
       let reachable = bfs_reachable initial (rt_adjacency rs);
           missing = filter (\<lambda>n. n \<notin> set reachable) (map fst states) in
       if missing \<noteq> [] then Inl (UnreachableStates (sort missing)) else
     bindE (reject_zero_dwell_cycles states (rt_transitions rs)) (\<lambda>_.
     bindE (read_recovery_field parser allow_legacy behaviors doc) (\<lambda>recovery.
       Inr \<lparr>cy_oracle_id = oracle_id, cy_behaviors = behaviors, cy_initial = initial,
            cy_states = states, cy_transitions = rt_transitions rs, cy_recovery = recovery\<rparr>))))))))))))))))"

section \<open>The printer\<close>

definition cycle_to_dict :: "cycle_program \<Rightarrow> pyval" where
  "cycle_to_dict p = PDict ([
     (''behaviors'', PList (map PStr (cy_behaviors p))),
     (''evidence_class'', PStr EVIDENCE_CLASS),
     (''initial'', PStr (cy_initial p)),
     (''oracle_id'', PStr (cy_oracle_id p)),
     (''schema_version'', PInt 1),
     (''states'', PDict (map (\<lambda>(name, st). (name, PDict [
        (''behavior'', PStr (st_behavior st)), (''min_dwell'', PInt (st_min_dwell st))])) (cy_states p))),
     (''transitions'', PList (map (\<lambda>t. PDict [
        (''from'', PStr (t_source t)), (''guard'', PStr (ge_source (t_guard t))),
        (''priority'', PInt (t_priority t)), (''to'', PStr (t_target t))]) (cy_transitions p)))] @
     (case cy_recovery p of None \<Rightarrow> []
      | Some r \<Rightarrow> [(''recovery'', PDict ([
          (''behavior'', PStr (r_behavior r)), (''guard'', PStr (ge_source (r_guard r)))] @
          (if r_explicit r then [(''max_duration'', PInt (r_max_duration r)), (''min_dwell'', PInt (r_min_dwell r)),
             (''reentry_dwell'', PInt (r_reentry_dwell r)), (''rejoin'', PStr (r_rejoin r))] else [])))]))"

definition cycle_sha256 :: "hasher \<Rightarrow> cycle_program \<Rightarrow> string" where
  "cycle_sha256 h p = content_hash h (cycle_to_dict p)"

section \<open>The specification of an accepted program\<close>

definition cycle_edges :: "cycle_transition list \<Rightarrow> (string \<times> string) set" where
  "cycle_edges ts = (\<lambda>t. (t_source t, t_target t)) ` set ts"

definition guard_reads :: "(string \<Rightarrow> ast option) \<Rightarrow> guard_expr \<Rightarrow> bool" where
  "guard_reads parser g \<longleftrightarrow> parse_guard parser (PStr (ge_source g)) = Inr g"

definition state_entry_ok :: "string list \<Rightarrow> string \<times> cycle_state \<Rightarrow> bool" where
  "state_entry_ok behaviors e \<longleftrightarrow> is_name (fst e) \<and> is_name (st_behavior (snd e)) \<and> st_behavior (snd e) \<in> set behaviors \<and>
     0 \<le> st_min_dwell (snd e) \<and> st_min_dwell (snd e) \<le> 1000000"

definition cycle_transition_ok :: "(string \<Rightarrow> ast option) \<Rightarrow> string list \<Rightarrow> cycle_transition \<Rightarrow> bool" where
  "cycle_transition_ok parser states t \<longleftrightarrow> is_name (t_source t) \<and> is_name (t_target t) \<and>
     t_source t \<in> set states \<and> t_target t \<in> set states \<and>
     0 \<le> t_priority t \<and> t_priority t \<le> 1000000 \<and> guard_reads parser (t_guard t)"

definition recovery_ok :: "(string \<Rightarrow> ast option) \<Rightarrow> string list \<Rightarrow> cycle_recovery \<Rightarrow> bool" where
  "recovery_ok parser behaviors r \<longleftrightarrow> is_name (r_behavior r) \<and> r_behavior r \<in> set behaviors \<and> guard_reads parser (r_guard r) \<and>
     1 \<le> r_min_dwell r \<and> r_min_dwell r \<le> r_max_duration r \<and> r_max_duration r \<le> 1000000 \<and>
     1 \<le> r_reentry_dwell r \<and> r_reentry_dwell r \<le> 1000000 \<and> r_rejoin r = RECOVERY_REJOIN_SEMANTICS \<and>
     (\<not> r_explicit r \<longrightarrow> r_min_dwell r = LEGACY_RECOVERY_MIN_DWELL \<and>
        r_max_duration r = LEGACY_RECOVERY_MAX_DURATION \<and> r_reentry_dwell r = LEGACY_RECOVERY_REENTRY_DWELL)"

definition cycle_ok :: "(string \<Rightarrow> ast option) \<Rightarrow> cycle_program \<Rightarrow> bool" where
  "cycle_ok parser p \<longleftrightarrow> is_name (cy_oracle_id p) \<and>
     cy_behaviors p \<noteq> [] \<and> distinct (cy_behaviors p) \<and> list_all is_name (cy_behaviors p) \<and>
     cy_states p \<noteq> [] \<and> length (cy_states p) \<le> MAX_ORACLE_STATES \<and> distinct (map fst (cy_states p)) \<and>
     list_all (state_entry_ok (cy_behaviors p)) (cy_states p) \<and>
     is_name (cy_initial p) \<and> cy_initial p \<in> fst ` set (cy_states p) \<and>
     length (cy_transitions p) \<le> MAX_ORACLE_TRANSITIONS \<and>
     list_all (cycle_transition_ok parser (map fst (cy_states p))) (cy_transitions p) \<and>
     distinct (map (\<lambda>t. (t_source t, t_priority t)) (cy_transitions p)) \<and>
     (\<forall>n \<in> fst ` set (cy_states p). (cy_initial p, n) \<in> (cycle_edges (cy_transitions p))\<^sup>*) \<and>
     acyclic (cycle_edges (cy_transitions p) \<inter> set (zero_names (cy_states p)) \<times> set (zero_names (cy_states p))) \<and>
     (case cy_recovery p of None \<Rightarrow> True | Some r \<Rightarrow> recovery_ok parser (cy_behaviors p) r)"

section \<open>Reading establishes the specification\<close>

lemma parse_guard_source: "parse_guard parser v = Inr g \<Longrightarrow> v = PStr (ge_source g)"
  by (cases v) (auto simp: parse_guard_def split: if_splits option.splits)

lemma parse_guard_reads: "parse_guard parser v = Inr g \<Longrightarrow> guard_reads parser g"
  using parse_guard_source unfolding guard_reads_def by blast

lemma mapE_read_name: "mapE (read_name f) vs = Inr ss \<longleftrightarrow> vs = map PStr ss \<and> list_all is_name ss"
proof (induction vs arbitrary: ss)
  case (Cons v vs)
  then show ?case by (cases ss) auto
qed auto

lemma read_available_Inr: "read_available items = Inr available \<longleftrightarrow>
    items = map PStr available \<and> list_all is_name available \<and> available \<noteq> [] \<and> distinct available"
  by (auto simp: read_available_def mapE_read_name)

lemma read_behaviors_Inr: "read_behaviors available raw = Inr bs \<longleftrightarrow>
    raw = PList (map PStr bs) \<and> bs \<noteq> [] \<and> list_all is_name bs \<and> distinct bs \<and> set bs \<subseteq> set available"
  by (cases raw) (auto simp: read_behaviors_def mapE_read_name Let_def filter_empty_conv)

lemma read_state_Inr: "read_state bs e = Inr x \<Longrightarrow> state_entry_ok bs x \<and> fst x = fst e"
  by (cases e) (auto simp: read_state_def state_entry_ok_def split: if_splits)

lemma mapE_keys: "(\<And>e x. f e = Inr x \<Longrightarrow> P x \<and> fst x = fst e) \<Longrightarrow> mapE f es = Inr xs \<Longrightarrow>
    list_all P xs \<and> map fst xs = map fst es"
  by (induction es arbitrary: xs) auto

lemma read_states_InrD:
  assumes "read_states bs raw = Inr xs" "dicts_ok raw"
  shows "xs \<noteq> [] \<and> length xs \<le> MAX_ORACLE_STATES \<and> distinct (map fst xs) \<and> list_all (state_entry_ok bs) xs"
proof -
  obtain items where i: "raw = PDict items" "items \<noteq> []" "length items \<le> MAX_ORACLE_STATES"
      "mapE (read_state bs) items = Inr xs"
    using assms(1) by (cases raw) (auto simp: read_states_def split: if_splits)
  have "list_all (state_entry_ok bs) xs \<and> map fst xs = map fst items"
    by (rule mapE_keys[OF read_state_Inr i(4)])
  then show ?thesis using i assms(2) mapE_length[OF i(4)] by auto
qed

lemma read_transition_Inr:
  assumes "read_transition parser states (n, raw) s = Inr s'"
  obtains t where "s' = \<lparr>rt_transitions = rt_transitions s @ [t],
      rt_priorities = (t_source t, t_priority t) # rt_priorities s,
      rt_adjacency = dd_add (rt_adjacency s) (t_source t) (t_target t)\<rparr>"
    "cycle_transition_ok parser states t" "(t_source t, t_priority t) \<notin> set (rt_priorities s)"
proof -
  from assms obtain source target priority guard where
    "s' = \<lparr>rt_transitions = rt_transitions s @
       [\<lparr>t_source = source, t_target = target, t_guard = guard, t_priority = priority\<rparr>],
      rt_priorities = (source, priority) # rt_priorities s,
      rt_adjacency = dd_add (rt_adjacency s) source target\<rparr>"
    "is_name source" "is_name target" "source \<in> set states" "target \<in> set states" "0 \<le> priority" "priority \<le> 1000000"
    "guard_reads parser guard" "(source, priority) \<notin> set (rt_priorities s)"
    by (auto simp: read_transition_def simp del: exact_keys_Inr split: if_splits dest: parse_guard_reads)
  then show thesis
    by (intro that[of "\<lparr>t_source = source, t_target = target, t_guard = guard, t_priority = priority\<rparr>"])
      (simp_all add: cycle_transition_ok_def)
qed

lemma read_transitions_fold:
  "foldE (read_transition parser states) (enum_from n raws) s = Inr s' \<Longrightarrow>
    \<exists>ts. rt_transitions s' = rt_transitions s @ ts \<and> length ts = length raws \<and>
      list_all (cycle_transition_ok parser states) ts \<and>
      distinct (map (\<lambda>t. (t_source t, t_priority t)) ts) \<and>
      (\<forall>t \<in> set ts. (t_source t, t_priority t) \<notin> set (rt_priorities s)) \<and>
      adj_rel (rt_adjacency s') = adj_rel (rt_adjacency s) \<union> cycle_edges ts"
proof (induction raws arbitrary: n s)
  case Nil
  then show ?case by (auto simp: cycle_edges_def)
next
  case (Cons raw raws)
  from Cons.prems obtain s1 where s1: "read_transition parser states (n, raw) s = Inr s1"
    "foldE (read_transition parser states) (enum_from (Suc n) raws) s1 = Inr s'" by auto
  from read_transition_Inr[OF s1(1)] obtain t where t: "s1 = \<lparr>rt_transitions = rt_transitions s @ [t],
      rt_priorities = (t_source t, t_priority t) # rt_priorities s,
      rt_adjacency = dd_add (rt_adjacency s) (t_source t) (t_target t)\<rparr>"
    "cycle_transition_ok parser states t" "(t_source t, t_priority t) \<notin> set (rt_priorities s)" by blast
  from Cons.IH[OF s1(2)] obtain ts where ts: "rt_transitions s' = rt_transitions s1 @ ts" "length ts = length raws"
      "list_all (cycle_transition_ok parser states) ts"
      "distinct (map (\<lambda>t. (t_source t, t_priority t)) ts)"
      "\<forall>t \<in> set ts. (t_source t, t_priority t) \<notin> set (rt_priorities s1)"
      "adj_rel (rt_adjacency s') = adj_rel (rt_adjacency s1) \<union> cycle_edges ts" by blast
  show ?case
    by (rule exI[of _ "t # ts"]) (use t ts in \<open>auto simp: dd_add_rel cycle_edges_def\<close>)
qed

lemma zero_graph_rel:
  "adj_rel (zero_graph states ts) = cycle_edges ts \<inter> set (zero_names states) \<times> set (zero_names states)"
proof -
  have "adj_rel (fold (\<lambda>t g. if t_source t \<in> Z \<and> t_target t \<in> Z then dd_append g (t_source t) (t_target t) else g) ts g) =
      adj_rel g \<union> cycle_edges ts \<inter> Z \<times> Z" for Z g
    by (induction ts arbitrary: g) (auto simp: dd_append_rel cycle_edges_def)
  from this[of "set (zero_names states)" "[]"] show ?thesis
    by (simp add: zero_graph_def adj_rel_def adj_get_def)
qed

lemma reject_zero_dwell_iff:
  "reject_zero_dwell_cycles states ts = Inr () \<longleftrightarrow>
    acyclic (cycle_edges ts \<inter> set (zero_names states) \<times> set (zero_names states))"
proof -
  let ?a = "zero_graph states ts" and ?ns = "zero_names states"
  have e: "\<And>u v. (u, v) \<in> adj_rel ?a \<Longrightarrow> u \<in> set ?ns \<and> v \<in> set ?ns" by (auto simp: zero_graph_rel)
  then have k: "\<And>k. set (adj_get ?a k) \<subseteq> set ?ns" "\<And>k. adj_get ?a k \<noteq> [] \<Longrightarrow> k \<in> set ?ns"
    by (auto simp: adj_rel_iff) (metis list.set_sel(1))
  note c = stack_check.cyclic_iff[of ?a ?ns, OF e]
  show ?thesis
  proof (cases "acyclic (adj_rel ?a)")
    case True
    obtain cs where "color_check ?ns ?a = Inr cs" using color_check_iff(2)[OF k True] by blast
    then show ?thesis using True by (simp add: reject_zero_dwell_cycles_def zero_graph_rel)
  next
    case False
    then show ?thesis using c by (simp add: reject_zero_dwell_cycles_def zero_graph_rel)
  qed
qed

lemma read_recovery_Inr: "read_recovery parser legacy bs raw = Inr r \<Longrightarrow> recovery_ok parser bs r"
  by (auto simp: read_recovery_def read_explicit_def recovery_ok_def Let_def parse_guard_reads
      LEGACY_RECOVERY_MIN_DWELL_def LEGACY_RECOVERY_MAX_DURATION_def LEGACY_RECOVERY_REENTRY_DWELL_def
      simp del: exact_keys_Inr split: if_splits)

lemma dicts_ok_get: "dicts_ok (PDict d) \<Longrightarrow> map_of d k = Some v \<Longrightarrow> dicts_ok v"
  by (auto dest!: map_of_SomeD)

lemma read_transitions_InrD:
  assumes "read_transitions parser states raw = Inr rs"
  shows "length (rt_transitions rs) \<le> MAX_ORACLE_TRANSITIONS \<and>
    list_all (cycle_transition_ok parser states) (rt_transitions rs) \<and>
    distinct (map (\<lambda>t. (t_source t, t_priority t)) (rt_transitions rs)) \<and>
    adj_rel (rt_adjacency rs) = cycle_edges (rt_transitions rs)"
proof -
  obtain items where i: "length items \<le> MAX_ORACLE_TRANSITIONS" "foldE (read_transition parser states) (enum_from 0 items)
      \<lparr>rt_transitions = [], rt_priorities = [], rt_adjacency = []\<rparr> = Inr rs"
    using assms by (cases raw) (auto simp: read_transitions_def not_less split: if_splits)
  from read_transitions_fold[OF i(2)] i(1) show ?thesis by (auto simp: adj_rel_def[of "[]"] adj_get_def)
qed

lemma oracle_program_from_dict_ok:
  assumes "oracle_program_from_dict parser available legacy value = Inr p" "dicts_ok value"
  shows "cycle_ok parser p \<and> PStr ` set (cy_behaviors p) \<subseteq> set available"
proof -
  from assms(1) obtain doc names bs ss rs b s t n where
    doc: "value = PDict doc" "map_of doc ''behaviors'' = Some b" "map_of doc ''states'' = Some s"
      "map_of doc ''transitions'' = Some t" "map_of doc ''initial'' = Some n"
    and names: "read_available available = Inr names" "read_behaviors names b = Inr bs" "read_states bs s = Inr ss"
      "is_name (cy_oracle_id p)" "is_name (cy_initial p)" "map_of ss (cy_initial p) \<noteq> None"
    and trs: "read_transitions parser (map fst ss) t = Inr rs"
      "filter (\<lambda>n. n \<notin> set (bfs_reachable (cy_initial p) (rt_adjacency rs))) (map fst ss) = []"
      "reject_zero_dwell_cycles ss (rt_transitions rs) = Inr ()"
    and p: "cy_behaviors p = bs" "cy_states p = ss" "cy_transitions p = rt_transitions rs"
    and rec: "read_recovery_field parser legacy bs doc = Inr (cy_recovery p)"
    unfolding oracle_program_from_dict_def
    by (auto simp: Let_def simp del: exact_keys_Inr split: if_splits
        dest!: exact_keys_Inr[THEN iffD1, THEN conjunct1])
  have ini: "cy_initial p \<in> fst ` set ss" using names(6) by (metis map_of_eq_None_iff)
  have "dicts_ok s" using doc(1,3) assms(2) dicts_ok_get by blast
  note st = read_states_InrD[OF names(3) this]
  note tr = read_transitions_InrD[OF trs(1)]
  have reach: "\<forall>n \<in> fst ` set ss. (cy_initial p, n) \<in> (cycle_edges (rt_transitions rs))\<^sup>*"
    using trs(2) tr bfs_reach.reach_set[of "cy_initial p" "rt_adjacency rs"] by (auto simp: filter_empty_conv)
  have "case cy_recovery p of None \<Rightarrow> True | Some r \<Rightarrow> recovery_ok parser bs r"
    using rec read_recovery_Inr by (auto simp: read_recovery_field_def split: option.splits)
  moreover have "bs \<noteq> []" "distinct bs" "list_all is_name bs" "PStr ` set bs \<subseteq> set available"
    using names(1,2) by (auto simp: read_behaviors_Inr read_available_Inr)
  ultimately show ?thesis
    unfolding cycle_ok_def p
    using st tr reach names(4,5) ini trs(3) by (simp add: reject_zero_dwell_iff)
qed

section \<open>Printing and reading back\<close>

definition transition_dict :: "cycle_transition \<Rightarrow> pyval" where
  "transition_dict t = PDict [(''from'', PStr (t_source t)), (''guard'', PStr (ge_source (t_guard t))),
     (''priority'', PInt (t_priority t)), (''to'', PStr (t_target t))]"

definition state_dict :: "string \<times> cycle_state \<Rightarrow> string \<times> pyval" where
  "state_dict = (\<lambda>(name, st). (name, PDict [(''behavior'', PStr (st_behavior st)), (''min_dwell'', PInt (st_min_dwell st))]))"

definition recovery_dict :: "cycle_recovery \<Rightarrow> pyval" where
  "recovery_dict r = PDict ([(''behavior'', PStr (r_behavior r)), (''guard'', PStr (ge_source (r_guard r)))] @
     (if r_explicit r then [(''max_duration'', PInt (r_max_duration r)), (''min_dwell'', PInt (r_min_dwell r)),
        (''reentry_dwell'', PInt (r_reentry_dwell r)), (''rejoin'', PStr (r_rejoin r))] else []))"

lemma cycle_to_dict_parts: "cycle_to_dict p = PDict ([
     (''behaviors'', PList (map PStr (cy_behaviors p))), (''evidence_class'', PStr EVIDENCE_CLASS),
     (''initial'', PStr (cy_initial p)), (''oracle_id'', PStr (cy_oracle_id p)), (''schema_version'', PInt 1),
     (''states'', PDict (map state_dict (cy_states p))),
     (''transitions'', PList (map transition_dict (cy_transitions p)))] @
     (case cy_recovery p of None \<Rightarrow> [] | Some r \<Rightarrow> [(''recovery'', recovery_dict r)]))"
  by (simp add: cycle_to_dict_def transition_dict_def[abs_def] state_dict_def recovery_dict_def split: option.split)

lemma read_state_dict: "state_entry_ok bs e \<Longrightarrow> read_state bs (state_dict e) = Inr e"
  by (cases e) (auto simp: read_state_def state_dict_def state_entry_ok_def)

lemma read_states_dict:
  assumes "ss \<noteq> []" "length ss \<le> MAX_ORACLE_STATES" "list_all (state_entry_ok bs) ss"
  shows "read_states bs (PDict (map state_dict ss)) = Inr ss"
proof -
  have "mapE (read_state bs) (map state_dict ss) = Inr ss"
    using assms(3) by (induction ss) (auto simp: read_state_dict)
  then show ?thesis using assms by (simp add: read_states_def)
qed

lemma read_transition_dict:
  assumes "cycle_transition_ok parser states t" "(t_source t, t_priority t) \<notin> set (rt_priorities s)"
  shows "read_transition parser states (n, transition_dict t) s = Inr \<lparr>rt_transitions = rt_transitions s @ [t],
      rt_priorities = (t_source t, t_priority t) # rt_priorities s,
      rt_adjacency = dd_add (rt_adjacency s) (t_source t) (t_target t)\<rparr>"
proof -
  let ?d = "[(''from'', PStr (t_source t)), (''guard'', PStr (ge_source (t_guard t))),
     (''priority'', PInt (t_priority t)), (''to'', PStr (t_target t))]"
  have k: "exact_keys [''from'', ''to'', ''guard'', ''priority''] [] ''transitions'' (PDict ?d) = Inr ?d" by auto
  have g: "get_key ?d ''from'' = Inr (PStr (t_source t))" "get_key ?d ''to'' = Inr (PStr (t_target t))"
    "get_key ?d ''priority'' = Inr (PInt (t_priority t))" "get_key ?d ''guard'' = Inr (PStr (ge_source (t_guard t)))" by simp_all
  have r: "read_name f (PStr (t_source t)) = Inr (t_source t)" "read_name f (PStr (t_target t)) = Inr (t_target t)"
    "read_int 0 1000000 e (PInt (t_priority t)) = Inr (t_priority t)"
    "parse_guard_field parser (PStr (ge_source (t_guard t))) = Inr (t_guard t)" for f e
    using assms(1) by (simp_all add: cycle_transition_ok_def guard_reads_def)
  have "t_source t \<in> set states" "t_target t \<in> set states" using assms(1) by (simp_all add: cycle_transition_ok_def)
  then show ?thesis
    using assms(2) by (simp add: read_transition_def transition_dict_def k g r del: exact_keys_Inr get_key_Inr read_name_Inr)
qed

lemma read_transitions_dict_fold:
  "list_all (cycle_transition_ok parser states) ts \<Longrightarrow> distinct (map (\<lambda>t. (t_source t, t_priority t)) ts) \<Longrightarrow>
    \<forall>t \<in> set ts. (t_source t, t_priority t) \<notin> set (rt_priorities s) \<Longrightarrow>
    \<exists>s'. foldE (read_transition parser states) (enum_from n (map transition_dict ts)) s = Inr s' \<and>
      rt_transitions s' = rt_transitions s @ ts"
proof (induction ts arbitrary: n s)
  case (Cons t ts)
  let ?s = "\<lparr>rt_transitions = rt_transitions s @ [t], rt_priorities = (t_source t, t_priority t) # rt_priorities s,
      rt_adjacency = dd_add (rt_adjacency s) (t_source t) (t_target t)\<rparr>"
  have "read_transition parser states (n, transition_dict t) s = Inr ?s"
    using Cons.prems by (intro read_transition_dict) simp_all
  moreover have "\<exists>s'. foldE (read_transition parser states) (enum_from (Suc n) (map transition_dict ts)) ?s = Inr s' \<and>
      rt_transitions s' = rt_transitions ?s @ ts"
    using Cons.prems by (intro Cons.IH) (auto simp: image_iff)
  ultimately show ?case by auto
qed simp

lemma read_recovery_dict:
  assumes "recovery_ok parser bs r" "r_explicit r \<or> legacy"
  shows "read_recovery parser legacy bs (recovery_dict r) = Inr r"
proof -
  have g: "parse_guard parser (PStr (ge_source (r_guard r))) = Inr (r_guard r)"
    using assms(1) by (simp add: recovery_ok_def guard_reads_def)
  have b: "is_name (r_behavior r)" "r_behavior r \<in> set bs" using assms(1) by (simp_all add: recovery_ok_def)
  show ?thesis
  proof (cases "r_explicit r")
    case True
    let ?d = "[(''behavior'', PStr (r_behavior r)), (''guard'', PStr (ge_source (r_guard r))),
       (''max_duration'', PInt (r_max_duration r)), (''min_dwell'', PInt (r_min_dwell r)),
       (''reentry_dwell'', PInt (r_reentry_dwell r)), (''rejoin'', PStr (r_rejoin r))]"
    have e: "read_explicit ?d = Inr (r_min_dwell r, r_max_duration r, r_reentry_dwell r, r_rejoin r)"
      using assms(1) by (auto simp: read_explicit_def recovery_ok_def)
    have k: "exact_keys [''behavior'', ''guard''] semantic_fields ''recovery'' (PDict ?d) = Inr ?d"
      by (auto simp: semantic_fields_def)
    have f: "filter (\<lambda>k. k \<in> set (dict_keys ?d)) semantic_fields = semantic_fields"
      by (simp add: semantic_fields_def dict_keys_def)
    show ?thesis
      using True g b by (simp add: read_recovery_def recovery_dict_def k f e Let_def del: exact_keys_Inr)
  next
    case False
    let ?d = "[(''behavior'', PStr (r_behavior r)), (''guard'', PStr (ge_source (r_guard r)))]"
    have k: "exact_keys [''behavior'', ''guard''] semantic_fields ''recovery'' (PDict ?d) = Inr ?d"
      by (auto simp: semantic_fields_def)
    have f: "filter (\<lambda>k. k \<in> set (dict_keys ?d)) semantic_fields = []" "semantic_fields \<noteq> []"
      by (simp_all add: semantic_fields_def dict_keys_def)
    have v: "r_min_dwell r = LEGACY_RECOVERY_MIN_DWELL" "r_max_duration r = LEGACY_RECOVERY_MAX_DURATION"
      "r_reentry_dwell r = LEGACY_RECOVERY_REENTRY_DWELL" "r_rejoin r = RECOVERY_REJOIN_SEMANTICS" legacy
      using assms False by (simp_all add: recovery_ok_def)
    show ?thesis
      using False g b by (simp add: read_recovery_def recovery_dict_def k f not_sym[OF f(2)] Let_def v(5) del: exact_keys_Inr)
        (simp add: v(1-4)[symmetric])
  qed
qed

lemma cycle_round_trip:
  assumes ok: "cycle_ok parser p" and av: "available \<noteq> []" "distinct available" "list_all is_name available"
    and sub: "set (cy_behaviors p) \<subseteq> set available"
    and leg: "\<forall>r. cy_recovery p = Some r \<longrightarrow> r_explicit r \<or> legacy"
  shows "oracle_program_from_dict parser (map PStr available) legacy (cycle_to_dict p) = Inr p"
proof -
  define doc where "doc = [
     (''behaviors'', PList (map PStr (cy_behaviors p))), (''evidence_class'', PStr EVIDENCE_CLASS),
     (''initial'', PStr (cy_initial p)), (''oracle_id'', PStr (cy_oracle_id p)), (''schema_version'', PInt 1),
     (''states'', PDict (map state_dict (cy_states p))),
     (''transitions'', PList (map transition_dict (cy_transitions p)))] @
     (case cy_recovery p of None \<Rightarrow> [] | Some r \<Rightarrow> [(''recovery'', recovery_dict r)])"
  have d: "cycle_to_dict p = PDict doc" by (simp add: doc_def cycle_to_dict_parts)
  have k: "exact_keys oracle_keys [''recovery''] ''oracle'' (PDict doc) = Inr doc"
    by (cases "cy_recovery p") (auto simp: oracle_keys_def doc_def)
  have g: "get_key doc ''schema_version'' = Inr (PInt 1)" "get_key doc ''evidence_class'' = Inr (PStr EVIDENCE_CLASS)"
    "get_key doc ''oracle_id'' = Inr (PStr (cy_oracle_id p))"
    "get_key doc ''behaviors'' = Inr (PList (map PStr (cy_behaviors p)))"
    "get_key doc ''states'' = Inr (PDict (map state_dict (cy_states p)))"
    "get_key doc ''initial'' = Inr (PStr (cy_initial p))"
    "get_key doc ''transitions'' = Inr (PList (map transition_dict (cy_transitions p)))"
    by (simp_all add: doc_def)
  have n: "read_name f (PStr (cy_oracle_id p)) = Inr (cy_oracle_id p)" "read_name f (PStr (cy_initial p)) = Inr (cy_initial p)" for f
    using ok by (simp_all add: cycle_ok_def)
  have a: "read_available (map PStr available) = Inr available" using av by (simp add: read_available_Inr)
  have b: "read_behaviors available (PList (map PStr (cy_behaviors p))) = Inr (cy_behaviors p)"
    using ok sub by (simp add: read_behaviors_Inr cycle_ok_def)
  have s: "read_states (cy_behaviors p) (PDict (map state_dict (cy_states p))) = Inr (cy_states p)"
    using ok by (intro read_states_dict) (simp_all add: cycle_ok_def)
  let ?s0 = "\<lparr>rt_transitions = [], rt_priorities = [], rt_adjacency = []\<rparr> :: read_transitions_state"
  from read_transitions_dict_fold[of parser "map fst (cy_states p)" "cy_transitions p" ?s0 0] ok
  obtain rs where rs: "foldE (read_transition parser (map fst (cy_states p))) (enum_from 0 (map transition_dict (cy_transitions p))) ?s0 = Inr rs"
      "rt_transitions rs = cy_transitions p" by (auto simp: cycle_ok_def)
  then have t: "read_transitions parser (map fst (cy_states p)) (PList (map transition_dict (cy_transitions p))) = Inr rs"
    using ok by (simp add: read_transitions_def cycle_ok_def)
  have "filter (\<lambda>n. n \<notin> set (bfs_reachable (cy_initial p) (rt_adjacency rs))) (map fst (cy_states p)) = []"
    using read_transitions_InrD[OF t] rs(2) ok
    by (auto simp: filter_empty_conv bfs_reach.reach_set cycle_ok_def)
  moreover have "reject_zero_dwell_cycles (cy_states p) (cy_transitions p) = Inr ()"
    using ok by (simp add: reject_zero_dwell_iff cycle_ok_def)
  moreover have "map_of (cy_states p) (cy_initial p) \<noteq> None"
    using ok by (simp add: cycle_ok_def map_of_eq_None_iff)
  moreover have "read_recovery_field parser legacy (cy_behaviors p) doc = Inr (cy_recovery p)"
  proof (cases "cy_recovery p")
    case None
    then show ?thesis by (simp add: read_recovery_field_def dict_get_def doc_def)
  next
    case (Some r)
    then have "recovery_ok parser (cy_behaviors p) r" "r_explicit r \<or> legacy"
      using ok leg by (auto simp: cycle_ok_def)
    from read_recovery_dict[OF this] Some show ?thesis by (simp add: read_recovery_field_def dict_get_def doc_def)
  qed
  ultimately show ?thesis
    by (simp add: oracle_program_from_dict_def d k g n a b s t rs(2) Let_def
        del: exact_keys_Inr get_key_Inr read_name_Inr)
qed

section \<open>An example oracle\<close>

definition walk_parser :: "string \<Rightarrow> ast option" where
  "walk_parser = map_of [
     (''v_x > 1'', Expression (Compare (Name ''v_x'') [Gt] [Constant (PInt 1)])),
     (''v_x < 1'', Expression (Compare (Name ''v_x'') [Lt] [Constant (PInt 1)])),
     (''z_root < 1'', Expression (Compare (Name ''z_root'') [Lt] [Constant (PInt 1)]))]"

definition walk_guard :: "string \<Rightarrow> guard_expr" where
  "walk_guard src = \<lparr>ge_source = src, ge_tree = (case walk_parser src of Some t \<Rightarrow> t | None \<Rightarrow> Token [])\<rparr>"

definition walk_oracle :: cycle_program where
  "walk_oracle = \<lparr>cy_oracle_id = ''walk_run'', cy_behaviors = [''walker'', ''runner'', ''riser''], cy_initial = ''walk'',
     cy_states = [(''walk'', \<lparr>st_behavior = ''walker'', st_min_dwell = 0\<rparr>), (''run'', \<lparr>st_behavior = ''runner'', st_min_dwell = 2\<rparr>)],
     cy_transitions = [
       \<lparr>t_source = ''walk'', t_target = ''run'', t_guard = walk_guard ''v_x > 1'', t_priority = 0\<rparr>,
       \<lparr>t_source = ''run'', t_target = ''walk'', t_guard = walk_guard ''v_x < 1'', t_priority = 3\<rparr>],
     cy_recovery = Some \<lparr>r_behavior = ''riser'', r_guard = walk_guard ''z_root < 1'', r_min_dwell = 1, r_max_duration = 3,
       r_reentry_dwell = 2, r_rejoin = RECOVERY_REJOIN_SEMANTICS, r_explicit = True\<rparr>\<rparr>"

definition walk_behaviors :: "pyval list" where
  "walk_behaviors = [PStr ''walker'', PStr ''runner'', PStr ''riser'', PStr ''jumper'']"

lemma walk_reads: "oracle_program_from_dict walk_parser walk_behaviors False (cycle_to_dict walk_oracle) = Inr walk_oracle"
  by code_simp

lemma walk_dicts_ok: "dicts_ok (cycle_to_dict walk_oracle)"
  by code_simp

section \<open>Properties\<close>

text \<open>
  C7. Whatever \<open>oracle_program_from_dict\<close> accepts is a well-formed oracle: bounded numbers of
  states and transitions, every name and reference resolved, unique priorities per state,
  bounded dwells, every state reachable from the initial one, no cycle of transitions among
  the zero-dwell states, every guard the parse of its own text, and complete recovery bounds.
\<close>

theorem cycle_reader_sound:
  assumes "oracle_program_from_dict parser available legacy value = Inr p" "dicts_ok value"
  shows "cycle_ok parser p"
  using oracle_program_from_dict_ok[OF assms] by blast

theorem cycle_reader_sound_witness: "cycle_ok walk_parser walk_oracle"
  by (rule cycle_reader_sound[OF walk_reads walk_dicts_ok])

text \<open>
  C20. Reading what \<open>to_dict\<close> prints gives the program back, for every well-formed program whose
  behaviors are available, with the legacy flag needed only for a recovery in the legacy form.
\<close>

theorem cycle_print_read:
  assumes "cycle_ok parser p" "available \<noteq> []" "distinct available" "list_all is_name available"
    and "set (cy_behaviors p) \<subseteq> set available"
    and "\<forall>r. cy_recovery p = Some r \<longrightarrow> r_explicit r \<or> legacy"
  shows "oracle_program_from_dict parser (map PStr available) legacy (cycle_to_dict p) = Inr p"
  using assms by (rule cycle_round_trip)

lemma walk_oracle_ok: "cycle_ok walk_parser walk_oracle"
  using oracle_program_from_dict_ok[OF walk_reads walk_dicts_ok] by blast

theorem cycle_print_read_witness:
  "oracle_program_from_dict walk_parser (map PStr [''walker'', ''runner'', ''riser'']) False (cycle_to_dict walk_oracle) = Inr walk_oracle"
proof (rule cycle_print_read[OF walk_oracle_ok])
  show "[''walker'', ''runner'', ''riser''] \<noteq> []" "distinct [''walker'', ''runner'', ''riser'']" by simp_all
  show "list_all is_name [''walker'', ''runner'', ''riser'']" by code_simp
  show "set (cy_behaviors walk_oracle) \<subseteq> set [''walker'', ''runner'', ''riser'']"
    "\<forall>r. cy_recovery walk_oracle = Some r \<longrightarrow> r_explicit r \<or> False" by (simp_all add: walk_oracle_def)
qed

end
