(* ===== verification/CycleMachine.thy ===== *)
theory CycleMachine
  imports CycleContract
begin

text \<open>
  \<open>OracleMachine\<close> of \<^verbatim>\<open>src/oracle_composition/harness/contract.py\<close>: the one-switch-per-step
  interpreter with its recovery override.  \<open>decide\<close> and \<open>advance\<close> are the two methods; a
  controller step is a decision followed by \<open>advance\<close>, and \<open>machine_reachable\<close> is the relation
  of the machines such steps lead to.
\<close>

section \<open>State\<close>

record machine =
  mc_program :: cycle_program
  mc_state :: string
  mc_behavior :: string
  mc_dwell :: int
  mc_recovery_active :: bool
  mc_recovery_elapsed :: int
  mc_reentry_remaining :: int
  mc_outgoing :: "(string \<times> cycle_transition list) list"

datatype decision_reason =
    RecoveryHold | RecoveryRejoin | RecoveryReentryDwell | RecoveryGuard
  | TransitionPriority int | Hold | OrdinaryTransitionDeferred

record decision =
  dc_state :: string
  dc_behavior :: string
  dc_switched :: bool
  dc_transition :: bool
  dc_recovery_entered :: bool
  dc_recovery_exited :: bool
  dc_reason :: decision_reason

datatype machine_error =
    DwellMismatch | SignalInvalid string | MachineSignalsDiffer | MachineGuard guard_error
  | RecoveryTooLong | MachineKeyError string

text \<open>\<open>outgoing[transition.source].append(transition)\<close>, then each list sorted by priority.\<close>

definition dd_push :: "(string \<times> cycle_transition list) list \<Rightarrow> cycle_transition \<Rightarrow> (string \<times> cycle_transition list) list" where
  "dd_push d t = (if t_source t \<in> fst ` set d
     then map (\<lambda>(k, ts). if k = t_source t then (k, ts @ [t]) else (k, ts)) d
     else d @ [(t_source t, [t])])"

definition group_outgoing :: "cycle_transition list \<Rightarrow> (string \<times> cycle_transition list) list" where
  "group_outgoing ts = map (\<lambda>(k, items). (k, sort_key t_priority items)) (fold (\<lambda>t d. dd_push d t) ts [])"

definition mk_machine :: "cycle_program \<Rightarrow> machine_error + machine" where
  "mk_machine p = (case map_of (cy_states p) (cy_initial p) of
       None \<Rightarrow> Inl (MachineKeyError (cy_initial p))
     | Some st \<Rightarrow> Inr \<lparr>mc_program = p, mc_state = cy_initial p, mc_behavior = st_behavior st, mc_dwell = 0,
         mc_recovery_active = False, mc_recovery_elapsed = 0, mc_reentry_remaining = 0,
         mc_outgoing = group_outgoing (cy_transitions p)\<rparr>)"

section \<open>Deciding\<close>

text \<open>
  \<open>checked\<close>: the finite values of the allowed signals that are present, in sorted order; then the
  set of names must be complete.
\<close>

definition machine_signals :: "int \<Rightarrow> (string \<times> pyval) list \<Rightarrow> machine_error + (string \<times> pyval) list" where
  "machine_signals dwell signals =
     (if \<not> (case dict_get signals ''dwell'' of None \<Rightarrow> False | Some v \<Rightarrow> py_eq v (PInt dwell)) then Inl DwellMismatch
      else bindE (mapE (\<lambda>name. bindE (finite_value (SignalInvalid name) (SignalInvalid name)
              (case dict_get signals name of Some v \<Rightarrow> v | None \<Rightarrow> PNone)) (\<lambda>f. Inr (name, PFloat f)))
            (filter (\<lambda>name. dict_get signals name \<noteq> None) (sort ALLOWED_SIGNALS))) (\<lambda>checked.
        if \<not> keys_are ALLOWED_SIGNALS checked then Inl MachineSignalsDiffer else Inr checked))"

definition guard_holds :: "guard_expr \<Rightarrow> (string \<times> pyval) list \<Rightarrow> machine_error + bool" where
  "guard_holds g checked = (case evaluate_expr g checked of Inl e \<Rightarrow> Inl (MachineGuard e) | Inr b \<Rightarrow> Inr b)"

text \<open>The loop over the outgoing transitions: the first whose guard holds.\<close>

fun first_enabled :: "(string \<times> pyval) list \<Rightarrow> cycle_transition list \<Rightarrow> machine_error + cycle_transition option" where
  "first_enabled checked [] = Inr None"
| "first_enabled checked (t # ts) = bindE (guard_holds (t_guard t) checked) (\<lambda>b.
     if b then Inr (Some t) else first_enabled checked ts)"

definition state_behavior :: "cycle_program \<Rightarrow> string \<Rightarrow> machine_error + string" where
  "state_behavior p name = (case map_of (cy_states p) name of
       None \<Rightarrow> Inl (MachineKeyError name) | Some st \<Rightarrow> Inr (st_behavior st))"

definition unchanged :: "machine \<Rightarrow> decision_reason \<Rightarrow> decision" where
  "unchanged m reason = \<lparr>dc_state = mc_state m, dc_behavior = mc_behavior m, dc_switched = False,
     dc_transition = False, dc_recovery_entered = False, dc_recovery_exited = False, dc_reason = reason\<rparr>"

definition rejoin :: "cycle_recovery \<Rightarrow> machine \<Rightarrow> machine_error + (decision \<times> machine)" where
  "rejoin r m = bindE (state_behavior (mc_program m) (mc_state m)) (\<lambda>desired.
     Inr (\<lparr>dc_state = mc_state m, dc_behavior = desired, dc_switched = (desired \<noteq> mc_behavior m),
           dc_transition = False, dc_recovery_entered = False, dc_recovery_exited = True, dc_reason = RecoveryRejoin\<rparr>,
          m\<lparr>mc_recovery_active := False, mc_recovery_elapsed := 0,
            mc_reentry_remaining := r_reentry_dwell r + 1, mc_behavior := desired, mc_dwell := 0\<rparr>))"

definition enter_recovery :: "cycle_recovery \<Rightarrow> machine \<Rightarrow> decision \<times> machine" where
  "enter_recovery r m =
     (\<lparr>dc_state = mc_state m, dc_behavior = r_behavior r, dc_switched = (r_behavior r \<noteq> mc_behavior m),
       dc_transition = False, dc_recovery_entered = True, dc_recovery_exited = False, dc_reason = RecoveryGuard\<rparr>,
      m\<lparr>mc_recovery_active := True, mc_recovery_elapsed := 0, mc_behavior := r_behavior r, mc_dwell := 0\<rparr>)"

text \<open>The ordinary part: at most one transition, when the state has dwelt long enough.\<close>

definition ordinary :: "machine \<Rightarrow> (string \<times> pyval) list \<Rightarrow> bool \<Rightarrow> machine_error + (decision \<times> machine)" where
  "ordinary m checked allow_transitions =
     (case map_of (cy_states (mc_program m)) (mc_state m) of None \<Rightarrow> Inl (MachineKeyError (mc_state m))
      | Some st \<Rightarrow>
        let hold = unchanged m (if allow_transitions then Hold else OrdinaryTransitionDeferred) in
        if allow_transitions \<and> st_min_dwell st \<le> mc_dwell m then
          bindE (first_enabled checked (case map_of (mc_outgoing m) (mc_state m) of None \<Rightarrow> [] | Some ts \<Rightarrow> ts)) (\<lambda>found.
            case found of None \<Rightarrow> Inr (hold, m)
            | Some t \<Rightarrow> bindE (state_behavior (mc_program m) (t_target t)) (\<lambda>b.
                Inr (\<lparr>dc_state = t_target t, dc_behavior = b, dc_switched = (b \<noteq> mc_behavior m),
                      dc_transition = True, dc_recovery_entered = False, dc_recovery_exited = False,
                      dc_reason = TransitionPriority (t_priority t)\<rparr>,
                     m\<lparr>mc_state := t_target t, mc_behavior := b, mc_dwell := 0\<rparr>)))
        else Inr (hold, m))"

definition decide :: "machine \<Rightarrow> (string \<times> pyval) list \<Rightarrow> bool \<Rightarrow> machine_error + (decision \<times> machine)" where
  "decide m signals allow_transitions = bindE (machine_signals (mc_dwell m) signals) (\<lambda>checked.
     case cy_recovery (mc_program m) of None \<Rightarrow> ordinary m checked allow_transitions
     | Some r \<Rightarrow> bindE (guard_holds (r_guard r) checked) (\<lambda>recovery_guard.
         if mc_recovery_active m then
           if recovery_guard \<and> r_max_duration r \<le> mc_recovery_elapsed m then Inl RecoveryTooLong
           else if recovery_guard \<or> mc_recovery_elapsed m < r_min_dwell r then Inr (unchanged m RecoveryHold, m)
           else rejoin r m
         else if recovery_guard \<and> 0 < mc_reentry_remaining m then Inr (unchanged m RecoveryReentryDwell, m)
         else if recovery_guard then Inr (enter_recovery r m)
         else ordinary m checked allow_transitions))"

definition advance :: "machine \<Rightarrow> machine" where
  "advance m = (let m' = m\<lparr>mc_dwell := mc_dwell m + 1\<rparr> in
     if mc_recovery_active m then m'\<lparr>mc_recovery_elapsed := mc_recovery_elapsed m + 1\<rparr>
     else if 0 < mc_reentry_remaining m then m'\<lparr>mc_reentry_remaining := mc_reentry_remaining m - 1\<rparr>
     else m')"

lemma advance_sel [simp]:
  "mc_program (advance m) = mc_program m" "mc_state (advance m) = mc_state m"
  "mc_behavior (advance m) = mc_behavior m" "mc_dwell (advance m) = mc_dwell m + 1"
  "mc_recovery_active (advance m) = mc_recovery_active m" "mc_outgoing (advance m) = mc_outgoing m"
  "mc_recovery_elapsed (advance m) = (if mc_recovery_active m then mc_recovery_elapsed m + 1 else mc_recovery_elapsed m)"
  "mc_reentry_remaining (advance m) = (if \<not> mc_recovery_active m \<and> 0 < mc_reentry_remaining m
     then mc_reentry_remaining m - 1 else mc_reentry_remaining m)"
  by (simp_all add: advance_def Let_def)

definition control_step :: "machine \<Rightarrow> (string \<times> pyval) list \<times> bool \<Rightarrow> machine_error + (decision \<times> machine)" where
  "control_step m = (\<lambda>(signals, allow). bindE (decide m signals allow) (\<lambda>(d, m'). Inr (d, advance m')))"

section \<open>Guards as an interface\<close>

text \<open>
  What the machine needs of its guards: on complete signals each admitted guard has a value.
  The lemma on the scan over the outgoing transitions is proved from that alone.
\<close>

locale total_guards =
  fixes good :: "'g \<Rightarrow> bool"
    and complete :: "'s \<Rightarrow> bool"
    and holds :: "'g \<Rightarrow> 's \<Rightarrow> 'e + bool"
    and denotes :: "'g \<Rightarrow> 's \<Rightarrow> bool"
  assumes holds_denotes: "good g \<Longrightarrow> complete s \<Longrightarrow> holds g s = Inr (denotes g s)"
begin

lemma scan_first:
  assumes "\<And>t. t \<in> set ts \<Longrightarrow> good (guard_of t)" "complete s"
    and "\<And>xs. scan [] = Inr None" and "\<And>t ts. scan (t # ts) =
      bindE (holds (guard_of t) s) (\<lambda>b. if b then Inr (Some t) else scan ts)"
  shows "scan ts = Inr (find (\<lambda>t. denotes (guard_of t) s) ts)"
  using assms(1)
proof (induction ts)
  case (Cons t ts)
  then show ?case using assms(2,4) holds_denotes by simp
qed (simp add: assms(3))

end

definition guard_admitted :: "guard_expr \<Rightarrow> bool" where
  "guard_admitted g \<longleftrightarrow> admitted (ge_tree g)"

definition signals_complete :: "(string \<times> pyval) list \<Rightarrow> bool" where
  "signals_complete s \<longleftrightarrow> keys_are ALLOWED_SIGNALS s \<and> (\<forall>(n, v) \<in> set s. finite_constant v)"

definition guard_denotes :: "guard_expr \<Rightarrow> (string \<times> pyval) list \<Rightarrow> bool" where
  "guard_denotes g s \<longleftrightarrow> truth (sem (signal_env s) (ge_tree g))"

interpretation machine_guards: total_guards guard_admitted signals_complete guard_holds guard_denotes
  by unfold_locales (simp add: guard_admitted_def signals_complete_def guard_holds_def guard_denotes_def evaluate_expr_sem)

lemma first_enabled_find:
  "(\<And>t. t \<in> set ts \<Longrightarrow> guard_admitted (t_guard t)) \<Longrightarrow> signals_complete s \<Longrightarrow>
    first_enabled s ts = Inr (find (\<lambda>t. guard_denotes (t_guard t) s) ts)"
  by (rule machine_guards.scan_first) simp_all

lemma guard_reads_admitted: "guard_reads parser g \<Longrightarrow> guard_admitted g"
  by (cases g) (auto simp: guard_reads_def parse_guard_iff guard_admitted_def)

lemma machine_signals_complete:
  assumes "machine_signals dwell signals = Inr checked"
  shows "signals_complete checked"
proof -
  from assms have k: "keys_are ALLOWED_SIGNALS checked"
    and m: "mapE (\<lambda>name. bindE (finite_value (SignalInvalid name) (SignalInvalid name)
              (case dict_get signals name of Some v \<Rightarrow> v | None \<Rightarrow> PNone)) (\<lambda>f. Inr (name, PFloat f)))
            (filter (\<lambda>name. dict_get signals name \<noteq> None) (sort ALLOWED_SIGNALS)) = Inr checked"
    by (auto simp: machine_signals_def split: if_splits)
  have "finite_constant (snd e)" if "e \<in> set checked" for e
    using mapE_in_set[OF m that] by (auto simp: finite_constant_def dest!: finite_value_InrD)
  then show ?thesis using k by (auto simp: signals_complete_def)
qed

section \<open>The outgoing table\<close>

lemma map_of_map_values: "map_of (map (\<lambda>(k, v). (k, f k v)) d) x = map_option (f x) (map_of d x)"
  by (induction d) auto

lemma map_of_dd_push: "map_of (dd_push d t) x =
    (if x = t_source t then Some ((case map_of d x of None \<Rightarrow> [] | Some ts \<Rightarrow> ts) @ [t]) else map_of d x)"
proof (cases "t_source t \<in> fst ` set d")
  case True
  then obtain ts where "map_of d (t_source t) = Some ts" by (metis domD dom_map_of_conv_image_fst)
  moreover have "(\<lambda>(k, ts). if k = t_source t then (k, ts @ [t]) else (k, ts)) =
      (\<lambda>(k, ts). (k, if k = t_source t then ts @ [t] else ts))" by auto
  ultimately show ?thesis using True by (simp add: dd_push_def map_of_map_values option.map_ident)
next
  case False
  then show ?thesis by (auto simp: dd_push_def map_add_def map_of_eq_None_iff[THEN iffD2] split: option.split)
qed

lemma map_of_fold_push: "(case map_of (fold (\<lambda>t d. dd_push d t) ts d) x of None \<Rightarrow> [] | Some us \<Rightarrow> us) =
    (case map_of d x of None \<Rightarrow> [] | Some us \<Rightarrow> us) @ filter (\<lambda>t. t_source t = x) ts"
  by (induction ts arbitrary: d) (auto simp: map_of_dd_push split: option.splits)

lemma machine_outgoing_sorted: "(case map_of (group_outgoing ts) x of None \<Rightarrow> [] | Some us \<Rightarrow> us) =
    sort_key t_priority (filter (\<lambda>t. t_source t = x) ts)"
  using map_of_fold_push[of ts "[]" x]
  by (auto simp: group_outgoing_def map_of_map_values[where f = "\<lambda>_. sort_key t_priority"] split: option.splits)

section \<open>Reachable machines\<close>

inductive machine_reachable :: "cycle_program \<Rightarrow> machine \<Rightarrow> bool" for p where
  start: "mk_machine p = Inr m \<Longrightarrow> machine_reachable p m"
| step: "machine_reachable p m \<Longrightarrow> control_step m i = Inr (d, m') \<Longrightarrow> machine_reachable p m'"

definition behavior_of :: "cycle_program \<Rightarrow> string \<Rightarrow> string" where
  "behavior_of p name = (case map_of (cy_states p) name of Some st \<Rightarrow> st_behavior st | None \<Rightarrow> [])"

text \<open>
  The invariant: the state is declared; during a recovery the recovery controller runs, for at
  least one and at most the maximal number of steps; otherwise the state's own controller runs
  and the re-entry count is within its declared bound.
\<close>

definition machine_inv :: "cycle_program \<Rightarrow> machine \<Rightarrow> bool" where
  "machine_inv p m \<longleftrightarrow> mc_program m = p \<and> mc_state m \<in> fst ` set (cy_states p) \<and>
     mc_outgoing m = group_outgoing (cy_transitions p) \<and> 0 \<le> mc_dwell m \<and>
     (if mc_recovery_active m
      then mc_reentry_remaining m = 0 \<and> (case cy_recovery p of None \<Rightarrow> False | Some r \<Rightarrow>
        mc_behavior m = r_behavior r \<and> 1 \<le> mc_recovery_elapsed m \<and> mc_recovery_elapsed m \<le> r_max_duration r)
      else mc_behavior m = behavior_of p (mc_state m) \<and> mc_recovery_elapsed m = 0 \<and> 0 \<le> mc_reentry_remaining m \<and>
        (mc_reentry_remaining m \<noteq> 0 \<longrightarrow> (case cy_recovery p of None \<Rightarrow> False
           | Some r \<Rightarrow> mc_reentry_remaining m \<le> r_reentry_dwell r)))"

lemma state_behavior_declared: "n \<in> fst ` set (cy_states p) \<Longrightarrow> state_behavior p n = Inr (behavior_of p n)"
  by (cases "map_of (cy_states p) n") (auto simp: state_behavior_def behavior_of_def map_of_eq_None_iff)

lemma transition_declared: "cycle_ok parser p \<Longrightarrow> t \<in> set (cy_transitions p) \<Longrightarrow>
    t_target t \<in> fst ` set (cy_states p) \<and> guard_admitted (t_guard t)"
  by (auto simp: cycle_ok_def list_all_iff cycle_transition_ok_def intro: guard_reads_admitted)

lemma recovery_declared: "cycle_ok parser p \<Longrightarrow> cy_recovery p = Some r \<Longrightarrow>
    guard_admitted (r_guard r) \<and> 1 \<le> r_min_dwell r \<and> r_min_dwell r \<le> r_max_duration r \<and> 1 \<le> r_reentry_dwell r"
  by (auto simp: cycle_ok_def recovery_ok_def intro: guard_reads_admitted)

text \<open>The transition the machine should take: of least priority among the enabled ones.\<close>

definition enabled_transitions :: "machine \<Rightarrow> (string \<times> pyval) list \<Rightarrow> cycle_transition list" where
  "enabled_transitions m s = filter (\<lambda>t. t_source t = mc_state m \<and> guard_denotes (t_guard t) s) (cy_transitions (mc_program m))"

definition dwelt :: "machine \<Rightarrow> bool" where
  "dwelt m \<longleftrightarrow> (case map_of (cy_states (mc_program m)) (mc_state m) of None \<Rightarrow> False | Some st \<Rightarrow> st_min_dwell st \<le> mc_dwell m)"

definition take_transition :: "machine \<Rightarrow> cycle_transition \<Rightarrow> decision \<times> machine" where
  "take_transition m t = (let b = behavior_of (mc_program m) (t_target t) in
     (\<lparr>dc_state = t_target t, dc_behavior = b, dc_switched = (b \<noteq> mc_behavior m), dc_transition = True,
       dc_recovery_entered = False, dc_recovery_exited = False, dc_reason = TransitionPriority (t_priority t)\<rparr>,
      m\<lparr>mc_state := t_target t, mc_behavior := b, mc_dwell := 0\<rparr>))"

definition rejoined :: "cycle_recovery \<Rightarrow> machine \<Rightarrow> decision \<times> machine" where
  "rejoined r m = (let b = behavior_of (mc_program m) (mc_state m) in
     (\<lparr>dc_state = mc_state m, dc_behavior = b, dc_switched = (b \<noteq> mc_behavior m), dc_transition = False,
       dc_recovery_entered = False, dc_recovery_exited = True, dc_reason = RecoveryRejoin\<rparr>,
      m\<lparr>mc_recovery_active := False, mc_recovery_elapsed := 0,
        mc_reentry_remaining := r_reentry_dwell r + 1, mc_behavior := b, mc_dwell := 0\<rparr>))"

lemma first_enabled_outgoing:
  assumes "cycle_ok parser p" "machine_inv p m" "signals_complete s"
  shows "first_enabled s (case map_of (mc_outgoing m) (mc_state m) of None \<Rightarrow> [] | Some ts \<Rightarrow> ts) =
    Inr (find (\<lambda>t. guard_denotes (t_guard t) s) (sort_key t_priority (filter (\<lambda>t. t_source t = mc_state m) (cy_transitions p))))"
proof -
  have "mc_outgoing m = group_outgoing (cy_transitions p)" using assms(2) by (simp add: machine_inv_def)
  moreover have "t \<in> set (cy_transitions p) \<Longrightarrow> guard_admitted (t_guard t)" for t
    using transition_declared[OF assms(1)] by blast
  ultimately show ?thesis by (simp add: machine_outgoing_sorted) (rule first_enabled_find[OF _ assms(3)], simp)
qed

lemma find_filter: "find P xs = (case filter P xs of [] \<Rightarrow> None | x # _ \<Rightarrow> Some x)"
  by (induction xs) auto

lemma first_enabled_spec:
  assumes "cycle_ok parser p" "machine_inv p m" "signals_complete s"
  shows "first_enabled s (case map_of (mc_outgoing m) (mc_state m) of None \<Rightarrow> [] | Some ts \<Rightarrow> ts) =
    Inr (case sort_key t_priority (enabled_transitions m s) of [] \<Rightarrow> None | t # _ \<Rightarrow> Some t)"
proof -
  have p: "mc_program m = p" using assms(2) by (simp add: machine_inv_def)
  show ?thesis
    unfolding first_enabled_outgoing[OF assms] find_filter filter_sort
    by (simp add: enabled_transitions_def p conj_commute)
qed

lemma ordinary_spec:
  assumes "cycle_ok parser p" "machine_inv p m" "signals_complete s"
  shows "ordinary m s allow = Inr (if allow \<and> dwelt m
    then (case sort_key t_priority (enabled_transitions m s) of
        [] \<Rightarrow> (unchanged m Hold, m) | t # _ \<Rightarrow> take_transition m t)
    else (unchanged m (if allow then Hold else OrdinaryTransitionDeferred), m))"
proof -
  have p: "mc_program m = p" "mc_state m \<in> fst ` set (cy_states p)" using assms(2) by (simp_all add: machine_inv_def)
  then obtain st where st: "map_of (cy_states p) (mc_state m) = Some st"
    by (metis domD dom_map_of_conv_image_fst)
  have d: "dwelt m = (st_min_dwell st \<le> mc_dwell m)" by (simp add: dwelt_def p st)
  show ?thesis
  proof (cases "sort_key t_priority (enabled_transitions m s)")
    case Nil
    then show ?thesis
      using first_enabled_spec[OF assms] by (simp add: ordinary_def p(1) st d)
  next
    case (Cons t ts)
    have "t \<in> set (enabled_transitions m s)" using Cons by (metis list.set_intros(1) set_sort)
    then have "t_target t \<in> fst ` set (cy_states p)"
      using transition_declared[OF assms(1)] by (auto simp: enabled_transitions_def p)
    then have "state_behavior p (t_target t) = Inr (behavior_of p (t_target t))" by (rule state_behavior_declared)
    then show ?thesis
      using Cons first_enabled_spec[OF assms] by (simp add: ordinary_def p(1) st d take_transition_def Let_def)
  qed
qed

text \<open>\<open>decide\<close> in one equation, for the machines that satisfy the invariant.\<close>

definition recovery_wanted :: "cycle_program \<Rightarrow> (string \<times> pyval) list \<Rightarrow> bool" where
  "recovery_wanted p s = (case cy_recovery p of None \<Rightarrow> False | Some r \<Rightarrow> guard_denotes (r_guard r) s)"

lemma decide_spec:
  assumes ok: "cycle_ok parser p" and inv: "machine_inv p m" and s: "machine_signals (mc_dwell m) signals = Inr s"
  shows "decide m signals allow =
    (if mc_recovery_active m then
       (let r = the (cy_recovery p) in
        if recovery_wanted p s \<and> r_max_duration r \<le> mc_recovery_elapsed m then Inl RecoveryTooLong
        else if recovery_wanted p s \<or> mc_recovery_elapsed m < r_min_dwell r then Inr (unchanged m RecoveryHold, m)
        else Inr (rejoined r m))
     else if recovery_wanted p s then
       Inr (if 0 < mc_reentry_remaining m then (unchanged m RecoveryReentryDwell, m)
            else enter_recovery (the (cy_recovery p)) m)
     else ordinary m s allow)"
proof -
  have p: "mc_program m = p" "mc_state m \<in> fst ` set (cy_states p)" using inv by (simp_all add: machine_inv_def)
  have c: "signals_complete s" by (rule machine_signals_complete[OF s])
  show ?thesis
  proof (cases "cy_recovery p")
    case None
    then have "\<not> mc_recovery_active m" using inv by (auto simp: machine_inv_def)
    then show ?thesis using None by (simp add: decide_def s p recovery_wanted_def)
  next
    case (Some r)
    have "guard_holds (r_guard r) s = Inr (guard_denotes (r_guard r) s)"
      using recovery_declared[OF ok Some] c by (intro machine_guards.holds_denotes) simp_all
    moreover have "rejoin r m = Inr (rejoined r m)"
      using state_behavior_declared[OF p(2)] by (simp add: rejoin_def rejoined_def p(1) Let_def)
    ultimately show ?thesis using Some by (simp add: decide_def s p(1) recovery_wanted_def Let_def)
  qed
qed

section \<open>The invariant and the shape of a step\<close>

lemma mk_machine_inv: "mk_machine p = Inr m \<Longrightarrow> machine_inv p m"
  by (auto simp: mk_machine_def machine_inv_def behavior_of_def split: option.splits intro: rev_image_eqI dest: map_of_SomeD)

lemma ordinary_inv:
  assumes "cycle_ok parser p" "machine_inv p m" "signals_complete s" "ordinary m s allow = Inr (d, m')"
  shows "mc_program m' = p \<and> mc_state m' \<in> fst ` set (cy_states p) \<and> mc_outgoing m' = mc_outgoing m \<and>
    0 \<le> mc_dwell m' \<and> mc_recovery_active m' = mc_recovery_active m \<and>
    mc_recovery_elapsed m' = mc_recovery_elapsed m \<and> mc_reentry_remaining m' = mc_reentry_remaining m \<and>
    (m' = m \<or> mc_behavior m' = behavior_of p (mc_state m')) \<and>
    \<not> dc_recovery_entered d \<and> \<not> dc_recovery_exited d \<and>
    dc_state d = mc_state m' \<and> dc_behavior d = mc_behavior m' \<and> dc_switched d = (mc_behavior m' \<noteq> mc_behavior m)"
proof -
  have p: "mc_program m = p" "mc_state m \<in> fst ` set (cy_states p)" "0 \<le> mc_dwell m" using assms(2) by (simp_all add: machine_inv_def)
  show ?thesis
  proof (cases "sort_key t_priority (enabled_transitions m s)")
    case Nil
    then show ?thesis using assms(4) p by (auto simp: ordinary_spec[OF assms(1-3)] unchanged_def split: if_splits)
  next
    case (Cons t ts)
    have "t \<in> set (enabled_transitions m s)" using Cons by (metis list.set_intros(1) set_sort)
    then have "t_target t \<in> fst ` set (cy_states p)"
      using transition_declared[OF assms(1)] by (auto simp: enabled_transitions_def p)
    then show ?thesis
      using assms(4) p Cons
      by (cases "allow \<and> dwelt m") (auto simp: ordinary_spec[OF assms(1-3)] unchanged_def take_transition_def Let_def simp del: fst_conv image_iff)
  qed
qed

lemma decide_signals: "decide m signals allow = Inr x \<Longrightarrow> \<exists>s. machine_signals (mc_dwell m) signals = Inr s"
  by (auto simp: decide_def)

text \<open>The five shapes of a decision.\<close>

lemma decide_cases:
  assumes ok: "cycle_ok parser p" and inv: "machine_inv p m" and d: "decide m signals allow = Inr (d, m')"
  obtains (recovering) r s where "mc_recovery_active m" "cy_recovery p = Some r" "machine_signals (mc_dwell m) signals = Inr s"
      "d = unchanged m RecoveryHold" "m' = m" "mc_recovery_elapsed m < r_max_duration r"
    | (exits) r s where "mc_recovery_active m" "cy_recovery p = Some r" "machine_signals (mc_dwell m) signals = Inr s"
      "(d, m') = rejoined r m" "r_min_dwell r \<le> mc_recovery_elapsed m"
    | (blocked) r s where "\<not> mc_recovery_active m" "cy_recovery p = Some r" "machine_signals (mc_dwell m) signals = Inr s"
      "d = unchanged m RecoveryReentryDwell" "m' = m" "0 < mc_reentry_remaining m"
    | (enters) r s where "\<not> mc_recovery_active m" "cy_recovery p = Some r" "machine_signals (mc_dwell m) signals = Inr s"
      "(d, m') = enter_recovery r m" "mc_reentry_remaining m = 0"
    | (ordinarily) s where "\<not> mc_recovery_active m" "machine_signals (mc_dwell m) signals = Inr s" "\<not> recovery_wanted p s"
      "ordinary m s allow = Inr (d, m')"
proof -
  from decide_signals[OF d] obtain s where s: "machine_signals (mc_dwell m) signals = Inr s" by blast
  note e = d[unfolded decide_spec[OF ok inv s]]
  show thesis
  proof (cases "mc_recovery_active m")
    case True
    then obtain r where r: "cy_recovery p = Some r" "mc_recovery_elapsed m \<le> r_max_duration r"
      using inv by (auto simp: machine_inv_def split: option.splits)
    have "r_min_dwell r \<le> r_max_duration r" using recovery_declared[OF ok r(1)] by simp
    show thesis
    proof (cases "recovery_wanted p s \<or> mc_recovery_elapsed m < r_min_dwell r")
      case hold: True
      have "\<not> (recovery_wanted p s \<and> r_max_duration r \<le> mc_recovery_elapsed m)"
        using e True r by (auto simp: Let_def)
      then show thesis
        using e True r hold \<open>r_min_dwell r \<le> r_max_duration r\<close> by (intro recovering[OF True r(1) s]) (auto simp: Let_def)
    next
      case False
      then show thesis using e True r by (intro exits[OF True r(1) s]) (simp_all add: Let_def)
    qed
  next
    case False
    show thesis
    proof (cases "recovery_wanted p s")
      case True
      then obtain r where r: "cy_recovery p = Some r" by (auto simp: recovery_wanted_def split: option.splits)
      have "0 \<le> mc_reentry_remaining m" using inv False by (simp add: machine_inv_def)
      show thesis
      proof (cases "0 < mc_reentry_remaining m")
        case rem: True
        then show thesis using e False True by (intro blocked[OF False r s]) auto
      next
        case rem: False
        then show thesis using e False True r \<open>0 \<le> mc_reentry_remaining m\<close> by (intro enters[OF False r s]) simp_all
      qed
    next
      case no: False
      then show thesis using e False s ordinarily by simp
    qed
  qed
qed

lemma control_step_inv:
  assumes ok: "cycle_ok parser p" and inv: "machine_inv p m" and st: "control_step m i = Inr (d, m')"
  shows "machine_inv p m'"
proof -
  obtain signals allow m1 where i: "i = (signals, allow)" and d: "decide m signals allow = Inr (d, m1)" and m': "m' = advance m1"
    using st by (cases i) (auto simp: control_step_def)
  have p: "mc_program m = p" using inv by (simp add: machine_inv_def)
  from ok inv d show ?thesis
  proof (cases rule: decide_cases)
    case (recovering r s)
    then show ?thesis using inv m' by (auto simp: machine_inv_def)
  next
    case (exits r s)
    then show ?thesis using inv m' recovery_declared[OF ok exits(2)]
      by (auto simp: machine_inv_def rejoined_def Let_def)
  next
    case (blocked r s)
    then show ?thesis using inv m' by (auto simp: machine_inv_def)
  next
    case (enters r s)
    then show ?thesis using inv m' recovery_declared[OF ok enters(2)]
      by (auto simp: machine_inv_def enter_recovery_def)
  next
    case (ordinarily s)
    note o = ordinary_inv[OF ok inv machine_signals_complete[OF ordinarily(2)] ordinarily(4)]
    have "mc_behavior m1 = behavior_of p (mc_state m1)"
      using o inv ordinarily(1) by (auto simp: machine_inv_def)
    moreover have "case cy_recovery p of None \<Rightarrow> mc_reentry_remaining m = 0 | Some r \<Rightarrow> mc_reentry_remaining m \<le> r_reentry_dwell r"
      "0 \<le> mc_reentry_remaining m" "mc_recovery_elapsed m = 0" "mc_outgoing m = group_outgoing (cy_transitions p)"
      using inv ordinarily(1) recovery_declared(1)[OF ok] by (force simp: machine_inv_def split: option.splits)+
    ultimately show ?thesis using o ordinarily(1)
      by (cases "cy_recovery p") (simp_all add: m' machine_inv_def)
  qed
qed

lemma control_reachable_inv:
  assumes "cycle_ok parser p"
  shows "machine_reachable p m \<Longrightarrow> machine_inv p m"
proof (induction rule: machine_reachable.induct)
  case (start m)
  then show ?case by (rule mk_machine_inv)
next
  case (step m i d m')
  show ?case by (rule control_step_inv[OF assms step.IH step.hyps(2)])
qed

section \<open>Runs\<close>

fun control_run :: "machine \<Rightarrow> ((string \<times> pyval) list \<times> bool) list \<Rightarrow> machine_error + (decision list \<times> machine)" where
  "control_run m [] = Inr ([], m)"
| "control_run m (i # is) = bindE (control_step m i) (\<lambda>(d, m').
     bindE (control_run m' is) (\<lambda>(ds, m''). Inr (d # ds, m'')))"

lemma control_run_ConsE:
  assumes "control_run m (i # is) = Inr (ds, m2)"
  obtains d m1 ds' where "control_step m i = Inr (d, m1)" "control_run m1 is = Inr (ds', m2)" "ds = d # ds'"
  using assms by auto

lemma control_stepE:
  assumes "control_step m i = Inr (d, m')"
  obtains m1 where "decide m (fst i) (snd i) = Inr (d, m1)" "m' = advance m1"
  using assms by (cases i) (auto simp: control_step_def)

text \<open>What a recovery decides while it lasts.\<close>

definition recovery_hold :: "cycle_recovery \<Rightarrow> string \<Rightarrow> decision" where
  "recovery_hold r name = \<lparr>dc_state = name, dc_behavior = r_behavior r, dc_switched = False, dc_transition = False,
     dc_recovery_entered = False, dc_recovery_exited = False, dc_reason = RecoveryHold\<rparr>"

text \<open>The recovery may end at its step \<open>n\<close>: the minimal dwell is over and the guard does not hold on the readings.\<close>

definition released :: "cycle_recovery \<Rightarrow> (string \<times> pyval) list \<Rightarrow> int \<Rightarrow> bool" where
  "released r s n \<longleftrightarrow> r_min_dwell r \<le> n \<and> \<not> guard_denotes (r_guard r) s"

text \<open>
  The course of a recovery that has run for \<open>n\<close> steps, on any readings: it ends at the first step at which it
  may, and if there is none up to the maximal duration, the machine refuses to go on there.
\<close>

lemma recovery_course:
  assumes ok: "cycle_ok parser p" and r: "cy_recovery p = Some r"
  shows "machine_inv p m \<Longrightarrow> mc_recovery_active m \<Longrightarrow>
    \<forall>j < length is. machine_signals (mc_dwell m + int j) (fst (is ! j)) = Inr (ss j) \<Longrightarrow>
    r_max_duration r - mc_recovery_elapsed m < int (length is) \<Longrightarrow>
    (\<exists>k x m'. int k \<le> r_max_duration r - mc_recovery_elapsed m \<and> released r (ss k) (mc_recovery_elapsed m + int k) \<and>
       (\<forall>j < k. \<not> released r (ss j) (mc_recovery_elapsed m + int j)) \<and>
       control_run m (take (Suc k) is) = Inr (replicate k (recovery_hold r (mc_state m)) @ [x], m') \<and> dc_recovery_exited x \<and>
       dc_state x = mc_state m \<and> dc_behavior x = behavior_of p (mc_state m) \<and> \<not> mc_recovery_active m' \<and> mc_behavior m' = behavior_of p (mc_state m)) \<or>
    (\<exists>k m'. int k = r_max_duration r - mc_recovery_elapsed m \<and> (\<forall>j \<le> k. \<not> released r (ss j) (mc_recovery_elapsed m + int j)) \<and>
       control_run m (take k is) = Inr (replicate k (recovery_hold r (mc_state m)), m') \<and> control_step m' (is ! k) = Inl RecoveryTooLong)"
proof (induction "is" arbitrary: m ss)
  case Nil
  then show ?case using r by (auto simp: machine_inv_def)
next
  case (Cons i "is")
  have p: "mc_program m = p" "mc_recovery_elapsed m \<le> r_max_duration r" "mc_behavior m = r_behavior r"
    using Cons.prems(1,2) r by (simp_all add: machine_inv_def)
  have s: "machine_signals (mc_dwell m) (fst i) = Inr (ss 0)" using Cons.prems(3)[rule_format, of 0] by simp
  note d = decide_spec[OF ok Cons.prems(1) s, of "snd i"] and dur = recovery_declared[OF ok r]
  have step: "control_step m i = bindE (decide m (fst i) (snd i)) (\<lambda>(d, m'). Inr (d, advance m'))"
    by (cases i) (simp add: control_step_def)
  have want: "recovery_wanted p (ss 0) = guard_denotes (r_guard r) (ss 0)" by (simp add: recovery_wanted_def r)
  have un: "unchanged m RecoveryHold = recovery_hold r (mc_state m)" by (simp add: unchanged_def recovery_hold_def p(3))
  show ?case
  proof (cases "released r (ss 0) (mc_recovery_elapsed m)")
    case True
    then have "decide m (fst i) (snd i) = Inr (rejoined r m)" using Cons.prems(2) r by (simp add: d want released_def Let_def)
    then have "control_run m (take (Suc 0) (i # is)) = Inr ([fst (rejoined r m)], advance (snd (rejoined r m)))"
      by (simp add: step rejoined_def Let_def)
    then show ?thesis using True p
      by (intro disjI1 exI[of _ 0] exI[of _ "fst (rejoined r m)"] exI[of _ "advance (snd (rejoined r m))"] conjI)
        (simp_all add: rejoined_def Let_def)
  next
    case stay: False
    show ?thesis
    proof (cases "mc_recovery_elapsed m < r_max_duration r")
      case True
      then have one: "control_step m i = Inr (recovery_hold r (mc_state m), advance m)"
        using Cons.prems(2) r stay by (auto simp: step d want released_def un Let_def)
      have inv: "machine_inv p (advance m)" by (rule control_step_inv[OF ok Cons.prems(1) one])
      have adv: "mc_recovery_elapsed (advance m) = mc_recovery_elapsed m + 1" "mc_recovery_active (advance m)"
        "mc_state (advance m) = mc_state m" using Cons.prems(2) by simp_all
      have readings: "\<forall>j < length is. machine_signals (mc_dwell (advance m) + int j) (fst (is ! j)) = Inr (ss (Suc j))"
        using Cons.prems(3)[rule_format, of "Suc j" for j] by (simp add: algebra_simps)
      have none: "\<forall>j < Suc k. \<not> released r (ss j) (mc_recovery_elapsed m + int j)"
        if "\<forall>j < k. \<not> released r (ss (Suc j)) (mc_recovery_elapsed m + 1 + int j)" for k
      proof (intro allI impI)
        fix j assume "j < Suc k"
        then show "\<not> released r (ss j) (mc_recovery_elapsed m + int j)" using that stay by (cases j) (simp_all add: algebra_simps)
      qed
      have len: "r_max_duration r - mc_recovery_elapsed (advance m) < int (length is)" using Cons.prems(4) adv(1) by simp
      from Cons.IH[of "advance m" "\<lambda>j. ss (Suc j)", OF inv adv(2) readings len, unfolded adv] show ?thesis
      proof (elim disjE exE conjE)
        fix k x m'
        assume h: "int k \<le> r_max_duration r - (mc_recovery_elapsed m + 1)" "released r (ss (Suc k)) (mc_recovery_elapsed m + 1 + int k)"
          "\<forall>j < k. \<not> released r (ss (Suc j)) (mc_recovery_elapsed m + 1 + int j)"
          "control_run (advance m) (take (Suc k) is) = Inr (replicate k (recovery_hold r (mc_state m)) @ [x], m')"
          "dc_recovery_exited x" "dc_state x = mc_state m" "dc_behavior x = behavior_of p (mc_state m)" "\<not> mc_recovery_active m'"
          "mc_behavior m' = behavior_of p (mc_state m)"
        have "control_run m (take (Suc (Suc k)) (i # is)) = Inr (replicate (Suc k) (recovery_hold r (mc_state m)) @ [x], m')"
          using one h(4) by simp
        then show ?thesis using h none[OF h(3)]
          by (intro disjI1 exI[of _ "Suc k"] exI[of _ x] exI[of _ m'] conjI) (simp_all add: algebra_simps)
      next
        fix k m'
        assume h: "int k = r_max_duration r - (mc_recovery_elapsed m + 1)"
          "\<forall>j \<le> k. \<not> released r (ss (Suc j)) (mc_recovery_elapsed m + 1 + int j)"
          "control_run (advance m) (take k is) = Inr (replicate k (recovery_hold r (mc_state m)), m')" "control_step m' (is ! k) = Inl RecoveryTooLong"
        have "control_run m (take (Suc k) (i # is)) = Inr (replicate (Suc k) (recovery_hold r (mc_state m)), m')"
          using one h(3) by simp
        then show ?thesis using h none[of "Suc k"]
          by (intro disjI2 exI[of _ "Suc k"] exI[of _ m'] conjI) (simp_all add: less_Suc_eq_le)
      qed
    next
      case False
      then have "control_step m i = Inl RecoveryTooLong"
        using Cons.prems(2) r stay p(2) dur by (auto simp: step d want released_def Let_def)
      then show ?thesis using False stay p(2) by (intro disjI2 exI[of _ 0] exI[of _ m]) simp
    qed
  qed
qed

lemma reentry_run:
  assumes ok: "cycle_ok parser p"
  shows "machine_inv p m \<Longrightarrow> \<not> mc_recovery_active m \<Longrightarrow> control_run m is = Inr (ds, m2) \<Longrightarrow>
    k < length ds \<Longrightarrow> int k < mc_reentry_remaining m \<Longrightarrow> \<not> dc_recovery_entered (ds ! k)"
proof (induction "is" arbitrary: m ds k)
  case (Cons i "is")
  obtain d m1 ds' where s: "control_step m i = Inr (d, m1)" "control_run m1 is = Inr (ds', m2)" "ds = d # ds'"
    using Cons.prems(3) by (rule control_run_ConsE)
  obtain m0 where d: "decide m (fst i) (snd i) = Inr (d, m0)" "m1 = advance m0" using s(1) by (rule control_stepE)
  have "\<not> dc_recovery_entered d \<and> \<not> mc_recovery_active m0 \<and> mc_reentry_remaining m0 = mc_reentry_remaining m"
    using ok Cons.prems(1) d(1)
  proof (cases rule: decide_cases)
    case (blocked r s')
    then show ?thesis using Cons.prems(2) by (simp add: unchanged_def)
  next
    case (ordinarily s')
    then show ?thesis using ordinary_inv[OF ok Cons.prems(1) machine_signals_complete[OF ordinarily(2)] ordinarily(4)] by simp
  qed (use Cons.prems in simp_all)
  moreover have "machine_inv p m1" by (rule control_step_inv[OF ok Cons.prems(1) s(1)])
  ultimately show ?case
    using Cons.IH[of m1 ds' "k - 1"] Cons.prems s d(2) by (cases k) auto
qed simp

section \<open>An example run\<close>

definition walk_signals :: "rat \<Rightarrow> int \<Rightarrow> int \<Rightarrow> (string \<times> pyval) list \<times> bool" where
  "walk_signals v z dwell = ([(''t'', PFloat (Fin 0)), (''v_x'', PFloat (Fin v)), (''v_target'', PInt 2), (''z_root'', PInt z),
     (''torso_up'', PInt 1), (''x_travelled'', PInt 0), (''dwell'', PInt dwell)], True)"

text \<open>A transition to \<open>run\<close>, a fall, three steps of recovery, and three steps after it.\<close>

definition walk_inputs :: "((string \<times> pyval) list \<times> bool) list" where
  "walk_inputs = [walk_signals 2 1 0, walk_signals 2 0 1, walk_signals 2 0 1, walk_signals 2 0 2, walk_signals 2 1 3,
     walk_signals 2 0 1, walk_signals 2 0 2, walk_signals 2 0 3]"

definition walk_start :: machine where
  "walk_start = (case mk_machine walk_oracle of Inr m \<Rightarrow> m | Inl _ \<Rightarrow> undefined)"

definition walk_at :: "nat \<Rightarrow> machine" where
  "walk_at n = (case control_run walk_start (take n walk_inputs) of Inr (_, m) \<Rightarrow> m | Inl _ \<Rightarrow> undefined)"

definition walk_decisions :: "decision list" where
  "walk_decisions = (case control_run walk_start walk_inputs of Inr (ds, _) \<Rightarrow> ds | Inl _ \<Rightarrow> [])"

lemma control_run_reachable: "machine_reachable p m \<Longrightarrow> control_run m is = Inr (ds, m') \<Longrightarrow> machine_reachable p m'"
  by (induction "is" arbitrary: m ds) (auto intro: machine_reachable.step)

lemma walk_start_reachable: "machine_reachable walk_oracle walk_start"
proof (rule machine_reachable.start)
  have "\<exists>m. mk_machine walk_oracle = Inr m" by (simp add: mk_machine_def walk_oracle_def)
  then show "mk_machine walk_oracle = Inr walk_start" by (auto simp: walk_start_def)
qed

lemma control_run_append: "control_run m (is @ js) = bindE (control_run m is) (\<lambda>(ds, m').
    bindE (control_run m' js) (\<lambda>(es, m''). Inr (ds @ es, m'')))"
  by (induction "is" arbitrary: m) (auto simp: bindE_def split: sum.splits prod.splits)

lemma walk_reasons: "map dc_reason walk_decisions = [TransitionPriority 0, RecoveryGuard, RecoveryHold, RecoveryHold,
    RecoveryRejoin, RecoveryReentryDwell, RecoveryReentryDwell, RecoveryGuard]"
  by code_simp

lemma walk_at_run: "\<exists>ds. control_run walk_start (take n walk_inputs) = Inr (ds, walk_at n)"
  and walk_rest_run: "\<exists>m. control_run (walk_at n) (drop n walk_inputs) = Inr (drop n walk_decisions, m)"
proof -
  obtain m where m: "control_run walk_start walk_inputs = Inr (walk_decisions, m)"
    using walk_reasons by (auto simp: walk_decisions_def split: sum.splits)
  have len: "control_run m is = Inr (ds, m') \<Longrightarrow> length ds = length is" for m "is" ds m'
    by (induction "is" arbitrary: m ds) auto
  have "bindE (control_run walk_start (take n walk_inputs)) (\<lambda>(ds, m'). bindE (control_run m' (drop n walk_inputs))
      (\<lambda>(es, m''). Inr (ds @ es, m''))) = Inr (walk_decisions, m)"
    using control_run_append[of walk_start "take n walk_inputs" "drop n walk_inputs"] m by simp
  then obtain ds m1 es m2 where e: "control_run walk_start (take n walk_inputs) = Inr (ds, m1)"
      "control_run m1 (drop n walk_inputs) = Inr (es, m2)" "walk_decisions = ds @ es" by auto
  then show "\<exists>ds. control_run walk_start (take n walk_inputs) = Inr (ds, walk_at n)" by (simp add: walk_at_def)
  have "drop n walk_decisions = es" using len[OF e(1)] len[OF e(2)] unfolding e(3) by (cases "n \<le> length walk_inputs") auto
  then show "\<exists>m. control_run (walk_at n) (drop n walk_inputs) = Inr (drop n walk_decisions, m)"
    using e by (simp add: walk_at_def)
qed

lemma walk_at_reachable: "machine_reachable walk_oracle (walk_at n)"
  using walk_at_run[of n] control_run_reachable[OF walk_start_reachable] by blast

definition walk_checked :: "nat \<Rightarrow> (string \<times> pyval) list" where
  "walk_checked n = (case machine_signals (mc_dwell (walk_at n)) (fst (walk_inputs ! n)) of Inr s \<Rightarrow> s | Inl _ \<Rightarrow> [])"

lemma walk_decides:
  assumes "n < length walk_inputs"
  shows "\<exists>m. decide (walk_at n) (fst (walk_inputs ! n)) (snd (walk_inputs ! n)) = Inr (walk_decisions ! n, m)"
    and "machine_signals (mc_dwell (walk_at n)) (fst (walk_inputs ! n)) = Inr (walk_checked n)"
proof -
  obtain m where "control_run (walk_at n) (walk_inputs ! n # drop (Suc n) walk_inputs) = Inr (drop n walk_decisions, m)"
    using walk_rest_run[of n] unfolding Cons_nth_drop_Suc[OF assms] by blast
  then obtain d m1 ds where s: "control_step (walk_at n) (walk_inputs ! n) = Inr (d, m1)" "drop n walk_decisions = d # ds"
    by (rule control_run_ConsE)
  then have "d = walk_decisions ! n" by (metis append_Cons append_Nil drop_eq_Nil hd_drop_conv_nth list.distinct(1) list.sel(1) not_less)
  then show d: "\<exists>m. decide (walk_at n) (fst (walk_inputs ! n)) (snd (walk_inputs ! n)) = Inr (walk_decisions ! n, m)"
    using s(1) by (metis control_stepE)
  then show "machine_signals (mc_dwell (walk_at n)) (fst (walk_inputs ! n)) = Inr (walk_checked n)"
    by (auto simp: walk_checked_def dest: decide_signals)
qed

section \<open>Properties\<close>

lemma decide_entered:
  assumes "cycle_ok parser p" "machine_inv p m" "decide m signals allow = Inr (d, m')" "dc_recovery_entered d"
  obtains r where "cy_recovery p = Some r" "(d, m') = enter_recovery r m" "mc_reentry_remaining m = 0"
  using assms(1-3)
proof (cases rule: decide_cases)
  case (ordinarily s)
  then show thesis
    using assms(4) ordinary_inv[OF assms(1,2) machine_signals_complete[OF ordinarily(2)] ordinarily(4)] by simp
qed (use assms(4) that in \<open>auto simp: unchanged_def rejoined_def Let_def\<close>)

lemma decide_exited:
  assumes "cycle_ok parser p" "machine_inv p m" "decide m signals allow = Inr (d, m')" "dc_recovery_exited d"
  obtains r where "cy_recovery p = Some r" "(d, m') = rejoined r m"
  using assms(1-3)
proof (cases rule: decide_cases)
  case (ordinarily s)
  then show thesis
    using assms(4) ordinary_inv[OF assms(1,2) machine_signals_complete[OF ordinarily(2)] ordinarily(4)] by simp
qed (use assms(4) that in \<open>auto simp: unchanged_def enter_recovery_def Let_def\<close>)

text \<open>
  C10. Every machine that decisions and \<open>advance\<close> lead to satisfies the invariant: its state is
  declared, outside a recovery it runs the controller of its state, during a recovery it runs the
  recovery controller for at most the maximal duration, and the re-entry count is within its
  bound.
\<close>

theorem machine_invariant:
  assumes "cycle_ok parser p" "machine_reachable p m"
  shows "machine_inv p m"
  using control_reachable_inv[OF assms] .

theorem machine_invariant_witness: "machine_inv walk_oracle (walk_at 4)"
  by (rule machine_invariant[OF walk_oracle_ok walk_at_reachable])

text \<open>
  C9. A decision of a reachable machine fails exactly when its signals are refused (a wrong
  dwell, a missing or non-finite signal) or the recovery guard still holds after the maximal
  duration; guards and look-ups never fail.
\<close>

theorem machine_failures:
  assumes "cycle_ok parser p" "machine_reachable p m"
  shows "decide m signals allow = Inl e \<longleftrightarrow> machine_signals (mc_dwell m) signals = Inl e \<or>
    (\<exists>s r. machine_signals (mc_dwell m) signals = Inr s \<and> cy_recovery p = Some r \<and> mc_recovery_active m \<and>
      guard_denotes (r_guard r) s \<and> mc_recovery_elapsed m = r_max_duration r \<and> e = RecoveryTooLong)"
proof -
  note inv = control_reachable_inv[OF assms]
  show ?thesis
  proof (cases "machine_signals (mc_dwell m) signals")
    case (Inl e')
    then show ?thesis by (auto simp: decide_def)
  next
    case (Inr s)
    have o: "ordinary m s allow \<noteq> Inl e" by (simp add: ordinary_spec[OF assms(1) inv machine_signals_complete[OF Inr]])
    show ?thesis
      using inv o unfolding decide_spec[OF assms(1) inv Inr]
      by (auto simp: Inr Let_def machine_inv_def recovery_wanted_def split: option.splits if_splits)
  qed
qed

theorem machine_failures_witness:
  "decide (walk_at 4) (fst (walk_signals 2 0 3)) True = Inl RecoveryTooLong"
proof -
  define s where "s = (case machine_signals (mc_dwell (walk_at 4)) (fst (walk_signals 2 0 3)) of Inr s \<Rightarrow> s | Inl _ \<Rightarrow> [])"
  define r where "r = the (cy_recovery walk_oracle)"
  have "machine_signals (mc_dwell (walk_at 4)) (fst (walk_signals 2 0 3)) = Inr s" "mc_recovery_active (walk_at 4)"
    unfolding s_def by code_simp+
  moreover have "guard_denotes (r_guard r) s" "mc_recovery_elapsed (walk_at 4) = r_max_duration r"
    unfolding s_def r_def by code_simp+
  moreover have "cy_recovery walk_oracle = Some r" by (simp add: walk_oracle_def r_def)
  ultimately show ?thesis unfolding machine_failures[OF walk_oracle_ok walk_at_reachable] by blast
qed

text \<open>
  Outside a recovery, when the recovery guard does not hold, a decision takes a transition
  exactly when transitions are allowed, the state has dwelt long enough and some outgoing
  guard holds, and then it takes an enabled transition of least priority.
\<close>

lemma transition_least_priority:
  assumes "cycle_ok parser p" "machine_reachable p m" "machine_signals (mc_dwell m) signals = Inr s"
    and "\<not> mc_recovery_active m" "\<not> recovery_wanted p s" "decide m signals allow = Inr (d, m')"
  shows "(dc_transition d \<longleftrightarrow> allow \<and> dwelt m \<and> enabled_transitions m s \<noteq> []) \<and>
    (dc_transition d \<longrightarrow> (\<exists>t \<in> set (enabled_transitions m s).
      (\<forall>u \<in> set (enabled_transitions m s). t_priority t \<le> t_priority u) \<and> (d, m') = take_transition m t))"
proof -
  have "machine_inv p m" by (rule control_reachable_inv[OF assms(1,2)])
  note d = decide_spec[OF assms(1) this assms(3)] and o = ordinary_spec[OF assms(1) this machine_signals_complete[OF assms(3)]]
  have e: "Inr (d, m') = ordinary m s allow" using assms(4-6) by (simp add: d)
  show ?thesis
  proof (cases "sort_key t_priority (enabled_transitions m s)")
    case Nil
    then have "enabled_transitions m s = []" by (metis length_0_conv length_sort)
    then show ?thesis using e by (auto simp: o unchanged_def split: if_splits)
  next
    case (Cons t ts)
    have "sorted (map t_priority (t # ts))" by (metis Cons sorted_sort_key)
    moreover have set: "set (enabled_transitions m s) = set (t # ts)" by (metis Cons set_sort)
    ultimately have "t \<in> set (enabled_transitions m s)" "\<forall>u \<in> set (enabled_transitions m s). t_priority t \<le> t_priority u" by auto
    moreover have "if allow \<and> dwelt m then (d, m') = take_transition m t else \<not> dc_transition d"
      using e by (auto simp: o Cons unchanged_def)
    moreover have "(d, m') = take_transition m t \<Longrightarrow> dc_transition d" by (simp add: take_transition_def Let_def)
    ultimately show ?thesis by (auto split: if_splits)
  qed
qed

lemma transition_least_priority_witness: "dc_transition (walk_decisions ! 0)"
proof -
  obtain m where m: "decide (walk_at 0) (fst (walk_inputs ! 0)) (snd (walk_inputs ! 0)) = Inr (walk_decisions ! 0, m)"
    and s: "machine_signals (mc_dwell (walk_at 0)) (fst (walk_inputs ! 0)) = Inr (walk_checked 0)"
    using walk_decides[of 0] by (auto simp: walk_inputs_def)
  have c: "\<not> mc_recovery_active (walk_at 0)" "\<not> recovery_wanted walk_oracle (walk_checked 0)" by code_simp+
  have "snd (walk_inputs ! 0) \<and> dwelt (walk_at 0) \<and> enabled_transitions (walk_at 0) (walk_checked 0) \<noteq> []" by code_simp
  then show ?thesis using transition_least_priority[OF walk_oracle_ok walk_at_reachable s c m] by blast
qed

text \<open>
  C8. A recovery does not last: whatever readings follow its entry, it ends at the first step of it at which
  the minimal dwell is over and the recovery guard no longer holds; the machine is then back in the suspended
  state with that state's controller, and until then it keeps the state and runs the recovery controller.  If
  there is no such step up to the maximal duration, the decision at the maximal duration is refused, so no
  recovery goes on longer.
\<close>

theorem recovery_ends:
  assumes "cycle_ok parser p" "machine_reachable p m" "cy_recovery p = Some r"
    and "control_step m i = Inr (d, m1)" "dc_recovery_entered d"
    and "\<forall>j < length is. machine_signals (1 + int j) (fst (is ! j)) = Inr (s j)" "r_max_duration r \<le> int (length is)"
  shows "(\<exists>k x m2. 1 + int k \<le> r_max_duration r \<and> released r (s k) (1 + int k) \<and> (\<forall>j < k. \<not> released r (s j) (1 + int j)) \<and>
       control_run m1 (take (Suc k) is) = Inr (replicate k (recovery_hold r (mc_state m)) @ [x], m2) \<and> dc_recovery_exited x \<and>
       dc_state x = mc_state m \<and> dc_behavior x = behavior_of p (mc_state m) \<and>
       \<not> mc_recovery_active m2 \<and> mc_behavior m2 = behavior_of p (mc_state m)) \<or>
    (\<exists>k m2. 1 + int k = r_max_duration r \<and> (\<forall>j \<le> k. \<not> released r (s j) (1 + int j)) \<and>
       control_run m1 (take k is) = Inr (replicate k (recovery_hold r (mc_state m)), m2) \<and> control_step m2 (is ! k) = Inl RecoveryTooLong)"
proof -
  note inv = control_reachable_inv[OF assms(1,2)]
  obtain m0 where d: "decide m (fst i) (snd i) = Inr (d, m0)" "m1 = advance m0" using assms(4) by (rule control_stepE)
  obtain r' where r': "cy_recovery p = Some r'" "(d, m0) = enter_recovery r' m"
    using assms(1) inv d(1) assms(5) by (rule decide_entered)
  then have m1: "mc_recovery_active m1" "mc_recovery_elapsed m1 = 1" "mc_dwell m1 = 1" "mc_state m1 = mc_state m"
    using d(2) by (simp_all add: enter_recovery_def)
  have readings: "\<forall>j < length is. machine_signals (mc_dwell m1 + int j) (fst (is ! j)) = Inr (s j)"
    using assms(6) by (simp add: m1)
  have shift: "int k \<le> r_max_duration r - 1 \<longleftrightarrow> 1 + int k \<le> r_max_duration r" "int k = r_max_duration r - 1 \<longleftrightarrow> 1 + int k = r_max_duration r" for k
    by auto
  have len: "r_max_duration r - mc_recovery_elapsed m1 < int (length is)" using assms(7) m1(2) by simp
  from recovery_course[OF assms(1,3) control_step_inv[OF assms(1) inv assms(4)] m1(1) readings len]
  show ?thesis unfolding m1(2,4) shift .
qed

theorem recovery_ends_witness:
  "\<exists>m1 m2 x y. control_step (walk_at 1) (walk_inputs ! 1) = Inr (walk_decisions ! 1, m1) \<and>
     control_run m1 (take 3 (drop 2 walk_inputs)) = Inr ([x, x, y], m2) \<and> dc_reason x = RecoveryHold \<and> dc_recovery_exited y \<and>
     control_run m1 [walk_signals 2 0 1, walk_signals 2 0 2, walk_signals 2 0 3] = Inl RecoveryTooLong"
proof -
  obtain m1 where one: "control_step (walk_at 1) (walk_inputs ! 1) = Inr (walk_decisions ! 1, m1)"
    using walk_decides(1)[of 1] by (auto simp: walk_inputs_def control_step_def split_beta)
  have e: "dc_recovery_entered (walk_decisions ! 1)" by code_simp
  define r where "r = the (cy_recovery walk_oracle)"
  have r: "cy_recovery walk_oracle = Some r" "r_max_duration r = 3" by (simp_all add: r_def walk_oracle_def)
  define read where "read z j = (case machine_signals (1 + int j) (fst (walk_signals 2 (if j = 2 then z else 0) (1 + int j))) of Inr s \<Rightarrow> s | Inl _ \<Rightarrow> [])"
    for z :: int and j :: nat
  let ?is = "\<lambda>z. [walk_signals 2 0 1, walk_signals 2 0 2, walk_signals 2 z 3]"
  have readings: "\<forall>j < length (?is z). machine_signals (1 + int j) (fst (?is z ! j)) = Inr (read z j)" if "z \<in> {0, 1}" for z
  proof (intro allI impI)
    fix j assume that': "j < length (?is z)"
    have "list_all (\<lambda>z. list_all (\<lambda>j. machine_signals (1 + int j) (fst (?is z ! j)) =
        Inr (case machine_signals (1 + int j) (fst (walk_signals 2 (if j = 2 then z else 0) (1 + int j))) of Inr s \<Rightarrow> s | Inl _ \<Rightarrow> [])) [0, 1, 2]) [0, 1]"
      by code_simp
    moreover have "j \<in> {0, 1, 2}" using that' by auto
    ultimately show "machine_signals (1 + int j) (fst (?is z ! j)) = Inr (read z j)" using that unfolding read_def list_all_iff by auto
  qed
  have r1: "\<forall>j < length (?is 1). machine_signals (1 + int j) (fst (?is 1 ! j)) = Inr (read 1 j)"
    and r0: "\<forall>j < length (?is 0). machine_signals (1 + int j) (fst (?is 0 ! j)) = Inr (read 0 j)" by (rule readings, simp)+
  have rel: "\<not> released r (read z 0) 1" "\<not> released r (read z 1) 2" "\<not> released r (read 0 2) 3" "released r (read 1 2) 3" if "z \<in> {0, 1}" for z
    using that unfolding r_def read_def by (auto; code_simp)+
  have cases: "n < 3 \<Longrightarrow> n = 0 \<or> n = 1 \<or> n = 2" for n :: nat by auto
  have len: "r_max_duration r \<le> int (length (?is z))" for z by (simp add: r(2))
  have "\<exists>m2 x y. control_run m1 (?is 1) = Inr ([x, x, y], m2) \<and> dc_reason x = RecoveryHold \<and> dc_recovery_exited y"
    using recovery_ends[OF walk_oracle_ok walk_at_reachable r(1) one e r1 len, unfolded r(2)]
  proof (elim disjE exE conjE)
    fix k y m2
    assume k: "1 + int k \<le> 3" "released r (read 1 k) (1 + int k)" "dc_recovery_exited y"
      and run: "control_run m1 (take (Suc k) (?is 1)) = Inr (replicate k (recovery_hold r (mc_state (walk_at 1))) @ [y], m2)"
    have "k = 2" using cases[of k] k rel[of 1] by auto
    then show ?thesis using run k(3) by (auto simp: numeral_2_eq_2 recovery_hold_def simp del: control_run.simps)
  next
    fix k assume "1 + int k = 3" "\<forall>j \<le> k. \<not> released r (read 1 j) (1 + int j)"
    then show ?thesis using rel(4)[of 1] by auto
  qed
  moreover have "control_run m1 (?is 0) = Inl RecoveryTooLong"
    using recovery_ends[OF walk_oracle_ok walk_at_reachable r(1) one e r0 len, unfolded r(2)]
  proof (elim disjE exE conjE)
    fix k assume "1 + int k \<le> 3" "released r (read 0 k) (1 + int k)"
    then show ?thesis using cases[of k] rel[of 0] by auto
  next
    fix k m2
    assume k: "1 + int k = 3" and run: "control_run m1 (take k (?is 0)) = Inr (replicate k (recovery_hold r (mc_state (walk_at 1))), m2)"
      "control_step m2 (?is 0 ! k) = Inl RecoveryTooLong"
    have "k = 2" using k by auto
    then show ?thesis using run control_run_append[of m1 "take 2 (?is 0)" "drop 2 (?is 0)"] by (simp del: control_run.simps(2)) simp
  qed
  moreover have "take 3 (drop 2 walk_inputs) = ?is 1" by (simp add: walk_inputs_def)
  ultimately show ?thesis using one by metis
qed


text \<open>
  C11. After a recovery ends, none of the next \<open>reentry_dwell\<close> decisions enters a recovery again.
\<close>

theorem reentry_suppressed:
  assumes "cycle_ok parser p" "machine_reachable p m" "cy_recovery p = Some r"
    and "control_run m (i # is) = Inr (d # ds, m')" "dc_recovery_exited d"
    and "k < length ds" "int k < r_reentry_dwell r"
  shows "\<not> dc_recovery_entered (ds ! k)"
proof -
  note inv = control_reachable_inv[OF assms(1,2)]
  from assms(4) obtain m1 where s: "control_step m i = Inr (d, m1)" "control_run m1 is = Inr (ds, m')"
    by (auto elim!: control_run_ConsE)
  obtain m0 where d: "decide m (fst i) (snd i) = Inr (d, m0)" "m1 = advance m0" using s(1) by (rule control_stepE)
  obtain r' where r': "cy_recovery p = Some r'" "(d, m0) = rejoined r' m"
    using assms(1) inv d(1) assms(5) by (rule decide_exited)
  then have m1: "\<not> mc_recovery_active m1" "mc_reentry_remaining m1 = r_reentry_dwell r"
    using d(2) assms(3) recovery_declared[OF assms(1,3)] by (simp_all add: rejoined_def Let_def)
  from reentry_run[OF assms(1) control_step_inv[OF assms(1) inv s(1)] m1(1) s(2) assms(6)] assms(7) m1(2)
  show ?thesis by simp
qed

theorem reentry_suppressed_witness: "\<not> dc_recovery_entered (drop 5 walk_decisions ! 1)"
proof -
  obtain m where "control_run (walk_at 4) (drop 4 walk_inputs) = Inr (drop 4 walk_decisions, m)" using walk_rest_run by blast
  moreover have "drop 4 walk_inputs = walk_inputs ! 4 # drop 5 walk_inputs" by (simp add: walk_inputs_def)
  moreover have "length walk_decisions = 8" using arg_cong[OF walk_reasons, of length] by simp
  then have "drop 4 walk_decisions = walk_decisions ! 4 # drop 5 walk_decisions" "length (drop 5 walk_decisions) = 3"
    using Cons_nth_drop_Suc[of 4 walk_decisions] by (simp_all add: eval_nat_numeral)
  ultimately have r: "control_run (walk_at 4) (walk_inputs ! 4 # drop 5 walk_inputs) = Inr (walk_decisions ! 4 # drop 5 walk_decisions, m)"
    and l: "1 < length (drop 5 walk_decisions)" by simp_all
  have e: "dc_recovery_exited (walk_decisions ! 4)" by code_simp
  have c: "cy_recovery walk_oracle = Some (the (cy_recovery walk_oracle))" "int 1 < r_reentry_dwell (the (cy_recovery walk_oracle))"
    by (simp_all add: walk_oracle_def)
  show ?thesis by (rule reentry_suppressed[OF walk_oracle_ok walk_at_reachable c(1) r e l c(2)])
qed

text \<open>
  What a decision reports is what the machine does: state and controller are those of the
  machine afterwards, \<open>controller_switched\<close> says whether the controller changed, the state
  changes only in a transition, and at most one of transition, entry and exit happens.
\<close>

lemma decision_reports:
  assumes "cycle_ok parser p" "machine_reachable p m" "decide m signals allow = Inr (d, m')"
  shows "dc_state d = mc_state m' \<and> dc_behavior d = mc_behavior m' \<and>
    (dc_switched d \<longleftrightarrow> mc_behavior m' \<noteq> mc_behavior m) \<and> (\<not> dc_transition d \<longrightarrow> mc_state m' = mc_state m) \<and>
    (dc_transition d \<longrightarrow> \<not> dc_recovery_entered d \<and> \<not> dc_recovery_exited d) \<and>
    \<not> (dc_recovery_entered d \<and> dc_recovery_exited d)"
  using assms(1) control_reachable_inv[OF assms(1,2)] assms(3)
proof (cases rule: decide_cases)
  case (ordinarily s)
  note c = machine_signals_complete[OF ordinarily(2)]
  have "\<not> dc_transition d \<longrightarrow> mc_state m' = mc_state m"
    using ordinarily(4) unfolding ordinary_spec[OF assms(1) control_reachable_inv[OF assms(1,2)] c]
    by (auto simp: take_transition_def Let_def split: if_splits list.splits)
  then show ?thesis using ordinary_inv[OF assms(1) control_reachable_inv[OF assms(1,2)] c ordinarily(4)] by simp
qed (simp_all add: unchanged_def rejoined_def enter_recovery_def Let_def)

lemma decision_reports_witness: "dc_switched (walk_decisions ! 1) \<and> \<not> dc_transition (walk_decisions ! 1)"
proof -
  obtain m where m: "decide (walk_at 1) (fst (walk_inputs ! 1)) (snd (walk_inputs ! 1)) = Inr (walk_decisions ! 1, m)"
    using walk_decides[of 1] by (auto simp: walk_inputs_def)
  have "dc_behavior (walk_decisions ! 1) \<noteq> mc_behavior (walk_at 1)" "dc_recovery_entered (walk_decisions ! 1)" by code_simp+
  then show ?thesis using decision_reports[OF walk_oracle_ok walk_at_reachable m] by auto
qed

end
