(* ===== verification/HarnessInputs.thy ===== *)
theory HarnessInputs
  imports CycleContract RewardContract
begin

text \<open>
  The frozen inputs of a cycle, \<^verbatim>\<open>src/oracle_composition/harness/inputs.py\<close>: the field readers, the
  library manifest, the task specification, and their readers.  The files are read elsewhere:
  a reader takes the bytes, decodes them with \<open>decode_json_object\<close> and digests them.  \<open>library_ok\<close>
  and \<open>task_ok\<close> specify what is accepted.
\<close>

section \<open>Constants and errors\<close>

definition LIBRARY_MANIFEST_ID :: string where "LIBRARY_MANIFEST_ID = ''humanoid_three_actor_library/v1''"
definition TASK_SPEC_ID :: string where "TASK_SPEC_ID = ''humanoid_speed_profile_t1/v1''"

text \<open>
  \<open>EmptyCandidates\<close> is the \<open>ValueError\<close> of \<open>max\<close> on an empty dictionary, and \<open>UncoveredStep\<close> the
  \<open>AssertionError\<close> of \<open>target_at\<close>; all others are \<open>InputContractError\<close>.
\<close>

datatype input_error =
    InputJson json_error | InputKeys string | InputKey string | NotName string | NotText string | NotInteger string
  | NumberType string | NumberFinite string | NotDigest string | NotRelative string
  | QuantilesUnordered string | IqrDisagrees string | FallSeedsArray string | FallSeedsUnique string | FallRateDisagrees string
  | LibraryIdentity | LibraryClass | SourceKeys | BehaviorsArray | BehaviorNames | UndefinedBehavior string
  | RuntimeDiffers | CadenceDiffers
  | TaskIdentity | TaskClass | LibraryUnbound | EvaluationDiffers | SeedsArray | SeedsUnique | OracleIdsArray | OracleIdsDiffer
  | ScheduleArray | ScheduleOrder | ScheduleHorizon
  | SlowRule | CandidatesArray | CandidateRepeated | CandidateDisagrees | EmptyCandidates | ChosenNotFarthest | ProfileDiffers
  | TargetStep | UncoveredStep

section \<open>Field readers\<close>

definition exact_dict :: "string list \<Rightarrow> string \<Rightarrow> pyval \<Rightarrow> input_error + (string \<times> pyval) list" where
  "exact_dict keys field v = (case v of
       PDict d \<Rightarrow> if keys_are keys d then Inr d else Inl (InputKeys field)
     | _ \<Rightarrow> Inl (InputKeys field))"

text \<open>\<open>item[key]\<close>, on a dictionary whose keys have been checked.\<close>

definition key_at :: "(string \<times> pyval) list \<Rightarrow> string \<Rightarrow> input_error + pyval" where
  "key_at d k = (case dict_get d k of None \<Rightarrow> Inl (InputKey k) | Some v \<Rightarrow> Inr v)"

definition name_value :: "string \<Rightarrow> pyval \<Rightarrow> input_error + string" where
  "name_value field v = (case v of PStr s \<Rightarrow> if is_name s then Inr s else Inl (NotName field) | _ \<Rightarrow> Inl (NotName field))"

definition text_value :: "nat \<Rightarrow> string \<Rightarrow> pyval \<Rightarrow> input_error + string" where
  "text_value maximum field v = (case v of
       PStr s \<Rightarrow> if strip s = [] \<or> maximum < length s then Inl (NotText field) else Inr s
     | _ \<Rightarrow> Inl (NotText field))"

definition integer_value :: "int \<Rightarrow> int \<Rightarrow> string \<Rightarrow> pyval \<Rightarrow> input_error + int" where
  "integer_value minimum maximum field v = (case v of
       PInt n \<Rightarrow> if minimum \<le> n \<and> n \<le> maximum then Inr n else Inl (NotInteger field)
     | _ \<Rightarrow> Inl (NotInteger field))"

definition number_value :: "string \<Rightarrow> pyval \<Rightarrow> input_error + f64" where
  "number_value field v = (case read_number v of
       NotNumeric \<Rightarrow> Inl (NumberType field)
     | Overflow \<Rightarrow> Inl (NumberFinite field)
     | Number f \<Rightarrow> if is_finite f then Inr f else Inl (NumberFinite field))"

definition digest_value :: "string \<Rightarrow> pyval \<Rightarrow> input_error + string" where
  "digest_value field v = (case v of PStr s \<Rightarrow> if hex_digest s then Inr s else Inl (NotDigest field) | _ \<Rightarrow> Inl (NotDigest field))"

text \<open>\<open>Path(text)\<close> on a POSIX system: the components between slashes, without empty ones and \<open>.\<close>.\<close>

fun split_slash :: "string \<Rightarrow> string list" where
  "split_slash [] = [[]]"
| "split_slash (c # cs) = (if c = CHR ''/'' then [] # split_slash cs
     else case split_slash cs of [] \<Rightarrow> [[c]] | p # ps \<Rightarrow> (c # p) # ps)"

definition path_parts :: "string \<Rightarrow> string list" where
  "path_parts text = filter (\<lambda>p. p \<noteq> [] \<and> p \<noteq> ''.'') (split_slash text)"

definition path_absolute :: "string \<Rightarrow> bool" where
  "path_absolute text \<longleftrightarrow> (case text of c # _ \<Rightarrow> c = CHR ''/'' | [] \<Rightarrow> False)"

text \<open>\<open>as_posix\<close> of a relative path.\<close>

definition path_posix :: "string \<Rightarrow> string" where
  "path_posix text = (case path_parts text of [] \<Rightarrow> ''.'' | ps \<Rightarrow> join ''/'' ps)"

definition path_value :: "string \<Rightarrow> pyval \<Rightarrow> input_error + string" where
  "path_value field v = bindE (text_value 512 field v) (\<lambda>text.
     if path_absolute text \<or> ''..'' \<in> set (path_parts text) \<or> text \<noteq> path_posix text then Inl (NotRelative field)
     else Inr text)"

section \<open>Data\<close>

record artifact_binding =
  ab_path :: string
  ab_sha256 :: string

record speed_statistics =
  sp_clips :: int
  sp_steps :: int
  sp_q1 :: f64
  sp_median :: f64
  sp_q3 :: f64
  sp_iqr :: f64

record fall_statistics =
  fa_episodes :: int
  fa_steps :: int
  fa_events :: int
  fa_rate :: f64
  fa_seeds :: "int list"

record behavior_entry =
  be_name :: string
  be_npz :: artifact_binding
  be_import :: artifact_binding
  be_equivalence :: artifact_binding
  be_speed :: speed_statistics
  be_falls :: fall_statistics

record library_manifest =
  lm_sources :: "(string \<times> artifact_binding) list"
  lm_behaviors :: "behavior_entry list"
  lm_sha256 :: string

definition behavior_names :: "library_manifest \<Rightarrow> string list" where
  "behavior_names lib = map be_name (lm_behaviors lib)"

definition library_behavior :: "library_manifest \<Rightarrow> string \<Rightarrow> input_error + behavior_entry" where
  "library_behavior lib name = (case find (\<lambda>e. be_name e = name) (lm_behaviors lib) of
       None \<Rightarrow> Inl (UndefinedBehavior name) | Some e \<Rightarrow> Inr e)"

record schedule_segment =
  sg_start :: int
  sg_stop :: int
  sg_target :: f64

record task_spec =
  tk_text :: string
  tk_horizon :: int
  tk_period :: f64
  tk_schedule :: "schedule_segment list"
  tk_seeds :: "int list"
  tk_oracle_ids :: "string list"
  tk_trace_directory :: string
  tk_slow :: string
  tk_library_sha256 :: string
  tk_sha256 :: string

definition target_at :: "task_spec \<Rightarrow> pyval \<Rightarrow> input_error + f64" where
  "target_at task step = (case step of
       PInt n \<Rightarrow> if 0 \<le> n \<and> n < tk_horizon task then
           (case find (\<lambda>g. sg_start g \<le> n \<and> n < sg_stop g) (tk_schedule task) of
              Some g \<Rightarrow> Inr (sg_target g) | None \<Rightarrow> Inl UncoveredStep)
         else Inl TargetStep
     | _ \<Rightarrow> Inl TargetStep)"

section \<open>The library manifest\<close>

definition read_binding :: "string \<Rightarrow> pyval \<Rightarrow> input_error + artifact_binding" where
  "read_binding field v = bindE (exact_dict [''path'', ''sha256''] field v) (\<lambda>item.
     bindE (key_at item ''path'') (\<lambda>p. bindE (path_value (field @ ''.path'') p) (\<lambda>path.
     bindE (key_at item ''sha256'') (\<lambda>s. bindE (digest_value (field @ ''.sha256'') s) (\<lambda>sha.
       Inr \<lparr>ab_path = path, ab_sha256 = sha\<rparr>)))))"

definition integer_at :: "(string \<times> pyval) list \<Rightarrow> string \<Rightarrow> int \<Rightarrow> int \<Rightarrow> string \<Rightarrow> input_error + int" where
  "integer_at d field minimum maximum key = bindE (key_at d key) (integer_value minimum maximum (field @ ''.'' @ key))"

definition number_at :: "(string \<times> pyval) list \<Rightarrow> string \<Rightarrow> string \<Rightarrow> input_error + f64" where
  "number_at d field key = bindE (key_at d key) (number_value (field @ ''.'' @ key))"

definition speed_keys :: "string list" where
  "speed_keys = [''admitted_clip_count'', ''admitted_step_count'', ''q1_m_s'', ''median_m_s'', ''q3_m_s'', ''iqr_m_s'']"

definition read_speed :: "string \<Rightarrow> pyval \<Rightarrow> input_error + speed_statistics" where
  "read_speed field v = bindE (exact_dict speed_keys field v) (\<lambda>item.
     bindE (integer_at item field 1 1000000 ''admitted_clip_count'') (\<lambda>clips.
     bindE (integer_at item field 1 1000000 ''admitted_step_count'') (\<lambda>steps.
     bindE (number_at item field ''q1_m_s'') (\<lambda>q1.
     bindE (number_at item field ''median_m_s'') (\<lambda>median.
     bindE (number_at item field ''q3_m_s'') (\<lambda>q3.
     bindE (number_at item field ''iqr_m_s'') (\<lambda>iqr.
       if \<not> (f64_le q1 median \<and> f64_le median q3) then Inl (QuantilesUnordered field)
       else if f64_lt iqr (Fin 0) \<or> \<not> isclose_abs iqr (f64_sub q3 q1) (f64_round (1 / 10 ^ 12)) then Inl (IqrDisagrees field)
       else Inr \<lparr>sp_clips = clips, sp_steps = steps, sp_q1 = q1, sp_median = median, sp_q3 = q3, sp_iqr = iqr\<rparr>)))))))"

definition fall_keys :: "string list" where
  "fall_keys = [''e3_episode_count'', ''e3_step_count'', ''fall_event_count'', ''falls_per_1000_steps'', ''fall_seeds'']"

text \<open>\<open>1000.0 * events / steps\<close>, where the number of steps is positive.\<close>

definition expected_fall_rate :: "int \<Rightarrow> int \<Rightarrow> f64" where
  "expected_fall_rate events steps = (case f64_div (f64_mul (Fin 1000) (Fin (of_int events))) (Fin (of_int steps)) of
       Some r \<Rightarrow> r | None \<Rightarrow> NaN)"

definition read_falls :: "string \<Rightarrow> pyval \<Rightarrow> input_error + fall_statistics" where
  "read_falls field v = bindE (exact_dict fall_keys field v) (\<lambda>item. bindE (key_at item ''fall_seeds'') (\<lambda>raw.
     case raw of
       PList raw_seeds \<Rightarrow> bindE (mapE (integer_value 0 2147483647 (field @ ''.fall_seeds'')) raw_seeds) (\<lambda>seeds.
         if \<not> distinct seeds then Inl (FallSeedsUnique field) else
         bindE (integer_at item field 1 1000000 ''e3_episode_count'') (\<lambda>episodes.
         bindE (integer_at item field 1 1000000 ''e3_step_count'') (\<lambda>steps.
         bindE (integer_at item field 0 1000000 ''fall_event_count'') (\<lambda>events.
         bindE (number_at item field ''falls_per_1000_steps'') (\<lambda>rate.
           if events \<noteq> int (length seeds) \<or> episodes < events
             \<or> \<not> isclose_abs rate (expected_fall_rate events steps) (f64_round (1 / 10 ^ 15)) then Inl (FallRateDisagrees field)
           else Inr \<lparr>fa_episodes = episodes, fa_steps = steps, fa_events = events, fa_rate = rate, fa_seeds = seeds\<rparr>)))))
     | _ \<Rightarrow> Inl (FallSeedsArray field)))"

definition entry_keys :: "string list" where
  "entry_keys = [''name'', ''strict_npz'', ''import_receipt'', ''equivalence_receipt'', ''speed_m_s'', ''e3_falls'']"

definition read_entry :: "nat \<times> pyval \<Rightarrow> input_error + behavior_entry" where
  "read_entry = (\<lambda>(index, raw). let field = ''behaviors['' @ nat_text index @ '']'' in
     bindE (exact_dict entry_keys field raw) (\<lambda>item.
     bindE (key_at item ''name'') (\<lambda>n. bindE (name_value (field @ ''.name'') n) (\<lambda>name.
     bindE (key_at item ''strict_npz'') (\<lambda>a. bindE (read_binding (field @ ''.strict_npz'') a) (\<lambda>npz.
     bindE (key_at item ''import_receipt'') (\<lambda>b. bindE (read_binding (field @ ''.import_receipt'') b) (\<lambda>imported.
     bindE (key_at item ''equivalence_receipt'') (\<lambda>c. bindE (read_binding (field @ ''.equivalence_receipt'') c) (\<lambda>equivalence.
     bindE (key_at item ''speed_m_s'') (\<lambda>s. bindE (read_speed (field @ ''.speed_m_s'') s) (\<lambda>speed.
     bindE (key_at item ''e3_falls'') (\<lambda>f. bindE (read_falls (field @ ''.e3_falls'') f) (\<lambda>falls.
       Inr \<lparr>be_name = name, be_npz = npz, be_import = imported, be_equivalence = equivalence,
            be_speed = speed, be_falls = falls\<rparr>))))))))))))))"

definition library_keys :: "string list" where
  "library_keys = [''schema_version'', ''manifest_id'', ''evidence_class'', ''source_evidence'', ''speed_measurement'',
     ''fall_measurement'', ''behaviors'']"

definition source_keys :: "string list" where
  "source_keys = [''corpus_manifest_v2'', ''e3_certificate_v2'', ''validation_manifest_v2'']"

definition read_source :: "string \<times> pyval \<Rightarrow> input_error + (string \<times> artifact_binding)" where
  "read_source = (\<lambda>(name, v). bindE (read_binding (''source_evidence.'' @ name) v) (\<lambda>b. Inr (name, b)))"

definition read_sources :: "pyval \<Rightarrow> input_error + (string \<times> artifact_binding) list" where
  "read_sources v = (case v of
       PDict d \<Rightarrow> if keys_are source_keys d then mapE read_source d else Inl SourceKeys
     | _ \<Rightarrow> Inl SourceKeys)"

definition read_entries :: "pyval \<Rightarrow> input_error + behavior_entry list" where
  "read_entries v = (case v of
       PList raw \<Rightarrow> if raw = [] then Inl BehaviorsArray else mapE read_entry (enum_from 0 raw)
     | _ \<Rightarrow> Inl BehaviorsArray)"

text \<open>\<open>item[key] != literal\<close> for some of the literals; the keys have been checked.\<close>

definition some_differs :: "(string \<times> pyval) list \<Rightarrow> (string \<times> pyval) list \<Rightarrow> bool" where
  "some_differs d literals = list_ex (\<lambda>(k, expected). case dict_get d k of
       Some v \<Rightarrow> \<not> py_eq v expected | None \<Rightarrow> True) literals"

definition read_library :: "string \<Rightarrow> pyval \<Rightarrow> input_error + library_manifest" where
  "read_library sha value = bindE (exact_dict library_keys ''library manifest'' value) (\<lambda>doc.
     if some_differs doc [(''schema_version'', PInt 1), (''manifest_id'', PStr LIBRARY_MANIFEST_ID)] then Inl LibraryIdentity
     else if some_differs doc [(''evidence_class'', PStr EVIDENCE_CLASS)] then Inl LibraryClass
     else bindE (key_at doc ''speed_measurement'') (\<lambda>m. bindE (text_value 4096 ''speed_measurement'' m) (\<lambda>_.
     bindE (key_at doc ''fall_measurement'') (\<lambda>n. bindE (text_value 4096 ''fall_measurement'' n) (\<lambda>_.
     bindE (key_at doc ''source_evidence'') (\<lambda>s. bindE (read_sources s) (\<lambda>sources.
     bindE (key_at doc ''behaviors'') (\<lambda>b. bindE (read_entries b) (\<lambda>entries.
       if \<not> distinct (map be_name entries) then Inl BehaviorNames
       else Inr \<lparr>lm_sources = sources, lm_behaviors = entries, lm_sha256 = sha\<rparr>)))))))))"

definition read_json_object :: "(string \<Rightarrow> json_text option) \<Rightarrow> string \<Rightarrow> input_error + pyval" where
  "read_json_object scanner encoded = (case decode_json_object scanner encoded of
       Inl e \<Rightarrow> Inl (InputJson e) | Inr d \<Rightarrow> Inr (PDict d))"

definition load_library_manifest :: "hasher \<Rightarrow> (string \<Rightarrow> json_text option) \<Rightarrow> string \<Rightarrow> input_error + library_manifest" where
  "load_library_manifest h scanner encoded =
     bindE (read_json_object scanner encoded) (read_library (sha256_hex h encoded))"

section \<open>The task specification\<close>

text \<open>\<open>int(v)\<close> of a number equal to 1000.\<close>

fun int_of_number :: "pyval \<Rightarrow> int" where
  "int_of_number (PInt n) = n"
| "int_of_number (PFloat (Fin q)) = (if 0 \<le> q then \<lfloor>q\<rfloor> else \<lceil>q\<rceil>)"
| "int_of_number (PBool b) = (if b then 1 else 0)"
| "int_of_number _ = 0"

definition runtime_literals :: "(string \<times> pyval) list" where
  "runtime_literals = [(''environment_id'', PStr ''Humanoid-v5''), (''terminate_when_unhealthy'', PBool False),
     (''time_limit_steps'', PInt 1000), (''frame_skip'', PInt 5), (''observation'', PStr ''stock_348d_excluding_root_xy''),
     (''stock_reward'', PStr ''untouched_descriptive_task_return_only'')]"

definition PHYSICS_TIMESTEP :: f64 where "PHYSICS_TIMESTEP = f64_round (3 / 1000)"
definition CONTROL_PERIOD :: f64 where "CONTROL_PERIOD = f64_round (15 / 1000)"

definition runtime_keys :: "string list" where
  "runtime_keys = [''environment_id'', ''terminate_when_unhealthy'', ''time_limit_steps'', ''frame_skip'',
     ''physics_timestep_seconds'', ''control_period_seconds'', ''observation'', ''stock_reward'']"

definition validate_runtime :: "pyval \<Rightarrow> input_error + (int \<times> f64)" where
  "validate_runtime v = bindE (exact_dict runtime_keys ''runtime'' v) (\<lambda>item.
     if some_differs item runtime_literals then Inl RuntimeDiffers
     else bindE (key_at item ''physics_timestep_seconds'') (\<lambda>a. bindE (number_value ''physics_timestep_seconds'' a) (\<lambda>timestep.
       bindE (key_at item ''control_period_seconds'') (\<lambda>b. bindE (number_value ''control_period_seconds'' b) (\<lambda>period.
         if \<not> f64_eq timestep PHYSICS_TIMESTEP \<or> \<not> f64_eq period CONTROL_PERIOD then Inl CadenceDiffers
         else bindE (key_at item ''time_limit_steps'') (\<lambda>n. Inr (int_of_number n, period)))))))"

definition evaluation_literals :: "(string \<times> pyval) list" where
  "evaluation_literals = [
     (''deterministic_actor_output'', PStr ''mean''),
     (''speed_quantity'', PStr ''root_x_sidecar_delta_over_0.015_s''),
     (''primary_metric'', PStr ''mean_absolute_speed_error_m_s''),
     (''aggregation'', PStr ''median_over_predeclared_seeds''),
     (''falls_excluded'', PBool False),
     (''fall_definition'', PStr ''z_root_outside_open_1.0_2.0_or_torso_up_below_0.5''),
     (''first_fall_step'', PStr ''boundary_index_0_reset_or_1_to_horizon_post_step''),
     (''task_return'', PStr ''sum_stock_reward_descriptive_only''),
     (''determinism_replay'', PStr ''repeat_first_oracle_all_seeds_and_require_equal_trace_hashes'')]"

definition evaluation_keys :: "string list" where
  "evaluation_keys = [''seeds'', ''episode_steps'', ''cycle_zero_oracle_ids''] @ map fst evaluation_literals"

definition CYCLE_ZERO_ORACLE_IDS :: "string list" where
  "CYCLE_ZERO_ORACLE_IDS = [''single_fast'', ''single_slow'', ''playback'', ''handwritten'']"

definition read_evaluation :: "pyval \<Rightarrow> input_error + (int \<times> int list \<times> string list)" where
  "read_evaluation v = bindE (exact_dict evaluation_keys ''evaluation'' v) (\<lambda>evaluation.
     if some_differs evaluation evaluation_literals then Inl EvaluationDiffers
     else bindE (integer_at evaluation ''evaluation'' 1 1000 ''episode_steps'') (\<lambda>horizon.
     bindE (key_at evaluation ''seeds'') (\<lambda>raw. case raw of
       PList raw_seeds \<Rightarrow> if raw_seeds = [] then Inl SeedsArray
         else bindE (mapE (integer_value 0 2147483647 ''evaluation.seed'') raw_seeds) (\<lambda>seeds.
           if 100 < length seeds \<or> \<not> distinct seeds then Inl SeedsUnique
           else bindE (key_at evaluation ''cycle_zero_oracle_ids'') (\<lambda>ids. case ids of
             PList raw_ids \<Rightarrow> bindE (mapE (name_value ''evaluation.cycle_zero_oracle_ids'') raw_ids) (\<lambda>oracle_ids.
               if oracle_ids \<noteq> CYCLE_ZERO_ORACLE_IDS then Inl OracleIdsDiffer else Inr (horizon, seeds, oracle_ids))
           | _ \<Rightarrow> Inl OracleIdsArray))
     | _ \<Rightarrow> Inl SeedsArray)))"

definition read_segment :: "nat \<times> pyval \<Rightarrow> int \<times> schedule_segment list \<Rightarrow> input_error + (int \<times> schedule_segment list)" where
  "read_segment = (\<lambda>(index, raw) (expected_start, schedule). let field = ''target_schedule['' @ nat_text index @ '']'' in
     bindE (exact_dict [''start'', ''stop'', ''target_m_s''] field raw) (\<lambda>segment.
     bindE (integer_at segment field 0 1000 ''start'') (\<lambda>start.
     bindE (integer_at segment field 1 1000 ''stop'') (\<lambda>stop.
       if start \<noteq> expected_start \<or> stop \<le> start then Inl ScheduleOrder
       else bindE (number_at segment field ''target_m_s'') (\<lambda>target.
         Inr (stop, schedule @ [\<lparr>sg_start = start, sg_stop = stop, sg_target = target\<rparr>]))))))"

definition read_schedule :: "int \<Rightarrow> pyval \<Rightarrow> input_error + schedule_segment list" where
  "read_schedule horizon v = (case v of
       PList raw \<Rightarrow> if raw = [] then Inl ScheduleArray
         else bindE (foldE read_segment (enum_from 0 raw) (0, [])) (\<lambda>(expected_start, schedule).
           if expected_start \<noteq> horizon then Inl ScheduleHorizon else Inr schedule)
     | _ \<Rightarrow> Inl ScheduleArray)"

text \<open>One candidate; the state is the dictionary \<open>candidate_deltas\<close> in insertion order.\<close>

definition read_candidate :: "library_manifest \<Rightarrow> behavior_entry \<Rightarrow> string \<Rightarrow> nat \<times> pyval \<Rightarrow> (string \<times> f64) list \<Rightarrow>
    input_error + (string \<times> f64) list" where
  "read_candidate lib expert expert_name = (\<lambda>(index, raw) deltas.
     let field = ''slow_selection.candidates['' @ nat_text index @ '']'' in
     bindE (exact_dict [''behavior'', ''median_speed_m_s'', ''below_expert_m_s''] field raw) (\<lambda>candidate.
     bindE (key_at candidate ''behavior'') (\<lambda>b. bindE (name_value (field @ ''.behavior'') b) (\<lambda>name.
       if name = expert_name \<or> name \<in> fst ` set deltas then Inl CandidateRepeated
       else bindE (library_behavior lib name) (\<lambda>entry.
       bindE (number_at candidate field ''median_speed_m_s'') (\<lambda>median.
       bindE (number_at candidate field ''below_expert_m_s'') (\<lambda>below.
         if \<not> f64_eq median (sp_median (be_speed entry)) \<or>
           \<not> isclose_abs below (f64_sub (sp_median (be_speed expert)) (sp_median (be_speed entry))) (f64_round (1 / 10 ^ 12))
         then Inl CandidateDisagrees
         else Inr (deltas @ [(name, below)]))))))))"

text \<open>\<open>max(candidate_deltas, key=...)\<close>: the first of the largest items.\<close>

fun max_item :: "string \<times> f64 \<Rightarrow> (string \<times> f64) list \<Rightarrow> string \<times> f64" where
  "max_item best [] = best"
| "max_item best (x # xs) = max_item (if f64_lt (snd best) (snd x) then x else best) xs"

definition read_slow :: "library_manifest \<Rightarrow> pyval \<Rightarrow> input_error + (behavior_entry \<times> string)" where
  "read_slow lib v = bindE (exact_dict [''rule'', ''expert_behavior'', ''chosen_behavior'', ''candidates''] ''slow_selection'' v) (\<lambda>slow.
     if some_differs slow [(''rule'', PStr ''nonexpert_median_farthest_below_expert'')] then Inl SlowRule
     else bindE (key_at slow ''expert_behavior'') (\<lambda>a. bindE (name_value ''slow_selection.expert_behavior'' a) (\<lambda>expert_name.
       bindE (key_at slow ''chosen_behavior'') (\<lambda>b. bindE (name_value ''slow_selection.chosen_behavior'' b) (\<lambda>chosen.
       bindE (library_behavior lib expert_name) (\<lambda>expert.
       bindE (key_at slow ''candidates'') (\<lambda>raw. case raw of
         PList candidates \<Rightarrow> if length candidates \<noteq> length (lm_behaviors lib) - 1 then Inl CandidatesArray
           else bindE (foldE (read_candidate lib expert expert_name) (enum_from 0 candidates) []) (\<lambda>deltas.
             case deltas of [] \<Rightarrow> Inl EmptyCandidates
             | d # ds \<Rightarrow> if chosen \<noteq> fst (max_item d ds) then Inl ChosenNotFarthest else Inr (expert, chosen))
       | _ \<Rightarrow> Inl CandidatesArray)))))))"

definition task_keys :: "string list" where
  "task_keys = [''schema_version'', ''task_spec_id'', ''evidence_class'', ''library_manifest_sha256'', ''task_text'', ''runtime'',
     ''target_schedule'', ''slow_selection'', ''evaluation'', ''trace_artifact_directory'']"

text \<open>\<open>expected_library_sha256 or library.raw_sha256\<close>\<close>

definition expected_hash :: "string option \<Rightarrow> library_manifest \<Rightarrow> string" where
  "expected_hash expected lib = (case expected of Some s \<Rightarrow> if s = [] then lm_sha256 lib else s | None \<Rightarrow> lm_sha256 lib)"

definition read_task :: "library_manifest \<Rightarrow> string option \<Rightarrow> string \<Rightarrow> pyval \<Rightarrow> input_error + task_spec" where
  "read_task lib expected sha value = bindE (exact_dict task_keys ''task spec'' value) (\<lambda>doc.
     if some_differs doc [(''schema_version'', PInt 1), (''task_spec_id'', PStr TASK_SPEC_ID)] then Inl TaskIdentity
     else if some_differs doc [(''evidence_class'', PStr EVIDENCE_CLASS)] then Inl TaskClass
     else bindE (key_at doc ''library_manifest_sha256'') (\<lambda>a. bindE (digest_value ''library_manifest_sha256'' a) (\<lambda>library_sha.
       if library_sha \<noteq> expected_hash expected lib \<or> library_sha \<noteq> lm_sha256 lib then Inl LibraryUnbound
       else bindE (key_at doc ''runtime'') (\<lambda>b. bindE (validate_runtime b) (\<lambda>(_, period).
       bindE (key_at doc ''evaluation'') (\<lambda>c. bindE (read_evaluation c) (\<lambda>(horizon, seeds, oracle_ids).
       bindE (key_at doc ''target_schedule'') (\<lambda>d. bindE (read_schedule horizon d) (\<lambda>schedule.
       bindE (key_at doc ''slow_selection'') (\<lambda>e. bindE (read_slow lib e) (\<lambda>(expert, chosen).
       bindE (library_behavior lib chosen) (\<lambda>slow.
         let fast = sp_median (be_speed expert) in
         if length schedule \<noteq> 3 \<or> \<not> list_all2 f64_eq (map sg_target schedule) [fast, sp_median (be_speed slow), fast] then Inl ProfileDiffers
         else bindE (key_at doc ''task_text'') (\<lambda>f. bindE (text_value 4096 ''task_text'' f) (\<lambda>task_text.
         bindE (key_at doc ''trace_artifact_directory'') (\<lambda>g. bindE (path_value ''trace_artifact_directory'' g) (\<lambda>directory.
           Inr \<lparr>tk_text = task_text, tk_horizon = horizon, tk_period = period, tk_schedule = schedule, tk_seeds = seeds,
                tk_oracle_ids = oracle_ids, tk_trace_directory = directory, tk_slow = chosen,
                tk_library_sha256 = library_sha, tk_sha256 = sha\<rparr>))))))))))))))))"

definition load_task_spec :: "hasher \<Rightarrow> (string \<Rightarrow> json_text option) \<Rightarrow> library_manifest \<Rightarrow> string option \<Rightarrow> string \<Rightarrow>
    input_error + task_spec" where
  "load_task_spec h scanner lib expected encoded =
     bindE (read_json_object scanner encoded) (read_task lib expected (sha256_hex h encoded))"

definition load_frozen_inputs :: "hasher \<Rightarrow> (string \<Rightarrow> json_text option) \<Rightarrow> string \<Rightarrow> string \<Rightarrow>
    input_error + (library_manifest \<times> task_spec)" where
  "load_frozen_inputs h scanner library_bytes task_bytes = bindE (load_library_manifest h scanner library_bytes) (\<lambda>lib.
     bindE (load_task_spec h scanner lib None task_bytes) (\<lambda>task. Inr (lib, task)))"

section \<open>What the field readers accept\<close>

definition relative_path :: "string \<Rightarrow> bool" where
  "relative_path s \<longleftrightarrow> strip s \<noteq> [] \<and> length s \<le> 512 \<and> \<not> path_absolute s \<and> ''..'' \<notin> set (path_parts s) \<and> s = path_posix s"

lemma exact_dict_Inr [simp]: "exact_dict ks f v = Inr d \<longleftrightarrow> v = PDict d \<and> keys_are ks d"
  by (cases v) (auto simp: exact_dict_def)

lemma key_at_Inr [simp]: "key_at d k = Inr v \<longleftrightarrow> map_of d k = Some v"
  by (auto simp: key_at_def dict_get_def split: option.splits)

lemma name_value_Inr [simp]: "name_value f v = Inr s \<longleftrightarrow> v = PStr s \<and> is_name s"
  by (cases v) (auto simp: name_value_def)

lemma text_value_Inr [simp]: "text_value n f v = Inr s \<longleftrightarrow> v = PStr s \<and> strip s \<noteq> [] \<and> length s \<le> n"
  by (cases v) (auto simp: text_value_def)

lemma integer_value_Inr [simp]: "integer_value lo hi f v = Inr n \<longleftrightarrow> v = PInt n \<and> lo \<le> n \<and> n \<le> hi"
  by (cases v) (auto simp: integer_value_def)

lemma number_value_Inr [simp]: "number_value f v = Inr x \<longleftrightarrow> read_number v = Number x \<and> is_finite x"
  by (auto simp: number_value_def split: num_read.splits)

lemma digest_value_Inr [simp]: "digest_value f v = Inr s \<longleftrightarrow> v = PStr s \<and> hex_digest s"
  by (cases v) (auto simp: digest_value_def)

lemma path_value_Inr [simp]: "path_value f v = Inr s \<longleftrightarrow> v = PStr s \<and> relative_path s"
  by (auto simp: path_value_def relative_path_def)

lemma integer_at_Inr [simp]: "integer_at d f lo hi k = Inr n \<longleftrightarrow> map_of d k = Some (PInt n) \<and> lo \<le> n \<and> n \<le> hi"
  by (auto simp: integer_at_def)

lemma number_at_Inr [simp]: "number_at d f k = Inr x \<longleftrightarrow> (\<exists>v. map_of d k = Some v \<and> read_number v = Number x) \<and> is_finite x"
  by (auto simp: number_at_def)

lemma mapE_integer_value: "mapE (integer_value lo hi f) vs = Inr ns \<Longrightarrow> \<forall>n \<in> set ns. lo \<le> n \<and> n \<le> hi"
  by (auto dest: mapE_in_set)

lemma if_Inl_Inr [simp]:
  "(if c then Inl e else r) = Inr x \<longleftrightarrow> \<not> c \<and> r = Inr x"
  "(if c then r else Inl e) = Inr x \<longleftrightarrow> c \<and> r = Inr x"
  by auto

lemma case_PList_Inr: "(case v of PList xs \<Rightarrow> f xs | _ \<Rightarrow> Inl e) = Inr y \<longleftrightarrow> (\<exists>xs. v = PList xs \<and> f xs = Inr y)"
  by (cases v) auto

section \<open>The specification of a library\<close>

definition binding_ok :: "artifact_binding \<Rightarrow> bool" where
  "binding_ok b \<longleftrightarrow> relative_path (ab_path b) \<and> hex_digest (ab_sha256 b)"

definition speed_ok :: "speed_statistics \<Rightarrow> bool" where
  "speed_ok s \<longleftrightarrow> 1 \<le> sp_clips s \<and> 1 \<le> sp_steps s \<and> list_all is_finite [sp_q1 s, sp_median s, sp_q3 s, sp_iqr s] \<and>
     f64_le (sp_q1 s) (sp_median s) \<and> f64_le (sp_median s) (sp_q3 s) \<and> f64_le (Fin 0) (sp_iqr s) \<and>
     isclose_abs (sp_iqr s) (f64_sub (sp_q3 s) (sp_q1 s)) (f64_round (1 / 10 ^ 12))"

definition falls_ok :: "fall_statistics \<Rightarrow> bool" where
  "falls_ok f \<longleftrightarrow> 1 \<le> fa_episodes f \<and> 1 \<le> fa_steps f \<and> fa_events f = int (length (fa_seeds f)) \<and> fa_events f \<le> fa_episodes f \<and>
     distinct (fa_seeds f) \<and> (\<forall>n \<in> set (fa_seeds f). 0 \<le> n \<and> n \<le> 2147483647) \<and>
     isclose_abs (fa_rate f) (expected_fall_rate (fa_events f) (fa_steps f)) (f64_round (1 / 10 ^ 15))"

definition entry_ok :: "behavior_entry \<Rightarrow> bool" where
  "entry_ok e \<longleftrightarrow> is_name (be_name e) \<and> binding_ok (be_npz e) \<and> binding_ok (be_import e) \<and> binding_ok (be_equivalence e) \<and>
     speed_ok (be_speed e) \<and> falls_ok (be_falls e)"

definition library_ok :: "library_manifest \<Rightarrow> bool" where
  "library_ok lib \<longleftrightarrow> fst ` set (lm_sources lib) = set source_keys \<and> (\<forall>s \<in> set (lm_sources lib). binding_ok (snd s)) \<and>
     lm_behaviors lib \<noteq> [] \<and> distinct (behavior_names lib) \<and> (\<forall>e \<in> set (lm_behaviors lib). entry_ok e)"

lemma f64_le_0_iff: "is_finite x \<Longrightarrow> f64_le (Fin 0) x \<longleftrightarrow> \<not> f64_lt x (Fin 0)"
  by (cases x) auto

lemma read_binding_ok: "read_binding f v = Inr b \<Longrightarrow> binding_ok b"
  by (auto simp: read_binding_def binding_ok_def)

lemma read_speed_ok: "read_speed f v = Inr s \<Longrightarrow> speed_ok s"
  by (auto simp: read_speed_def speed_ok_def f64_le_0_iff)

lemma read_falls_ok: "read_falls f v = Inr s \<Longrightarrow> falls_ok s"
  by (auto simp: read_falls_def falls_ok_def case_PList_Inr dest!: mapE_integer_value)

lemma read_entry_ok: "read_entry p = Inr e \<Longrightarrow> entry_ok e"
  by (cases p) (auto simp: read_entry_def entry_ok_def Let_def intro: read_binding_ok read_speed_ok read_falls_ok)

lemma read_sources_ok: "read_sources v = Inr ss \<Longrightarrow> fst ` set ss = set source_keys \<and> (\<forall>s \<in> set ss. binding_ok (snd s))"
proof -
  assume "read_sources v = Inr ss"
  then obtain d where d: "keys_are source_keys d" "mapE read_source d = Inr ss"
    by (auto simp: read_sources_def case_PDict_Inr)
  have "map fst ss = map fst d"
    using d(2) by (induction d arbitrary: ss) (auto simp: read_source_def)
  moreover have "binding_ok (snd s)" if s: "s \<in> set ss" for s
  proof -
    obtain p where "read_source p = Inr s" using mapE_in_set[OF d(2) s] by blast
    then obtain f v where "read_binding f v = Inr (snd s)" by (cases p) (auto simp: read_source_def)
    then show ?thesis by (rule read_binding_ok)
  qed
  ultimately show ?thesis using d(1) unfolding keys_are_def dict_keys_def by (metis list.set_map)
qed

lemma read_entries_ok: "read_entries v = Inr es \<Longrightarrow> es \<noteq> [] \<and> (\<forall>e \<in> set es. entry_ok e)"
proof -
  assume "read_entries v = Inr es"
  then obtain raw where r: "raw \<noteq> []" "mapE read_entry (enum_from 0 raw) = Inr es"
    by (auto simp: read_entries_def case_PList_Inr)
  have "length es = length raw" using mapE_length[OF r(2)] by (metis length_map map_snd_enum_from)
  moreover have "\<forall>e \<in> set es. entry_ok e" using mapE_in_set[OF r(2)] read_entry_ok by blast
  ultimately show ?thesis using r(1) by auto
qed

lemma read_library_ok:
  assumes "read_library sha v = Inr lib"
  shows "library_ok lib \<and> lm_sha256 lib = sha"
proof -
  from assms obtain s ss b es where r: "read_sources s = Inr ss" "read_entries b = Inr es" "distinct (map be_name es)"
      "lib = \<lparr>lm_sources = ss, lm_behaviors = es, lm_sha256 = sha\<rparr>"
    by (auto simp: read_library_def)
  then show ?thesis using read_sources_ok[OF r(1)] read_entries_ok[OF r(2)] by (simp add: library_ok_def behavior_names_def)
qed

lemma library_behavior_Inr: "library_behavior lib n = Inr e \<Longrightarrow> e \<in> set (lm_behaviors lib) \<and> be_name e = n"
  by (auto simp: library_behavior_def split: option.splits dest: find_SomeD)

section \<open>The specification of a task\<close>

fun contiguous :: "int \<Rightarrow> schedule_segment list \<Rightarrow> int \<Rightarrow> bool" where
  "contiguous a [] b = (a = b)"
| "contiguous a (g # gs) b = (sg_start g = a \<and> a < sg_stop g \<and> contiguous (sg_stop g) gs b)"

lemma contiguous_append: "contiguous a (gs @ hs) b \<longleftrightarrow> (\<exists>c. contiguous a gs c \<and> contiguous c hs b)"
  by (induction gs arbitrary: a) auto

lemma contiguous_le: "contiguous a gs b \<Longrightarrow> a \<le> b"
  by (induction gs arbitrary: a) force+

lemma contiguous_find: "contiguous a gs b \<Longrightarrow> a \<le> n \<Longrightarrow> n < b \<Longrightarrow>
    \<exists>g \<in> set gs. find (\<lambda>g. sg_start g \<le> n \<and> n < sg_stop g) gs = Some g"
proof (induction gs arbitrary: a)
  case (Cons g gs)
  then show ?case using Cons.IH[of "sg_stop g"] by (cases "n < sg_stop g") auto
qed simp

lemma read_segments:
  "foldE read_segment xs (a, gs) = Inr (b, hs) \<Longrightarrow> \<exists>ks. hs = gs @ ks \<and> contiguous a ks b \<and> length ks = length xs \<and>
    (\<forall>g \<in> set ks. is_finite (sg_target g))"
proof (induction xs arbitrary: a gs)
  case (Cons x xs)
  then obtain c t where s: "foldE read_segment xs (c, gs @ [\<lparr>sg_start = a, sg_stop = c, sg_target = t\<rparr>]) = Inr (b, hs)"
      "a < c" "is_finite t"
    by (cases x) (auto simp: read_segment_def Let_def)
  from Cons.IH[OF s(1)] obtain ks where "hs = (gs @ [\<lparr>sg_start = a, sg_stop = c, sg_target = t\<rparr>]) @ ks" "contiguous c ks b"
      "length ks = length xs" "\<forall>g \<in> set ks. is_finite (sg_target g)" by blast
  then show ?case using s(2,3) by (intro exI[of _ "\<lparr>sg_start = a, sg_stop = c, sg_target = t\<rparr> # ks"]) simp
qed simp

lemma read_schedule_ok: "read_schedule horizon v = Inr gs \<Longrightarrow> contiguous 0 gs horizon \<and> (\<forall>g \<in> set gs. is_finite (sg_target g))"
  by (auto simp: read_schedule_def case_PList_Inr dest!: read_segments)

text \<open>The slow behavior: of all behaviors but the expert, none is declared farther below it.\<close>

definition farthest_below :: "library_manifest \<Rightarrow> behavior_entry \<Rightarrow> behavior_entry \<Rightarrow> bool" where
  "farthest_below lib expert slow \<longleftrightarrow> expert \<in> set (lm_behaviors lib) \<and> slow \<in> set (lm_behaviors lib) \<and> be_name slow \<noteq> be_name expert \<and>
     (\<exists>below. \<forall>e \<in> set (lm_behaviors lib). be_name e \<noteq> be_name expert \<longrightarrow>
        isclose_abs (below (be_name e)) (f64_sub (sp_median (be_speed expert)) (sp_median (be_speed e))) (f64_round (1 / 10 ^ 12)) \<and>
        f64_le (below (be_name e)) (below (be_name slow)))"

lemma max_item_spec:
  assumes "\<forall>x \<in> set (b # xs). is_finite (snd x)"
  shows "max_item b xs \<in> set (b # xs) \<and> (\<forall>x \<in> set (b # xs). f64_le (snd x) (snd (max_item b xs)))"
  using assms
proof (induction xs arbitrary: b)
  case Nil
  then show ?case by (cases "snd b") auto
next
  case (Cons x xs)
  let ?c = "if f64_lt (snd b) (snd x) then x else b"
  have "f64_le (snd b) (snd ?c)" "f64_le (snd x) (snd ?c)"
    using Cons.prems by (cases "snd b"; cases "snd x"; auto)+
  moreover have "max_item ?c xs \<in> set (?c # xs) \<and> (\<forall>x \<in> set (?c # xs). f64_le (snd x) (snd (max_item ?c xs)))"
    using Cons.prems by (intro Cons.IH) auto
  ultimately show ?case by (auto intro: f64_le_trans)
qed

definition deltas_ok :: "library_manifest \<Rightarrow> behavior_entry \<Rightarrow> (string \<times> f64) list \<Rightarrow> bool" where
  "deltas_ok lib expert ds \<longleftrightarrow> distinct (map fst ds) \<and> be_name expert \<notin> fst ` set ds \<and>
     (\<forall>(n, below) \<in> set ds. is_finite below \<and> (\<exists>e. library_behavior lib n = Inr e \<and>
        isclose_abs below (f64_sub (sp_median (be_speed expert)) (sp_median (be_speed e))) (f64_round (1 / 10 ^ 12))))"

lemma deltas_okD: "deltas_ok lib expert ds \<Longrightarrow> x \<in> set ds \<Longrightarrow> is_finite (snd x) \<and>
    (\<exists>e. library_behavior lib (fst x) = Inr e \<and>
      isclose_abs (snd x) (f64_sub (sp_median (be_speed expert)) (sp_median (be_speed e))) (f64_round (1 / 10 ^ 12)))"
  unfolding deltas_ok_def by (cases x) fastforce

lemma read_candidates_ok:
  "foldE (read_candidate lib expert (be_name expert)) xs ds = Inr es \<Longrightarrow> deltas_ok lib expert ds \<Longrightarrow>
    deltas_ok lib expert es \<and> length es = length ds + length xs"
proof (induction xs arbitrary: ds)
  case (Cons x xs)
  then obtain es' where e: "read_candidate lib expert (be_name expert) x ds = Inr es'"
      "foldE (read_candidate lib expert (be_name expert)) xs es' = Inr es" by auto
  from e(1) Cons.prems(2) have "deltas_ok lib expert es' \<and> length es' = Suc (length ds)"
    by (cases x) (auto simp: read_candidate_def Let_def deltas_ok_def)
  then show ?case using Cons.IH[OF e(2)] by simp
qed simp

lemma library_behavior_find: "e \<in> set (lm_behaviors lib) \<Longrightarrow> distinct (behavior_names lib) \<Longrightarrow> library_behavior lib (be_name e) = Inr e"
  by (simp add: library_behavior_def behavior_names_def find_distinct)

lemma deltas_cover:
  assumes "deltas_ok lib expert ds" "library_ok lib" "expert \<in> set (lm_behaviors lib)" "length ds = length (lm_behaviors lib) - 1"
  shows "fst ` set ds = set (behavior_names lib) - {be_name expert}"
proof (rule card_subset_eq)
  show "fst ` set ds \<subseteq> set (behavior_names lib) - {be_name expert}"
  proof
    fix n assume n: "n \<in> fst ` set ds"
    then obtain e where "library_behavior lib n = Inr e" using assms(1) by (fastforce simp: deltas_ok_def)
    then have "n \<in> set (behavior_names lib)" using library_behavior_Inr by (fastforce simp: behavior_names_def)
    then show "n \<in> set (behavior_names lib) - {be_name expert}"
      using n assms(1) unfolding deltas_ok_def by blast
  qed
  have "card (fst ` set ds) = length ds"
    using assms(1) distinct_card[of "map fst ds"] by (simp add: deltas_ok_def)
  moreover have "card (set (behavior_names lib) - {be_name expert}) = length (lm_behaviors lib) - 1"
    using assms(2,3) distinct_card[of "behavior_names lib"] by (simp add: library_ok_def behavior_names_def)
  ultimately show "card (fst ` set ds) = card (set (behavior_names lib) - {be_name expert})" using assms(4) by simp
qed simp

lemma read_slow_ok:
  assumes "read_slow lib v = Inr (expert, chosen)" "library_ok lib"
  shows "\<exists>slow. library_behavior lib chosen = Inr slow \<and> farthest_below lib expert slow"
proof -
  have cd: "(case ds of [] \<Rightarrow> Inl EmptyCandidates | d # ds \<Rightarrow> f d ds) = Inr y \<longleftrightarrow> (\<exists>d es. ds = d # es \<and> f d es = Inr y)"
    for ds :: "(string \<times> f64) list" and f and y :: "behavior_entry \<times> string"
    by (cases ds) auto
  from assms(1) obtain n candidates d ds where n: "library_behavior lib n = Inr expert"
      "length candidates = length (lm_behaviors lib) - 1"
      "foldE (read_candidate lib expert n) (enum_from 0 candidates) [] = Inr (d # ds)" "chosen = fst (max_item d ds)"
    by (auto simp: read_slow_def case_PList_Inr cd)
  note c = n[folded library_behavior_Inr[OF n(1), THEN conjunct2]]
  have names: "distinct (behavior_names lib)" and ex: "expert \<in> set (lm_behaviors lib)"
    using assms(2) library_behavior_Inr[OF c(1)] by (simp_all add: library_ok_def)
  have "length (enum_from 0 candidates) = length candidates" by (metis length_map map_snd_enum_from)
  then have ok: "deltas_ok lib expert (d # ds)" and len: "length (d # ds) = length (lm_behaviors lib) - 1"
    using read_candidates_ok[OF c(3)] c(2) by (simp_all add: deltas_ok_def)
  note cover = deltas_cover[OF ok assms(2) ex len]
  define below where "below n = the (map_of (d # ds) n)" for n
  have get: "below (fst x) = snd x" if "x \<in> set (d # ds)" for x
  proof -
    have "distinct (map fst (d # ds))" "(fst x, snd x) \<in> set (d # ds)" using ok that unfolding deltas_ok_def by simp_all
    then have "map_of (d # ds) (fst x) = Some (snd x)" by (rule map_of_is_SomeI)
    then show ?thesis by (simp only: below_def option.sel)
  qed
  have "\<forall>x \<in> set (d # ds). is_finite (snd x)" using deltas_okD[OF ok] by blast
  note m = max_item_spec[OF this]
  obtain slow where slow: "library_behavior lib chosen = Inr slow"
    using deltas_okD[OF ok m[THEN conjunct1]] c(4) by blast
  have "isclose_abs (below (be_name e)) (f64_sub (sp_median (be_speed expert)) (sp_median (be_speed e))) (f64_round (1 / 10 ^ 12)) \<and>
      f64_le (below (be_name e)) (below chosen)" if e: "e \<in> set (lm_behaviors lib)" "be_name e \<noteq> be_name expert" for e
  proof -
    have "be_name e \<in> fst ` set (d # ds)" using e cover by (simp add: behavior_names_def)
    then obtain x where x: "x \<in> set (d # ds)" "fst x = be_name e" by (metis imageE)
    obtain f where f: "library_behavior lib (fst x) = Inr f"
        "isclose_abs (snd x) (f64_sub (sp_median (be_speed expert)) (sp_median (be_speed f))) (f64_round (1 / 10 ^ 12))"
      using deltas_okD[OF ok x(1)] by blast
    moreover have "f = e" using f(1) library_behavior_find[OF e(1) names] x(2) by simp
    moreover have "f64_le (snd x) (snd (max_item d ds))" using m x(1) by blast
    ultimately show ?thesis
      using get[OF x(1)] get[OF m[THEN conjunct1]] c(4) x(2) by simp
  qed
  moreover have "chosen \<in> fst ` set (d # ds)" using m c(4) by blast
  then have "chosen \<noteq> be_name expert" using ok unfolding deltas_ok_def by blast
  ultimately show ?thesis
    using slow ex library_behavior_Inr[OF slow] unfolding farthest_below_def by (intro exI[of _ slow]) auto
qed

definition task_ok :: "library_manifest \<Rightarrow> task_spec \<Rightarrow> bool" where
  "task_ok lib t \<longleftrightarrow> strip (tk_text t) \<noteq> [] \<and> 1 \<le> tk_horizon t \<and> tk_horizon t \<le> 1000 \<and> tk_period t = CONTROL_PERIOD \<and>
     tk_seeds t \<noteq> [] \<and> length (tk_seeds t) \<le> 100 \<and> distinct (tk_seeds t) \<and> (\<forall>n \<in> set (tk_seeds t). 0 \<le> n \<and> n \<le> 2147483647) \<and>
     tk_oracle_ids t = CYCLE_ZERO_ORACLE_IDS \<and> relative_path (tk_trace_directory t) \<and> tk_library_sha256 t = lm_sha256 lib \<and>
     contiguous 0 (tk_schedule t) (tk_horizon t) \<and>
     (\<exists>expert slow. farthest_below lib expert slow \<and> tk_slow t = be_name slow \<and>
        map sg_target (tk_schedule t) = [sp_median (be_speed expert), sp_median (be_speed slow), sp_median (be_speed expert)])"

lemma f64_eq_D: "f64_eq a b \<Longrightarrow> a = b"
  by (cases a) auto

lemma validate_runtime_Inr: "validate_runtime v = Inr (limit, period) \<Longrightarrow> period = CONTROL_PERIOD"
  by (auto simp: validate_runtime_def dest: f64_eq_D)

lemma read_evaluation_Inr: "read_evaluation v = Inr (horizon, seeds, ids) \<Longrightarrow> 1 \<le> horizon \<and> horizon \<le> 1000 \<and>
    seeds \<noteq> [] \<and> length seeds \<le> 100 \<and> distinct seeds \<and> (\<forall>n \<in> set seeds. 0 \<le> n \<and> n \<le> 2147483647) \<and> ids = CYCLE_ZERO_ORACLE_IDS"
  by (auto simp: read_evaluation_def case_PList_Inr mapE_Inr_iff not_less list_all2_conv_all_nth in_set_conv_nth)

lemma read_task_ok:
  assumes "read_task lib expected sha v = Inr t" "library_ok lib"
  shows "task_ok lib t \<and> tk_sha256 t = sha"
proof -
  from assms(1) obtain b limit c horizon seeds ids d gs e expert chosen slow where
    r: "validate_runtime b = Inr (limit, tk_period t)" "read_evaluation c = Inr (tk_horizon t, tk_seeds t, tk_oracle_ids t)"
      "read_schedule (tk_horizon t) d = Inr (tk_schedule t)" "read_slow lib e = Inr (expert, tk_slow t)"
      "library_behavior lib (tk_slow t) = Inr slow"
    and p: "list_all2 f64_eq (map sg_target (tk_schedule t)) [sp_median (be_speed expert), sp_median (be_speed slow), sp_median (be_speed expert)]"
    and o: "strip (tk_text t) \<noteq> []" "relative_path (tk_trace_directory t)" "tk_library_sha256 t = lm_sha256 lib" "tk_sha256 t = sha"
    by (auto simp: read_task_def Let_def)
  have f: "farthest_below lib expert slow" "tk_slow t = be_name slow"
    using read_slow_ok[OF r(4) assms(2)] r(5) library_behavior_Inr[OF r(5)] by auto
  have "list_all2 (=) (map sg_target (tk_schedule t)) [sp_median (be_speed expert), sp_median (be_speed slow), sp_median (be_speed expert)]"
    using p by (rule list_all2_mono) (rule f64_eq_D)
  then have m: "map sg_target (tk_schedule t) = [sp_median (be_speed expert), sp_median (be_speed slow), sp_median (be_speed expert)]"
    by (simp only: list.rel_eq)
  have x: "\<exists>expert slow. farthest_below lib expert slow \<and> tk_slow t = be_name slow \<and>
      map sg_target (tk_schedule t) = [sp_median (be_speed expert), sp_median (be_speed slow), sp_median (be_speed expert)]"
    by (intro exI conjI) (rule f m)+
  show ?thesis
    unfolding task_ok_def
    using validate_runtime_Inr[OF r(1)] read_evaluation_Inr[OF r(2)] read_schedule_ok[OF r(3)] x o by simp
qed

lemma load_frozen_inputs_ok:
  assumes "load_frozen_inputs h scanner lb tb = Inr (lib, task)"
  shows "library_ok lib \<and> task_ok lib task \<and> lm_sha256 lib = sha256_hex h lb \<and> tk_sha256 task = sha256_hex h tb"
proof -
  from assms obtain v w where "read_library (sha256_hex h lb) v = Inr lib" "read_task lib None (sha256_hex h tb) w = Inr task"
    by (auto simp: load_frozen_inputs_def load_library_manifest_def load_task_spec_def)
  then show ?thesis using read_library_ok read_task_ok by blast
qed

lemma target_at_ok:
  assumes "contiguous 0 (tk_schedule t) (tk_horizon t)" "map sg_target (tk_schedule t) = [x, y, z]"
  shows "\<exists>a b. 0 < a \<and> a < b \<and> b < tk_horizon t \<and> (\<forall>n. target_at t (PInt n) =
    (if n < 0 \<or> tk_horizon t \<le> n then Inl TargetStep else Inr (if n < a then x else if n < b then y else z)))"
proof -
  from assms(2) obtain g1 g2 g3 where g: "tk_schedule t = [g1, g2, g3]" "sg_target g1 = x" "sg_target g2 = y" "sg_target g3 = z"
    by (auto simp: map_eq_Cons_conv)
  then show ?thesis using assms(1)
    by (intro exI[of _ "sg_stop g1"] exI[of _ "sg_stop g2"]) (auto simp: target_at_def)
qed

lemma task_target_finite:
  assumes "task_ok lib task" "library_ok lib" "0 \<le> n" "n < tk_horizon task"
  shows "\<exists>f. target_at task (PInt n) = Inr f \<and> is_finite f"
proof -
  from assms(1) obtain expert slow where e: "farthest_below lib expert slow"
      "map sg_target (tk_schedule task) = [sp_median (be_speed expert), sp_median (be_speed slow), sp_median (be_speed expert)]"
    unfolding task_ok_def by (elim conjE exE) (rule that)
  have "is_finite (sp_median (be_speed expert))" "is_finite (sp_median (be_speed slow))"
    using e(1) assms(2) by (auto simp: farthest_below_def library_ok_def entry_ok_def speed_ok_def)
  moreover have "contiguous 0 (tk_schedule task) (tk_horizon task)" using assms(1) by (simp add: task_ok_def)
  from target_at_ok[OF this e(2)] obtain a b where "target_at task (PInt n) =
      (if n < 0 \<or> tk_horizon task \<le> n then Inl TargetStep else Inr (if n < a then sp_median (be_speed expert)
        else if n < b then sp_median (be_speed slow) else sp_median (be_speed expert)))" by blast
  ultimately show ?thesis using assms(3,4) by simp
qed

text \<open>What the executor relies on: a bounded horizon, and a finite target at each of its steps.\<close>

locale target_source =
  fixes accepted :: "'t \<Rightarrow> bool"
    and horizon :: "'t \<Rightarrow> int"
    and target :: "'t \<Rightarrow> int \<Rightarrow> 'e + f64"
  assumes horizon_bounded: "accepted t \<Longrightarrow> 1 \<le> horizon t \<and> horizon t \<le> 1000"
    and target_defined: "accepted t \<Longrightarrow> 0 \<le> n \<Longrightarrow> n < horizon t \<Longrightarrow> \<exists>f. target t n = Inr f \<and> is_finite f"
begin

lemma schedule_total:
  assumes "accepted t"
  shows "\<exists>fs. mapE (target t) (map int [0..<nat (horizon t)]) = Inr fs \<and> list_all is_finite fs"
proof -
  have d: "\<exists>f. target t n = Inr f \<and> is_finite f" if "n \<in> set (map int [0..<nat (horizon t)])" for n
    using that by (intro target_defined[OF assms]) auto
  then obtain fs where fs: "mapE (target t) (map int [0..<nat (horizon t)]) = Inr fs"
    using mapE_total[of "map int [0..<nat (horizon t)]" "target t"] by blast
  have "is_finite f" if "f \<in> set fs" for f using mapE_in_set[OF fs that] d by fastforce
  then show ?thesis using fs by (auto simp: list_all_iff)
qed

end

interpretation task_targets: target_source "\<lambda>t. library_ok lib \<and> task_ok lib t" tk_horizon "\<lambda>t n. target_at t (PInt n)" for lib
proof unfold_locales
  fix t n
  assume t: "library_ok lib \<and> task_ok lib t"
  then show "1 \<le> tk_horizon t \<and> tk_horizon t \<le> 1000" by (simp add: task_ok_def)
  show "0 \<le> n \<Longrightarrow> n < tk_horizon t \<Longrightarrow> \<exists>f. target_at t (PInt n) = Inr f \<and> is_finite f"
    using t by (intro task_target_finite[of lib]) simp_all
qed

section \<open>An example\<close>

text \<open>A library of two behaviors and the task that alternates them, as JSON documents.\<close>

definition demo_sha :: string where "demo_sha = replicate 64 CHR ''0''"

definition demo_binding :: "string \<Rightarrow> json_text" where
  "demo_binding path = JObject [(''path'', JStr path), (''sha256'', JStr demo_sha)]"

definition demo_behavior :: "string \<Rightarrow> int \<Rightarrow> json_text" where
  "demo_behavior name speed = JObject [
     (''name'', JStr name),
     (''strict_npz'', demo_binding ''actors/a.npz''),
     (''import_receipt'', demo_binding ''actors/a.json''),
     (''equivalence_receipt'', demo_binding ''actors/b.json''),
     (''speed_m_s'', JObject [(''admitted_clip_count'', JInt 2), (''admitted_step_count'', JInt 9), (''q1_m_s'', JInt speed),
        (''median_m_s'', JInt speed), (''q3_m_s'', JInt speed), (''iqr_m_s'', JInt 0)]),
     (''e3_falls'', JObject [(''e3_episode_count'', JInt 4), (''e3_step_count'', JInt 500), (''fall_event_count'', JInt 1),
        (''falls_per_1000_steps'', JFloat (Fin 2)), (''fall_seeds'', JArray [JInt 7])])]"

definition demo_library_json :: json_text where
  "demo_library_json = JObject [
     (''schema_version'', JInt 1), (''manifest_id'', JStr LIBRARY_MANIFEST_ID), (''evidence_class'', JStr EVIDENCE_CLASS),
     (''source_evidence'', JObject (map (\<lambda>k. (k, demo_binding ''evidence/e.json'')) source_keys)),
     (''speed_measurement'', JStr ''root x''), (''fall_measurement'', JStr ''height''),
     (''behaviors'', JArray [demo_behavior ''expert'' 5, demo_behavior ''simple'' 1])]"

definition demo_segment :: "int \<Rightarrow> int \<Rightarrow> int \<Rightarrow> json_text" where
  "demo_segment a b v = JObject [(''start'', JInt a), (''stop'', JInt b), (''target_m_s'', JInt v)]"

fun value_json :: "pyval \<Rightarrow> json_text" where
  "value_json (PStr s) = JStr s"
| "value_json (PInt n) = JInt n"
| "value_json (PBool b) = JBool b"
| "value_json (PFloat f) = JFloat f"
| "value_json _ = JNull"

definition literal_items :: "(string \<times> pyval) list \<Rightarrow> (string \<times> json_text) list" where
  "literal_items = map (\<lambda>(k, v). (k, value_json v))"

definition demo_task_json :: json_text where
  "demo_task_json = JObject [
     (''schema_version'', JInt 1), (''task_spec_id'', JStr TASK_SPEC_ID), (''evidence_class'', JStr EVIDENCE_CLASS),
     (''library_manifest_sha256'', JStr demo_sha), (''task_text'', JStr ''run then walk''),
     (''runtime'', JObject (literal_items runtime_literals @
        [(''physics_timestep_seconds'', JFloat PHYSICS_TIMESTEP), (''control_period_seconds'', JFloat CONTROL_PERIOD)])),
     (''target_schedule'', JArray [demo_segment 0 2 5, demo_segment 2 4 1, demo_segment 4 6 5]),
     (''slow_selection'', JObject [(''rule'', JStr ''nonexpert_median_farthest_below_expert''), (''expert_behavior'', JStr ''expert''),
        (''chosen_behavior'', JStr ''simple''), (''candidates'', JArray [JObject [(''behavior'', JStr ''simple''),
           (''median_speed_m_s'', JInt 1), (''below_expert_m_s'', JInt 4)]])]),
     (''evaluation'', JObject ([(''seeds'', JArray [JInt 1, JInt 2]), (''episode_steps'', JInt 6),
        (''cycle_zero_oracle_ids'', JArray (map JStr CYCLE_ZERO_ORACLE_IDS))] @ literal_items evaluation_literals)),
     (''trace_artifact_directory'', JStr ''artifacts/test'')]"

definition demo_json_scan :: "string \<Rightarrow> json_text option" where
  "demo_json_scan encoded = (if encoded = ''library'' then Some demo_library_json
     else if encoded = ''task'' then Some demo_task_json else None)"

definition demo_hash :: hasher where
  "demo_hash = \<lparr>float_repr = (\<lambda>_. ''0.5''), sha256_hex = (\<lambda>_. demo_sha)\<rparr>"

definition json_items :: "json_text \<Rightarrow> (string \<times> pyval) list" where
  "json_items t = (case load_tree t of Inr (PDict d) \<Rightarrow> d | _ \<Rightarrow> [])"

lemma decode_items:
  assumes "scan encoded = Some t" "load_tree t = Inr (PDict d)" "json_depth (PDict d) \<le> 64" "json_nodes (PDict d) \<le> 65536"
    and "encoded \<noteq> []" "length encoded \<le> 262144"
  shows "decode_json_object scan encoded = Inr d"
proof -
  have "walk_json [(PDict d, 1)] 0 = Inr ()"
    using assms(3,4) by (simp add: walk_json_iff MAX_JSON_DEPTH_def MAX_JSON_NODES_def del: json_depth.simps json_nodes.simps)
  then show ?thesis using assms by (simp add: decode_json_object_def MAX_JSON_BYTES_def)
qed

lemma demo_library_tree: "\<exists>d. load_tree demo_library_json = Inr (PDict d) \<and> json_depth (PDict d) \<le> 64 \<and> json_nodes (PDict d) \<le> 200"
  by (simp add: demo_library_json_def demo_behavior_def demo_binding_def source_keys_def)

lemma demo_task_tree: "\<exists>d. load_tree demo_task_json = Inr (PDict d) \<and> json_depth (PDict d) \<le> 64 \<and> json_nodes (PDict d) \<le> 200"
  by (simp add: demo_task_json_def demo_segment_def literal_items_def runtime_literals_def evaluation_literals_def CYCLE_ZERO_ORACLE_IDS_def)

definition tree_value :: "json_text \<Rightarrow> pyval" where
  "tree_value t = (case load_tree t of Inr v \<Rightarrow> v | Inl _ \<Rightarrow> PNone)"

lemma read_small_int: "\<bar>n\<bar> \<le> 2 ^ 53 \<Longrightarrow> read_number (PInt n) = Number (Fin (of_int n))"
  by (simp add: float_of_int_small)

definition demo_stats :: "int \<Rightarrow> speed_statistics" where
  "demo_stats v = \<lparr>sp_clips = 2, sp_steps = 9, sp_q1 = Fin (of_int v), sp_median = Fin (of_int v), sp_q3 = Fin (of_int v), sp_iqr = Fin 0\<rparr>"

definition demo_falls :: fall_statistics where
  "demo_falls = \<lparr>fa_episodes = 4, fa_steps = 500, fa_events = 1, fa_rate = Fin 2, fa_seeds = [7]\<rparr>"

definition demo_entry :: "string \<Rightarrow> int \<Rightarrow> behavior_entry" where
  "demo_entry name v = \<lparr>be_name = name, be_npz = \<lparr>ab_path = ''actors/a.npz'', ab_sha256 = demo_sha\<rparr>,
     be_import = \<lparr>ab_path = ''actors/a.json'', ab_sha256 = demo_sha\<rparr>,
     be_equivalence = \<lparr>ab_path = ''actors/b.json'', ab_sha256 = demo_sha\<rparr>,
     be_speed = demo_stats v, be_falls = demo_falls\<rparr>"

definition demo_library :: library_manifest where
  "demo_library = \<lparr>lm_sources = map (\<lambda>k. (k, \<lparr>ab_path = ''evidence/e.json'', ab_sha256 = demo_sha\<rparr>)) source_keys,
     lm_behaviors = [demo_entry ''expert'' 5, demo_entry ''simple'' 1], lm_sha256 = demo_sha\<rparr>"

definition demo_task :: task_spec where
  "demo_task = \<lparr>tk_text = ''run then walk'', tk_horizon = 6, tk_period = CONTROL_PERIOD,
     tk_schedule = [\<lparr>sg_start = 0, sg_stop = 2, sg_target = Fin 5\<rparr>, \<lparr>sg_start = 2, sg_stop = 4, sg_target = Fin 1\<rparr>,
       \<lparr>sg_start = 4, sg_stop = 6, sg_target = Fin 5\<rparr>],
     tk_seeds = [1, 2], tk_oracle_ids = CYCLE_ZERO_ORACLE_IDS, tk_trace_directory = ''artifacts/test'', tk_slow = ''simple'',
     tk_library_sha256 = demo_sha, tk_sha256 = demo_sha\<rparr>"

lemma demo_paths: "list_all relative_path [''actors/a.npz'', ''actors/a.json'', ''actors/b.json'', ''evidence/e.json'', ''artifacts/test'']"
  by code_simp

lemma demo_sha_hex: "hex_digest demo_sha"
  by code_simp

lemma read_binding_demo: "relative_path p \<Longrightarrow>
    read_binding f (PDict [(''path'', PStr p), (''sha256'', PStr demo_sha)]) =
    Inr \<lparr>ab_path = p, ab_sha256 = demo_sha\<rparr>"
proof -
  assume "relative_path p"
  then have "path_value g (PStr p) = Inr p" "digest_value g (PStr demo_sha) = Inr demo_sha" for g using demo_sha_hex by simp_all
  moreover have "exact_dict [''path'', ''sha256''] f (PDict [(''path'', PStr p), (''sha256'', PStr demo_sha)]) =
      Inr [(''path'', PStr p), (''sha256'', PStr demo_sha)]" by (simp add: keys_are_def dict_keys_def)
  ultimately show ?thesis by (simp add: read_binding_def key_at_def dict_get_def)
qed

lemma read_speed_demo:
  assumes "\<bar>v\<bar> \<le> 2 ^ 53"
  shows "read_speed f (PDict [(''admitted_clip_count'', PInt 2), (''admitted_step_count'', PInt 9), (''q1_m_s'', PInt v),
      (''median_m_s'', PInt v), (''q3_m_s'', PInt v), (''iqr_m_s'', PInt 0)]) = Inr (demo_stats v)"
  using read_small_int[OF assms] read_small_int[of 0] f64_rep_of_int[of 0]
  by (auto simp: read_speed_def demo_stats_def keys_are_def dict_keys_def speed_keys_def f64_sub_def f64_rep_round isclose_self)

lemma read_falls_demo: "read_falls f (PDict [(''e3_episode_count'', PInt 4), (''e3_step_count'', PInt 500), (''fall_event_count'', PInt 1),
        (''falls_per_1000_steps'', PFloat (Fin 2)), (''fall_seeds'', PList [PInt 7])]) = Inr demo_falls"
proof -
  have "expected_fall_rate 1 500 = Fin 2"
    using f64_rep_of_int[of 1000] f64_rep_of_int[of 2] by (simp add: expected_fall_rate_def f64_rep_round)
  then show ?thesis
    by (auto simp: read_falls_def demo_falls_def keys_are_def dict_keys_def fall_keys_def isclose_self)
qed

lemma read_entry_demo:
  assumes "is_name name" "\<bar>v\<bar> \<le> 2 ^ 53"
  shows "read_entry (i, tree_value (demo_behavior name v)) = Inr (demo_entry name v)"
  using assms demo_paths
  by (auto simp: read_entry_def Let_def tree_value_def demo_behavior_def demo_binding_def demo_entry_def keys_are_def
      dict_keys_def entry_keys_def read_binding_demo read_speed_demo read_falls_demo)

lemma read_library_demo: "read_library demo_sha (tree_value demo_library_json) = Inr demo_library"
proof -
  have n: "is_name ''expert''" "is_name ''simple''" by code_simp+
  have e: "tree_value demo_library_json = PDict [
     (''schema_version'', PInt 1), (''manifest_id'', PStr LIBRARY_MANIFEST_ID), (''evidence_class'', PStr EVIDENCE_CLASS),
     (''source_evidence'', PDict (map (\<lambda>k. (k, tree_value (demo_binding ''evidence/e.json''))) source_keys)),
     (''speed_measurement'', PStr ''root x''), (''fall_measurement'', PStr ''height''),
     (''behaviors'', PList [tree_value (demo_behavior ''expert'' 5), tree_value (demo_behavior ''simple'' 1)])]"
    by (simp add: tree_value_def demo_library_json_def demo_behavior_def demo_binding_def source_keys_def)
  have s: "read_sources (PDict (map (\<lambda>k. (k, tree_value (demo_binding ''evidence/e.json''))) source_keys)) = Inr (lm_sources demo_library)"
    using demo_paths by (simp add: read_sources_def keys_are_def dict_keys_def source_keys_def read_source_def tree_value_def
        demo_binding_def read_binding_demo demo_library_def)
  have b: "read_entries (PList [tree_value (demo_behavior ''expert'' 5), tree_value (demo_behavior ''simple'' 1)]) = Inr (lm_behaviors demo_library)"
    using n by (simp add: read_entries_def read_entry_demo demo_library_def)
  have t: "strip ''root x'' \<noteq> []" "strip ''height'' \<noteq> []" by code_simp+
  show ?thesis unfolding e read_library_def
    using t by (simp add: keys_are_def dict_keys_def library_keys_def some_differs_def dict_get_def s b)
      (simp add: demo_library_def demo_entry_def)
qed

lemma finite_literals: "is_finite PHYSICS_TIMESTEP" "is_finite CONTROL_PERIOD"
  using round_in[of 0 1 "3 / 1000"] round_in[of 0 1 "15 / 1000"] by (auto simp: PHYSICS_TIMESTEP_def CONTROL_PERIOD_def fin_in_def)

lemma read_task_demo: "read_task demo_library None demo_sha (tree_value demo_task_json) = Inr demo_task"
proof -
  have names: "is_name ''expert''" "is_name ''simple''" "list_all is_name CYCLE_ZERO_ORACLE_IDS" by code_simp+
  define runtime where "runtime = PDict (runtime_literals @ [(''physics_timestep_seconds'', PFloat PHYSICS_TIMESTEP), (''control_period_seconds'', PFloat CONTROL_PERIOD)])"
  define segment where "segment a b v = PDict [(''start'', PInt a), (''stop'', PInt b), (''target_m_s'', PInt v)]" for a b v
  define slow where "slow = PDict [(''rule'', PStr ''nonexpert_median_farthest_below_expert''), (''expert_behavior'', PStr ''expert''),
        (''chosen_behavior'', PStr ''simple''), (''candidates'', PList [PDict [(''behavior'', PStr ''simple''),
           (''median_speed_m_s'', PInt 1), (''below_expert_m_s'', PInt 4)]])]"
  define evaluation where "evaluation = PDict ([(''seeds'', PList [PInt 1, PInt 2]), (''episode_steps'', PInt 6),
        (''cycle_zero_oracle_ids'', PList (map PStr CYCLE_ZERO_ORACLE_IDS))] @ evaluation_literals)"
  have e: "tree_value demo_task_json = PDict [
     (''schema_version'', PInt 1), (''task_spec_id'', PStr TASK_SPEC_ID), (''evidence_class'', PStr EVIDENCE_CLASS),
     (''library_manifest_sha256'', PStr demo_sha), (''task_text'', PStr ''run then walk''), (''runtime'', runtime),
     (''target_schedule'', PList [segment 0 2 5, segment 2 4 1, segment 4 6 5]),
     (''slow_selection'', slow), (''evaluation'', evaluation),
     (''trace_artifact_directory'', PStr ''artifacts/test'')]"
    by (simp add: tree_value_def demo_task_json_def demo_segment_def literal_items_def runtime_literals_def evaluation_literals_def
        CYCLE_ZERO_ORACLE_IDS_def runtime_def segment_def slow_def evaluation_def)
  have v: "validate_runtime runtime = Inr (1000, CONTROL_PERIOD)"
    using f64_eq_self[OF finite_literals(1)] f64_eq_self[OF finite_literals(2)] finite_literals
    by (auto simp: validate_runtime_def runtime_def runtime_literals_def runtime_keys_def keys_are_def dict_keys_def some_differs_def
        dict_get_def key_at_def number_value_def)
  have "list_all is_name xs \<Longrightarrow> mapE (name_value f) (map PStr xs) = Inr xs" for f xs by (induction xs) auto
  note n = this[OF names(3)]
  have ev: "read_evaluation evaluation = Inr (6, [1, 2], CYCLE_ZERO_ORACLE_IDS)"
  proof -
    have "exact_dict evaluation_keys ''evaluation'' evaluation = Inr (case evaluation of PDict d \<Rightarrow> d | _ \<Rightarrow> [])"
      by (simp add: evaluation_def evaluation_keys_def keys_are_def dict_keys_def)
    moreover have "\<not> some_differs (case evaluation of PDict d \<Rightarrow> d | _ \<Rightarrow> []) evaluation_literals"
      by (simp add: evaluation_def evaluation_literals_def some_differs_def dict_get_def)
    ultimately show ?thesis
      by (simp add: read_evaluation_def evaluation_def n)
  qed
  have sc: "read_schedule 6 (PList [segment 0 2 5, segment 2 4 1, segment 4 6 5]) = Inr (tk_schedule demo_task)"
    using read_small_int[of 5] read_small_int[of 1]
    by (simp add: read_schedule_def read_segment_def Let_def segment_def keys_are_def dict_keys_def demo_task_def)
  have "f64_sub (Fin 5) (Fin 1) = Fin 4" using f64_rep_of_int[of 4] by (simp add: f64_sub_def f64_rep_round)
  then have sl: "read_slow demo_library slow = Inr (demo_entry ''expert'' 5, ''simple'')"
    using names(1,2) read_small_int[of 4] read_small_int[of 1]
    by (simp add: read_slow_def slow_def keys_are_def dict_keys_def some_differs_def dict_get_def key_at_def library_behavior_def
        read_candidate_def Let_def demo_library_def demo_entry_def demo_stats_def isclose_self)
  have lb: "library_behavior demo_library ''simple'' = Inr (demo_entry ''simple'' 1)"
    by (simp add: library_behavior_def demo_library_def demo_entry_def)
  have t: "strip ''run then walk'' \<noteq> []" by code_simp
  show ?thesis unfolding e read_task_def
    using t demo_sha_hex demo_paths
    by (simp add: keys_are_def dict_keys_def task_keys_def some_differs_def dict_get_def v ev sc sl lb expected_hash_def insert_commute)
      (simp add: demo_task_def demo_library_def demo_entry_def demo_stats_def)
qed

lemma load_demo: "load_frozen_inputs demo_hash demo_json_scan ''library'' ''task'' = Inr (demo_library, demo_task)"
proof -
  obtain d where d: "load_tree demo_library_json = Inr (PDict d)" "json_depth (PDict d) \<le> 64" "json_nodes (PDict d) \<le> 200"
    using demo_library_tree by blast
  have "json_nodes (PDict d) \<le> 65536" using d(3) by linarith
  with d have "decode_json_object demo_json_scan ''library'' = Inr d"
    by (intro decode_items) (simp_all add: demo_json_scan_def)
  then have l: "read_json_object demo_json_scan ''library'' = Inr (tree_value demo_library_json)"
    using d(1) by (simp add: read_json_object_def tree_value_def)
  obtain e where e: "load_tree demo_task_json = Inr (PDict e)" "json_depth (PDict e) \<le> 64" "json_nodes (PDict e) \<le> 200"
    using demo_task_tree by blast
  have "json_nodes (PDict e) \<le> 65536" using e(3) by linarith
  with e have "decode_json_object demo_json_scan ''task'' = Inr e"
    by (intro decode_items) (simp_all add: demo_json_scan_def)
  then have t: "read_json_object demo_json_scan ''task'' = Inr (tree_value demo_task_json)"
    using e(1) by (simp add: read_json_object_def tree_value_def)
  show ?thesis
    by (simp add: load_frozen_inputs_def load_library_manifest_def load_task_spec_def l t demo_hash_def read_library_demo read_task_demo)
qed

section \<open>Properties\<close>

text \<open>
  C14. Inputs that \<open>load_frozen_inputs\<close> accepts are well-formed: every path is relative and stays
  below its root, every digest is one, the speed quantiles are ordered and the fall counts agree, the
  behaviors have distinct names; the task has distinct bounded seeds, a horizon between 1 and 1000,
  a schedule without gaps from 0 to the horizon, and is bound to the bytes of that library.
\<close>

theorem frozen_inputs_sound:
  assumes "load_frozen_inputs h scanner library_bytes task_bytes = Inr (lib, task)"
  shows "library_ok lib \<and> task_ok lib task \<and> tk_library_sha256 task = sha256_hex h library_bytes \<and> tk_sha256 task = sha256_hex h task_bytes"
  using load_frozen_inputs_ok[OF assms] by (auto simp: task_ok_def)

theorem frozen_inputs_sound_witness: "library_ok demo_library \<and> task_ok demo_library demo_task"
  using frozen_inputs_sound[OF load_demo] by blast

text \<open>
  The target speed of an accepted task is defined at every step of the horizon and nowhere
  else, and is the fast, then the slow, then the fast median, each on a nonempty interval; fast
  is the median of the expert, and slow that of a behavior no other is declared farther below it.
\<close>

lemma target_profile:
  assumes "load_frozen_inputs h scanner library_bytes task_bytes = Inr (lib, task)"
  shows "\<exists>expert slow a b. farthest_below lib expert slow \<and> tk_slow task = be_name slow \<and>
    0 < a \<and> a < b \<and> b < tk_horizon task \<and> (\<forall>n. target_at task (PInt n) =
      (if n < 0 \<or> tk_horizon task \<le> n then Inl TargetStep
       else Inr (if a \<le> n \<and> n < b then sp_median (be_speed slow) else sp_median (be_speed expert))))"
proof -
  have t: "task_ok lib task" using load_frozen_inputs_ok[OF assms] by blast
  then obtain expert slow where e: "farthest_below lib expert slow" "tk_slow task = be_name slow"
      "map sg_target (tk_schedule task) = [sp_median (be_speed expert), sp_median (be_speed slow), sp_median (be_speed expert)]"
    unfolding task_ok_def by (elim conjE exE) (rule that)
  have "contiguous 0 (tk_schedule task) (tk_horizon task)" using t by (simp add: task_ok_def)
  from target_at_ok[OF this e(3)] obtain a b where ab: "0 < a" "a < b" "b < tk_horizon task" "\<forall>n. target_at task (PInt n) =
      (if n < 0 \<or> tk_horizon task \<le> n then Inl TargetStep else Inr (if n < a then sp_median (be_speed expert)
        else if n < b then sp_median (be_speed slow) else sp_median (be_speed expert)))" by blast
  have "target_at task (PInt n) = (if n < 0 \<or> tk_horizon task \<le> n then Inl TargetStep
       else Inr (if a \<le> n \<and> n < b then sp_median (be_speed slow) else sp_median (be_speed expert)))" for n
    using ab(4) ab(1-3) by auto
  then show ?thesis using e ab(1-3) by blast
qed

lemma target_profile_witness: "\<forall>n. (\<exists>f. target_at demo_task (PInt n) = Inr f) \<longleftrightarrow> 0 \<le> n \<and> n < 6"
proof -
  have "tk_horizon demo_task = 6" by (simp add: demo_task_def)
  then show ?thesis using target_profile[OF load_demo] by auto
qed

end
