(* ===== verification/Executor.thy ===== *)
theory Executor
  imports CycleMachine HarnessInputs
begin

text \<open>
  The controller-switching executor, \<^verbatim>\<open>src/oracle_composition/harness/executor.py\<close>: one episode of
  the oracle machine over a simulator and a set of actors, its metrics and its trace.  Simulator
  and actors are the fields of \<open>world\<close>, functions of a state that stands for everything outside the
  program.  The theorems say that the episode is a run of \<open>OracleMachine\<close> on its own signals, which
  failures are left, what the metrics are, and that the stock reward does not influence the others.
\<close>

section \<open>The outside world\<close>

text \<open>
  An array is its shape and its values, after \<open>np.ascontiguousarray\<close>.  A field is \<open>None\<close> where the call
  raises.  \<open>sr_velocity\<close> is \<open>None\<close> when \<open>info\<close> is no mapping or lacks the key \<open>x_velocity\<close>.
\<close>

type_synonym array = "nat list \<times> f64 list"

datatype sim_value = PyValue pyval | NumpyFloat f64 | OtherValue

record sim_result =
  sr_observation :: array
  sr_reward :: sim_value
  sr_terminated :: bool
  sr_truncated :: bool
  sr_velocity :: "sim_value option"

record 'w world =
  w_reset :: "int \<Rightarrow> 'w \<Rightarrow> (array \<times> 'w) option"
  w_qpos :: "'w \<Rightarrow> array"
  w_act :: "string \<Rightarrow> f64 list \<Rightarrow> 'w \<Rightarrow> (array \<times> 'w) option"
  w_step :: "f64 list \<Rightarrow> 'w \<Rightarrow> (sim_result \<times> 'w) option"

text \<open>The bytes of a float32 array in C order.\<close>

record exec_env =
  ee_hash :: hasher
  ee_f32_bytes :: "f64 list \<Rightarrow> string"

datatype exec_error =
    ActorMissing | ResetFailed | ResetObservation | QposInvalid | QuaternionInvalid | TorsoInvalid
  | InitialFailed machine_error | TargetFailed input_error | SignalDrift | MachineFailed machine_error
  | ActorKey string | ActorFailed | ActionInvalid | StepFailed int | StepObservation
  | ValueType string | ValueOverflow string | ValueFinite string | VelocityMissing | PeriodZero | SpeedNotFinite | EndedEarly
  | NoSamples | SpeedErrorNotFinite | SampleBehavior | SumOverflow | SumInfinities | MeanZero
  | IdentitiesDiffer | IdentitiesInactive | TraceNotJson

section \<open>Data\<close>

record boundary_facts =
  bf_root_x :: f64
  bf_root_height :: f64
  bf_torso_up :: f64

definition outside_standing :: "f64 \<Rightarrow> f64 \<Rightarrow> bool" where
  "outside_standing height torso \<longleftrightarrow> \<not> (f64_lt (Fin 1) height \<and> f64_lt height (Fin 2)) \<or> f64_lt torso (Fin (1 / 2))"

definition fallen :: "boundary_facts \<Rightarrow> bool" where
  "fallen b = outside_standing (bf_root_height b) (bf_torso_up b)"

record metric_sample =
  ms_t :: int
  ms_target :: f64
  ms_speed :: f64
  ms_root_height :: f64
  ms_torso_up :: f64
  ms_reward :: f64
  ms_behavior :: string
  ms_switched :: bool

record episode_metrics =
  em_seed :: int
  em_steps :: int
  em_speed_error :: f64
  em_fall :: bool
  em_first_fall :: "int option"
  em_switches :: int
  em_time :: "(string \<times> int) list"
  em_return :: f64

definition metrics_to_dict :: "episode_metrics \<Rightarrow> pyval" where
  "metrics_to_dict m = PDict [
     (''fall'', PBool (em_fall m)),
     (''first_fall_step'', case em_first_fall m of None \<Rightarrow> PNone | Some n \<Rightarrow> PInt n),
     (''mean_absolute_speed_error_m_s'', PFloat (em_speed_error m)),
     (''observed_steps'', PInt (em_steps m)),
     (''seed'', PInt (em_seed m)),
     (''switch_count'', PInt (em_switches m)),
     (''task_return'', PFloat (em_return m)),
     (''time_in_each_behavior_steps'', PDict (map (\<lambda>(n, k). (n, PInt k)) (em_time m)))]"

record episode_execution =
  ex_metrics :: episode_metrics
  ex_initial :: boundary_facts
  ex_samples :: "metric_sample list"
  ex_trace_bytes :: string
  ex_trace_sha256 :: string

section \<open>Reading the simulator\<close>

definition sim_finite :: "string \<Rightarrow> sim_value \<Rightarrow> exec_error + f64" where
  "sim_finite field v = (case v of
       OtherValue \<Rightarrow> Inl (ValueType field)
     | NumpyFloat f \<Rightarrow> if is_finite f then Inr f else Inl (ValueFinite field)
     | PyValue p \<Rightarrow> (case read_number p of
           NotNumeric \<Rightarrow> Inl (ValueType field)
         | Overflow \<Rightarrow> Inl (ValueOverflow field)
         | Number f \<Rightarrow> if is_finite f then Inr f else Inl (ValueFinite field)))"

definition finite_array :: "nat \<Rightarrow> exec_error \<Rightarrow> array \<Rightarrow> exec_error + f64 list" where
  "finite_array n e a = (if fst a \<noteq> [n] \<or> \<not> list_all is_finite (snd a) then Inl e else Inr (snd a))"

definition square_sum :: "f64 \<Rightarrow> f64 \<Rightarrow> f64 \<Rightarrow> f64 \<Rightarrow> f64" where
  "square_sum w x y z = f64_add (f64_add (f64_add (f64_mul w w) (f64_mul x x)) (f64_mul y y)) (f64_mul z z)"

definition up_component :: "f64 \<Rightarrow> f64 \<Rightarrow> f64 \<Rightarrow> f64 \<Rightarrow> f64" where
  "up_component w x y z = f64_add (f64_sub (f64_sub (f64_mul w w) (f64_mul x x)) (f64_mul y y)) (f64_mul z z)"

definition boundary_of :: "array \<Rightarrow> exec_error + boundary_facts" where
  "boundary_of qpos = bindE (finite_array 24 QposInvalid qpos) (\<lambda>q.
     let w = q ! 3; x = q ! 4; y = q ! 5; z = q ! 6; norm_squared = square_sum w x y z in
     if \<not> is_finite norm_squared \<or> f64_le norm_squared (Fin 0) then Inl QuaternionInvalid
     else case f64_div (up_component w x y z) norm_squared of
       None \<Rightarrow> Inl QuaternionInvalid
     | Some torso_up \<Rightarrow> if \<not> is_finite torso_up \<or> \<not> (f64_le (Fin (- 1)) torso_up \<and> f64_le torso_up (Fin 1)) then Inl TorsoInvalid
         else Inr \<lparr>bf_root_x = q ! 0, bf_root_height = q ! 2, bf_torso_up = torso_up\<rparr>)"

section \<open>Metrics\<close>

text \<open>
  \<open>math.fsum\<close>: the exact sum, rounded once.  A partial sum outside the range of the floats raises
  \<open>OverflowError\<close>, two opposite infinities raise \<open>ValueError\<close>.
\<close>

fun finite_part :: "f64 \<Rightarrow> rat" where
  "finite_part (Fin q) = q"
| "finite_part _ = 0"

definition fsum :: "f64 list \<Rightarrow> exec_error + f64" where
  "fsum xs = (let qs = map finite_part (filter is_finite xs) in
     if list_ex (\<lambda>n. \<not> is_finite (f64_round (sum_list (take n qs)))) [0..<Suc (length qs)] then Inl SumOverflow
     else if PosInf \<in> set xs \<and> NegInf \<in> set xs then Inl SumInfinities
     else if NaN \<in> set xs then Inr NaN
     else if PosInf \<in> set xs then Inr PosInf
     else if NegInf \<in> set xs then Inr NegInf
     else Inr (f64_round (sum_list qs)))"

definition speed_error :: "metric_sample \<Rightarrow> f64" where
  "speed_error s = f64_abs (f64_sub (ms_speed s) (ms_target s))"

definition sample_fallen :: "metric_sample \<Rightarrow> bool" where
  "sample_fallen s = outside_standing (ms_root_height s) (ms_torso_up s)"

definition first_fall :: "boundary_facts \<Rightarrow> metric_sample list \<Rightarrow> int option" where
  "first_fall initial samples = (if fallen initial then Some 0
     else map_option (\<lambda>s. ms_t s + 1) (find sample_fallen samples))"

definition behavior_count :: "metric_sample list \<Rightarrow> string \<Rightarrow> int" where
  "behavior_count samples name = int (length (filter (\<lambda>s. ms_behavior s = name) samples))"

definition compute_episode_metrics :: "int \<Rightarrow> boundary_facts \<Rightarrow> metric_sample list \<Rightarrow> string list \<Rightarrow> exec_error + episode_metrics" where
  "compute_episode_metrics seed initial samples names =
     (if samples = [] then Inl NoSamples
      else let errors = map speed_error samples in
        if \<not> list_all is_finite errors then Inl SpeedErrorNotFinite
        else let fall = first_fall initial samples in
          if \<not> ms_behavior ` set samples \<subseteq> set names then Inl SampleBehavior
          else bindE (fsum (map ms_reward samples)) (\<lambda>task_return.
            bindE (fsum errors) (\<lambda>total.
            case f64_div total (Fin (of_nat (length errors))) of None \<Rightarrow> Inl MeanZero
            | Some mean \<Rightarrow> Inr \<lparr>em_seed = seed, em_steps = int (length samples), em_speed_error = mean,
                em_fall = (fall \<noteq> None), em_first_fall = fall, em_switches = int (length (filter ms_switched samples)),
                em_time = map (\<lambda>name. (name, behavior_count samples name)) (uniq names), em_return = task_return\<rparr>)))"

section \<open>The episode\<close>

definition be64 :: "nat \<Rightarrow> string" where
  "be64 n = map (\<lambda>k. char_of (n div 256 ^ (7 - k) mod 256)) [0..<8]"

text \<open>\<open>array_sha256\<close> of a float32 array.\<close>

definition array_sha256 :: "exec_env \<Rightarrow> array \<Rightarrow> string" where
  "array_sha256 E a = (let
       metadata = canonical_json (float_repr (ee_hash E)) (PDict [(''dtype'', PStr ''<f4''), (''shape'', PList (map (PInt \<circ> int) (fst a)))]);
       raw = ee_f32_bytes E (snd a)
     in sha256_hex (ee_hash E) (be64 (length metadata) @ metadata @ be64 (length raw) @ raw))"

definition physical_action :: "'w world \<Rightarrow> string \<Rightarrow> f64 list \<Rightarrow> 'w \<Rightarrow> exec_error + (f64 list \<times> 'w)" where
  "physical_action W name observation w = (case w_act W name observation w of
       None \<Rightarrow> Inl ActorFailed
     | Some (a, w') \<Rightarrow> bindE (finite_array 17 ActionInvalid a) (\<lambda>action. Inr (action, w')))"

text \<open>What one call of \<open>environment.step\<close> is checked for and gives.\<close>

record step_facts =
  sf_observation :: "f64 list"
  sf_reward :: f64
  sf_stock_speed :: f64
  sf_current :: boundary_facts
  sf_speed :: f64
  sf_truncated :: bool

definition observe_step :: "'w world \<Rightarrow> task_spec \<Rightarrow> boundary_facts \<Rightarrow> int \<Rightarrow> f64 list \<Rightarrow> 'w \<Rightarrow> exec_error + (step_facts \<times> 'w)" where
  "observe_step W task previous step action w = (case w_step W action w of
       None \<Rightarrow> Inl (StepFailed step)
     | Some (r, w') \<Rightarrow>
       bindE (finite_array 348 StepObservation (sr_observation r)) (\<lambda>observation.
       bindE (sim_finite ''stock reward'' (sr_reward r)) (\<lambda>reward.
       case sr_velocity r of None \<Rightarrow> Inl VelocityMissing
       | Some v \<Rightarrow> bindE (sim_finite ''stock info.x_velocity'' v) (\<lambda>stock_speed.
         bindE (boundary_of (w_qpos W w')) (\<lambda>current.
         case f64_div (f64_sub (bf_root_x current) (bf_root_x previous)) (tk_period task) of None \<Rightarrow> Inl PeriodZero
         | Some speed \<Rightarrow>
           if \<not> is_finite speed then Inl SpeedNotFinite
           else if sr_terminated r \<or> (sr_truncated r \<and> step + 1 \<noteq> tk_horizon task) then Inl EndedEarly
           else Inr (\<lparr>sf_observation = observation, sf_reward = reward, sf_stock_speed = stock_speed, sf_current = current,
                      sf_speed = speed, sf_truncated = sr_truncated r\<rparr>, w'))))))"

record 'w episode =
  ep_world :: 'w
  ep_machine :: machine
  ep_observation :: "f64 list"
  ep_previous :: boundary_facts
  ep_speed :: f64
  ep_samples :: "metric_sample list"
  ep_rows :: "pyval list"

definition episode_signals :: "boundary_facts \<Rightarrow> int \<Rightarrow> f64 \<Rightarrow> 'w episode \<Rightarrow> (string \<times> pyval) list" where
  "episode_signals initial step target s = [
     (''dwell'', PInt (mc_dwell (ep_machine s))),
     (''t'', PInt step),
     (''torso_up'', PFloat (bf_torso_up (ep_previous s))),
     (''v_target'', PFloat target),
     (''v_x'', PFloat (ep_speed s)),
     (''x_travelled'', PFloat (f64_sub (bf_root_x (ep_previous s)) (bf_root_x initial))),
     (''z_root'', PFloat (bf_root_height (ep_previous s)))]"

fun reason_text :: "decision_reason \<Rightarrow> string" where
  "reason_text RecoveryHold = ''recovery_hold''"
| "reason_text RecoveryRejoin = ''recovery_rejoin''"
| "reason_text RecoveryReentryDwell = ''recovery_reentry_dwell''"
| "reason_text RecoveryGuard = ''recovery_guard''"
| "reason_text (TransitionPriority p) = ''transition_priority_'' @ int_text p"
| "reason_text Hold = ''hold''"
| "reason_text OrdinaryTransitionDeferred = ''ordinary_transition_deferred''"

definition sample_of :: "int \<Rightarrow> f64 \<Rightarrow> decision \<Rightarrow> step_facts \<Rightarrow> metric_sample" where
  "sample_of step target d f = \<lparr>ms_t = step, ms_target = target, ms_speed = sf_speed f,
     ms_root_height = bf_root_height (sf_current f), ms_torso_up = bf_torso_up (sf_current f),
     ms_reward = sf_reward f, ms_behavior = dc_behavior d, ms_switched = dc_switched d\<rparr>"

definition trace_row :: "exec_env \<Rightarrow> boundary_facts \<Rightarrow> int \<Rightarrow> (string \<times> pyval) list \<Rightarrow> decision \<Rightarrow> f64 list \<Rightarrow> step_facts \<Rightarrow> pyval" where
  "trace_row E initial step signals d action f = PDict [
     (''active_behavior'', PStr (dc_behavior d)),
     (''active_state'', PStr (dc_state d)),
     (''physical_action_sha256'', PStr (array_sha256 E ([17], action))),
     (''post_boundary'', PDict [
       (''stock_info_x_velocity_m_s'', PFloat (sf_stock_speed f)),
       (''task_reward'', PFloat (sf_reward f)),
       (''torso_up'', PFloat (bf_torso_up (sf_current f))),
       (''truncated'', PBool (sf_truncated f)),
       (''v_x'', PFloat (sf_speed f)),
       (''x_travelled'', PFloat (f64_sub (bf_root_x (sf_current f)) (bf_root_x initial))),
       (''z_root'', PFloat (bf_root_height (sf_current f)))]),
     (''signals'', PDict signals),
     (''switch_flags'', PDict [
       (''controller_switched'', PBool (dc_switched d)),
       (''recovery_entered'', PBool (dc_recovery_entered d)),
       (''recovery_exited'', PBool (dc_recovery_exited d)),
       (''state_transition'', PBool (dc_transition d))]),
     (''switch_reason'', PStr (reason_text (dc_reason d))),
     (''t'', PInt step)]"

definition tag_error :: "('e \<Rightarrow> exec_error) \<Rightarrow> 'e + 'a \<Rightarrow> exec_error + 'a" where
  "tag_error f r = (case r of Inl e \<Rightarrow> Inl (f e) | Inr x \<Rightarrow> Inr x)"

text \<open>The body of the loop.\<close>

definition episode_step :: "exec_env \<Rightarrow> 'w world \<Rightarrow> string list \<Rightarrow> task_spec \<Rightarrow> boundary_facts \<Rightarrow> int \<Rightarrow> 'w episode \<Rightarrow>
    exec_error + 'w episode" where
  "episode_step E W actors task initial step s =
     bindE (tag_error TargetFailed (target_at task (PInt step))) (\<lambda>target.
     let signals = episode_signals initial step target s in
     if \<not> keys_are ALLOWED_SIGNALS signals then Inl SignalDrift
     else bindE (tag_error MachineFailed (decide (ep_machine s) signals True)) (\<lambda>(d, machine).
       if dc_behavior d \<notin> set actors then Inl (ActorKey (dc_behavior d))
       else bindE (physical_action W (dc_behavior d) (ep_observation s) (ep_world s)) (\<lambda>(action, w).
       bindE (observe_step W task (ep_previous s) step action w) (\<lambda>(f, w').
         Inr \<lparr>ep_world = w', ep_machine = advance machine, ep_observation = sf_observation f,
              ep_previous = sf_current f, ep_speed = sf_speed f,
              ep_samples = ep_samples s @ [sample_of step target d f],
              ep_rows = ep_rows s @ [trace_row E initial step signals d action f]\<rparr>))))"

definition start_episode :: "'w world \<Rightarrow> string list \<Rightarrow> cycle_program \<Rightarrow> int \<Rightarrow> 'w \<Rightarrow> exec_error + 'w episode" where
  "start_episode W actors program seed w =
     (if \<not> set (cy_behaviors program) \<subseteq> set actors then Inl ActorMissing
      else case w_reset W seed w of None \<Rightarrow> Inl ResetFailed
      | Some (raw, w') \<Rightarrow> bindE (finite_array 348 ResetObservation raw) (\<lambda>observation.
          bindE (boundary_of (w_qpos W w')) (\<lambda>initial.
          bindE (tag_error InitialFailed (mk_machine program)) (\<lambda>machine.
            Inr \<lparr>ep_world = w', ep_machine = machine, ep_observation = observation, ep_previous = initial,
                 ep_speed = Fin 0, ep_samples = [], ep_rows = []\<rparr>))))"

definition LEGACY_TRACE_SCHEMA_ID :: string where "LEGACY_TRACE_SCHEMA_ID = ''humanoid_controller_switching_trace/v1''"
definition TRACE_SCHEMA_ID :: string where "TRACE_SCHEMA_ID = ''humanoid_controller_switching_trace/v2''"

definition SCHEMA_VERSIONS :: "(string \<times> pyval) list" where
  "SCHEMA_VERSIONS = [(''execution_manifest'', PInt 1), (''oracle_contract'', PInt 1), (''report'', PInt 2),
     (''scientific_receipt'', PInt 2), (''telemetry'', PInt 1), (''trace'', PInt 2), (''trace_index'', PInt 2)]"

definition identity_names :: "string list" where
  "identity_names = [''actor_sha256_by_behavior'', ''archive_loader_sha256'', ''execution_manifest_sha256'',
     ''library_manifest_sha256'', ''metric_core_sha256'', ''oracle_file_sha256'', ''oracle_interpreter_sha256'', ''oracle_sha256'',
     ''report_writer_sha256'', ''runtime_fingerprint_sha256'', ''task_spec_sha256'']"

text \<open>The document of the trace; \<open>PNone\<close> stands for absent identities.\<close>

definition trace_document :: "exec_env \<Rightarrow> cycle_program \<Rightarrow> task_spec \<Rightarrow> int \<Rightarrow> string \<Rightarrow> pyval \<Rightarrow> pyval list \<Rightarrow> exec_error + pyval" where
  "trace_document E program task seed fingerprint identities rows =
     (let sha = cycle_sha256 (ee_hash E) program; legacy = (identities = PNone);
          trace = [
            (''evidence_class'', PStr EVIDENCE_CLASS), (''oracle_id'', PStr (cy_oracle_id program)), (''oracle_sha256'', PStr sha),
            (''runtime_fingerprint_sha256'', PStr fingerprint), (''schema_version'', PInt (if legacy then 1 else 2)),
            (''seed'', PInt seed), (''steps'', PList rows),
            (''trace_schema_id'', PStr (if legacy then LEGACY_TRACE_SCHEMA_ID else TRACE_SCHEMA_ID))]
      in if legacy then Inr (PDict trace)
         else case identities of
           PDict d \<Rightarrow> if \<not> keys_are identity_names d then Inl IdentitiesDiffer
             else if some_differs d [(''oracle_sha256'', PStr sha), (''runtime_fingerprint_sha256'', PStr fingerprint),
               (''task_spec_sha256'', PStr (tk_sha256 task))] then Inl IdentitiesInactive
             else Inr (PDict (trace @ [(''identities'', PDict d), (''schema_versions'', PDict SCHEMA_VERSIONS)]))
         | _ \<Rightarrow> Inl IdentitiesDiffer)"

definition execute_episode :: "exec_env \<Rightarrow> 'w world \<Rightarrow> string list \<Rightarrow> cycle_program \<Rightarrow> task_spec \<Rightarrow> int \<Rightarrow> string \<Rightarrow> pyval \<Rightarrow> 'w \<Rightarrow>
    exec_error + episode_execution" where
  "execute_episode E W actors program task seed fingerprint identities w =
     bindE (start_episode W actors program seed w) (\<lambda>s.
     let initial = ep_previous s in
     bindE (foldE (episode_step E W actors task initial) (map int [0..<nat (tk_horizon task)]) s) (\<lambda>s'.
     bindE (compute_episode_metrics seed initial (ep_samples s') actors) (\<lambda>metrics.
     bindE (trace_document E program task seed fingerprint identities (ep_rows s')) (\<lambda>trace.
     bindE (tag_error (\<lambda>_. TraceNotJson) (canonical_json_bytes (ee_hash E) trace)) (\<lambda>bytes.
       Inr \<lparr>ex_metrics = metrics, ex_initial = initial, ex_samples = ep_samples s', ex_trace_bytes = bytes,
            ex_trace_sha256 = sha256_hex (ee_hash E) bytes\<rparr>)))))"

section \<open>The torso axis in binary64\<close>

lemma round_abs_le:
  assumes "\<bar>a\<bar> \<le> b" "f64_round b = Fin r"
  obtains q where "f64_round a = Fin q" "\<bar>q\<bar> \<le> r"
proof -
  have "f64_le (f64_round a) (Fin r)" using f64_round_mono[of a b] assms by simp
  moreover have "f64_le (f64_neg (f64_round a)) (Fin r)"
    using f64_round_mono[of "- a" b] assms by (simp add: f64_round_uminus)
  ultimately show thesis using that by (cases "f64_round a") auto
qed

lemma f64_add_finite: "is_finite (f64_add a b) \<Longrightarrow> is_finite a \<and> is_finite b"
  by (cases a; cases b) auto

lemma square_finite: "is_finite (f64_mul a a) \<Longrightarrow> \<exists>q. f64_mul a a = Fin q \<and> 0 \<le> q"
  using f64_round_nonneg[of "q * q" for q] by (cases a) force+

text \<open>Each rounding is monotone, so the numerator never exceeds the denominator.\<close>

lemma up_component_bounded:
  assumes "is_finite (square_sum w x y z)"
  obtains u n where "up_component w x y z = Fin u" "square_sum w x y z = Fin n" "\<bar>u\<bar> \<le> n"
proof -
  let ?w = "f64_mul w w" and ?x = "f64_mul x x" and ?y = "f64_mul y y" and ?z = "f64_mul z z"
  have f: "is_finite (f64_add ?w ?x)" "is_finite (f64_add (f64_add ?w ?x) ?y)" "is_finite ?w" "is_finite ?x" "is_finite ?y" "is_finite ?z"
    using assms unfolding square_sum_def by (metis f64_add_finite)+
  obtain a b c d where q: "?w = Fin a" "?x = Fin b" "?y = Fin c" "?z = Fin d" and pos: "0 \<le> a" "0 \<le> b" "0 \<le> c" "0 \<le> d"
    using f(3-6) square_finite by metis
  obtain n1 where n1: "f64_round (a + b) = Fin n1" using f(1) q by (auto simp: is_finite_iff)
  obtain n2 where n2: "f64_round (n1 + c) = Fin n2" using f(2) q n1 by (auto simp: is_finite_iff)
  obtain n3 where n3: "f64_round (n2 + d) = Fin n3" using assms q n1 n2 by (auto simp: is_finite_iff square_sum_def)
  obtain u1 where u1: "f64_round (a - b) = Fin u1" "\<bar>u1\<bar> \<le> n1" by (rule round_abs_le[OF _ n1, of "a - b"]) (use pos in linarith)
  obtain u2 where u2: "f64_round (u1 - c) = Fin u2" "\<bar>u2\<bar> \<le> n2" by (rule round_abs_le[OF _ n2, of "u1 - c"]) (use u1 pos in linarith)
  obtain u3 where u3: "f64_round (u2 + d) = Fin u3" "\<bar>u3\<bar> \<le> n3" by (rule round_abs_le[OF _ n3, of "u2 + d"]) (use u2 pos in linarith)
  show thesis
    by (rule that[of u3 n3]) (simp_all add: up_component_def square_sum_def q f64_sub_def n1 n2 n3 u1 u2 u3)
qed

lemma torso_axis_bounded:
  assumes "is_finite (square_sum w x y z)" "\<not> f64_le (square_sum w x y z) (Fin 0)"
  obtains t where "f64_div (up_component w x y z) (square_sum w x y z) = Some (Fin t)" "- 1 \<le> t" "t \<le> 1"
proof -
  obtain u n where u: "up_component w x y z = Fin u" "square_sum w x y z = Fin n" "\<bar>u\<bar> \<le> n"
    using assms(1) by (rule up_component_bounded)
  then have n: "0 < n" using assms(2) by simp
  have "\<bar>u / n\<bar> \<le> 1" using u(3) n by (simp add: abs_divide)
  moreover have "f64_round 1 = Fin 1" by (simp add: f64_rep_round)
  ultimately obtain t where "f64_round (u / n) = Fin t" "\<bar>t\<bar> \<le> 1" by (rule round_abs_le)
  then show thesis using u n by (intro that[of t]) auto
qed

definition sized :: "array \<Rightarrow> bool" where
  "sized a \<longleftrightarrow> length (snd a) = prod_list (fst a)"

definition boundary_finite :: "boundary_facts \<Rightarrow> bool" where
  "boundary_finite b \<longleftrightarrow> is_finite (bf_root_x b) \<and> is_finite (bf_root_height b) \<and> is_finite (bf_torso_up b) \<and>
     f64_le (Fin (- 1)) (bf_torso_up b) \<and> f64_le (bf_torso_up b) (Fin 1)"

lemma boundary_of_cases:
  assumes "sized q"
  shows "boundary_of q = Inl QposInvalid \<or> boundary_of q = Inl QuaternionInvalid \<or> (\<exists>b. boundary_of q = Inr b \<and> boundary_finite b)"
proof (cases "fst q = [24] \<and> list_all is_finite (snd q)")
  case True
  then have q: "is_finite (snd q ! 0)" "is_finite (snd q ! 2)" "finite_array 24 QposInvalid q = Inr (snd q)"
    using assms by (auto simp: sized_def finite_array_def list_all_length)
  let ?n = "square_sum (snd q ! 3) (snd q ! 4) (snd q ! 5) (snd q ! 6)"
  show ?thesis
  proof (cases "\<not> is_finite ?n \<or> f64_le ?n (Fin 0)")
    case False
    then have "is_finite ?n" "\<not> f64_le ?n (Fin 0)" by simp_all
    then obtain t where "f64_div (up_component (snd q ! 3) (snd q ! 4) (snd q ! 5) (snd q ! 6)) ?n = Some (Fin t)" "- 1 \<le> t" "t \<le> 1"
      by (rule torso_axis_bounded)
    then show ?thesis using False q by (auto simp: boundary_of_def Let_def boundary_finite_def)
  qed (auto simp: boundary_of_def q Let_def)
qed (auto simp: boundary_of_def finite_array_def)

lemma boundary_of_Inr: "sized q \<Longrightarrow> boundary_of q = Inr b \<Longrightarrow> boundary_finite b"
  using boundary_of_cases[of q] by auto

section \<open>The loop as a run of the machine\<close>

lemma tag_error_Inr [simp]: "tag_error f r = Inr x \<longleftrightarrow> r = Inr x"
  by (cases r) (simp_all add: tag_error_def)

lemma tag_error_Inl [simp]: "tag_error f r = Inl e \<longleftrightarrow> (\<exists>e'. r = Inl e' \<and> e = f e')"
  by (cases r) (auto simp: tag_error_def)

lemma episode_stepE:
  assumes "episode_step E W actors task initial step s = Inr s'"
  obtains target d m action w f where "target_at task (PInt step) = Inr target"
    "decide (ep_machine s) (episode_signals initial step target s) True = Inr (d, m)" "dc_behavior d \<in> set actors"
    "physical_action W (dc_behavior d) (ep_observation s) (ep_world s) = Inr (action, w)"
    "observe_step W task (ep_previous s) step action w = Inr (f, ep_world s')"
    "s' = \<lparr>ep_world = ep_world s', ep_machine = advance m, ep_observation = sf_observation f, ep_previous = sf_current f,
       ep_speed = sf_speed f, ep_samples = ep_samples s @ [sample_of step target d f],
       ep_rows = ep_rows s @ [trace_row E initial step (episode_signals initial step target s) d action f]\<rparr>"
  using assms that unfolding episode_step_def by (auto simp: Let_def split: if_splits)

text \<open>
  What an episode has to do, step by step, from a machine, a simulator state, the observation the actors see, the
  boundary measured last and the speed measured last: the machine decides on the seven signals of this boundary,
  the actor of the decided controller, and no other, is asked for an action on the observation, the simulator is
  stepped with that action, and the sample reports what is measured after it.
\<close>

inductive episode_path :: "'w world \<Rightarrow> string list \<Rightarrow> task_spec \<Rightarrow> boundary_facts \<Rightarrow> int \<Rightarrow> machine \<Rightarrow> 'w \<Rightarrow> f64 list \<Rightarrow>
    boundary_facts \<Rightarrow> f64 \<Rightarrow> ((string \<times> pyval) list \<times> bool) list \<Rightarrow> decision list \<Rightarrow> metric_sample list \<Rightarrow> bool"
  for W actors task initial where
  finished: "episode_path W actors task initial step m w observation before speed [] [] []"
| step: "target_at task (PInt step) = Inr target \<Longrightarrow>
    map (dict_get signals) [''t'', ''v_target'', ''v_x'', ''z_root'', ''torso_up'', ''x_travelled'', ''dwell''] =
      map Some [PInt step, PFloat target, PFloat speed, PFloat (bf_root_height before), PFloat (bf_torso_up before),
        PFloat (f64_sub (bf_root_x before) (bf_root_x initial)), PInt (mc_dwell m)] \<Longrightarrow>
    control_step m (signals, True) = Inr (d, m') \<Longrightarrow> dc_behavior d \<in> set actors \<Longrightarrow>
    w_act W (dc_behavior d) observation w = Some (([17], action), w1) \<Longrightarrow> list_all is_finite action \<Longrightarrow>
    w_step W action w1 = Some (r, w2) \<Longrightarrow> sr_observation r = ([348], observation') \<Longrightarrow>
    boundary_of (w_qpos W w2) = Inr after \<Longrightarrow>
    f64_div (f64_sub (bf_root_x after) (bf_root_x before)) (tk_period task) = Some speed' \<Longrightarrow>
    sim_finite ''stock reward'' (sr_reward r) = Inr reward \<Longrightarrow>
    episode_path W actors task initial (step + 1) m' w2 observation' after speed' is ds xs \<Longrightarrow>
    episode_path W actors task initial step m w observation before speed ((signals, True) # is) (d # ds)
      (\<lparr>ms_t = step, ms_target = target, ms_speed = speed', ms_root_height = bf_root_height after, ms_torso_up = bf_torso_up after,
        ms_reward = reward, ms_behavior = dc_behavior d, ms_switched = dc_switched d\<rparr> # xs)"

lemma finite_array_Inr: "finite_array n e a = Inr v \<longleftrightarrow> a = ([n], v) \<and> list_all is_finite v"
  by (cases a) (auto simp: finite_array_def)

lemma observe_stepE:
  assumes "observe_step W task previous step action w = Inr (f, w')"
  obtains r where "w_step W action w = Some (r, w')" "sr_observation r = ([348], sf_observation f)"
    "sim_finite ''stock reward'' (sr_reward r) = Inr (sf_reward f)" "boundary_of (w_qpos W w') = Inr (sf_current f)"
    "f64_div (f64_sub (bf_root_x (sf_current f)) (bf_root_x previous)) (tk_period task) = Some (sf_speed f)"
  using assms by (auto simp: observe_step_def finite_array_Inr split: option.splits if_splits)

lemma episode_run:
  "foldE (episode_step E W actors task initial) (map ((+) step \<circ> int) [0..<n]) s = Inr s' \<Longrightarrow>
   \<exists>xs inputs ds. ep_samples s' = ep_samples s @ xs \<and> control_run (ep_machine s) inputs = Inr (ds, ep_machine s') \<and>
     map ms_t xs = map ((+) step \<circ> int) [0..<n] \<and>
     episode_path W actors task initial step (ep_machine s) (ep_world s) (ep_observation s) (ep_previous s) (ep_speed s) inputs ds xs"
proof (induction n arbitrary: s step)
  case 0
  then show ?case by (auto intro!: exI[of _ "[]"] episode_path.finished)
next
  case (Suc n)
  have steps: "map ((+) step \<circ> int) [0..<Suc n] = step # map ((+) (step + 1) \<circ> int) [0..<n]"
    by (simp only: upt_conv_Cons zero_less_Suc map_Suc_upt[symmetric]) (simp add: algebra_simps)
  obtain s1 where st: "episode_step E W actors task initial step s = Inr s1"
      "foldE (episode_step E W actors task initial) (map ((+) (step + 1) \<circ> int) [0..<n]) s1 = Inr s'"
    using Suc.prems unfolding steps by auto
  obtain target d m action w f where q: "target_at task (PInt step) = Inr target"
      "decide (ep_machine s) (episode_signals initial step target s) True = Inr (d, m)" "dc_behavior d \<in> set actors"
      "physical_action W (dc_behavior d) (ep_observation s) (ep_world s) = Inr (action, w)"
      "observe_step W task (ep_previous s) step action w = Inr (f, ep_world s1)"
    and s1: "s1 = \<lparr>ep_world = ep_world s1, ep_machine = advance m, ep_observation = sf_observation f, ep_previous = sf_current f,
       ep_speed = sf_speed f, ep_samples = ep_samples s @ [sample_of step target d f],
       ep_rows = ep_rows s @ [trace_row E initial step (episode_signals initial step target s) d action f]\<rparr>"
    using st(1) by (rule episode_stepE)
  have e: "ep_machine s1 = advance m" "ep_samples s1 = ep_samples s @ [sample_of step target d f]"
      "ep_speed s1 = sf_speed f" "ep_previous s1 = sf_current f" "ep_observation s1 = sf_observation f" by (subst s1, simp)+
  from Suc.IH[OF st(2), unfolded e] obtain xs inputs ds where h: "ep_samples s' = (ep_samples s @ [sample_of step target d f]) @ xs"
      "control_run (advance m) inputs = Inr (ds, ep_machine s')" "map ms_t xs = map ((+) (step + 1) \<circ> int) [0..<n]"
      "episode_path W actors task initial (step + 1) (advance m) (ep_world s1) (sf_observation f) (sf_current f) (sf_speed f) inputs ds xs"
    by blast
  let ?signals = "episode_signals initial step target s"
  obtain r where r: "w_step W action w = Some (r, ep_world s1)" "sr_observation r = ([348], sf_observation f)"
    "sim_finite ''stock reward'' (sr_reward r) = Inr (sf_reward f)" "boundary_of (w_qpos W (ep_world s1)) = Inr (sf_current f)"
    "f64_div (f64_sub (bf_root_x (sf_current f)) (bf_root_x (ep_previous s))) (tk_period task) = Some (sf_speed f)"
    using q(5) by (rule observe_stepE)
  have act: "w_act W (dc_behavior d) (ep_observation s) (ep_world s) = Some (([17], action), w)" "list_all is_finite action"
    using q(4) by (auto simp: physical_action_def finite_array_Inr split: option.splits)
  have sig: "map (dict_get ?signals) [''t'', ''v_target'', ''v_x'', ''z_root'', ''torso_up'', ''x_travelled'', ''dwell''] =
      map Some [PInt step, PFloat target, PFloat (ep_speed s), PFloat (bf_root_height (ep_previous s)), PFloat (bf_torso_up (ep_previous s)),
        PFloat (f64_sub (bf_root_x (ep_previous s)) (bf_root_x initial)), PInt (mc_dwell (ep_machine s))]"
    by (simp add: episode_signals_def dict_get_def)
  have one: "control_step (ep_machine s) (?signals, True) = Inr (d, advance m)" using q(2) by (simp add: control_step_def)
  have "control_run (ep_machine s) ((?signals, True) # inputs) = Inr (d # ds, ep_machine s')" using one h(2) by simp
  moreover have "ep_samples s' = ep_samples s @ sample_of step target d f # xs" using h(1) by simp
  moreover have "map ms_t (sample_of step target d f # xs) = map ((+) step \<circ> int) [0..<Suc n]"
    unfolding steps using h(3) by (simp add: sample_of_def)
  moreover have "episode_path W actors task initial step (ep_machine s) (ep_world s) (ep_observation s) (ep_previous s) (ep_speed s)
      ((?signals, True) # inputs) (d # ds) (sample_of step target d f # xs)"
    unfolding sample_of_def by (rule episode_path.step[OF q(1) sig one q(3) act r(1,2,4,5,3) h(4)])
  ultimately show ?case by blast
qed

lemma path_lengths: "episode_path W actors task initial step m w observation before speed inputs ds xs \<Longrightarrow>
    length ds = length xs \<and> map ms_behavior xs = map dc_behavior ds"
  by (induction rule: episode_path.induct) simp_all

section \<open>What can fail\<close>

lemma decide_failsD:
  assumes "cycle_ok parser p" "machine_reachable p m" "decide m signals allow = Inl e"
  shows "machine_signals (mc_dwell m) signals = Inl e \<or> e = RecoveryTooLong"
proof (cases "machine_signals (mc_dwell m) signals")
  case (Inl e')
  then show ?thesis using assms(3) by (simp add: decide_def)
next
  case (Inr s)
  note inv = control_reachable_inv[OF assms(1,2)]
  have "ordinary m s allow \<noteq> Inl e" by (simp add: ordinary_spec[OF assms(1) inv machine_signals_complete[OF Inr]])
  then show ?thesis using assms(3) unfolding decide_spec[OF assms(1) inv Inr] by (auto simp: Let_def split: if_splits)
qed

lemma decide_dwell:
  assumes "cycle_ok parser p" "machine_inv p m" "decide m signals allow = Inr (d, m')"
  shows "mc_dwell m' = mc_dwell m \<or> mc_dwell m' = 0"
  using assms
proof (cases rule: decide_cases)
  case (ordinarily s)
  then show ?thesis unfolding ordinary_spec[OF assms(1,2) machine_signals_complete[OF ordinarily(2)]]
    by (auto simp: take_transition_def Let_def split: if_splits list.splits)
qed (simp_all add: rejoined_def enter_recovery_def Let_def)

lemma decide_behavior_declared:
  assumes "cycle_ok parser p" "machine_reachable p m" "decide m signals allow = Inr (d, m')"
  shows "dc_behavior d \<in> set (cy_behaviors p)"
proof -
  have "control_step m (signals, allow) = Inr (d, advance m')" using assms(3) by (simp add: control_step_def)
  then have inv: "machine_inv p (advance m')" by (rule control_step_inv[OF assms(1) control_reachable_inv[OF assms(1,2)]])
  have "mc_behavior (advance m') \<in> set (cy_behaviors p)"
  proof (cases "mc_recovery_active m'")
    case True
    then obtain r where "cy_recovery p = Some r" "mc_behavior m' = r_behavior r" using inv by (auto simp: machine_inv_def split: option.splits)
    then show ?thesis using assms(1) by (simp add: cycle_ok_def recovery_ok_def)
  next
    case False
    then have "mc_behavior m' = behavior_of p (mc_state m')" "mc_state m' \<in> fst ` set (cy_states p)"
      using inv by (simp_all add: machine_inv_def)
    moreover from this(2) obtain st where "map_of (cy_states p) (mc_state m') = Some st" by (metis domD dom_map_of_conv_image_fst)
    ultimately show ?thesis
      using assms(1) map_of_SomeD by (fastforce simp: behavior_of_def cycle_ok_def list_all_iff state_entry_ok_def)
  qed
  then show ?thesis using decision_reports[OF assms] by simp
qed

lemma sorted_signals: "sort ALLOWED_SIGNALS = [''dwell'', ''t'', ''torso_up'', ''v_target'', ''v_x'', ''x_travelled'', ''z_root'']"
  by code_simp

lemma episode_signals_fail:
  assumes "machine_signals (mc_dwell (ep_machine s)) (episode_signals initial step target s) = Inl e"
    and "\<bar>mc_dwell (ep_machine s)\<bar> \<le> 2 ^ 53" "\<bar>step\<bar> \<le> 2 ^ 53" "is_finite target" "is_finite (ep_speed s)" "boundary_finite (ep_previous s)"
  shows "e = SignalInvalid ''x_travelled''"
proof -
  have f: "read_number (PInt (mc_dwell (ep_machine s))) = Number (Fin (of_int (mc_dwell (ep_machine s))))"
    "read_number (PInt step) = Number (Fin (of_int step))" by (rule read_small_int[OF assms(2)], rule read_small_int[OF assms(3)])
  have k: "keys_are ALLOWED_SIGNALS [(''dwell'', a), (''t'', b), (''torso_up'', c), (''v_target'', d), (''v_x'', g), (''x_travelled'', h), (''z_root'', i)]"
    for a b c d g h i :: pyval by (auto simp: keys_are_def dict_keys_def ALLOWED_SIGNALS_def)
  show ?thesis
    using assms(1,4-6) k
    by (auto simp: machine_signals_def episode_signals_def dict_get_def sorted_signals finite_value_def f boundary_finite_def
        bindE_eq_Inl simp del: read_number.simps(1) split: if_splits)
qed

definition episode_inv :: "cycle_program \<Rightarrow> string list \<Rightarrow> int \<Rightarrow> 'w episode \<Rightarrow> bool" where
  "episode_inv p actors k s \<longleftrightarrow> machine_reachable p (ep_machine s) \<and> mc_dwell (ep_machine s) \<le> k \<and>
     boundary_finite (ep_previous s) \<and> is_finite (ep_speed s) \<and> int (length (ep_samples s)) = k \<and>
     ms_behavior ` set (ep_samples s) \<subseteq> set actors"

lemma observe_step_facts:
  assumes "observe_step W task previous step action w = Inr (f, w')" "\<forall>w. sized (w_qpos W w)"
  shows "boundary_finite (sf_current f) \<and> is_finite (sf_speed f)"
proof -
  have "boundary_of (w_qpos W w) = Inr b \<Longrightarrow> boundary_finite b" for w b using boundary_of_Inr assms(2) by blast
  then show ?thesis using assms(1) by (auto simp: observe_step_def split: option.splits if_splits)
qed

lemma episode_step_inv:
  assumes "cycle_ok parser p" "episode_inv p actors k s" "episode_step E W actors task initial k s = Inr s'"
    and "\<forall>w. sized (w_qpos W w)" "0 \<le> k"
  shows "episode_inv p actors (k + 1) s'"
proof -
  obtain target d m action w f where q: "decide (ep_machine s) (episode_signals initial k target s) True = Inr (d, m)"
      "dc_behavior d \<in> set actors" "observe_step W task (ep_previous s) k action w = Inr (f, ep_world s')"
    and s': "s' = \<lparr>ep_world = ep_world s', ep_machine = advance m, ep_observation = sf_observation f, ep_previous = sf_current f,
       ep_speed = sf_speed f, ep_samples = ep_samples s @ [sample_of k target d f],
       ep_rows = ep_rows s @ [trace_row E initial k (episode_signals initial k target s) d action f]\<rparr>"
    using assms(3) by (rule episode_stepE)
  have e: "ep_machine s' = advance m" "ep_samples s' = ep_samples s @ [sample_of k target d f]"
      "ep_speed s' = sf_speed f" "ep_previous s' = sf_current f" by (subst s', simp)+
  have r: "machine_reachable p (ep_machine s)" using assms(2) by (simp add: episode_inv_def)
  have "control_step (ep_machine s) (episode_signals initial k target s, True) = Inr (d, advance m)"
    using q(1) by (simp add: control_step_def)
  with r have "machine_reachable p (advance m)" by (rule machine_reachable.step)
  moreover have "mc_dwell m \<le> k" using decide_dwell[OF assms(1) control_reachable_inv[OF assms(1) r] q(1)] assms(2,5)
    by (auto simp: episode_inv_def)
  ultimately show ?thesis
    using assms(2) q(2) observe_step_facts[OF q(3) assms(4)] by (auto simp: episode_inv_def e sample_of_def)
qed

text \<open>The errors that accepted inputs and an accepted program exclude.\<close>

fun excluded :: "exec_error \<Rightarrow> bool" where
  "excluded TorsoInvalid = True"
| "excluded (InitialFailed e) = True"
| "excluded (TargetFailed e) = True"
| "excluded SignalDrift = True"
| "excluded (MachineFailed e) = (e \<noteq> RecoveryTooLong \<and> e \<noteq> SignalInvalid ''x_travelled'')"
| "excluded (ActorKey b) = True"
| "excluded PeriodZero = True"
| "excluded NoSamples = True"
| "excluded SampleBehavior = True"
| "excluded MeanZero = True"
| "excluded _ = False"

lemma f64_div_nonzero: "q \<noteq> 0 \<Longrightarrow> \<exists>r. f64_div a (Fin q) = Some r"
  by (cases a) auto

lemma sim_finite_errors: "sim_finite field v = Inl e \<Longrightarrow> \<not> excluded e"
  by (auto simp: sim_finite_def split: sim_value.splits num_read.splits if_splits)

lemma finite_array_errors: "finite_array n e a = Inl e' \<Longrightarrow> e' = e"
  by (auto simp: finite_array_def split: if_splits)

lemma case_eq_Inl:
  "(case x of None \<Rightarrow> Inl a | Some y \<Rightarrow> f y) = Inl e \<longleftrightarrow> (x = None \<and> e = a) \<or> (\<exists>y. x = Some y \<and> f y = Inl e)"
  "(if c then Inl a else r) = Inl e \<longleftrightarrow> (c \<and> e = a) \<or> (\<not> c \<and> r = Inl e)"
  by (cases x) auto

lemma observe_step_errors:
  assumes "observe_step W task previous step action w = Inl e" "\<forall>w. sized (w_qpos W w)" "tk_period task = Fin q" "q \<noteq> 0"
  shows "\<not> excluded e"
proof -
  have b: "boundary_of (w_qpos W w') = Inl e \<Longrightarrow> \<not> excluded e" for w'
    using boundary_of_cases[of "w_qpos W w'"] assms(2) by auto
  have d: "f64_div x (tk_period task) \<noteq> None" for x using f64_div_nonzero[OF assms(4), of x] assms(3) by auto
  show ?thesis
    using assms(1) b d unfolding observe_step_def bindE_eq_Inl case_eq_Inl split_paired_Ex prod.case
    by (auto dest: sim_finite_errors finite_array_errors)
qed

lemma episode_step_errors:
  assumes "cycle_ok parser p" "episode_inv p actors k s" "episode_step E W actors task initial k s = Inl e"
    and "task_ok lib task" "library_ok lib" "0 \<le> k" "k < tk_horizon task"
    and "set (cy_behaviors p) \<subseteq> set actors" "\<forall>w. sized (w_qpos W w)" "tk_period task = Fin q" "q \<noteq> 0"
  shows "\<not> excluded e"
proof -
  obtain target where t: "target_at task (PInt k) = Inr target" "is_finite target"
    using task_targets.target_defined[of lib task k] assms(4-7) by blast
  let ?signals = "episode_signals initial k target s"
  have r: "machine_reachable p (ep_machine s)" and fin: "boundary_finite (ep_previous s)" "is_finite (ep_speed s)"
    and "mc_dwell (ep_machine s) \<le> k" using assms(2) by (simp_all add: episode_inv_def)
  moreover have "0 \<le> mc_dwell (ep_machine s)" using control_reachable_inv[OF assms(1) r] by (simp add: machine_inv_def)
  moreover have "tk_horizon task \<le> 1000" using task_targets.horizon_bounded[of lib task] assms(4,5) by blast
  ultimately have small: "\<bar>mc_dwell (ep_machine s)\<bar> \<le> 2 ^ 53" "\<bar>k\<bar> \<le> 2 ^ 53" using assms(6,7) by simp_all
  have keys: "keys_are ALLOWED_SIGNALS ?signals"
    by (auto simp: keys_are_def dict_keys_def ALLOWED_SIGNALS_def episode_signals_def)
  have machine: "decide (ep_machine s) ?signals True = Inl e' \<Longrightarrow> \<not> excluded (MachineFailed e')" for e'
    using decide_failsD[OF assms(1) r, of ?signals True e'] episode_signals_fail[OF _ small t(2) fin(2,1), of initial e'] by auto
  have act: "physical_action W n x w = Inl e' \<Longrightarrow> \<not> excluded e'" for n x w e'
    by (auto simp: physical_action_def bindE_eq_Inl split: option.splits dest!: finite_array_errors)
  have obs: "observe_step W task prev step action w = Inl e' \<Longrightarrow> \<not> excluded e'" for prev step action w e'
    by (rule observe_step_errors[OF _ assms(9-11)])
  have beh: "decide (ep_machine s) ?signals True = Inr (d, m) \<Longrightarrow> dc_behavior d \<in> set actors" for d m
    using decide_behavior_declared[OF assms(1) r] assms(8) by blast
  show ?thesis
    using assms(3) machine act obs beh unfolding episode_step_def Let_def bindE_eq_Inl case_eq_Inl split_paired_Ex prod.case tag_error_Inl tag_error_Inr t(1)
    by (auto simp: keys)
qed

lemma episode_loop:
  assumes "cycle_ok parser p" "task_ok lib task" "library_ok lib"
    and "set (cy_behaviors p) \<subseteq> set actors" "\<forall>w. sized (w_qpos W w)" "tk_period task = Fin q" "q \<noteq> 0"
  shows "episode_inv p actors (int k) s \<Longrightarrow> int (k + n) \<le> tk_horizon task \<Longrightarrow>
    case foldE (episode_step E W actors task initial) (map int [k..<k + n]) s of
      Inl e \<Rightarrow> \<not> excluded e | Inr s' \<Rightarrow> episode_inv p actors (int (k + n)) s'"
proof (induction n arbitrary: k s)
  case (Suc n)
  have eq: "k + Suc n = Suc k + n" by simp
  have u: "map int [k..<k + Suc n] = int k # map int [Suc k..<Suc k + n]" by (simp add: upt_conv_Cons)
  show ?case
  proof (cases "episode_step E W actors task initial (int k) s")
    case (Inl e)
    then have "\<not> excluded e" using Suc.prems by (intro episode_step_errors[OF assms(1) Suc.prems(1) Inl assms(2,3) _ _ assms(4-7)]) simp_all
    then show ?thesis unfolding u by (simp add: Inl)
  next
    case (Inr s1)
    have "episode_inv p actors (int (Suc k)) s1"
      using episode_step_inv[OF assms(1) Suc.prems(1) Inr assms(5)] by (simp add: add.commute)
    then show ?thesis using Suc.IH[of "Suc k" s1] Suc.prems(2) unfolding u unfolding eq
      by (simp add: Inr del: upt_Suc)
  qed
qed simp

lemma start_episodeE:
  assumes "start_episode W actors program seed w = Inr s"
  obtains raw w' where "set (cy_behaviors program) \<subseteq> set actors" "w_reset W seed w = Some (raw, w')"
    "boundary_of (w_qpos W w') = Inr (ep_previous s)" "mk_machine program = Inr (ep_machine s)" "ep_world s = w'"
    "ep_speed s = Fin 0" "ep_samples s = []" "ep_rows s = []" "finite_array 348 ResetObservation raw = Inr (ep_observation s)"
  using assms by (auto simp: start_episode_def split: if_splits option.splits)

lemma mk_machine_dwell: "mk_machine p = Inr m \<Longrightarrow> mc_dwell m = 0"
  by (auto simp: mk_machine_def split: option.splits)

lemma start_episode_inv:
  assumes "start_episode W actors program seed w = Inr s" "\<forall>w. sized (w_qpos W w)"
  shows "episode_inv program actors 0 s"
proof -
  obtain w' where s: "boundary_of (w_qpos W w') = Inr (ep_previous s)" "mk_machine program = Inr (ep_machine s)"
      "ep_speed s = Fin 0" "ep_samples s = []"
    using assms(1) by (rule start_episodeE)
  have "mc_dwell (ep_machine s) = 0" using s(2) by (rule mk_machine_dwell)
  then show ?thesis
    using s boundary_of_Inr[OF _ s(1)] assms(2) by (simp add: episode_inv_def machine_reachable.start)
qed

lemma start_episode_errors:
  assumes "start_episode W actors program seed w = Inl e" "cycle_ok parser program" "\<forall>w. sized (w_qpos W w)"
  shows "\<not> excluded e"
proof -
  have m: "mk_machine program \<noteq> Inl e'" for e'
    using assms(2) by (auto simp: mk_machine_def cycle_ok_def map_of_eq_None_iff split: option.splits)
  have b: "boundary_of (w_qpos W w') = Inl e \<Longrightarrow> \<not> excluded e" for w'
    using boundary_of_cases[of "w_qpos W w'"] assms(3) by auto
  show ?thesis
    using assms(1) m b unfolding start_episode_def bindE_eq_Inl case_eq_Inl split_paired_Ex prod.case tag_error_Inl
    by (auto simp: bindE_eq_Inl split: option.splits dest: finite_array_errors)
qed

lemma metrics_errors:
  assumes "compute_episode_metrics seed initial xs names = Inl e" "xs \<noteq> []" "ms_behavior ` set xs \<subseteq> set names"
  shows "\<not> excluded e"
proof -
  have f: "fsum ys = Inl e \<Longrightarrow> \<not> excluded e" for ys by (auto simp: fsum_def Let_def split: if_splits)
  have d: "f64_div t (Fin (rat_of_nat (length xs))) \<noteq> None" for t
    using f64_div_nonzero[of "of_nat (length xs)" t] assms(2) by auto
  show ?thesis
    using assms(1,2,3) f d unfolding compute_episode_metrics_def Let_def bindE_eq_Inl case_eq_Inl length_map by auto
qed

lemma execute_errors:
  assumes "load_frozen_inputs h scanner lb tb = Inr (lib, task)" "cycle_ok parser program" "\<forall>w. sized (w_qpos W w)"
    and "execute_episode E W actors program task seed fingerprint identities w = Inl e"
  shows "\<not> excluded e"
proof (cases "start_episode W actors program seed w")
  case (Inl e')
  then show ?thesis using assms(4) start_episode_errors[OF Inl assms(2,3)] by (simp add: execute_episode_def)
next
  case (Inr s)
  have ok: "task_ok lib task" "library_ok lib" using load_frozen_inputs_ok[OF assms(1)] by blast+
  have h: "1 \<le> tk_horizon task" using task_targets.horizon_bounded[of lib task] ok by blast
  have "fin_in CONTROL_PERIOD (pow2 (- 7)) 1"
    unfolding CONTROL_PERIOD_def by (intro round_in f64_rep_pow2 f64_rep_consts) (simp_all add: pow2_def)
  then obtain q where q: "CONTROL_PERIOD = Fin q" "pow2 (- 7) \<le> q" by (auto simp: fin_in_def)
  moreover have "q \<noteq> 0" using q(2) pow2_pos[of "- 7"] by linarith
  moreover have "tk_period task = CONTROL_PERIOD" using ok(1) by (simp add: task_ok_def)
  ultimately have q: "tk_period task = Fin q" "q \<noteq> 0" by simp_all
  have sub: "set (cy_behaviors program) \<subseteq> set actors" using Inr by (rule start_episodeE)
  have "episode_inv program actors (int 0) s" using start_episode_inv[OF Inr assms(3)] by simp
  moreover have "int (0 + nat (tk_horizon task)) \<le> tk_horizon task" using h by simp
  ultimately have loop: "case foldE (episode_step E W actors task (ep_previous s)) (map int [0..<0 + nat (tk_horizon task)]) s of
      Inl e \<Rightarrow> \<not> excluded e | Inr s' \<Rightarrow> episode_inv program actors (int (0 + nat (tk_horizon task))) s'"
    by (rule episode_loop[OF assms(2) ok sub assms(3) q])
  show ?thesis
  proof (cases "foldE (episode_step E W actors task (ep_previous s)) (map int [0..<nat (tk_horizon task)]) s")
    case (Inl e')
    then show ?thesis using assms(4) loop h by (simp add: execute_episode_def Inr Let_def)
  next
    case s': (Inr s')
    have "episode_inv program actors (tk_horizon task) s'" using loop s' h by simp
    then have xs: "ep_samples s' \<noteq> []" "ms_behavior ` set (ep_samples s') \<subseteq> set actors" using h by (auto simp: episode_inv_def)
    have "compute_episode_metrics seed (ep_previous s) (ep_samples s') actors = Inl e \<Longrightarrow> \<not> excluded e"
      by (rule metrics_errors[OF _ xs])
    moreover have "trace_document E program task seed fingerprint identities rows = Inl e \<Longrightarrow> \<not> excluded e" for rows
      by (auto simp: trace_document_def Let_def split: if_splits pyval.splits)
    ultimately show ?thesis
      using assms(4) unfolding execute_episode_def Inr Let_def s' bindE_simps bindE_eq_Inl tag_error_Inl by auto
  qed
qed

section \<open>What the metrics say\<close>

definition fallen_at :: "boundary_facts \<Rightarrow> metric_sample list \<Rightarrow> nat \<Rightarrow> bool" where
  "fallen_at initial xs k = (if k = 0 then fallen initial else sample_fallen (xs ! (k - 1)))"

lemma first_fall_spec:
  assumes "map ms_t xs = map int [0..<length xs]"
  shows "case first_fall initial xs of
      None \<Rightarrow> \<forall>k \<le> length xs. \<not> fallen_at initial xs k
    | Some n \<Rightarrow> \<exists>k \<le> length xs. n = int k \<and> fallen_at initial xs k \<and> (\<forall>j < k. \<not> fallen_at initial xs j)"
proof (cases "fallen initial")
  case True
  then show ?thesis by (simp add: first_fall_def fallen_at_def)
next
  case False
  have t: "ms_t (xs ! i) = int i" if "i < length xs" for i
    using arg_cong[OF assms, of "\<lambda>ts. ts ! i"] that by simp
  show ?thesis
  proof (cases "find sample_fallen xs")
    case None
    then have "\<forall>x \<in> set xs. \<not> sample_fallen x" by (simp add: find_None_iff2)
    then show ?thesis using False None by (auto simp: first_fall_def fallen_at_def)
  next
    case (Some x)
    then obtain i where i: "i < length xs" "sample_fallen (xs ! i)" "x = xs ! i" "\<forall>j < i. \<not> sample_fallen (xs ! j)"
      by (auto simp: find_Some_iff)
    have "\<forall>j < Suc i. \<not> fallen_at initial xs j" using False i(4) by (auto simp: fallen_at_def)
    then show ?thesis using False i t[OF i(1)] by (auto simp: first_fall_def Some fallen_at_def intro!: exI[of _ "Suc i"])
  qed
qed

lemma sum_counts:
  "ms_behavior ` set xs \<subseteq> set ns \<Longrightarrow> distinct ns \<Longrightarrow> sum_list (map (behavior_count xs) ns) = int (length xs)"
proof (induction xs)
  case (Cons x xs)
  have "sum_list (map (behavior_count (x # xs)) ns) = sum_list (map (\<lambda>n. of_bool (n = ms_behavior x) + behavior_count xs n) ns)"
    by (intro arg_cong[where f = sum_list]) (auto simp: behavior_count_def)
  also have "\<dots> = sum_list (map (\<lambda>n. of_bool (n = ms_behavior x)) ns) + sum_list (map (behavior_count xs) ns)"
    by (rule sum_list_addf)
  also have "sum_list (map (\<lambda>n. of_bool (n = ms_behavior x)) ns) = (1::int)"
    using Cons.prems by (simp add: sum_list_distinct_conv_sum_set of_bool_def)
  finally show ?case using Cons by simp
next
  case Nil
  have "behavior_count [] = (\<lambda>_. 0)" by (simp add: behavior_count_def fun_eq_iff)
  then show ?case by simp
qed

lemma computeE:
  assumes "compute_episode_metrics seed initial xs names = Inr m"
  obtains "ms_behavior ` set xs \<subseteq> set names" "em_seed m = seed" "em_steps m = int (length xs)" "em_first_fall m = first_fall initial xs"
    "em_fall m = (first_fall initial xs \<noteq> None)" "em_switches m = int (length (filter ms_switched xs))"
    "em_time m = map (\<lambda>name. (name, behavior_count xs name)) (uniq names)"
  using assms by (auto simp: compute_episode_metrics_def Let_def split: if_splits option.splits)

lemma compute_succeeds:
  assumes "xs \<noteq> []" "list_all is_finite (map speed_error xs)" "ms_behavior ` set xs \<subseteq> set names"
    and "fsum (map ms_reward xs) = Inr r" "fsum (map speed_error xs) = Inr t"
  shows "\<exists>m. compute_episode_metrics seed initial xs names = Inr m"
proof -
  obtain q where "f64_div t (Fin (rat_of_nat (length xs))) = Some q"
    using f64_div_nonzero[of "of_nat (length xs)" t] assms(1) by auto
  then show ?thesis using assms by (simp add: compute_episode_metrics_def Let_def)
qed

lemma executeE:
  assumes "execute_episode E W actors program task seed fingerprint identities w = Inr e"
  obtains s s' where "start_episode W actors program seed w = Inr s" "ex_initial e = ep_previous s"
    "foldE (episode_step E W actors task (ep_previous s)) (map int [0..<nat (tk_horizon task)]) s = Inr s'"
    "compute_episode_metrics seed (ep_previous s) (ep_samples s') actors = Inr (ex_metrics e)" "ex_samples e = ep_samples s'"
  using assms by (auto simp: execute_episode_def Let_def)

lemma execute_run:
  assumes "execute_episode E W actors program task seed fingerprint identities w = Inr e"
  shows "\<exists>m0 observation w0 inputs ds m. mk_machine program = Inr m0 \<and> w_reset W seed w = Some (([348], observation), w0) \<and>
     boundary_of (w_qpos W w0) = Inr (ex_initial e) \<and> control_run m0 inputs = Inr (ds, m) \<and>
     map ms_t (ex_samples e) = map int [0..<nat (tk_horizon task)] \<and>
     episode_path W actors task (ex_initial e) 0 m0 w0 observation (ex_initial e) (Fin 0) inputs ds (ex_samples e)"
proof -
  obtain s s' where s: "start_episode W actors program seed w = Inr s" "ex_initial e = ep_previous s"
    "foldE (episode_step E W actors task (ep_previous s)) (map int [0..<nat (tk_horizon task)]) s = Inr s'"
    "ex_samples e = ep_samples s'" using assms by (rule executeE)
  have i: "mk_machine program = Inr (ep_machine s)" "ep_speed s = Fin 0" "ep_samples s = []"
      "w_reset W seed w = Some (([348], ep_observation s), ep_world s)" "boundary_of (w_qpos W (ep_world s)) = Inr (ep_previous s)"
    using s(1) by (auto simp: start_episode_def finite_array_Inr split: option.splits if_splits)
  have z: "(+) (0 :: int) \<circ> int = int" by auto
  from episode_run[of E W actors task "ep_previous s" 0 "nat (tk_horizon task)" s s', unfolded z, OF s(3)] show ?thesis
    unfolding s(2,4) i(2,3) append_Nil using i(1,4,5) by blast
qed

section \<open>The stock reward is only reported\<close>

definition erase :: "metric_sample \<Rightarrow> metric_sample" where
  "erase x = x\<lparr>ms_reward := Fin 0\<rparr>"

text \<open>Two worlds that differ only in the reward and the velocity the simulator reports.\<close>

definition same_dynamics :: "'w world \<Rightarrow> 'w world \<Rightarrow> bool" where
  "same_dynamics V W \<longleftrightarrow> w_reset V = w_reset W \<and> w_qpos V = w_qpos W \<and> w_act V = w_act W \<and>
     (\<forall>action w r r' u u'. w_step V action w = Some (r, u) \<longrightarrow> w_step W action w = Some (r', u') \<longrightarrow>
        u = u' \<and> sr_observation r = sr_observation r' \<and> sr_terminated r = sr_terminated r' \<and> sr_truncated r = sr_truncated r')"

definition same_episode :: "'w episode \<Rightarrow> 'w episode \<Rightarrow> bool" where
  "same_episode s t \<longleftrightarrow> ep_world s = ep_world t \<and> ep_machine s = ep_machine t \<and> ep_observation s = ep_observation t \<and>
     ep_previous s = ep_previous t \<and> ep_speed s = ep_speed t \<and> map erase (ep_samples s) = map erase (ep_samples t)"

lemma observe_same:
  assumes "same_dynamics V W" "observe_step V task previous step action w = Inr (f, u)" "observe_step W task previous step action w = Inr (g, v)"
  shows "u = v \<and> sf_observation f = sf_observation g \<and> sf_current f = sf_current g \<and> sf_speed f = sf_speed g"
proof -
  obtain r r' where r: "w_step V action w = Some (r, u)" "w_step W action w = Some (r', v)"
      "finite_array 348 StepObservation (sr_observation r) = Inr (sf_observation f)"
      "finite_array 348 StepObservation (sr_observation r') = Inr (sf_observation g)"
      "boundary_of (w_qpos V u) = Inr (sf_current f)" "boundary_of (w_qpos W v) = Inr (sf_current g)"
      "f64_div (f64_sub (bf_root_x (sf_current f)) (bf_root_x previous)) (tk_period task) = Some (sf_speed f)"
      "f64_div (f64_sub (bf_root_x (sf_current g)) (bf_root_x previous)) (tk_period task) = Some (sf_speed g)"
    using assms(2,3) by (auto simp: observe_step_def split: option.splits if_splits)
  have "u = v" "sr_observation r = sr_observation r'" "w_qpos V = w_qpos W"
    using assms(1) r(1,2) unfolding same_dynamics_def by blast+
  then show ?thesis using r(3-8) by simp
qed

lemma episode_step_same:
  assumes "same_dynamics V W" "same_episode s t"
    and "episode_step E V actors task initial step s = Inr s'" "episode_step E W actors task initial step t = Inr t'"
  shows "same_episode s' t'"
proof -
  obtain target d m action w f where a: "target_at task (PInt step) = Inr target"
      "decide (ep_machine s) (episode_signals initial step target s) True = Inr (d, m)"
      "physical_action V (dc_behavior d) (ep_observation s) (ep_world s) = Inr (action, w)"
      "observe_step V task (ep_previous s) step action w = Inr (f, ep_world s')"
    and s': "s' = \<lparr>ep_world = ep_world s', ep_machine = advance m, ep_observation = sf_observation f, ep_previous = sf_current f,
       ep_speed = sf_speed f, ep_samples = ep_samples s @ [sample_of step target d f],
       ep_rows = ep_rows s @ [trace_row E initial step (episode_signals initial step target s) d action f]\<rparr>"
    using assms(3) by (rule episode_stepE)
  obtain target' d' m' action' w' g where b: "target_at task (PInt step) = Inr target'"
      "decide (ep_machine t) (episode_signals initial step target' t) True = Inr (d', m')"
      "physical_action W (dc_behavior d') (ep_observation t) (ep_world t) = Inr (action', w')"
      "observe_step W task (ep_previous t) step action' w' = Inr (g, ep_world t')"
    and t': "t' = \<lparr>ep_world = ep_world t', ep_machine = advance m', ep_observation = sf_observation g, ep_previous = sf_current g,
       ep_speed = sf_speed g, ep_samples = ep_samples t @ [sample_of step target' d' g],
       ep_rows = ep_rows t @ [trace_row E initial step (episode_signals initial step target' t) d' action' g]\<rparr>"
    using assms(4) by (rule episode_stepE)
  have eq: "ep_world s = ep_world t" "ep_machine s = ep_machine t" "ep_observation s = ep_observation t" "ep_previous s = ep_previous t"
    "ep_speed s = ep_speed t" using assms(2) by (simp_all add: same_episode_def)
  have "target' = target" using a(1) b(1) by simp
  moreover have "episode_signals initial step target t = episode_signals initial step target s" by (simp add: episode_signals_def eq)
  ultimately have d: "target' = target" "d' = d" "m' = m" using a(2) b(2) eq(2) by simp_all
  have "physical_action V n x u = physical_action W n x u" for n x u
    using assms(1) by (simp add: physical_action_def same_dynamics_def)
  then have "action' = action" "w' = w" using a(3) b(3) d(2) eq by simp_all
  then have o: "ep_world s' = ep_world t'" "sf_observation f = sf_observation g" "sf_current f = sf_current g" "sf_speed f = sf_speed g"
    using observe_same[OF assms(1) a(4), of g "ep_world t'"] b(4) eq(4) by simp_all
  have "erase (sample_of step target d f) = erase (sample_of step target d g)" by (simp add: erase_def sample_of_def o)
  moreover have "ep_machine s' = advance m" "ep_observation s' = sf_observation f" "ep_previous s' = sf_current f"
    "ep_speed s' = sf_speed f" "ep_samples s' = ep_samples s @ [sample_of step target d f]" by (subst s', simp)+
  moreover have "ep_machine t' = advance m'" "ep_observation t' = sf_observation g" "ep_previous t' = sf_current g"
    "ep_speed t' = sf_speed g" "ep_samples t' = ep_samples t @ [sample_of step target' d' g]" by (subst t', simp)+
  ultimately show ?thesis using assms(2) by (simp add: same_episode_def o d)
qed

lemma episode_loop_same:
  "same_dynamics V W \<Longrightarrow> same_episode s t \<Longrightarrow> foldE (episode_step E V actors task initial) steps s = Inr s' \<Longrightarrow>
   foldE (episode_step E W actors task initial) steps t = Inr t' \<Longrightarrow> same_episode s' t'"
proof (induction steps arbitrary: s t)
  case (Cons step steps)
  then obtain s1 t1 where "episode_step E V actors task initial step s = Inr s1" "foldE (episode_step E V actors task initial) steps s1 = Inr s'"
      "episode_step E W actors task initial step t = Inr t1" "foldE (episode_step E W actors task initial) steps t1 = Inr t'" by auto
  then show ?case using Cons.IH episode_step_same[OF Cons.prems(1,2)] Cons.prems(1) by blast
qed simp

lemma erase_sel [simp]: "ms_t (erase x) = ms_t x" "speed_error (erase x) = speed_error x" "sample_fallen (erase x) = sample_fallen x"
  "ms_behavior (erase x) = ms_behavior x" "ms_switched (erase x) = ms_switched x"
  by (simp_all add: erase_def speed_error_def sample_fallen_def)

lemma erase_lists:
  "length xs = length ys \<Longrightarrow> map erase xs = map erase ys \<Longrightarrow>
    map_option ms_t (find sample_fallen xs) = map_option ms_t (find sample_fallen ys) \<and> map speed_error xs = map speed_error ys \<and>
    length (filter ms_switched xs) = length (filter ms_switched ys) \<and> ms_behavior ` set xs = ms_behavior ` set ys \<and>
    length (filter (\<lambda>s. ms_behavior s = b) xs) = length (filter (\<lambda>s. ms_behavior s = b) ys)"
proof (induction xs ys rule: list_induct2)
  case (Cons x xs y ys)
  then have "erase x = erase y" by simp
  then have "ms_t x = ms_t y" "speed_error x = speed_error y" "sample_fallen x = sample_fallen y" "ms_behavior x = ms_behavior y"
    "ms_switched x = ms_switched y" by (metis erase_sel)+
  with Cons show ?case by simp
qed simp

lemma metrics_erase:
  assumes "compute_episode_metrics seed initial xs names = Inr m" "compute_episode_metrics seed initial ys names = Inr n"
    and "map erase xs = map erase ys"
  shows "m\<lparr>em_return := Fin 0\<rparr> = n\<lparr>em_return := Fin 0\<rparr>"
proof -
  have l: "length xs = length ys" using assms(3) by (metis length_map)
  note f = erase_lists[OF l assms(3)]
  have "first_fall initial xs = first_fall initial ys"
    using f unfolding first_fall_def by (cases "find sample_fallen xs"; cases "find sample_fallen ys") auto
  moreover have "behavior_count xs = behavior_count ys" by (rule ext) (simp add: behavior_count_def f)
  moreover have "map speed_error xs = map speed_error ys" "length (filter ms_switched xs) = length (filter ms_switched ys)" using f by blast+
  ultimately show ?thesis
    using assms(1,2) l by (auto simp: compute_episode_metrics_def Let_def split: if_splits option.splits)
qed

lemma execute_same:
  assumes "same_dynamics V W"
    and "execute_episode E V actors program task seed fingerprint identities w = Inr d"
    and "execute_episode E W actors program task seed fingerprint identities w = Inr e"
  shows "(ex_metrics d)\<lparr>em_return := Fin 0\<rparr> = (ex_metrics e)\<lparr>em_return := Fin 0\<rparr> \<and>
    ex_initial d = ex_initial e \<and> map erase (ex_samples d) = map erase (ex_samples e)"
proof -
  obtain s s' where s: "start_episode V actors program seed w = Inr s" "ex_initial d = ep_previous s"
    "foldE (episode_step E V actors task (ep_previous s)) (map int [0..<nat (tk_horizon task)]) s = Inr s'"
    "compute_episode_metrics seed (ep_previous s) (ep_samples s') actors = Inr (ex_metrics d)" "ex_samples d = ep_samples s'"
    using assms(2) by (rule executeE)
  obtain t t' where t: "start_episode W actors program seed w = Inr t" "ex_initial e = ep_previous t"
    "foldE (episode_step E W actors task (ep_previous t)) (map int [0..<nat (tk_horizon task)]) t = Inr t'"
    "compute_episode_metrics seed (ep_previous t) (ep_samples t') actors = Inr (ex_metrics e)" "ex_samples e = ep_samples t'"
    using assms(3) by (rule executeE)
  have "start_episode V actors program seed w = start_episode W actors program seed w"
  proof -
    have q: "w_reset V = w_reset W" "w_qpos V = w_qpos W" using assms(1) by (simp_all add: same_dynamics_def)
    show ?thesis unfolding start_episode_def q ..
  qed
  then have "t = s" using s(1) t(1) by simp
  have "same_episode s s" by (simp add: same_episode_def)
  then have "same_episode s' t'" using episode_loop_same[OF assms(1) _ s(3)] t(3) \<open>t = s\<close> by blast
  then have "map erase (ep_samples s') = map erase (ep_samples t')" by (simp add: same_episode_def)
  then show ?thesis using metrics_erase[OF s(4)] t(4,2,5) s(2,5) \<open>t = s\<close> by simp
qed

section \<open>An example\<close>

text \<open>A simulator that stands still, with a given reward, and one whose steps raise.\<close>

definition still_qpos :: array where
  "still_qpos = ([24], Fin 0 # Fin 0 # Fin (3 / 2) # Fin 1 # replicate 20 (Fin 0))"

definition still_world :: "f64 \<Rightarrow> unit world" where
  "still_world reward = \<lparr>w_reset = (\<lambda>_ _. Some (([348], replicate 348 (Fin 0)), ())), w_qpos = (\<lambda>_. still_qpos),
     w_act = (\<lambda>_ _ _. Some (([17], replicate 17 (Fin 0)), ())),
     w_step = (\<lambda>_ _. Some (\<lparr>sr_observation = ([348], replicate 348 (Fin 0)), sr_reward = NumpyFloat reward,
       sr_terminated = False, sr_truncated = False, sr_velocity = Some (NumpyFloat reward)\<rparr>, ()))\<rparr>"

definition broken_world :: "unit world" where
  "broken_world = (still_world (Fin 0))\<lparr>w_step := (\<lambda>_ _. None)\<rparr>"

definition still_program :: cycle_program where
  "still_program = \<lparr>cy_oracle_id = ''single_fast'', cy_behaviors = [''expert''], cy_initial = ''fast'',
     cy_states = [(''fast'', \<lparr>st_behavior = ''expert'', st_min_dwell = 0\<rparr>)], cy_transitions = [], cy_recovery = None\<rparr>"

definition still_task :: task_spec where
  "still_task = demo_task\<lparr>tk_horizon := 2, tk_period := Fin (1 / 2)\<rparr>"

definition still_env :: exec_env where
  "still_env = \<lparr>ee_hash = demo_hash, ee_f32_bytes = (\<lambda>_. [])\<rparr>"

definition still_boundary :: boundary_facts where
  "still_boundary = \<lparr>bf_root_x = Fin 0, bf_root_height = Fin (3 / 2), bf_torso_up = Fin 1\<rparr>"

definition still_machine :: "int \<Rightarrow> machine" where
  "still_machine dwell = \<lparr>mc_program = still_program, mc_state = ''fast'', mc_behavior = ''expert'', mc_dwell = dwell,
     mc_recovery_active = False, mc_recovery_elapsed = 0, mc_reentry_remaining = 0, mc_outgoing = []\<rparr>"

definition still_decision :: decision where
  "still_decision = \<lparr>dc_state = ''fast'', dc_behavior = ''expert'', dc_switched = False, dc_transition = False,
     dc_recovery_entered = False, dc_recovery_exited = False, dc_reason = Hold\<rparr>"

lemma still_program_ok: "cycle_ok walk_parser still_program"
proof -
  have "oracle_program_from_dict walk_parser [PStr ''expert''] False (cycle_to_dict still_program) = Inr still_program"
    "dicts_ok (cycle_to_dict still_program)" by code_simp+
  then show ?thesis using oracle_program_from_dict_ok by blast
qed

lemma still_start: "mk_machine still_program = Inr (still_machine 0)"
  by (simp add: mk_machine_def still_program_def still_machine_def group_outgoing_def)

lemma still_boundary_of: "boundary_of still_qpos = Inr still_boundary"
  by (simp add: boundary_of_def still_qpos_def finite_array_def square_sum_def up_component_def f64_sub_def f64_rep_round
      still_boundary_def Let_def list_all_iff)

lemma still_decide:
  assumes "\<bar>dwell\<bar> \<le> 2 ^ 53" "\<bar>step\<bar> \<le> 2 ^ 53" "is_finite target" "ep_machine s = still_machine dwell"
    "ep_previous s = still_boundary" "ep_speed s = Fin 0"
  shows "decide (still_machine dwell) (episode_signals still_boundary step target s) True = Inr (still_decision, still_machine dwell)"
proof -
  have f: "read_number (PInt dwell) = Number (Fin (of_int dwell))" "read_number (PInt step) = Number (Fin (of_int step))"
    by (rule read_small_int[OF assms(1)], rule read_small_int[OF assms(2)])
  have k: "keys_are ALLOWED_SIGNALS [(''dwell'', a), (''t'', b), (''torso_up'', c), (''v_target'', d), (''v_x'', g), (''x_travelled'', h), (''z_root'', i)]"
    for a b c d g h i :: pyval by (auto simp: keys_are_def dict_keys_def ALLOWED_SIGNALS_def)
  have "\<exists>checked. machine_signals dwell (episode_signals still_boundary step target s) = Inr checked"
    using k assms(3) by (simp add: machine_signals_def episode_signals_def dict_get_def sorted_signals finite_value_def f assms(4-6)
        still_boundary_def f64_sub_def f64_rep_round still_machine_def del: read_number.simps(1))
  then show ?thesis
    by (auto simp: decide_def still_machine_def still_program_def ordinary_def unchanged_def still_decision_def Let_def)
qed

definition still_facts :: "f64 \<Rightarrow> step_facts" where
  "still_facts reward = \<lparr>sf_observation = replicate 348 (Fin 0), sf_reward = reward, sf_stock_speed = reward, sf_current = still_boundary,
     sf_speed = Fin 0, sf_truncated = False\<rparr>"

lemma still_observe: "is_finite reward \<Longrightarrow>
    observe_step (still_world reward) still_task still_boundary step action () = Inr (still_facts reward, ())"
  by (simp add: observe_step_def still_world_def finite_array_def sim_finite_def still_boundary_of still_task_def still_boundary_def
      f64_sub_def f64_rep_round still_facts_def list_all_iff)

definition still_at :: "int \<Rightarrow> metric_sample list \<Rightarrow> pyval list \<Rightarrow> unit episode" where
  "still_at n xs rows = \<lparr>ep_world = (), ep_machine = still_machine n, ep_observation = replicate 348 (Fin 0), ep_previous = still_boundary,
     ep_speed = Fin 0, ep_samples = xs, ep_rows = rows\<rparr>"

lemma still_at_sel [simp]: "ep_previous (still_at n xs rows) = still_boundary" "ep_samples (still_at n xs rows) = xs"
  "ep_rows (still_at n xs rows) = rows"
  by (simp_all add: still_at_def)

lemma still_step:
  assumes "0 \<le> n" "n < 2" "is_finite reward"
  shows "episode_step still_env (still_world reward) [''expert''] still_task still_boundary n (still_at n xs rows) =
    Inr (still_at (n + 1) (xs @ [sample_of n (Fin 5) still_decision (still_facts reward)])
      (rows @ [trace_row still_env still_boundary n (episode_signals still_boundary n (Fin 5) (still_at n xs rows)) still_decision
        (replicate 17 (Fin 0)) (still_facts reward)]))"
proof -
  have t: "target_at still_task (PInt n) = Inr (Fin 5)"
    using assms(1,2) by (simp add: target_at_def still_task_def demo_task_def)
  have d: "decide (still_machine n) (episode_signals still_boundary n (Fin 5) (still_at n xs rows)) True = Inr (still_decision, still_machine n)"
    using assms(1,2) by (intro still_decide) (simp_all add: still_at_def)
  have k: "keys_are ALLOWED_SIGNALS (episode_signals still_boundary n (Fin 5) (still_at n xs rows))"
    by (auto simp: keys_are_def dict_keys_def ALLOWED_SIGNALS_def episode_signals_def)
  have a: "physical_action (still_world reward) ''expert'' obs () = Inr (replicate 17 (Fin 0), ())" for obs
    by (simp add: physical_action_def still_world_def finite_array_def list_all_iff)
  have m: "advance (still_machine n) = still_machine (n + 1)" by (simp add: advance_def still_machine_def)
  show ?thesis
    using k d by (simp add: episode_step_def t Let_def tag_error_def still_at_def still_decision_def a still_observe[OF assms(3)] m)
      (simp add: still_facts_def)
qed

definition still_row :: "f64 \<Rightarrow> int \<Rightarrow> pyval" where
  "still_row reward n = trace_row still_env still_boundary n (episode_signals still_boundary n (Fin 5) (still_at n [] []))
     still_decision (replicate 17 (Fin 0)) (still_facts reward)"

lemma still_row_step:
  assumes "0 \<le> n" "n < 2" "is_finite reward"
  shows "episode_step still_env (still_world reward) [''expert''] still_task still_boundary n (still_at n xs rows) =
    Inr (still_at (n + 1) (xs @ [sample_of n (Fin 5) still_decision (still_facts reward)]) (rows @ [still_row reward n]))"
proof -
  have "episode_signals still_boundary n (Fin 5) (still_at n xs rows) = episode_signals still_boundary n (Fin 5) (still_at n [] [])"
    by (simp add: episode_signals_def still_at_def)
  then show ?thesis using still_step[OF assms] by (simp add: still_row_def)
qed

lemma still_row_json: "\<bar>n\<bar> < 100 \<Longrightarrow> is_finite reward \<Longrightarrow> finite_floats (still_row reward n) \<and> encodable (still_row reward n)"
  by (simp add: still_row_def trace_row_def episode_signals_def still_at_def still_boundary_def
        still_facts_def still_machine_def f64_sub_def f64_rep_round small_int_text del: encodable.simps(1))

lemma still_executes:
  assumes "reward \<in> {Fin 0, Fin 5}"
  shows "\<exists>e. execute_episode still_env (still_world reward) [''expert''] still_program still_task 7 ''0'' PNone () = Inr e"
proof -
  have fin: "is_finite reward" using assms by auto
  let ?step = "episode_step still_env (still_world reward) [''expert''] still_task still_boundary"
  let ?x = "\<lambda>n. sample_of n (Fin 5) still_decision (still_facts reward)"
  have start: "start_episode (still_world reward) [''expert''] still_program 7 () = Inr (still_at 0 [] [])"
    by (simp add: start_episode_def still_program_def[THEN arg_cong[of _ _ cy_behaviors]] still_world_def finite_array_def list_all_iff
        still_boundary_of still_start tag_error_def still_at_def)
  have steps: "map int [0..<nat (tk_horizon still_task)] = [0, 1]" by (simp add: still_task_def upt_rec)
  let ?rows = "[still_row reward 0, still_row reward 1]"
  have loop: "foldE ?step [0, 1] (still_at 0 [] []) = Inr (still_at 2 [?x 0, ?x 1] ?rows)"
    using still_row_step[of 0 reward "[]" "[]"] still_row_step[of 1 reward "[?x 0]" "[still_row reward 0]"] fin by simp
  have e: "speed_error (?x n) = Fin 5" for n
    using f64_abs_round[of "- 5"] by (simp add: speed_error_def sample_of_def still_facts_def f64_sub_def f64_rep_round)
  have sums: "fsum [Fin 5, Fin 5] = Inr (Fin 10)" "fsum [Fin 0, Fin 0] = Inr (Fin 0)"
    by (simp_all add: fsum_def f64_rep_round upt_rec)
  obtain m where metrics: "compute_episode_metrics 7 still_boundary [?x 0, ?x 1] [''expert''] = Inr m"
  proof -
    have "map ms_reward [?x 0, ?x 1] = [reward, reward]" "ms_behavior ` set [?x 0, ?x 1] \<subseteq> set [''expert'']"
      by (simp_all add: sample_of_def still_facts_def still_decision_def)
    moreover have "map speed_error [?x 0, ?x 1] = [Fin 5, Fin 5]" by (simp add: e)
    moreover obtain r where "fsum [reward, reward] = Inr r" using assms sums by blast
    ultimately show thesis using compute_succeeds[of "[?x 0, ?x 1]" "[''expert'']" r "Fin 10" 7 still_boundary] sums(1) that by auto
  qed
  have sha: "ee_hash still_env = demo_hash" by (simp add: still_env_def)
  obtain doc where doc: "trace_document still_env still_program still_task 7 ''0'' PNone ?rows = Inr doc" "finite_floats doc" "encodable doc"
    using still_row_json[of 0 reward] still_row_json[of 1 reward] fin
    by (simp add: trace_document_def Let_def small_int_text del: encodable.simps(1))
  obtain b where "canonical_json_bytes demo_hash doc = Inr b" using canonical_bytes_total[OF doc(2,3)] by blast
  then show ?thesis
    by (simp add: execute_episode_def start Let_def steps loop metrics doc(1) sha tag_error_def del: foldE.simps)
qed

section \<open>Properties\<close>

text \<open>
  C12. An episode that completes is a run of \<open>OracleMachine\<close> on the program, one decision per step of the
  horizon, from the reset on.  Each decision sees its own step, the target of that step, the speed, height, torso
  axis and distance measured after the step before, and the machine's own dwell; the actor of the decided
  controller computes the action from the last observation, the simulator is stepped with that action, and the
  sample of the step holds what is measured then, with the decision's controller and switch.
\<close>

theorem executor_refines_machine:
  assumes "execute_episode E W actors program task seed fingerprint identities w = Inr e"
  shows "\<exists>m0 observation w0 inputs ds m. mk_machine program = Inr m0 \<and> w_reset W seed w = Some (([348], observation), w0) \<and>
     boundary_of (w_qpos W w0) = Inr (ex_initial e) \<and> control_run m0 inputs = Inr (ds, m) \<and>
     map ms_t (ex_samples e) = map int [0..<nat (tk_horizon task)] \<and>
     episode_path W actors task (ex_initial e) 0 m0 w0 observation (ex_initial e) (Fin 0) inputs ds (ex_samples e)"
  using assms by (rule execute_run)

theorem executor_refines_machine_witness:
  "\<exists>e m0 observation inputs ds m. execute_episode still_env (still_world (Fin 5)) [''expert''] still_program still_task 7 ''0'' PNone () = Inr e \<and>
     control_run m0 inputs = Inr (ds, m) \<and> length ds = 2 \<and>
     episode_path (still_world (Fin 5)) [''expert''] still_task (ex_initial e) 0 m0 () observation (ex_initial e) (Fin 0) inputs ds (ex_samples e)"
proof -
  obtain e where e: "execute_episode still_env (still_world (Fin 5)) [''expert''] still_program still_task 7 ''0'' PNone () = Inr e"
    using still_executes by blast
  obtain m0 observation w0 inputs ds m where r: "control_run m0 inputs = Inr (ds, m)"
      "map ms_t (ex_samples e) = map int [0..<nat (tk_horizon still_task)]"
      "episode_path (still_world (Fin 5)) [''expert''] still_task (ex_initial e) 0 m0 w0 observation (ex_initial e) (Fin 0) inputs ds (ex_samples e)"
    using executor_refines_machine[OF e] by blast
  have "length ds = 2" using path_lengths[OF r(3)] arg_cong[OF r(2), of length] by (simp add: still_task_def)
  then show ?thesis using e r(1,3) by (metis (full_types) old.unit.exhaust)
qed


text \<open>
  C13. With inputs that \<open>load_frozen_inputs\<close> accepted and a well-formed program, an episode can only
  fail for the simulator, the actors, the identities it is given, a number beyond the floats, or
  a recovery that lasts too long: no look-up, no guard, no target, no dwell and no torso check of
  the program itself ever refuses.
\<close>

theorem execution_failures:
  assumes "load_frozen_inputs h scanner library_bytes task_bytes = Inr (lib, task)" "cycle_ok parser program"
    and "\<forall>w. sized (w_qpos W w)"
    and "execute_episode E W actors program task seed fingerprint identities w = Inl e"
  shows "\<not> excluded e"
  using assms by (rule execute_errors)

theorem execution_failures_witness:
  "execute_episode still_env broken_world [''expert''] still_program demo_task 7 ''0'' PNone () = Inl (StepFailed 0) \<and> \<not> excluded (StepFailed 0)"
proof -
  have start: "start_episode broken_world [''expert''] still_program 7 () = Inr (still_at 0 [] [])"
    by (simp add: start_episode_def still_program_def[THEN arg_cong[of _ _ cy_behaviors]] broken_world_def still_world_def finite_array_def
        list_all_iff still_boundary_of still_start tag_error_def still_at_def)
  have steps: "map int [0..<nat (tk_horizon demo_task)] = [0, 1, 2, 3, 4, 5]" by (simp add: demo_task_def upt_rec)
  have d: "decide (still_machine 0) (episode_signals still_boundary 0 (Fin 5) (still_at 0 [] [])) True = Inr (still_decision, still_machine 0)"
    by (intro still_decide) (simp_all add: still_at_def)
  have k: "keys_are ALLOWED_SIGNALS (episode_signals still_boundary 0 (Fin 5) (still_at 0 [] []))"
    by (auto simp: keys_are_def dict_keys_def ALLOWED_SIGNALS_def episode_signals_def)
  have "target_at demo_task (PInt 0) = Inr (Fin 5)" by (simp add: target_at_def demo_task_def)
  then have "episode_step still_env broken_world [''expert''] demo_task still_boundary 0 (still_at 0 [] []) = Inl (StepFailed 0)"
    using k d by (simp add: episode_step_def Let_def tag_error_def still_at_def still_decision_def physical_action_def broken_world_def
        still_world_def finite_array_def list_all_iff observe_step_def)
  then have x: "execute_episode still_env broken_world [''expert''] still_program demo_task 7 ''0'' PNone () = Inl (StepFailed 0)"
    by (simp add: execute_episode_def start Let_def steps)
  have "\<forall>w. sized (w_qpos broken_world w)" by (simp add: broken_world_def still_world_def sized_def still_qpos_def)
  from execution_failures[OF load_demo still_program_ok this x] x show ?thesis by simp
qed

text \<open>
  The metrics of a completed episode agree with its samples: as many steps as the horizon,
  the steps of the behaviors add up to the horizon, as many switches as switching decisions, and
  the first fall is the first boundary, counting the reset as boundary 0, at which the body is
  outside the standing range.
\<close>

lemma episode_metrics_consistent:
  assumes "execute_episode E W actors program task seed fingerprint identities w = Inr e" "0 \<le> tk_horizon task"
  shows "em_steps (ex_metrics e) = tk_horizon task \<and> sum_list (map snd (em_time (ex_metrics e))) = tk_horizon task \<and>
    em_switches (ex_metrics e) = int (length (filter ms_switched (ex_samples e))) \<and>
    em_fall (ex_metrics e) = (em_first_fall (ex_metrics e) \<noteq> None) \<and>
    (case em_first_fall (ex_metrics e) of
      None \<Rightarrow> \<forall>k \<le> nat (tk_horizon task). \<not> fallen_at (ex_initial e) (ex_samples e) k
    | Some n \<Rightarrow> \<exists>k \<le> nat (tk_horizon task). n = int k \<and> fallen_at (ex_initial e) (ex_samples e) k \<and>
        (\<forall>j < k. \<not> fallen_at (ex_initial e) (ex_samples e) j))"
proof -
  obtain s s' where "start_episode W actors program seed w = Inr s" and c3: "ex_initial e = ep_previous s"
    and "foldE (episode_step E W actors task (ep_previous s)) (map int [0..<nat (tk_horizon task)]) s = Inr s'"
    and c12: "compute_episode_metrics seed (ep_previous s) (ep_samples s') actors = Inr (ex_metrics e)" "ex_samples e = ep_samples s'"
    using assms(1) by (rule executeE)
  note c = c12 c3
  obtain "ms_behavior ` set (ex_samples e) \<subseteq> set actors" "em_steps (ex_metrics e) = int (length (ex_samples e))"
      "em_first_fall (ex_metrics e) = first_fall (ex_initial e) (ex_samples e)"
      "em_fall (ex_metrics e) = (first_fall (ex_initial e) (ex_samples e) \<noteq> None)"
      "em_switches (ex_metrics e) = int (length (filter ms_switched (ex_samples e)))"
      "em_time (ex_metrics e) = map (\<lambda>name. (name, behavior_count (ex_samples e) name)) (uniq actors)"
    using c(1) unfolding c(2,3) by (rule computeE)
  moreover have t: "map ms_t (ex_samples e) = map int [0..<nat (tk_horizon task)]" using execute_run[OF assms(1)] by blast
  then have l: "length (ex_samples e) = nat (tk_horizon task)" by (metis length_map diff_zero length_upt)
  moreover have "sum_list (map (behavior_count (ex_samples e)) (uniq actors)) = int (length (ex_samples e))"
    using calculation(1) by (intro sum_counts) simp_all
  ultimately show ?thesis
    using first_fall_spec[of "ex_samples e" "ex_initial e", unfolded l, OF t] assms(2) by (simp add: o_def)
qed

lemma episode_metrics_consistent_witness:
  "\<exists>e. execute_episode still_env (still_world (Fin 5)) [''expert''] still_program still_task 7 ''0'' PNone () = Inr e \<and>
     em_steps (ex_metrics e) = 2 \<and> sum_list (map snd (em_time (ex_metrics e))) = 2"
proof -
  obtain e where e: "execute_episode still_env (still_world (Fin 5)) [''expert''] still_program still_task 7 ''0'' PNone () = Inr e"
    using still_executes by blast
  have h: "tk_horizon still_task = 2" by (simp add: still_task_def)
  then have "0 \<le> tk_horizon still_task" by simp
  from episode_metrics_consistent[OF e this] e show ?thesis unfolding h by blast
qed

text \<open>
  The reward and the velocity that the simulator reports are only recorded: two simulators
  that differ in nothing else give the same speeds, heights, decisions, falls, switches and speed
  error; of the metrics only \<open>task_return\<close> may differ, of a sample only its reward.
\<close>

lemma reward_is_only_reported:
  assumes "same_dynamics V W"
    and "execute_episode E V actors program task seed fingerprint identities w = Inr d"
    and "execute_episode E W actors program task seed fingerprint identities w = Inr e"
  shows "(ex_metrics d)\<lparr>em_return := Fin 0\<rparr> = (ex_metrics e)\<lparr>em_return := Fin 0\<rparr> \<and>
    ex_initial d = ex_initial e \<and> map erase (ex_samples d) = map erase (ex_samples e)"
  using assms by (rule execute_same)

lemma reward_is_only_reported_witness:
  "\<exists>d e. execute_episode still_env (still_world (Fin 0)) [''expert''] still_program still_task 7 ''0'' PNone () = Inr d \<and>
     execute_episode still_env (still_world (Fin 5)) [''expert''] still_program still_task 7 ''0'' PNone () = Inr e \<and>
     (ex_metrics d)\<lparr>em_return := Fin 0\<rparr> = (ex_metrics e)\<lparr>em_return := Fin 0\<rparr>"
proof -
  obtain d e where x: "execute_episode still_env (still_world (Fin 0)) [''expert''] still_program still_task 7 ''0'' PNone () = Inr d"
    "execute_episode still_env (still_world (Fin 5)) [''expert''] still_program still_task 7 ''0'' PNone () = Inr e"
    using still_executes by blast
  have "same_dynamics (still_world (Fin 0)) (still_world (Fin 5))" by (simp add: same_dynamics_def still_world_def)
  from reward_is_only_reported[OF this x] x show ?thesis by blast
qed

text \<open>
  The torso axis is computed within its range in binary64: for every state vector of the
  right shape that is finite and whose quaternion has a finite positive square sum, the quotient
  lies in [-1, 1], so the range check of \<open>_boundary_facts\<close> never fires.
\<close>

lemma torso_check_redundant:
  assumes "sized qpos"
  shows "boundary_of qpos = Inl QposInvalid \<or> boundary_of qpos = Inl QuaternionInvalid \<or>
    (\<exists>b. boundary_of qpos = Inr b \<and> boundary_finite b)"
  using assms by (rule boundary_of_cases)

lemma torso_check_redundant_witness: "boundary_of still_qpos = Inr still_boundary \<and> boundary_finite still_boundary"
proof -
  have "sized still_qpos" by (simp add: sized_def still_qpos_def)
  from torso_check_redundant[OF this] show ?thesis by (auto simp: still_boundary_of)
qed

end
