(* ===== verification/PySum.thy ===== *)
theory PySum
  imports SpeedFormula
begin

text \<open>
  The built-in \<open>sum\<close> of floats from Python 3.12 on, which compensates the rounding of each addition,
  and how close it comes to the exact sum of values that are not negative.
\<close>

section \<open>The sum\<close>

text \<open>The running sum and the accumulated low-order part.\<close>

definition sum_step :: "f64 \<Rightarrow> f64 \<times> f64 \<Rightarrow> f64 \<times> f64" where
  "sum_step x acc = (let (hi, lo) = acc; t = f64_add hi x
     in (t, if f64_le (f64_abs x) (f64_abs hi) then f64_add lo (f64_add (f64_sub hi t) x)
            else f64_add lo (f64_add (f64_sub x t) hi)))"

definition sum_result :: "f64 \<times> f64 \<Rightarrow> f64" where
  "sum_result acc = (let (hi, lo) = acc in if lo \<noteq> Fin 0 \<and> is_finite lo then f64_add hi lo else hi)"

text \<open>The integer 0 that \<open>sum\<close> starts from changes nothing in the first item.\<close>

fun py_sum :: "f64 list \<Rightarrow> f64" where
  "py_sum [] = Fin 0"
| "py_sum (x # xs) = sum_result (fold sum_step xs (x, Fin 0))"

section \<open>Additions have a relative error\<close>

lemma f64_rep_multiple:
  assumes "f64_rep a"
  obtains n :: int where "a = of_int n * pow2 (- 1074)"
proof -
  obtain m k where mk: "a = of_int m * pow2 k" "- 1074 \<le> k"
    using round_rat_on_grid[of a] assms unfolding f64_rep_def by metis
  have "pow2 k = of_int (2 ^ nat (k + 1074)) * pow2 (- 1074)"
    using pow2_add[of "k + 1074" "- 1074"] pow2_of_nat[of "k + 1074"] mk(2) by simp
  then have "a = of_int (m * 2 ^ nat (k + 1074)) * pow2 (- 1074)" using mk(1) by simp
  then show ?thesis by (rule that)
qed

lemma round_add_error:
  assumes "f64_rep a" "f64_rep b"
  shows "\<bar>round_rat (a + b) - (a + b)\<bar> \<le> \<bar>a + b\<bar> / 2 ^ 53"
proof (cases "pow2 (- 1022) \<le> \<bar>a + b\<bar>")
  case True
  then show ?thesis by (rule round_rat_error)
next
  case False
  obtain m where m: "a = of_int m * pow2 (- 1074)" using assms(1) by (rule f64_rep_multiple)
  obtain n where n: "b = of_int n * pow2 (- 1074)" using assms(2) by (rule f64_rep_multiple)
  have s: "a + b = of_int (m + n) * pow2 (- 1074)" by (simp add: m n algebra_simps)
  have split: "pow2 (- 1022) = 2 ^ 52 * pow2 (- 1074)" using pow2_add[of 52 "- 1074"] by (simp add: pow2_def[of 52])
  have "of_int \<bar>m + n\<bar> * pow2 (- 1074) < 2 ^ 52 * pow2 (- 1074)"
    using False unfolding s split by (simp add: abs_mult)
  then have "(of_int \<bar>m + n\<bar> :: rat) < of_int (2 ^ 52)" by simp
  then have "\<bar>m + n\<bar> < 2 ^ 52" by (simp only: of_int_less_iff)
  then have "\<bar>m + n\<bar> \<le> 2 ^ 53" by simp
  then have "round_rat (a + b) = a + b" unfolding s by (rule round_rat_scaled) simp
  then show ?thesis by simp
qed

lemma pow2_60: "pow2 60 = 2 ^ 60"
  by (simp add: pow2_def)

lemma f64_add_value:
  assumes "f64_rep a" "f64_rep b" "\<bar>a + b\<bar> \<le> 2 ^ 60"
  obtains r where "f64_add (Fin a) (Fin b) = Fin r" "f64_rep r" "\<bar>r - (a + b)\<bar> \<le> \<bar>a + b\<bar> / 2 ^ 53"
proof -
  have p: "f64_rep (pow2 60)" by (rule f64_rep_pow2) simp_all
  then have n: "f64_rep (- pow2 60)" by (simp add: f64_rep_def round_rat_uminus)
  have "fin_in (f64_round (a + b)) (- pow2 60) (pow2 60)"
    using assms(3) p n by (intro round_in) (auto simp: pow2_60 abs_le_iff)
  then obtain r where r: "f64_round (a + b) = Fin r" "f64_rep r" by (auto simp: fin_in_def)
  then have "r = round_rat (a + b)" using f64_round_FinD by blast
  with r round_add_error[OF assms(1,2)] show ?thesis using that by simp
qed

lemma f64_sub_value:
  assumes "f64_rep a" "f64_rep b" "\<bar>a - b\<bar> \<le> 2 ^ 60"
  obtains r where "f64_sub (Fin a) (Fin b) = Fin r" "f64_rep r" "\<bar>r - (a - b)\<bar> \<le> \<bar>a - b\<bar> / 2 ^ 53"
proof -
  have "f64_rep (- b)" using assms(2) by (simp add: f64_rep_def round_rat_uminus)
  then obtain r where "f64_add (Fin a) (Fin (- b)) = Fin r" "f64_rep r" "\<bar>r - (a + - b)\<bar> \<le> \<bar>a + - b\<bar> / 2 ^ 53"
    using f64_add_value[OF assms(1), of "- b"] assms(3) by auto
  then show ?thesis by (intro that) (simp_all add: f64_sub_def)
qed

section \<open>One step\<close>

text \<open>The larger item first: the low-order part of an addition, up to rounding.\<close>

lemma low_part:
  assumes "f64_rep p" "f64_rep q" "0 \<le> q" "q \<le> p" "p + q \<le> T" "T \<le> 2 ^ 52"
    and t: "f64_rep t" "\<bar>t - (p + q)\<bar> \<le> (p + q) / 2 ^ 53"
  obtains e where "f64_add (f64_sub (Fin p) (Fin t)) (Fin q) = Fin e" "f64_rep e"
    "\<bar>e\<bar> \<le> 6 * (T / 2 ^ 53)" "\<bar>t + e - (p + q)\<bar> \<le> 4 * (T / 2 ^ 53)"
proof -
  define u where "u = T / 2 ^ 53"
  have u: "0 \<le> u" "u \<le> 1" "u \<le> T" using assms by (simp_all add: u_def field_simps)
  have d1: "\<bar>t - (p + q)\<bar> \<le> u" using t(2) assms(5) by (simp add: u_def divide_right_mono order_trans)
  have "\<bar>p - t\<bar> \<le> 2 * T" using d1 assms u by linarith
  then have pt: "\<bar>p - t\<bar> \<le> 2 ^ 60" "\<bar>p - t\<bar> / 2 ^ 53 \<le> 2 * u" using assms(6) by (simp_all add: u_def)
  obtain d where d: "f64_sub (Fin p) (Fin t) = Fin d" "f64_rep d" "\<bar>d - (p - t)\<bar> \<le> 2 * u"
    by (rule f64_sub_value[OF assms(1) t(1) pt(1)]) (use pt(2) in \<open>metis order_trans\<close>)
  have "\<bar>d + q\<bar> \<le> 3 * u" using d(3) d1 by linarith
  then have dq: "\<bar>d + q\<bar> \<le> 3 * u" "\<bar>d + q\<bar> \<le> 2 ^ 60" "\<bar>d + q\<bar> / 2 ^ 53 \<le> u" using u(1,2) by simp_all
  obtain e where e: "f64_add (Fin d) (Fin q) = Fin e" "f64_rep e" "\<bar>e - (d + q)\<bar> \<le> u"
    by (rule f64_add_value[OF d(2) assms(2) dq(2)]) (use dq(3) in \<open>metis order_trans\<close>)
  show ?thesis
  proof (rule that)
    show "f64_add (f64_sub (Fin p) (Fin t)) (Fin q) = Fin e" using d(1) e(1) by simp
    show "f64_rep e" by (rule e(2))
    show "\<bar>e\<bar> \<le> 6 * (T / 2 ^ 53)" using e(3) dq(1) u(1) unfolding u_def[symmetric] by linarith
    show "\<bar>t + e - (p + q)\<bar> \<le> 4 * (T / 2 ^ 53)"
      using d(3) e(3) u(1) unfolding u_def[symmetric] by linarith
  qed
qed

text \<open>After \<open>n\<close> additions with the exact sum \<open>S\<close>.\<close>

definition sum_state :: "nat \<Rightarrow> rat \<Rightarrow> f64 \<times> f64 \<Rightarrow> bool" where
  "sum_state n S acc \<longleftrightarrow> (\<exists>h l. acc = (Fin h, Fin l) \<and> f64_rep h \<and> f64_rep l \<and> 0 \<le> h \<and>
     \<bar>l\<bar> \<le> of_nat n * S / 2 ^ 49 \<and> \<bar>h + l - S\<bar> \<le> of_nat n * S / 2 ^ 49)"

lemma sum_state_step:
  assumes st: "sum_state n S acc" and x: "f64_rep x" "0 \<le> x" and S: "0 \<le> S" "S + x \<le> 2 ^ 50" and n: "n \<le> 2 ^ 40"
  shows "sum_state (Suc n) (S + x) (sum_step (Fin x) acc)"
proof -
  obtain h l where a: "acc = (Fin h, Fin l)" "f64_rep h" "f64_rep l" "0 \<le> h"
    "\<bar>l\<bar> \<le> of_nat n * S / 2 ^ 49" "\<bar>h + l - S\<bar> \<le> of_nat n * S / 2 ^ 49"
    using st by (auto simp: sum_state_def)
  define A where "A = of_nat n * S / 2 ^ 49"
  define T where "T = 2 * (S + x)"
  define u where "u = T / 2 ^ 53"
  have "(of_nat n :: rat) \<le> of_nat (2 ^ 40)" using n by (simp only: of_nat_le_iff)
  then have "of_nat n * S \<le> 2 ^ 40 * S" using S(1) by (intro mult_right_mono) simp_all
  then have A: "0 \<le> A" "8 * A \<le> S" using S(1) by (simp_all add: A_def field_simps)
  have ab: "\<bar>l\<bar> \<le> A" "\<bar>h + l - S\<bar> \<le> A" using a(5,6) by (simp_all add: A_def)
  have "- l \<le> A" "h + l - S \<le> A" using ab by (simp_all only: abs_le_iff)
  then have "h \<le> S + 2 * A" by linarith
  then have "h + x \<le> 2 * (S + x)" using A x(2) S(1) unfolding distrib_left by linarith
  then have hx: "0 \<le> h + x" "h + x \<le> T" using a(4) x(2) by (simp_all add: T_def)
  have T: "T \<le> 2 ^ 52" using S(2) by (simp add: T_def)
  have u: "0 \<le> u" "100 * u \<le> T" using hx by (simp_all add: u_def field_simps)
  have "\<bar>h + x\<bar> \<le> 2 ^ 60" using hx T by simp
  then obtain t where t: "f64_add (Fin h) (Fin x) = Fin t" "f64_rep t" "\<bar>t - (h + x)\<bar> \<le> (h + x) / 2 ^ 53"
    using f64_add_value[OF a(2) x(1)] hx(1) by (metis abs_of_nonneg)
  have "(h + x) / 2 ^ 53 \<le> h + x" using hx(1) by simp
  then have t0: "0 \<le> t" using t(3) by linarith
  obtain e where e: "(if f64_le (f64_abs (Fin x)) (f64_abs (Fin h)) then f64_add (f64_sub (Fin h) (Fin t)) (Fin x)
      else f64_add (f64_sub (Fin x) (Fin t)) (Fin h)) = Fin e" "f64_rep e" "\<bar>e\<bar> \<le> 6 * u" "\<bar>t + e - (h + x)\<bar> \<le> 4 * u"
  proof (cases "x \<le> h")
    case True
    obtain e where "f64_add (f64_sub (Fin h) (Fin t)) (Fin x) = Fin e" "f64_rep e"
      "\<bar>e\<bar> \<le> 6 * (T / 2 ^ 53)" "\<bar>t + e - (h + x)\<bar> \<le> 4 * (T / 2 ^ 53)"
      using low_part[OF a(2) x(1) x(2) True hx(2) T t(2,3)] by blast
    then show ?thesis using that True a(4) x(2) by (simp add: u_def)
  next
    case False
    have s: "x + h = h + x" and le: "h \<le> x" using False by simp_all
    have c: "x + h \<le> T" "\<bar>t - (x + h)\<bar> \<le> (x + h) / 2 ^ 53" using hx(2) t(3) unfolding s by simp_all
    obtain e where "f64_add (f64_sub (Fin x) (Fin t)) (Fin h) = Fin e" "f64_rep e"
      "\<bar>e\<bar> \<le> 6 * (T / 2 ^ 53)" "\<bar>t + e - (x + h)\<bar> \<le> 4 * (T / 2 ^ 53)"
      using low_part[OF x(1) a(2) a(4) le c(1) T t(2) c(2)] by blast
    then show ?thesis using that False a(4) x(2) by (simp add: u_def s)
  qed
  have le: "\<bar>l + e\<bar> \<le> T" using ab(1) e(3) A u S(1) x(2) unfolding T_def distrib_left by linarith
  have le60: "\<bar>l + e\<bar> \<le> 2 ^ 60" using le T by simp
  obtain l' where l': "f64_add (Fin l) (Fin e) = Fin l'" "f64_rep l'" "\<bar>l' - (l + e)\<bar> \<le> u"
  proof (rule f64_add_value[OF a(3) e(2) le60])
    fix r assume r: "f64_add (Fin l) (Fin e) = Fin r" "f64_rep r" "\<bar>r - (l + e)\<bar> \<le> \<bar>l + e\<bar> / 2 ^ 53"
    have "\<bar>l + e\<bar> / 2 ^ 53 \<le> u" using le by (simp add: u_def divide_right_mono)
    then show thesis using that[OF r(1,2)] r(3) by linarith
  qed
  have eq: "sum_step (Fin x) acc = (Fin t, Fin l')"
    using e(1) t(1) l'(1) by (auto simp: sum_step_def a(1) Let_def split: if_splits)
  have u8: "8 * u = (S + x) / 2 ^ 49" by (simp add: u_def T_def)
  have "of_nat n * S \<le> of_nat n * (S + x)" using x(2) by (intro mult_left_mono) simp_all
  then have "A \<le> of_nat n * (S + x) / 2 ^ 49" by (simp add: A_def divide_right_mono)
  then have Au: "A + 8 * u \<le> of_nat (Suc n) * (S + x) / 2 ^ 49" unfolding u8 by (simp add: field_simps)
  have "\<bar>l'\<bar> \<le> A + 8 * u" using ab(1) e(3) l'(3) u(1) by linarith
  moreover have "\<bar>t + l' - (S + x)\<bar> \<le> A + 8 * u" using ab(2) e(4) l'(3) u(1) by linarith
  ultimately show ?thesis
    using Au t(2) l'(2) t0 unfolding eq sum_state_def by (intro exI[of _ t] exI[of _ l']) (auto intro: order_trans)
qed

lemma sum_state_fold:
  assumes "sum_state n S acc" "list_all (\<lambda>q. f64_rep q \<and> 0 \<le> q) qs" "0 \<le> S" "S + sum_list qs \<le> 2 ^ 50" "n + length qs \<le> 2 ^ 40"
  shows "sum_state (n + length qs) (S + sum_list qs) (fold sum_step (map Fin qs) acc)"
  using assms
proof (induction qs arbitrary: n S acc)
  case (Cons q qs)
  have "0 \<le> sum_list qs" using Cons.prems(2) by (intro sum_list_nonneg) (auto simp: list_all_iff)
  with Cons.prems have "sum_state (Suc n) (S + q) (sum_step (Fin q) acc)" by (intro sum_state_step) auto
  from Cons.IH[OF this] Cons.prems show ?case by (simp add: add.assoc)
qed simp

lemma py_sum_value:
  assumes "qs \<noteq> []" "list_all (\<lambda>q. f64_rep q \<and> 0 \<le> q) qs" "sum_list qs \<le> 2 ^ 50" "length qs \<le> 2 ^ 40"
  obtains r where "py_sum (map Fin qs) = Fin r" "f64_rep r" "0 \<le> r"
    "\<bar>r - sum_list qs\<bar> \<le> of_nat (length qs) * sum_list qs / 2 ^ 49"
proof -
  obtain q ps where qs: "qs = q # ps" using assms(1) by (cases qs) auto
  define S where "S = sum_list qs"
  define n where "n = length ps"
  have "0 \<le> q" "f64_rep q" using assms(2) by (simp_all add: qs)
  then have "sum_state 0 q (Fin q, Fin 0)" by (simp add: sum_state_def)
  from sum_state_fold[OF this, of ps] assms \<open>0 \<le> q\<close>
  have "sum_state n S (fold sum_step (map Fin ps) (Fin q, Fin 0))" by (simp add: qs S_def n_def)
  then obtain h l where f: "fold sum_step (map Fin ps) (Fin q, Fin 0) = (Fin h, Fin l)" and hl: "f64_rep h" "f64_rep l" "0 \<le> h"
    "\<bar>l\<bar> \<le> of_nat n * S / 2 ^ 49" "\<bar>h + l - S\<bar> \<le> of_nat n * S / 2 ^ 49"
    by (auto simp: sum_state_def)
  have "0 \<le> sum_list ps" using assms(2) by (intro sum_list_nonneg) (auto simp: list_all_iff qs)
  then have S: "0 \<le> S" "S \<le> 2 ^ 50" using assms(3) \<open>0 \<le> q\<close> by (simp_all add: S_def qs)
  define A where "A = of_nat n * S / 2 ^ 49"
  have "(of_nat n :: rat) \<le> of_nat (2 ^ 40)" using assms(4) by (simp only: of_nat_le_iff n_def qs) simp
  then have "of_nat n * S \<le> 2 ^ 40 * S" using S(1) by (intro mult_right_mono) simp_all
  then have A: "8 * A \<le> S" using S(1) by (simp add: A_def field_simps)
  have hlS: "\<bar>h + l - S\<bar> \<le> A" using hl(5) by (simp add: A_def)
  have b: "0 \<le> h + l" "h + l \<le> 2 * S" using hlS A S(1) by linarith+
  have An: "A + 2 * S / 2 ^ 53 \<le> of_nat (length qs) * S / 2 ^ 49" using S(1) by (simp add: A_def n_def qs field_simps)
  have final: "py_sum (map Fin qs) = f64_add (Fin h) (Fin l)"
    using hl(1) by (simp add: qs f sum_result_def f64_rep_round)
  have "\<bar>h + l\<bar> \<le> 2 ^ 60" using b S(2) by simp
  then obtain r where r: "f64_add (Fin h) (Fin l) = Fin r" "f64_rep r" "\<bar>r - (h + l)\<bar> \<le> \<bar>h + l\<bar> / 2 ^ 53"
    by (rule f64_add_value[OF hl(1,2)])
  have e: "\<bar>h + l\<bar> / 2 ^ 53 \<le> 2 * S / 2 ^ 53" using b by (intro divide_right_mono) simp_all
  have "\<bar>h + l\<bar> / 2 ^ 53 \<le> h + l" using b(1) by simp
  then have "0 \<le> r" using r(3) by linarith
  moreover have "\<bar>r - S\<bar> \<le> of_nat (length qs) * S / 2 ^ 49"
    using r(3) e hlS An by linarith
  ultimately show ?thesis using that r(1,2) by (simp add: final S_def)
qed

end
