(* ===== verification/CourseTask.thy ===== *)
theory CourseTask
  imports RewardStep PySum
begin

text \<open>
  The posture course, \<^verbatim>\<open>src/oracle_composition/adapters/gmt/course_task.py\<close>: the task specification and
  the reward recipe with their dictionaries, the frame of an episode, and the measurement of one
  control interval; with the two helpers it calls, the Euler angles of
  \<^verbatim>\<open>reference_math.py\<close> and the tracking errors of \<^verbatim>\<open>deployment.py\<close>.  The functions of the C library
  and of numpy that do not round exactly are the fields of a record; the zeros are identified, so
  where \<open>atan2\<close> would tell a negative zero from a positive one the record gives one of the two angles.
\<close>

section \<open>Constants and errors\<close>

definition ACTION_DIM :: nat where "ACTION_DIM = 23"
definition REFERENCE_FRAME_DIM :: nat where "REFERENCE_FRAME_DIM = 30"
definition CONTROL_DT_SECONDS :: f64 where "CONTROL_DT_SECONDS = f64_round (2 / 100)"

definition COURSE_TASK_SPEC_ID :: string where "COURSE_TASK_SPEC_ID = ''gmt_g1_posture_course_task/v1''"
definition TASK_REWARD_RECIPE_ID :: string where "TASK_REWARD_RECIPE_ID = ''gmt_g1_posture_course_reward/v1''"
definition TASK_REWARD_RECIPE_V2_ID :: string where "TASK_REWARD_RECIPE_V2_ID = ''gmt_g1_posture_course_reward/v2''"
definition TASK_REWARD_DEPTH_SCALE_M :: f64 where "TASK_REWARD_DEPTH_SCALE_M = f64_round (1 / 10)"
definition ALLOWED_GROUND_CONTACT_BODIES :: "string list" where
  "ALLOWED_GROUND_CONTACT_BODIES = [''left_ankle_roll_link'', ''right_ankle_roll_link'']"
definition ROOT_HEIGHT_FAILURE_M :: f64 where "ROOT_HEIGHT_FAILURE_M = f64_round (3 / 10)"
definition TORSO_UP_FAILURE_MIN :: f64 where "TORSO_UP_FAILURE_MIN = Fin (1 / 2)"
definition TASK_SCALES :: "f64 list" where
  "TASK_SCALES = [f64_round (3 / 10), f64_round (2 / 10), Fin 1, Fin (1 / 2)]"
definition TRACKING_SCALES :: "f64 list" where
  "TRACKING_SCALES = [f64_round (35 / 100), f64_round (15 / 100), f64_round (35 / 100)]"
definition TRACKING_WEIGHTS :: "f64 list" where "TRACKING_WEIGHTS = [Fin (1 / 2), Fin (1 / 4), Fin (1 / 4)]"
definition SPEC_FLOAT_FIELDS :: "string list" where
  "SPEC_FLOAT_FIELDS = [''region_entry_distance_m'', ''region_exit_distance_m'', ''finish_distance_m'', ''target_speed_outside_m_s'',
     ''target_speed_inside_m_s'', ''posture_band_low_m'', ''posture_band_high_m'']"
definition RECIPE_WEIGHT_FIELDS :: "string list" where
  "RECIPE_WEIGHT_FIELDS = [''speed_weight'', ''posture_weight'', ''lateral_weight'', ''heading_weight'', ''failure_weight'']"

text \<open>
  \<open>PowOverflow\<close> is the \<open>OverflowError\<close> of \<open>**\<close> and \<open>MathDomain\<close> the \<open>ValueError\<close> of \<open>cos\<close> and \<open>sin\<close> at
  an infinity; all others are the \<open>ValueError\<close>s the functions raise themselves.
\<close>

datatype course_error =
    NotFiniteFloat string | RecordFields string | RecordIdentity string | CourseArray string | NotUnitQuaternion | SensorShape
  | DeploymentArray string | SpecFloats | RegionOrder | FinishOrder | SpeedRange | PostureBand | SpecHorizon
  | WeightRange | RecipeVersion | DepthRange | V1Depth | RecipeObject | RecipeIdentity
  | FeatureSpec | ControlStep | ContactBodies | MathDomain
  | MetricsSpec | MetricsValues | RootHeightValue | PowOverflow

section \<open>Readers\<close>

definition strict_float :: "string \<Rightarrow> pyval \<Rightarrow> course_error + f64" where
  "strict_float field v = (case v of
       PFloat f \<Rightarrow> if is_finite f then Inr f else Inl (NotFiniteFloat field)
     | _ \<Rightarrow> Inl (NotFiniteFloat field))"

definition course_record :: "string \<Rightarrow> string list \<Rightarrow> int \<Rightarrow> pyval \<Rightarrow> course_error + (string \<times> pyval) list" where
  "course_record schema payload version v = (case v of
       PDict d \<Rightarrow> if \<not> keys_are ([''schema_id'', ''schema_version''] @ payload) d then Inl (RecordFields schema)
         else if \<not> py_eq (item d ''schema_id'') (PStr schema) \<or> item d ''schema_version'' \<noteq> PInt version
         then Inl (RecordIdentity schema)
         else Inr d
     | _ \<Rightarrow> Inl (RecordFields schema))"

text \<open>What \<open>np.asarray\<close> makes of an argument: values of a floating type, or an array of another type.\<close>

datatype float_array = Floating "nat list" "f64 list" | NotFloating "nat list"

definition course_array :: "(string \<Rightarrow> course_error) \<Rightarrow> nat list \<Rightarrow> string \<Rightarrow> float_array \<Rightarrow> course_error + f64 list" where
  "course_array err shape field v = (case v of
       Floating s data \<Rightarrow> if s \<noteq> shape \<or> \<not> list_all is_finite data then Inl (err field) else Inr data
     | NotFloating s \<Rightarrow> Inl (err field))"

section \<open>The task specification\<close>

record course_spec =
  cs_entry :: f64
  cs_exit :: f64
  cs_finish :: f64
  cs_speed_outside :: f64
  cs_speed_inside :: f64
  cs_band_low :: f64
  cs_band_high :: f64
  cs_horizon :: int

definition finite_field :: "course_error \<Rightarrow> pyval \<Rightarrow> course_error + f64" where
  "finite_field e v = (case v of PFloat f \<Rightarrow> if is_finite f then Inr f else Inl e | _ \<Rightarrow> Inl e)"

definition mk_course_spec :: "pyval \<Rightarrow> pyval \<Rightarrow> pyval \<Rightarrow> pyval \<Rightarrow> pyval \<Rightarrow> pyval \<Rightarrow> pyval \<Rightarrow> pyval \<Rightarrow> course_error + course_spec" where
  "mk_course_spec entry_v exit_v finish_v outside_v inside_v low_v high_v horizon_v =
     bindE (finite_field SpecFloats entry_v) (\<lambda>entry.
     bindE (finite_field SpecFloats exit_v) (\<lambda>exit.
     bindE (finite_field SpecFloats finish_v) (\<lambda>finish.
     bindE (finite_field SpecFloats outside_v) (\<lambda>outside.
     bindE (finite_field SpecFloats inside_v) (\<lambda>inside.
     bindE (finite_field SpecFloats low_v) (\<lambda>low.
     bindE (finite_field SpecFloats high_v) (\<lambda>high.
       if \<not> (f64_lt (Fin 0) entry \<and> f64_lt entry exit) then Inl RegionOrder
       else if \<not> (f64_lt exit finish \<and> f64_le finish (Fin 100)) then Inl FinishOrder
       else if \<not> (f64_le (Fin 0) outside \<and> f64_le outside (Fin 5) \<and> f64_le (Fin 0) inside \<and> f64_le inside (Fin 5))
       then Inl SpeedRange
       else if \<not> (f64_lt (Fin 0) low \<and> f64_lt low high \<and> f64_le high (Fin 2) \<and> f64_lt ROOT_HEIGHT_FAILURE_M high)
       then Inl PostureBand
       else (case horizon_v of
           PInt horizon \<Rightarrow> if 1 \<le> horizon \<and> horizon \<le> 1000000
             then Inr \<lparr>cs_entry = entry, cs_exit = exit, cs_finish = finish, cs_speed_outside = outside, cs_speed_inside = inside,
               cs_band_low = low, cs_band_high = high, cs_horizon = horizon\<rparr>
             else Inl SpecHorizon
         | _ \<Rightarrow> Inl SpecHorizon))))))))"

definition spec_to_dict :: "course_spec \<Rightarrow> pyval" where
  "spec_to_dict s = PDict [
     (''region_entry_distance_m'', PFloat (cs_entry s)),
     (''region_exit_distance_m'', PFloat (cs_exit s)),
     (''finish_distance_m'', PFloat (cs_finish s)),
     (''target_speed_outside_m_s'', PFloat (cs_speed_outside s)),
     (''target_speed_inside_m_s'', PFloat (cs_speed_inside s)),
     (''posture_band_low_m'', PFloat (cs_band_low s)),
     (''posture_band_high_m'', PFloat (cs_band_high s)),
     (''horizon_steps'', PInt (cs_horizon s)),
     (''schema_id'', PStr COURSE_TASK_SPEC_ID),
     (''schema_version'', PInt 1)]"

definition strict_at :: "(string \<times> pyval) list \<Rightarrow> string \<Rightarrow> course_error + f64" where
  "strict_at d k = strict_float k (item d k)"

definition spec_from_dict :: "pyval \<Rightarrow> course_error + course_spec" where
  "spec_from_dict v = bindE (course_record COURSE_TASK_SPEC_ID (SPEC_FLOAT_FIELDS @ [''horizon_steps'']) 1 v) (\<lambda>d.
     bindE (mapE (strict_at d) SPEC_FLOAT_FIELDS) (\<lambda>xs.
       mk_course_spec (PFloat (xs ! 0)) (PFloat (xs ! 1)) (PFloat (xs ! 2)) (PFloat (xs ! 3)) (PFloat (xs ! 4))
         (PFloat (xs ! 5)) (PFloat (xs ! 6)) (item d ''horizon_steps'')))"

definition course_spec_sha256 :: "hasher \<Rightarrow> course_spec \<Rightarrow> string" where
  "course_spec_sha256 h s = content_hash h (spec_to_dict s)"

section \<open>The reward recipe\<close>

record reward_recipe =
  rp_speed :: f64
  rp_posture :: f64
  rp_lateral :: f64
  rp_heading :: f64
  rp_failure :: f64
  rp_version :: int
  rp_depth_strength :: f64
  rp_ceiling_fraction :: f64

definition CEILING_FRACTION_DEFAULT :: f64 where "CEILING_FRACTION_DEFAULT = f64_round (6 / 10)"

definition ranged_float :: "course_error \<Rightarrow> f64 \<Rightarrow> pyval \<Rightarrow> course_error + f64" where
  "ranged_float e upper v = (case v of
       PFloat f \<Rightarrow> if is_finite f \<and> f64_le (Fin 0) f \<and> f64_le f upper then Inr f else Inl e
     | _ \<Rightarrow> Inl e)"

definition mk_reward_recipe :: "pyval \<Rightarrow> pyval \<Rightarrow> pyval \<Rightarrow> pyval \<Rightarrow> pyval \<Rightarrow> pyval \<Rightarrow> pyval \<Rightarrow> pyval \<Rightarrow> course_error + reward_recipe" where
  "mk_reward_recipe speed_v posture_v lateral_v heading_v failure_v version_v depth_v ceiling_v =
     bindE (ranged_float WeightRange (Fin 5) speed_v) (\<lambda>speed.
     bindE (ranged_float WeightRange (Fin 5) posture_v) (\<lambda>posture.
     bindE (ranged_float WeightRange (Fin 5) lateral_v) (\<lambda>lateral.
     bindE (ranged_float WeightRange (Fin 5) heading_v) (\<lambda>heading.
     bindE (ranged_float WeightRange (Fin 5) failure_v) (\<lambda>failure.
       if version_v \<noteq> PInt 1 \<and> version_v \<noteq> PInt 2 then Inl RecipeVersion
       else bindE (ranged_float DepthRange (Fin 1) depth_v) (\<lambda>depth.
         bindE (ranged_float DepthRange (Fin 1) ceiling_v) (\<lambda>ceiling.
           if version_v = PInt 1 \<and> (\<not> f64_eq depth (Fin 0) \<or> \<not> f64_eq ceiling CEILING_FRACTION_DEFAULT) then Inl V1Depth
           else Inr \<lparr>rp_speed = speed, rp_posture = posture, rp_lateral = lateral, rp_heading = heading, rp_failure = failure,
             rp_version = (if version_v = PInt 1 then 1 else 2), rp_depth_strength = depth, rp_ceiling_fraction = ceiling\<rparr>)))))))"

definition weight_items :: "reward_recipe \<Rightarrow> (string \<times> pyval) list" where
  "weight_items r = [
     (''speed_weight'', PFloat (rp_speed r)),
     (''posture_weight'', PFloat (rp_posture r)),
     (''lateral_weight'', PFloat (rp_lateral r)),
     (''heading_weight'', PFloat (rp_heading r)),
     (''failure_weight'', PFloat (rp_failure r))]"

definition reward_recipe_to_dict :: "reward_recipe \<Rightarrow> pyval" where
  "reward_recipe_to_dict r = PDict (weight_items r @
     [(''schema_id'', PStr (if rp_version r = 1 then TASK_REWARD_RECIPE_ID else TASK_REWARD_RECIPE_V2_ID)),
      (''schema_version'', PInt (rp_version r))] @
     (if rp_version r = 2
      then [(''depth_strength'', PFloat (rp_depth_strength r)), (''ceiling_fraction'', PFloat (rp_ceiling_fraction r))]
      else []))"

text \<open>\<open>value.get("schema_id") == schema\<close>\<close>

definition has_schema :: "(string \<times> pyval) list \<Rightarrow> string \<Rightarrow> bool" where
  "has_schema d schema \<longleftrightarrow> (case dict_get d ''schema_id'' of None \<Rightarrow> False | Some v \<Rightarrow> py_eq v (PStr schema))"

definition reward_recipe_from_dict :: "pyval \<Rightarrow> course_error + reward_recipe" where
  "reward_recipe_from_dict v = (case v of
       PDict value_items \<Rightarrow>
         if has_schema value_items TASK_REWARD_RECIPE_ID then
           bindE (course_record TASK_REWARD_RECIPE_ID RECIPE_WEIGHT_FIELDS 1 v) (\<lambda>parsed.
           bindE (mapE (strict_at parsed) RECIPE_WEIGHT_FIELDS) (\<lambda>w.
             mk_reward_recipe (PFloat (w ! 0)) (PFloat (w ! 1)) (PFloat (w ! 2)) (PFloat (w ! 3)) (PFloat (w ! 4))
               (PInt 1) (PFloat (Fin 0)) (PFloat CEILING_FRACTION_DEFAULT)))
         else if has_schema value_items TASK_REWARD_RECIPE_V2_ID then
           bindE (course_record TASK_REWARD_RECIPE_V2_ID (RECIPE_WEIGHT_FIELDS @ [''depth_strength'', ''ceiling_fraction'']) 2 v) (\<lambda>parsed.
           bindE (mapE (strict_at parsed) RECIPE_WEIGHT_FIELDS) (\<lambda>w.
           bindE (strict_at parsed ''depth_strength'') (\<lambda>depth.
           bindE (strict_at parsed ''ceiling_fraction'') (\<lambda>ceiling.
             mk_reward_recipe (PFloat (w ! 0)) (PFloat (w ! 1)) (PFloat (w ! 2)) (PFloat (w ! 3)) (PFloat (w ! 4))
               (PInt 2) (PFloat depth) (PFloat ceiling)))))
         else Inl RecipeIdentity
     | _ \<Rightarrow> Inl RecipeObject)"

definition reward_recipe_sha256 :: "hasher \<Rightarrow> reward_recipe \<Rightarrow> string" where
  "reward_recipe_sha256 h r = content_hash h (reward_recipe_to_dict r)"

section \<open>Numerics\<close>

record course_math = numpy +
  m_exp :: "f64 \<Rightarrow> f64"
  m_pow2 :: "f64 \<Rightarrow> f64 option"
  m_cos :: "f64 \<Rightarrow> f64"
  m_sin :: "f64 \<Rightarrow> f64"
  m_atan2 :: "f64 \<Rightarrow> f64 \<Rightarrow> f64"
  np_arctan2 :: "f64 \<Rightarrow> f64 \<Rightarrow> f64"
  np_arcsin :: "f64 \<Rightarrow> f64"
  np_dot :: "f64 list \<Rightarrow> f64 list \<Rightarrow> f64"
  np_mean :: "f64 list \<Rightarrow> f64"
  np_sqrt :: "f64 \<Rightarrow> f64"
  np_float32 :: "f64 \<Rightarrow> f64"

text \<open>Division by a number that is not zero.\<close>

definition quotient :: "f64 \<Rightarrow> f64 \<Rightarrow> f64" where
  "quotient a b = (case f64_div a b of Some r \<Rightarrow> r | None \<Rightarrow> NaN)"

definition py_max :: "f64 \<Rightarrow> f64 \<Rightarrow> f64" where
  "py_max a b = (if f64_lt a b then b else a)"

text \<open>\<open>math.isclose(a, b, abs_tol=t)\<close> with the default relative tolerance.\<close>

definition isclose_default :: "f64 \<Rightarrow> f64 \<Rightarrow> f64 \<Rightarrow> bool" where
  "isclose_default a b t \<longleftrightarrow> f64_eq a b \<or>
     (a \<notin> {PosInf, NegInf} \<and> b \<notin> {PosInf, NegInf} \<and>
      (let d = f64_abs (f64_sub b a); rel = f64_round (1 / 10 ^ 9)
       in f64_le d (f64_abs (f64_mul rel b)) \<or> f64_le d (f64_abs (f64_mul rel a)) \<or> f64_le d t))"

definition domainE :: "(f64 \<Rightarrow> f64) \<Rightarrow> f64 \<Rightarrow> course_error + f64" where
  "domainE f x = (if x = PosInf \<or> x = NegInf then Inl MathDomain else Inr (f x))"

section \<open>Orientation and frame\<close>

text \<open>\<open>np.pi / 2\<close>\<close>

definition HALF_PI :: f64 where "HALF_PI = Fin (884279719003555 / 2 ^ 49)"

definition quaternion_to_euler_wxyz :: "course_math \<Rightarrow> f64 list \<Rightarrow> course_error + (f64 \<times> f64 \<times> f64)" where
  "quaternion_to_euler_wxyz M v = (case v of
       [w, x, y, z] \<Rightarrow>
         let roll = np_arctan2 M (f64_mul (Fin 2) (f64_add (f64_mul w x) (f64_mul y z)))
               (f64_sub (Fin 1) (f64_mul (Fin 2) (f64_add (f64_mul x x) (f64_mul y y))));
             pitch_argument = f64_mul (Fin 2) (f64_sub (f64_mul w y) (f64_mul z x));
             pitch = (if f64_le (Fin 1) (f64_abs pitch_argument)
               then (if f64_lt pitch_argument (Fin 0) then f64_neg HALF_PI else HALF_PI)
               else np_arcsin M pitch_argument);
             yaw = np_arctan2 M (f64_mul (Fin 2) (f64_add (f64_mul w z) (f64_mul x y)))
               (f64_sub (Fin 1) (f64_mul (Fin 2) (f64_add (f64_mul y y) (f64_mul z z))))
         in Inr (roll, pitch, yaw)
     | _ \<Rightarrow> Inl SensorShape)"

definition orientation_euler :: "course_math \<Rightarrow> float_array \<Rightarrow> course_error + (f64 \<times> f64 \<times> f64)" where
  "orientation_euler M v = bindE (course_array CourseArray [4] ''orientation_wxyz'' v) (\<lambda>orientation.
     if \<not> isclose_default (np_norm M orientation) (Fin 1) (f64_round (1 / 10 ^ 6)) then Inl NotUnitQuaternion
     else quaternion_to_euler_wxyz M orientation)"

definition yaw_of :: "f64 \<times> f64 \<times> f64 \<Rightarrow> f64" where
  "yaw_of e = snd (snd e)"

record frame_projection =
  fp_progress :: f64
  fp_lateral :: f64
  fp_heading :: f64

record task_frame =
  tf_origin :: "f64 \<times> f64"
  tf_yaw :: f64

definition frame_initialize :: "course_math \<Rightarrow> float_array \<Rightarrow> float_array \<Rightarrow> course_error + task_frame" where
  "frame_initialize M root_xy orientation = bindE (course_array CourseArray [2] ''root_xy'' root_xy) (\<lambda>origin.
     bindE (orientation_euler M orientation) (\<lambda>e.
       Inr \<lparr>tf_origin = (origin ! 0, origin ! 1), tf_yaw = yaw_of e\<rparr>))"

definition frame_project :: "course_math \<Rightarrow> task_frame \<Rightarrow> float_array \<Rightarrow> float_array \<Rightarrow> course_error + frame_projection" where
  "frame_project M frame root_xy orientation = bindE (course_array CourseArray [2] ''root_xy'' root_xy) (\<lambda>position.
     bindE (orientation_euler M orientation) (\<lambda>e.
     bindE (domainE (m_cos M) (tf_yaw frame)) (\<lambda>c.
     bindE (domainE (m_sin M) (tf_yaw frame)) (\<lambda>s.
       let delta = [f64_sub (position ! 0) (fst (tf_origin frame)), f64_sub (position ! 1) (snd (tf_origin frame))];
           forward = [c, s];
           lateral = [f64_neg s, c];
           turn = f64_sub (yaw_of e) (tf_yaw frame)
       in bindE (domainE (m_sin M) turn) (\<lambda>st.
          bindE (domainE (m_cos M) turn) (\<lambda>ct.
            Inr \<lparr>fp_progress = np_dot M delta forward, fp_lateral = np_dot M delta lateral, fp_heading = m_atan2 M st ct\<rparr>))))))"

section \<open>The measurement of a step\<close>

record step_metrics =
  cm_spec_sha256 :: string
  cm_control_step :: int
  cm_progress :: f64
  cm_lateral :: f64
  cm_heading_signed :: f64
  cm_root_height :: f64
  cm_torso_up :: f64
  cm_forward_speed :: f64
  cm_target_speed :: f64
  cm_speed_error :: f64
  cm_posture_error :: f64
  cm_lateral_error :: f64
  cm_heading_error :: f64
  cm_inside :: bool
  cm_posture_success :: bool
  cm_finished :: bool
  cm_horizon_reached :: bool
  cm_fallen :: bool
  cm_failure_reasons :: "string list"
  cm_joint_rmse :: f64
  cm_height_error :: f64
  cm_roll_pitch_rmse :: f64

definition task_features :: "hasher \<Rightarrow> course_math \<Rightarrow> step_metrics \<Rightarrow> course_spec \<Rightarrow> course_error + f64 list" where
  "task_features h M m s = (if course_spec_sha256 h s \<noteq> cm_spec_sha256 m then Inl FeatureSpec
     else let remaining = py_max (Fin 0) (int_truediv (cs_horizon s - cm_control_step m) (cs_horizon s))
       in Inr (map (np_float32 M) [cm_progress m, cm_lateral m, cm_heading_signed m, cm_root_height m, cm_torso_up m,
            cm_forward_speed m, cm_target_speed m, Fin (if cm_inside m then 1 else 0), cs_band_low s, cs_band_high s, remaining]))"

definition reference_tracking_errors :: "course_math \<Rightarrow> float_array \<Rightarrow> f64 \<Rightarrow> float_array \<Rightarrow> float_array \<Rightarrow> course_error + (f64 \<times> f64 \<times> f64)" where
  "reference_tracking_errors M dof_v root_height roll_pitch_v reference_v =
     bindE (course_array DeploymentArray [ACTION_DIM] ''dof_position'' dof_v) (\<lambda>dof.
     bindE (course_array DeploymentArray [2] ''roll_pitch'' roll_pitch_v) (\<lambda>roll_pitch.
     bindE (course_array DeploymentArray [REFERENCE_FRAME_DIM] ''current_reference'' reference_v) (\<lambda>reference.
       Inr (np_sqrt M (np_mean M (map (np_square M) (map2 f64_sub dof (drop 7 reference)))),
            f64_abs (f64_sub root_height (reference ! 0)),
            np_sqrt M (np_mean M (map (np_square M) (map2 f64_sub roll_pitch (take 2 (drop 1 reference)))))))))"

text \<open>A list or a tuple of names that are not empty.\<close>

definition contact_names :: "pyval \<Rightarrow> course_error + string list" where
  "contact_names v = (case as_sequence v of
       None \<Rightarrow> Inl ContactBodies
     | Some vs \<Rightarrow> mapE (\<lambda>x. case x of PStr s \<Rightarrow> if s = [] then Inl ContactBodies else Inr s | _ \<Rightarrow> Inl ContactBodies) vs)"

definition non_foot_contacts :: "string list \<Rightarrow> string list" where
  "non_foot_contacts names = sort (uniq (filter (\<lambda>n. n \<notin> set ALLOWED_GROUND_CONTACT_BODIES) names))"

definition failure_reasons :: "f64 \<Rightarrow> f64 \<Rightarrow> string list \<Rightarrow> string list" where
  "failure_reasons height torso_up names = map snd (filter fst
     [(f64_lt height ROOT_HEIGHT_FAILURE_M, ''root_height_below_0.30_m''),
      (f64_lt torso_up TORSO_UP_FAILURE_MIN, ''torso_up_below_0.5''),
      (non_foot_contacts names \<noteq> [], ''non_foot_ground_contact'')])"

definition inside_region :: "course_spec \<Rightarrow> f64 \<Rightarrow> bool" where
  "inside_region s progress \<longleftrightarrow> f64_le (cs_entry s) progress \<and> f64_lt progress (cs_exit s)"

definition posture_error :: "course_spec \<Rightarrow> bool \<Rightarrow> f64 \<Rightarrow> f64" where
  "posture_error s inside height = (if inside
     then py_max (py_max (f64_sub (cs_band_low s) height) (Fin 0)) (f64_sub height (cs_band_high s))
     else Fin 0)"

definition boundary_step :: "course_spec \<Rightarrow> pyval \<Rightarrow> course_error + int" where
  "boundary_step s v = (case v of PInt n \<Rightarrow> if 0 \<le> n \<and> n \<le> cs_horizon s then Inr n else Inl ControlStep | _ \<Rightarrow> Inl ControlStep)"

definition evaluate_course_step :: "hasher \<Rightarrow> course_math \<Rightarrow> course_spec \<Rightarrow> task_frame \<Rightarrow> float_array \<Rightarrow> float_array \<Rightarrow> pyval \<Rightarrow>
    float_array \<Rightarrow> pyval \<Rightarrow> course_error + step_metrics" where
  "evaluate_course_step h M s frame before_v after_v contacts_v reference_v step_v =
     bindE (course_array CourseArray [7 + ACTION_DIM] ''before_qpos'' before_v) (\<lambda>before.
     bindE (course_array CourseArray [7 + ACTION_DIM] ''after_qpos'' after_v) (\<lambda>after.
     bindE (course_array CourseArray [REFERENCE_FRAME_DIM] ''current_reference'' reference_v) (\<lambda>reference.
     bindE (boundary_step s step_v) (\<lambda>control_step.
     bindE (contact_names contacts_v) (\<lambda>names.
     bindE (frame_project M frame (Floating [2] (take 2 before)) (Floating [4] (take 4 (drop 3 before)))) (\<lambda>before_projection.
     bindE (frame_project M frame (Floating [2] (take 2 after)) (Floating [4] (take 4 (drop 3 after)))) (\<lambda>after_projection.
     bindE (orientation_euler M (Floating [4] (take 4 (drop 3 after)))) (\<lambda>(roll, pitch, _).
     bindE (domainE (m_cos M) roll) (\<lambda>cr.
     bindE (domainE (m_cos M) pitch) (\<lambda>cp.
       let torso_up = f64_mul cr cp;
           height = after ! 2;
           reasons = failure_reasons height torso_up names;
           fallen = (reasons \<noteq> []);
           progress = fp_progress after_projection;
           inside = inside_region s progress;
           target = (if inside then cs_speed_inside s else cs_speed_outside s);
           speed = quotient (f64_sub progress (fp_progress before_projection)) CONTROL_DT_SECONDS;
           posture = posture_error s inside height
       in bindE (reference_tracking_errors M (Floating [ACTION_DIM] (drop 7 after)) height (Floating [2] [roll, pitch])
              (Floating [REFERENCE_FRAME_DIM] reference)) (\<lambda>(joint, height_error, roll_pitch).
         Inr \<lparr>cm_spec_sha256 = course_spec_sha256 h s, cm_control_step = control_step, cm_progress = progress,
           cm_lateral = fp_lateral after_projection, cm_heading_signed = fp_heading after_projection,
           cm_root_height = height, cm_torso_up = torso_up, cm_forward_speed = speed, cm_target_speed = target,
           cm_speed_error = f64_abs (f64_sub speed target), cm_posture_error = posture,
           cm_lateral_error = f64_abs (fp_lateral after_projection), cm_heading_error = f64_abs (fp_heading after_projection),
           cm_inside = inside, cm_posture_success = (inside \<and> f64_eq posture (Fin 0) \<and> \<not> fallen),
           cm_finished = f64_le (cs_finish s) progress, cm_horizon_reached = (cs_horizon s \<le> control_step),
           cm_fallen = fallen, cm_failure_reasons = reasons, cm_joint_rmse = joint, cm_height_error = height_error,
           cm_roll_pitch_rmse = roll_pitch\<rparr>)))))))))))"

section \<open>The contracts\<close>

lemma finite_field_PFloat [simp]: "finite_field e v = Inr f \<longleftrightarrow> v = PFloat f \<and> is_finite f"
  by (auto simp: finite_field_def split: pyval.splits)

lemma strict_float_PFloat [simp]: "strict_float k v = Inr f \<longleftrightarrow> v = PFloat f \<and> is_finite f"
  by (auto simp: strict_float_def split: pyval.splits)

lemma ranged_float_PFloat [simp]:
  "ranged_float e upper v = Inr f \<longleftrightarrow> v = PFloat f \<and> is_finite f \<and> f64_le (Fin 0) f \<and> f64_le f upper"
  by (auto simp: ranged_float_def split: pyval.splits)

definition course_spec_ok :: "course_spec \<Rightarrow> bool" where
  "course_spec_ok s \<longleftrightarrow>
     list_all is_finite [cs_entry s, cs_exit s, cs_finish s, cs_speed_outside s, cs_speed_inside s, cs_band_low s, cs_band_high s] \<and>
     f64_lt (Fin 0) (cs_entry s) \<and> f64_lt (cs_entry s) (cs_exit s) \<and>
     f64_lt (cs_exit s) (cs_finish s) \<and> f64_le (cs_finish s) (Fin 100) \<and>
     f64_le (Fin 0) (cs_speed_outside s) \<and> f64_le (cs_speed_outside s) (Fin 5) \<and>
     f64_le (Fin 0) (cs_speed_inside s) \<and> f64_le (cs_speed_inside s) (Fin 5) \<and>
     f64_lt (Fin 0) (cs_band_low s) \<and> f64_lt (cs_band_low s) (cs_band_high s) \<and>
     f64_le (cs_band_high s) (Fin 2) \<and> f64_lt ROOT_HEIGHT_FAILURE_M (cs_band_high s) \<and>
     1 \<le> cs_horizon s \<and> cs_horizon s \<le> 1000000"

lemma mk_course_spec_iff:
  "mk_course_spec a b c d e f g n = Inr s \<longleftrightarrow> course_spec_ok s \<and> a = PFloat (cs_entry s) \<and> b = PFloat (cs_exit s) \<and>
     c = PFloat (cs_finish s) \<and> d = PFloat (cs_speed_outside s) \<and> e = PFloat (cs_speed_inside s) \<and>
     f = PFloat (cs_band_low s) \<and> g = PFloat (cs_band_high s) \<and> n = PInt (cs_horizon s)"
  (is "?l \<longleftrightarrow> ?r")
proof
  assume ?l
  then show ?r by (auto simp: mk_course_spec_def course_spec_ok_def split: if_splits pyval.splits)
next
  assume r: ?r
  then show ?l by (auto simp: mk_course_spec_def course_spec_ok_def finite_field_def)
qed

lemma spec_reads_back:
  assumes "course_spec_ok s"
  shows "spec_from_dict (spec_to_dict s) = Inr s"
proof -
  define d where "d = (case spec_to_dict s of PDict d \<Rightarrow> d | _ \<Rightarrow> [])"
  have sd: "spec_to_dict s = PDict d" by (simp add: d_def spec_to_dict_def)
  have r: "course_record COURSE_TASK_SPEC_ID (SPEC_FLOAT_FIELDS @ [''horizon_steps'']) 1 (PDict d) = Inr d"
    by (auto simp: d_def spec_to_dict_def course_record_def SPEC_FLOAT_FIELDS_def keys_are_def dict_keys_def item_def dict_get_def)
  have f: "list_all is_finite [cs_entry s, cs_exit s, cs_finish s, cs_speed_outside s, cs_speed_inside s, cs_band_low s, cs_band_high s]"
    using assms by (simp add: course_spec_ok_def)
  have x: "mapE (strict_at d) SPEC_FLOAT_FIELDS = Inr [cs_entry s, cs_exit s, cs_finish s, cs_speed_outside s,
      cs_speed_inside s, cs_band_low s, cs_band_high s]"
    using f by (simp add: SPEC_FLOAT_FIELDS_def strict_at_def d_def spec_to_dict_def item_def dict_get_def)
  have n: "item d ''horizon_steps'' = PInt (cs_horizon s)" by (simp add: d_def spec_to_dict_def item_def dict_get_def)
  show ?thesis
    using assms by (simp add: spec_from_dict_def sd r x n mk_course_spec_iff)
qed

definition reward_recipe_ok :: "reward_recipe \<Rightarrow> bool" where
  "reward_recipe_ok r \<longleftrightarrow>
     list_all (\<lambda>w. is_finite w \<and> f64_le (Fin 0) w \<and> f64_le w (Fin 5)) [rp_speed r, rp_posture r, rp_lateral r, rp_heading r, rp_failure r] \<and>
     list_all (\<lambda>w. is_finite w \<and> f64_le (Fin 0) w \<and> f64_le w (Fin 1)) [rp_depth_strength r, rp_ceiling_fraction r] \<and>
     (rp_version r = 2 \<or> rp_version r = 1 \<and> f64_eq (rp_depth_strength r) (Fin 0) \<and> f64_eq (rp_ceiling_fraction r) CEILING_FRACTION_DEFAULT)"

lemma mk_reward_recipe_iff:
  "mk_reward_recipe a b c d e v f g = Inr r \<longleftrightarrow> reward_recipe_ok r \<and> a = PFloat (rp_speed r) \<and> b = PFloat (rp_posture r) \<and>
     c = PFloat (rp_lateral r) \<and> d = PFloat (rp_heading r) \<and> e = PFloat (rp_failure r) \<and> v = PInt (rp_version r) \<and>
     f = PFloat (rp_depth_strength r) \<and> g = PFloat (rp_ceiling_fraction r)"
  (is "?l \<longleftrightarrow> ?r")
proof
  assume ?l
  then show ?r by (auto simp: mk_reward_recipe_def reward_recipe_ok_def split: if_splits)
next
  assume r: ?r
  then show ?l by (auto simp: mk_reward_recipe_def reward_recipe_ok_def ranged_float_def)
qed

lemma ceiling_default_finite: "is_finite CEILING_FRACTION_DEFAULT"
proof -
  have "fin_in (f64_round (6 / 10)) 0 1" by (rule round_in) simp_all
  then show ?thesis by (auto simp: CEILING_FRACTION_DEFAULT_def fin_in_def)
qed

lemma recipe_reads_back:
  assumes ok: "reward_recipe_ok r"
  shows "reward_recipe_from_dict (reward_recipe_to_dict r) = Inr r"
proof -
  define d where "d = (case reward_recipe_to_dict r of PDict d \<Rightarrow> d | _ \<Rightarrow> [])"
  have rd: "reward_recipe_to_dict r = PDict d" by (simp add: d_def reward_recipe_to_dict_def)
  have f: "list_all is_finite [rp_speed r, rp_posture r, rp_lateral r, rp_heading r, rp_failure r, rp_depth_strength r, rp_ceiling_fraction r]"
    using ok by (simp add: reward_recipe_ok_def)
  have w: "mapE (strict_at d) RECIPE_WEIGHT_FIELDS = Inr [rp_speed r, rp_posture r, rp_lateral r, rp_heading r, rp_failure r]"
    using f by (simp add: RECIPE_WEIGHT_FIELDS_def strict_at_def d_def reward_recipe_to_dict_def weight_items_def item_def dict_get_def)
  have "rp_version r = 1 \<or> rp_version r = 2" using ok by (auto simp: reward_recipe_ok_def)
  then show ?thesis
  proof
    assume v: "rp_version r = 1"
    have g: "has_schema d TASK_REWARD_RECIPE_ID" "course_record TASK_REWARD_RECIPE_ID RECIPE_WEIGHT_FIELDS 1 (PDict d) = Inr d"
      by (auto simp: v d_def reward_recipe_to_dict_def weight_items_def has_schema_def course_record_def RECIPE_WEIGHT_FIELDS_def
          keys_are_def dict_keys_def item_def dict_get_def)
    have "rp_depth_strength r = Fin 0" "rp_ceiling_fraction r = CEILING_FRACTION_DEFAULT"
      using ok v ceiling_default_finite by (auto simp: reward_recipe_ok_def f64_eq_Fin is_finite_iff)
    then show ?thesis using ok v by (simp add: reward_recipe_from_dict_def rd g w mk_reward_recipe_iff)
  next
    assume v: "rp_version r = 2"
    have g: "\<not> has_schema d TASK_REWARD_RECIPE_ID" "has_schema d TASK_REWARD_RECIPE_V2_ID"
      "course_record TASK_REWARD_RECIPE_V2_ID (RECIPE_WEIGHT_FIELDS @ [''depth_strength'', ''ceiling_fraction'']) 2 (PDict d) = Inr d"
      by (auto simp: v d_def reward_recipe_to_dict_def weight_items_def has_schema_def course_record_def RECIPE_WEIGHT_FIELDS_def
          keys_are_def dict_keys_def item_def dict_get_def TASK_REWARD_RECIPE_ID_def TASK_REWARD_RECIPE_V2_ID_def)
    have "strict_at d ''depth_strength'' = Inr (rp_depth_strength r)" "strict_at d ''ceiling_fraction'' = Inr (rp_ceiling_fraction r)"
      using f v by (simp_all add: strict_at_def d_def reward_recipe_to_dict_def weight_items_def item_def dict_get_def)
    then show ?thesis using ok v by (simp add: reward_recipe_from_dict_def rd g w mk_reward_recipe_iff)
  qed
qed

interpretation spec_wire: wire_format course_spec_ok spec_to_dict spec_from_dict
  by unfold_locales (rule spec_reads_back)

interpretation recipe_wire: wire_format reward_recipe_ok reward_recipe_to_dict reward_recipe_from_dict
  by unfold_locales (rule recipe_reads_back)

section \<open>The verdicts of a measurement\<close>

lemma round_diff_sign:
  assumes "f64_rep a" "f64_rep b"
  shows "f64_le (f64_round (a - b)) (Fin 0) \<longleftrightarrow> a \<le> b"
proof
  assume "a \<le> b"
  then show "f64_le (f64_round (a - b)) (Fin 0)" using f64_round_mono[of "a - b" 0] by (simp add: f64_rep_round)
next
  assume le: "f64_le (f64_round (a - b)) (Fin 0)"
  show "a \<le> b"
  proof (rule ccontr)
    assume n: "\<not> a \<le> b"
    have "f64_rep (- b)" using assms(2) by (simp add: f64_rep_def round_rat_uminus)
    from round_add_error[OF assms(1) this] have e: "\<bar>round_rat (a - b) - (a - b)\<bar> \<le> \<bar>a - b\<bar> / 2 ^ 53" by simp
    have "\<bar>a - b\<bar> / 2 ^ 53 < a - b" using n by simp
    then have "0 < round_rat (a - b)" using e by linarith
    moreover have "\<not> round_rat (a - b) \<le> - pow2 1024" using calculation pow2_pos[of 1024] by linarith
    ultimately show False using le by (auto simp: f64_round_def Let_def split: if_splits)
  qed
qed

lemma f64_sub_le_0:
  assumes "f64_ok a" "f64_ok b" "is_finite a" "is_finite b"
  shows "f64_le (f64_sub a b) (Fin 0) \<longleftrightarrow> f64_le a b"
  using assms round_diff_sign by (cases a; cases b) (auto simp: f64_sub_def)

lemma py_max_zero:
  assumes "x \<noteq> NaN" "y \<noteq> NaN"
  shows "f64_eq (py_max (py_max x (Fin 0)) y) (Fin 0) \<longleftrightarrow> f64_le x (Fin 0) \<and> f64_le y (Fin 0)"
  using assms by (cases x; cases y) (auto simp: py_max_def)

lemma f64_sub_not_NaN: "is_finite a \<Longrightarrow> is_finite b \<Longrightarrow> f64_sub a b \<noteq> NaN"
  by (cases a; cases b) (auto simp: f64_sub_def f64_round_def Let_def)

lemma posture_error_zero:
  assumes "f64_ok h" "is_finite h" "f64_ok (cs_band_low s)" "f64_ok (cs_band_high s)" "course_spec_ok s"
  shows "f64_eq (posture_error s True h) (Fin 0) \<longleftrightarrow> f64_le (cs_band_low s) h \<and> f64_le h (cs_band_high s)"
  using assms by (simp add: posture_error_def py_max_zero f64_sub_not_NaN f64_sub_le_0 course_spec_ok_def)

lemma non_foot_contacts_Nil: "non_foot_contacts names = [] \<longleftrightarrow> set names \<subseteq> set ALLOWED_GROUND_CONTACT_BODIES"
proof -
  have "non_foot_contacts names = [] \<longleftrightarrow> set (non_foot_contacts names) = {}" by simp
  then show ?thesis by (auto simp: non_foot_contacts_def simp del: set_empty)
qed

lemma failure_reasons_Nil:
  "failure_reasons height up names = [] \<longleftrightarrow>
     \<not> f64_lt height ROOT_HEIGHT_FAILURE_M \<and> \<not> f64_lt up TORSO_UP_FAILURE_MIN \<and> set names \<subseteq> set ALLOWED_GROUND_CONTACT_BODIES"
  by (auto simp: failure_reasons_def non_foot_contacts_Nil)

lemma course_array_Inr: "course_array err shape field v = Inr xs \<longleftrightarrow> v = Floating shape xs \<and> list_all is_finite xs"
  by (auto simp: course_array_def split: float_array.splits if_splits)

lemma boundary_step_Inr: "boundary_step s v = Inr n \<longleftrightarrow> v = PInt n \<and> 0 \<le> n \<and> n \<le> cs_horizon s"
  by (auto simp: boundary_step_def split: pyval.splits)

text \<open>What the measurement took from its arguments.\<close>

lemma evaluate_course_stepE:
  assumes "evaluate_course_step h M s frame before_v after_v contacts_v reference_v step_v = Inr m"
  obtains after names where
    "after_v = Floating [7 + ACTION_DIM] after" "list_all is_finite after" "contact_names contacts_v = Inr names"
    "step_v = PInt (cm_control_step m)" "0 \<le> cm_control_step m" "cm_control_step m \<le> cs_horizon s"
    "cm_spec_sha256 m = course_spec_sha256 h s" "cm_root_height m = after ! 2"
    "cm_inside m = inside_region s (cm_progress m)"
    "cm_target_speed m = (if cm_inside m then cs_speed_inside s else cs_speed_outside s)"
    "cm_posture_error m = posture_error s (cm_inside m) (cm_root_height m)"
    "cm_failure_reasons m = failure_reasons (cm_root_height m) (cm_torso_up m) names"
    "cm_fallen m = (cm_failure_reasons m \<noteq> [])"
    "cm_posture_success m = (cm_inside m \<and> f64_eq (cm_posture_error m) (Fin 0) \<and> \<not> cm_fallen m)"
    "cm_finished m = f64_le (cs_finish s) (cm_progress m)"
    "cm_horizon_reached m = (cs_horizon s \<le> cm_control_step m)"
  using assms unfolding evaluate_course_step_def Let_def bindE_eq_Inr case_prod_beta course_array_Inr boundary_step_Inr
  by (elim exE conjE) (drule Inr_inject, hypsubst, rule that, (assumption | simp only: step_metrics.simps | simp)+)

text \<open>The fields of a specification and the values of an array are binary64 values.\<close>

definition spec_floats_ok :: "course_spec \<Rightarrow> bool" where
  "spec_floats_ok s \<longleftrightarrow> list_all f64_ok
     [cs_entry s, cs_exit s, cs_finish s, cs_speed_outside s, cs_speed_inside s, cs_band_low s, cs_band_high s]"

fun float_array_ok :: "float_array \<Rightarrow> bool" where
  "float_array_ok (Floating shape data) = (length data = prod_list shape \<and> list_all f64_ok data)"
| "float_array_ok (NotFloating shape) = True"

lemma before_exit_not_finished:
  assumes "course_spec_ok s" "f64_lt p (cs_exit s)"
  shows "\<not> f64_le (cs_finish s) p"
  using assms by (cases "cs_exit s"; cases "cs_finish s"; cases p) (auto simp: course_spec_ok_def)

text \<open>
  The verdicts of a measured step, exactly in binary64: the step is inside the region when the
  progress lies between entry and exit; it has fallen when the root is below 0.30, the torso axis below
  0.5, or something other than a foot touches the ground; the posture succeeds exactly when the step is
  inside, the height lies in the band and it has not fallen, so the rounding of the band error never
  decides; the horizon is reached at the last boundary; and a finished step is no longer inside.
\<close>

lemma course_step_verdicts:
  assumes made: "mk_course_spec a b c d e f g n = Inr s" and fl: "spec_floats_ok s" and arr: "float_array_ok after_v"
    and m: "evaluate_course_step h M s frame before_v after_v contacts_v reference_v step_v = Inr m"
  shows "\<exists>names. contact_names contacts_v = Inr names \<and>
     (cm_inside m \<longleftrightarrow> f64_le (cs_entry s) (cm_progress m) \<and> f64_lt (cm_progress m) (cs_exit s)) \<and>
     (cm_fallen m \<longleftrightarrow> f64_lt (cm_root_height m) ROOT_HEIGHT_FAILURE_M \<or> f64_lt (cm_torso_up m) TORSO_UP_FAILURE_MIN \<or>
        \<not> set names \<subseteq> {''left_ankle_roll_link'', ''right_ankle_roll_link''}) \<and>
     (cm_posture_success m \<longleftrightarrow> cm_inside m \<and> f64_le (cs_band_low s) (cm_root_height m) \<and>
        f64_le (cm_root_height m) (cs_band_high s) \<and> \<not> cm_fallen m) \<and>
     (cm_horizon_reached m \<longleftrightarrow> cm_control_step m = cs_horizon s) \<and>
     (cm_finished m \<longrightarrow> \<not> cm_inside m \<and> \<not> cm_posture_success m)"
proof -
  have ok: "course_spec_ok s" using made by (simp add: mk_course_spec_iff)
  from m show ?thesis
  proof (rule evaluate_course_stepE)
    fix after names
    assume e: "after_v = Floating [7 + ACTION_DIM] after" "list_all is_finite after" "contact_names contacts_v = Inr names"
      "step_v = PInt (cm_control_step m)" "0 \<le> cm_control_step m" "cm_control_step m \<le> cs_horizon s"
      "cm_spec_sha256 m = course_spec_sha256 h s" "cm_root_height m = after ! 2"
      "cm_inside m = inside_region s (cm_progress m)"
      "cm_target_speed m = (if cm_inside m then cs_speed_inside s else cs_speed_outside s)"
      "cm_posture_error m = posture_error s (cm_inside m) (cm_root_height m)"
      "cm_failure_reasons m = failure_reasons (cm_root_height m) (cm_torso_up m) names"
      "cm_fallen m = (cm_failure_reasons m \<noteq> [])"
      "cm_posture_success m = (cm_inside m \<and> f64_eq (cm_posture_error m) (Fin 0) \<and> \<not> cm_fallen m)"
      "cm_finished m = f64_le (cs_finish s) (cm_progress m)"
      "cm_horizon_reached m = (cs_horizon s \<le> cm_control_step m)"
    have "length after = 30" "list_all f64_ok after" using arr e(1) by (simp_all add: ACTION_DIM_def)
    then have h: "f64_ok (cm_root_height m)" "is_finite (cm_root_height m)" using e(2,8) by (simp_all add: list_all_length)
    have "f64_ok (cs_band_low s)" "f64_ok (cs_band_high s)" using fl by (simp_all add: spec_floats_ok_def)
    note p = posture_error_zero[OF h this ok]
    have inside: "cm_inside m \<longleftrightarrow> f64_le (cs_entry s) (cm_progress m) \<and> f64_lt (cm_progress m) (cs_exit s)"
      using e(9) by (simp add: inside_region_def)
    moreover have "cm_fallen m \<longleftrightarrow> f64_lt (cm_root_height m) ROOT_HEIGHT_FAILURE_M \<or> f64_lt (cm_torso_up m) TORSO_UP_FAILURE_MIN \<or>
        \<not> set names \<subseteq> {''left_ankle_roll_link'', ''right_ankle_roll_link''}"
      unfolding e(13) e(12) failure_reasons_Nil by (auto simp: ALLOWED_GROUND_CONTACT_BODIES_def)
    moreover have "cm_posture_success m \<longleftrightarrow> cm_inside m \<and> f64_le (cs_band_low s) (cm_root_height m) \<and>
        f64_le (cm_root_height m) (cs_band_high s) \<and> \<not> cm_fallen m"
      using p by (auto simp: e(14) e(11))
    moreover have "cm_horizon_reached m \<longleftrightarrow> cm_control_step m = cs_horizon s" using e(6,16) by auto
    moreover have "cm_finished m \<longrightarrow> \<not> cm_inside m" using before_exit_not_finished[OF ok] inside e(15) by blast
    ultimately show ?thesis using e(3) by blast
  qed
qed

section \<open>Witness\<close>

definition course_demo_spec :: course_spec where
  "course_demo_spec = \<lparr>cs_entry = Fin 4, cs_exit = Fin 10, cs_finish = Fin 15, cs_speed_outside = Fin 1, cs_speed_inside = Fin (1 / 2),
     cs_band_low = Fin (1 / 2), cs_band_high = Fin 1, cs_horizon = 10\<rparr>"

text \<open>Exact at the upright orientation and at rest; the square fails from \<open>2^500\<close> on.\<close>

definition course_demo_math :: course_math where
  "course_demo_math = \<lparr>np_multiply = f64_mul, np_divide = quotient, np_subtract = f64_sub, np_square = (\<lambda>a. f64_mul a a),
     np_clip = (\<lambda>x lo hi. x), np_sum = py_sum, np_norm = hd, np_allclose = (\<lambda>xs ys t. xs = ys), np_einsum = (\<lambda>m x. []),
     m_exp = (\<lambda>x. if x = Fin 0 then Fin 1 else Fin 0),
     m_pow2 = (\<lambda>x. case x of Fin q \<Rightarrow> if \<bar>q\<bar> \<le> pow2 500 then Some (f64_mul x x) else None | _ \<Rightarrow> Some (f64_mul x x)),
     m_cos = (\<lambda>x. Fin 1), m_sin = (\<lambda>x. Fin 0), m_atan2 = (\<lambda>y x. Fin 0), np_arctan2 = (\<lambda>y x. Fin 0), np_arcsin = (\<lambda>x. Fin 0),
     np_dot = (\<lambda>xs ys. f64_mul (hd xs) (hd ys)), np_mean = hd, np_sqrt = (\<lambda>x. x), np_float32 = (\<lambda>x. x)\<rparr>"

lemma course_demo_failure_height: "f64_le ROOT_HEIGHT_FAILURE_M (Fin (1 / 2))" "f64_le (Fin (1 / 4)) ROOT_HEIGHT_FAILURE_M"
  using round_in[of "1 / 4" "1 / 2" "3 / 10"] by (auto simp: ROOT_HEIGHT_FAILURE_M_def fin_in_def)

lemma course_demo_spec_made: "mk_course_spec (PFloat (Fin 4)) (PFloat (Fin 10)) (PFloat (Fin 15)) (PFloat (Fin 1)) (PFloat (Fin (1 / 2)))
    (PFloat (Fin (1 / 2))) (PFloat (Fin 1)) (PInt 10) = Inr course_demo_spec"
proof -
  have "f64_lt ROOT_HEIGHT_FAILURE_M (Fin 1)" 
    by (rule f64_le_lt_trans[OF course_demo_failure_height(1)]) simp
  then show ?thesis by (simp add: mk_course_spec_iff course_demo_spec_def course_spec_ok_def)
qed

lemma f64_rep_even [simp]: "f64_rep 2"
  using f64_rep_quarters[of 8] by simp

lemma course_demo_spec_floats: "spec_floats_ok course_demo_spec"
  by (simp add: spec_floats_ok_def course_demo_spec_def)

text \<open>A standing step inside the region, from progress 5 to progress 5 at height 3/4.\<close>

definition course_demo_pose :: float_array where
  "course_demo_pose = Floating [30] ([Fin 5, Fin 0, Fin (3 / 4), Fin 1, Fin 0, Fin 0, Fin 0] @ replicate 23 (Fin 0))"

definition course_demo_reference :: float_array where
  "course_demo_reference = Floating [30] (replicate 30 (Fin 0))"

definition course_demo_frame :: task_frame where
  "course_demo_frame = \<lparr>tf_origin = (Fin 0, Fin 0), tf_yaw = Fin 0\<rparr>"

definition course_demo_step :: "hasher \<Rightarrow> course_error + step_metrics" where
  "course_demo_step h = evaluate_course_step h course_demo_math course_demo_spec course_demo_frame course_demo_pose course_demo_pose
     (PList [PStr ''left_ankle_roll_link'']) course_demo_reference (PInt 3)"

lemma course_demo_euler: "orientation_euler course_demo_math (Floating [4] [Fin 1, Fin 0, Fin 0, Fin 0]) = Inr (Fin 0, Fin 0, Fin 0)"
  by (simp add: orientation_euler_def course_array_def isclose_default_def course_demo_math_def quaternion_to_euler_wxyz_def
      f64_sub_def f64_rep_round Let_def)

lemma course_demo_projection:
  "frame_project course_demo_math course_demo_frame (Floating [2] [Fin 5, Fin 0]) (Floating [4] [Fin 1, Fin 0, Fin 0, Fin 0]) =
     Inr \<lparr>fp_progress = Fin 5, fp_lateral = Fin 0, fp_heading = Fin 0\<rparr>"
  by (simp add: frame_project_def course_array_def course_demo_euler course_demo_frame_def domainE_def yaw_of_def f64_sub_def
      f64_rep_round Let_def) (simp add: course_demo_math_def f64_rep_round)

lemma list_all_replicate [simp]: "list_all P (replicate n x) \<longleftrightarrow> n = 0 \<or> P x"
  by (induction n) auto

lemma course_demo_errors:
  "reference_tracking_errors course_demo_math (Floating [ACTION_DIM] (replicate 23 (Fin 0))) (Fin (3 / 4)) (Floating [2] [Fin 0, Fin 0])
     (Floating [REFERENCE_FRAME_DIM] (replicate 30 (Fin 0))) = Inr (Fin 0, f64_abs (f64_round (3 / 4)), Fin 0)"
proof -
  have d: "drop 7 (replicate 30 (Fin 0)) = replicate 23 (Fin 0)" "take 2 (drop 1 (replicate 30 (Fin 0))) = [Fin 0, Fin 0]"
    "replicate 30 (Fin 0) ! 0 = Fin 0"
    by (simp_all add: numeral_eq_Suc)
  show ?thesis
    by (simp add: reference_tracking_errors_def course_array_def ACTION_DIM_def REFERENCE_FRAME_DIM_def d f64_sub_def f64_rep_round
        zip_replicate course_demo_math_def numeral_2_eq_2)
qed

lemma course_demo_step_made:
  "\<exists>m. course_demo_step h = Inr m \<and> cm_progress m = Fin 5 \<and> cm_root_height m = Fin (3 / 4) \<and> cm_torso_up m = Fin 1 \<and>
     cm_control_step m = 3"
proof -
  have n: "contact_names (PList [PStr ''left_ankle_roll_link'']) = Inr [''left_ankle_roll_link'']" by (simp add: contact_names_def)
  have b: "boundary_step course_demo_spec (PInt 3) = Inr 3" by (simp add: boundary_step_def course_demo_spec_def)
  have c: "m_cos course_demo_math x = Fin 1" for x by (simp add: course_demo_math_def)
  define P where "P = [Fin 5, Fin 0, Fin (3 / 4), Fin 1, Fin 0, Fin 0, Fin 0] @ replicate 23 (Fin 0)"
  have p: "take 2 P = [Fin 5, Fin 0]" "take 4 (drop 3 P) = [Fin 1, Fin 0, Fin 0, Fin 0]" "P ! 2 = Fin (3 / 4)"
    "drop 7 P = replicate 23 (Fin 0)"
    by (simp_all add: P_def)
  have a: "course_array CourseArray [7 + ACTION_DIM] k course_demo_pose = Inr P" for k
    by (simp add: course_array_def course_demo_pose_def ACTION_DIM_def P_def)
  have r: "course_array CourseArray [REFERENCE_FRAME_DIM] k course_demo_reference = Inr (replicate 30 (Fin 0))" for k
    by (simp add: course_array_def course_demo_reference_def REFERENCE_FRAME_DIM_def)
  show ?thesis
    by (simp add: course_demo_step_def evaluate_course_step_def a r n b p course_demo_projection course_demo_euler course_demo_errors
        domainE_def c f64_rep_round Let_def)
qed

lemma course_demo_arrays_ok: "float_array_ok course_demo_pose"
  using f64_rep_quarters[of 3] by (simp add: course_demo_pose_def)

text \<open>The step is inside, and stands in the band.\<close>

lemma course_step_verdicts_witness:
  "\<exists>m. course_demo_step demo_hasher = Inr m \<and> cm_inside m \<and> \<not> cm_fallen m \<and> cm_posture_success m \<and> \<not> cm_horizon_reached m \<and> \<not> cm_finished m"
proof -
  obtain m where m: "course_demo_step demo_hasher = Inr m" "cm_progress m = Fin 5" "cm_root_height m = Fin (3 / 4)" "cm_torso_up m = Fin 1"
    "cm_control_step m = 3"
    using course_demo_step_made by blast
  have n: "contact_names (PList [PStr ''left_ankle_roll_link'']) = Inr [''left_ankle_roll_link'']" by (simp add: contact_names_def)
  have "\<not> f64_lt (Fin (3 / 4)) ROOT_HEIGHT_FAILURE_M"
  proof
    assume "f64_lt (Fin (3 / 4)) ROOT_HEIGHT_FAILURE_M"
    from f64_lt_le_trans[OF this course_demo_failure_height(1)] show False by simp
  qed
  with course_step_verdicts[OF course_demo_spec_made course_demo_spec_floats course_demo_arrays_ok m(1)[unfolded course_demo_step_def]] m n
  show ?thesis by (auto simp: course_demo_spec_def TORSO_UP_FAILURE_MIN_def)
qed

end
