(* ===== verification/Float32.thy ===== *)
theory Float32
  imports PySum
begin

text \<open>
  Binary32 values, as numpy and torch compute with them: a value is the binary64 value of the same
  number, and an operation is the exact one followed by rounding to 24 significant bits.
\<close>

definition round32 :: "rat \<Rightarrow> rat" where
  "round32 x = round_to 24 (- 149) x"

definition f32_round :: "rat \<Rightarrow> f64" where
  "f32_round x = (let r = round32 x in
     if pow2 128 \<le> r then PosInf else if r \<le> - pow2 128 then NegInf else Fin r)"

text \<open>\<open>np.float32(x)\<close>\<close>

fun to_f32 :: "f64 \<Rightarrow> f64" where
  "to_f32 (Fin q) = f32_round q"
| "to_f32 x = x"

fun f32_add :: "f64 \<Rightarrow> f64 \<Rightarrow> f64" where
  "f32_add (Fin a) (Fin b) = f32_round (a + b)"
| "f32_add a b = f64_add a b"

definition f32_sub :: "f64 \<Rightarrow> f64 \<Rightarrow> f64" where
  "f32_sub a b = f32_add a (f64_neg b)"

fun f32_mul :: "f64 \<Rightarrow> f64 \<Rightarrow> f64" where
  "f32_mul (Fin a) (Fin b) = f32_round (a * b)"
| "f32_mul a b = f64_mul a b"

definition f32_rep :: "rat \<Rightarrow> bool" where
  "f32_rep r \<longleftrightarrow> round32 r = r \<and> \<bar>r\<bar> < pow2 128"

fun f32_ok :: "f64 \<Rightarrow> bool" where
  "f32_ok (Fin r) = f32_rep r"
| "f32_ok _ = True"

section \<open>Rounding\<close>

lemma round32_mono: "x \<le> y \<Longrightarrow> round32 x \<le> round32 y"
  by (simp add: round32_def round_to_mono)

lemma round32_idem [simp]: "round32 (round32 x) = round32 x"
  by (simp add: round32_def round_to_idem)

lemma round32_uminus: "round32 (- x) = - round32 x"
  by (simp add: round32_def round_to_uminus)

lemma round32_error: "\<bar>x\<bar> < pow2 k \<Longrightarrow> - 125 \<le> k \<Longrightarrow> \<bar>round32 x - x\<bar> \<le> pow2 (k - 25)"
  using round_to_error_below[of x k "- 149" 24] by (simp add: round32_def)

lemma f32_rep_round: "f32_rep r \<Longrightarrow> f32_round r = Fin r"
  by (auto simp: f32_rep_def f32_round_def Let_def abs_less_iff)

lemma f32_round_FinD: "f32_round x = Fin r \<Longrightarrow> f32_rep r \<and> r = round32 x"
  by (auto simp: f32_rep_def f32_round_def Let_def abs_less_iff split: if_splits)

lemma f32_ok_round [simp]: "f32_ok (f32_round x)"
  using f32_round_FinD by (cases "f32_round x") auto

lemma to_f32_ok [simp]: "f32_ok (to_f32 x)"
  by (cases x) auto

lemma f32_add_ok [simp]: "f32_ok (f32_add a b)"
  by (cases a; cases b) auto

text \<open>Every binary32 value is a binary64 value.\<close>

lemma f32_rep_is_f64:
  assumes "f32_rep r"
  shows "f64_rep r"
proof -
  obtain m k where mk: "r = of_int m * pow2 k" "\<bar>m\<bar> \<le> 2 ^ 24" "- 149 \<le> k"
    using round_to_on_grid[of 24 "- 149" r] assms unfolding f32_rep_def round32_def by metis
  have "round_rat (of_int m * pow2 k) = of_int m * pow2 k" using mk(2,3) by (intro round_rat_scaled) auto
  moreover have "\<bar>r\<bar> < pow2 1024"
    using assms less_trans[OF _ pow2_strict_mono[of 128 1024]] by (simp add: f32_rep_def)
  ultimately show ?thesis using mk(1) by (simp add: f64_rep_def)
qed

lemma f32_ok_f64_ok: "f32_ok x \<Longrightarrow> f64_ok x"
  by (cases x) (auto intro: f32_rep_is_f64)

lemma f32_rep_scaled:
  assumes "\<bar>m\<bar> \<le> 2 ^ 24" "- 149 \<le> k" "\<bar>of_int m * pow2 k\<bar> < pow2 128"
  shows "f32_rep (of_int m * pow2 k)"
  using round_to_scaled[of m 24 "- 149" k] assms by (simp add: f32_rep_def round32_def)

lemma f32_rep_of_int:
  assumes "\<bar>n\<bar> \<le> 2 ^ 24"
  shows "f32_rep (of_int n)"
proof -
  have "(of_int \<bar>n\<bar> :: rat) \<le> of_int (2 ^ 24)" using assms by (simp only: of_int_le_iff)
  also have "\<dots> < pow2 128" by (simp add: pow2_def)
  finally show ?thesis using f32_rep_scaled[of n 0] assms by simp
qed

lemma f32_round_in:
  assumes "f32_rep a" "f32_rep b" "a \<le> q" "q \<le> b"
  obtains r where "f32_round q = Fin r" "f32_rep r" "a \<le> r" "r \<le> b"
proof -
  have "a \<le> round32 q" "round32 q \<le> b"
    using assms round32_mono[of a q] round32_mono[of q b] by (simp_all add: f32_rep_def)
  moreover from this assms(1,2) have "\<bar>round32 q\<bar> < pow2 128" by (auto simp: f32_rep_def abs_less_iff)
  ultimately show ?thesis by (intro that[of "round32 q"]) (auto simp: f32_round_def Let_def abs_less_iff f32_rep_def)
qed

end
