(* ===== verification/GmtControl.thy ===== *)
theory GmtControl
  imports CourseTask Float32 "HOL-Library.Product_Lexorder"
begin

text \<open>
  The 50 Hz control of the G1 robot: \<^verbatim>\<open>src/oracle_composition/adapters/gmt/deployment.py\<close> (proprioception,
  observation history, PD control) and \<^verbatim>\<open>control_runtime.py\<close> (boundaries, intervals, the residual
  action, the plant runtime and the actor session).  An array is its type, its shape, its contiguity
  and its values in row-major order; the simulator and the actor network are parameters.  Arithmetic
  on float32 arrays is the binary32 arithmetic of \<open>Float32\<close>.
\<close>

section \<open>Constants\<close>

definition OBSERVATION_DIM :: nat where "OBSERVATION_DIM = 2154"
definition REFERENCE_HORIZON :: nat where "REFERENCE_HORIZON = 20"
definition PROPRIOCEPTION_DIM :: nat where "PROPRIOCEPTION_DIM = 74"
definition SIMULATION_DECIMATION :: nat where "SIMULATION_DECIMATION = 20"
definition ACTION_SCALE :: f64 where "ACTION_SCALE = Fin (1 / 2)"
definition RAW_ACTION_MIN :: f64 where "RAW_ACTION_MIN = Fin (- 10)"
definition RAW_ACTION_MAX :: f64 where "RAW_ACTION_MAX = Fin 10"
definition ANGULAR_VELOCITY_SCALE :: f64 where "ANGULAR_VELOCITY_SCALE = Fin (1 / 4)"
definition DOF_POSITION_SCALE :: f64 where "DOF_POSITION_SCALE = Fin 1"
definition DOF_VELOCITY_SCALE :: f64 where "DOF_VELOCITY_SCALE = f64_round (5 / 100)"
definition HISTORY_LENGTH :: nat where "HISTORY_LENGTH = 20"
definition ZEROED_DOF_VELOCITY_INDICES :: "nat list" where "ZEROED_DOF_VELOCITY_INDICES = [4, 5, 10, 11]"
definition DEFAULT_DOF_POSITION :: "f64 list" where
  "DEFAULT_DOF_POSITION = map (\<lambda>q. f64_round (q / 10))
     [- 2, 0, 0, 4, - 2, 0, - 2, 0, 0, 4, - 2, 0, 0, 0, 0, 0, 4, 0, 12, 0, - 4, 0, 12]"
definition STIFFNESS :: "f64 list" where
  "STIFFNESS = map Fin [100, 100, 100, 150, 40, 40, 100, 100, 100, 150, 40, 40, 150, 150, 150, 40, 40, 40, 40, 40, 40, 40, 40]"
definition DAMPING :: "f64 list" where
  "DAMPING = map Fin [2, 2, 2, 4, 2, 2, 2, 2, 2, 4, 2, 2, 4, 4, 4, 5, 5, 5, 5, 5, 5, 5, 5]"
definition TORQUE_LIMITS :: "f64 list" where
  "TORQUE_LIMITS = map Fin [88, 139, 88, 139, 50, 50, 88, 139, 88, 139, 50, 50, 88, 50, 50, 25, 25, 25, 25, 25, 25, 25, 25]"
definition PROVISIONAL_RESIDUAL_RAW_SCALE :: f64 where "PROVISIONAL_RESIDUAL_RAW_SCALE = Fin (1 / 4)"

text \<open>\<open>DeployShape\<close> to \<open>ObservationShape\<close> are raised by the deployment functions, all others are admission errors.\<close>

datatype control_error =
    DeployShape string | DeployFinite string | SensorQuaternion | ProprioceptionShape | ObservationShape
  | ExactArray string | NotNonnegative string | BoundaryCadence | IntervalCadence
  | ContactCount | ContactPairs | ContactOrder | ContactGeom
  | ResidualScaleFinite | ResidualScaleSign | ResidualRange
  | NotReset | PriorPending | CountersDiffer | ActorOutput | CommitMismatch

section \<open>Arrays\<close>

text \<open>The floating types that occur; a half or long double array would be \<open>OtherType\<close> here.\<close>

datatype dtype = F32 | F64 | OtherType

datatype np_value = NpArray dtype "nat list" bool "f64 list" | NotNpArray

definition exact_array :: "dtype \<Rightarrow> nat list \<Rightarrow> string \<Rightarrow> np_value \<Rightarrow> control_error + f64 list" where
  "exact_array dt shape field v = (case v of
       NpArray d s contiguous data \<Rightarrow>
         if d \<noteq> dt \<or> s \<noteq> shape \<or> \<not> contiguous \<or> \<not> list_all is_finite data then Inl (ExactArray field) else Inr data
     | NotNpArray \<Rightarrow> Inl (ExactArray field))"

definition deploy_array :: "nat list \<Rightarrow> string \<Rightarrow> np_value \<Rightarrow> control_error + (dtype \<times> f64 list)" where
  "deploy_array shape field v = (case v of
       NpArray d s contiguous data \<Rightarrow>
         if s \<noteq> shape then Inl (DeployShape field)
         else if d = OtherType \<or> \<not> list_all is_finite data then Inl (DeployFinite field)
         else Inr (d, data)
     | NotNpArray \<Rightarrow> Inl (DeployShape field))"

text \<open>Arithmetic in the type of the operands; a Python number adapts to the type of the array.\<close>

definition join_types :: "dtype \<Rightarrow> dtype \<Rightarrow> dtype" where
  "join_types a b = (if a = F32 \<and> b = F32 then F32 else F64)"

definition add_in :: "dtype \<Rightarrow> f64 \<Rightarrow> f64 \<Rightarrow> f64" where
  "add_in d = (if d = F32 then f32_add else f64_add)"

definition sub_in :: "dtype \<Rightarrow> f64 \<Rightarrow> f64 \<Rightarrow> f64" where
  "sub_in d = (if d = F32 then f32_sub else f64_sub)"

definition mul_in :: "dtype \<Rightarrow> f64 \<Rightarrow> f64 \<Rightarrow> f64" where
  "mul_in d = (if d = F32 then f32_mul else f64_mul)"

definition cast_in :: "dtype \<Rightarrow> f64 \<Rightarrow> f64" where
  "cast_in d x = (if d = F32 then to_f32 x else x)"

text \<open>\<open>np.clip\<close> of one value.\<close>

definition clip_to :: "f64 \<Rightarrow> f64 \<Rightarrow> f64 \<Rightarrow> f64" where
  "clip_to lo hi x = (let y = (if f64_lt x lo then lo else x) in if f64_lt hi y then hi else y)"

text \<open>A contiguous array of a type.\<close>

abbreviation vec :: "dtype \<Rightarrow> f64 list \<Rightarrow> np_value" where
  "vec d xs \<equiv> NpArray d [length xs] True xs"

section \<open>Deployment primitives\<close>

record control_math = course_math +
  np_arctan2_f32 :: "f64 \<Rightarrow> f64 \<Rightarrow> f64"
  np_arcsin_f32 :: "f64 \<Rightarrow> f64"

text \<open>\<open>quaternion_to_euler_wxyz\<close> in the type of the sensor reading.\<close>

definition sensor_euler :: "control_math \<Rightarrow> dtype \<Rightarrow> f64 list \<Rightarrow> control_error + (f64 \<times> f64 \<times> f64)" where
  "sensor_euler M d v = (case v of
       [w, x, y, z] \<Rightarrow>
         let arctan = (if d = F32 then np_arctan2_f32 M else np_arctan2 M);
             arcsin' = (if d = F32 then np_arcsin_f32 M else np_arcsin M);
             roll = arctan (mul_in d (Fin 2) (add_in d (mul_in d w x) (mul_in d y z)))
               (sub_in d (Fin 1) (mul_in d (Fin 2) (add_in d (mul_in d x x) (mul_in d y y))));
             pitch_argument = mul_in d (Fin 2) (sub_in d (mul_in d w y) (mul_in d z x));
             half_pi = cast_in d HALF_PI;
             pitch = (if f64_le (Fin 1) (f64_abs pitch_argument)
               then (if f64_lt pitch_argument (Fin 0) then f64_neg half_pi else half_pi)
               else arcsin' pitch_argument);
             yaw = arctan (mul_in d (Fin 2) (add_in d (mul_in d w z) (mul_in d x y)))
               (sub_in d (Fin 1) (mul_in d (Fin 2) (add_in d (mul_in d y y) (mul_in d z z))))
         in Inr (roll, pitch, yaw)
     | _ \<Rightarrow> Inl SensorQuaternion)"

definition zero_at :: "nat list \<Rightarrow> f64 list \<Rightarrow> f64 list" where
  "zero_at idx xs = fold (\<lambda>i ys. ys[i := Fin 0]) idx xs"

definition build_proprioception :: "control_math \<Rightarrow> np_value \<Rightarrow> np_value \<Rightarrow> np_value \<Rightarrow> np_value \<Rightarrow> np_value \<Rightarrow> control_error + f64 list" where
  "build_proprioception M dof_position_v dof_velocity_v orientation_v angular_velocity_v last_raw_action_v =
     bindE (deploy_array [ACTION_DIM] ''dof_position'' dof_position_v) (\<lambda>(dp, dof_position).
     bindE (deploy_array [ACTION_DIM] ''dof_velocity'' dof_velocity_v) (\<lambda>(dv, dof_velocity).
     bindE (deploy_array [4] ''orientation_wxyz'' orientation_v) (\<lambda>(dq, orientation).
     bindE (deploy_array [3] ''angular_velocity'' angular_velocity_v) (\<lambda>(da, angular_velocity).
     bindE (deploy_array [ACTION_DIM] ''last_raw_action'' last_raw_action_v) (\<lambda>(dl, last_raw_action).
     bindE (sensor_euler M dq orientation) (\<lambda>(roll, pitch, yaw).
       let observed_velocity = zero_at ZEROED_DOF_VELOCITY_INDICES dof_velocity;
           proprioception =
             map (\<lambda>x. mul_in da x (cast_in da ANGULAR_VELOCITY_SCALE)) angular_velocity @
             [roll, pitch] @
             map (\<lambda>x. f64_mul x DOF_POSITION_SCALE) (map2 f64_sub dof_position DEFAULT_DOF_POSITION) @
             map (\<lambda>x. mul_in dv x (cast_in dv DOF_VELOCITY_SCALE)) observed_velocity @
             last_raw_action
       in if length proprioception \<noteq> PROPRIOCEPTION_DIM then Inl ProprioceptionShape else Inr proprioception))))))"

text \<open>The history, oldest row first.\<close>

type_synonym history = "f64 list list"

definition empty_history :: history where
  "empty_history = replicate HISTORY_LENGTH (replicate PROPRIOCEPTION_DIM (Fin 0))"

definition assemble :: "history \<Rightarrow> np_value \<Rightarrow> np_value \<Rightarrow> control_error + f64 list" where
  "assemble h reference_v proprioception_v =
     bindE (deploy_array [REFERENCE_HORIZON, REFERENCE_FRAME_DIM] ''reference_window'' reference_v) (\<lambda>(_, reference).
     bindE (deploy_array [PROPRIOCEPTION_DIM] ''proprioception'' proprioception_v) (\<lambda>(_, proprioception).
       let observation = map to_f32 (reference @ proprioception @ concat h)
       in if length observation \<noteq> OBSERVATION_DIM then Inl ObservationShape else Inr observation))"

definition history_append :: "history \<Rightarrow> np_value \<Rightarrow> control_error + history" where
  "history_append h proprioception_v =
     bindE (deploy_array [PROPRIOCEPTION_DIM] ''proprioception'' proprioception_v) (\<lambda>(_, proprioception).
       Inr (drop 1 h @ [proprioception]))"

definition pd_torque :: "np_value \<Rightarrow> np_value \<Rightarrow> np_value \<Rightarrow> control_error + f64 list" where
  "pd_torque pd_target_v dof_position_v dof_velocity_v =
     bindE (deploy_array [ACTION_DIM] ''pd_target'' pd_target_v) (\<lambda>(dt, pd_target).
     bindE (deploy_array [ACTION_DIM] ''dof_position'' dof_position_v) (\<lambda>(dp, dof_position).
     bindE (deploy_array [ACTION_DIM] ''dof_velocity'' dof_velocity_v) (\<lambda>(dv, dof_velocity).
       let torque = map2 f64_sub
             (map2 f64_mul (map2 (sub_in (join_types dt dp)) pd_target dof_position) STIFFNESS)
             (map2 f64_mul dof_velocity DAMPING)
       in Inr (map2 (\<lambda>limit x. clip_to (f64_neg limit) limit x) TORQUE_LIMITS torque))))"

record control_output =
  co_raw :: "f64 list"
  co_clipped :: "f64 list"
  co_target :: "f64 list"
  co_torque :: "f64 list"

definition apply_pd_control :: "np_value \<Rightarrow> np_value \<Rightarrow> np_value \<Rightarrow> control_error + control_output" where
  "apply_pd_control raw_action_v dof_position_v dof_velocity_v =
     bindE (deploy_array [ACTION_DIM] ''raw_action'' raw_action_v) (\<lambda>(d, raw_action).
     bindE (deploy_array [ACTION_DIM] ''dof_position'' dof_position_v) (\<lambda>_.
     bindE (deploy_array [ACTION_DIM] ''dof_velocity'' dof_velocity_v) (\<lambda>_.
       let clipped_action = map (clip_to RAW_ACTION_MIN RAW_ACTION_MAX) raw_action;
           pd_target = map2 f64_add (map (\<lambda>x. mul_in d x ACTION_SCALE) clipped_action) DEFAULT_DOF_POSITION
       in bindE (pd_torque (vec F64 pd_target) dof_position_v dof_velocity_v) (\<lambda>torque.
         Inr \<lparr>co_raw = raw_action, co_clipped = clipped_action, co_target = pd_target, co_torque = torque\<rparr>))))"

section \<open>Boundaries and intervals\<close>

definition nonnegative_integer :: "string \<Rightarrow> pyval \<Rightarrow> control_error + int" where
  "nonnegative_integer field v = (case v of PInt n \<Rightarrow> if n < 0 then Inl (NotNonnegative field) else Inr n | _ \<Rightarrow> Inl (NotNonnegative field))"

record control_boundary =
  cb_qpos :: "f64 list"
  cb_qvel :: "f64 list"
  cb_orientation :: "f64 list"
  cb_angular_velocity :: "f64 list"
  cb_control_step :: int
  cb_simulation_step :: int

definition mk_boundary :: "np_value \<Rightarrow> np_value \<Rightarrow> np_value \<Rightarrow> np_value \<Rightarrow> pyval \<Rightarrow> pyval \<Rightarrow> control_error + control_boundary" where
  "mk_boundary qpos_v qvel_v orientation_v angular_v control_v simulation_v =
     bindE (exact_array F64 [30] ''qpos'' qpos_v) (\<lambda>qpos.
     bindE (exact_array F64 [29] ''qvel'' qvel_v) (\<lambda>qvel.
     bindE (exact_array F32 [4] ''orientation_wxyz'' orientation_v) (\<lambda>orientation.
     bindE (exact_array F32 [3] ''angular_velocity'' angular_v) (\<lambda>angular.
     bindE (nonnegative_integer ''control_step'' control_v) (\<lambda>control_step.
     bindE (nonnegative_integer ''simulation_step'' simulation_v) (\<lambda>simulation_step.
       if simulation_step \<noteq> control_step * int SIMULATION_DECIMATION then Inl BoundaryCadence
       else Inr \<lparr>cb_qpos = qpos, cb_qvel = qvel, cb_orientation = orientation, cb_angular_velocity = angular,
              cb_control_step = control_step, cb_simulation_step = simulation_step\<rparr>))))))"

type_synonym contact_pair = "int \<times> int"

definition contact_substep :: "contact_pair list \<Rightarrow> control_error + contact_pair list" where
  "contact_substep pairs = (if list_ex (\<lambda>(a, b). a < 0 \<or> b < 0 \<or> b < a) pairs then Inl ContactPairs
     else if pairs \<noteq> sort (uniq pairs) then Inl ContactOrder else Inr pairs)"

definition contact_trace :: "contact_pair list list \<Rightarrow> control_error + contact_pair list list" where
  "contact_trace v = (if length v \<noteq> SIMULATION_DECIMATION then Inl ContactCount else mapE contact_substep v)"

record control_interval =
  ci_composite :: "f64 list"
  ci_clipped :: "f64 list"
  ci_target :: "f64 list"
  ci_qpos :: "f64 list list"
  ci_qvel :: "f64 list list"
  ci_torque :: "f64 list list"
  ci_contacts :: "contact_pair list list"
  ci_start_control :: int
  ci_start_simulation :: int

text \<open>A two-dimensional float64 array from its rows.\<close>

definition rows_array :: "nat \<Rightarrow> nat \<Rightarrow> f64 list list \<Rightarrow> np_value" where
  "rows_array n k rows = NpArray F64 [n, k] True (concat rows)"

definition mk_interval :: "np_value \<Rightarrow> np_value \<Rightarrow> np_value \<Rightarrow> f64 list list \<Rightarrow> f64 list list \<Rightarrow> f64 list list \<Rightarrow> contact_pair list list \<Rightarrow>
    pyval \<Rightarrow> pyval \<Rightarrow> control_error + control_interval" where
  "mk_interval composite_v clipped_v target_v qpos qvel torque contacts_v control_v simulation_v =
     bindE (exact_array F32 [ACTION_DIM] ''composite_raw_action'' composite_v) (\<lambda>composite.
     bindE (exact_array F32 [ACTION_DIM] ''clipped_action'' clipped_v) (\<lambda>clipped.
     bindE (exact_array F64 [ACTION_DIM] ''pd_target'' target_v) (\<lambda>target.
     bindE (exact_array F64 [SIMULATION_DECIMATION, 30] ''qpos_after_substep'' (rows_array SIMULATION_DECIMATION 30 qpos)) (\<lambda>_.
     bindE (exact_array F64 [SIMULATION_DECIMATION, 29] ''qvel_after_substep'' (rows_array SIMULATION_DECIMATION 29 qvel)) (\<lambda>_.
     bindE (exact_array F64 [SIMULATION_DECIMATION, ACTION_DIM] ''torque_by_substep'' (rows_array SIMULATION_DECIMATION ACTION_DIM torque)) (\<lambda>_.
     bindE (contact_trace contacts_v) (\<lambda>contacts.
     bindE (nonnegative_integer ''start_control_step'' control_v) (\<lambda>control_step.
     bindE (nonnegative_integer ''start_simulation_step'' simulation_v) (\<lambda>simulation_step.
       if simulation_step \<noteq> control_step * int SIMULATION_DECIMATION then Inl IntervalCadence
       else Inr \<lparr>ci_composite = composite, ci_clipped = clipped, ci_target = target, ci_qpos = qpos, ci_qvel = qvel,
              ci_torque = torque, ci_contacts = contacts, ci_start_control = control_step,
              ci_start_simulation = simulation_step\<rparr>)))))))))"

text \<open>The mean of truth values is their number divided by the size.\<close>

definition action_saturation_fraction :: "control_interval \<Rightarrow> f64" where
  "action_saturation_fraction i = int_truediv
     (int (length (filter (\<lambda>x. f64_le x RAW_ACTION_MIN \<or> f64_le RAW_ACTION_MAX x) (ci_composite i)))) (int ACTION_DIM)"

definition torque_saturation_fraction :: "control_interval \<Rightarrow> f64" where
  "torque_saturation_fraction i = int_truediv
     (int (length (filter id (concat (map (\<lambda>row. map2 (\<lambda>x limit. f64_le limit (f64_abs x)) row TORQUE_LIMITS) (ci_torque i))))))
     (int (SIMULATION_DECIMATION * ACTION_DIM))"

definition compose_residual_raw_action :: "np_value \<Rightarrow> np_value \<Rightarrow> f64 \<Rightarrow> control_error + f64 list" where
  "compose_residual_raw_action base_v residual_v residual_scale =
     bindE (exact_array F32 [ACTION_DIM] ''base raw action'' base_v) (\<lambda>base.
     bindE (exact_array F32 [ACTION_DIM] ''normalized residual action'' residual_v) (\<lambda>residual.
       if \<not> is_finite residual_scale then Inl ResidualScaleFinite
       else if f64_lt residual_scale (Fin 0) then Inl ResidualScaleSign
       else if list_ex (\<lambda>x. f64_lt x (Fin (- 1))) residual \<or> list_ex (\<lambda>x. f64_lt (Fin 1) x) residual then Inl ResidualRange
       else Inr (map2 f32_add base (map (f32_mul residual_scale) residual))))"

section \<open>The plant\<close>

text \<open>
  The simulator: reset to the keyframe with one warm-up step, and one substep under a torque; what is
  read of its state; and the number of geoms of the model.
\<close>

record 'p plant =
  pl_reset :: "'p \<Rightarrow> 'p"
  pl_substep :: "f64 list \<Rightarrow> 'p \<Rightarrow> 'p"
  pl_qpos :: "'p \<Rightarrow> f64 list"
  pl_qvel :: "'p \<Rightarrow> f64 list"
  pl_orientation :: "'p \<Rightarrow> f64 list"
  pl_angular_velocity :: "'p \<Rightarrow> f64 list"
  pl_contacts :: "'p \<Rightarrow> contact_pair list"
  pl_ngeom :: int

record 'p control_runtime =
  rt_data :: 'p
  rt_control_step :: int
  rt_simulation_step :: int
  rt_ready :: bool

definition boundary_now :: "'p plant \<Rightarrow> 'p control_runtime \<Rightarrow> control_error + control_boundary" where
  "boundary_now P rt = mk_boundary (vec F64 (pl_qpos P (rt_data rt))) (vec F64 (pl_qvel P (rt_data rt)))
     (vec F32 (map to_f32 (pl_orientation P (rt_data rt)))) (vec F32 (map to_f32 (pl_angular_velocity P (rt_data rt))))
     (PInt (rt_control_step rt)) (PInt (rt_simulation_step rt))"

definition contact_pairs :: "'p plant \<Rightarrow> 'p \<Rightarrow> control_error + contact_pair list" where
  "contact_pairs P data = (if list_ex (\<lambda>(a, b). \<not> (0 \<le> a \<and> a < pl_ngeom P) \<or> \<not> (0 \<le> b \<and> b < pl_ngeom P)) (pl_contacts P data)
     then Inl ContactGeom
     else Inr (sort (uniq (map (\<lambda>(a, b). (min a b, max a b)) (pl_contacts P data)))))"

definition runtime_start :: "'p \<Rightarrow> 'p control_runtime" where
  "runtime_start data = \<lparr>rt_data = data, rt_control_step = 0, rt_simulation_step = 0, rt_ready = False\<rparr>"

definition runtime_reset :: "'p plant \<Rightarrow> 'p control_runtime \<Rightarrow> control_error + (control_boundary \<times> 'p control_runtime)" where
  "runtime_reset P rt = (let rt' = \<lparr>rt_data = pl_reset P (rt_data rt), rt_control_step = 0, rt_simulation_step = 0, rt_ready = True\<rparr>
     in bindE (boundary_now P rt') (\<lambda>b. Inr (b, rt')))"

text \<open>The joint readings that the PD law sees.\<close>

definition joints_f32 :: "f64 list \<Rightarrow> np_value" where
  "joints_f32 xs = (let ys = map to_f32 (drop (length xs - ACTION_DIM) xs) in vec F32 ys)"

record substep =
  su_qpos :: "f64 list"
  su_qvel :: "f64 list"
  su_torque :: "f64 list"
  su_contacts :: "contact_pair list"

fun run_substeps :: "'p plant \<Rightarrow> f64 list \<Rightarrow> nat \<Rightarrow> 'p \<Rightarrow> control_error + (substep list \<times> 'p)" where
  "run_substeps P target 0 data = Inr ([], data)"
| "run_substeps P target (Suc n) data =
     bindE (pd_torque (vec F64 target) (joints_f32 (pl_qpos P data)) (joints_f32 (pl_qvel P data))) (\<lambda>torque.
       let data' = pl_substep P torque data
       in bindE (contact_pairs P data') (\<lambda>contacts.
         bindE (run_substeps P target n data') (\<lambda>(subs, final).
           Inr (\<lparr>su_qpos = pl_qpos P data', su_qvel = pl_qvel P data', su_torque = torque, su_contacts = contacts\<rparr> # subs, final))))"

text \<open>After an error the runtime is not used again; its partly advanced state is not returned.\<close>

definition runtime_step :: "'p plant \<Rightarrow> np_value \<Rightarrow> 'p control_runtime \<Rightarrow>
    control_error + (control_boundary \<times> control_interval \<times> 'p control_runtime)" where
  "runtime_step P action_v rt = (if \<not> rt_ready rt then Inl NotReset
     else bindE (exact_array F32 [ACTION_DIM] ''composite raw action'' action_v) (\<lambda>raw.
       bindE (apply_pd_control (vec F32 raw) (joints_f32 (pl_qpos P (rt_data rt))) (joints_f32 (pl_qvel P (rt_data rt)))) (\<lambda>control.
       bindE (run_substeps P (co_target control) SIMULATION_DECIMATION (rt_data rt)) (\<lambda>(subs, data).
         let rt' = rt\<lparr>rt_data := data, rt_control_step := rt_control_step rt + 1,
                      rt_simulation_step := rt_simulation_step rt + int SIMULATION_DECIMATION\<rparr>
         in bindE (mk_interval (vec F32 raw) (vec F32 (co_clipped control)) (vec F64 (co_target control))
                (map su_qpos subs) (map su_qvel subs) (map su_torque subs) (map su_contacts subs)
                (PInt (rt_control_step rt)) (PInt (rt_simulation_step rt))) (\<lambda>interval.
            bindE (boundary_now P rt') (\<lambda>b. Inr (b, interval, rt')))))))"

section \<open>The actor session\<close>

text \<open>A prepared control has an identity: its number in the order of the preparations.\<close>

record prepared_control =
  pc_control_step :: int
  pc_proprio :: "f64 list"
  pc_obs :: "f64 list"
  pc_base_raw :: "f64 list"
  pc_identity :: nat

record actor_session =
  as_history :: history
  as_last_raw :: "f64 list"
  as_expected_step :: int
  as_pending :: "prepared_control option"
  as_prepared :: nat

definition session_reset :: "nat \<Rightarrow> actor_session" where
  "session_reset n = \<lparr>as_history = empty_history, as_last_raw = replicate ACTION_DIM (Fin 0), as_expected_step = 0,
     as_pending = None, as_prepared = n\<rparr>"

definition mk_prepared :: "pyval \<Rightarrow> np_value \<Rightarrow> np_value \<Rightarrow> np_value \<Rightarrow> nat \<Rightarrow> control_error + prepared_control" where
  "mk_prepared step_v proprio_v obs_v base_v identity =
     bindE (nonnegative_integer ''prepared control_step'' step_v) (\<lambda>control_step.
     bindE (exact_array F64 [PROPRIOCEPTION_DIM] ''proprio'' proprio_v) (\<lambda>proprio.
     bindE (exact_array F32 [OBSERVATION_DIM] ''obs'' obs_v) (\<lambda>obs.
     bindE (exact_array F32 [ACTION_DIM] ''base_raw'' base_v) (\<lambda>base.
       Inr \<lparr>pc_control_step = control_step, pc_proprio = proprio, pc_obs = obs, pc_base_raw = base, pc_identity = identity\<rparr>))))"

text \<open>The network maps an observation to its output tensor; a tensor elsewhere than on the CPU is no array.\<close>

definition session_prepare :: "control_math \<Rightarrow> (f64 list \<Rightarrow> np_value) \<Rightarrow> control_boundary \<Rightarrow> np_value \<Rightarrow> actor_session \<Rightarrow>
    control_error + (prepared_control \<times> actor_session)" where
  "session_prepare M actor b window_v s = (if as_pending s \<noteq> None then Inl PriorPending
     else if cb_control_step b \<noteq> as_expected_step s then Inl CountersDiffer
     else bindE (exact_array F32 [REFERENCE_HORIZON, REFERENCE_FRAME_DIM] ''reference window'' window_v) (\<lambda>reference.
       bindE (build_proprioception M (joints_f32 (cb_qpos b)) (joints_f32 (cb_qvel b)) (vec F32 (cb_orientation b))
           (vec F32 (cb_angular_velocity b)) (vec F32 (as_last_raw s))) (\<lambda>proprioception.
       bindE (assemble (as_history s) (NpArray F32 [REFERENCE_HORIZON, REFERENCE_FRAME_DIM] True reference) (vec F64 proprioception)) (\<lambda>observation.
       bindE (case actor observation of
           NpArray d shape _ output \<Rightarrow>
             if d \<noteq> F32 \<or> shape \<noteq> [1, ACTION_DIM] \<or> \<not> list_all is_finite output then Inl ActorOutput else Inr output
         | NotNpArray \<Rightarrow> Inl ActorOutput) (\<lambda>output.
       bindE (mk_prepared (PInt (cb_control_step b)) (vec F64 proprioception) (vec F32 observation) (vec F32 output) (as_prepared s)) (\<lambda>prepared.
         Inr (prepared, s\<lparr>as_pending := Some prepared, as_prepared := as_prepared s + 1\<rparr>)))))))"

definition session_commit :: "prepared_control \<Rightarrow> np_value \<Rightarrow> actor_session \<Rightarrow> control_error + actor_session" where
  "session_commit prepared action_v s =
     (if as_pending s \<noteq> Some prepared then Inl CommitMismatch
      else bindE (exact_array F32 [ACTION_DIM] ''committed composite raw action'' action_v) (\<lambda>composite.
        bindE (history_append (as_history s) (vec F64 (pc_proprio prepared))) (\<lambda>h.
          Inr (s\<lparr>as_history := h, as_last_raw := composite, as_expected_step := as_expected_step s + 1, as_pending := None\<rparr>))))"

section \<open>Torques stay inside the limits\<close>

lemma deploy_array_Inr: "deploy_array shape field v = Inr (d, xs) \<longleftrightarrow>
    (\<exists>c. v = NpArray d shape c xs) \<and> d \<noteq> OtherType \<and> list_all is_finite xs"
  by (auto simp: deploy_array_def split: np_value.splits if_splits)

lemma exact_array_Inr: "exact_array dt shape field v = Inr xs \<longleftrightarrow> v = NpArray dt shape True xs \<and> list_all is_finite xs"
  by (auto simp: exact_array_def split: np_value.splits if_splits)

lemma clip_to_in:
  assumes "x \<noteq> NaN" "0 \<le> L"
  shows "\<exists>q. clip_to (Fin (- L)) (Fin L) x = Fin q \<and> \<bar>q\<bar> \<le> L"
  using assms by (cases x) (auto simp: clip_to_def Let_def abs_le_iff)

definition no_nan :: "f64 \<Rightarrow> bool" where "no_nan x \<longleftrightarrow> x \<noteq> NaN"

lemma f64_round_no_nan [simp]: "f64_round q \<noteq> NaN"
  by (simp add: f64_round_def Let_def)

lemma f32_round_no_nan [simp]: "f32_round q \<noteq> NaN"
  by (simp add: f32_round_def Let_def)

lemma f32_moderate: "f32_rep q \<Longrightarrow> \<bar>q\<bar> \<le> pow2 128"
  by (simp add: f32_rep_def)

lemma damping_finite:
  assumes "f32_ok v" "is_finite v" "d \<in> set DAMPING"
  shows "is_finite (f64_mul v d)"
proof -
  obtain q where q: "v = Fin q" "\<bar>q\<bar> \<le> pow2 128" using assms(1,2) f32_moderate by (auto simp: is_finite_iff)
  obtain k where k: "d = Fin k" "0 \<le> k" "k \<le> 8" using assms(3) by (auto simp: DAMPING_def)
  have "\<bar>q * k\<bar> \<le> pow2 128 * 8" using q(2) k(2,3) by (simp add: abs_mult mult_mono)
  also have "\<dots> = pow2 131" using pow2_add[of 128 3] by (simp add: pow2_def[of 3])
  finally have b: "- pow2 131 \<le> q * k" "q * k \<le> pow2 131" by (simp_all add: abs_le_iff)
  have r: "f64_rep (pow2 131)" by (rule f64_rep_pow2) simp_all
  then have "f64_rep (- pow2 131)" by (simp add: f64_rep_def round_rat_uminus)
  from round_in[OF this r b] show ?thesis by (auto simp: q k fin_in_def)
qed

lemma sub_in_no_nan: "is_finite a \<Longrightarrow> is_finite b \<Longrightarrow> sub_in d a b \<noteq> NaN"
  by (cases a; cases b) (auto simp: sub_in_def f32_sub_def f64_sub_def)

lemma mul_positive_no_nan: "x \<noteq> NaN \<Longrightarrow> 0 < k \<Longrightarrow> f64_mul x (Fin k) \<noteq> NaN"
  by (cases x) auto

lemma sub_finite_no_nan: "x \<noteq> NaN \<Longrightarrow> is_finite y \<Longrightarrow> f64_sub x y \<noteq> NaN"
  by (cases x; cases y) (auto simp: f64_sub_def)

text \<open>Each joint's value is at most its bound.\<close>

definition bounded_by :: "rat list \<Rightarrow> f64 list \<Rightarrow> bool" where
  "bounded_by bounds xs \<longleftrightarrow> list_all2 (\<lambda>L x. \<exists>q. x = Fin q \<and> \<bar>q\<bar> \<le> L) bounds xs"

definition torque_bounds :: "rat list" where
  "torque_bounds = [88, 139, 88, 139, 50, 50, 88, 139, 88, 139, 50, 50, 88, 50, 50, 25, 25, 25, 25, 25, 25, 25, 25]"

lemma torque_limits: "TORQUE_LIMITS = map Fin torque_bounds" "list_all (\<lambda>L. 0 \<le> L) torque_bounds" "length torque_bounds = 23"
  by (simp_all add: TORQUE_LIMITS_def torque_bounds_def)

lemma clip_within:
  assumes "length xs = length bounds" "list_all (\<lambda>L. 0 \<le> L) bounds" "list_all (\<lambda>x. x \<noteq> NaN) xs"
  shows "bounded_by bounds (map2 (\<lambda>limit x. clip_to (f64_neg limit) limit x) (map Fin bounds) xs)"
  unfolding bounded_by_def
proof (rule list_all2_all_nthI)
  show "length bounds = length (map2 (\<lambda>limit x. clip_to (f64_neg limit) limit x) (map Fin bounds) xs)" using assms(1) by simp
  fix i assume i: "i < length bounds"
  then have "xs ! i \<noteq> NaN" "0 \<le> bounds ! i" using assms by (simp_all add: list_all_length)
  from clip_to_in[OF this] i assms(1)
  show "\<exists>q. map2 (\<lambda>limit x. clip_to (f64_neg limit) limit x) (map Fin bounds) xs ! i = Fin q \<and> \<bar>q\<bar> \<le> bounds ! i" by simp
qed

text \<open>Arrays that hold values of their type.\<close>

definition binary32s :: "f64 list \<Rightarrow> bool" where
  "binary32s xs \<longleftrightarrow> list_all f32_ok xs"

lemma pd_torque_within:
  assumes t: "pd_torque target_v position_v (NpArray F32 s c velocity) = Inr torque" and v: "binary32s velocity"
    and len: "length velocity = 23" "\<And>d s' c' xs. target_v = NpArray d s' c' xs \<Longrightarrow> length xs = 23"
      "\<And>d s' c' xs. position_v = NpArray d s' c' xs \<Longrightarrow> length xs = 23"
  shows "bounded_by torque_bounds torque"
proof -
  obtain dt pd dp pos where a: "target_v = NpArray dt [ACTION_DIM] (case target_v of NpArray _ _ c _ \<Rightarrow> c | _ \<Rightarrow> True) pd" "list_all is_finite pd"
    "position_v = NpArray dp [ACTION_DIM] (case position_v of NpArray _ _ c _ \<Rightarrow> c | _ \<Rightarrow> True) pos" "list_all is_finite pos"
    "list_all is_finite velocity"
    and torque: "torque = map2 (\<lambda>limit x. clip_to (f64_neg limit) limit x) TORQUE_LIMITS
        (map2 f64_sub (map2 f64_mul (map2 (sub_in (join_types dt dp)) pd pos) STIFFNESS) (map2 f64_mul velocity DAMPING))"
    using t by (auto simp: pd_torque_def deploy_array_Inr Let_def)
  have l: "length pd = 23" "length pos = 23" using len(2)[OF a(1)] len(3)[OF a(3)] by blast+
  have k: "length STIFFNESS = 23" "length DAMPING = 23" by (simp_all add: STIFFNESS_def DAMPING_def)
  have "f64_sub (f64_mul (sub_in (join_types dt dp) (pd ! i) (pos ! i)) (STIFFNESS ! i)) (f64_mul (velocity ! i) (DAMPING ! i)) \<noteq> NaN"
    if i: "i < 23" for i
  proof (intro sub_finite_no_nan damping_finite)
    have "STIFFNESS ! i \<in> set STIFFNESS" using i k by (intro nth_mem) simp
    then obtain s where s: "STIFFNESS ! i = Fin s" "0 < s" by (auto simp: STIFFNESS_def)
    show "f64_mul (sub_in (join_types dt dp) (pd ! i) (pos ! i)) (STIFFNESS ! i) \<noteq> NaN"
      unfolding s(1) using a l i s(2) by (intro mul_positive_no_nan sub_in_no_nan) (simp_all add: list_all_length)
    show "f32_ok (velocity ! i)" using v len(1) i by (simp add: binary32s_def list_all_length)
    show "is_finite (velocity ! i)" using a(5) len(1) i by (simp add: list_all_length)
    show "DAMPING ! i \<in> set DAMPING" using i k by (intro nth_mem) simp
  qed
  then have "list_all (\<lambda>x. x \<noteq> NaN) (map2 f64_sub (map2 f64_mul (map2 (sub_in (join_types dt dp)) pd pos) STIFFNESS) (map2 f64_mul velocity DAMPING))"
    using l k len(1) by (simp add: list_all_length)
  then show ?thesis
    unfolding torque torque_limits(1) using l k len(1) torque_limits(2,3) by (intro clip_within) simp_all
qed

lemma joints_f32_ok:
  assumes "joints_f32 xs = NpArray d s c ys"
  shows "d = F32 \<and> s = [length ys] \<and> binary32s ys"
  using assms by (auto simp: joints_f32_def Let_def binary32s_def list_all_iff)

lemma run_substeps_within:
  assumes "run_substeps P target n data = Inr (subs, final)"
  shows "length subs = n \<and> (\<forall>su \<in> set subs. bounded_by torque_bounds (su_torque su))"
  using assms
proof (induction n arbitrary: data subs)
  case (Suc n)
  then obtain torque contacts subs' where t: "pd_torque (vec F64 target) (joints_f32 (pl_qpos P data)) (joints_f32 (pl_qvel P data)) = Inr torque"
    and r: "run_substeps P target n (pl_substep P torque data) = Inr (subs', final)"
    and s: "subs = \<lparr>su_qpos = pl_qpos P (pl_substep P torque data), su_qvel = pl_qvel P (pl_substep P torque data), su_torque = torque, su_contacts = contacts\<rparr> # subs'"
    by (auto simp: Let_def)
  obtain v where v: "joints_f32 (pl_qvel P data) = NpArray F32 [length v] True v" "binary32s v"
    using joints_f32_ok by (auto simp: joints_f32_def Let_def)
  have sh: "length xs = 23" if "deploy_array [ACTION_DIM] field (NpArray d' [length xs] c xs) = Inr y" for field d' c xs y
    using that by (auto simp: deploy_array_def ACTION_DIM_def split: if_splits)
  have "bounded_by torque_bounds torque"
  proof (rule pd_torque_within[OF t[unfolded v(1)] v(2)])
    from t show "length v = 23" by (auto simp: pd_torque_def v(1) intro: sh)
    fix d s' c' xs
    show "length xs = 23" if "vec F64 target = NpArray d s' c' xs" using t that by (auto simp: pd_torque_def intro: sh)
    show "length xs = 23" if "joints_f32 (pl_qpos P data) = NpArray d s' c' xs"
      using t joints_f32_ok[OF that] by (auto simp: pd_torque_def that intro: sh)
  qed
  with Suc.IH[OF r] s show ?case by simp
qed simp

section \<open>The plant runtime with a sane simulator\<close>

text \<open>Readings of the right size that binary32 can hold, and contacts between geoms of the model.\<close>

definition reading_ok :: "nat \<Rightarrow> f64 list \<Rightarrow> bool" where
  "reading_ok n xs \<longleftrightarrow> length xs = n \<and> list_all (\<lambda>x. is_finite x \<and> is_finite (to_f32 x)) xs"

definition plant_ok :: "'p plant \<Rightarrow> bool" where
  "plant_ok P \<longleftrightarrow> (\<forall>data. reading_ok 30 (pl_qpos P data) \<and> reading_ok 29 (pl_qvel P data) \<and>
     reading_ok 4 (pl_orientation P data) \<and> reading_ok 3 (pl_angular_velocity P data) \<and>
     list_all (\<lambda>(a, b). 0 \<le> a \<and> a < pl_ngeom P \<and> 0 \<le> b \<and> b < pl_ngeom P) (pl_contacts P data))"

text \<open>The counters of a runtime that has been reset and stepped.\<close>

definition cadence_ok :: "'p control_runtime \<Rightarrow> bool" where
  "cadence_ok rt \<longleftrightarrow> rt_ready rt \<and> 0 \<le> rt_control_step rt \<and> rt_simulation_step rt = rt_control_step rt * int SIMULATION_DECIMATION"

lemma reading_finite: "reading_ok n xs \<Longrightarrow> list_all is_finite xs \<and> list_all is_finite (map to_f32 xs) \<and> length xs = n"
  by (auto simp: reading_ok_def list_all_iff)

lemma joints_reading:
  assumes "reading_ok n xs" "23 \<le> n"
  obtains ys where "joints_f32 xs = vec F32 ys" "length ys = 23" "list_all is_finite ys" "binary32s ys"
proof -
  let ?ys = "map to_f32 (drop (length xs - ACTION_DIM) xs)"
  have "list_all is_finite ?ys" using assms(1) by (auto simp: reading_ok_def list_all_iff dest: in_set_dropD)
  moreover have "length ?ys = 23" using assms by (simp add: reading_ok_def ACTION_DIM_def)
  moreover have "binary32s ?ys" by (simp add: binary32s_def list_all_iff)
  ultimately show ?thesis using that[of ?ys] by (simp add: joints_f32_def Let_def)
qed

lemma pd_torque_total:
  assumes "length pd = 23" "list_all is_finite pd" "length p = 23" "list_all is_finite p" "length v = 23" "list_all is_finite v" "binary32s v"
  shows "\<exists>torque. pd_torque (vec F64 pd) (vec F32 p) (vec F32 v) = Inr torque \<and> bounded_by torque_bounds torque"
proof -
  have "deploy_array [ACTION_DIM] k (vec d xs) = Inr (d, xs)" if "length xs = 23" "list_all is_finite xs" "d \<noteq> OtherType" for k d xs
    using that by (simp add: deploy_array_def ACTION_DIM_def)
  then obtain torque where t: "pd_torque (vec F64 pd) (vec F32 p) (vec F32 v) = Inr torque"
    using assms by (auto simp: pd_torque_def Let_def)
  with pd_torque_within[OF t assms(7,5)] assms(1,3) show ?thesis by simp
qed

lemma bounded_by_finite: "bounded_by bounds xs \<Longrightarrow> list_all is_finite xs"
  by (auto simp: bounded_by_def list_all2_conv_all_nth list_all_length)

lemma uniq_distinct: "distinct xs \<Longrightarrow> uniq xs = xs"
  by (induction xs) (auto simp: filter_id_conv)

lemma contact_pairs_total:
  assumes "plant_ok P"
  shows "\<exists>c. contact_pairs P data = Inr c \<and> contact_substep c = Inr c"
proof -
  define c where "c = sort (uniq (map (\<lambda>(a, b). (min a b, max a b)) (pl_contacts P data)))"
  have ok: "list_all (\<lambda>(a, b). 0 \<le> a \<and> a < pl_ngeom P \<and> 0 \<le> b \<and> b < pl_ngeom P) (pl_contacts P data)"
    using assms by (simp add: plant_ok_def)
  then have "contact_pairs P data = Inr c" by (auto simp: contact_pairs_def c_def list_ex_iff list_all_iff)
  moreover have "\<not> list_ex (\<lambda>(a, b). a < 0 \<or> b < 0 \<or> b < a) c"
    using ok by (auto simp: c_def list_ex_iff list_all_iff min_def max_def split: if_splits)
  moreover have "sort (uniq c) = c" by (simp add: c_def uniq_distinct sorted_sort_id)
  ultimately show ?thesis by (simp add: contact_substep_def)
qed

lemma run_substeps_total:
  assumes P: "plant_ok P" and pd: "length pd = 23" "list_all is_finite pd"
  shows "\<exists>subs final. run_substeps P pd n data = Inr (subs, final) \<and> mapE contact_substep (map su_contacts subs) = Inr (map su_contacts subs) \<and>
     (\<forall>su \<in> set subs. list_all is_finite (su_qpos su) \<and> list_all is_finite (su_qvel su))"
proof (induction n arbitrary: data)
  case (Suc n)
  have q: "reading_ok 30 (pl_qpos P data)" "reading_ok 29 (pl_qvel P data)" for data using P by (simp_all add: plant_ok_def)
  obtain p where p: "joints_f32 (pl_qpos P data) = vec F32 p" "length p = 23" "list_all is_finite p" "binary32s p"
    by (rule joints_reading[OF q(1)]) simp
  obtain v where v: "joints_f32 (pl_qvel P data) = vec F32 v" "length v = 23" "list_all is_finite v" "binary32s v"
    by (rule joints_reading[OF q(2)]) simp
  obtain torque where t: "pd_torque (vec F64 pd) (vec F32 p) (vec F32 v) = Inr torque"
    using pd_torque_total[OF pd p(2,3) v(2-4)] by blast
  obtain c where c: "contact_pairs P (pl_substep P torque data) = Inr c" "contact_substep c = Inr c"
    using contact_pairs_total[OF P] by blast
  obtain subs final where r: "run_substeps P pd n (pl_substep P torque data) = Inr (subs, final)"
    "mapE contact_substep (map su_contacts subs) = Inr (map su_contacts subs)"
    "\<forall>su \<in> set subs. list_all is_finite (su_qpos su) \<and> list_all is_finite (su_qvel su)"
    using Suc.IH by blast
  have f: "list_all is_finite (pl_qpos P d)" "list_all is_finite (pl_qvel P d)" for d using q reading_finite by blast+
  show ?case using r(2,3) c(2) f by (simp add: p(1) v(1) t c(1) r(1) Let_def)
qed simp

lemma clipped_action:
  assumes "is_finite x"
  obtains q where "clip_to RAW_ACTION_MIN RAW_ACTION_MAX x = Fin q" "\<bar>q\<bar> \<le> 10" "f32_ok x \<Longrightarrow> f32_rep q"
proof -
  have "f32_rep 10" "f32_rep (- 10)" using f32_rep_of_int[of 10] f32_rep_of_int[of "- 10"] by simp_all
  moreover obtain r where "x = Fin r" using assms by (auto simp: is_finite_iff)
  ultimately show ?thesis
    by (intro that[of "if r < - 10 then - 10 else if 10 < r then 10 else r"])
      (auto simp: clip_to_def RAW_ACTION_MIN_def RAW_ACTION_MAX_def Let_def abs_le_iff)
qed

lemma default_position: "length DEFAULT_DOF_POSITION = 23"
  by (simp add: DEFAULT_DOF_POSITION_def)

lemma default_in:
  assumes "d \<in> set DEFAULT_DOF_POSITION"
  shows "fin_in d (- 2) 2"
proof -
  have r: "f64_rep 2" "f64_rep (- 2)" using f64_rep_quarters[of 8] f64_rep_quarters[of "- 8"] by simp_all
  have "list_all (\<lambda>x. fin_in x (- 2) 2) DEFAULT_DOF_POSITION"
    using r by (simp add: DEFAULT_DOF_POSITION_def round_in)
  then show ?thesis using assms by (simp add: list_all_iff)
qed

text \<open>Half of a clipped action, then the default position.\<close>

lemma target_of:
  assumes "\<bar>c\<bar> \<le> 10" "fin_in d (- 2) 2"
  obtains p q t where "d = Fin p" "f32_mul (Fin c) ACTION_SCALE = Fin q" "\<bar>q\<bar> \<le> 5" "\<bar>q - c / 2\<bar> \<le> 1 / 2 ^ 22"
    "f64_add (Fin q) d = Fin t" "\<bar>t - (q + p)\<bar> \<le> 1 / 2 ^ 51"
proof -
  obtain p where p: "d = Fin p" "- 2 \<le> p" "p \<le> 2" using assms(2) by (auto simp: fin_in_def)
  have five: "f32_rep 5" "f32_rep (- 5)" using f32_rep_of_int[of 5] f32_rep_of_int[of "- 5"] by simp_all
  have c: "- 10 \<le> c" "c \<le> 10" using assms(1) by linarith+
  obtain q where q: "f32_round (c * (1 / 2)) = Fin q" "f32_rep q" "- 5 \<le> q" "q \<le> 5"
    by (rule f32_round_in[OF five(2,1), of "c * (1 / 2)"]) (use c in simp_all)
  have "q = round32 (c * (1 / 2))" using q(1) f32_round_FinD by blast
  moreover have "\<bar>c * (1 / 2)\<bar> < pow2 3" using c by (simp add: pow2_def abs_less_iff)
  ultimately have e: "\<bar>q - c / 2\<bar> \<le> 1 / 2 ^ 22" using round32_error[of "c * (1 / 2)" 3] by (simp add: pow2_def)
  have eight: "f64_rep 8" "f64_rep (- 8)" using f64_rep_quarters[of 32] f64_rep_quarters[of "- 32"] by simp_all
  have b: "- 8 \<le> q + p" "q + p \<le> 8" using q p by linarith+
  from round_in[OF eight(2,1) b] obtain t where t: "f64_round (q + p) = Fin t" by (auto simp: fin_in_def)
  have "t = round_rat (q + p)" using t f64_round_FinD by blast
  moreover have "\<bar>q + p\<bar> < pow2 3" using q p by (simp add: pow2_def abs_less_iff)
  ultimately have "\<bar>t - (q + p)\<bar> \<le> 1 / 2 ^ 51" using round_error_below[of "q + p" 3] by (simp add: pow2_def)
  then show ?thesis
    by (intro that[of p q t]) (use p(1) q e t in \<open>simp_all add: ACTION_SCALE_def abs_le_iff\<close>)
qed

definition targets_of :: "f64 list \<Rightarrow> f64 list" where
  "targets_of raw = map2 f64_add (map (\<lambda>x. mul_in F32 x ACTION_SCALE) (map (clip_to RAW_ACTION_MIN RAW_ACTION_MAX) raw)) DEFAULT_DOF_POSITION"

lemma targets_finite:
  assumes "length raw = 23" "list_all is_finite raw"
  shows "length (targets_of raw) = 23" "list_all is_finite (targets_of raw)"
proof -
  show l: "length (targets_of raw) = 23" using assms(1) default_position by (simp add: targets_of_def)
  have "is_finite (targets_of raw ! i)" if i: "i < 23" for i
  proof -
    have "is_finite (raw ! i)" using assms i by (simp add: list_all_length)
    then obtain c where c: "clip_to RAW_ACTION_MIN RAW_ACTION_MAX (raw ! i) = Fin c" "\<bar>c\<bar> \<le> 10" by (rule clipped_action)
    have "fin_in (DEFAULT_DOF_POSITION ! i) (- 2) 2" using i default_position by (intro default_in nth_mem) simp
    with c(2) show ?thesis
      by (rule target_of) (use i assms(1) default_position c(1) in \<open>simp add: targets_of_def mul_in_def\<close>)
  qed
  then show "list_all is_finite (targets_of raw)" using l by (simp add: list_all_length)
qed

lemma apply_pd_control_total:
  assumes "length raw = 23" "list_all is_finite raw" "length p = 23" "list_all is_finite p" "length v = 23" "list_all is_finite v" "binary32s v"
  shows "\<exists>torque. apply_pd_control (vec F32 raw) (vec F32 p) (vec F32 v) =
     Inr \<lparr>co_raw = raw, co_clipped = map (clip_to RAW_ACTION_MIN RAW_ACTION_MAX) raw, co_target = targets_of raw, co_torque = torque\<rparr>"
proof -
  have d: "deploy_array [ACTION_DIM] k (vec F32 xs) = Inr (F32, xs)" if "length xs = 23" "list_all is_finite xs" for k xs
    using that by (simp add: deploy_array_def ACTION_DIM_def)
  obtain torque where t: "pd_torque (vec F64 (targets_of raw)) (vec F32 p) (vec F32 v) = Inr torque"
    using pd_torque_total[OF targets_finite[OF assms(1,2)] assms(3-7)] by blast
  show ?thesis
    unfolding apply_pd_control_def d[OF assms(1,2)] d[OF assms(3,4)] d[OF assms(5,6)] bindE_simps prod.case Let_def
      targets_of_def[symmetric] t by simp
qed

lemma clipped_finite: "list_all is_finite raw \<Longrightarrow> list_all is_finite (map (clip_to RAW_ACTION_MIN RAW_ACTION_MAX) raw)"
proof -
  assume "list_all is_finite raw"
  moreover have "is_finite (clip_to RAW_ACTION_MIN RAW_ACTION_MAX x)" if "is_finite x" for x
    by (rule clipped_action[OF that]) simp
  ultimately show ?thesis by (auto simp: list_all_iff)
qed

lemma concat_finite: "(\<And>xs. xs \<in> set xss \<Longrightarrow> list_all is_finite xs) \<Longrightarrow> list_all is_finite (concat xss)"
  by (auto simp: list_all_iff)

lemma boundary_now_total:
  assumes "plant_ok P" "cadence_ok rt"
  shows "\<exists>b. boundary_now P rt = Inr b \<and> cb_control_step b = rt_control_step rt \<and> cb_qpos b = pl_qpos P (rt_data rt)"
proof -
  have r: "reading_ok 30 (pl_qpos P (rt_data rt))" "reading_ok 29 (pl_qvel P (rt_data rt))" "reading_ok 4 (pl_orientation P (rt_data rt))"
    "reading_ok 3 (pl_angular_velocity P (rt_data rt))" using assms(1) by (simp_all add: plant_ok_def)
  note f = r[THEN reading_finite]
  have "exact_array d [length xs] k (vec d xs) = Inr xs" if "list_all is_finite xs" for d k xs
    using that by (simp add: exact_array_def)
  note e = this[of "pl_qpos P (rt_data rt)" F64] this[of "pl_qvel P (rt_data rt)" F64]
    this[of "map to_f32 (pl_orientation P (rt_data rt))" F32] this[of "map to_f32 (pl_angular_velocity P (rt_data rt))" F32]
  show ?thesis
    using f e assms(2) by (simp add: boundary_now_def mk_boundary_def nonnegative_integer_def cadence_ok_def SIMULATION_DECIMATION_def)
qed

lemma runtime_step_total:
  assumes P: "plant_ok P" and rt: "cadence_ok rt" and raw: "length raw = 23" "list_all is_finite raw"
  shows "\<exists>b interval rt'. runtime_step P (vec F32 raw) rt = Inr (b, interval, rt') \<and> cadence_ok rt' \<and>
     cb_control_step b = rt_control_step rt + 1 \<and> rt_control_step rt' = rt_control_step rt + 1 \<and>
     ci_composite interval = raw \<and> ci_start_control interval = rt_control_step rt"
proof -
  have q: "reading_ok 30 (pl_qpos P d)" "reading_ok 29 (pl_qvel P d)" for d using P by (simp_all add: plant_ok_def)
  obtain p where p: "joints_f32 (pl_qpos P (rt_data rt)) = vec F32 p" "length p = 23" "list_all is_finite p" "binary32s p"
    by (rule joints_reading[OF q(1)]) simp
  obtain v where v: "joints_f32 (pl_qvel P (rt_data rt)) = vec F32 v" "length v = 23" "list_all is_finite v" "binary32s v"
    by (rule joints_reading[OF q(2)]) simp
  obtain torque where control: "apply_pd_control (vec F32 raw) (vec F32 p) (vec F32 v) =
      Inr \<lparr>co_raw = raw, co_clipped = map (clip_to RAW_ACTION_MIN RAW_ACTION_MAX) raw, co_target = targets_of raw, co_torque = torque\<rparr>"
    using apply_pd_control_total[OF raw p(2,3) v(2-4)] by blast
  obtain subs final where s: "run_substeps P (targets_of raw) SIMULATION_DECIMATION (rt_data rt) = Inr (subs, final)"
    "mapE contact_substep (map su_contacts subs) = Inr (map su_contacts subs)"
    "\<forall>su \<in> set subs. list_all is_finite (su_qpos su) \<and> list_all is_finite (su_qvel su)"
    using run_substeps_total[OF P targets_finite[OF raw]] by blast
  note w = run_substeps_within[OF s(1)]
  define rt' where "rt' = rt\<lparr>rt_data := final, rt_control_step := rt_control_step rt + 1,
    rt_simulation_step := rt_simulation_step rt + int SIMULATION_DECIMATION\<rparr>"
  have rt': "cadence_ok rt'" using rt by (simp add: cadence_ok_def rt'_def algebra_simps)
  obtain b where b: "boundary_now P rt' = Inr b" "cb_control_step b = rt_control_step rt'" using boundary_now_total[OF P rt'] by blast
  have e: "exact_array d [ACTION_DIM] k (vec d xs) = Inr xs" if "length xs = 23" "list_all is_finite xs" for d k xs
    using that by (simp add: exact_array_def ACTION_DIM_def)
  have r: "exact_array F64 [n, k] field (rows_array n k rows) = Inr (concat rows)" if "\<forall>xs \<in> set rows. list_all is_finite xs" for n k field rows
    using that concat_finite[of rows] by (simp add: exact_array_def rows_array_def)
  have rows: "\<forall>xs \<in> set (map su_qpos subs). list_all is_finite xs" "\<forall>xs \<in> set (map su_qvel subs). list_all is_finite xs"
    "\<forall>xs \<in> set (map su_torque subs). list_all is_finite xs"
    using s(3) w bounded_by_finite by auto
  have ct: "contact_trace (map su_contacts subs) = Inr (map su_contacts subs)"
    using s(2) w by (simp add: contact_trace_def)
  have i: "mk_interval (vec F32 raw) (vec F32 (map (clip_to RAW_ACTION_MIN RAW_ACTION_MAX) raw)) (vec F64 (targets_of raw))
      (map su_qpos subs) (map su_qvel subs) (map su_torque subs) (map su_contacts subs) (PInt (rt_control_step rt)) (PInt (rt_simulation_step rt)) =
      Inr \<lparr>ci_composite = raw, ci_clipped = map (clip_to RAW_ACTION_MIN RAW_ACTION_MAX) raw, ci_target = targets_of raw, ci_qpos = map su_qpos subs,
        ci_qvel = map su_qvel subs, ci_torque = map su_torque subs, ci_contacts = map su_contacts subs, ci_start_control = rt_control_step rt,
        ci_start_simulation = rt_simulation_step rt\<rparr>"
    using rt e[OF _ clipped_finite[OF raw(2)]] unfolding mk_interval_def r[OF rows(1)] r[OF rows(2)] r[OF rows(3)] ct e[OF raw]
      e[OF targets_finite[OF raw]]
    by (simp add: raw nonnegative_integer_def cadence_ok_def SIMULATION_DECIMATION_def)
  have "runtime_step P (vec F32 raw) rt = bindE (mk_interval (vec F32 raw) (vec F32 (map (clip_to RAW_ACTION_MIN RAW_ACTION_MAX) raw)) (vec F64 (targets_of raw))
      (map su_qpos subs) (map su_qvel subs) (map su_torque subs) (map su_contacts subs) (PInt (rt_control_step rt)) (PInt (rt_simulation_step rt)))
      (\<lambda>interval. bindE (boundary_now P rt') (\<lambda>b. Inr (b, interval, rt')))"
    unfolding runtime_step_def p(1) v(1) e[OF raw] bindE_simps control
    using rt by (simp add: cadence_ok_def s(1) rt'_def Let_def)
  then show ?thesis unfolding i using b rt' by (simp add: rt'_def)
qed

text \<open>A sequence of actions, as an episode issues them.\<close>

fun run_actions :: "'p plant \<Rightarrow> f64 list list \<Rightarrow> 'p control_runtime \<Rightarrow> control_error + (control_interval list \<times> 'p control_runtime)" where
  "run_actions P [] rt = Inr ([], rt)"
| "run_actions P (a # as) rt = bindE (runtime_step P (vec F32 a) rt) (\<lambda>(_, interval, rt').
     bindE (run_actions P as rt') (\<lambda>(ivals, rt''). Inr (interval # ivals, rt'')))"

lemma run_actions_total:
  assumes P: "plant_ok P" and rt: "cadence_ok rt" and as: "\<forall>a \<in> set as. length a = 23 \<and> list_all is_finite a"
  shows "\<exists>ivals rt'. run_actions P as rt = Inr (ivals, rt') \<and> map ci_composite ivals = as \<and>
     map ci_start_control ivals = map (\<lambda>k. rt_control_step rt + int k) [0..<length as] \<and>
     rt_control_step rt' = rt_control_step rt + int (length as) \<and>
     rt_simulation_step rt' = 20 * rt_control_step rt'"
  using rt as
proof (induction as arbitrary: rt)
  case Nil
  then show ?case by (simp add: cadence_ok_def SIMULATION_DECIMATION_def)
next
  case (Cons a as)
  have a: "length a = 23" "list_all is_finite a" using Cons.prems(2) by simp_all
  obtain b interval rt' where s: "runtime_step P (vec F32 a) rt = Inr (b, interval, rt')" "cadence_ok rt'"
    "rt_control_step rt' = rt_control_step rt + 1" "ci_composite interval = a" "ci_start_control interval = rt_control_step rt"
    using runtime_step_total[OF P Cons.prems(1) a] by blast
  have "\<forall>a \<in> set as. length a = 23 \<and> list_all is_finite a" using Cons.prems(2) by simp
  from Cons.IH[OF s(2) this] obtain ivals rt'' where r: "run_actions P as rt' = Inr (ivals, rt'')" "map ci_composite ivals = as"
    "map ci_start_control ivals = map (\<lambda>k. rt_control_step rt' + int k) [0..<length as]"
    "rt_control_step rt'' = rt_control_step rt' + int (length as)" "rt_simulation_step rt'' = 20 * rt_control_step rt''" by blast
  have u: "[0..<length (a # as)] = 0 # map Suc [0..<length as]" by (simp only: length_Cons upt_conv_Cons map_Suc_upt zero_less_Suc)
  show ?case
    unfolding u using r s by (simp add: o_def add.commute add.left_commute del: upt_Suc)
qed

lemma runtime_reset_cadence:
  assumes "runtime_reset P rt = Inr (b, rt')"
  shows "cadence_ok rt' \<and> rt_control_step rt' = 0"
  using assms by (auto simp: runtime_reset_def cadence_ok_def Let_def)

text \<open>
  C26. With a sane simulator the plant runtime never fails: from a runtime that has been reset, every
  finite float32 action is stepped, the cadence, contact-order and shape checks never fire, and the
  boundary carries the next control step, also over any sequence of actions.
\<close>

theorem plant_runtime_total:
  assumes P: "plant_ok P" and reset: "runtime_reset P rt = Inr (b, rt0)"
    and as: "\<forall>a \<in> set as. length a = 23 \<and> list_all is_finite a"
  shows "\<exists>ivals rt'. run_actions P as rt0 = Inr (ivals, rt') \<and> map ci_composite ivals = as \<and>
     map ci_start_control ivals = map int [0..<length as] \<and> rt_control_step rt' = int (length as) \<and>
     rt_simulation_step rt' = 20 * rt_control_step rt'"
  using run_actions_total[OF P _ as, of rt0] runtime_reset_cadence[OF reset] by auto

text \<open>
  C27. Whatever the policy asks for, every torque of every substep lies within the limit of its joint, and
  the position target within 5 rad of the default pose, up to rounding.
\<close>

theorem torques_within_limits:
  assumes step: "runtime_step P action_v rt = Inr (b, interval, rt')"
  shows "length (ci_torque interval) = 20 \<and>
     (\<forall>row \<in> set (ci_torque interval). bounded_by [88, 139, 88, 139, 50, 50, 88, 139, 88, 139, 50, 50, 88, 50, 50, 25, 25, 25, 25, 25, 25, 25, 25] row) \<and>
     list_all2 (\<lambda>d t. \<exists>p q. d = Fin p \<and> t = Fin q \<and> \<bar>q - p\<bar> \<le> 5 + 1 / 2 ^ 51) DEFAULT_DOF_POSITION (ci_target interval)"
proof -
  obtain raw control subs data where raw: "action_v = NpArray F32 [ACTION_DIM] True raw" "list_all is_finite raw"
    and c: "apply_pd_control (vec F32 raw) (joints_f32 (pl_qpos P (rt_data rt))) (joints_f32 (pl_qvel P (rt_data rt))) = Inr control"
    and s: "run_substeps P (co_target control) SIMULATION_DECIMATION (rt_data rt) = Inr (subs, data)"
    and i: "ci_torque interval = map su_torque subs" "ci_target interval = co_target control"
    using step by (auto simp: runtime_step_def exact_array_Inr Let_def mk_interval_def split: if_splits)
  have target: "co_target control = targets_of raw" and "length raw = 23"
    using c by (auto simp: apply_pd_control_def deploy_array_Inr targets_of_def ACTION_DIM_def Let_def)
  have "list_all2 (\<lambda>d t. \<exists>p q. d = Fin p \<and> t = Fin q \<and> \<bar>q - p\<bar> \<le> 5 + 1 / 2 ^ 51) DEFAULT_DOF_POSITION (targets_of raw)"
  proof (rule list_all2_all_nthI)
    show "length DEFAULT_DOF_POSITION = length (targets_of raw)" using \<open>length raw = 23\<close> by (simp add: targets_of_def default_position)
    fix i assume "i < length DEFAULT_DOF_POSITION"
    then have j: "i < 23" by (simp add: default_position)
    then have "is_finite (raw ! i)" using raw(2) \<open>length raw = 23\<close> by (simp add: list_all_length)
    then obtain k where k: "clip_to RAW_ACTION_MIN RAW_ACTION_MAX (raw ! i) = Fin k" "\<bar>k\<bar> \<le> 10" by (rule clipped_action)
    have "fin_in (DEFAULT_DOF_POSITION ! i) (- 2) 2" using j default_position by (intro default_in nth_mem) simp
    with k(2) obtain p q t where t: "DEFAULT_DOF_POSITION ! i = Fin p" "f32_mul (Fin k) ACTION_SCALE = Fin q" "\<bar>q\<bar> \<le> 5"
      "f64_add (Fin q) (DEFAULT_DOF_POSITION ! i) = Fin t" "\<bar>t - (q + p)\<bar> \<le> 1 / 2 ^ 51" by (rule target_of)
    then have "targets_of raw ! i = Fin t" using j \<open>length raw = 23\<close> default_position k(1) by (simp add: targets_of_def mul_in_def)
    moreover have "\<bar>t - p\<bar> \<le> 5 + 1 / 2 ^ 51" using t(3,5) by linarith
    ultimately show "\<exists>p q. DEFAULT_DOF_POSITION ! i = Fin p \<and> targets_of raw ! i = Fin q \<and> \<bar>q - p\<bar> \<le> 5 + 1 / 2 ^ 51" using t(1) by blast
  qed
  moreover have "length subs = 20 \<and> (\<forall>su \<in> set subs. bounded_by torque_bounds (su_torque su))"
    using run_substeps_within[OF s] by (simp add: SIMULATION_DECIMATION_def)
  ultimately show ?thesis by (auto simp: i target torque_bounds_def)
qed

section \<open>The residual moves the target by an eighth of a radian\<close>

abbreviation clip_action :: "f64 \<Rightarrow> f64" where
  "clip_action \<equiv> clip_to RAW_ACTION_MIN RAW_ACTION_MAX"

lemma clip_action_Fin: "clip_action (Fin q) = Fin (max (- 10) (min 10 q))"
  by (auto simp: clip_to_def RAW_ACTION_MIN_def RAW_ACTION_MAX_def Let_def)

lemma clip_lipschitz: "\<bar>max (- 10) (min 10 x) - max (- 10) (min 10 y)\<bar> \<le> \<bar>x - y\<bar>" for x y :: rat
  by (auto simp: max_def min_def)

lemma clip_large: "16 \<le> b \<Longrightarrow> 15 \<le> c \<Longrightarrow> max (- 10) (min 10 c) = max (- 10) (min 10 (b::rat))"
  by (simp add: max_def min_def)

lemma quarter_of_residual:
  assumes "\<bar>r\<bar> \<le> 1"
  obtains s where "f32_mul (Fin (1 / 4)) (Fin r) = Fin s" "\<bar>s\<bar> \<le> 1 / 4"
proof -
  have q: "f32_rep (1 / 4)" "f32_rep (- (1 / 4))"
    using f32_rep_scaled[of 1 "- 2"] f32_rep_scaled[of "- 1" "- 2"] by (simp_all add: pow2_def)
  obtain s where "f32_round (1 / 4 * r) = Fin s" "- (1 / 4) \<le> s" "s \<le> 1 / 4"
    by (rule f32_round_in[OF q(2,1), of "1 / 4 * r"]) (use assms in \<open>simp_all add: abs_le_iff\<close>)
  then show ?thesis using that by (simp add: abs_le_iff)
qed

lemma round32_bounds:
  assumes "\<bar>n\<bar> \<le> 2 ^ 24"
  shows "of_int n \<le> x \<Longrightarrow> of_int n \<le> round32 x" "x \<le> of_int n \<Longrightarrow> round32 x \<le> of_int n"
  using round32_mono[of "of_int n" x] round32_mono[of x "of_int n"] f32_rep_of_int[OF assms] by (simp_all add: f32_rep_def)

lemma residual_clip:
  assumes s: "\<bar>s\<bar> \<le> 1 / 4"
  obtains c where "clip_action (f32_add (Fin b) (Fin s)) = Fin c" "\<bar>c\<bar> \<le> 10" "\<bar>c - max (- 10) (min 10 b)\<bar> \<le> 1 / 4 + 1 / 2 ^ 20"
proof -
  let ?x = "b + s" and ?r = "round32 (b + s)"
  have cb: "\<bar>max (- 10) (min 10 x)\<bar> \<le> 10" for x :: rat by (auto simp: max_def min_def)
  have bs: "b - 1 / 4 \<le> ?x" "?x \<le> b + 1 / 4" using s by linarith+
  consider "\<bar>b\<bar> < 16" | "16 \<le> b" | "b \<le> - 16" by linarith
  then show ?thesis
  proof cases
    case 1
    then have x: "\<bar>?x\<bar> < pow2 5" using bs by (simp add: pow2_def abs_less_iff)
    then have e: "\<bar>?r - ?x\<bar> \<le> 1 / 2 ^ 20" using round32_error[of ?x 5] by (simp add: pow2_def)
    have "- 32 \<le> ?r" "?r \<le> 32" using x round32_bounds[of 32 ?x] round32_bounds[of "- 32" ?x] by (simp_all add: pow2_def abs_less_iff)
    moreover have "(32::rat) < pow2 128" by (simp add: pow2_def)
    ultimately have f: "f32_round ?x = Fin ?r" by (simp add: f32_round_def Let_def)
    have "\<bar>?r - b\<bar> \<le> 1 / 4 + 1 / 2 ^ 20" using e bs by linarith
    then have "\<bar>max (- 10) (min 10 ?r) - max (- 10) (min 10 b)\<bar> \<le> 1 / 4 + 1 / 2 ^ 20"
      using clip_lipschitz[of ?r b] by linarith
    then show ?thesis using that f cb by (simp add: clip_action_Fin)
  next
    case 2
    then have "15 \<le> ?r" using bs round32_bounds(1)[of 15 ?x] by simp
    moreover from this have "\<not> ?r \<le> - pow2 128" using pow2_pos[of 128] by linarith
    ultimately have "clip_action (f32_round ?x) = Fin (max (- 10) (min 10 b))"
      using 2
      by (cases "f32_round ?x") (auto simp: f32_round_def Let_def clip_to_def RAW_ACTION_MIN_def RAW_ACTION_MAX_def split: if_splits)
    then show ?thesis using that cb by simp
  next
    case 3
    then have "?r \<le> - 15" using bs round32_bounds(2)[of "- 15" ?x] by simp
    moreover from this have "\<not> pow2 128 \<le> ?r" using pow2_pos[of 128] by linarith
    ultimately have "clip_action (f32_round ?x) = Fin (max (- 10) (min 10 b))"
      using 3
      by (cases "f32_round ?x") (auto simp: f32_round_def Let_def clip_to_def RAW_ACTION_MIN_def RAW_ACTION_MAX_def split: if_splits)
    then show ?thesis using that cb by simp
  qed
qed

text \<open>Both targets of a joint, with the residual and without.\<close>

lemma target_shift:
  assumes "\<bar>s\<bar> \<le> 1 / 4" "fin_in d (- 2) 2"
  obtains p q where "f64_add (f32_mul (clip_action (f32_add (Fin b) (Fin s))) ACTION_SCALE) d = Fin p"
    "f64_add (f32_mul (clip_action (Fin b)) ACTION_SCALE) d = Fin q" "\<bar>p - q\<bar> \<le> 1 / 8 + 1 / 2 ^ 19"
proof -
  define c0 where "c0 = max (- 10) (min 10 b)"
  have c0: "clip_action (Fin b) = Fin c0" "\<bar>c0\<bar> \<le> 10" by (auto simp: c0_def clip_action_Fin max_def min_def)
  obtain c where c: "clip_action (f32_add (Fin b) (Fin s)) = Fin c" "\<bar>c\<bar> \<le> 10" "\<bar>c - c0\<bar> \<le> 1 / 4 + 1 / 2 ^ 20"
    using residual_clip[OF assms(1), of b] unfolding c0_def by blast
  obtain e q1 t1 where t1: "d = Fin e" "f32_mul (Fin c) ACTION_SCALE = Fin q1" "\<bar>q1 - c / 2\<bar> \<le> 1 / 2 ^ 22"
    "f64_add (Fin q1) d = Fin t1" "\<bar>t1 - (q1 + e)\<bar> \<le> 1 / 2 ^ 51" using target_of[OF c(2) assms(2)] by metis
  obtain q0 t0 where t0: "f32_mul (Fin c0) ACTION_SCALE = Fin q0" "\<bar>q0 - c0 / 2\<bar> \<le> 1 / 2 ^ 22"
    "f64_add (Fin q0) d = Fin t0" "\<bar>t0 - (q0 + e)\<bar> \<le> 1 / 2 ^ 51" using target_of[OF c0(2) assms(2)] t1(1) by (metis f64.inject)
  have "\<bar>c / 2 - c0 / 2\<bar> \<le> 1 / 8 + 1 / 2 ^ 21" using c(3) by (simp add: field_simps)
  then have "\<bar>t1 - t0\<bar> \<le> 1 / 8 + 1 / 2 ^ 21 + 1 / 2 ^ 22 + 1 / 2 ^ 22 + 1 / 2 ^ 51 + 1 / 2 ^ 51"
    using t1(3,5) t0(2,4) by linarith
  also have "\<dots> \<le> 1 / 8 + 1 / 2 ^ 19" by simp
  finally show ?thesis using that c c0 t1(2,4) t0(1,3) by simp
qed

text \<open>
  C28. A residual action of the policy moves the position target of a joint by at most 0.125 rad, up to
  the binary32 rounding of the sum (\<open>2^-19\<close> rad), whatever the base action and wherever it is clipped.
\<close>

theorem residual_shift_bounded:
  assumes base: "list_all f32_ok base" and residual: "list_all f32_ok residual"
    and composed: "compose_residual_raw_action (vec F32 base) (vec F32 residual) PROVISIONAL_RESIDUAL_RAW_SCALE = Inr composite"
    and c: "apply_pd_control (vec F32 composite) position velocity = Inr control"
    and c0: "apply_pd_control (vec F32 base) position velocity = Inr control0"
  shows "list_all2 (\<lambda>x y. \<exists>p q. x = Fin p \<and> y = Fin q \<and> \<bar>p - q\<bar> \<le> 1 / 8 + 1 / 2 ^ 19) (co_target control) (co_target control0)"
proof -
  have l: "length base = 23" "length residual = 23" and fin: "list_all is_finite base" "list_all is_finite residual"
    and range: "\<not> list_ex (\<lambda>x. f64_lt x (Fin (- 1))) residual" "\<not> list_ex (\<lambda>x. f64_lt (Fin 1) x) residual"
    and comp: "composite = map2 f32_add base (map (f32_mul PROVISIONAL_RESIDUAL_RAW_SCALE) residual)"
    using composed by (auto simp: compose_residual_raw_action_def exact_array_Inr ACTION_DIM_def split: if_splits)
  have t: "co_target control = targets_of composite" "co_target control0 = targets_of base"
    using c c0 by (auto simp: apply_pd_control_def deploy_array_Inr targets_of_def Let_def)
  show ?thesis
    unfolding t
  proof (rule list_all2_all_nthI)
    show "length (targets_of composite) = length (targets_of base)" using l by (simp add: targets_of_def comp)
    fix i assume "i < length (targets_of composite)"
    then have i: "i < 23" by (simp add: targets_of_def default_position)
    obtain b where b: "base ! i = Fin b" using fin(1) l i by (auto simp: list_all_length is_finite_iff)
    obtain r where r: "residual ! i = Fin r" using fin(2) l i by (auto simp: list_all_length is_finite_iff)
    have "residual ! i \<in> set residual" using l i by simp
    then have "\<not> f64_lt (residual ! i) (Fin (- 1))" "\<not> f64_lt (Fin 1) (residual ! i)" using range by (auto simp: list_ex_iff)
    then have "\<bar>r\<bar> \<le> 1" by (simp add: r abs_le_iff not_less)
    then obtain s where s: "f32_mul (Fin (1 / 4)) (Fin r) = Fin s" "\<bar>s\<bar> \<le> 1 / 4" by (rule quarter_of_residual)
    have ci: "composite ! i = f32_add (Fin b) (Fin s)" using l i b r s(1) by (simp add: comp PROVISIONAL_RESIDUAL_RAW_SCALE_def)
    have "fin_in (DEFAULT_DOF_POSITION ! i) (- 2) 2" using i default_position by (intro default_in nth_mem) simp
    with s(2) obtain p q where "f64_add (f32_mul (clip_action (f32_add (Fin b) (Fin s))) ACTION_SCALE) (DEFAULT_DOF_POSITION ! i) = Fin p"
      "f64_add (f32_mul (clip_action (Fin b)) ACTION_SCALE) (DEFAULT_DOF_POSITION ! i) = Fin q" "\<bar>p - q\<bar> \<le> 1 / 8 + 1 / 2 ^ 19"
      by (rule target_shift)
    then show "\<exists>p q. targets_of composite ! i = Fin p \<and> targets_of base ! i = Fin q \<and> \<bar>p - q\<bar> \<le> 1 / 8 + 1 / 2 ^ 19"
      using i l b ci comp default_position by (simp add: targets_of_def mul_in_def)
  qed
qed

section \<open>The history is a window over what was executed\<close>

text \<open>The sessions that preparations and commits reach, with the committed proprioceptions in order.\<close>

inductive session_at :: "control_math \<Rightarrow> (f64 list \<Rightarrow> np_value) \<Rightarrow> actor_session \<Rightarrow> f64 list list \<Rightarrow> bool" for M actor where
  start: "session_at M actor (session_reset n) []"
| prepared: "session_at M actor s ps \<Longrightarrow> session_prepare M actor b w s = Inr (p, s') \<Longrightarrow> session_at M actor s' ps"
| committed: "session_at M actor s ps \<Longrightarrow> session_commit p a s = Inr s' \<Longrightarrow> session_at M actor s' (ps @ [pc_proprio p])"

definition session_window :: "f64 list list \<Rightarrow> history" where
  "session_window ps = drop (length ps) (empty_history @ ps)"

lemma session_window_snoc: "drop 1 (session_window ps) @ [x] = session_window (ps @ [x])"
proof -
  have "drop 1 (drop n xs) @ [x] = drop (Suc n) (xs @ [x])" if "Suc n \<le> length xs" for n and xs :: history
    using that by simp
  from this[of "length ps" "empty_history @ ps"] show ?thesis
    by (simp add: session_window_def empty_history_def HISTORY_LENGTH_def del: drop_append)
qed

definition session_inv :: "actor_session \<Rightarrow> f64 list list \<Rightarrow> bool" where
  "session_inv s ps \<longleftrightarrow> as_history s = session_window ps \<and> as_expected_step s = int (length ps) \<and>
     list_all (\<lambda>row. length row = PROPRIOCEPTION_DIM) (empty_history @ ps) \<and>
     (\<forall>p. as_pending s = Some p \<longrightarrow> pc_control_step p = int (length ps) \<and>
        (\<exists>w. length w = 600 \<and> pc_obs p = map to_f32 (w @ pc_proprio p @ concat (session_window ps))))"

lemma length_concat_rows: "\<forall>row \<in> set rows. length row = k \<Longrightarrow> length (concat rows) = k * length rows"
  by (induction rows) auto

lemma session_window_rows:
  assumes "list_all (\<lambda>row. length row = PROPRIOCEPTION_DIM) (empty_history @ ps)"
  shows "length (session_window ps) = 20" "length (concat (session_window ps)) = 1480"
proof -
  show l: "length (session_window ps) = 20" by (simp add: session_window_def empty_history_def HISTORY_LENGTH_def)
  have "\<forall>row \<in> set (session_window ps). length row = 74"
    using assms unfolding session_window_def PROPRIOCEPTION_DIM_def list_all_iff by (meson in_set_dropD)
  then have "length (concat (session_window ps)) = 74 * length (session_window ps)" by (rule length_concat_rows)
  then show "length (concat (session_window ps)) = 1480" using l by simp
qed

lemma session_inv_prepare:
  assumes i: "session_inv s ps" and p: "session_prepare M actor b w s = Inr (p, s')"
  shows "session_inv s' ps"
proof -
  obtain ref proprio obs out where
    r: "w = NpArray F32 [REFERENCE_HORIZON, REFERENCE_FRAME_DIM] True ref"
    and asm: "assemble (as_history s) (NpArray F32 [REFERENCE_HORIZON, REFERENCE_FRAME_DIM] True ref) (vec F64 proprio) = Inr obs"
    and mk: "mk_prepared (PInt (cb_control_step b)) (vec F64 proprio) (vec F32 obs) (vec F32 out) (as_prepared s) = Inr p"
    and s': "s' = s\<lparr>as_pending := Some p, as_prepared := as_prepared s + 1\<rparr>" and c: "cb_control_step b = as_expected_step s"
    using p by (auto simp: session_prepare_def exact_array_Inr split: if_splits)
  have pf: "pc_control_step p = cb_control_step b" "pc_proprio p = proprio" "pc_obs p = obs"
    using mk by (auto simp: mk_prepared_def exact_array_Inr nonnegative_integer_def split: if_splits)
  have o: "obs = map to_f32 (ref @ proprio @ concat (as_history s))" "length obs = 2154" "length proprio = 74"
    using asm by (auto simp: assemble_def deploy_array_Inr OBSERVATION_DIM_def PROPRIOCEPTION_DIM_def Let_def split: if_splits)
  have "length (concat (session_window ps)) = 1480" using i session_window_rows by (simp add: session_inv_def)
  then have "length ref = 600" using o i by (simp add: session_inv_def)
  then show ?thesis using i o(1) pf c by (auto simp: session_inv_def s')
qed

lemma session_inv_commit:
  assumes i: "session_inv s ps" and c: "session_commit p a s = Inr s'"
  shows "session_inv s' (ps @ [pc_proprio p])"
proof -
  obtain h composite where h: "history_append (as_history s) (vec F64 (pc_proprio p)) = Inr h"
    and s': "s' = s\<lparr>as_history := h, as_last_raw := composite, as_expected_step := as_expected_step s + 1, as_pending := None\<rparr>"
    using c by (auto simp: session_commit_def split: if_splits)
  have "length (pc_proprio p) = 74" "h = drop 1 (as_history s) @ [pc_proprio p]"
    using h by (auto simp: history_append_def deploy_array_Inr PROPRIOCEPTION_DIM_def)
  then show ?thesis using i session_window_snoc[of ps "pc_proprio p"] by (simp add: session_inv_def s' PROPRIOCEPTION_DIM_def)
qed

lemma session_at_inv: "session_at M actor s ps \<Longrightarrow> session_inv s ps"
proof (induction rule: session_at.induct)
  case (start n)
  show ?case by (simp add: session_inv_def session_reset_def session_window_def empty_history_def list_all_iff)
next
  case (prepared s ps b w p s')
  then show ?case using session_inv_prepare by blast
next
  case (committed s ps p a s')
  then show ?case using session_inv_commit by blast
qed

text \<open>
  C29. The rolling buffer of a session is the window of the last twenty committed proprioceptions, padded
  with zeros: after any preparations and commits the history holds exactly these rows in order, the
  expected step is the number of commits, and a prepared observation is the reference window, its own
  proprioception and this history, in float32.
\<close>

theorem history_is_window:
  assumes "session_at M actor s ps"
  shows "as_history s = drop (length ps) (replicate 20 (replicate 74 (Fin 0)) @ ps) \<and> as_expected_step s = int (length ps) \<and>
     length (as_history s) = 20 \<and>
     (\<forall>p. as_pending s = Some p \<longrightarrow> pc_control_step p = int (length ps) \<and> length (pc_obs p) = 2154 \<and>
        (\<exists>w. length w = 600 \<and> pc_obs p = map to_f32 (w @ pc_proprio p @ concat (as_history s))))"
proof -
  note i = session_at_inv[OF assms]
  have "length (session_window ps) = 20" using i session_window_rows by (simp add: session_inv_def)
  moreover have "length (pc_obs p) = 2154" if p: "as_pending s = Some p" for p
  proof -
    have "session_at M actor s ps \<Longrightarrow> as_pending s = Some p \<Longrightarrow> length (pc_obs p) = 2154"
      by (induction rule: session_at.induct)
        (auto simp: session_reset_def session_prepare_def session_commit_def mk_prepared_def exact_array_Inr OBSERVATION_DIM_def split: if_splits)
    then show ?thesis using assms p by blast
  qed
  ultimately show ?thesis
    using i by (simp add: session_inv_def session_window_def empty_history_def HISTORY_LENGTH_def PROPRIOCEPTION_DIM_def)
qed

section \<open>Witnesses\<close>

text \<open>A simulator at rest: upright at height 3/4, no contact.\<close>

definition still_qpos :: "f64 list" where
  "still_qpos = [Fin 0, Fin 0, Fin (3 / 4), Fin 1, Fin 0, Fin 0, Fin 0] @ replicate 23 (Fin 0)"

definition still_plant :: "unit plant" where
  "still_plant = \<lparr>pl_reset = (\<lambda>_. ()), pl_substep = (\<lambda>_ _. ()), pl_qpos = (\<lambda>_. still_qpos), pl_qvel = (\<lambda>_. replicate 29 (Fin 0)),
     pl_orientation = (\<lambda>_. [Fin 1, Fin 0, Fin 0, Fin 0]), pl_angular_velocity = (\<lambda>_. replicate 3 (Fin 0)),
     pl_contacts = (\<lambda>_. []), pl_ngeom = 2\<rparr>"

lemma f32_rep_consts [simp]: "f32_rep 0" "f32_rep 1" "f32_rep (3 / 4)" "f32_rep (1 / 4)"
  using f32_rep_of_int[of 0] f32_rep_of_int[of 1] f32_rep_scaled[of 3 "- 2"] f32_rep_scaled[of 1 "- 2"] by (simp_all add: pow2_def)

lemma still_plant_ok: "plant_ok still_plant"
  by (simp add: plant_ok_def still_plant_def reading_ok_def still_qpos_def f32_rep_round)

lemma still_reset: "\<exists>b rt. runtime_reset still_plant (runtime_start ()) = Inr (b, rt)"
  using boundary_now_total[OF still_plant_ok, of "\<lparr>rt_data = (), rt_control_step = 0, rt_simulation_step = 0, rt_ready = True\<rparr>"]
  by (auto simp: runtime_reset_def runtime_start_def cadence_ok_def still_plant_def Let_def)

theorem plant_runtime_total_witness:
  "\<exists>b rt0 ivals rt'. runtime_reset still_plant (runtime_start ()) = Inr (b, rt0) \<and>
     run_actions still_plant [replicate 23 (Fin 0), replicate 23 (Fin 1)] rt0 = Inr (ivals, rt') \<and> rt_simulation_step rt' = 40"
proof -
  obtain b rt0 where r: "runtime_reset still_plant (runtime_start ()) = Inr (b, rt0)" using still_reset by blast
  have "\<forall>a \<in> set [replicate 23 (Fin 0), replicate 23 (Fin 1)]. length a = 23 \<and> list_all is_finite a" by simp
  from plant_runtime_total[OF still_plant_ok r this] r show ?thesis by auto
qed

theorem torques_within_limits_witness:
  "\<exists>b rt0 b' interval rt'. runtime_reset still_plant (runtime_start ()) = Inr (b, rt0) \<and>
     runtime_step still_plant (vec F32 (replicate 23 (Fin 1))) rt0 = Inr (b', interval, rt') \<and> length (ci_torque interval) = 20 \<and>
     (\<forall>row \<in> set (ci_torque interval). length row = 23)"
proof -
  obtain b rt0 where r: "runtime_reset still_plant (runtime_start ()) = Inr (b, rt0)" using still_reset by blast
  then have "cadence_ok rt0" using runtime_reset_cadence by blast
  then obtain b' interval rt' where s: "runtime_step still_plant (vec F32 (replicate 23 (Fin 1))) rt0 = Inr (b', interval, rt')"
    using runtime_step_total[OF still_plant_ok, of rt0 "replicate 23 (Fin 1)"] by auto
  have "length row = 23" if "row \<in> set (ci_torque interval)" for row
  proof -
    have "bounded_by [88, 139, 88, 139, 50, 50, 88, 139, 88, 139, 50, 50, 88, 50, 50, 25, 25, 25, 25, 25, 25, 25, 25] row"
      using torques_within_limits[OF s] that by blast
    from list_all2_lengthD[OF this[unfolded bounded_by_def]] show ?thesis by simp
  qed
  with torques_within_limits[OF s] r s show ?thesis by blast
qed

theorem residual_shift_bounded_witness:
  "\<exists>composite control control0.
     compose_residual_raw_action (vec F32 (replicate 23 (Fin 0))) (vec F32 (replicate 23 (Fin 1))) PROVISIONAL_RESIDUAL_RAW_SCALE = Inr composite \<and>
     apply_pd_control (vec F32 composite) (vec F32 (replicate 23 (Fin 0))) (vec F32 (replicate 23 (Fin 0))) = Inr control \<and>
     apply_pd_control (vec F32 (replicate 23 (Fin 0))) (vec F32 (replicate 23 (Fin 0))) (vec F32 (replicate 23 (Fin 0))) = Inr control0 \<and>
     list_all2 (\<lambda>x y. \<exists>p q. x = Fin p \<and> y = Fin q \<and> \<bar>p - q\<bar> \<le> 1 / 8 + 1 / 2 ^ 19) (co_target control) (co_target control0)"
proof -
  let ?z = "replicate 23 (Fin 0)" and ?o = "replicate 23 (Fin 1)" and ?c = "replicate 23 (Fin (1 / 4))"
  have c: "compose_residual_raw_action (vec F32 ?z) (vec F32 ?o) PROVISIONAL_RESIDUAL_RAW_SCALE = Inr ?c"
    by (simp add: compose_residual_raw_action_def exact_array_def ACTION_DIM_def PROVISIONAL_RESIDUAL_RAW_SCALE_def f32_rep_round
        zip_replicate list_ex_iff)
  have b: "binary32s ?z" by (simp add: binary32s_def)
  obtain control control0 where k: "apply_pd_control (vec F32 ?c) (vec F32 ?z) (vec F32 ?z) = Inr control"
    "apply_pd_control (vec F32 ?z) (vec F32 ?z) (vec F32 ?z) = Inr control0"
    using apply_pd_control_total[of ?c ?z ?z] apply_pd_control_total[of ?z ?z ?z] b by auto
  have "list_all f32_ok ?z" "list_all f32_ok ?o" by simp_all
  from residual_shift_bounded[OF this c k] c k show ?thesis by blast
qed

definition still_math :: control_math where
  "still_math = course_math.extend course_demo_math (control_math.fields (\<lambda>y x. Fin 0) (\<lambda>x. Fin 0))"

definition still_actor :: "f64 list \<Rightarrow> np_value" where
  "still_actor obs = NpArray F32 [1, 23] True (replicate 23 (Fin 0))"

definition still_boundary :: control_boundary where
  "still_boundary = \<lparr>cb_qpos = still_qpos, cb_qvel = replicate 29 (Fin 0), cb_orientation = [Fin 1, Fin 0, Fin 0, Fin 0],
     cb_angular_velocity = replicate 3 (Fin 0), cb_control_step = 0, cb_simulation_step = 0\<rparr>"

definition still_window :: np_value where
  "still_window = NpArray F32 [20, 30] True (replicate 600 (Fin 0))"

lemma small_f32:
  assumes "fin_in x (- 2) 2"
  shows "is_finite (to_f32 x)"
proof -
  obtain q where q: "x = Fin q" "- 2 \<le> q" "q \<le> 2" using assms by (auto simp: fin_in_def)
  have "f32_rep 2" "f32_rep (- 2)" using f32_rep_of_int[of 2] f32_rep_of_int[of "- 2"] by simp_all
  with q(2,3) obtain r where "f32_round q = Fin r" using f32_round_in[of "- 2" 2 q] by metis
  then show ?thesis by (simp add: q)
qed

lemma still_offsets:
  assumes "x \<in> set (map (\<lambda>x. f64_mul x DOF_POSITION_SCALE) (map2 f64_sub (replicate 23 (Fin 0)) DEFAULT_DOF_POSITION))"
  shows "fin_in x (- 2) 2"
proof -
  have r: "f64_rep 2" "f64_rep (- 2)" using f64_rep_quarters[of 8] f64_rep_quarters[of "- 8"] by simp_all
  obtain a d where ad: "(a, d) \<in> set (zip (replicate 23 (Fin 0)) DEFAULT_DOF_POSITION)" "x = f64_mul (f64_sub a d) DOF_POSITION_SCALE"
    using assms by auto
  have "a = Fin 0" "d \<in> set DEFAULT_DOF_POSITION" using set_zip_leftD[OF ad(1)] set_zip_rightD[OF ad(1)] by simp_all
  then have d: "d \<in> set DEFAULT_DOF_POSITION" "x = f64_mul (f64_sub (Fin 0) d) DOF_POSITION_SCALE" using ad(2) by simp_all
  obtain q where q: "d = Fin q" "- 2 \<le> q" "q \<le> 2" using default_in[OF d(1)] by (auto simp: fin_in_def)
  have "fin_in (f64_round (- q)) (- 2) 2" using q r by (intro round_in) simp_all
  then obtain p where p: "f64_sub (Fin 0) d = Fin p" "- 2 \<le> p" "p \<le> 2" by (auto simp: q f64_sub_def fin_in_def)
  then show ?thesis using r by (simp add: d(2) DOF_POSITION_SCALE_def round_in)
qed

lemma still_joints: "joints_f32 still_qpos = vec F32 (replicate 23 (Fin 0))" "joints_f32 (replicate 29 (Fin 0)) = vec F32 (replicate 23 (Fin 0))"
  by (simp_all add: joints_f32_def still_qpos_def ACTION_DIM_def f32_rep_round Let_def)

lemma still_euler: "sensor_euler still_math F32 [Fin 1, Fin 0, Fin 0, Fin 0] = Inr (Fin 0, Fin 0, Fin 0)"
  by (simp add: sensor_euler_def still_math_def course_math.defs control_math.defs course_demo_math_def mul_in_def add_in_def sub_in_def f32_sub_def
      f32_rep_round Let_def)

lemma zero_at_zeros: "zero_at idx (replicate n (Fin 0)) = replicate n (Fin 0)"
proof -
  have "(replicate n (Fin 0))[i := Fin 0] = replicate n (Fin 0)" for i
    by (cases "i < n") (simp_all add: list_eq_iff_nth_eq nth_list_update)
  then show ?thesis by (induction idx) (simp_all add: zero_at_def)
qed

lemma still_scale: "mul_in F32 (Fin 0) (cast_in F32 (f64_round (q / 20))) = Fin 0" if "0 \<le> q" "q \<le> 20"
proof -
  have "fin_in (f64_round (q / 20)) 0 1" using that by (intro round_in) simp_all
  then have "fin_in (f64_round (q / 20)) (- 2) 2" by (auto simp: fin_in_def)
  then obtain r where "to_f32 (f64_round (q / 20)) = Fin r" using small_f32 is_finite_iff by blast
  then show ?thesis by (simp add: mul_in_def cast_in_def f32_rep_round)
qed

lemma still_proprioception:
  "\<exists>ps. build_proprioception still_math (vec F32 (replicate 23 (Fin 0))) (vec F32 (replicate 23 (Fin 0))) (vec F32 [Fin 1, Fin 0, Fin 0, Fin 0])
     (vec F32 (replicate 3 (Fin 0))) (vec F32 (replicate 23 (Fin 0))) = Inr ps \<and> length ps = 74 \<and> list_all (\<lambda>x. fin_in x (- 2) 2) ps"
proof -
  have d: "deploy_array [ACTION_DIM] k (vec F32 (replicate 23 (Fin 0))) = Inr (F32, replicate 23 (Fin 0))"
    "deploy_array [4] k (vec F32 [Fin 1, Fin 0, Fin 0, Fin 0]) = Inr (F32, [Fin 1, Fin 0, Fin 0, Fin 0])"
    "deploy_array [3] k (vec F32 (replicate 3 (Fin 0))) = Inr (F32, replicate 3 (Fin 0))" for k
    by (simp_all add: deploy_array_def ACTION_DIM_def)
  have s: "mul_in F32 (Fin 0) (cast_in F32 ANGULAR_VELOCITY_SCALE) = Fin 0" "mul_in F32 (Fin 0) (cast_in F32 DOF_VELOCITY_SCALE) = Fin 0"
    using still_scale[of 5] still_scale[of 1] f64_rep_round[of "1 / 4"] by (simp_all add: ANGULAR_VELOCITY_SCALE_def DOF_VELOCITY_SCALE_def)
  define offsets where "offsets = map (\<lambda>x. f64_mul x DOF_POSITION_SCALE) (map2 f64_sub (replicate 23 (Fin 0)) DEFAULT_DOF_POSITION)"
  have o: "length offsets = 23" "list_all (\<lambda>x. fin_in x (- 2) 2) offsets"
    using still_offsets default_position unfolding offsets_def list_all_iff by (simp_all del: set_map)
  show ?thesis
    unfolding build_proprioception_def d bindE_simps prod.case still_euler zero_at_zeros Let_def offsets_def[symmetric] map_replicate s
    using o by (simp add: PROPRIOCEPTION_DIM_def fin_in_iff)
qed

lemma still_prepare: "\<exists>p s. session_prepare still_math still_actor still_boundary still_window (session_reset 0) = Inr (p, s) \<and>
    session_commit p (vec F32 (replicate 23 (Fin 0))) s \<noteq> Inl CommitMismatch \<and> (\<exists>s'. session_commit p (vec F32 (replicate 23 (Fin 0))) s = Inr s')"
proof -
  obtain ps where ps: "build_proprioception still_math (vec F32 (replicate 23 (Fin 0))) (vec F32 (replicate 23 (Fin 0))) (vec F32 [Fin 1, Fin 0, Fin 0, Fin 0])
     (vec F32 (replicate 3 (Fin 0))) (vec F32 (replicate 23 (Fin 0))) = Inr ps" "length ps = 74" "list_all (\<lambda>x. fin_in x (- 2) 2) ps"
    using still_proprioception by blast
  have f: "list_all is_finite ps" "list_all is_finite (map to_f32 ps)"
    using ps(3) small_f32 by (auto simp: list_all_iff fin_in_def)
  define obs where "obs = map to_f32 (replicate 600 (Fin 0) @ ps @ concat empty_history)"
  have ce: "concat empty_history = replicate 1480 (Fin 0)"
    by (simp add: empty_history_def HISTORY_LENGTH_def PROPRIOCEPTION_DIM_def numeral_eq_Suc)
  have obs: "length obs = 2154" "list_all is_finite obs"
    using f(2) ps(2) by (simp_all add: obs_def ce f32_rep_round)
  have asm: "assemble empty_history (NpArray F32 [REFERENCE_HORIZON, REFERENCE_FRAME_DIM] True (replicate 600 (Fin 0))) (vec F64 ps) = Inr obs"
    using ps(2) f(1) obs(1) by (simp add: assemble_def deploy_array_def PROPRIOCEPTION_DIM_def OBSERVATION_DIM_def Let_def obs_def)
  have w: "exact_array F32 [REFERENCE_HORIZON, REFERENCE_FRAME_DIM] ''reference window'' still_window = Inr (replicate 600 (Fin 0))"
    by (simp add: exact_array_def still_window_def REFERENCE_HORIZON_def REFERENCE_FRAME_DIM_def)
  define p where "p = \<lparr>pc_control_step = 0, pc_proprio = ps, pc_obs = obs, pc_base_raw = replicate 23 (Fin 0), pc_identity = 0\<rparr>"
  have mk: "mk_prepared (PInt 0) (vec F64 ps) (vec F32 obs) (vec F32 (replicate 23 (Fin 0))) 0 = Inr p"
    using ps(2) f(1) obs by (simp add: mk_prepared_def nonnegative_integer_def exact_array_def PROPRIOCEPTION_DIM_def OBSERVATION_DIM_def ACTION_DIM_def p_def)
  have prep: "session_prepare still_math still_actor still_boundary still_window (session_reset 0) =
      Inr (p, session_reset 0\<lparr>as_pending := Some p, as_prepared := 1\<rparr>)"
    using w ps(1) asm mk
    by (simp add: session_prepare_def session_reset_def still_boundary_def still_joints ACTION_DIM_def still_actor_def)
  have "session_commit p (vec F32 (replicate 23 (Fin 0))) (session_reset 0\<lparr>as_pending := Some p, as_prepared := 1\<rparr>) \<noteq> Inl CommitMismatch \<and>
    (\<exists>s'. session_commit p (vec F32 (replicate 23 (Fin 0))) (session_reset 0\<lparr>as_pending := Some p, as_prepared := 1\<rparr>) = Inr s')"
    using ps(2) f(1)
    by (simp add: session_commit_def exact_array_def ACTION_DIM_def history_append_def deploy_array_def PROPRIOCEPTION_DIM_def p_def)
  with prep show ?thesis by blast
qed

theorem history_is_window_witness:
  "\<exists>p s s'. session_prepare still_math still_actor still_boundary still_window (session_reset 0) = Inr (p, s) \<and>
     session_commit p (vec F32 (replicate 23 (Fin 0))) s = Inr s' \<and>
     as_history s' = replicate 19 (replicate 74 (Fin 0)) @ [pc_proprio p] \<and> as_expected_step s' = 1"
proof -
  obtain p s s' where ps: "session_prepare still_math still_actor still_boundary still_window (session_reset 0) = Inr (p, s)"
    "session_commit p (vec F32 (replicate 23 (Fin 0))) s = Inr s'"
    using still_prepare by blast
  have "session_at still_math still_actor s' ([] @ [pc_proprio p])"
    using session_at.start ps by (blast intro: session_at.prepared session_at.committed)
  from history_is_window[OF this] ps show ?thesis by (auto simp: drop_replicate)
qed

end
