(* ===== verification/ReferenceClip.thy ===== *)
theory ReferenceClip
  imports GmtControl
begin

text \<open>
  Playback of a reference motion (\<open>adapters/gmt/reference_math.py\<close> and \<open>reference_runtime.py\<close>): the
  quaternion functions on float32 tensors, the derived velocities of a clip, sampling with wrap-around
  and interpolation, and the feature rows a controller tracks.  A tensor of shape \<open>[n, k]\<close> is the list of
  its \<open>n\<close> rows.  Addition, multiplication, division and comparison of elements are those of binary32;
  a Python number that meets a tensor is rounded to binary32 first.
\<close>

section \<open>Parameters and errors\<close>

text \<open>
  Of torch: the transcendental functions, the sum of a row, the inner and the cross product of rows of
  three, and the convolution with a box of width 19.
\<close>

record torch =
  t_sqrt :: "f64 \<Rightarrow> f64"
  t_sin :: "f64 \<Rightarrow> f64"
  t_cos :: "f64 \<Rightarrow> f64"
  t_acos :: "f64 \<Rightarrow> f64"
  t_asin :: "f64 \<Rightarrow> f64"
  t_atan2 :: "f64 \<Rightarrow> f64 \<Rightarrow> f64"
  t_sum :: "f64 list \<Rightarrow> f64"
  t_dot :: "f64 list \<Rightarrow> f64 list \<Rightarrow> f64"
  t_cross :: "f64 list \<Rightarrow> f64 list \<Rightarrow> f64 list"
  t_box :: "f64 list list \<Rightarrow> f64 list list"

datatype clip_error =
    QuaternionShapes | QuaternionWidth | SlerpShapes | SlerpBlend | RotateQuaternion | RotateVector | BoxShape
  | FpsScalar | RootPositionShape | TooFewFrames | RootRotationShape | JointShape | DerivedNotFinite
  | TimesNotFinite | FrameIndex | FeatureShape | FeaturesNotFinite | NegativeStep | WindowShape | StepOverflow

type_synonym rows = "f64 list list"

section \<open>Elements\<close>

text \<open>A zero divisor is the positive zero: the divisors are durations and square roots.\<close>

fun f32_div :: "f64 \<Rightarrow> f64 \<Rightarrow> f64" where
  "f32_div (Fin a) (Fin b) = (if b = 0 then (if a = 0 then NaN else if 0 < a then PosInf else NegInf) else f32_round (a / b))"
| "f32_div (Fin a) PosInf = Fin 0"
| "f32_div (Fin a) NegInf = Fin 0"
| "f32_div PosInf (Fin b) = (if 0 \<le> b then PosInf else NegInf)"
| "f32_div NegInf (Fin b) = (if 0 \<le> b then NegInf else PosInf)"
| "f32_div _ _ = NaN"

fun f32_floor :: "f64 \<Rightarrow> f64" where
  "f32_floor (Fin q) = Fin (of_int \<lfloor>q\<rfloor>)"
| "f32_floor x = x"

section \<open>Quaternions\<close>

definition wide :: "nat \<Rightarrow> rows \<Rightarrow> bool" where
  "wide k v \<longleftrightarrow> list_all (\<lambda>r. length r = k) v"

definition multiply_row :: "f64 list \<Rightarrow> f64 list \<Rightarrow> f64 list" where
  "multiply_row left right = (let
     x1 = left ! 0; y1 = left ! 1; z1 = left ! 2; w1 = left ! 3;
     x2 = right ! 0; y2 = right ! 1; z2 = right ! 2; w2 = right ! 3;
     ww = f32_mul (f32_add z1 x1) (f32_add x2 y2);
     yy = f32_mul (f32_sub w1 y1) (f32_add w2 z2);
     zz = f32_mul (f32_add w1 y1) (f32_sub w2 z2);
     xx = f32_add (f32_add ww yy) zz;
     qq = f32_mul (Fin (1 / 2)) (f32_add xx (f32_mul (f32_sub z1 x1) (f32_sub x2 y2)));
     w = f32_add (f32_sub qq ww) (f32_mul (f32_sub z1 y1) (f32_sub y2 z2));
     x = f32_add (f32_sub qq xx) (f32_mul (f32_add x1 w1) (f32_add x2 w2));
     y = f32_add (f32_sub qq yy) (f32_mul (f32_sub w1 x1) (f32_add y2 z2));
     z = f32_add (f32_sub qq zz) (f32_mul (f32_add z1 y1) (f32_sub w2 x2))
   in [x, y, z, w])"

definition quaternion_multiply_xyzw :: "rows \<Rightarrow> rows \<Rightarrow> clip_error + rows" where
  "quaternion_multiply_xyzw left right = (if map length left \<noteq> map length right then Inl QuaternionShapes
     else if \<not> wide 4 left then Inl QuaternionWidth
     else Inr (map2 multiply_row left right))"

definition quaternion_conjugate_xyzw :: "rows \<Rightarrow> clip_error + rows" where
  "quaternion_conjugate_xyzw v = (if \<not> wide 4 v then Inl QuaternionWidth
     else Inr (map (\<lambda>q. map f64_neg (take 3 q) @ drop 3 q) v))"

definition quaternion_difference_xyzw :: "rows \<Rightarrow> rows \<Rightarrow> clip_error + rows" where
  "quaternion_difference_xyzw start end' = bindE (quaternion_conjugate_xyzw start) (quaternion_multiply_xyzw end')"

definition normalize_angle :: "torch \<Rightarrow> f64 \<Rightarrow> f64" where
  "normalize_angle T a = t_atan2 T (t_sin T a) (t_cos T a)"

definition angle_axis_row :: "torch \<Rightarrow> f64 list \<Rightarrow> f64 \<times> f64 list" where
  "angle_axis_row T q = (let
     sin_theta = t_sqrt T (f32_sub (Fin 1) (f32_mul (q ! 3) (q ! 3)));
     angle = normalize_angle T (f32_mul (Fin 2) (t_acos T (q ! 3)));
     axis = map (\<lambda>v. f32_div v sin_theta) (take 3 q);
     mask = f64_lt (f32_round (1 / 100000)) (f64_abs sin_theta)
   in (if mask then angle else Fin 0, if mask then axis else [Fin 0, Fin 0, Fin 1]))"

definition quaternion_to_angle_axis_xyzw :: "torch \<Rightarrow> rows \<Rightarrow> clip_error + (f64 \<times> f64 list) list" where
  "quaternion_to_angle_axis_xyzw T v = (if \<not> wide 4 v then Inl QuaternionWidth else Inr (map (angle_axis_row T) v))"

definition quaternion_to_exponential_map_xyzw :: "torch \<Rightarrow> rows \<Rightarrow> clip_error + rows" where
  "quaternion_to_exponential_map_xyzw T v = bindE (quaternion_to_angle_axis_xyzw T v) (\<lambda>aa.
     Inr (map (\<lambda>(angle, axis). map (f32_mul angle) axis) aa))"

definition slerp_row :: "torch \<Rightarrow> f64 list \<Rightarrow> f64 list \<Rightarrow> f64 \<Rightarrow> f64 list" where
  "slerp_row T start end' blend = (let
     signed = t_sum T (map2 f32_mul start end');
     end'' = (if f64_lt signed (Fin 0) then map f64_neg end' else end');
     cosine = f64_abs signed;
     half_theta = t_acos T cosine;
     sin_half_theta = t_sqrt T (f32_sub (Fin 1) (f32_mul cosine cosine));
     ratio_start = f32_div (t_sin T (f32_mul (f32_sub (Fin 1) blend) half_theta)) sin_half_theta;
     ratio_end = f32_div (t_sin T (f32_mul blend half_theta)) sin_half_theta;
     result = map2 (\<lambda>s e. f32_add (f32_mul ratio_start s) (f32_mul ratio_end e)) start end'';
     middle = map2 (\<lambda>s e. f32_add (f32_mul (Fin (1 / 2)) s) (f32_mul (Fin (1 / 2)) e)) start end''
   in if f64_le (Fin 1) (f64_abs cosine) then start
      else if f64_lt (f64_abs sin_half_theta) (f32_round (1 / 1000)) then middle else result)"

definition slerp_xyzw :: "torch \<Rightarrow> rows \<Rightarrow> rows \<Rightarrow> f64 list \<Rightarrow> clip_error + rows" where
  "slerp_xyzw T start end' blend = (if map length start \<noteq> map length end' then Inl SlerpShapes
     else if \<not> wide 4 start then Inl QuaternionWidth
     else if length blend \<noteq> length start then Inl SlerpBlend
     else Inr (map (\<lambda>(s, e, b). slerp_row T s e b) (zip start (zip end' blend))))"

definition inverse_rotate_row :: "torch \<Rightarrow> f64 list \<Rightarrow> f64 list \<Rightarrow> f64 list" where
  "inverse_rotate_row T q vector = (let
     scalar = q ! 3; xyz = take 3 q;
     first = map (\<lambda>v. f32_mul v (f32_sub (f32_mul (Fin 2) (f32_mul scalar scalar)) (Fin 1))) vector;
     second = map (\<lambda>v. f32_mul (f32_mul v scalar) (Fin 2)) (t_cross T xyz vector);
     third = map (\<lambda>v. f32_mul (f32_mul v (t_dot T xyz vector)) (Fin 2)) xyz
   in map2 f32_add (map2 f32_sub first second) third)"

definition inverse_rotate_xyzw :: "torch \<Rightarrow> rows \<Rightarrow> rows \<Rightarrow> clip_error + rows" where
  "inverse_rotate_xyzw T quaternion vector = (if \<not> wide 4 quaternion then Inl RotateQuaternion
     else if length vector \<noteq> length quaternion \<or> \<not> wide 3 vector then Inl RotateVector
     else Inr (map2 (inverse_rotate_row T) quaternion vector))"

definition euler_row :: "torch \<Rightarrow> f64 list \<Rightarrow> f64 list" where
  "euler_row T q = (let
     x = q ! 0; y = q ! 1; z = q ! 2; w = q ! 3;
     roll = t_atan2 T (f32_mul (Fin 2) (f32_add (f32_mul w x) (f32_mul y z)))
       (f32_sub (Fin 1) (f32_mul (Fin 2) (f32_add (f32_mul x x) (f32_mul y y))));
     pitch_argument = clip_to (Fin (- 1)) (Fin 1) (f32_mul (Fin 2) (f32_sub (f32_mul w y) (f32_mul z x)));
     yaw = t_atan2 T (f32_mul (Fin 2) (f32_add (f32_mul w z) (f32_mul x y)))
       (f32_sub (Fin 1) (f32_mul (Fin 2) (f32_add (f32_mul y y) (f32_mul z z))))
   in [roll, t_asin T pitch_argument, yaw])"

definition quaternion_to_euler_xyzw :: "torch \<Rightarrow> rows \<Rightarrow> clip_error + rows" where
  "quaternion_to_euler_xyzw T v = (if \<not> wide 4 v then Inl QuaternionWidth else Inr (map (euler_row T) v))"

definition box_smooth :: "torch \<Rightarrow> rows \<Rightarrow> clip_error + rows" where
  "box_smooth T values = (if values = [] then Inl BoxShape else Inr (t_box T values))"

section \<open>A reference motion\<close>

text \<open>The four arrays of a converted clip: shapes and elements.\<close>

record clip_arrays =
  ca_fps :: "f64 list"
  ca_root_pos :: "nat list \<times> f64 list"
  ca_root_rot :: "nat list \<times> f64 list"
  ca_dof_pos :: "nat list \<times> f64 list"

record motion =
  mo_fps :: f64
  mo_root_position :: rows
  mo_root_rotation :: rows
  mo_dof_position :: rows
  mo_frame_count :: nat
  mo_duration :: f64
  mo_root_velocity :: rows
  mo_root_angular_velocity :: rows
  mo_dof_velocity :: rows

fun rows_of :: "nat \<Rightarrow> nat \<Rightarrow> 'a list \<Rightarrow> 'a list list" where
  "rows_of 0 k xs = []"
| "rows_of (Suc n) k xs = take k xs # rows_of n k (drop k xs)"

text \<open>The velocity of the last frame repeats the one before it.\<close>

definition linear_velocity :: "torch \<Rightarrow> f64 \<Rightarrow> rows \<Rightarrow> clip_error + rows" where
  "linear_velocity T fps values =
     (let d = map2 (\<lambda>next cur. map2 (\<lambda>a b. f32_mul fps (f32_sub a b)) next cur) (tl values) (butlast values)
      in box_smooth T (d @ [last d]))"

definition angular_velocity :: "torch \<Rightarrow> f64 \<Rightarrow> rows \<Rightarrow> clip_error + rows" where
  "angular_velocity T fps rotation = bindE (quaternion_difference_xyzw (butlast rotation) (tl rotation)) (\<lambda>delta.
     bindE (quaternion_to_exponential_map_xyzw T delta) (\<lambda>em.
       let d = map (map (f32_mul fps)) em in box_smooth T (d @ [last d])))"

definition rows_finite :: "rows \<Rightarrow> bool" where
  "rows_finite v \<longleftrightarrow> list_all (list_all is_finite) v"

definition mk_motion :: "torch \<Rightarrow> clip_arrays \<Rightarrow> clip_error + motion" where
  "mk_motion T a = (case ca_fps a of
       [fps_item] \<Rightarrow>
         if \<not> is_finite fps_item \<or> f64_le fps_item (Fin 0) then Inl FpsScalar
         else (let
             fps = to_f32 fps_item;
             n = hd (fst (ca_root_pos a));
             position = rows_of n 3 (map to_f32 (snd (ca_root_pos a)));
             rotation = rows_of n 4 (map to_f32 (snd (ca_root_rot a)));
             joints = rows_of n ACTION_DIM (map to_f32 (snd (ca_dof_pos a)))
           in if length (fst (ca_root_pos a)) \<noteq> 2 \<or> fst (ca_root_pos a) ! 1 \<noteq> 3 then Inl RootPositionShape
              else if n < 2 then Inl TooFewFrames
              else if fst (ca_root_rot a) \<noteq> [n, 4] then Inl RootRotationShape
              else if fst (ca_dof_pos a) \<noteq> [n, ACTION_DIM] then Inl JointShape
              else bindE (linear_velocity T fps position) (\<lambda>root_velocity.
                bindE (angular_velocity T fps rotation) (\<lambda>root_angular.
                bindE (linear_velocity T fps joints) (\<lambda>dof_velocity.
                  if \<not> (rows_finite root_velocity \<and> rows_finite root_angular \<and> rows_finite dof_velocity) then Inl DerivedNotFinite
                  else Inr \<lparr>mo_fps = fps, mo_root_position = position, mo_root_rotation = rotation, mo_dof_position = joints,
                      mo_frame_count = n, mo_duration = to_f32 (f64_mul (quotient (Fin 1) fps_item) (f64_round (of_nat (n - 1)))),
                      mo_root_velocity = root_velocity, mo_root_angular_velocity = root_angular,
                      mo_dof_velocity = dof_velocity\<rparr>))))
     | _ \<Rightarrow> Inl FpsScalar)"

section \<open>Sampling\<close>

text \<open>
  The two frames around a time and the weight of the second.  The conversion of a value that is not finite
  to an integer is undefined in C; an index past the end makes the indexing fail.
\<close>

definition frame_index :: "motion \<Rightarrow> f64 \<Rightarrow> clip_error + (nat \<times> nat \<times> f64)" where
  "frame_index m time = (let
     loop_number = f32_floor (f32_div time (mo_duration m));
     wrapped = f32_sub time (f32_mul loop_number (mo_duration m));
     phase = clip_to (Fin 0) (Fin 1) (f32_div wrapped (mo_duration m));
     scaled = f32_mul phase (f32_round (of_nat (mo_frame_count m - 1)))
   in case scaled of
       Fin q \<Rightarrow> (let frame0 = nat \<lfloor>q\<rfloor>; frame1 = min (frame0 + 1) (mo_frame_count m - 1)
         in if mo_frame_count m \<le> frame0 then Inl FrameIndex
            else Inr (frame0, frame1, f32_sub scaled (f32_round (of_nat frame0))))
     | _ \<Rightarrow> Inl FrameIndex)"

record motion_frame =
  mf_root_position :: rows
  mf_root_rotation :: rows
  mf_root_velocity :: rows
  mf_root_angular_velocity :: rows
  mf_dof_position :: rows
  mf_dof_velocity :: rows

definition blend_rows :: "rows \<Rightarrow> nat \<times> nat \<times> f64 \<Rightarrow> f64 list" where
  "blend_rows v i = (case i of (frame0, frame1, blend) \<Rightarrow>
     map2 (\<lambda>p q. f32_add (f32_mul (f32_sub (Fin 1) blend) p) (f32_mul blend q)) (v ! frame0) (v ! frame1))"

definition sample :: "torch \<Rightarrow> motion \<Rightarrow> f64 list \<Rightarrow> clip_error + motion_frame" where
  "sample T m ts = (if \<not> list_all is_finite (map to_f32 ts) then Inl TimesNotFinite
     else bindE (mapE (frame_index m) (map to_f32 ts)) (\<lambda>idx.
       bindE (slerp_xyzw T (map (\<lambda>(i, j, b). mo_root_rotation m ! i) idx) (map (\<lambda>(i, j, b). mo_root_rotation m ! j) idx)
           (map (\<lambda>(i, j, b). b) idx)) (\<lambda>rotation.
         Inr \<lparr>mf_root_position = map (blend_rows (mo_root_position m)) idx, mf_root_rotation = rotation,
              mf_root_velocity = map (\<lambda>(i, j, b). mo_root_velocity m ! i) idx,
              mf_root_angular_velocity = map (\<lambda>(i, j, b). mo_root_angular_velocity m ! i) idx,
              mf_dof_position = map (blend_rows (mo_dof_position m)) idx,
              mf_dof_velocity = map (\<lambda>(i, j, b). mo_dof_velocity m ! i) idx\<rparr>)))"

definition motion_features :: "torch \<Rightarrow> motion \<Rightarrow> f64 list \<Rightarrow> clip_error + rows" where
  "motion_features T m ts = bindE (sample T m ts) (\<lambda>frame.
     bindE (quaternion_to_euler_xyzw T (mf_root_rotation frame)) (\<lambda>euler.
     bindE (inverse_rotate_xyzw T (mf_root_rotation frame) (mf_root_velocity frame)) (\<lambda>velocity.
     bindE (inverse_rotate_xyzw T (mf_root_rotation frame) (mf_root_angular_velocity frame)) (\<lambda>angular.
       let features = map (\<lambda>(p, e, v, a, d). [p ! 2] @ take 2 e @ v @ [a ! 2] @ d)
             (zip (mf_root_position frame) (zip euler (zip velocity (zip angular (mf_dof_position frame)))))
       in if length features \<noteq> length ts \<or> \<not> wide REFERENCE_FRAME_DIM features then Inl FeatureShape
          else if \<not> rows_finite features then Inl FeaturesNotFinite
          else Inr features))))"

definition REFERENCE_OFFSETS :: "nat list" where
  "REFERENCE_OFFSETS = [1, 5, 10, 15, 20, 25, 30, 35, 40, 45, 50, 55, 60, 65, 70, 75, 80, 85, 90, 95]"

definition offset_times :: "f64 list" where
  "offset_times = map (\<lambda>k. f32_mul (Fin (of_nat k)) (to_f32 CONTROL_DT_SECONDS)) REFERENCE_OFFSETS"

definition step_time :: "int \<Rightarrow> clip_error + f64" where
  "step_time control_step = (if control_step < 0 then Inl NegativeStep
     else case float_of_int control_step of None \<Rightarrow> Inl StepOverflow
       | Some t \<Rightarrow> Inr (to_f32 (f64_mul t CONTROL_DT_SECONDS)))"

definition motion_window :: "torch \<Rightarrow> motion \<Rightarrow> int \<Rightarrow> clip_error + rows" where
  "motion_window T m control_step = bindE (step_time control_step) (\<lambda>current_time.
     bindE (motion_features T m (map (f32_add current_time) offset_times)) (\<lambda>features.
       if length features \<noteq> REFERENCE_HORIZON \<or> \<not> wide REFERENCE_FRAME_DIM features then Inl WindowShape else Inr features))"

definition motion_current :: "torch \<Rightarrow> motion \<Rightarrow> int \<Rightarrow> clip_error + f64 list" where
  "motion_current T m control_step = bindE (step_time control_step) (\<lambda>time.
     bindE (motion_features T m [time]) (\<lambda>features. Inr (features ! 0)))"

section \<open>Indices stay inside the clip\<close>

lemma clip_unit:
  assumes "x \<noteq> NaN"
  obtains p where "clip_to (Fin 0) (Fin 1) x = Fin p" "0 \<le> p" "p \<le> 1"
proof -
  have "\<exists>p. clip_to (Fin 0) (Fin 1) x = Fin p \<and> 0 \<le> p \<and> p \<le> 1"
    using assms by (cases x) (auto simp: clip_to_def not_less)
  with that show ?thesis by blast
qed

lemma f32_round_not_NaN [simp]: "f32_round q \<noteq> NaN"
  by (simp add: f32_round_def Let_def)

text \<open>A finite time and a positive finite duration give a phase in the unit interval, also when the
  quotients leave the range of binary32.\<close>

lemma wrapped_not_NaN:
  assumes "0 < d"
  shows "f32_div (f32_sub (Fin t) (f32_mul (f32_floor (f32_div (Fin t) (Fin d))) (Fin d))) (Fin d) \<noteq> NaN"
proof -
  have sub: "f32_sub (Fin t) x \<noteq> NaN" if "x \<noteq> NaN" for x
    using that by (cases x) (simp_all add: f32_sub_def)
  have mul: "f32_mul x (Fin d) \<noteq> NaN" if "x \<noteq> NaN" for x
    using that assms by (cases x) auto
  have floor: "f32_floor x \<noteq> NaN" if "x \<noteq> NaN" for x
    using that by (cases x) auto
  have div: "f32_div x (Fin d) \<noteq> NaN" if "x \<noteq> NaN" for x
    using that assms by (cases x) auto
  show ?thesis by (intro div sub mul floor) simp
qed

lemma f32_rep_of_nat: "n \<le> 2 ^ 24 \<Longrightarrow> f32_rep (of_nat n)"
  using f32_rep_of_int[of "int n"] by simp

lemma frame_index_inside:
  assumes d: "mo_duration m = Fin d" "0 < d" and n: "2 \<le> mo_frame_count m" "mo_frame_count m \<le> 2 ^ 24"
  obtains i j b where "frame_index m (Fin t) = Inr (i, j, Fin b)" "i < mo_frame_count m" "j < mo_frame_count m"
    "i \<le> j" "j \<le> i + 1" "0 \<le> b" "b \<le> 1"
proof -
  let ?n = "mo_frame_count m - 1"
  obtain p where p: "clip_to (Fin 0) (Fin 1) (f32_div (f32_sub (Fin t) (f32_mul (f32_floor (f32_div (Fin t) (Fin d))) (Fin d))) (Fin d)) = Fin p"
    "0 \<le> p" "p \<le> 1"
    using clip_unit[OF wrapped_not_NaN[OF d(2)]] by blast
  have n': "f32_rep (of_nat ?n)" using n by (intro f32_rep_of_nat) simp
  have z: "f32_rep 0" "f32_rep 1" using f32_rep_of_int[of 0] f32_rep_of_int[of 1] by simp_all
  have "p * of_nat ?n \<le> 1 * of_nat ?n" "0 \<le> p * of_nat ?n" using p by (intro mult_right_mono mult_nonneg_nonneg; simp)+
  then obtain q where q: "f32_round (p * of_nat ?n) = Fin q" "0 \<le> q" "q \<le> of_nat ?n"
    using f32_round_in[OF z(1) n', of "p * of_nat ?n"] by (metis mult_1)
  have fl: "nat \<lfloor>q\<rfloor> \<le> ?n" using q(2,3) by (simp add: nat_le_iff floor_le_iff)
  then have fr: "f32_rep (of_nat (nat \<lfloor>q\<rfloor>))" using n by (intro f32_rep_of_nat) simp
  have "of_nat (nat \<lfloor>q\<rfloor>) \<le> q" "q \<le> of_nat (nat \<lfloor>q\<rfloor>) + 1" using q(2) by simp_all linarith
  then obtain b where b: "f32_round (q - of_nat (nat \<lfloor>q\<rfloor>)) = Fin b" "0 \<le> b" "b \<le> 1"
    using f32_round_in[OF z, of "q - of_nat (nat \<lfloor>q\<rfloor>)"] by (metis diff_ge_0_iff_ge diff_le_eq add.commute)
  have "frame_index m (Fin t) = Inr (nat \<lfloor>q\<rfloor>, min (nat \<lfloor>q\<rfloor> + 1) ?n, Fin b)"
    unfolding frame_index_def Let_def d(1) p(1)
    using q(1) b(1) fl n f32_rep_round[OF n'] f32_rep_round[OF fr] by (simp add: f32_sub_def)
  then show ?thesis using fl n b by (intro that[of "nat \<lfloor>q\<rfloor>" "min (nat \<lfloor>q\<rfloor> + 1) ?n" b]) auto
qed

definition index_ok :: "nat \<Rightarrow> nat \<times> nat \<times> f64 \<Rightarrow> bool" where
  "index_ok n i \<longleftrightarrow> (case i of (frame0, frame1, blend) \<Rightarrow>
     frame0 < n \<and> frame1 < n \<and> frame0 \<le> frame1 \<and> frame1 \<le> frame0 + 1 \<and> f64_le (Fin 0) blend \<and> f64_le blend (Fin 1))"

lemma frame_indices_inside:
  assumes "mo_duration m = Fin d" "0 < d" "2 \<le> mo_frame_count m" "mo_frame_count m \<le> 2 ^ 24" "list_all is_finite ts"
  shows "\<exists>idx. mapE (frame_index m) ts = Inr idx \<and> length idx = length ts \<and> list_all (index_ok (mo_frame_count m)) idx"
  using assms(5)
proof (induction ts)
  case (Cons t ts)
  then obtain r idx where t: "t = Fin r" and idx: "mapE (frame_index m) ts = Inr idx" "length idx = length ts"
    "list_all (index_ok (mo_frame_count m)) idx" by (auto simp: is_finite_iff)
  obtain i j b where "frame_index m (Fin r) = Inr (i, j, Fin b)" "index_ok (mo_frame_count m) (i, j, Fin b)"
    using frame_index_inside[OF assms(1-4), of r thesis] by (force simp: index_ok_def)
  with t idx show ?case by simp
qed simp

text \<open>A duration that the code divides by: finite and positive.\<close>

definition runs_for :: "motion \<Rightarrow> bool" where
  "runs_for m \<longleftrightarrow> (\<exists>d. mo_duration m = Fin d \<and> 0 < d)"

definition index_in :: "nat \<Rightarrow> nat \<times> nat \<times> f64 \<Rightarrow> bool" where
  "index_in n i \<longleftrightarrow> fst i < n \<and> fst (snd i) < n"

lemma frame_index_cases: "0 < mo_frame_count m \<Longrightarrow> frame_index m t = Inl FrameIndex \<or> (\<exists>i. frame_index m t = Inr i \<and> index_in (mo_frame_count m) i)"
  by (auto simp: frame_index_def index_in_def Let_def split: f64.split)

lemma frame_indices_cases:
  assumes "0 < mo_frame_count m"
  shows "mapE (frame_index m) ts = Inl FrameIndex \<or>
    (\<exists>idx. mapE (frame_index m) ts = Inr idx \<and> length idx = length ts \<and> list_all (index_in (mo_frame_count m)) idx)"
proof (induction ts)
  case (Cons t ts)
  then show ?case using frame_index_cases[OF assms, of t] by auto
qed simp

text \<open>The duration of an accepted clip is not negative; where it is no positive number, no index is a number.\<close>

lemma f32_round_nonneg: "0 \<le> q \<Longrightarrow> \<not> f64_lt (f32_round q) (Fin 0)"
  using round_to_nonneg[of q 24 "- 149"] pow2_pos[of 128] by (auto simp: f32_round_def round32_def Let_def)

lemma f64_round_not_neg: "0 \<le> q \<Longrightarrow> \<not> f64_lt (f64_round q) (Fin 0)"
  using f64_round_mono[of 0 q] f64_rep_round[OF f64_rep_of_int[of 0]] by (cases "f64_round q") auto

lemma f64_mul_not_neg: "\<not> f64_lt x (Fin 0) \<Longrightarrow> \<not> f64_lt y (Fin 0) \<Longrightarrow> \<not> f64_lt (f64_mul x y) (Fin 0)"
  by (cases x; cases y) (auto simp: not_less intro!: f64_round_not_neg[simplified])

lemma to_f32_not_neg: "\<not> f64_lt x (Fin 0) \<Longrightarrow> \<not> f64_lt (to_f32 x) (Fin 0)"
  by (cases x) (auto simp: not_less f32_round_nonneg)

lemma mk_motion_duration:
  assumes "mk_motion T a = Inr m"
  shows "\<not> f64_lt (mo_duration m) (Fin 0)"
proof -
  obtain fps where f: "ca_fps a = [fps]" using assms by (auto simp: mk_motion_def split: list.splits)
  then have p: "is_finite fps" "\<not> f64_le fps (Fin 0)"
    and m: "mo_duration m = to_f32 (f64_mul (quotient (Fin 1) fps) (f64_round (of_nat (hd (fst (ca_root_pos a)) - 1))))"
    using assms by (auto simp: mk_motion_def Let_def split: if_splits)
  have "\<not> f64_lt (quotient (Fin 1) fps) (Fin 0)"
    using p by (cases fps) (auto simp: quotient_def intro!: f64_round_not_neg)
  then show ?thesis unfolding m by (intro to_f32_not_neg f64_mul_not_neg f64_round_not_neg) simp_all
qed

lemma frame_index_stuck:
  assumes "\<not> f64_lt (mo_duration m) (Fin 0)" "\<not> runs_for m"
  shows "frame_index m (Fin t) = Inl FrameIndex"
proof -
  consider "mo_duration m = Fin 0" | "mo_duration m = PosInf" | "mo_duration m = NaN"
    using assms by (cases "mo_duration m") (auto simp: runs_for_def not_less)
  then show ?thesis
    by cases (auto simp: frame_index_def Let_def clip_to_def f32_sub_def)
qed

section \<open>Shapes\<close>

definition shaped :: "nat \<Rightarrow> nat \<Rightarrow> rows \<Rightarrow> bool" where
  "shaped n k v \<longleftrightarrow> length v = n \<and> wide k v"

text \<open>The cross product of two rows of three is a row of three, and a convolution keeps the shape.\<close>

definition torch_ok :: "torch \<Rightarrow> bool" where
  "torch_ok T \<longleftrightarrow> (\<forall>a b. length a = 3 \<longrightarrow> length b = 3 \<longrightarrow> length (t_cross T a b) = 3) \<and>
     (\<forall>n k v. shaped n k v \<longrightarrow> shaped n k (t_box T v))"

definition arrays_sized :: "clip_arrays \<Rightarrow> bool" where
  "arrays_sized a \<longleftrightarrow> list_all (\<lambda>(shape, data). length data = prod_list shape) [ca_root_pos a, ca_root_rot a, ca_dof_pos a]"

definition motion_shaped :: "motion \<Rightarrow> bool" where
  "motion_shaped m \<longleftrightarrow> 2 \<le> mo_frame_count m \<and>
     list_all (\<lambda>(k, v). shaped (mo_frame_count m) k v)
       [(3, mo_root_position m), (4, mo_root_rotation m), (ACTION_DIM, mo_dof_position m),
        (3, mo_root_velocity m), (3, mo_root_angular_velocity m), (ACTION_DIM, mo_dof_velocity m)]"

lemma wide_set: "wide k v \<longleftrightarrow> (\<forall>r \<in> set v. length r = k)"
  by (simp add: wide_def list_all_iff)

lemma wide_simps [simp]: "wide k []" "wide k (r # v) \<longleftrightarrow> length r = k \<and> wide k v" "wide k (v @ w) \<longleftrightarrow> wide k v \<and> wide k w"
  by (simp_all add: wide_def)

lemma wide_nth: "wide k v \<Longrightarrow> i < length v \<Longrightarrow> length (v ! i) = k"
  by (simp add: wide_set)

lemma rows_of_shaped: "length xs = n * k \<Longrightarrow> shaped n k (rows_of n k xs)"
proof (induction n arbitrary: xs)
  case (Suc n)
  from Suc.prems have "length (drop k xs) = n * k" "length (take k xs) = k" by simp_all
  with Suc.IH[of "drop k xs"] show ?case by (simp add: shaped_def)
qed (simp add: shaped_def)

lemma wide_map2:
  assumes "\<And>a b. length a = k \<Longrightarrow> length b = l \<Longrightarrow> length (f a b) = c" "wide k v" "wide l w"
  shows "wide c (map2 f v w)"
  using assms(2,3) by (induction v w rule: list_induct2') (simp_all add: assms(1))

lemma wide_tl: "wide k v \<Longrightarrow> wide k (tl v) \<and> wide k (butlast v)"
  by (cases v) (auto simp: wide_set dest: in_set_butlastD)

lemma wide_lengths: "wide k v \<Longrightarrow> map length v = replicate (length v) k"
  by (induction v) simp_all

lemma close_shaped:
  assumes "torch_ok T" "shaped n k d" "0 < n" "box_smooth T (d @ [last d]) = Inr v"
  shows "shaped (Suc n) k v"
proof -
  have "d \<noteq> []" using assms(2,3) by (auto simp: shaped_def)
  then have "last d \<in> set d" by simp
  with assms(2) have "shaped (Suc n) k (d @ [last d])" by (simp add: shaped_def wide_set)
  with assms(1,4) show ?thesis by (auto simp: torch_ok_def box_smooth_def)
qed

lemma linear_velocity_shaped:
  assumes T: "torch_ok T" and v: "shaped n k v" "2 \<le> n" and r: "linear_velocity T fps v = Inr w"
  shows "shaped n k w"
proof -
  let ?d = "map2 (\<lambda>next cur. map2 (\<lambda>a b. f32_mul fps (f32_sub a b)) next cur) (tl v) (butlast v)"
  have "wide k ?d" using v(1) wide_tl[of k v] by (intro wide_map2[of k k]) (simp_all add: shaped_def)
  then have "shaped (n - 1) k ?d" using v by (simp add: shaped_def)
  from close_shaped[OF T this] r v(2) show ?thesis by (simp add: linear_velocity_def Let_def)
qed

lemma exponential_row: "length q = 4 \<Longrightarrow> length (snd (angle_axis_row T q)) = 3"
  by (simp add: angle_axis_row_def Let_def)

lemma angular_velocity_shaped:
  assumes T: "torch_ok T" and v: "shaped n 4 v" "2 \<le> n" and r: "angular_velocity T fps v = Inr w"
  shows "shaped n 3 w"
proof -
  let ?c = "map (\<lambda>q. map f64_neg (take 3 q) @ drop 3 q) (butlast v)"
  let ?delta = "map2 multiply_row (tl v) ?c"
  let ?em = "map (\<lambda>(angle, axis). map (f32_mul angle) axis) (map (angle_axis_row T) ?delta)"
  have c: "wide 4 ?c" using v(1) wide_tl[of 4 v] by (auto simp: shaped_def wide_set)
  have "wide 4 ?delta" using v(1) wide_tl[of 4 v] c
    by (intro wide_map2[of 4 4]) (simp_all add: shaped_def multiply_row_def Let_def)
  then have delta: "shaped (n - 1) 4 ?delta" using v by (simp add: shaped_def)
  have lens: "map length (tl v) = map length ?c"
    using v(1) wide_tl[of 4 v] wide_lengths[OF c] wide_lengths[of 4 "tl v"] by (simp add: shaped_def)
  have em: "shaped (n - 1) 3 (map (map (f32_mul fps)) ?em)"
    using delta exponential_row by (auto simp: shaped_def wide_set split_beta)
  have "angular_velocity T fps v = box_smooth T (map (map (f32_mul fps)) ?em @ [last (map (map (f32_mul fps)) ?em)])"
    using v(1) wide_tl[of 4 v] lens delta
    by (simp add: angular_velocity_def quaternion_difference_xyzw_def quaternion_conjugate_xyzw_def quaternion_multiply_xyzw_def
        quaternion_to_exponential_map_xyzw_def quaternion_to_angle_axis_xyzw_def shaped_def Let_def)
  with close_shaped[OF T em] r v(2) show ?thesis by simp
qed

lemma mk_motion_shaped:
  assumes T: "torch_ok T" and a: "arrays_sized a" and m: "mk_motion T a = Inr m"
  shows "motion_shaped m"
proof -
  obtain fps_item where f: "ca_fps a = [fps_item]" using m by (auto simp: mk_motion_def split: list.splits)
  have "length (fst (ca_root_pos a)) = 2 \<and> fst (ca_root_pos a) ! 1 = 3"
    using m by (auto simp: mk_motion_def f Let_def split: if_splits)
  then obtain n where p: "fst (ca_root_pos a) = [n, 3]" by (cases "fst (ca_root_pos a)") (auto simp: length_Suc_conv)
  have sh: "2 \<le> n" "fst (ca_root_rot a) = [n, 4]" "fst (ca_dof_pos a) = [n, ACTION_DIM]"
    using m by (auto simp: mk_motion_def f p Let_def split: if_splits)
  have rows: "shaped n 3 (rows_of n 3 (map to_f32 (snd (ca_root_pos a))))" "shaped n 4 (rows_of n 4 (map to_f32 (snd (ca_root_rot a))))"
    "shaped n ACTION_DIM (rows_of n ACTION_DIM (map to_f32 (snd (ca_dof_pos a))))"
    using a sh p by (auto simp: arrays_sized_def split_beta intro!: rows_of_shaped)
  from m sh show ?thesis
    unfolding mk_motion_def f p Let_def
    by (auto simp: bindE_eq_Inr motion_shaped_def split: if_splits
        intro: rows linear_velocity_shaped[OF T rows(1) sh(1)] linear_velocity_shaped[OF T rows(3) sh(1)]
          angular_velocity_shaped[OF T rows(2) sh(1)])
qed

lemma motion_shapedD:
  assumes "motion_shaped m"
  shows "2 \<le> mo_frame_count m" "shaped (mo_frame_count m) 3 (mo_root_position m)" "shaped (mo_frame_count m) 4 (mo_root_rotation m)"
    "shaped (mo_frame_count m) ACTION_DIM (mo_dof_position m)" "shaped (mo_frame_count m) 3 (mo_root_velocity m)"
    "shaped (mo_frame_count m) 3 (mo_root_angular_velocity m)" "shaped (mo_frame_count m) ACTION_DIM (mo_dof_velocity m)"
  using assms by (simp_all add: motion_shaped_def)

lemma pick_rows:
  assumes "shaped n k v" "list_all (index_in n) idx"
  shows "shaped (length idx) k (map (\<lambda>(i, j, b). v ! i) idx)" "shaped (length idx) k (map (\<lambda>(i, j, b). v ! j) idx)"
    "shaped (length idx) k (map (blend_rows v) idx)"
  using assms by (auto simp: shaped_def wide_set list_all_iff index_in_def blend_rows_def min_def)

lemma slerp_shaped:
  assumes "shaped n 4 s" "shaped n 4 e" "length b = n"
  shows "\<exists>r. slerp_xyzw T s e b = Inr r \<and> shaped n 4 r"
proof -
  have one: "length (slerp_row T x y c) = 4" if "length x = 4" "length y = 4" for x y c
    using that by (simp add: slerp_row_def Let_def)
  have "wide 4 (map (\<lambda>(s, e, b). slerp_row T s e b) (zip s (zip e b)))"
    using assms one by (auto simp: shaped_def wide_set in_set_zip)
  then show ?thesis using assms by (auto simp: slerp_xyzw_def shaped_def wide_lengths)
qed

lemma inverse_rotate_shaped:
  assumes "torch_ok T" "shaped n 4 q" "shaped n 3 v"
  shows "\<exists>r. inverse_rotate_xyzw T q v = Inr r \<and> shaped n 3 r"
proof -
  have "length (inverse_rotate_row T a b) = 3" if "length a = 4" "length b = 3" for a b
    using that assms(1) by (simp add: inverse_rotate_row_def Let_def torch_ok_def)
  then have "wide 3 (map2 (inverse_rotate_row T) q v)"
    using assms(2,3) by (intro wide_map2[of 4 3]) (simp_all add: shaped_def)
  then show ?thesis using assms by (auto simp: inverse_rotate_xyzw_def shaped_def)
qed

lemma euler_shaped: "shaped n 4 q \<Longrightarrow> \<exists>r. quaternion_to_euler_xyzw T q = Inr r \<and> shaped n 3 r"
  by (auto simp: quaternion_to_euler_xyzw_def shaped_def wide_set euler_row_def Let_def)

text \<open>The features at finite times fail only where an index is no number, or for a value that is not finite.\<close>

lemma motion_features_cases:
  assumes T: "torch_ok T" and m: "motion_shaped m" and t: "list_all is_finite (map to_f32 ts)"
  shows "(motion_features T m ts = Inl FrameIndex \<and> mapE (frame_index m) (map to_f32 ts) = Inl FrameIndex) \<or>
     (\<exists>idx. mapE (frame_index m) (map to_f32 ts) = Inr idx) \<and> (motion_features T m ts = Inl FeaturesNotFinite \<or>
     (\<exists>v. motion_features T m ts = Inr v \<and> shaped (length ts) REFERENCE_FRAME_DIM v \<and> rows_finite v))"
proof -
  note sh = motion_shapedD[OF m]
  have n: "0 < mo_frame_count m" using sh(1) by simp
  from frame_indices_cases[OF n, of "map to_f32 ts"] show ?thesis
  proof
    assume "mapE (frame_index m) (map to_f32 ts) = Inl FrameIndex"
    then show ?thesis using t by (simp add: motion_features_def sample_def)
  next
    assume "\<exists>idx. mapE (frame_index m) (map to_f32 ts) = Inr idx \<and> length idx = length (map to_f32 ts) \<and>
      list_all (index_in (mo_frame_count m)) idx"
    then obtain idx where idx: "mapE (frame_index m) (map to_f32 ts) = Inr idx" "length idx = length ts"
      "list_all (index_in (mo_frame_count m)) idx" by auto
    let ?l = "length ts"
    note pick = pick_rows[OF _ idx(3), unfolded idx(2)]
    obtain rot where rot: "slerp_xyzw T (map (\<lambda>(i, j, b). mo_root_rotation m ! i) idx) (map (\<lambda>(i, j, b). mo_root_rotation m ! j) idx)
        (map (\<lambda>(i, j, b). b) idx) = Inr rot" "shaped ?l 4 rot"
      using slerp_shaped[OF pick(1)[OF sh(3)] pick(2)[OF sh(3)], of "map (\<lambda>(i, j, b). b) idx" T] idx(2) by auto
    obtain euler where e: "quaternion_to_euler_xyzw T rot = Inr euler" "shaped ?l 3 euler" using euler_shaped[OF rot(2)] by blast
    obtain vel where v: "inverse_rotate_xyzw T rot (map (\<lambda>(i, j, b). mo_root_velocity m ! i) idx) = Inr vel" "shaped ?l 3 vel"
      using inverse_rotate_shaped[OF T rot(2) pick(1)[OF sh(5)]] by blast
    obtain ang where w: "inverse_rotate_xyzw T rot (map (\<lambda>(i, j, b). mo_root_angular_velocity m ! i) idx) = Inr ang" "shaped ?l 3 ang"
      using inverse_rotate_shaped[OF T rot(2) pick(1)[OF sh(6)]] by blast
    let ?F = "map (\<lambda>(p, e, v, a, d). [p ! 2] @ take 2 e @ v @ [a ! 2] @ d)
       (zip (map (blend_rows (mo_root_position m)) idx) (zip euler (zip vel (zip ang (map (blend_rows (mo_dof_position m)) idx)))))"
    have F: "shaped ?l REFERENCE_FRAME_DIM ?F"
      using pick(3)[OF sh(2)] pick(3)[OF sh(4)] e(2) v(2) w(2)
      by (auto simp: shaped_def wide_set ACTION_DIM_def REFERENCE_FRAME_DIM_def in_set_zip)
    have "motion_features T m ts = (if \<not> rows_finite ?F then Inl FeaturesNotFinite else Inr ?F)"
      using t F unfolding motion_features_def sample_def idx(1) Let_def by (simp add: rot(1) e(1) v(1) w(1) shaped_def)
    with F idx(1) show ?thesis by auto
  qed
qed

lemma motion_features_total:
  assumes T: "torch_ok T" and m: "motion_shaped m" and d: "mo_duration m = Fin d" "0 < d" and n: "mo_frame_count m \<le> 2 ^ 24"
    and t: "list_all is_finite (map to_f32 ts)"
  shows "motion_features T m ts = Inl FeaturesNotFinite \<or>
     (\<exists>v. motion_features T m ts = Inr v \<and> shaped (length ts) REFERENCE_FRAME_DIM v \<and> rows_finite v)"
  using motion_features_cases[OF T m t] frame_indices_inside[OF d motion_shapedD(1)[OF m] n t] by auto

text \<open>
  C25. A window of any accepted clip fails only for a negative step, a step or a time beyond the floats, a
  feature that is not finite, or, in a clip whose duration in binary32 is no positive finite number or which has
  more frames than binary32 counts exactly, an index outside the clip.  No shape check fires.  A window that is
  returned has 20 rows of 30 finite numbers, and comes from a clip of positive finite duration: where the duration
  is infinite, as of a still clip with a tiny frame rate, every window fails.
\<close>

theorem window_failures:
  assumes T: "torch_ok T" and a: "arrays_sized a" and m: "mk_motion T a = Inr m"
  shows "case motion_window T m k of
      Inl e \<Rightarrow> e = NegativeStep \<and> k < 0 \<or> e = StepOverflow \<and> float_of_int k = None \<or>
        e = TimesNotFinite \<and> \<not> list_all is_finite (map (\<lambda>x. to_f32 (f32_add (projr (step_time k)) x)) offset_times) \<or>
        e = FrameIndex \<and> (\<not> runs_for m \<or> 2 ^ 24 < mo_frame_count m) \<or>
        e = FeaturesNotFinite \<and> runs_for m
    | Inr v \<Rightarrow> 0 \<le> k \<and> runs_for m \<and> length v = 20 \<and> (\<forall>r \<in> set v. length r = 30 \<and> list_all is_finite r)"
proof -
  consider e where "step_time k = Inl e" "e = NegativeStep \<and> k < 0 \<or> e = StepOverflow \<and> float_of_int k = None"
    | t where "step_time k = Inr t" "0 \<le> k"
    by (cases "k < 0"; cases "float_of_int k") (auto simp: step_time_def)
  then show ?thesis
  proof cases
    case 1
    then show ?thesis by (auto simp: motion_window_def)
  next
    case (2 t)
    let ?ts = "map (f32_add t) offset_times"
    have len: "length ?ts = REFERENCE_HORIZON" by (simp add: offset_times_def REFERENCE_OFFSETS_def REFERENCE_HORIZON_def)
    show ?thesis
    proof (cases "list_all is_finite (map to_f32 ?ts)")
      case True
      note shaped = mk_motion_shaped[OF T a m]
      have stuck: "runs_for m" if "mapE (frame_index m) (map to_f32 ?ts) = Inr idx" for idx
      proof (rule ccontr)
        assume "\<not> runs_for m"
        moreover obtain x xs where x: "map to_f32 ?ts = x # xs" by (simp add: offset_times_def REFERENCE_OFFSETS_def)
        moreover have "is_finite x" using True unfolding x by simp
        ultimately show False using that frame_index_stuck[OF mk_motion_duration[OF m]] by (auto simp: is_finite_iff)
      qed
      have inside: "\<not> runs_for m \<or> 2 ^ 24 < mo_frame_count m" if "mapE (frame_index m) (map to_f32 ?ts) = Inl FrameIndex"
        using that frame_indices_inside[OF _ _ motion_shapedD(1)[OF shaped] _ True] by (force simp: runs_for_def)
      from motion_features_cases[OF T shaped True] show ?thesis
      proof (elim disjE conjE exE)
        assume f: "motion_features T m ?ts = Inl FrameIndex" "mapE (frame_index m) (map to_f32 ?ts) = Inl FrameIndex"
        then show ?thesis using 2 inside by (simp add: motion_window_def)
      qed (use 2 len stuck in \<open>auto simp: motion_window_def shaped_def wide_set REFERENCE_HORIZON_def REFERENCE_FRAME_DIM_def rows_finite_def list_all_iff\<close>)
    next
      case False
      then have "motion_features T m ?ts = Inl TimesNotFinite" by (simp add: motion_features_def sample_def)
      then show ?thesis using 2 False by (simp add: motion_window_def o_def)
    qed
  qed
qed


section \<open>Witness\<close>

text \<open>A clip of two equal frames, one second apart.\<close>

definition still_torch :: torch where
  "still_torch = \<lparr>t_sqrt = (\<lambda>_. Fin 0), t_sin = (\<lambda>_. Fin 0), t_cos = (\<lambda>_. Fin 1), t_acos = (\<lambda>_. Fin 0), t_asin = (\<lambda>_. Fin 0),
     t_atan2 = (\<lambda>_ _. Fin 0), t_sum = (\<lambda>_. Fin 1), t_dot = (\<lambda>_ _. Fin 0), t_cross = (\<lambda>_ _. replicate 3 (Fin 0)), t_box = (\<lambda>v. v)\<rparr>"

definition still_arrays :: clip_arrays where
  "still_arrays = \<lparr>ca_fps = [Fin 1], ca_root_pos = ([2, 3], replicate (2 * 3) (Fin 0)), ca_root_rot = ([2, 4], replicate (2 * 4) (Fin 0)),
     ca_dof_pos = ([2, ACTION_DIM], replicate (2 * ACTION_DIM) (Fin 0))\<rparr>"

definition still_clip :: motion where
  "still_clip = \<lparr>mo_fps = Fin 1, mo_root_position = replicate 2 (replicate 3 (Fin 0)), mo_root_rotation = replicate 2 (replicate 4 (Fin 0)),
     mo_dof_position = replicate 2 (replicate ACTION_DIM (Fin 0)), mo_frame_count = 2, mo_duration = Fin 1,
     mo_root_velocity = replicate 2 (replicate 3 (Fin 0)), mo_root_angular_velocity = replicate 2 (replicate 3 (Fin 0)),
     mo_dof_velocity = replicate 2 (replicate ACTION_DIM (Fin 0))\<rparr>"

lemma rows_of_replicate: "rows_of n k (replicate (n * k) x) = replicate n (replicate k x)"
  by (induction n) simp_all

lemma f32_round_0 [simp]: "f32_round 0 = Fin 0"
  using f32_rep_round[OF f32_rep_of_int[of 0]] by simp

lemma f32_round_minus_1 [simp]: "f32_round (- 1) = Fin (- 1)"
  using f32_rep_round[OF f32_rep_of_int[of "- 1"]] by simp

lemma f32_round_1 [simp]: "f32_round 1 = Fin 1"
  using f32_rep_round[OF f32_rep_of_int[of 1]] by simp

lemma still_torch_ok: "torch_ok still_torch"
  by (simp add: torch_ok_def still_torch_def)

lemma still_arrays_sized: "arrays_sized still_arrays"
  by (simp add: arrays_sized_def still_arrays_def)

lemma still_linear: "linear_velocity still_torch (Fin 1) (replicate 2 (replicate k (Fin 0))) = Inr (replicate 2 (replicate k (Fin 0)))"
  by (simp add: linear_velocity_def Let_def box_smooth_def still_torch_def numeral_2_eq_2 f32_sub_def map2_map_map zip_same_conv_map map_replicate_const)

lemma still_angular: "angular_velocity still_torch (Fin 1) (replicate 2 (replicate 4 (Fin 0))) = Inr (replicate 2 (replicate 3 (Fin 0)))"
  by (simp add: angular_velocity_def Let_def box_smooth_def still_torch_def quaternion_difference_xyzw_def quaternion_conjugate_xyzw_def
      quaternion_multiply_xyzw_def quaternion_to_exponential_map_xyzw_def quaternion_to_angle_axis_xyzw_def angle_axis_row_def
      multiply_row_def f32_sub_def f32_round_nonneg eval_nat_numeral)

lemma still_clip_made: "mk_motion still_torch still_arrays = Inr still_clip"
proof -
  have q: "to_f32 (f64_mul (CourseTask.quotient (Fin 1) (Fin 1)) (f64_round (of_nat (2 - 1)))) = Fin 1"
    using f64_rep_round[OF f64_rep_of_int[of 1]] by (simp add: CourseTask.quotient_def)
  have z: "map to_f32 (replicate n (Fin 0)) = replicate n (Fin 0)" for n by simp
  show ?thesis
    unfolding mk_motion_def still_arrays_def clip_arrays.simps list.case Let_def fst_conv snd_conv list.sel z rows_of_replicate q
    by (simp add: still_linear still_angular still_clip_def rows_finite_def list_all_iff)
qed

text \<open>The control interval lies between the neighbouring multiples of 1/128.\<close>

lemma control_dt:
  obtains dt where "CONTROL_DT_SECONDS = Fin dt" "0 < dt" "1 / 64 \<le> dt" "dt \<le> 3 / 128"
proof -
  have "f64_rep (1 / 64)" "f64_rep (3 / 128)"
    using f64_rep_pow2[of "- 6"] round_rat_scaled[of 3 "- 7"] by (simp_all add: f64_rep_def pow2_def)
  then have "fin_in CONTROL_DT_SECONDS (1 / 64) (3 / 128)" unfolding CONTROL_DT_SECONDS_def by (rule round_in) simp_all
  then obtain q where q: "CONTROL_DT_SECONDS = Fin q" "1 / 64 \<le> q" "q \<le> 3 / 128" by (auto simp: fin_in_def)
  have "0 < q" using less_le_trans[OF _ q(2), of 0] by simp
  with q show ?thesis by (intro that[of q]) simp_all
qed

definition mild :: "f64 \<Rightarrow> bool" where
  "mild x \<longleftrightarrow> (\<exists>q. x = Fin q \<and> f32_rep q \<and> 0 \<le> q \<and> q \<le> 256)"

lemma mild_round:
  assumes "0 \<le> q" "q \<le> 256"
  shows "mild (f32_round q)"
  using f32_round_in[of 0 256 q] f32_rep_of_int[of 0] f32_rep_of_int[of 256] assms unfolding mild_def by simp metis

lemma mild_finite: "mild x \<Longrightarrow> is_finite (to_f32 x) \<and> to_f32 x = x"
  by (auto simp: mild_def f32_rep_round)

lemma mild_is_finite: "mild x \<Longrightarrow> is_finite x"
  by (auto simp: mild_def)

lemma mild_0 [simp]: "mild (Fin 0)"
  using f32_rep_of_int[of 0] by (simp add: mild_def)

lemma offset_times_bounded: "x \<in> set offset_times \<Longrightarrow> \<exists>q. x = Fin q \<and> 0 \<le> q \<and> q \<le> 3"
proof -
  assume "x \<in> set offset_times"
  then obtain k where k: "k \<in> set REFERENCE_OFFSETS" "x = f32_mul (Fin (of_nat k)) (to_f32 CONTROL_DT_SECONDS)" by (auto simp: offset_times_def)
  have "k \<le> 95" using k(1) by (auto simp: REFERENCE_OFFSETS_def)
  then have k95: "(of_nat k :: rat) \<le> 95" by simp
  obtain dt where dt: "CONTROL_DT_SECONDS = Fin dt" "1 / 64 \<le> dt" "dt \<le> 3 / 128" by (rule control_dt)
  have r: "f32_rep 0" "f32_rep (3 / 128)" "f32_rep 3"
    using f32_rep_of_int[of 0] f32_rep_scaled[of 3 "- 7"] f32_rep_of_int[of 3] by (simp_all add: pow2_def)
  obtain e where e: "f32_round dt = Fin e" "0 \<le> e" "e \<le> 3 / 128"
    using f32_round_in[OF r(1,2), of dt] dt(2,3) by (metis less_le_trans order.trans zero_le_divide_1_iff zero_le_numeral)
  have "of_nat k * e \<le> 95 * (3 / 128)" using k95 e by (intro mult_mono) simp_all
  also have "95 * (3 / 128) \<le> (3 :: rat)" by simp
  finally obtain y where "f32_round (of_nat k * e) = Fin y" "0 \<le> y" "y \<le> 3"
    using f32_round_in[OF r(1,3), of "of_nat k * e"] e(2) by (metis mult_nonneg_nonneg of_nat_0_le_iff)
  then show ?thesis unfolding k(2) dt(1) to_f32.simps e(1) by simp
qed

lemma window_times_mild:
  assumes "mild x" "x = Fin q" "q \<le> 253"
  shows "list_all mild (map (f32_add x) offset_times)"
proof -
  have "mild (f32_add x y)" if y: "y \<in> set offset_times" for y
  proof -
    obtain r where "y = Fin r" "0 \<le> r" "r \<le> 3" using offset_times_bounded[OF y] by blast
    then show ?thesis using assms mild_round[of "q + r"] by (simp add: mild_def)
  qed
  then show ?thesis by (auto simp: list_all_iff)
qed

text \<open>Every frame of the still clip has the same features.\<close>

lemma still_features:
  assumes "list_all is_finite (map to_f32 ts)"
  shows "motion_features still_torch still_clip ts = Inr (replicate (length ts) (replicate 30 (Fin 0)))"
proof -
  obtain idx where idx: "mapE (frame_index still_clip) (map to_f32 ts) = Inr idx" "length idx = length ts" "list_all (index_ok 2) idx"
    using frame_indices_inside[of still_clip 1, OF _ _ _ _ assms] by (auto simp: still_clip_def)
  let ?n = "length ts"
  have z: "f32_add (f32_mul (f32_sub (Fin 1) b) (Fin 0)) (f32_mul b (Fin 0)) = Fin 0" if "f64_le (Fin 0) b" "f64_le b (Fin 1)" for b
  proof -
    have "\<exists>q. b = Fin q \<and> 0 \<le> q \<and> q \<le> 1" using that by (cases b) auto
    then obtain q where "b = Fin q" "0 \<le> q" "q \<le> 1" by blast
    moreover obtain r where "f32_round (1 - q) = Fin r"
      using calculation f32_round_in[of 0 1 "1 - q"] f32_rep_of_int[of 0] f32_rep_of_int[of 1] by auto
    ultimately show ?thesis by (simp add: f32_sub_def)
  qed
  have each: "i < 2 \<and> j < 2 \<and> f64_le (Fin 0) b \<and> f64_le b (Fin 1)" if "(i, j, b) \<in> set idx" for i j b
    using idx(3) that by (auto simp: list_all_iff index_ok_def)
  have blend: "map (blend_rows (replicate 2 (replicate k (Fin 0)))) idx = replicate ?n (replicate k (Fin 0))" for k
  proof (rule replicate_eqI)
    fix r assume "r \<in> set (map (blend_rows (replicate 2 (replicate k (Fin 0)))) idx)"
    then obtain i j b where "(i, j, b) \<in> set idx" "r = blend_rows (replicate 2 (replicate k (Fin 0))) (i, j, b)" by auto
    then show "r = replicate k (Fin 0)" using each[of i j b] z[of b] by (simp add: blend_rows_def zip_replicate map_replicate_const del: replicate.simps)
  qed (simp add: idx(2))
  have pick: "map (\<lambda>(i, j, b). replicate 2 (replicate k (Fin 0)) ! i) idx = replicate ?n (replicate k (Fin 0))"
    "map (\<lambda>(i, j, b). replicate 2 (replicate k (Fin 0)) ! j) idx = replicate ?n (replicate k (Fin 0))" for k
    by (auto intro!: replicate_eqI dest!: each simp: idx(2) simp del: replicate.simps)
  have slerp: "slerp_xyzw still_torch (replicate ?n (replicate 4 (Fin 0))) (replicate ?n (replicate 4 (Fin 0))) (map (\<lambda>(i, j, b). b) idx) =
      Inr (replicate ?n (replicate 4 (Fin 0)))"
    using idx(2) by (auto simp: slerp_xyzw_def slerp_row_def Let_def still_torch_def wide_set in_set_zip intro!: replicate_eqI)
  have sample: "sample still_torch still_clip ts = Inr \<lparr>mf_root_position = replicate ?n (replicate 3 (Fin 0)),
      mf_root_rotation = replicate ?n (replicate 4 (Fin 0)), mf_root_velocity = replicate ?n (replicate 3 (Fin 0)),
      mf_root_angular_velocity = replicate ?n (replicate 3 (Fin 0)), mf_dof_position = replicate ?n (replicate ACTION_DIM (Fin 0)),
      mf_dof_velocity = replicate ?n (replicate ACTION_DIM (Fin 0))\<rparr>"
    unfolding sample_def idx(1) using assms slerp blend pick by (simp add: still_clip_def)
  have euler: "quaternion_to_euler_xyzw still_torch (replicate ?n (replicate 4 (Fin 0))) = Inr (replicate ?n (replicate 3 (Fin 0)))"
    by (simp add: quaternion_to_euler_xyzw_def wide_set euler_row_def Let_def still_torch_def eval_nat_numeral)
  have rotate: "inverse_rotate_xyzw still_torch (replicate ?n (replicate 4 (Fin 0))) (replicate ?n (replicate 3 (Fin 0))) =
      Inr (replicate ?n (replicate 3 (Fin 0)))"
    by (simp add: inverse_rotate_xyzw_def wide_set inverse_rotate_row_def Let_def still_torch_def f32_sub_def zip_replicate eval_nat_numeral)
  show ?thesis
    unfolding motion_features_def sample bindE_simps motion_frame.simps euler rotate Let_def zip_replicate map_replicate
    by (simp add: wide_set rows_finite_def list_all_iff ACTION_DIM_def REFERENCE_FRAME_DIM_def eval_nat_numeral)
qed

theorem window_failures_witness:
  "\<exists>v. motion_window still_torch still_clip 0 = Inr v \<and> length v = 20 \<and> (\<forall>r \<in> set v. length r = 30 \<and> list_all is_finite r)"
proof -
  obtain dt where dt: "CONTROL_DT_SECONDS = Fin dt" by (rule control_dt)
  have t: "step_time 0 = Inr (Fin 0)"
    using f64_rep_round[OF f64_rep_of_int[of 0]] by (simp add: step_time_def float_of_int_small dt)
  have w: "list_all mild (map (f32_add (Fin 0)) offset_times)" by (rule window_times_mild[of _ 0]) simp_all
  then have f: "list_all is_finite (map to_f32 (map (f32_add (Fin 0)) offset_times))" by (auto simp: list_all_iff mild_finite mild_is_finite)
  have "motion_window still_torch still_clip 0 \<noteq> Inl e" for e
    using still_features[OF f] t
    by (simp add: motion_window_def offset_times_def REFERENCE_OFFSETS_def REFERENCE_HORIZON_def REFERENCE_FRAME_DIM_def wide_set)
  with window_failures[OF still_torch_ok still_arrays_sized still_clip_made, of 0] show ?thesis
    by (auto simp: still_clip_def split: sum.splits)
qed

end
