(* ===== verification/Composition.thy ===== *)
theory Composition
  imports ReferenceClip CycleMachine
begin

text \<open>
  State-triggered reference segments (\<open>adapters/gmt/composition.py\<close>): a segment of a clip with its boundary
  rule, and the composed reference, which asks the oracle machine for one decision per control boundary and
  transfers the phase of the clip when the controller changes.
\<close>

section \<open>Segments\<close>

definition WRAP :: string where "WRAP = ''wrap_within_segment''"
definition HOLD_LAST :: string where "HOLD_LAST = ''hold_last_pose_zero_velocity''"
definition ENTRY_LOOP :: string where "ENTRY_LOOP = ''entry_once_then_loop''"

definition POSE_SCALES :: "f64 list" where
  "POSE_SCALES = [f64_round (15 / 100), f64_round (35 / 100), f64_round (35 / 100)] @ replicate 23 (f64_round (35 / 100))"

definition POSE_COLUMNS :: "nat list" where
  "POSE_COLUMNS = [0, 1, 2] @ [7..<30]"

text \<open>\<open>torch.finfo(torch.float32).eps\<close>\<close>

definition FLOAT32_EPS :: f64 where "FLOAT32_EPS = Fin (1 / 2 ^ 23)"

text \<open>An exception of an assertion, of a look-up by a name, or of a conversion has its own constructor.\<close>

datatype compose_error =
    SegmentBounds | SegmentBoundary | SegmentEntry | SegmentLoop | LoopStartUnexpected | SegmentExit
  | LoopAssertion | LoopIndex | PhaseBackwards | PoseInvalid | NoCandidates | BehaviorsSegments | SegmentKey string
  | CommandOrder | DwellSupplied | ObjectiveOrder | StepTooLarge | Clip clip_error | Machine machine_error

record segment =
  sg_motion :: motion
  sg_parent :: string
  sg_start :: f64
  sg_end :: f64
  sg_entry_end :: "f64 option"
  sg_boundary :: string
  sg_loop_start :: "f64 option"
  sg_exit_at_loop :: bool

text \<open>
  Of torch and numpy: the remainder with the sign of the divisor, the range of sample times, the binary32
  number below a number, and the mean of a row.
\<close>

record segment_math = torch +
  s_remainder :: "f64 \<Rightarrow> f64 \<Rightarrow> f64"
  s_arange :: "f64 \<Rightarrow> f64 \<Rightarrow> f64 list"
  s_below :: "f64 \<Rightarrow> f64"
  s_mean :: "f64 list \<Rightarrow> f64"

definition clip_math :: "segment_math \<Rightarrow> torch" where
  "clip_math T = torch.truncate T"

definition liftE :: "('a \<Rightarrow> 'b) \<Rightarrow> 'a + 'c \<Rightarrow> 'b + 'c" where
  "liftE f r = (case r of Inl e \<Rightarrow> Inl (f e) | Inr x \<Rightarrow> Inr x)"

definition read_entry_phase :: "f64 \<Rightarrow> pyval \<Rightarrow> compose_error + f64 option" where
  "read_entry_phase duration v = (case v of
       PNone \<Rightarrow> Inr None
     | PFloat x \<Rightarrow> if \<not> is_finite x \<or> \<not> (f64_le (Fin 0) x \<and> f64_lt x duration) then Inl SegmentEntry else Inr (Some x)
     | _ \<Rightarrow> Inl SegmentEntry)"

definition read_loop :: "f64 \<Rightarrow> f64 \<Rightarrow> string \<Rightarrow> f64 option \<Rightarrow> pyval \<Rightarrow> compose_error + f64 option" where
  "read_loop start finish boundary entry v = (if boundary = ENTRY_LOOP then
       (case v of
          PFloat l \<Rightarrow> if \<not> is_finite l \<or> \<not> (f64_lt start l \<and> f64_lt l finish) \<or>
              (case entry of None \<Rightarrow> True | Some e \<Rightarrow> f64_le (f64_sub l start) e) \<or>
              f64_lt (to_f32 (f64_sub finish l)) (to_f32 CONTROL_DT_SECONDS) then Inl SegmentLoop else Inr (Some l)
        | _ \<Rightarrow> Inl SegmentLoop)
     else if v \<noteq> PNone then Inl LoopStartUnexpected else Inr None)"

definition mk_segment :: "motion \<Rightarrow> string \<Rightarrow> f64 \<Rightarrow> f64 \<Rightarrow> pyval \<Rightarrow> string \<Rightarrow> pyval \<Rightarrow> pyval \<Rightarrow> compose_error + segment" where
  "mk_segment m parent start finish entry_v boundary loop_v exit_v = (let duration = f64_sub finish start in
     if length parent \<noteq> 64 \<or> \<not> list_all is_lower_hex parent \<or> \<not> (is_finite start \<and> is_finite finish) \<or>
        \<not> (f64_le (Fin 0) start \<and> f64_lt start finish \<and> f64_le finish (mo_duration m)) \<or> f64_lt duration CONTROL_DT_SECONDS
     then Inl SegmentBounds
     else if boundary \<notin> {WRAP, HOLD_LAST, ENTRY_LOOP} then Inl SegmentBoundary
     else bindE (read_entry_phase duration entry_v) (\<lambda>entry.
       bindE (read_loop start finish boundary entry loop_v) (\<lambda>loop.
         case exit_v of
           PBool b \<Rightarrow> if b \<and> boundary \<noteq> ENTRY_LOOP then Inl SegmentExit
             else Inr \<lparr>sg_motion = m, sg_parent = parent, sg_start = start, sg_end = finish, sg_entry_end = entry,
                 sg_boundary = boundary, sg_loop_start = loop, sg_exit_at_loop = b\<rparr>
         | _ \<Rightarrow> Inl SegmentExit)))"

definition sg_duration :: "segment \<Rightarrow> f64" where
  "sg_duration s = f64_sub (sg_end s) (sg_start s)"

definition segment_identity :: "segment \<Rightarrow> pyval" where
  "segment_identity s = PDict ([
     (''parent_motion_sha256'', PStr (sg_parent s)),
     (''start_seconds'', PFloat (sg_start s)),
     (''end_seconds'', PFloat (sg_end s)),
     (''cadence'', PStr ''unchanged_native_fps''),
     (''boundary'', PStr (sg_boundary s)),
     (''certification'', PStr ''kinematic_candidate_not_dynamics_certified'')] @
     (case sg_entry_end s of None \<Rightarrow> [] | Some e \<Rightarrow> [(''entry_phase_end_seconds'', PFloat e)]) @
     (case sg_loop_start s of None \<Rightarrow> [] | Some l \<Rightarrow> [(''loop_start_seconds'', PFloat l)]) @
     (if sg_exit_at_loop s then [(''exit_at_loop_boundary'', PBool True)] else []))"

definition segment_sha256 :: "hasher \<Rightarrow> segment \<Rightarrow> string" where
  "segment_sha256 h s = content_hash h (segment_identity s)"

section \<open>Phases\<close>

definition tolerance :: "segment \<Rightarrow> f64" where
  "tolerance s = f64_mul (f64_mul FLOAT32_EPS (py_max (sg_end s) (Fin 1))) (Fin 4)"

definition entry_loop_phase :: "segment_math \<Rightarrow> segment \<Rightarrow> f64 \<Rightarrow> compose_error + f64" where
  "entry_loop_phase T s phase = (case sg_loop_start s of
       None \<Rightarrow> Inl LoopAssertion
     | Some l \<Rightarrow>
         let loop_start = f64_sub l (sg_start s);
             loop_duration = f64_sub (sg_end s) l;
             remainder = s_remainder T (f32_sub phase (to_f32 (sg_duration s))) (to_f32 loop_duration);
             remainder' = (if f64_le (f64_abs (f32_sub remainder (to_f32 loop_duration))) (to_f32 (tolerance s)) then Fin 0 else remainder)
         in Inr (if f64_lt phase (to_f32 (f64_sub (sg_duration s) (tolerance s))) then phase else f32_add (to_f32 loop_start) remainder'))"

definition entry_loop_boundary_index :: "segment \<Rightarrow> f64 \<Rightarrow> compose_error + int" where
  "entry_loop_boundary_index s phase = (case sg_loop_start s of
       None \<Rightarrow> Inl LoopAssertion
     | Some l \<Rightarrow>
         if f64_lt phase (f64_sub (sg_duration s) (tolerance s)) then Inr (- 1)
         else (case f32_floor (f32_div (f32_add (f32_sub phase (to_f32 (sg_duration s))) (to_f32 (tolerance s)))
                  (to_f32 (f64_sub (sg_end s) l))) of
             Fin q \<Rightarrow> Inr \<lfloor>q\<rfloor> | _ \<Rightarrow> Inl LoopIndex))"

definition allows_ordinary_transition :: "segment \<Rightarrow> f64 option \<Rightarrow> f64 \<Rightarrow> compose_error + bool" where
  "allows_ordinary_transition s previous_phase current_phase = (if \<not> sg_exit_at_loop s then Inr True
     else case previous_phase of None \<Rightarrow> Inr False
       | Some previous \<Rightarrow>
           if f64_lt (f64_add current_phase (tolerance s)) previous then Inl PhaseBackwards
           else bindE (entry_loop_boundary_index s current_phase) (\<lambda>j.
             bindE (entry_loop_boundary_index s previous) (\<lambda>i. Inr (i < j))))"

definition still_velocity :: "f64 list \<Rightarrow> f64 list" where
  "still_velocity row = take 3 row @ replicate 4 (Fin 0) @ drop 7 row"

definition segment_features :: "segment_math \<Rightarrow> segment \<Rightarrow> f64 list \<Rightarrow> compose_error + rows" where
  "segment_features T s phases = (let playback = (\<lambda>ts. liftE Clip (motion_features (clip_math T) (sg_motion s) ts)) in
     if sg_boundary s = HOLD_LAST then
       bindE (playback (map (\<lambda>p. clip_to (to_f32 (sg_start s)) (s_below T (to_f32 (sg_end s))) (f32_add (to_f32 (sg_start s)) p)) phases)) (\<lambda>rows.
         Inr (map2 (\<lambda>p row. if f64_le (to_f32 (sg_duration s)) p then still_velocity row else row) phases rows))
     else if sg_boundary s = ENTRY_LOOP then
       bindE (mapE (entry_loop_phase T s) phases) (\<lambda>ps. playback (map (f32_add (to_f32 (sg_start s))) ps))
     else if f64_eq (sg_start s) (Fin 0) \<and> f64_eq (sg_end s) (mo_duration (sg_motion s)) then playback phases
     else playback (map (\<lambda>p. f32_add (to_f32 (sg_start s)) (s_remainder T p (to_f32 (sg_duration s)))) phases))"

text \<open>\<open>np.argmin\<close>: the first least element; a NaN counts as least.\<close>

definition argmin :: "f64 list \<Rightarrow> nat" where
  "argmin xs = fst (foldl (\<lambda>(i, best) (j, x). if best \<noteq> NaN \<and> (x = NaN \<or> f64_lt x best) then (j, x) else (i, best))
     (0, hd xs) (zip [1..<length xs] (tl xs)))"

definition pose_score :: "segment_math \<Rightarrow> f64 list \<Rightarrow> f64 list \<Rightarrow> f64" where
  "pose_score T pose row = s_mean T (map (\<lambda>(c, p, scale). let d = CourseTask.quotient (f64_sub c p) scale in f64_mul d d)
     (zip (map (\<lambda>i. row ! i) POSE_COLUMNS) (zip pose POSE_SCALES)))"

text \<open>The pose comes as its shape and its binary64 elements.\<close>

definition nearest_phase :: "segment_math \<Rightarrow> segment \<Rightarrow> nat list \<times> f64 list \<Rightarrow> compose_error + (f64 \<times> f64)" where
  "nearest_phase T s pose_v = (if fst pose_v \<noteq> [26] \<or> \<not> list_all is_finite (snd pose_v) then Inl PoseInvalid
     else let all_times = s_arange T (sg_duration s) (CourseTask.quotient (Fin 1) (mo_fps (sg_motion s)));
              ts = (case sg_entry_end s of None \<Rightarrow> all_times | Some e \<Rightarrow> filter (\<lambda>t. f64_le t (to_f32 e)) all_times)
       in bindE (segment_features T s ts) (\<lambda>candidates.
         let scores = map (pose_score T (snd pose_v)) candidates
         in if scores = [] then Inl NoCandidates
            else let selected = argmin scores in Inr (ts ! selected, scores ! selected)))"

definition reported_phase :: "segment_math \<Rightarrow> segment \<Rightarrow> f64 \<Rightarrow> compose_error + f64" where
  "reported_phase T s phase = (if sg_boundary s = HOLD_LAST then Inr (clip_to (Fin 0) (to_f32 (sg_duration s)) phase)
     else if sg_boundary s = ENTRY_LOOP then entry_loop_phase T s phase
     else Inr (s_remainder T phase (to_f32 (sg_duration s))))"

section \<open>The composed reference\<close>

record phase_transition =
  tr_control_step :: int
  tr_from_state :: string
  tr_to_state :: string
  tr_from_behavior :: string
  tr_to_behavior :: string
  tr_selected :: f64
  tr_distance :: f64
  tr_segment_sha256 :: string

record reference_command =
  rc_state :: string
  rc_behavior :: string
  rc_current :: "f64 list"
  rc_window :: rows
  rc_phase_seconds :: f64
  rc_phase_fraction :: f64
  rc_segment_sha256 :: string
  rc_transition :: "phase_transition option"

record composed =
  cp_program :: cycle_program
  cp_segments :: "(string \<times> segment) list"
  cp_machine :: machine
  cp_last_step :: int
  cp_origin_step :: int
  cp_origin_seconds :: f64
  cp_last_behavior :: "string option"
  cp_last_phase :: "f64 option"

definition composed_reset :: "cycle_program \<Rightarrow> (string \<times> segment) list \<Rightarrow> compose_error + composed" where
  "composed_reset program segments = bindE (liftE Machine (mk_machine program)) (\<lambda>m.
     Inr \<lparr>cp_program = program, cp_segments = segments, cp_machine = m, cp_last_step = - 1, cp_origin_step = 0,
          cp_origin_seconds = Fin 0, cp_last_behavior = None, cp_last_phase = None\<rparr>)"

definition mk_composed :: "cycle_program \<Rightarrow> (string \<times> segment) list \<Rightarrow> compose_error + composed" where
  "mk_composed program segments = (if set (cy_behaviors program) \<noteq> fst ` set segments then Inl BehaviorsSegments
     else composed_reset program segments)"

definition segment_of :: "composed \<Rightarrow> string \<Rightarrow> compose_error + segment" where
  "segment_of c behavior = (case map_of (cp_segments c) behavior of None \<Rightarrow> Inl (SegmentKey behavior) | Some s \<Rightarrow> Inr s)"

definition origin_phase :: "int \<times> f64 \<Rightarrow> int \<Rightarrow> compose_error + f64" where
  "origin_phase origin now = (case float_of_int (now - fst origin) of None \<Rightarrow> Inl StepTooLarge
     | Some d \<Rightarrow> Inr (to_f32 (f64_add (snd origin) (f64_mul d CONTROL_DT_SECONDS))))"

definition composed_phase :: "composed \<Rightarrow> int \<Rightarrow> compose_error + f64" where
  "composed_phase c now = origin_phase (cp_origin_step c, cp_origin_seconds c) now"

definition current_after_step :: "segment_math \<Rightarrow> composed \<Rightarrow> int \<Rightarrow> compose_error + f64 list" where
  "current_after_step T c now = (if now \<noteq> cp_last_step c + 1 then Inl ObjectiveOrder
     else bindE (segment_of c (mc_behavior (cp_machine c))) (\<lambda>s.
       bindE (composed_phase c now) (\<lambda>phase.
       bindE (segment_features T s [phase]) (\<lambda>features. Inr (features ! 0)))))"

text \<open>
  The phase transfer of a decision: a switch of the controller moves the origin to the nearest pose of the
  new segment.
\<close>

definition transfer_phase :: "hasher \<Rightarrow> segment_math \<Rightarrow> composed \<Rightarrow> int \<Rightarrow> nat list \<times> f64 list \<Rightarrow> segment \<Rightarrow> decision \<Rightarrow>
    compose_error + ((int \<times> f64) \<times> phase_transition option)" where
  "transfer_phase h T c now pose s d = (if dc_switched d
     then bindE (nearest_phase T s pose) (\<lambda>(selected, score).
       Inr ((now, selected), Some \<lparr>tr_control_step = now, tr_from_state = mc_state (cp_machine c),
         tr_to_state = dc_state d, tr_from_behavior = mc_behavior (cp_machine c), tr_to_behavior = dc_behavior d,
         tr_selected = selected, tr_distance = score, tr_segment_sha256 = segment_sha256 h s\<rparr>))
     else Inr ((cp_origin_step c, cp_origin_seconds c), None))"

definition composed_command :: "hasher \<Rightarrow> segment_math \<Rightarrow> composed \<Rightarrow> pyval \<Rightarrow> (string \<times> pyval) list \<Rightarrow> nat list \<times> f64 list \<Rightarrow>
    compose_error + (reference_command \<times> composed)" where
  "composed_command h T c step_v signals pose = (case step_v of
       PInt now \<Rightarrow>
         if now \<noteq> cp_last_step c + 1 then Inl CommandOrder
         else if dict_get signals ''dwell'' \<noteq> None then Inl DwellSupplied
         else bindE (segment_of c (mc_behavior (cp_machine c))) (\<lambda>previous_segment.
           bindE (composed_phase c now) (\<lambda>phase_before_decision.
           bindE (allows_ordinary_transition previous_segment
               (if cp_last_behavior c = Some (mc_behavior (cp_machine c)) then cp_last_phase c else None) phase_before_decision) (\<lambda>allow.
           bindE (liftE Machine (decide (cp_machine c) (signals @ [(''dwell'', PInt (mc_dwell (cp_machine c)))]) allow)) (\<lambda>(d, m).
           bindE (segment_of c (dc_behavior d)) (\<lambda>s.
           bindE (transfer_phase h T c now pose s d) (\<lambda>(origin, transition).
           bindE (origin_phase origin now) (\<lambda>phase.
           bindE (segment_features T s [phase]) (\<lambda>current.
           bindE (segment_features T s (map (f32_add phase) offset_times)) (\<lambda>window.
           bindE (reported_phase T s phase) (\<lambda>reported.
             Inr (\<lparr>rc_state = dc_state d, rc_behavior = dc_behavior d, rc_current = current ! 0, rc_window = window,
                   rc_phase_seconds = reported, rc_phase_fraction = CourseTask.quotient reported (sg_duration s),
                   rc_segment_sha256 = segment_sha256 h s, rc_transition = transition\<rparr>,
                  c\<lparr>cp_machine := advance m, cp_last_step := now, cp_origin_step := fst origin,
                    cp_origin_seconds := snd origin, cp_last_behavior := Some (dc_behavior d),
                    cp_last_phase := Some phase\<rparr>)))))))))))
     | _ \<Rightarrow> Inl CommandOrder)"

section \<open>One command\<close>

lemma liftE_simps [simp]: "liftE f (Inl e) = Inl (f e)" "liftE f (Inr x) = Inr x"
  by (simp_all add: liftE_def)

lemma liftE_Inr [simp]: "liftE f r = Inr x \<longleftrightarrow> r = Inr x"
  by (cases r) (simp_all add: liftE_def)

lemma liftE_Inl [simp]: "liftE f r = Inl e \<longleftrightarrow> (\<exists>e'. r = Inl e' \<and> e = f e')"
  by (cases r) (auto simp: liftE_def)

text \<open>What a decision reports agrees with the machine, whatever the program; only an allowed transition
  changes the state.\<close>

lemma decide_agrees:
  assumes "decide m signals allow = Inr (d, m')"
  shows "mc_state m' = dc_state d \<and> mc_behavior m' = dc_behavior d \<and> (dc_switched d \<longleftrightarrow> dc_behavior d \<noteq> mc_behavior m) \<and>
     mc_program m' = mc_program m \<and> (dc_state d \<noteq> mc_state m \<longrightarrow> allow \<and> dc_transition d)"
proof -
  have o: "mc_state m' = dc_state d \<and> mc_behavior m' = dc_behavior d \<and> (dc_switched d \<longleftrightarrow> dc_behavior d \<noteq> mc_behavior m) \<and>
     mc_program m' = mc_program m \<and> (dc_state d \<noteq> mc_state m \<longrightarrow> allow \<and> dc_transition d)"
    if "ordinary m s allow = Inr (d, m')" for s
    using that by (auto simp: ordinary_def unchanged_def Let_def split: option.splits if_splits)
  obtain s where s: "machine_signals (mc_dwell m) signals = Inr s" using assms by (auto simp: decide_def)
  show ?thesis
  proof (cases "cy_recovery (mc_program m)")
    case None
    with assms s have "ordinary m s allow = Inr (d, m')" by (simp add: decide_def)
    then show ?thesis by (rule o)
  next
    case (Some r)
    then obtain g where "guard_holds (r_guard r) s = Inr g" using assms s by (auto simp: decide_def)
    with assms s Some have "ordinary m s allow = Inr (d, m') \<or> d = unchanged m RecoveryHold \<and> m' = m \<or> rejoin r m = Inr (d, m') \<or>
        d = unchanged m RecoveryReentryDwell \<and> m' = m \<or> (d, m') = enter_recovery r m"
      by (auto simp: decide_def split: if_splits)
    then show ?thesis
      by (elim disjE) (rule o, assumption, auto simp: unchanged_def rejoin_def enter_recovery_def)
  qed
qed

text \<open>The parts of a successful command.\<close>

lemma composed_commandE:
  assumes "composed_command h T c step_v signals pose = Inr (cmd, c')"
  obtains previous phase0 allow d m s origin transition phase current window reported where
    "step_v = PInt (cp_last_step c + 1)" "dict_get signals ''dwell'' = None"
    "segment_of c (mc_behavior (cp_machine c)) = Inr previous" "composed_phase c (cp_last_step c + 1) = Inr phase0"
    "allows_ordinary_transition previous
       (if cp_last_behavior c = Some (mc_behavior (cp_machine c)) then cp_last_phase c else None) phase0 = Inr allow"
    "decide (cp_machine c) (signals @ [(''dwell'', PInt (mc_dwell (cp_machine c)))]) allow = Inr (d, m)"
    "segment_of c (dc_behavior d) = Inr s"
    "transfer_phase h T c (cp_last_step c + 1) pose s d = Inr (origin, transition)"
    "origin_phase origin (cp_last_step c + 1) = Inr phase"
    "segment_features T s [phase] = Inr current"
    "segment_features T s (map (f32_add phase) offset_times) = Inr window"
    "reported_phase T s phase = Inr reported"
    "cmd = \<lparr>rc_state = dc_state d, rc_behavior = dc_behavior d, rc_current = current ! 0, rc_window = window,
       rc_phase_seconds = reported, rc_phase_fraction = CourseTask.quotient reported (sg_duration s),
       rc_segment_sha256 = segment_sha256 h s, rc_transition = transition\<rparr>"
    "c' = c\<lparr>cp_machine := advance m, cp_last_step := cp_last_step c + 1, cp_origin_step := fst origin,
       cp_origin_seconds := snd origin, cp_last_behavior := Some (dc_behavior d), cp_last_phase := Some phase\<rparr>"
proof (cases step_v)
  case (PInt now)
  have order: "now = cp_last_step c + 1" "dict_get signals ''dwell'' = None"
    using assms by (auto simp only: composed_command_def PInt pyval.case split: if_splits)
  from assms show ?thesis
    unfolding composed_command_def PInt pyval.case order(1)
    apply (simp only: order(2) simp_thms if_False bindE_eq_Inr split_paired_Ex prod.case liftE_Inr sum.inject prod.inject)
    apply (elim exE conjE)
    apply (rule that, rule PInt[unfolded order(1)], rule order(2), (assumption | erule sym)+)
    done
qed (use assms in \<open>simp_all add: composed_command_def\<close>)

lemma composed_commandI:
  assumes "dict_get signals ''dwell'' = None"
    "segment_of c (mc_behavior (cp_machine c)) = Inr previous" "composed_phase c (cp_last_step c + 1) = Inr phase0"
    "allows_ordinary_transition previous
       (if cp_last_behavior c = Some (mc_behavior (cp_machine c)) then cp_last_phase c else None) phase0 = Inr allow"
    "decide (cp_machine c) (signals @ [(''dwell'', PInt (mc_dwell (cp_machine c)))]) allow = Inr (d, m)"
    "segment_of c (dc_behavior d) = Inr s"
    "transfer_phase h T c (cp_last_step c + 1) pose s d = Inr (origin, transition)"
    "origin_phase origin (cp_last_step c + 1) = Inr phase"
    "segment_features T s [phase] = Inr current"
    "segment_features T s (map (f32_add phase) offset_times) = Inr window"
    "reported_phase T s phase = Inr reported"
  shows "composed_command h T c (PInt (cp_last_step c + 1)) signals pose =
     Inr (\<lparr>rc_state = dc_state d, rc_behavior = dc_behavior d, rc_current = current ! 0, rc_window = window,
       rc_phase_seconds = reported, rc_phase_fraction = CourseTask.quotient reported (sg_duration s),
       rc_segment_sha256 = segment_sha256 h s, rc_transition = transition\<rparr>,
     c\<lparr>cp_machine := advance m, cp_last_step := cp_last_step c + 1, cp_origin_step := fst origin,
       cp_origin_seconds := snd origin, cp_last_behavior := Some (dc_behavior d), cp_last_phase := Some phase\<rparr>)"
  by (simp add: composed_command_def assms)

text \<open>The origin of the phase after a command: a transition moves it to its own step.\<close>

definition moved_origin :: "reference_command \<Rightarrow> int \<times> f64 \<Rightarrow> int \<times> f64" where
  "moved_origin cmd origin = (case rc_transition cmd of None \<Rightarrow> origin | Some tr \<Rightarrow> (tr_control_step tr, tr_selected tr))"

lemma transfer_origin:
  assumes "transfer_phase h T c now pose s d = Inr (origin, rc_transition cmd)"
  shows "origin = moved_origin cmd (cp_origin_step c, cp_origin_seconds c) \<and> (rc_transition cmd \<noteq> None \<longleftrightarrow> dc_switched d)"
  using assms by (cases "rc_transition cmd") (auto simp: transfer_phase_def moved_origin_def split: if_splits)

section \<open>Reachable references\<close>

inductive composed_at :: "hasher \<Rightarrow> segment_math \<Rightarrow> cycle_program \<Rightarrow> (string \<times> segment) list \<Rightarrow> composed \<Rightarrow> bool"
  for h T program segments where
  start: "mk_composed program segments = Inr c \<Longrightarrow> composed_at h T program segments c"
| step: "composed_at h T program segments c \<Longrightarrow> composed_command h T c step_v signals pose = Inr (cmd, c') \<Longrightarrow>
    composed_at h T program segments c'"

definition composed_inv :: "cycle_program \<Rightarrow> (string \<times> segment) list \<Rightarrow> composed \<Rightarrow> bool" where
  "composed_inv program segments c \<longleftrightarrow> cp_program c = program \<and> cp_segments c = segments \<and>
     set (cy_behaviors program) = fst ` set segments \<and>
     (if cp_last_step c = - 1 then cp_last_behavior c = None \<and> cp_last_phase c = None
      else 0 \<le> cp_last_step c \<and> cp_last_behavior c = Some (mc_behavior (cp_machine c)) \<and>
        (\<exists>p. cp_last_phase c = Some p \<and> composed_phase c (cp_last_step c) = Inr p))"

lemma composed_at_inv: "composed_at h T program segments c \<Longrightarrow> composed_inv program segments c"
proof (induction rule: composed_at.induct)
  case (start c)
  then show ?case by (auto simp: mk_composed_def composed_reset_def composed_inv_def split: if_splits)
next
  case (step c step_v signals pose cmd c')
  from step.hyps(2) show ?case
  proof (rule composed_commandE)
    fix previous phase0 allow d m s origin transition phase current window reported
    assume d: "decide (cp_machine c) (signals @ [(''dwell'', PInt (mc_dwell (cp_machine c)))]) allow = Inr (d, m)"
      and ph: "origin_phase origin (cp_last_step c + 1) = Inr phase"
      and c': "c' = c\<lparr>cp_machine := advance m, cp_last_step := cp_last_step c + 1, cp_origin_step := fst origin,
         cp_origin_seconds := snd origin, cp_last_behavior := Some (dc_behavior d), cp_last_phase := Some phase\<rparr>"
    have "- 1 \<le> cp_last_step c" using step.IH by (auto simp: composed_inv_def split: if_splits)
    then show ?thesis using step.IH decide_agrees[OF d] ph by (simp add: c' composed_inv_def composed_phase_def)
  qed
qed

section \<open>The nearest pose\<close>

text \<open>The first least element, a NaN before every number.\<close>

definition first_least :: "f64 list \<Rightarrow> nat \<Rightarrow> bool" where
  "first_least xs i \<longleftrightarrow> i < length xs \<and>
     (if NaN \<in> set xs then xs ! i = NaN \<and> NaN \<notin> set (take i xs)
      else list_all (f64_le (xs ! i)) xs \<and> list_all (f64_lt (xs ! i)) (take i xs))"

lemma f64_le_total: "a \<noteq> NaN \<Longrightarrow> b \<noteq> NaN \<Longrightarrow> f64_le a b \<or> f64_lt b a"
  by (cases a; cases b) auto

lemma f64_le_refl: "a \<noteq> NaN \<Longrightarrow> f64_le a a"
  by (cases a) auto

lemma argmin_first_least:
  assumes "xs \<noteq> []"
  shows "first_least xs (argmin xs)"
proof -
  let ?step = "\<lambda>(i, best) (j, x). if best \<noteq> NaN \<and> (x = NaN \<or> f64_lt x best) then (j, x) else (i, best)"
  have "\<exists>i. foldl ?step (0, hd xs) (zip [1..<length xs] (tl xs)) = (i, xs ! i) \<and> first_least xs i"
    using assms
  proof (induction xs rule: rev_nonempty_induct)
    case (single x)
    then show ?case using f64_le_refl[of x] by (auto simp: first_least_def)
  next
    case (snoc x xs)
    from snoc.IH obtain i where i: "foldl ?step (0, hd xs) (zip [1..<length xs] (tl xs)) = (i, xs ! i)" and f: "first_least xs i" by blast
    have z: "zip [1..<length (xs @ [x])] (tl (xs @ [x])) = zip [1..<length xs] (tl xs) @ [(length xs, x)]"
      using snoc.hyps by (cases xs) (simp_all del: upt_Suc add: upt_Suc_append)
    then have fold: "foldl ?step (0, hd (xs @ [x])) (zip [1..<length (xs @ [x])] (tl (xs @ [x]))) = ?step (i, xs ! i) (length xs, x)"
      unfolding z foldl_append hd_append2[OF snoc.hyps] i by simp
    have il: "i < length xs" using f by (simp add: first_least_def)
    then have at: "(xs @ [x]) ! i = xs ! i" "take i (xs @ [x]) = take i xs" by (simp_all add: nth_append)
    show ?case
    proof (cases "xs ! i \<noteq> NaN \<and> (x = NaN \<or> f64_lt x (xs ! i))")
      case True
      then have nan: "NaN \<notin> set xs" "list_all (f64_le (xs ! i)) xs" using f by (auto simp: first_least_def split: if_splits)
      have "list_all (f64_lt x) xs \<and> list_all (f64_le x) xs" if "x \<noteq> NaN"
        using True that nan(2) by (auto simp: list_all_iff intro: f64_lt_le_trans f64_lt_imp_le)
      then have "first_least (xs @ [x]) (length xs)" using nan f64_le_refl[of x] by (auto simp: first_least_def)
      then show ?thesis unfolding fold using True by auto
    next
      case False
      have "first_least (xs @ [x]) i"
      proof (cases "NaN \<in> set xs")
        case True
        then show ?thesis using f il by (simp add: first_least_def at)
      next
        case n: False
        then have "xs ! i \<noteq> NaN" using il by (metis nth_mem)
        moreover from this False have "x \<noteq> NaN" "\<not> f64_lt x (xs ! i)" by auto
        ultimately have "f64_le (xs ! i) x" using f64_le_total by blast
        then show ?thesis using f il n \<open>x \<noteq> NaN\<close> by (auto simp: first_least_def at)
      qed
      then show ?thesis unfolding fold using False at(1) by auto
    qed
  qed
  then show ?thesis by (auto simp: argmin_def)
qed

lemma playback_length: "liftE Clip (motion_features T m ts) = Inr rows \<Longrightarrow> length rows = length ts"
  by (auto simp: motion_features_def Let_def split: if_splits)

lemma segment_features_length: "segment_features T s ts = Inr rows \<Longrightarrow> length rows = length ts"
  by (auto simp: segment_features_def Let_def simp del: liftE_Inr dest!: playback_length mapE_length split: if_splits)

text \<open>
  The nearest pose: of the times a segment may be entered at, the first of those at which its pose is nearest.
\<close>

definition entry_times :: "segment_math \<Rightarrow> segment \<Rightarrow> f64 list" where
  "entry_times T s = filter (\<lambda>t. \<forall>e. sg_entry_end s = Some e \<longrightarrow> f64_le t (to_f32 e))
     (s_arange T (sg_duration s) (CourseTask.quotient (Fin 1) (mo_fps (sg_motion s))))"

definition nearest_pose :: "segment_math \<Rightarrow> segment \<Rightarrow> f64 list \<Rightarrow> f64 \<Rightarrow> f64 \<Rightarrow> bool" where
  "nearest_pose T s pose selected distance \<longleftrightarrow> (\<exists>rows i. segment_features T s (entry_times T s) = Inr rows \<and>
     length rows = length (entry_times T s) \<and> first_least (map (pose_score T pose) rows) i \<and>
     selected = entry_times T s ! i \<and> distance = pose_score T pose (rows ! i))"

lemma nearest_phase_nearest:
  assumes "nearest_phase T s pose = Inr (selected, score)"
  shows "nearest_pose T s (snd pose) selected score"
proof -
  have times: "(case sg_entry_end s of None \<Rightarrow> all | Some e \<Rightarrow> filter (\<lambda>t. f64_le t (to_f32 e)) all) =
      filter (\<lambda>t. \<forall>e. sg_entry_end s = Some e \<longrightarrow> f64_le t (to_f32 e)) all" for all
    by (cases "sg_entry_end s") auto
  from assms obtain rows where rows: "segment_features T s (entry_times T s) = Inr rows" and ne: "map (pose_score T (snd pose)) rows \<noteq> []"
    and sel: "selected = entry_times T s ! argmin (map (pose_score T (snd pose)) rows)"
      "score = map (pose_score T (snd pose)) rows ! argmin (map (pose_score T (snd pose)) rows)"
    by (auto simp: nearest_phase_def Let_def times entry_times_def split: if_splits)
  note least = argmin_first_least[OF ne]
  then have "score = pose_score T (snd pose) (rows ! argmin (map (pose_score T (snd pose)) rows))"
    by (simp add: sel(2) first_least_def)
  with rows sel(1) least show ?thesis unfolding nearest_pose_def by (blast intro: segment_features_length)
qed

section \<open>Runs of commands\<close>

text \<open>An episode asks for consecutive commands, beginning at step 0.\<close>

fun command_run :: "hasher \<Rightarrow> segment_math \<Rightarrow> composed \<Rightarrow> ((string \<times> pyval) list \<times> nat list \<times> f64 list) list \<Rightarrow>
    compose_error + (reference_command list \<times> composed)" where
  "command_run h T c [] = Inr ([], c)"
| "command_run h T c (i # is) = bindE (composed_command h T c (PInt (cp_last_step c + 1)) (fst i) (snd i)) (\<lambda>(cmd, c').
     bindE (command_run h T c' is) (\<lambda>(cmds, c''). Inr (cmd # cmds, c'')))"

definition origin_after :: "reference_command list \<Rightarrow> int \<times> f64 \<Rightarrow> int \<times> f64" where
  "origin_after cmds origin = fold moved_origin cmds origin"

text \<open>The phase of the command before, under the origin it left: at the first boundary there is none.\<close>

definition previous_phase :: "int \<times> f64 \<Rightarrow> int \<Rightarrow> f64 option" where
  "previous_phase origin now = (if now = 0 then None else case origin_phase origin (now - 1) of Inl _ \<Rightarrow> None | Inr p \<Rightarrow> Some p)"

text \<open>A transition of the phase at a boundary: it names the boundary, the sides of the switch and the nearest pose.\<close>

definition transferred :: "hasher \<Rightarrow> segment_math \<Rightarrow> segment \<Rightarrow> int \<Rightarrow> f64 list \<Rightarrow> machine \<Rightarrow> decision \<Rightarrow> phase_transition \<Rightarrow> bool" where
  "transferred h T s now pose m d tr \<longleftrightarrow> tr_control_step tr = now \<and>
     tr_from_state tr = mc_state m \<and> tr_from_behavior tr = mc_behavior m \<and>
     tr_to_state tr = dc_state d \<and> tr_to_behavior tr = dc_behavior d \<and> tr_segment_sha256 tr = segment_sha256 h s \<and>
     nearest_pose T s pose (tr_selected tr) (tr_distance tr)"

definition plays :: "hasher \<Rightarrow> segment_math \<Rightarrow> segment \<Rightarrow> f64 \<Rightarrow> reference_command \<Rightarrow> bool" where
  "plays h T s phase cmd \<longleftrightarrow> rc_segment_sha256 cmd = segment_sha256 h s \<and>
     reported_phase T s phase = Inr (rc_phase_seconds cmd) \<and>
     rc_phase_fraction cmd = CourseTask.quotient (rc_phase_seconds cmd) (sg_duration s) \<and>
     (\<exists>row. segment_features T s [phase] = Inr [row] \<and> rc_current cmd = row) \<and>
     segment_features T s (map (f32_add phase) offset_times) = Inr (rc_window cmd)"

text \<open>
  One command of a machine \<open>m\<close> whose clip began at \<open>origin\<close>: what the machine is given, what it decides, and
  what is played of the segment of the deciding controller, from the moved origin.
\<close>

definition commanded :: "hasher \<Rightarrow> segment_math \<Rightarrow> (string \<times> segment) list \<Rightarrow> int \<times> f64 \<Rightarrow> int \<Rightarrow> machine \<Rightarrow>
    (string \<times> pyval) list \<times> nat list \<times> f64 list \<Rightarrow> (string \<times> pyval) list \<times> bool \<Rightarrow> decision \<Rightarrow> reference_command \<Rightarrow> bool" where
  "commanded h T segments origin now m given i d cmd \<longleftrightarrow>
     fst i = fst given @ [(''dwell'', PInt (mc_dwell m))] \<and> dict_get (fst given) ''dwell'' = None \<and>
     (\<exists>acting before. map_of segments (mc_behavior m) = Some acting \<and> origin_phase origin now = Inr before \<and>
        allows_ordinary_transition acting (previous_phase origin now) before = Inr (snd i)) \<and>
     rc_state cmd = dc_state d \<and> rc_behavior cmd = dc_behavior d \<and>
     (\<exists>s phase. map_of segments (dc_behavior d) = Some s \<and>
        (case rc_transition cmd of
           None \<Rightarrow> \<not> dc_switched d \<and> origin_phase origin now = Inr phase
         | Some tr \<Rightarrow> dc_switched d \<and> transferred h T s now (snd (snd given)) m d tr \<and> origin_phase (now, tr_selected tr) now = Inr phase) \<and>
        plays h T s phase cmd)"

lemma command_commanded:
  assumes inv: "composed_inv program segments c"
    and one: "composed_command h T c (PInt (cp_last_step c + 1)) (fst given) (snd given) = Inr (cmd, c')"
  shows "\<exists>i d. control_step (cp_machine c) i = Inr (d, cp_machine c') \<and>
     commanded h T segments (cp_origin_step c, cp_origin_seconds c) (cp_last_step c + 1) (cp_machine c) given i d cmd \<and>
     cp_last_step c' = cp_last_step c + 1 \<and>
     (cp_origin_step c', cp_origin_seconds c') = moved_origin cmd (cp_origin_step c, cp_origin_seconds c)"
proof -
  let ?o = "(cp_origin_step c, cp_origin_seconds c)" and ?now = "cp_last_step c + 1"
  from one obtain previous phase0 allow d m s origin transition phase current window reported where
    dwell: "dict_get (fst given) ''dwell'' = None" and p: "segment_of c (mc_behavior (cp_machine c)) = Inr previous"
    and ph0: "composed_phase c ?now = Inr phase0"
    and al: "allows_ordinary_transition previous
       (if cp_last_behavior c = Some (mc_behavior (cp_machine c)) then cp_last_phase c else None) phase0 = Inr allow"
    and d: "decide (cp_machine c) (fst given @ [(''dwell'', PInt (mc_dwell (cp_machine c)))]) allow = Inr (d, m)"
    and s: "segment_of c (dc_behavior d) = Inr s" and tr': "transfer_phase h T c ?now (snd given) s d = Inr (origin, transition)"
    and ph: "origin_phase origin ?now = Inr phase"
    and fs: "segment_features T s [phase] = Inr current" "segment_features T s (map (f32_add phase) offset_times) = Inr window"
      "reported_phase T s phase = Inr reported"
    and cmd: "cmd = \<lparr>rc_state = dc_state d, rc_behavior = dc_behavior d, rc_current = current ! 0, rc_window = window,
       rc_phase_seconds = reported, rc_phase_fraction = CourseTask.quotient reported (sg_duration s),
       rc_segment_sha256 = segment_sha256 h s, rc_transition = transition\<rparr>"
    and c': "c' = c\<lparr>cp_machine := advance m, cp_last_step := ?now, cp_origin_step := fst origin,
       cp_origin_seconds := snd origin, cp_last_behavior := Some (dc_behavior d), cp_last_phase := Some phase\<rparr>"
    by (rule composed_commandE)
  let ?i = "(fst given @ [(''dwell'', PInt (mc_dwell (cp_machine c)))], allow)"
  have seg: "map_of segments (mc_behavior (cp_machine c)) = Some previous" "map_of segments (dc_behavior d) = Some s"
    using p s inv by (auto simp: segment_of_def composed_inv_def split: option.splits)
  have "(if cp_last_behavior c = Some (mc_behavior (cp_machine c)) then cp_last_phase c else None) = previous_phase ?o ?now"
    using inv by (auto simp: composed_inv_def previous_phase_def composed_phase_def split: if_splits)
  note al = al[unfolded this]
  have "\<exists>row. current = [row]" using segment_features_length[OF fs(1)] by (auto simp: length_Suc_conv)
  then have pl: "plays h T s phase cmd" using fs by (auto simp: plays_def cmd)
  have o: "origin = moved_origin cmd ?o" using transfer_origin[of h T c ?now "snd given" s d origin cmd] tr' by (simp add: cmd)
  have "case rc_transition cmd of
           None \<Rightarrow> \<not> dc_switched d \<and> origin_phase ?o ?now = Inr phase
         | Some tr \<Rightarrow> dc_switched d \<and> transferred h T s ?now (snd (snd given)) (cp_machine c) d tr \<and>
             origin_phase (?now, tr_selected tr) ?now = Inr phase"
    using tr' ph by (auto simp: cmd transfer_phase_def transferred_def dest: nearest_phase_nearest split: if_splits)
  then have "commanded h T segments ?o ?now (cp_machine c) given ?i d cmd"
    using dwell seg ph0 al pl unfolding commanded_def by (auto simp: composed_phase_def cmd)
  moreover have "control_step (cp_machine c) ?i = Inr (d, cp_machine c')" using d by (simp add: control_step_def c')
  moreover have "cp_last_step c' = ?now" "(cp_origin_step c', cp_origin_seconds c') = moved_origin cmd ?o" by (simp_all add: c' o[symmetric])
  ultimately show ?thesis by blast
qed

lemma command_run_refines:
  assumes "composed_at h T program segments c" "command_run h T c inputs = Inr (cmds, c')"
  shows "\<exists>is ds. control_run (cp_machine c) is = Inr (ds, cp_machine c') \<and>
     length cmds = length inputs \<and> length is = length inputs \<and> length ds = length inputs \<and>
     (\<forall>k < length inputs. \<exists>m. control_run (cp_machine c) (take k is) = Inr (take k ds, m) \<and>
        commanded h T segments (origin_after (take k cmds) (cp_origin_step c, cp_origin_seconds c)) (cp_last_step c + 1 + int k) m
          (inputs ! k) (is ! k) (ds ! k) (cmds ! k))"
  using assms
proof (induction inputs arbitrary: c cmds)
  case (Cons given inputs)
  from Cons.prems(2) obtain cmd c1 cmds1 where one: "composed_command h T c (PInt (cp_last_step c + 1)) (fst given) (snd given) = Inr (cmd, c1)"
    and rest: "command_run h T c1 inputs = Inr (cmds1, c')" and cmds: "cmds = cmd # cmds1"
    by (auto split: prod.splits)
  from command_commanded[OF composed_at_inv[OF Cons.prems(1)] one] obtain i d where st: "control_step (cp_machine c) i = Inr (d, cp_machine c1)"
    and first: "commanded h T segments (cp_origin_step c, cp_origin_seconds c) (cp_last_step c + 1) (cp_machine c) given i d cmd"
    and next_c: "cp_last_step c1 = cp_last_step c + 1"
      "(cp_origin_step c1, cp_origin_seconds c1) = moved_origin cmd (cp_origin_step c, cp_origin_seconds c)" by blast
  from Cons.IH[OF composed_at.step[OF Cons.prems(1) one] rest] obtain "is" ds where run: "control_run (cp_machine c1) is = Inr (ds, cp_machine c')"
    and len: "length cmds1 = length inputs" "length is = length inputs" "length ds = length inputs"
    and later: "\<forall>k < length inputs. \<exists>m. control_run (cp_machine c1) (take k is) = Inr (take k ds, m) \<and>
        commanded h T segments (origin_after (take k cmds1) (cp_origin_step c1, cp_origin_seconds c1)) (cp_last_step c1 + 1 + int k) m
          (inputs ! k) (is ! k) (ds ! k) (cmds1 ! k)" by blast
  have "\<exists>m. control_run (cp_machine c) (take k (i # is)) = Inr (take k (d # ds), m) \<and>
        commanded h T segments (origin_after (take k cmds) (cp_origin_step c, cp_origin_seconds c)) (cp_last_step c + 1 + int k) m
          ((given # inputs) ! k) ((i # is) ! k) ((d # ds) ! k) (cmds ! k)" if "k < length (given # inputs)" for k
  proof (cases k)
    case 0
    then show ?thesis using first by (simp add: cmds origin_after_def)
  next
    case (Suc j)
    then have "j < length inputs" using that by simp
    with later obtain m where "control_run (cp_machine c1) (take j is) = Inr (take j ds, m)"
      "commanded h T segments (origin_after (take j cmds1) (cp_origin_step c1, cp_origin_seconds c1)) (cp_last_step c1 + 1 + int j) m
          (inputs ! j) (is ! j) (ds ! j) (cmds1 ! j)" by blast
    then show ?thesis using st next_c by (intro exI[of _ m]) (simp add: Suc cmds origin_after_def add.assoc)
  qed
  moreover have "control_run (cp_machine c) (i # is) = Inr (d # ds, cp_machine c')" using st run by simp
  ultimately show ?case using len by (intro exI[of _ "i # is"] exI[of _ "d # ds"]) (simp add: cmds)
qed (auto intro!: exI[of _ "[]"])

text \<open>The columns of such a run.\<close>

lemma commanded_maps:
  assumes "length cmds = n" "length ds = n"
    and "\<forall>k < n. \<exists>m. P k m \<and> commanded h T segments (origin k) (now k) m (given k) (i k) (ds ! k) (cmds ! k)"
  shows "map rc_state cmds = map dc_state ds \<and> map rc_behavior cmds = map dc_behavior ds \<and>
     map (\<lambda>x. rc_transition x \<noteq> None) cmds = map dc_switched ds"
proof -
  have "rc_state (cmds ! k) = dc_state (ds ! k) \<and> rc_behavior (cmds ! k) = dc_behavior (ds ! k) \<and>
      (rc_transition (cmds ! k) \<noteq> None \<longleftrightarrow> dc_switched (ds ! k))" if "k < n" for k
    using assms(3) that by (auto simp: commanded_def split: option.splits)
  then show ?thesis using assms(1,2) by (auto simp: list_eq_iff_nth_eq)
qed

text \<open>
  C22. The composed reference is the oracle machine with a phase: consecutive commands are a run of
  \<open>OracleMachine\<close> on the program.  At every boundary the machine is given the signals of the caller and its own
  dwell, and ordinary transitions are allowed by the segment of the acting controller at the phases of this
  boundary and the one before; the command has the state, the controller and the switch decided.  A switch moves
  the origin to its own boundary and to the first of the entry times of the new segment at which the pose is
  nearest, and its record names the states, the controllers and the segment; and what a command plays is the
  segment of the deciding controller at the phase since the last switch.
\<close>

theorem composition_refines_machine:
  assumes c: "mk_composed program segments = Inr c" and run: "command_run h T c inputs = Inr (cmds, c')"
  shows "\<exists>m0 is ds. mk_machine program = Inr m0 \<and> control_run m0 is = Inr (ds, cp_machine c') \<and>
     length cmds = length inputs \<and> length is = length inputs \<and> length ds = length inputs \<and>
     map rc_state cmds = map dc_state ds \<and> map rc_behavior cmds = map dc_behavior ds \<and>
     map (\<lambda>x. rc_transition x \<noteq> None) cmds = map dc_switched ds \<and>
     (\<forall>k < length inputs. \<exists>m. control_run m0 (take k is) = Inr (take k ds, m) \<and>
        commanded h T segments (origin_after (take k cmds) (0, Fin 0)) (int k) m (inputs ! k) (is ! k) (ds ! k) (cmds ! k))"
proof -
  from c obtain m where m: "mk_machine program = Inr m" and c': "c = \<lparr>cp_program = program, cp_segments = segments, cp_machine = m,
      cp_last_step = - 1, cp_origin_step = 0, cp_origin_seconds = Fin 0, cp_last_behavior = None, cp_last_phase = None\<rparr>"
    by (auto simp: mk_composed_def composed_reset_def split: if_splits)
  from command_run_refines[OF composed_at.start[OF c] run] obtain "is" ds where r: "control_run m is = Inr (ds, cp_machine c')"
    "length cmds = length inputs" "length is = length inputs" "length ds = length inputs"
    "\<forall>k < length inputs. \<exists>m1. control_run m (take k is) = Inr (take k ds, m1) \<and>
        commanded h T segments (origin_after (take k cmds) (0, Fin 0)) (int k) m1 (inputs ! k) (is ! k) (ds ! k) (cmds ! k)"
    by (auto simp: c')
  with commanded_maps[OF r(2,4,5)] m show ?thesis by blast
qed

text \<open>
  C23. A segment that may be left only at a loop boundary is left only there: the state of the oracle changes
  only when the number of completed loops has grown since the last command, never at the first command of an
  episode, and before the first loop only at a boundary that has reached the end of the segment.
\<close>

theorem state_changes_at_loop_boundary:
  assumes at: "composed_at h T program segments c" and cmd: "composed_command h T c step_v signals pose = Inr (cmd, c')"
    and s: "map_of segments (mc_behavior (cp_machine c)) = Some s" "sg_exit_at_loop s"
    and change: "rc_state cmd \<noteq> mc_state (cp_machine c)"
  shows "\<exists>previous phase i j. 0 \<le> cp_last_step c \<and> composed_phase c (cp_last_step c) = Inr previous \<and>
     composed_phase c (cp_last_step c + 1) = Inr phase \<and>
     entry_loop_boundary_index s previous = Inr i \<and> entry_loop_boundary_index s phase = Inr j \<and> i < j \<and>
     (f64_lt previous (f64_sub (sg_duration s) (tolerance s)) \<longrightarrow> \<not> f64_lt phase (f64_sub (sg_duration s) (tolerance s)))"
proof -
  note inv = composed_at_inv[OF at]
  from cmd obtain previous phase0 allow d m where
    p: "segment_of c (mc_behavior (cp_machine c)) = Inr previous" "composed_phase c (cp_last_step c + 1) = Inr phase0"
      "allows_ordinary_transition previous
         (if cp_last_behavior c = Some (mc_behavior (cp_machine c)) then cp_last_phase c else None) phase0 = Inr allow"
    and d: "decide (cp_machine c) (signals @ [(''dwell'', PInt (mc_dwell (cp_machine c)))]) allow = Inr (d, m)"
    and st: "rc_state cmd = dc_state d"
    by (rule composed_commandE) simp
  have "previous = s" using p(1) s(1) inv by (simp add: segment_of_def composed_inv_def)
  moreover have "allow" using decide_agrees[OF d] change st by simp
  ultimately obtain q i j where q: "cp_last_phase c = Some q" "entry_loop_boundary_index s phase0 = Inr j"
    "entry_loop_boundary_index s q = Inr i" "i < j"
    using p(3) s(2) by (auto simp: allows_ordinary_transition_def split: option.splits if_splits)
  then have "0 \<le> cp_last_step c" "composed_phase c (cp_last_step c) = Inr q"
    using inv by (auto simp: composed_inv_def split: if_splits)
  moreover have "\<not> f64_lt phase0 (f64_sub (sg_duration s) (tolerance s))" if "f64_lt q (f64_sub (sg_duration s) (tolerance s))"
    using q(2-4) that by (auto simp: entry_loop_boundary_index_def split: option.splits)
  ultimately show ?thesis using p(2) q by blast
qed

section \<open>Phases advance\<close>

lemma f32_round_mono: "x \<le> y \<Longrightarrow> f64_le (f32_round x) (f32_round y)"
  using round32_mono[of x y] pow2_pos[of 128] by (auto simp: f32_round_def Let_def)

lemma f32_round_between [simp]: "f64_le (f32_round x) PosInf" "f64_le NegInf (f32_round x)"
  by (simp_all add: f32_round_def Let_def)

lemma to_f32_mono: "f64_le a b \<Longrightarrow> f64_le (to_f32 a) (to_f32 b)"
  by (cases a; cases b) (auto intro: f32_round_mono)

lemma f64_le_round_inf [simp]: "f64_le (f64_round x) PosInf" "f64_le NegInf (f64_round x)"
  by (simp_all add: f64_round_def Let_def)

lemma f64_add_mono: "f64_le a b \<Longrightarrow> f64_add x a \<noteq> NaN \<Longrightarrow> f64_add x b \<noteq> NaN \<Longrightarrow> f64_le (f64_add x a) (f64_add x b)"
  by (cases a; cases b; cases x) (auto intro: f64_round_mono)

lemma f64_mul_mono: "a \<le> b \<Longrightarrow> 0 \<le> k \<Longrightarrow> f64_le (f64_mul (Fin a) (Fin k)) (f64_mul (Fin b) (Fin k))"
  by (simp add: f64_round_mono mult_right_mono)

lemma to_f32_NaN: "to_f32 x = NaN \<longleftrightarrow> x = NaN"
  by (cases x) simp_all

lemma f64_le_not_less: "f64_le a b \<Longrightarrow> \<not> f64_lt b a"
  by (cases a; cases b) auto

lemma origin_phase_advances:
  assumes "origin_phase origin n = Inr p" "origin_phase origin (n + 1) = Inr q" "q \<noteq> NaN" "p \<noteq> NaN"
  shows "f64_le p q"
proof -
  obtain dt where dt: "CONTROL_DT_SECONDS = Fin dt" "0 < dt" by (rule control_dt)
  obtain x y where xy: "float_of_int (n - fst origin) = Some x" "float_of_int (n + 1 - fst origin) = Some y"
    and pq: "p = to_f32 (f64_add (snd origin) (f64_mul x CONTROL_DT_SECONDS))" "q = to_f32 (f64_add (snd origin) (f64_mul y CONTROL_DT_SECONDS))"
    using assms(1,2) by (auto simp: origin_phase_def split: option.splits)
  obtain a b where ab: "x = Fin a" "y = Fin b" using float_of_int_SomeD[OF xy(1)] float_of_int_SomeD[OF xy(2)] by (auto simp: is_finite_iff)
  have "f64_le (Fin a) (Fin b)"
    using xy ab f64_round_mono[of "of_int (n - fst origin)" "of_int (n + 1 - fst origin)"]
    by (auto simp: float_of_int_def Let_def split: if_splits)
  then have "f64_le (f64_mul (Fin a) (Fin dt)) (f64_mul (Fin b) (Fin dt))" using f64_mul_mono[of a b dt] dt(2) by simp
  then show ?thesis unfolding pq ab dt(1) using assms(3,4) pq
    by (intro to_f32_mono f64_add_mono) (simp_all add: to_f32_NaN dt(1) ab)
qed

text \<open>The tolerance of a segment with a finite end is not negative.\<close>

lemma tolerance_nonneg:
  assumes "is_finite (sg_end s)"
  shows "f64_le (Fin 0) (tolerance s)"
proof -
  have nonneg: "f64_le (Fin 0) (f64_mul x (Fin k))" if "f64_le (Fin 0) x" "0 < k" for x k
    using that f64_round_mono[of 0] f64_rep_round[OF f64_rep_of_int[of 0]] by (cases x) auto
  have "\<exists>m. py_max (sg_end s) (Fin 1) = Fin m \<and> 1 \<le> m"
    using assms by (cases "sg_end s") (auto simp: py_max_def not_less)
  then obtain m where m: "py_max (sg_end s) (Fin 1) = Fin m" "1 \<le> m" by blast
  have "f64_le (Fin 0) (f64_mul (Fin (1 / 2 ^ 23)) (Fin m))" by (rule nonneg) (use m(2) in simp_all)
  then show ?thesis unfolding tolerance_def FLOAT32_EPS_def m(1) by (rule nonneg) simp
qed

lemma within_tolerance:
  assumes "f64_le p q" "f64_ok q" "f64_le (Fin 0) t"
  shows "\<not> f64_lt (f64_add q t) p"
proof (cases "f64_add q t = NaN")
  case False
  have "f64_le q (f64_add q t)" using assms(2,3) False f64_add_ge by (cases q; cases t) auto
  with assms(1) show ?thesis by (intro f64_le_not_less) (rule f64_le_trans)
qed simp

text \<open>The check that the phase advances never fires.\<close>

lemma phase_advances:
  assumes inv: "composed_inv program segments c" and t: "is_finite (sg_end s)"
    and p: "composed_phase c (cp_last_step c + 1) = Inr phase"
    and q: "(if cp_last_behavior c = Some (mc_behavior (cp_machine c)) then cp_last_phase c else None) = Some previous"
  shows "\<not> f64_lt (f64_add phase (tolerance s)) previous"
proof (cases "phase = NaN \<or> previous = NaN")
  case True
  then show ?thesis by (cases "f64_add phase (tolerance s)") auto
next
  case False
  have "composed_phase c (cp_last_step c) = Inr previous" using inv q by (auto simp: composed_inv_def split: if_splits)
  with p False have "f64_le previous phase" by (intro origin_phase_advances) (auto simp: composed_phase_def)
  moreover have "f64_ok phase"
    using p by (auto simp: composed_phase_def origin_phase_def f32_ok_f64_ok split: option.splits)
  ultimately show ?thesis by (intro within_tolerance tolerance_nonneg t)
qed

section \<open>Segments that can be played\<close>

definition segment_ok :: "segment \<Rightarrow> bool" where
  "segment_ok s \<longleftrightarrow> is_finite (sg_start s) \<and> is_finite (sg_end s) \<and> f64_lt (Fin 0) (sg_duration s) \<and>
     (sg_boundary s = ENTRY_LOOP \<longleftrightarrow> sg_loop_start s \<noteq> None) \<and> (sg_exit_at_loop s \<longrightarrow> sg_boundary s = ENTRY_LOOP) \<and>
     (\<forall>e. sg_entry_end s = Some e \<longrightarrow> is_finite e \<and> f64_le (Fin 0) e)"

lemma mk_segment_ok:
  assumes "mk_segment m parent start finish entry_v boundary loop_v exit_v = Inr s"
  shows "segment_ok s \<and> sg_motion s = m"
proof -
  let ?d = "f64_sub finish start"
  have b: "is_finite start" "is_finite finish" "\<not> f64_lt ?d CONTROL_DT_SECONDS"
    using assms by (auto simp: mk_segment_def Let_def split: if_splits)
  have "bindE (read_entry_phase ?d entry_v) (\<lambda>entry. bindE (read_loop start finish boundary entry loop_v) (\<lambda>loop.
      case exit_v of PBool b \<Rightarrow> if b \<and> boundary \<noteq> ENTRY_LOOP then Inl SegmentExit
          else Inr \<lparr>sg_motion = m, sg_parent = parent, sg_start = start, sg_end = finish, sg_entry_end = entry,
             sg_boundary = boundary, sg_loop_start = loop, sg_exit_at_loop = b\<rparr>
        | _ \<Rightarrow> Inl SegmentExit)) = Inr s"
    using assms by (auto simp only: mk_segment_def Let_def split: if_splits)
  then obtain entry loop where r: "read_entry_phase ?d entry_v = Inr entry" "read_loop start finish boundary entry loop_v = Inr loop"
    and "(case exit_v of PBool b \<Rightarrow> if b \<and> boundary \<noteq> ENTRY_LOOP then Inl SegmentExit
          else Inr \<lparr>sg_motion = m, sg_parent = parent, sg_start = start, sg_end = finish, sg_entry_end = entry,
             sg_boundary = boundary, sg_loop_start = loop, sg_exit_at_loop = b\<rparr>
        | _ \<Rightarrow> Inl SegmentExit) = Inr s" by (auto simp only: bindE_eq_Inr)
  then obtain x where s: "s = \<lparr>sg_motion = m, sg_parent = parent, sg_start = start, sg_end = finish, sg_entry_end = entry,
       sg_boundary = boundary, sg_loop_start = loop, sg_exit_at_loop = x\<rparr>" and x: "x \<longrightarrow> boundary = ENTRY_LOOP"
    by (cases exit_v) (auto split: if_splits)
  obtain dt where dt: "CONTROL_DT_SECONDS = Fin dt" "0 < dt" by (rule control_dt)
  obtain u v where uv: "start = Fin u" "finish = Fin v" using b(1,2) by (auto simp: is_finite_iff)
  have "?d \<noteq> NaN" by (simp add: uv f64_sub_def f64_round_def Let_def)
  then have "f64_lt (Fin 0) ?d" using b(3)[unfolded dt(1)] dt(2) by (cases ?d) auto
  moreover have "\<forall>e. entry = Some e \<longrightarrow> is_finite e \<and> f64_le (Fin 0) e"
    using r(1) by (auto simp: read_entry_phase_def split: pyval.splits if_splits)
  moreover have "boundary = ENTRY_LOOP \<longleftrightarrow> loop \<noteq> None"
    using r(2) by (auto simp: read_loop_def split: pyval.splits if_splits)
  ultimately show ?thesis using b x by (simp add: s segment_ok_def sg_duration_def)
qed

text \<open>A clip of known shape with a positive finite duration and frame period.\<close>

definition playable :: "motion \<Rightarrow> bool" where
  "playable m \<longleftrightarrow> motion_shaped m \<and> mo_frame_count m \<le> 2 ^ 24 \<and> is_finite (mo_duration m) \<and> f64_lt (Fin 0) (mo_duration m) \<and>
     is_finite (CourseTask.quotient (Fin 1) (mo_fps m)) \<and> f64_lt (Fin 0) (CourseTask.quotient (Fin 1) (mo_fps m))"

text \<open>Of torch: shapes, and a range of times that begins at its start.\<close>

definition segment_math_ok :: "segment_math \<Rightarrow> bool" where
  "segment_math_ok T \<longleftrightarrow> torch_ok (clip_math T) \<and>
     (\<forall>d period. f64_lt (Fin 0) d \<longrightarrow> f64_lt (Fin 0) period \<longrightarrow> is_finite period \<longrightarrow> (\<exists>ts. s_arange T d period = Fin 0 # ts))"

abbreviation feature_failure :: "compose_error \<Rightarrow> bool" where
  "feature_failure e \<equiv> e = Clip TimesNotFinite \<or> e = Clip FeaturesNotFinite"

lemma playback_cases:
  assumes "segment_math_ok T" "playable m"
  shows "(\<exists>e. liftE Clip (motion_features (clip_math T) m ts) = Inl e \<and> feature_failure e) \<or>
    (\<exists>v. liftE Clip (motion_features (clip_math T) m ts) = Inr v \<and> length v = length ts)"
proof (cases "list_all is_finite (map to_f32 ts)")
  case True
  obtain d where "mo_duration m = Fin d" "0 < d" using assms(2) by (cases "mo_duration m") (auto simp: playable_def)
  with motion_features_total[OF _ _ _ _ _ True, of "clip_math T" m d] assms show ?thesis
    by (auto simp: segment_math_ok_def playable_def shaped_def)
next
  case False
  then have "motion_features (clip_math T) m ts = Inl TimesNotFinite" by (simp add: motion_features_def sample_def)
  then show ?thesis by simp
qed

lemma entry_loop_phases:
  assumes "sg_loop_start s = Some l"
  shows "\<exists>ps. mapE (entry_loop_phase T s) phases = Inr ps \<and> length ps = length phases"
  by (induction phases) (auto simp: entry_loop_phase_def assms Let_def)

lemma segment_features_cases:
  assumes "segment_math_ok T" "playable (sg_motion s)" "segment_ok s"
  shows "(\<exists>e. segment_features T s phases = Inl e \<and> feature_failure e) \<or>
    (\<exists>v. segment_features T s phases = Inr v \<and> length v = length phases)"
proof (cases "sg_boundary s = ENTRY_LOOP")
  case True
  then obtain l where l: "sg_loop_start s = Some l" using assms(3) by (auto simp: segment_ok_def)
  obtain ps where ps: "mapE (entry_loop_phase T s) phases = Inr ps" "length ps = length phases"
    using entry_loop_phases[OF l] by blast
  then show ?thesis using playback_cases[OF assms(1,2), of "map (f32_add (to_f32 (sg_start s))) ps"] True
    by (auto simp: segment_features_def ENTRY_LOOP_def HOLD_LAST_def)
next
  case False
  consider "sg_boundary s = HOLD_LAST" | "sg_boundary s \<noteq> HOLD_LAST" "f64_eq (sg_start s) (Fin 0) \<and> f64_eq (sg_end s) (mo_duration (sg_motion s))"
    | "sg_boundary s \<noteq> HOLD_LAST" "\<not> (f64_eq (sg_start s) (Fin 0) \<and> f64_eq (sg_end s) (mo_duration (sg_motion s)))" by blast
  then show ?thesis
  proof cases
    case 1
    then show ?thesis using playback_cases[OF assms(1,2), of "map (\<lambda>p. clip_to (to_f32 (sg_start s)) (s_below T (to_f32 (sg_end s)))
          (f32_add (to_f32 (sg_start s)) p)) phases"] by (auto simp: segment_features_def)
  next
    case 2
    then show ?thesis using playback_cases[OF assms(1,2), of phases] False by (simp add: segment_features_def)
  next
    case 3
    then show ?thesis
      using playback_cases[OF assms(1,2), of "map (\<lambda>p. f32_add (to_f32 (sg_start s)) (s_remainder T p (to_f32 (sg_duration s)))) phases"] False
      by (auto simp: segment_features_def)
  qed
qed

lemma nearest_phase_fails:
  assumes T: "segment_math_ok T" "playable (sg_motion s)" "segment_ok s" and f: "nearest_phase T s pose = Inl e"
  shows "e = PoseInvalid \<or> feature_failure e"
proof (cases "fst pose \<noteq> [26] \<or> \<not> list_all is_finite (snd pose)")
  case False
  define ts where "ts = (case sg_entry_end s of None \<Rightarrow> s_arange T (sg_duration s) (CourseTask.quotient (Fin 1) (mo_fps (sg_motion s)))
     | Some e \<Rightarrow> filter (\<lambda>t. f64_le t (to_f32 e)) (s_arange T (sg_duration s) (CourseTask.quotient (Fin 1) (mo_fps (sg_motion s)))))"
  obtain us where us: "s_arange T (sg_duration s) (CourseTask.quotient (Fin 1) (mo_fps (sg_motion s))) = Fin 0 # us"
    using T by (force simp: segment_math_ok_def playable_def segment_ok_def)
  have "f64_le (Fin 0) (to_f32 e)" if "sg_entry_end s = Some e" for e
    using to_f32_mono[of "Fin 0" e] that T(3) by (simp add: segment_ok_def)
  then have "ts \<noteq> []" by (auto simp: ts_def us split: option.splits)
  have body: "nearest_phase T s pose = bindE (segment_features T s ts) (\<lambda>candidates.
     let scores = map (pose_score T (snd pose)) candidates in if scores = [] then Inl NoCandidates
       else let selected = argmin scores in Inr (ts ! selected, scores ! selected))"
    unfolding nearest_phase_def Let_def ts_def by (simp only: False if_False)
  from segment_features_cases[OF T, of ts] show ?thesis
  proof (elim disjE exE conjE)
    fix v assume v: "segment_features T s ts = Inr v" "length v = length ts"
    then have "v \<noteq> []" using \<open>ts \<noteq> []\<close> by auto
    then show ?thesis using f v(1) by (simp add: body Let_def)
  qed (use f body in simp_all)
qed (use f in \<open>simp add: nearest_phase_def\<close>)

section \<open>When a command fails\<close>

definition composition_ok :: "(string \<Rightarrow> ast option) \<Rightarrow> segment_math \<Rightarrow> cycle_program \<Rightarrow> (string \<times> segment) list \<Rightarrow> bool" where
  "composition_ok parser T program segments \<longleftrightarrow> cycle_ok parser program \<and> segment_math_ok T \<and>
     (\<forall>(n, s) \<in> set segments. segment_ok s \<and> playable (sg_motion s))"

lemma composed_machine_inv:
  assumes "composed_at h T program segments c" "cycle_ok parser program"
  shows "machine_inv program (cp_machine c)"
  using assms
proof (induction rule: composed_at.induct)
  case (start c)
  then show ?case by (auto simp: mk_composed_def composed_reset_def dest: mk_machine_inv[rotated] intro: mk_machine_inv split: if_splits)
next
  case (step c step_v signals pose cmd c')
  from step.hyps(2) obtain allow d m where
    "decide (cp_machine c) (signals @ [(''dwell'', PInt (mc_dwell (cp_machine c)))]) allow = Inr (d, m)" "cp_machine c' = advance m"
    by (rule composed_commandE) simp
  then have "control_step (cp_machine c) (signals @ [(''dwell'', PInt (mc_dwell (cp_machine c)))], allow) = Inr (d, cp_machine c')"
    by (simp add: control_step_def)
  with step.IH step.prems show ?case by (blast intro: control_step_inv)
qed

lemma behavior_declared:
  assumes "cycle_ok parser p" "machine_inv p m"
  shows "mc_behavior m \<in> set (cy_behaviors p)"
proof (cases "mc_recovery_active m")
  case True
  then show ?thesis using assms by (auto simp: machine_inv_def cycle_ok_def recovery_ok_def split: option.splits)
next
  case False
  then have b: "mc_state m \<in> fst ` set (cy_states p)" "mc_behavior m = behavior_of p (mc_state m)"
    using assms(2) by (simp_all add: machine_inv_def)
  then obtain st where "map_of (cy_states p) (mc_state m) = Some st" by (cases "map_of (cy_states p) (mc_state m)") (auto simp: map_of_eq_None_iff)
  with b(2) have "(mc_state m, st) \<in> set (cy_states p)" "mc_behavior m = st_behavior st"
    by (auto simp: behavior_of_def dest: map_of_SomeD)
  then show ?thesis using assms(1) by (auto simp: cycle_ok_def state_entry_ok_def list_all_iff)
qed

lemma segment_known:
  assumes "composed_inv program segments c" "b \<in> set (cy_behaviors program)" "composition_ok parser T program segments"
  obtains s where "segment_of c b = Inr s" "segment_ok s" "playable (sg_motion s)"
proof -
  have "b \<in> fst ` set segments" using assms(1,2) by (simp add: composed_inv_def)
  then obtain s where s: "map_of segments b = Some s" by (cases "map_of segments b") (auto simp: map_of_eq_None_iff)
  then have "(b, s) \<in> set segments" by (rule map_of_SomeD)
  with assms(1,3) s show ?thesis by (intro that[of s]) (auto simp: composition_ok_def segment_of_def composed_inv_def)
qed

lemma allows_fails:
  assumes "composed_inv program segments c" "segment_ok s" "composed_phase c (cp_last_step c + 1) = Inr phase"
    and "allows_ordinary_transition s (if cp_last_behavior c = Some (mc_behavior (cp_machine c)) then cp_last_phase c else None) phase = Inl e"
  shows "e = LoopIndex"
  using assms(2,4) phase_advances[OF assms(1) _ assms(3), of s]
  by (auto simp: allows_ordinary_transition_def bindE_eq_Inl entry_loop_boundary_index_def segment_ok_def split: option.splits if_splits f64.splits)

lemma reported_phase_total: "segment_ok s \<Longrightarrow> \<exists>x. reported_phase T s phase = Inr x"
  by (auto simp: reported_phase_def segment_ok_def entry_loop_phase_def Let_def)

text \<open>
  C24. With an accepted oracle, constructed segments over playable clips and consecutive steps, a command
  fails only for a supplied dwell, a refusal of the machine itself, a malformed pose at a switch, features
  that are not finite, or numbers beyond the floats.  No segment is missing, no candidate list is empty, no
  assertion fires, and the phase never moves backwards.
\<close>

theorem composition_failures:
  assumes ok: "composition_ok parser T program segments" and at: "composed_at h T program segments c"
    and fails: "composed_command h T c (PInt (cp_last_step c + 1)) signals pose = Inl e"
  shows "e = DwellSupplied \<and> dict_get signals ''dwell'' \<noteq> None \<or>
     (\<exists>e' allow. e = Machine e' \<and> decide (cp_machine c) (signals @ [(''dwell'', PInt (mc_dwell (cp_machine c)))]) allow = Inl e') \<or>
     e \<in> {PoseInvalid, Clip TimesNotFinite, Clip FeaturesNotFinite, LoopIndex, StepTooLarge}"
proof (cases "dict_get signals ''dwell''")
  case (Some v)
  then show ?thesis using fails by (simp add: composed_command_def)
next
  case None
  note inv = composed_at_inv[OF at]
  have cok: "cycle_ok parser program" and T: "segment_math_ok T" using ok by (simp_all add: composition_ok_def)
  note minv = composed_machine_inv[OF at cok]
  let ?now = "cp_last_step c + 1"
  let ?signals = "signals @ [(''dwell'', PInt (mc_dwell (cp_machine c)))]"
  have large: "e' = StepTooLarge" if "origin_phase x n = Inl e'" for x n e'
    using that by (auto simp: origin_phase_def split: option.splits)
  obtain previous where p: "segment_of c (mc_behavior (cp_machine c)) = Inr previous" "segment_ok previous"
    using segment_known[OF inv behavior_declared[OF cok minv] ok] by metis
  show ?thesis
  proof (cases "composed_phase c ?now")
    case (Inl e')
    then have "e = e'" using fails None p by (simp add: composed_command_def)
    then show ?thesis using large Inl by (simp add: composed_phase_def)
  next
    case (Inr phase0)
    let ?allows = "allows_ordinary_transition previous
      (if cp_last_behavior c = Some (mc_behavior (cp_machine c)) then cp_last_phase c else None) phase0"
    show ?thesis
    proof (cases ?allows)
      case (Inl e')
      then have "e = e'" using fails None p \<open>composed_phase c ?now = Inr phase0\<close> by (simp add: composed_command_def)
      then show ?thesis using allows_fails[OF inv p(2) \<open>composed_phase c ?now = Inr phase0\<close>] Inl by simp
    next
      case (Inr allow)
      note upto = p(1) \<open>composed_phase c ?now = Inr phase0\<close> Inr
      show ?thesis
      proof (cases "decide (cp_machine c) ?signals allow")
        case (Inl e')
        then have "e = Machine e'" using fails None upto by (simp add: composed_command_def)
        then show ?thesis using Inl by blast
      next
        case (Inr dm)
        obtain d m where dm: "decide (cp_machine c) ?signals allow = Inr (d, m)" using Inr by (cases dm) simp
        have "machine_inv program (advance m)"
          using control_step_inv[OF cok minv, of "(?signals, allow)" d "advance m"] dm by (simp add: control_step_def)
        then have "dc_behavior d \<in> set (cy_behaviors program)"
          using behavior_declared[OF cok] decide_agrees[OF dm] by fastforce
        then obtain s where s: "segment_of c (dc_behavior d) = Inr s" "segment_ok s" "playable (sg_motion s)"
          using segment_known[OF inv _ ok] by metis
        have tail: "bindE (transfer_phase h T c ?now pose s d) (\<lambda>(origin, transition).
            bindE (origin_phase origin ?now) (\<lambda>phase. bindE (segment_features T s [phase]) (\<lambda>current.
            bindE (segment_features T s (map (f32_add phase) offset_times)) (\<lambda>window.
            bindE (reported_phase T s phase) (\<lambda>reported. Inr (reference_command.make (dc_state d) (dc_behavior d) (current ! 0)
               window reported (CourseTask.quotient reported (sg_duration s)) (segment_sha256 h s) transition)))))) = Inl e"
          using fails None upto dm s(1) by (auto simp: composed_command_def bindE_eq_Inl split_beta)
        have feat: "feature_failure e'" if "segment_features T s ps = Inl e'" for ps e'
          using segment_features_cases[OF T s(3,2), of ps] that by auto
        have trans: "e' = PoseInvalid \<or> feature_failure e'" if "transfer_phase h T c ?now pose s d = Inl e'" for e'
          using that nearest_phase_fails[OF T s(3,2)] by (auto simp: transfer_phase_def bindE_eq_Inl split: if_splits)
        have "reported_phase T s phase \<noteq> Inl e'" for phase e' using reported_phase_total[OF s(2), of T phase] by auto
        then show ?thesis using tail by (auto simp: bindE_eq_Inl dest: feat trans large)
      qed
    qed
  qed
qed

section \<open>Witnesses\<close>

text \<open>
  The walking oracle over the still clip: the walker plays a short segment once and then loops, and may be
  left only at a loop boundary; the others play the whole clip.
\<close>

definition loop_segment :: segment where
  "loop_segment = \<lparr>sg_motion = still_clip, sg_parent = replicate 64 CHR ''a'', sg_start = Fin 0, sg_end = Fin (1 / 32),
     sg_entry_end = Some (Fin 0), sg_boundary = ENTRY_LOOP, sg_loop_start = Some (Fin (1 / 1024)), sg_exit_at_loop = True\<rparr>"

definition clip_segment :: segment where
  "clip_segment = \<lparr>sg_motion = still_clip, sg_parent = replicate 64 CHR ''b'', sg_start = Fin 0, sg_end = Fin 1,
     sg_entry_end = None, sg_boundary = WRAP, sg_loop_start = None, sg_exit_at_loop = False\<rparr>"

definition walk_segments :: "(string \<times> segment) list" where
  "walk_segments = [(''walker'', loop_segment), (''runner'', clip_segment), (''riser'', clip_segment)]"

definition still_segments :: segment_math where
  "still_segments = torch.extend still_torch
     \<lparr>s_remainder = (\<lambda>_ _. Fin 0), s_arange = (\<lambda>_ _. [Fin 0]), s_below = (\<lambda>x. x), s_mean = (\<lambda>_. Fin 0)\<rparr>"

definition still_pose :: "nat list \<times> f64 list" where
  "still_pose = ([26], replicate 26 (Fin 0))"

definition walk_facts :: "(string \<times> pyval) list" where
  "walk_facts = [(''t'', PFloat (Fin 0)), (''v_x'', PFloat (Fin 2)), (''v_target'', PInt 2), (''z_root'', PInt 1),
     (''torso_up'', PInt 1), (''x_travelled'', PInt 0)]"

definition held_machine :: "int \<Rightarrow> machine" where
  "held_machine k = \<lparr>mc_program = walk_oracle, mc_state = ''walk'', mc_behavior = ''walker'', mc_dwell = k, mc_recovery_active = False,
     mc_recovery_elapsed = 0, mc_reentry_remaining = 0, mc_outgoing = group_outgoing (cy_transitions walk_oracle)\<rparr>"

lemma held_decides:
  "decide (held_machine 0) (walk_facts @ [(''dwell'', PInt 0)]) False = Inr (unchanged (held_machine 0) OrdinaryTransitionDeferred, held_machine 0)"
  "decide (held_machine 1) (walk_facts @ [(''dwell'', PInt 1)]) False = Inr (unchanged (held_machine 1) OrdinaryTransitionDeferred, held_machine 1)"
  by code_simp+

lemma held_leaves:
  "decide (held_machine 2) (walk_facts @ [(''dwell'', PInt 2)]) True =
     Inr (\<lparr>dc_state = ''run'', dc_behavior = ''runner'', dc_switched = True, dc_transition = True, dc_recovery_entered = False,
           dc_recovery_exited = False, dc_reason = TransitionPriority 0\<rparr>,
         (held_machine 2)\<lparr>mc_state := ''run'', mc_behavior := ''runner'', mc_dwell := 0\<rparr>)"
  by code_simp

lemma held_advances: "advance (held_machine k) = held_machine (k + 1)"
  by (simp add: advance_def held_machine_def)

text \<open>The phases of the first three steps, and their side of the end of the segment.\<close>

lemma early_phase:
  assumes "k \<in> {0, 1, 2}"
  obtains x where "origin_phase (0, Fin 0) k = Inr (Fin x)" "f32_rep x" "of_int k / 64 \<le> x" "x \<le> of_int k * 3 / 128"
proof -
  obtain dt where dt: "CONTROL_DT_SECONDS = Fin dt" "1 / 64 \<le> dt" "dt \<le> 3 / 128" by (rule control_dt)
  have r: "f64_rep (of_int k / 64)" "f64_rep (of_int k * 3 / 128)" "f32_rep (of_int k / 64)" "f32_rep (of_int k * 3 / 128)"
    using assms round_rat_scaled[of k "- 6"] round_rat_scaled[of "3 * k" "- 7"] f32_rep_scaled[of k "- 6"] f32_rep_scaled[of "3 * k" "- 7"]
    by (auto simp: f64_rep_def pow2_def)
  have "of_int k / 64 \<le> of_int k * dt" "of_int k * dt \<le> of_int k * 3 / 128" using assms dt(2,3) by auto
  then have "fin_in (f64_round (of_int k * dt)) (of_int k / 64) (of_int k * 3 / 128)" using r by (intro round_in)
  then obtain y where y: "f64_round (of_int k * dt) = Fin y" "f64_rep y" "of_int k / 64 \<le> y" "y \<le> of_int k * 3 / 128" by (auto simp: fin_in_def)
  obtain x where x: "f32_round y = Fin x" "f32_rep x" "of_int k / 64 \<le> x" "x \<le> of_int k * 3 / 128"
    using f32_round_in[OF r(3,4) y(3,4)] by blast
  have "float_of_int k = Some (Fin (of_int k))" using assms by (intro float_of_int_small) auto
  then have "origin_phase (0, Fin 0) k = Inr (Fin x)" using y(1,2) x(1) by (simp add: origin_phase_def dt(1) f64_rep_round)
  with x show ?thesis by (intro that[of x])
qed

lemma loop_end: "f64_sub (sg_duration loop_segment) (tolerance loop_segment) = Fin (1 / 32 - 1 / 2 ^ 21)"
  and loop_tolerance: "tolerance loop_segment = Fin (1 / 2 ^ 21)"
proof -
  have r: "f64_rep (1 / 32)" "f64_rep (1 / 2 ^ 23)" "f64_rep (1 / 2 ^ 21)" "f64_rep (1 / 32 - 1 / 2 ^ 21)"
    using round_rat_scaled[of 1 "- 5"] round_rat_scaled[of 1 "- 23"] round_rat_scaled[of 1 "- 21"] round_rat_scaled[of 65535 "- 21"]
    by (simp_all add: f64_rep_def pow2_def)
  show t: "tolerance loop_segment = Fin (1 / 2 ^ 21)"
    using f64_rep_round[OF r(2)] f64_rep_round[OF r(3)]
    by (simp add: tolerance_def loop_segment_def FLOAT32_EPS_def py_max_def)
  show "f64_sub (sg_duration loop_segment) (tolerance loop_segment) = Fin (1 / 32 - 1 / 2 ^ 21)"
    unfolding t using f64_rep_round[OF r(1)] f64_rep_round[OF r(4)]
    by (simp add: sg_duration_def loop_segment_def f64_sub_def)
qed

lemma loop_index_before: "x \<le> 3 / 128 \<Longrightarrow> entry_loop_boundary_index loop_segment (Fin x) = Inr (- 1)"
  unfolding entry_loop_boundary_index_def loop_end by (simp add: loop_segment_def)

lemma loop_index_after:
  assumes "1 / 32 \<le> x" "x \<le> 3 / 64"
  shows "\<exists>j. entry_loop_boundary_index loop_segment (Fin x) = Inr j \<and> 0 \<le> j"
proof -
  have r: "f32_rep 0" "f32_rep (1 / 32)" "f32_rep (1 / 64)" "f32_rep (31 / 1024)" "f32_rep 2" "f64_rep (31 / 1024)" "f64_rep (1 / 32)" "f32_rep (1 / 2 ^ 21)"
    using f32_rep_of_int[of 0] f32_rep_scaled[of 1 "- 5"] f32_rep_scaled[of 1 "- 6"] f32_rep_scaled[of 31 "- 10"] f32_rep_of_int[of 2]
      round_rat_scaled[of 31 "- 10"] round_rat_scaled[of 1 "- 5"] f32_rep_scaled[of 1 "- 21"]
    by (simp_all add: pow2_def f64_rep_def)
  have d: "to_f32 (sg_duration loop_segment) = Fin (1 / 32)" "to_f32 (f64_sub (sg_end loop_segment) (Fin (1 / 1024))) = Fin (31 / 1024)"
    "to_f32 (tolerance loop_segment) = Fin (1 / 2 ^ 21)"
    using f64_rep_round[OF r(6)] f64_rep_round[OF r(7)] f32_rep_round[OF r(2)] f32_rep_round[OF r(4)] f32_rep_round[OF r(8)]
    by (simp_all add: loop_tolerance) (simp_all add: sg_duration_def loop_segment_def f64_sub_def)
  obtain a where a: "f32_round (x - 1 / 32) = Fin a" "0 \<le> a" "a \<le> 1 / 64"
    using f32_round_in[OF r(1,3), of "x - 1 / 32"] assms by (auto simp: algebra_simps)
  obtain b where b: "f32_round (a + 1 / 2 ^ 21) = Fin b" "0 \<le> b" "b \<le> 1 / 32"
    using f32_round_in[OF r(1,2), of "a + 1 / 2 ^ 21"] a(2,3) by (auto simp: field_simps)
  obtain q where q: "f32_round (b / (31 / 1024)) = Fin q" "0 \<le> q"
    using f32_round_in[OF r(1,5), of "b / (31 / 1024)"] b(2,3) by (auto simp: field_simps)
  have "\<not> f64_lt (Fin x) (Fin (1 / 32 - 1 / 2 ^ 21))" using assms(1) by simp
  then have "entry_loop_boundary_index loop_segment (Fin x) = Inr \<lfloor>q\<rfloor>"
    unfolding entry_loop_boundary_index_def loop_end
    using d a(1) b(1) q(1) by (simp add: loop_segment_def f32_sub_def)
  then show ?thesis using q(2) by simp
qed

lemma still_clip_math [simp]: "clip_math still_segments = still_torch"
  by (simp add: clip_math_def still_segments_def torch.truncate_def torch.extend_def still_torch_def)

lemma mild_features: "list_all mild ps \<Longrightarrow> motion_features still_torch still_clip ps = Inr (replicate (length ps) (replicate 30 (Fin 0)))"
  by (rule still_features) (auto simp: list_all_iff mild_finite mild_is_finite)

lemma loop_phase_mild:
  assumes "mild p"
  shows "\<exists>q. entry_loop_phase still_segments loop_segment p = Inr q \<and> mild q"
proof -
  have r: "f64_rep (1 / 1024)" "f32_rep (1 / 1024)"
    using round_rat_scaled[of 1 "- 10"] f32_rep_scaled[of 1 "- 10"] by (simp_all add: pow2_def f64_rep_def)
  have "f32_add (to_f32 (f64_sub (Fin (1 / 1024)) (Fin 0))) (Fin 0) = Fin (1 / 1024)"
    using f64_rep_round[OF r(1)] f32_rep_round[OF r(2)] by (simp add: f64_sub_def)
  moreover have "mild (Fin (1 / 1024))" unfolding mild_def using r(2) by (intro exI[of _ "1 / 1024"]) simp
  ultimately show ?thesis using assms
    by (simp add: entry_loop_phase_def loop_segment_def Let_def still_segments_def torch.extend_def)
qed

lemma loop_features:
  assumes "list_all mild ps"
  shows "segment_features still_segments loop_segment ps = Inr (replicate (length ps) (replicate 30 (Fin 0)))"
proof -
  have "\<exists>qs. mapE (entry_loop_phase still_segments loop_segment) ps = Inr qs \<and> list_all mild qs \<and> length qs = length ps"
    using assms
  proof (induction ps)
    case (Cons p ps)
    then obtain q qs where "entry_loop_phase still_segments loop_segment p = Inr q" "mild q"
      "mapE (entry_loop_phase still_segments loop_segment) ps = Inr qs" "list_all mild qs" "length qs = length ps"
      using loop_phase_mild[of p] by auto
    then show ?case by (intro exI[of _ "q # qs"]) simp
  qed simp
  then obtain qs where qs: "mapE (entry_loop_phase still_segments loop_segment) ps = Inr qs" "list_all mild qs" "length qs = length ps" by blast
  have z: "f32_add (Fin 0) q = q" if "mild q" for q
    using that by (auto simp: mild_def f32_rep_round)
  have "map (f32_add (Fin 0)) qs = qs" using qs(2) z by (simp add: map_idI list_all_iff)
  then show ?thesis using qs mild_features[OF qs(2)]
    by (simp add: segment_features_def loop_segment_def ENTRY_LOOP_def HOLD_LAST_def)
qed

lemma clip_features: "list_all mild ps \<Longrightarrow> segment_features still_segments clip_segment ps = Inr (replicate (length ps) (replicate 30 (Fin 0)))"
  by (simp add: segment_features_def clip_segment_def WRAP_def ENTRY_LOOP_def HOLD_LAST_def mild_features) (simp add: still_clip_def)

definition waiting :: "int \<Rightarrow> composed" where
  "waiting k = \<lparr>cp_program = walk_oracle, cp_segments = walk_segments, cp_machine = held_machine k, cp_last_step = k - 1,
     cp_origin_step = 0, cp_origin_seconds = Fin 0, cp_last_behavior = (if k = 0 then None else Some ''walker''),
     cp_last_phase = (if k = 0 then None else Some (projr (origin_phase (0, Fin 0) (k - 1))))\<rparr>"

lemma walk_starts: "mk_composed walk_oracle walk_segments = Inr (waiting 0)"
  by (simp add: mk_composed_def composed_reset_def mk_machine_def waiting_def walk_segments_def walk_oracle_def held_machine_def)

lemma waits:
  assumes k: "k = 0 \<or> k = 1"
  shows "\<exists>cmd. composed_command demo_hasher still_segments (waiting k) (PInt k) walk_facts still_pose = Inr (cmd, waiting (k + 1)) \<and>
     rc_state cmd = ''walk'' \<and> rc_behavior cmd = ''walker'' \<and> rc_transition cmd = None"
proof -
  have k': "k \<in> {0, 1, 2}" using k by auto
  obtain x where x: "origin_phase (0, Fin 0) k = Inr (Fin x)" "f32_rep x" "of_int k / 64 \<le> x" "x \<le> of_int k * 3 / 128"
    using early_phase[OF k'] by blast
  have m: "mild (Fin x)" "x \<le> 3 / 128" "0 \<le> x" using x k by (auto simp: mild_def)
  have s: "segment_of (waiting k) ''walker'' = Inr loop_segment" by (simp add: segment_of_def waiting_def walk_segments_def)
  have ph: "composed_phase (waiting k) k = Inr (Fin x)" using x(1) by (simp add: composed_phase_def waiting_def)
  have allow: "allows_ordinary_transition loop_segment (cp_last_phase (waiting k)) (Fin x) = Inr False"
  proof (cases "k = 0")
    case False
    obtain y where y: "origin_phase (0, Fin 0) 0 = Inr (Fin y)" "y \<le> 0" using early_phase[of 0] by auto
    have "\<not> f64_lt (f64_add (Fin x) (tolerance loop_segment)) (Fin y)"
      using y(2) m(3) f32_rep_is_f64[OF x(2)] by (intro within_tolerance) (simp_all add: loop_tolerance)
    then show ?thesis using False k y m loop_index_before[of x] loop_index_before[of y]
      by (simp add: allows_ordinary_transition_def waiting_def) (simp add: loop_segment_def)
  qed (simp add: allows_ordinary_transition_def waiting_def loop_segment_def)
  have d: "decide (held_machine k) (walk_facts @ [(''dwell'', PInt k)]) False = Inr (unchanged (held_machine k) OrdinaryTransitionDeferred, held_machine k)"
    using k held_decides by auto
  have f: "segment_features still_segments loop_segment [Fin x] = Inr [replicate 30 (Fin 0)]" using loop_features[of "[Fin x]"] m by simp
  have w: "segment_features still_segments loop_segment (map (f32_add (Fin x)) offset_times) =
      Inr (replicate (length offset_times) (replicate 30 (Fin 0)))"
    using loop_features[OF window_times_mild[OF m(1) refl]] m(2) by simp
  obtain rep where rep: "reported_phase still_segments loop_segment (Fin x) = Inr rep"
    using loop_phase_mild[OF m(1)] by (auto simp: reported_phase_def loop_segment_def ENTRY_LOOP_def HOLD_LAST_def)
  have sel: "cp_last_step (waiting k) + 1 = k" "cp_machine (waiting k) = held_machine k" "mc_behavior (held_machine k) = ''walker''"
    "mc_dwell (held_machine k) = k" "dict_get walk_facts ''dwell'' = None"
    "(if cp_last_behavior (waiting k) = Some ''walker'' then cp_last_phase (waiting k) else None) = cp_last_phase (waiting k)"
    by (simp_all add: waiting_def held_machine_def dict_get_def walk_facts_def)
  have un: "dc_behavior (unchanged (held_machine k) r) = ''walker''" "dc_switched (unchanged (held_machine k) r) = False"
    "dc_state (unchanged (held_machine k) r) = ''walk''" for r by (simp_all add: unchanged_def held_machine_def)
  have tr: "transfer_phase demo_hasher still_segments (waiting k) k still_pose loop_segment
      (unchanged (held_machine k) OrdinaryTransitionDeferred) = Inr ((0, Fin 0), None)"
    unfolding transfer_phase_def un by (simp add: waiting_def)
  have next_state: "(waiting k)\<lparr>cp_machine := held_machine (k + 1), cp_last_step := k, cp_origin_step := 0, cp_origin_seconds := Fin 0,
      cp_last_behavior := Some ''walker'', cp_last_phase := Some (Fin x)\<rparr> = waiting (k + 1)"
    using x(1) k by (auto simp: waiting_def)
  from composed_commandI[of walk_facts "waiting k", unfolded sel un, OF refl s ph allow d, unfolded un, OF s tr x(1) f w rep]
  show ?thesis unfolding fst_conv snd_conv held_advances next_state by (intro exI conjI) (assumption, simp_all)
qed

lemma runs_on: "nearest_phase still_segments clip_segment still_pose = Inr (Fin 0, Fin 0)"
proof -
  have "s_arange still_segments d p = [Fin 0]" "s_mean still_segments xs = Fin 0" for d p xs
    by (simp_all add: still_segments_def torch.extend_def)
  moreover have "segment_features still_segments clip_segment [Fin 0] = Inr [replicate 30 (Fin 0)]" "sg_entry_end clip_segment = None"
    using clip_features[of "[Fin 0]"] by (simp_all add: clip_segment_def)
  ultimately show ?thesis
    by (simp add: nearest_phase_def still_pose_def Let_def argmin_def pose_score_def del: replicate.simps)
qed

text \<open>The third command meets the end of the first loop, and the deferred transition is taken.\<close>

lemma leaves_at_boundary:
  assumes "pose = still_pose \<or> fst pose = []"
  shows "\<exists>cmd c'. composed_command demo_hasher still_segments (waiting 2) (PInt 2) walk_facts pose =
      (if pose = still_pose then Inr (cmd, c') else Inl PoseInvalid) \<and>
     rc_state cmd = ''run'' \<and> rc_behavior cmd = ''runner'' \<and> rc_transition cmd \<noteq> None"
proof -
  obtain x where x: "origin_phase (0, Fin 0) 2 = Inr (Fin x)" "f32_rep x" "1 / 32 \<le> x" "x \<le> 3 / 64"
    using early_phase[of 2] by auto
  obtain y where y: "origin_phase (0, Fin 0) 1 = Inr (Fin y)" "y \<le> 3 / 128" using early_phase[of 1] by auto
  obtain j where j: "entry_loop_boundary_index loop_segment (Fin x) = Inr j" "0 \<le> j" using loop_index_after[OF x(3,4)] by blast
  have "\<not> f64_lt (f64_add (Fin x) (tolerance loop_segment)) (Fin y)"
    using y(2) x(3) f32_rep_is_f64[OF x(2)] by (intro within_tolerance) (simp_all add: loop_tolerance)
  then have allow: "allows_ordinary_transition loop_segment (cp_last_phase (waiting 2)) (Fin x) = Inr True"
    using y j loop_index_before[OF y(2)] by (simp add: allows_ordinary_transition_def waiting_def)
  have s: "segment_of (waiting 2) ''walker'' = Inr loop_segment" "segment_of (waiting 2) ''runner'' = Inr clip_segment"
    by (simp_all add: segment_of_def waiting_def walk_segments_def)
  have ph: "composed_phase (waiting 2) 2 = Inr (Fin x)" using x(1) by (simp add: composed_phase_def waiting_def)
  have sel: "cp_last_step (waiting 2) + 1 = 2" "cp_machine (waiting 2) = held_machine 2" "mc_behavior (held_machine 2) = ''walker''"
    "mc_dwell (held_machine 2) = 2" "dict_get walk_facts ''dwell'' = None"
    "(if cp_last_behavior (waiting 2) = Some ''walker'' then cp_last_phase (waiting 2) else None) = cp_last_phase (waiting 2)"
    by (simp_all add: waiting_def held_machine_def dict_get_def walk_facts_def)
  let ?d = "\<lparr>dc_state = ''run'', dc_behavior = ''runner'', dc_switched = True, dc_transition = True, dc_recovery_entered = False,
     dc_recovery_exited = False, dc_reason = TransitionPriority 0\<rparr>"
  show ?thesis
  proof (cases "pose = still_pose")
    case True
    obtain tr where tr: "transfer_phase demo_hasher still_segments (waiting 2) 2 pose clip_segment ?d = Inr ((2, Fin 0), Some tr)"
      using runs_on by (simp add: True transfer_phase_def)
    obtain dt where dt: "CONTROL_DT_SECONDS = Fin dt" by (rule control_dt)
    have o: "origin_phase (2, Fin 0) 2 = Inr (Fin 0)"
      using f64_rep_round[OF f64_rep_of_int[of 0]] float_of_int_small[of 0] by (simp add: origin_phase_def dt)
    have f: "segment_features still_segments clip_segment [Fin 0] = Inr [replicate 30 (Fin 0)]" using clip_features[of "[Fin 0]"] by simp
    have w: "segment_features still_segments clip_segment (map (f32_add (Fin 0)) offset_times) =
        Inr (replicate (length offset_times) (replicate 30 (Fin 0)))"
      using clip_features[OF window_times_mild[of "Fin 0" 0]] by simp
    have rep: "reported_phase still_segments clip_segment (Fin 0) = Inr (Fin 0)"
      by (simp add: reported_phase_def clip_segment_def WRAP_def HOLD_LAST_def ENTRY_LOOP_def still_segments_def torch.extend_def)
    from composed_commandI[of walk_facts "waiting 2", unfolded sel, OF refl s(1) ph allow held_leaves, simplified decision.simps, OF s(2) tr o f w rep]
    show ?thesis unfolding True by (intro exI) (auto simp del: replicate.simps)
  next
    case False
    then have "nearest_phase still_segments clip_segment pose = Inl PoseInvalid" using assms by (simp add: nearest_phase_def)
    then have "composed_command demo_hasher still_segments (waiting 2) (PInt 2) walk_facts pose = Inl PoseInvalid"
      unfolding composed_command_def pyval.case sel s(1) bindE_simps ph allow held_leaves liftE_simps prod.case
      using s(2) by (simp add: transfer_phase_def)
    then show ?thesis using False
      by (intro exI[of _ "\<lparr>rc_state = ''run'', rc_behavior = ''runner'', rc_current = [], rc_window = [], rc_phase_seconds = Fin 0,
          rc_phase_fraction = Fin 0, rc_segment_sha256 = [], rc_transition = Some undefined\<rparr>"]) simp
  qed
qed

theorem composition_refines_machine_witness:
  "\<exists>cmds c m is ds tr. command_run demo_hasher still_segments (waiting 0) (replicate 3 (walk_facts, still_pose)) = Inr (cmds, c) \<and>
     mk_machine walk_oracle = Inr m \<and> control_run m is = Inr (ds, cp_machine c) \<and>
     map dc_behavior ds = [''walker'', ''walker'', ''runner''] \<and> map dc_switched ds = [False, False, True] \<and>
     rc_transition (cmds ! 2) = Some tr \<and> tr_control_step tr = 2 \<and> tr_to_behavior tr = ''runner'' \<and>
     nearest_pose still_segments clip_segment (snd still_pose) (tr_selected tr) (tr_distance tr)"
proof -
  obtain a b d c where cmds: "composed_command demo_hasher still_segments (waiting 0) (PInt 0) walk_facts still_pose = Inr (a, waiting 1)"
      "composed_command demo_hasher still_segments (waiting 1) (PInt 1) walk_facts still_pose = Inr (b, waiting 2)"
      "composed_command demo_hasher still_segments (waiting 2) (PInt 2) walk_facts still_pose = Inr (d, c)"
    and b: "rc_behavior a = ''walker''" "rc_behavior b = ''walker''" "rc_behavior d = ''runner''"
      "rc_transition a = None" "rc_transition b = None" "rc_transition d \<noteq> None"
    using waits[of 0] waits[of 1] leaves_at_boundary[of still_pose] by auto
  have "cp_last_step (waiting k) + 1 = k" for k by (simp add: waiting_def)
  then have run: "command_run demo_hasher still_segments (waiting 0) (replicate 3 (walk_facts, still_pose)) = Inr ([a, b, d], c)"
    using cmds by (simp add: numeral_3_eq_3)
  from composition_refines_machine[OF walk_starts run] obtain m "is" ds where
    m: "mk_machine walk_oracle = Inr m" "control_run m is = Inr (ds, cp_machine c)"
    and maps: "map rc_behavior [a, b, d] = map dc_behavior ds" "map (\<lambda>x. rc_transition x \<noteq> None) [a, b, d] = map dc_switched ds"
    and at: "\<forall>k < length (replicate 3 (walk_facts, still_pose)). \<exists>m1. control_run m (take k is) = Inr (take k ds, m1) \<and>
        commanded demo_hasher still_segments walk_segments (origin_after (take k [a, b, d]) (0, Fin 0)) (int k) m1
          (replicate 3 (walk_facts, still_pose) ! k) (is ! k) (ds ! k) ([a, b, d] ! k)"
    by blast
  from maps(1) have "dc_behavior (ds ! 2) = ''runner''" using b(3) by (auto simp: numeral_2_eq_2 map_eq_Cons_conv dest!: sym[of _ "map dc_behavior ds"])
  moreover from at[rule_format, of 2] obtain m1 where
    "commanded demo_hasher still_segments walk_segments (origin_after [a, b] (0, Fin 0)) 2 m1 (walk_facts, still_pose) (is ! 2) (ds ! 2) d" by auto
  moreover have "map_of walk_segments ''runner'' = Some clip_segment" by (simp add: walk_segments_def)
  ultimately obtain tr where "rc_transition d = Some tr" "transferred demo_hasher still_segments clip_segment 2 (snd still_pose) m1 (ds ! 2) tr"
    using b(6) unfolding commanded_def by (auto split: option.splits)
  then have "rc_transition ([a, b, d] ! 2) = Some tr" "tr_control_step tr = 2" "tr_to_behavior tr = ''runner''"
    "nearest_pose still_segments clip_segment (snd still_pose) (tr_selected tr) (tr_distance tr)"
    using \<open>dc_behavior (ds ! 2) = _\<close> by (simp_all add: transferred_def)
  moreover have "map dc_behavior ds = [''walker'', ''walker'', ''runner'']" "map dc_switched ds = [False, False, True]"
    using maps b by simp_all
  ultimately show ?thesis using run m
    by (intro exI[of _ "[a, b, d]"] exI[of _ c] exI[of _ m] exI[of _ "is"] exI[of _ ds] exI[of _ tr]) (simp only: simp_thms)
qed

lemma walk_composition_ok: "composition_ok walk_parser still_segments walk_oracle walk_segments"
proof -
  have m: "segment_math_ok still_segments"
    using still_torch_ok by (simp add: segment_math_ok_def) (simp add: still_segments_def torch.extend_def)
  have p: "playable still_clip"
    using mk_motion_shaped[OF still_torch_ok still_arrays_sized still_clip_made] f64_rep_round[OF f64_rep_of_int[of 1]]
    by (simp add: playable_def) (simp add: still_clip_def CourseTask.quotient_def)
  have r: "f64_round (1 / 32) = Fin (1 / 32)" "f64_round 1 = Fin 1"
    using round_rat_scaled[of 1 "- 5"] f64_rep_of_int[of 1] by (simp_all add: f64_rep_round f64_rep_def pow2_def)
  have s: "segment_ok loop_segment" "segment_ok clip_segment" "sg_motion loop_segment = still_clip" "sg_motion clip_segment = still_clip"
    using r by (simp_all add: segment_ok_def loop_segment_def clip_segment_def sg_duration_def f64_sub_def WRAP_def ENTRY_LOOP_def)
  show ?thesis using walk_oracle_ok m p s by (simp add: composition_ok_def walk_segments_def)
qed

lemma waiting_reached: "composed_at demo_hasher still_segments walk_oracle walk_segments (waiting 2)"
proof -
  have "composed_at demo_hasher still_segments walk_oracle walk_segments (waiting 0)" by (rule composed_at.start[OF walk_starts])
  then have "composed_at demo_hasher still_segments walk_oracle walk_segments (waiting 1)"
    using waits[of 0] by (auto intro: composed_at.step)
  then show ?thesis using waits[of 1] by (auto intro: composed_at.step)
qed

theorem state_changes_at_loop_boundary_witness:
  "\<exists>cmd c' i j previous phase. composed_command demo_hasher still_segments (waiting 2) (PInt 2) walk_facts still_pose = Inr (cmd, c') \<and>
     rc_state cmd = ''run'' \<and> composed_phase (waiting 2) 1 = Inr previous \<and> composed_phase (waiting 2) 2 = Inr phase \<and>
     entry_loop_boundary_index loop_segment previous = Inr i \<and> entry_loop_boundary_index loop_segment phase = Inr j \<and> i < j"
proof -
  obtain cmd c' where cmd: "composed_command demo_hasher still_segments (waiting 2) (PInt 2) walk_facts still_pose = Inr (cmd, c')"
    "rc_state cmd = ''run''" using leaves_at_boundary[of still_pose] by auto
  have s: "map_of walk_segments (mc_behavior (cp_machine (waiting 2))) = Some loop_segment" "sg_exit_at_loop loop_segment"
    "mc_state (cp_machine (waiting 2)) = ''walk''" "cp_last_step (waiting 2) = 1"
    by (simp_all add: waiting_def held_machine_def walk_segments_def) (simp add: loop_segment_def)
  have "rc_state cmd \<noteq> mc_state (cp_machine (waiting 2))" using cmd(2) s(3) by simp
  from state_changes_at_loop_boundary[OF waiting_reached cmd(1) s(1,2) this] cmd s(4) show ?thesis by auto
qed

theorem composition_failures_witness:
  "composed_command demo_hasher still_segments (waiting 2) (PInt 2) walk_facts ([], []) = Inl PoseInvalid \<and>
   PoseInvalid \<in> {PoseInvalid, Clip TimesNotFinite, Clip FeaturesNotFinite, LoopIndex, StepTooLarge}"
proof -
  have f: "composed_command demo_hasher still_segments (waiting 2) (PInt (cp_last_step (waiting 2) + 1)) walk_facts ([], []) = Inl PoseInvalid"
    using leaves_at_boundary[of "([], [])"] by (simp add: still_pose_def waiting_def)
  from composition_failures[OF walk_composition_ok waiting_reached f] f show ?thesis by (simp add: waiting_def)
qed

end
