(* ===== verification/HeadingFeedback.thy ===== *)
theory HeadingFeedback
  imports Composition
begin

text \<open>
  Heading feedback after the course (\<open>adapters/gmt/heading_feedback.py\<close>): the inputs of the oracle at a control
  boundary, the fixed law that steers the yaw-rate column of a native reference window, the target held for the
  same action, and the evidence of one steered action.
\<close>

section \<open>Constants\<close>

definition AFTER_HEADING_FEEDBACK_CONTRACT_ID :: string where
  "AFTER_HEADING_FEEDBACK_CONTRACT_ID = ''gmt_g1_after_heading_reference_feedback/v1''"
definition AFTER_HEADING_FEEDBACK_TRACE_KEY :: string where
  "AFTER_HEADING_FEEDBACK_TRACE_KEY = ''after_heading_reference_feedback''"
definition YAW_RATE_COLUMN :: nat where "YAW_RATE_COLUMN = 6"
definition LATERAL_TO_HEADING_GAIN_RAD_PER_M :: f64 where "LATERAL_TO_HEADING_GAIN_RAD_PER_M = f64_round (3 / 10)"
definition TARGET_HEADING_LIMIT_RAD :: f64 where "TARGET_HEADING_LIMIT_RAD = f64_round (3 / 10)"
definition CORRECTION_TIME_CONSTANT_SECONDS :: f64 where "CORRECTION_TIME_CONSTANT_SECONDS = Fin 1"
definition ISSUED_YAW_RATE_LIMIT_RAD_S :: f64 where "ISSUED_YAW_RATE_LIMIT_RAD_S = f64_round (3 / 10)"
definition ISSUED_YAW_RATE_MIN_F32 :: f64 where "ISSUED_YAW_RATE_MIN_F32 = to_f32 (f64_neg ISSUED_YAW_RATE_LIMIT_RAD_S)"
definition ISSUED_YAW_RATE_MAX_F32 :: f64 where "ISSUED_YAW_RATE_MAX_F32 = to_f32 ISSUED_YAW_RATE_LIMIT_RAD_S"

definition after_heading_feedback_contract :: pyval where
  "after_heading_feedback_contract = PDict [
     (''schema_version'', PInt 1),
     (''contract_id'', PStr AFTER_HEADING_FEEDBACK_CONTRACT_ID),
     (''active_executed_state'', PStr ''after''),
     (''measurement_boundary'', PStr ''pre_action_initial_heading_task_frame''),
     (''lateral_to_heading_gain_rad_per_m'', PFloat LATERAL_TO_HEADING_GAIN_RAD_PER_M),
     (''target_heading_limit_rad'', PFloat TARGET_HEADING_LIMIT_RAD),
     (''correction_time_constant_seconds'', PFloat CORRECTION_TIME_CONSTANT_SECONDS),
     (''issued_yaw_rate_limit_rad_s'', PFloat ISSUED_YAW_RATE_LIMIT_RAD_S),
     (''reference_yaw_rate_column'', PInt (int YAW_RATE_COLUMN)),
     (''window_rows'', PInt (int REFERENCE_HORIZON)),
     (''operation'', PStr ''clip_total_native_plus_correction''),
     (''arithmetic'', PStr ''float64_state_law_float32_applied_correction_and_output''),
     (''native_rate_above_limit_is_also_clipped'', PBool True),
     (''poststep_target'', PStr ''native_current_after_step_with_same_pre_action_correction_and_clip''),
     (''window_first_row_endpoint_equality'', PStr ''measured_not_assumed_across_float32_wraps''),
     (''array_hash'', PStr ''sha256_canonical_dtype_shape_nul_ordered_c_bytes'')]"

section \<open>Arrays\<close>

text \<open>
  \<open>FeedbackStepTooLarge\<close> is the \<open>OverflowError\<close> of a product of a float and an integer beyond the floats;
  \<open>Course\<close>, \<open>Sensor\<close> and \<open>Compose\<close> carry the errors of the functions called.
\<close>

datatype feedback_error =
    FloatArray string | FloatStorage string | FeedbackStep | FeedbackStepTooLarge | FeedbackValues
  | TraceForbidden | CommandDiffers | TraceEarly | NativeTargetDiffers | TraceDiffers | ReferenceDiffers | NoManipulation
  | Course course_error | Sensor control_error | Compose compose_error

definition float_values :: "nat list \<Rightarrow> string \<Rightarrow> np_value \<Rightarrow> feedback_error + (dtype \<times> f64 list)" where
  "float_values shape field v = (case v of
       NpArray d s contiguous data \<Rightarrow>
         if s \<noteq> shape \<or> d = OtherType \<or> \<not> list_all is_finite data then Inl (FloatArray field) else Inr (d, data)
     | NotNpArray \<Rightarrow> Inl (FloatArray field))"

definition reference_values :: "nat list \<Rightarrow> string \<Rightarrow> np_value \<Rightarrow> feedback_error + f64 list" where
  "reference_values shape field v = bindE (float_values shape field v) (\<lambda>(d, data).
     case v of
       NpArray _ _ contiguous _ \<Rightarrow> if d \<noteq> F32 \<or> \<not> contiguous then Inl (FloatStorage field) else Inr data
     | NotNpArray \<Rightarrow> Inl (FloatStorage field))"

text \<open>
  Beyond the libraries of \<open>GmtControl\<close>: the square of one numpy scalar in its type, and the bytes of binary32
  values in order.
\<close>

record feedback_math = control_math +
  fb_square :: "dtype \<Rightarrow> f64 \<Rightarrow> f64"
  fb_bytes :: "f64 list \<Rightarrow> string"

definition control_of :: "feedback_math \<Rightarrow> control_math" where
  "control_of M = control_math.truncate M"

definition course_of :: "feedback_math \<Rightarrow> course_math" where
  "course_of M = course_math.truncate M"

definition feedback_sha256 :: "hasher \<Rightarrow> feedback_math \<Rightarrow> nat list \<Rightarrow> f64 list \<Rightarrow> string" where
  "feedback_sha256 h M shape data = sha256_hex h
     (canonical_json (float_repr h) (PDict [(''dtype'', PStr ''<f4''), (''shape'', PList (map (PInt \<circ> int) shape))]) @
      [char_of (0 :: nat)] @ fb_bytes M data)"

definition wrap_angle :: "feedback_math \<Rightarrow> f64 \<Rightarrow> feedback_error + f64" where
  "wrap_angle M x = liftE Course (bindE (domainE (m_sin M) x) (\<lambda>s. bindE (domainE (m_cos M) x) (\<lambda>c. Inr (m_atan2 M s c))))"

section \<open>The inputs of the oracle\<close>

record boundary_inputs =
  bi_signals :: "(string \<times> pyval) list"
  bi_pose :: "nat list \<times> f64 list"
  bi_projection :: frame_projection

text \<open>A product of a numpy scalar and a Python float has the type of the scalar.\<close>

definition oracle_boundary_inputs :: "feedback_math \<Rightarrow> course_spec \<Rightarrow> task_frame \<Rightarrow> np_value \<Rightarrow> np_value \<Rightarrow> pyval \<Rightarrow>
    feedback_error + boundary_inputs" where
  "oracle_boundary_inputs M task frame qpos_v qvel_v step_v =
     bindE (float_values [7 + ACTION_DIM] ''boundary qpos'' qpos_v) (\<lambda>(dp, position).
     bindE (float_values [6 + ACTION_DIM] ''boundary qvel'' qvel_v) (\<lambda>(dv, velocity).
     bindE (case step_v of PInt n \<Rightarrow> if n < 0 then Inl FeedbackStep else Inr n | _ \<Rightarrow> Inl FeedbackStep) (\<lambda>control_step.
     bindE (liftE Course (frame_project (course_of M) frame (Floating [2] (take 2 position)) (Floating [4] (take 4 (drop 3 position))))) (\<lambda>projection.
     bindE (liftE Course (domainE (m_cos M) (tf_yaw frame))) (\<lambda>c.
     bindE (liftE Course (domainE (m_sin M) (tf_yaw frame))) (\<lambda>s.
       let forward_speed = add_in dv (mul_in dv (velocity ! 0) (cast_in dv c)) (mul_in dv (velocity ! 1) (cast_in dv s));
           inside = inside_region task (fp_progress projection);
           quaternion = take 4 (drop 3 position);
           torso_up = sub_in dp (Fin 1) (mul_in dp (Fin 2)
             (add_in dp (fb_square M dp (quaternion ! 1)) (fb_square M dp (quaternion ! 2))))
       in bindE (case float_of_int control_step of None \<Rightarrow> Inl FeedbackStepTooLarge
            | Some n \<Rightarrow> Inr (f64_mul n CONTROL_DT_SECONDS)) (\<lambda>t.
          bindE (liftE Sensor (sensor_euler (control_of M) dp quaternion)) (\<lambda>(roll, pitch, _).
            Inr \<lparr>bi_signals = [
                   (''t'', PFloat t),
                   (''v_x'', PFloat forward_speed),
                   (''v_target'', PFloat (if inside then cs_speed_inside task else cs_speed_outside task)),
                   (''z_root'', PFloat (position ! 2)),
                   (''torso_up'', PFloat torso_up),
                   (''x_travelled'', PFloat (fp_progress projection))],
                 bi_pose = (let joints = drop (length position - ACTION_DIM) position
                   in ([3 + length joints], [position ! 2, roll, pitch] @ joints)),
                 bi_projection = projection\<rparr>))))))))"

section \<open>The plan of one action\<close>

record heading_plan =
  hp_lateral :: f64
  hp_heading :: f64
  hp_target :: f64
  hp_correction :: f64
  hp_applied :: f64
  hp_native :: rows
  hp_issued :: rows
  hp_native_above :: nat
  hp_saturated :: nat

definition native_rate_above_limit_fraction :: "heading_plan \<Rightarrow> f64" where
  "native_rate_above_limit_fraction p = int_truediv (int (hp_native_above p)) (int REFERENCE_HORIZON)"

definition total_rate_saturation_fraction :: "heading_plan \<Rightarrow> f64" where
  "total_rate_saturation_fraction p = int_truediv (int (hp_saturated p)) (int REFERENCE_HORIZON)"

definition yaw_rates :: "rows \<Rightarrow> f64 list" where
  "yaw_rates v = map (\<lambda>row. row ! YAW_RATE_COLUMN) v"

definition changed_window_row_count :: "heading_plan \<Rightarrow> nat" where
  "changed_window_row_count p = length (filter (\<lambda>(a, b). \<not> f64_eq a b) (zip (yaw_rates (hp_native p)) (yaw_rates (hp_issued p))))"

definition feedback_value :: "pyval \<Rightarrow> feedback_error + f64" where
  "feedback_value v = (case v of PFloat x \<Rightarrow> if is_finite x then Inr x else Inl FeedbackValues | _ \<Rightarrow> Inl FeedbackValues)"

definition issued_rate :: "f64 \<Rightarrow> f64" where
  "issued_rate rate = clip_to ISSUED_YAW_RATE_MIN_F32 ISSUED_YAW_RATE_MAX_F32 rate"

definition plan_after_heading_feedback :: "feedback_math \<Rightarrow> np_value \<Rightarrow> pyval \<Rightarrow> pyval \<Rightarrow> feedback_error + heading_plan" where
  "plan_after_heading_feedback M source_v lateral_v heading_v =
     bindE (reference_values [REFERENCE_HORIZON, REFERENCE_FRAME_DIM] ''native reference window'' source_v) (\<lambda>data.
     bindE (feedback_value lateral_v) (\<lambda>lateral.
     bindE (feedback_value heading_v) (\<lambda>heading.
       let source = rows_of REFERENCE_HORIZON REFERENCE_FRAME_DIM data;
           target = clip_to (f64_neg TARGET_HEADING_LIMIT_RAD) TARGET_HEADING_LIMIT_RAD
             (f64_mul (f64_neg LATERAL_TO_HEADING_GAIN_RAD_PER_M) lateral)
       in bindE (wrap_angle M (f64_sub target heading)) (\<lambda>wrapped.
         let correction = CourseTask.quotient wrapped CORRECTION_TIME_CONSTANT_SECONDS;
             applied_correction = to_f32 correction;
             native_yaw = yaw_rates source;
             unclipped = map (\<lambda>x. f32_add x applied_correction) native_yaw
         in Inr \<lparr>hp_lateral = lateral, hp_heading = heading, hp_target = target, hp_correction = correction,
              hp_applied = applied_correction, hp_native = source,
              hp_issued = map2 (\<lambda>row rate. row[YAW_RATE_COLUMN := issued_rate rate]) source unclipped,
              hp_native_above = length (filter (\<lambda>x. f64_lt ISSUED_YAW_RATE_MAX_F32 (f64_abs x)) native_yaw),
              hp_saturated = length (filter (\<lambda>x. f64_le ISSUED_YAW_RATE_MAX_F32 (f64_abs x)) unclipped)\<rparr>))))"

definition issue_held_poststep_target :: "heading_plan \<Rightarrow> np_value \<Rightarrow> feedback_error + f64 list" where
  "issue_held_poststep_target p source_v =
     bindE (reference_values [REFERENCE_FRAME_DIM] ''native poststep target'' source_v) (\<lambda>source.
       Inr (source[YAW_RATE_COLUMN := issued_rate (f32_add (source ! YAW_RATE_COLUMN) (to_f32 (hp_applied p)))]))"

section \<open>The evidence of one action\<close>

text \<open>\<open>np.min\<close> and \<open>np.max\<close>: a NaN wins.\<close>

definition np_least :: "(f64 \<Rightarrow> f64 \<Rightarrow> bool) \<Rightarrow> f64 list \<Rightarrow> f64" where
  "np_least better xs = (if NaN \<in> set xs then NaN else foldl (\<lambda>best x. if better x best then x else best) (hd xs) (tl xs))"

definition rows_equal :: "f64 list \<Rightarrow> f64 list \<Rightarrow> bool" where
  "rows_equal xs ys \<longleftrightarrow> list_all2 f64_eq xs ys"

definition after_heading_feedback_trace :: "hasher \<Rightarrow> feedback_math \<Rightarrow> int \<Rightarrow> heading_plan \<Rightarrow> np_value \<Rightarrow> np_value \<Rightarrow>
    feedback_error + pyval" where
  "after_heading_feedback_trace h M now p source_v issued_v =
     bindE (reference_values [REFERENCE_FRAME_DIM] ''native poststep target'' source_v) (\<lambda>source.
     bindE (reference_values [REFERENCE_FRAME_DIM] ''issued poststep target'' issued_v) (\<lambda>issued.
       let totals = map (\<lambda>x. f32_add x (to_f32 (hp_applied p))) (yaw_rates (hp_native p));
           window_shape = [REFERENCE_HORIZON, REFERENCE_FRAME_DIM]
       in Inr (PDict [
         (''schema_version'', PInt 1),
         (''contract_id'', PStr AFTER_HEADING_FEEDBACK_CONTRACT_ID),
         (''pre_action_control_step'', PInt now),
         (''observed_pre_action'', PDict [
           (''lateral_m'', PFloat (hp_lateral p)),
           (''heading_error_signed_rad'', PFloat (hp_heading p))]),
         (''target_heading_rad'', PFloat (hp_target p)),
         (''correction_yaw_rate_rad_s'', PFloat (hp_correction p)),
         (''applied_correction_yaw_rate_rad_s_float32'', PFloat (hp_applied p)),
         (''window'', PDict [
           (''native_float32_c_sha256'', PStr (feedback_sha256 h M window_shape (concat (hp_native p)))),
           (''issued_float32_c_sha256'', PStr (feedback_sha256 h M window_shape (concat (hp_issued p)))),
           (''native_rate_above_limit_count'', PInt (int (hp_native_above p))),
           (''native_rate_above_limit_fraction'', PFloat (native_rate_above_limit_fraction p)),
           (''total_rate_saturation_count'', PInt (int (hp_saturated p))),
           (''total_rate_saturation_fraction'', PFloat (total_rate_saturation_fraction p)),
           (''changed_row_count'', PInt (int (changed_window_row_count p))),
           (''changed_value_count'', PInt (int (changed_window_row_count p))),
           (''unclipped_total_yaw_rate_rad_s'', PDict [
             (''minimum'', PFloat (np_least f64_lt totals)),
             (''mean'', PFloat (np_mean M totals)),
             (''maximum'', PFloat (np_least (\<lambda>x y. f64_lt y x) totals))])]),
         (''held_poststep_target'', PDict [
           (''native_float32_c_sha256'', PStr (feedback_sha256 h M [REFERENCE_FRAME_DIM] source)),
           (''issued_float32_c_sha256'', PStr (feedback_sha256 h M [REFERENCE_FRAME_DIM] issued)),
           (''native_yaw_rate_rad_s'', PFloat (source ! YAW_RATE_COLUMN)),
           (''issued_yaw_rate_rad_s'', PFloat (issued ! YAW_RATE_COLUMN)),
           (''native_matches_window_first_row'', PBool (rows_equal source (hp_native p ! 0))),
           (''matches_issued_window_first_row'', PBool (rows_equal issued (hp_issued p ! 0)))])])))"

text \<open>Two values with the same canonical bytes.\<close>

definition same_json :: "hasher \<Rightarrow> pyval \<Rightarrow> pyval \<Rightarrow> bool" where
  "same_json h observed expected = (case (canonical_json_bytes h observed, canonical_json_bytes h expected) of
       (Inr a, Inr b) \<Rightarrow> a = b
     | _ \<Rightarrow> False)"

section \<open>The law\<close>

text \<open>Of the C library: sine and cosine of a finite angle are finite, and \<open>atan2\<close> of finite values is an angle.\<close>

definition angles_ok :: "feedback_math \<Rightarrow> bool" where
  "angles_ok M \<longleftrightarrow> (\<forall>x. is_finite x \<longrightarrow> is_finite (m_sin M x) \<and> is_finite (m_cos M x)) \<and>
     (\<forall>a b. is_finite a \<longrightarrow> is_finite b \<longrightarrow> (\<exists>w. m_atan2 M a b = Fin w \<and> \<bar>w\<bar> \<le> 4))"

lemma yaw_limit:
  obtains L where "ISSUED_YAW_RATE_MIN_F32 = Fin (- L)" "ISSUED_YAW_RATE_MAX_F32 = Fin L" "0 < L"
proof -
  have r: "f64_rep (1 / 4)" "f64_rep (1 / 2)" using f64_rep_pow2[of "- 2"] f64_rep_pow2[of "- 1"] by (simp_all add: pow2_def)
  then have "fin_in (f64_round (3 / 10)) (1 / 4) (1 / 2)" by (rule round_in) simp_all
  then obtain q where q: "f64_round (3 / 10) = Fin q" "1 / 4 \<le> q" "q \<le> 1 / 2" by (auto simp: fin_in_def)
  have "f32_rep (1 / 4)" "f32_rep (1 / 2)" using f32_rep_scaled[of 1 "- 2"] f32_rep_scaled[of 1 "- 1"] by (simp_all add: pow2_def)
  from f32_round_in[OF this q(2,3)] obtain L where L: "f32_round q = Fin L" "f32_rep L" "1 / 4 \<le> L" by blast
  have "f32_round (- q) = Fin (- L)"
    using L by (auto simp: f32_round_def Let_def round32_uminus f32_rep_def abs_less_iff split: if_splits)
  with L q show ?thesis
    by (intro that[of L]) (simp_all add: ISSUED_YAW_RATE_MIN_F32_def ISSUED_YAW_RATE_MAX_F32_def ISSUED_YAW_RATE_LIMIT_RAD_S_def)
qed

text \<open>The limit is the binary32 value nearest to the binary64 value of 0.3, about 0.3000000119.\<close>

lemma round_three_tenths: "f64_round (3 / 10) = Fin (5404319552844595 / 2 ^ 54)"
proof -
  have "round_rat (3 / 10) = of_int 5404319552844595 * pow2 (- 2 + 1 - int 53)"
    unfolding round_rat_def by (rule round_to_near) (simp_all add: pow2_def)
  then show ?thesis by (simp add: f64_round_def Let_def pow2_def)
qed

lemma yaw_limit_value: "ISSUED_YAW_RATE_MAX_F32 = Fin (5033165 / 2 ^ 24)"
proof -
  have "round32 (5404319552844595 / 2 ^ 54) = of_int 10066330 * pow2 (- 2 + 1 - int 24)"
    unfolding round32_def by (rule round_to_near) (simp_all add: pow2_def)
  then show ?thesis
    by (simp add: ISSUED_YAW_RATE_MAX_F32_def ISSUED_YAW_RATE_LIMIT_RAD_S_def round_three_tenths f32_round_def Let_def pow2_def)
qed

lemma yaw_limit_values: "ISSUED_YAW_RATE_MIN_F32 = Fin (- (5033165 / 2 ^ 24)) \<and> ISSUED_YAW_RATE_MAX_F32 = Fin (5033165 / 2 ^ 24)"
proof -
  obtain L where "ISSUED_YAW_RATE_MIN_F32 = Fin (- L)" "ISSUED_YAW_RATE_MAX_F32 = Fin L" by (rule yaw_limit)
  moreover from this(2) have "L = 5033165 / 2 ^ 24" unfolding yaw_limit_value f64.inject ..
  ultimately show ?thesis using yaw_limit_value by (simp only: f64.inject)
qed

lemma issued_rate_in:
  assumes "x \<noteq> NaN"
  shows "f64_le ISSUED_YAW_RATE_MIN_F32 (issued_rate x) \<and> f64_le (issued_rate x) ISSUED_YAW_RATE_MAX_F32 \<and>
    (f64_le ISSUED_YAW_RATE_MIN_F32 x \<longrightarrow> f64_le x ISSUED_YAW_RATE_MAX_F32 \<longrightarrow> issued_rate x = x)"
proof -
  obtain L where L: "ISSUED_YAW_RATE_MIN_F32 = Fin (- L)" "ISSUED_YAW_RATE_MAX_F32 = Fin L" "0 < L" by (rule yaw_limit)
  show ?thesis unfolding issued_rate_def clip_to_def Let_def L(1,2) using assms L(3) by (cases x) auto
qed

lemma rows_of_set: "row \<in> set (rows_of n k xs) \<Longrightarrow> set row \<subseteq> set xs"
  by (induction n arbitrary: xs) (use set_take_subset set_drop_subset in fastforce)+

lemma concat_rows_of: "length xs = n * k \<Longrightarrow> concat (rows_of n k xs) = xs"
  by (induction n arbitrary: xs) (simp_all add: append_take_drop_id)

text \<open>A row is steered by a plan: only the yaw rate changes, by the correction, and it stays inside the limit.\<close>

definition steered :: "heading_plan \<Rightarrow> f64 list \<Rightarrow> f64 list \<Rightarrow> bool" where
  "steered p native issued \<longleftrightarrow> length issued = length native \<and>
     (\<forall>j < length native. j \<noteq> YAW_RATE_COLUMN \<longrightarrow> issued ! j = native ! j) \<and>
     f64_le ISSUED_YAW_RATE_MIN_F32 (issued ! YAW_RATE_COLUMN) \<and> f64_le (issued ! YAW_RATE_COLUMN) ISSUED_YAW_RATE_MAX_F32 \<and>
     (let rate = f32_add (native ! YAW_RATE_COLUMN) (hp_applied p)
      in f64_le ISSUED_YAW_RATE_MIN_F32 rate \<and> f64_le rate ISSUED_YAW_RATE_MAX_F32 \<longrightarrow> issued ! YAW_RATE_COLUMN = rate)"

lemma f32_add_finite: "is_finite a \<Longrightarrow> is_finite b \<Longrightarrow> f32_add a b \<noteq> NaN"
  by (cases a; cases b) (auto simp: f32_round_def Let_def)

lemma steered_row:
  assumes "length row = REFERENCE_FRAME_DIM" "list_all is_finite row" "is_finite (hp_applied p)"
  shows "steered p row (row[YAW_RATE_COLUMN := issued_rate (f32_add (row ! YAW_RATE_COLUMN) (hp_applied p))])"
proof -
  have len: "YAW_RATE_COLUMN < length row" using assms(1) by (simp add: YAW_RATE_COLUMN_def REFERENCE_FRAME_DIM_def)
  then have "is_finite (row ! YAW_RATE_COLUMN)" using assms(2) by (simp add: list_all_length)
  note rate = issued_rate_in[OF f32_add_finite[OF this assms(3)]]
  show ?thesis using len rate by (simp add: steered_def Let_def)
qed

lemma to_f32_idem [simp]: "f32_ok x \<Longrightarrow> to_f32 x = x"
  by (cases x) (auto simp: f32_rep_round)

lemma reference_values_Inr:
  "reference_values shape field v = Inr data \<longleftrightarrow> v = NpArray F32 shape True data \<and> list_all is_finite data"
  by (auto simp: reference_values_def float_values_def split: np_value.splits if_splits)

lemma feedback_value_Inr: "feedback_value v = Inr x \<longleftrightarrow> v = PFloat x \<and> is_finite x"
  by (auto simp: feedback_value_def split: pyval.splits if_splits)

lemma domainE_Inr: "domainE f x = Inr y \<longleftrightarrow> x \<noteq> PosInf \<and> x \<noteq> NegInf \<and> y = f x"
  by (auto simp: domainE_def)

text \<open>The parts of a plan.\<close>

lemma plan_parts:
  assumes "plan_after_heading_feedback M source_v lateral_v heading_v = Inr p"
  obtains data wrapped where "source_v = NpArray F32 [REFERENCE_HORIZON, REFERENCE_FRAME_DIM] True data" "list_all is_finite data"
    "lateral_v = PFloat (hp_lateral p)" "heading_v = PFloat (hp_heading p)" "is_finite (hp_lateral p)" "is_finite (hp_heading p)"
    "wrap_angle M (f64_sub (hp_target p) (hp_heading p)) = Inr wrapped"
    "hp_target p = clip_to (f64_neg TARGET_HEADING_LIMIT_RAD) TARGET_HEADING_LIMIT_RAD
       (f64_mul (f64_neg LATERAL_TO_HEADING_GAIN_RAD_PER_M) (hp_lateral p))"
    "hp_correction p = CourseTask.quotient wrapped (Fin 1)" "hp_applied p = to_f32 (hp_correction p)"
    "hp_native p = rows_of REFERENCE_HORIZON REFERENCE_FRAME_DIM data"
    "hp_issued p = map (\<lambda>row. row[YAW_RATE_COLUMN := issued_rate (f32_add (row ! YAW_RATE_COLUMN) (hp_applied p))]) (hp_native p)"
proof -
  have m: "map2 (\<lambda>row rate. row[YAW_RATE_COLUMN := issued_rate rate]) v (map g (yaw_rates v)) =
      map (\<lambda>row. row[YAW_RATE_COLUMN := issued_rate (g (row ! YAW_RATE_COLUMN))]) v" for v g
    by (induction v) (simp_all add: yaw_rates_def)
  from assms show ?thesis
    unfolding plan_after_heading_feedback_def bindE_eq_Inr Let_def reference_values_Inr feedback_value_Inr sum.inject
    by (elim exE conjE) (rule that; force simp: m CORRECTION_TIME_CONSTANT_SECONDS_def)
qed

lemma heading_limit:
  obtains q where "TARGET_HEADING_LIMIT_RAD = Fin q" "LATERAL_TO_HEADING_GAIN_RAD_PER_M = Fin q" "0 < q" "q \<le> 1 / 2"
proof -
  have r: "f64_rep (1 / 4)" "f64_rep (1 / 2)" using f64_rep_pow2[of "- 2"] f64_rep_pow2[of "- 1"] by (simp_all add: pow2_def)
  then have "fin_in (f64_round (3 / 10)) (1 / 4) (1 / 2)" by (rule round_in) simp_all
  then obtain q where "f64_round (3 / 10) = Fin q" "1 / 4 \<le> q" "q \<le> 1 / 2" by (auto simp: fin_in_def)
  then show ?thesis
    by (intro that[of q]) (simp_all add: TARGET_HEADING_LIMIT_RAD_def LATERAL_TO_HEADING_GAIN_RAD_PER_M_def)
qed

lemma plan_finite:
  assumes M: "angles_ok M" and plan: "plan_after_heading_feedback M source_v lateral_v heading_v = Inr p"
  shows "is_finite (hp_applied p) \<and> f64_le (f64_abs (hp_target p)) TARGET_HEADING_LIMIT_RAD"
proof -
  from plan obtain wrapped where fin: "is_finite (hp_lateral p)" "is_finite (hp_heading p)"
    and w: "wrap_angle M (f64_sub (hp_target p) (hp_heading p)) = Inr wrapped"
    and t: "hp_target p = clip_to (f64_neg TARGET_HEADING_LIMIT_RAD) TARGET_HEADING_LIMIT_RAD
       (f64_mul (f64_neg LATERAL_TO_HEADING_GAIN_RAD_PER_M) (hp_lateral p))"
    and c: "hp_correction p = CourseTask.quotient wrapped (Fin 1)" "hp_applied p = to_f32 (hp_correction p)"
    by (rule plan_parts)
  obtain q where q: "TARGET_HEADING_LIMIT_RAD = Fin q" "LATERAL_TO_HEADING_GAIN_RAD_PER_M = Fin q" "0 < q" by (rule heading_limit)
  obtain l k where lk: "hp_lateral p = Fin l" "hp_heading p = Fin k" using fin by (auto simp: is_finite_iff)
  have "\<exists>x. hp_target p = Fin x \<and> \<bar>x\<bar> \<le> q" unfolding t q lk using q(3) clip_to_in[of "f64_mul (f64_neg (Fin q)) (Fin l)" q] by simp
  then obtain x where x: "hp_target p = Fin x" "\<bar>x\<bar> \<le> q" by blast
  let ?d = "f64_sub (hp_target p) (hp_heading p)"
  have "?d \<noteq> NaN" by (simp add: x lk f64_sub_def)
  moreover have "?d \<noteq> PosInf" "?d \<noteq> NegInf" "wrapped = m_atan2 M (m_sin M ?d) (m_cos M ?d)"
    using w by (auto simp: wrap_angle_def domainE_Inr)
  ultimately have "is_finite ?d" by (cases ?d) auto
  then obtain v where v: "wrapped = Fin v" "\<bar>v\<bar> \<le> 4"
    using M \<open>wrapped = _\<close> by (fastforce simp: angles_ok_def)
  have rep: "f64_rep (- 4)" "f64_rep 4" "f32_rep (- 4)" "f32_rep 4"
    using f64_rep_of_int[of "- 4"] f64_rep_of_int[of 4] f32_rep_of_int[of "- 4"] f32_rep_of_int[of 4] by simp_all
  from rep(1,2) have "fin_in (f64_round v) (- 4) 4" using v(2) by (intro round_in) (auto simp: abs_le_iff)
  then obtain u where u: "f64_round v = Fin u" "- 4 \<le> u" "u \<le> 4" by (auto simp: fin_in_def)
  from f32_round_in[OF rep(3,4) u(2,3)] obtain r where "f32_round u = Fin r" by blast
  then show ?thesis using x u(1) unfolding q(1) by (simp add: c v CourseTask.quotient_def)
qed

text \<open>
  C32. The law of the heading feedback: a plan holds the lateral offset, the heading and the window it was given
  (its rows, in order, are the entries of the window), the target heading stays inside its limit, and every row of
  the issued window is the native row of the same place steered: only the yaw rate changes, by the one correction
  of the plan, and it lies inside the issued limit, which is the binary32 value of 0.3, a little above 0.3.  The
  target issued for the same action is never refused for a native one of finite entries, and it is steered alike.
\<close>

theorem issued_rates_bounded:
  assumes M: "angles_ok M" and plan: "plan_after_heading_feedback M (NpArray F32 shape True window) lateral_v heading_v = Inr p"
    and sized: "length window = prod_list shape"
  shows "lateral_v = PFloat (hp_lateral p) \<and> heading_v = PFloat (hp_heading p) \<and> shape = [20, 30] \<and>
     concat (hp_native p) = window \<and> length (hp_native p) = 20 \<and> list_all (\<lambda>row. length row = 30) (hp_native p) \<and>
     f64_le (f64_abs (hp_target p)) TARGET_HEADING_LIMIT_RAD \<and> is_finite (hp_applied p) \<and>
     ISSUED_YAW_RATE_MIN_F32 = Fin (- (5033165 / 2 ^ 24)) \<and> ISSUED_YAW_RATE_MAX_F32 = Fin (5033165 / 2 ^ 24) \<and>
     list_all2 (steered p) (hp_native p) (hp_issued p) \<and>
     (\<forall>current. length current = REFERENCE_FRAME_DIM \<longrightarrow> list_all is_finite current \<longrightarrow>
        (\<exists>issued. issue_held_poststep_target p (vec F32 current) = Inr issued \<and> steered p current issued))"
proof -
  from plan obtain data where d: "NpArray F32 shape True window = NpArray F32 [REFERENCE_HORIZON, REFERENCE_FRAME_DIM] True data"
      "list_all is_finite data" "lateral_v = PFloat (hp_lateral p)" "heading_v = PFloat (hp_heading p)"
      "hp_applied p = to_f32 (hp_correction p)" "hp_native p = rows_of REFERENCE_HORIZON REFERENCE_FRAME_DIM data"
      "hp_issued p = map (\<lambda>row. row[YAW_RATE_COLUMN := issued_rate (f32_add (row ! YAW_RATE_COLUMN) (hp_applied p))]) (hp_native p)"
    by (rule plan_parts)
  note fin = plan_finite[OF M plan]
  have len: "length data = REFERENCE_HORIZON * REFERENCE_FRAME_DIM" using sized d(1) by simp
  have sh: "shaped REFERENCE_HORIZON REFERENCE_FRAME_DIM (hp_native p)"
    unfolding d(6) using len by (intro rows_of_shaped) simp
  have native: "concat (hp_native p) = window \<and> length (hp_native p) = 20 \<and> list_all (\<lambda>row. length row = 30) (hp_native p)"
    using concat_rows_of[OF len] sh d(1) by (simp add: d(6) shaped_def wide_def REFERENCE_HORIZON_def REFERENCE_FRAME_DIM_def)
  have "list_all is_finite row" if "row \<in> set (hp_native p)" for row
    using that d(2) rows_of_set[of row REFERENCE_HORIZON REFERENCE_FRAME_DIM data] by (auto simp: d(6) list_all_iff)
  then have "steered p row (row[YAW_RATE_COLUMN := issued_rate (f32_add (row ! YAW_RATE_COLUMN) (hp_applied p))])"
    if "row \<in> set (hp_native p)" for row
    using that sh fin by (intro steered_row) (auto simp: shaped_def wide_def list_all_iff)
  then have "list_all2 (steered p) (hp_native p) (hp_issued p)"
    by (simp add: d(7) list_all2_map2 list.rel_refl_strong)
  moreover have app: "to_f32 (hp_applied p) = hp_applied p" by (simp add: d(5))
  moreover have "\<exists>issued. issue_held_poststep_target p (vec F32 current) = Inr issued \<and> steered p current issued"
    if "length current = REFERENCE_FRAME_DIM" "list_all is_finite current" for current
    using that fin steered_row[OF that] by (simp add: issue_held_poststep_target_def reference_values_Inr app)
  moreover have "shape = [20, 30]" using d(1) by (simp add: REFERENCE_HORIZON_def REFERENCE_FRAME_DIM_def)
  ultimately show ?thesis using fin native d(3,4) yaw_limit_values by blast
qed

section \<open>Witnesses\<close>

text \<open>The libraries of \<open>GmtControl\<close>'s witnesses, with an angle that is always a quarter.\<close>

definition quarter_math :: feedback_math where
  "quarter_math = control_math.extend (still_math\<lparr>m_atan2 := (\<lambda>_ _. Fin (1 / 4))\<rparr>)
     \<lparr>fb_square = (\<lambda>d x. mul_in d x x), fb_bytes = (\<lambda>_. [])\<rparr>"

lemma quarter_sel [simp]: "m_sin quarter_math = (\<lambda>_. Fin 0)" "m_cos quarter_math = (\<lambda>_. Fin 1)" "m_atan2 quarter_math = (\<lambda>_ _. Fin (1 / 4))"
  by (simp_all add: quarter_math_def course_math.defs control_math.defs still_math_def course_demo_math_def)

lemma quarter_angles: "angles_ok quarter_math"
  unfolding angles_ok_def quarter_sel by (auto intro!: exI[of _ "1 / 4"])

lemma quarter_plan:
  "\<exists>p. plan_after_heading_feedback quarter_math (NpArray F32 [20, 30] True (replicate 600 (Fin 0))) (PFloat (Fin 1)) (PFloat (Fin 0)) = Inr p \<and>
     hp_native p = replicate 20 (replicate 30 (Fin 0)) \<and> hp_applied p = Fin (1 / 4)"
proof -
  obtain q where q: "TARGET_HEADING_LIMIT_RAD = Fin q" "LATERAL_TO_HEADING_GAIN_RAD_PER_M = Fin q" "0 < q" "q \<le> 1 / 2" by (rule heading_limit)
  have "f64_rep (1 / 4)" "f32_rep (1 / 4)" using f64_rep_pow2[of "- 2"] f32_rep_scaled[of 1 "- 2"] by (simp_all add: pow2_def)
  then have one: "to_f32 (CourseTask.quotient (Fin (1 / 4)) (Fin 1)) = Fin (1 / 4)"
    by (simp add: CourseTask.quotient_def f64_rep_round f32_rep_round)
  have fin: "\<exists>x. clip_to (Fin (- q)) (Fin q) (f64_round (- q)) = Fin x \<and> \<bar>x\<bar> \<le> q" using q(3) clip_to_in[of "f64_round (- q)" q] by simp
  then obtain x where x: "clip_to (Fin (- q)) (Fin q) (f64_round (- q)) = Fin x" "\<bar>x\<bar> \<le> q" by blast
  have "f64_rep (- 1)" "f64_rep 1" using f64_rep_of_int[of "- 1"] f64_rep_of_int[of 1] by simp_all
  then have xin: "fin_in (f64_round x) (- 1) 1" using x(2) q(4) by (rule_tac round_in) (auto simp: abs_le_iff)
  have d: "f64_sub (Fin x) (Fin 0) \<noteq> PosInf" "f64_sub (Fin x) (Fin 0) \<noteq> NegInf"
    using xin by (auto simp: fin_in_def f64_sub_def)
  have w: "wrap_angle quarter_math (f64_sub (Fin x) (Fin 0)) = Inr (Fin (1 / 4))" using d by (simp add: wrap_angle_def domainE_def)
  have src: "reference_values [REFERENCE_HORIZON, REFERENCE_FRAME_DIM] ''native reference window'' (NpArray F32 [20, 30] True (replicate 600 (Fin 0))) =
      Inr (replicate 600 (Fin 0))"
    by (simp add: reference_values_Inr REFERENCE_HORIZON_def REFERENCE_FRAME_DIM_def)
  have rows: "rows_of REFERENCE_HORIZON REFERENCE_FRAME_DIM (replicate 600 (Fin 0)) = replicate 20 (replicate 30 (Fin 0))"
    using rows_of_replicate[of 20 30 "Fin 0"] by (simp add: REFERENCE_HORIZON_def REFERENCE_FRAME_DIM_def)
  show ?thesis
    unfolding plan_after_heading_feedback_def src q(1,2)
    by (simp add: x w one rows feedback_value_def Let_def CORRECTION_TIME_CONSTANT_SECONDS_def)
qed

theorem issued_rates_bounded_witness:
  "\<exists>p. plan_after_heading_feedback quarter_math (NpArray F32 [20, 30] True (replicate 600 (Fin 0))) (PFloat (Fin 1)) (PFloat (Fin 0)) = Inr p \<and>
     list_all2 (steered p) (replicate 20 (replicate 30 (Fin 0))) (hp_issued p) \<and> hp_applied p = Fin (1 / 4) \<and>
     concat (hp_native p) = replicate 600 (Fin 0) \<and>
     (\<exists>issued. issue_held_poststep_target p (vec F32 (replicate 30 (Fin 0))) = Inr issued \<and> steered p (replicate 30 (Fin 0)) issued)"
proof -
  from quarter_plan obtain p where p: "plan_after_heading_feedback quarter_math (NpArray F32 [20, 30] True (replicate 600 (Fin 0)))
      (PFloat (Fin 1)) (PFloat (Fin 0)) = Inr p" "hp_native p = replicate 20 (replicate 30 (Fin 0))" "hp_applied p = Fin (1 / 4)" by blast
  have "length (replicate 600 (Fin 0)) = prod_list [20, 30]" by simp
  note law = issued_rates_bounded[OF quarter_angles p(1) this]
  then have "list_all2 (steered p) (hp_native p) (hp_issued p)" by (elim conjE)
  moreover from law have "concat (hp_native p) = replicate 600 (Fin 0)" by (elim conjE)
  moreover from law have held: "\<forall>current. length current = REFERENCE_FRAME_DIM \<longrightarrow> list_all is_finite current \<longrightarrow>
      (\<exists>issued. issue_held_poststep_target p (vec F32 current) = Inr issued \<and> steered p current issued)" by (elim conjE)
  have "\<exists>issued. issue_held_poststep_target p (vec F32 (replicate 30 (Fin 0))) = Inr issued \<and> steered p (replicate 30 (Fin 0)) issued"
    by (rule held[rule_format]) (simp_all add: REFERENCE_FRAME_DIM_def list_all_iff)
  ultimately show ?thesis using p by (intro exI[of _ p]) (simp only: simp_thms)
qed

end
