(* ===== verification/CourseRuntime.thy ===== *)
theory CourseRuntime
  imports HeadingFeedback
begin

text \<open>
  The versioned runtime profiles of the course (\<open>adapters/gmt/course_runtime.py\<close>): the five closed profiles, the
  states and the programs each admits, the selection of a profile by a run configuration, and the contract that a
  manifest records.
\<close>

section \<open>Constants\<close>

definition LOOP_RUNTIME_PROFILE_ID :: string where "LOOP_RUNTIME_PROFILE_ID = ''gmt_g1_four_state_loop_course/v1''"
definition FINITE_HORIZON_RUNTIME_PROFILE_ID :: string where
  "FINITE_HORIZON_RUNTIME_PROFILE_ID = ''gmt_g1_three_state_finite_horizon_course/v1''"
definition AFTER_HEADING_FEEDBACK_RUNTIME_PROFILE_ID :: string where
  "AFTER_HEADING_FEEDBACK_RUNTIME_PROFILE_ID = ''gmt_g1_four_state_loop_after_heading_feedback_course/v1''"
definition FOUR_STATE_FINITE_HORIZON_RUNTIME_PROFILE_ID :: string where
  "FOUR_STATE_FINITE_HORIZON_RUNTIME_PROFILE_ID = ''gmt_g1_four_state_finite_horizon_course/v1''"
definition LEGACY_COMPOSITION_RUNTIME_ID :: string where
  "LEGACY_COMPOSITION_RUNTIME_ID = ''gmt_state_triggered_segment_entry_and_boundary/v2''"
definition LOOP_COMPOSITION_RUNTIME_ID :: string where
  "LOOP_COMPOSITION_RUNTIME_ID = ''gmt_state_triggered_segment_entry_loop_boundary/v3''"
definition LEGACY_GYM_RUNTIME_ID :: string where "LEGACY_GYM_RUNTIME_ID = ''gmt_g1_residual_course_50hz/v1''"
definition LOOP_GYM_RUNTIME_ID :: string where "LOOP_GYM_RUNTIME_ID = ''gmt_g1_residual_course_four_state_50hz/v2''"
definition FINITE_HORIZON_GYM_RUNTIME_ID :: string where
  "FINITE_HORIZON_GYM_RUNTIME_ID = ''gmt_g1_residual_course_three_state_finite_horizon_50hz/v1''"
definition AFTER_HEADING_FEEDBACK_GYM_RUNTIME_ID :: string where
  "AFTER_HEADING_FEEDBACK_GYM_RUNTIME_ID = ''gmt_g1_residual_course_four_state_after_heading_feedback_50hz/v1''"
definition FOUR_STATE_FINITE_HORIZON_GYM_RUNTIME_ID :: string where
  "FOUR_STATE_FINITE_HORIZON_GYM_RUNTIME_ID = ''gmt_g1_residual_course_four_state_finite_horizon_50hz/v1''"
definition COURSE_RESIDUAL_RAW_SCALE :: f64 where "COURSE_RESIDUAL_RAW_SCALE = Fin (1 / 4)"
definition LEGACY_STATE_SLOTS :: "string list" where "LEGACY_STATE_SLOTS = [''before'', ''inside'', ''after'']"
definition LOOP_STATE_SLOTS :: "string list" where "LOOP_STATE_SLOTS = [''before'', ''inside'', ''rise'', ''after'']"
definition TASK_FEATURE_NAMES :: "string list" where
  "TASK_FEATURE_NAMES = [''progress_m'', ''lateral_m'', ''heading_error_signed_rad'', ''root_height_m'', ''torso_up'',
     ''forward_speed_m_s'', ''target_speed_m_s'', ''inside_posture_region'', ''posture_band_low_m'',
     ''posture_band_high_m'', ''remaining_horizon_fraction'']"

definition profile_config :: "string \<Rightarrow> (string \<times> pyval) list" where
  "profile_config profile_id = [(''schema_version'', PInt 1), (''profile_id'', PStr profile_id)]"

section \<open>Profiles\<close>

record course_profile =
  cr_version :: int
  cr_profile_id :: "string option"
  cr_composition :: string
  cr_gym :: string
  cr_slots :: "string list"
  cr_entry_loop :: bool
  cr_exact_slots :: bool
  cr_training :: bool
  cr_horizon_terminates :: bool
  cr_heading_feedback :: bool

datatype runtime_error =
    ProfileUnknown | ExactCourse bool | StatesDiffer bool | RecoveryInLoop | SameBehavior | StateKey string
  | SchemaVersion | LegacyRuntime | ProfileDiffers string

definition LEGACY_RUNTIME :: course_profile where
  "LEGACY_RUNTIME = \<lparr>cr_version = 1, cr_profile_id = None, cr_composition = LEGACY_COMPOSITION_RUNTIME_ID,
     cr_gym = LEGACY_GYM_RUNTIME_ID, cr_slots = LEGACY_STATE_SLOTS, cr_entry_loop = False, cr_exact_slots = False,
     cr_training = True, cr_horizon_terminates = False, cr_heading_feedback = False\<rparr>"

definition LOOP_RUNTIME :: course_profile where
  "LOOP_RUNTIME = \<lparr>cr_version = 2, cr_profile_id = Some LOOP_RUNTIME_PROFILE_ID, cr_composition = LOOP_COMPOSITION_RUNTIME_ID,
     cr_gym = LOOP_GYM_RUNTIME_ID, cr_slots = LOOP_STATE_SLOTS, cr_entry_loop = True, cr_exact_slots = False,
     cr_training = False, cr_horizon_terminates = False, cr_heading_feedback = False\<rparr>"

definition FINITE_HORIZON_RUNTIME :: course_profile where
  "FINITE_HORIZON_RUNTIME = \<lparr>cr_version = 3, cr_profile_id = Some FINITE_HORIZON_RUNTIME_PROFILE_ID,
     cr_composition = LEGACY_COMPOSITION_RUNTIME_ID, cr_gym = FINITE_HORIZON_GYM_RUNTIME_ID, cr_slots = LEGACY_STATE_SLOTS,
     cr_entry_loop = False, cr_exact_slots = False, cr_training = True, cr_horizon_terminates = True, cr_heading_feedback = False\<rparr>"

definition AFTER_HEADING_FEEDBACK_RUNTIME :: course_profile where
  "AFTER_HEADING_FEEDBACK_RUNTIME = \<lparr>cr_version = 4, cr_profile_id = Some AFTER_HEADING_FEEDBACK_RUNTIME_PROFILE_ID,
     cr_composition = LOOP_COMPOSITION_RUNTIME_ID, cr_gym = AFTER_HEADING_FEEDBACK_GYM_RUNTIME_ID, cr_slots = LOOP_STATE_SLOTS,
     cr_entry_loop = True, cr_exact_slots = True, cr_training = False, cr_horizon_terminates = False, cr_heading_feedback = True\<rparr>"

definition FOUR_STATE_FINITE_HORIZON_RUNTIME :: course_profile where
  "FOUR_STATE_FINITE_HORIZON_RUNTIME = \<lparr>cr_version = 5, cr_profile_id = Some FOUR_STATE_FINITE_HORIZON_RUNTIME_PROFILE_ID,
     cr_composition = LOOP_COMPOSITION_RUNTIME_ID, cr_gym = FOUR_STATE_FINITE_HORIZON_GYM_RUNTIME_ID, cr_slots = LOOP_STATE_SLOTS,
     cr_entry_loop = True, cr_exact_slots = True, cr_training = True, cr_horizon_terminates = True, cr_heading_feedback = False\<rparr>"

definition profile_observation_dim :: "course_profile \<Rightarrow> nat" where
  "profile_observation_dim p = OBSERVATION_DIM + length TASK_FEATURE_NAMES + 3 + length (cr_slots p)"

definition config_value :: "course_profile \<Rightarrow> runtime_error + pyval" where
  "config_value p = (case cr_profile_id p of
       None \<Rightarrow> Inr PNone
     | Some i \<Rightarrow> if i \<in> {LOOP_RUNTIME_PROFILE_ID, FINITE_HORIZON_RUNTIME_PROFILE_ID, AFTER_HEADING_FEEDBACK_RUNTIME_PROFILE_ID,
           FOUR_STATE_FINITE_HORIZON_RUNTIME_PROFILE_ID} then Inr (PDict (profile_config i)) else Inl ProfileUnknown)"

definition validate_states :: "course_profile \<Rightarrow> string list \<Rightarrow> runtime_error + unit" where
  "validate_states p names = (if cr_exact_slots p
     then (if set names \<noteq> set (cr_slots p) then Inl (ExactCourse (cr_heading_feedback p)) else Inr ())
     else if set names = set LEGACY_STATE_SLOTS \<or> cr_entry_loop p \<and> set names = set LOOP_STATE_SLOTS then Inr ()
     else Inl (StatesDiffer (cr_entry_loop p)))"

definition program_behavior :: "cycle_program \<Rightarrow> string \<Rightarrow> runtime_error + string" where
  "program_behavior program name = (case map_of (cy_states program) name of
       None \<Rightarrow> Inl (StateKey name) | Some st \<Rightarrow> Inr (st_behavior st))"

fun any_same_behavior :: "cycle_program \<Rightarrow> cycle_transition list \<Rightarrow> runtime_error + bool" where
  "any_same_behavior program [] = Inr False"
| "any_same_behavior program (t # ts) = bindE (program_behavior program (t_source t)) (\<lambda>a.
     bindE (program_behavior program (t_target t)) (\<lambda>b. if a = b then Inr True else any_same_behavior program ts))"

definition validate_course_program :: "course_profile \<Rightarrow> cycle_program \<Rightarrow> runtime_error + unit" where
  "validate_course_program p program = bindE (validate_states p (map fst (cy_states program))) (\<lambda>_.
     if \<not> cr_entry_loop p then Inr ()
     else if cy_recovery program \<noteq> None then Inl RecoveryInLoop
     else bindE (any_same_behavior program (cy_transitions program)) (\<lambda>same. if same then Inl SameBehavior else Inr ()))"

section \<open>Manifests\<close>

definition manifest_contract :: "course_profile \<Rightarrow> pyval" where
  "manifest_contract p = (case cr_profile_id p of
       None \<Rightarrow> PNone
     | Some i \<Rightarrow> PDict ([
         (''schema_version'', PInt 1),
         (''profile_id'', PStr i),
         (''state_observation_slots'', PList (map PStr (cr_slots p))),
         (''training_admitted'', PBool (cr_training p))] @
         (if cr_entry_loop p then [(''loop_exit_gate'', PDict [
            (''guard_sampling'', PStr ''fresh_signals_only_at_first_50hz_boundary_crossing_loop_end''),
            (''float32_boundary_tolerance'', PStr ''four_eps_times_max_source_end_or_one''),
            (''maximum_deferral'', PStr ''one_loop_period_plus_one_control_interval''),
            (''control_interval_seconds'', PFloat CONTROL_DT_SECONDS)])] else []) @
         (if cr_horizon_terminates p then [(''termination'', PDict [
            (''fall'', PStr ''terminated''),
            (''intrinsic_horizon'', PStr ''terminated''),
            (''truncated'', PBool False),
            (''remaining_time_observation'', PStr ''task_features.remaining_horizon_fraction'')])] else []) @
         (if cr_heading_feedback p then [(AFTER_HEADING_FEEDBACK_TRACE_KEY, after_heading_feedback_contract)] else [])))"

definition frozen_runtime_contract :: "course_profile \<Rightarrow> (string \<times> pyval) list \<Rightarrow> pyval \<Rightarrow> pyval" where
  "frozen_runtime_contract p trainer residual_raw_scale = PDict ([
     (''gym'', PStr (cr_gym p)),
     (''composition'', PStr (cr_composition p)),
     (''observation_dim'', PInt (int (profile_observation_dim p))),
     (''residual_raw_scale'', residual_raw_scale),
     (''trainer'', PDict trainer)] @
     (if manifest_contract p \<noteq> PNone then [(''course_runtime'', manifest_contract p)] else []))"

section \<open>The selection of a profile\<close>

definition declared_profile :: "string \<Rightarrow> course_profile \<Rightarrow> pyval option \<Rightarrow> runtime_error + course_profile" where
  "declared_profile profile_id p runtime = (case runtime of
       Some (PDict d) \<Rightarrow>
         if \<not> keys_are (map fst (profile_config profile_id)) d \<or>
            \<not> (case dict_get d ''schema_version'' of Some (PInt _) \<Rightarrow> True | _ \<Rightarrow> False) \<or>
            \<not> py_eq (PDict d) (PDict (profile_config profile_id)) then Inl (ProfileDiffers profile_id)
         else Inr p
     | _ \<Rightarrow> Inl (ProfileDiffers profile_id))"

definition runtime_profile_from_config :: "(string \<times> pyval) list \<Rightarrow> runtime_error + course_profile" where
  "runtime_profile_from_config value_items = (case dict_get value_items ''schema_version'' of
       Some (PInt version) \<Rightarrow>
         if version = 1 then
           (if dict_get value_items ''runtime'' \<noteq> None then Inl LegacyRuntime else Inr LEGACY_RUNTIME)
         else if version = 2 then declared_profile LOOP_RUNTIME_PROFILE_ID LOOP_RUNTIME (dict_get value_items ''runtime'')
         else if version = 3 then
           declared_profile FINITE_HORIZON_RUNTIME_PROFILE_ID FINITE_HORIZON_RUNTIME (dict_get value_items ''runtime'')
         else if version = 4 then
           declared_profile AFTER_HEADING_FEEDBACK_RUNTIME_PROFILE_ID AFTER_HEADING_FEEDBACK_RUNTIME (dict_get value_items ''runtime'')
         else if version = 5 then
           declared_profile FOUR_STATE_FINITE_HORIZON_RUNTIME_PROFILE_ID FOUR_STATE_FINITE_HORIZON_RUNTIME (dict_get value_items ''runtime'')
         else Inl SchemaVersion
     | _ \<Rightarrow> Inl SchemaVersion)"

definition RUNTIMES :: "course_profile list" where
  "RUNTIMES = [LEGACY_RUNTIME, LOOP_RUNTIME, FINITE_HORIZON_RUNTIME, AFTER_HEADING_FEEDBACK_RUNTIME, FOUR_STATE_FINITE_HORIZON_RUNTIME]"

section \<open>The selection is exact\<close>

lemma profile_config_sub:
  assumes "keys_are (map fst (profile_config i)) d" "distinct (map fst d)" "dict_get d ''schema_version'' = Some (PInt n)"
  shows "py_eq (PDict d) (PDict (profile_config i)) \<longleftrightarrow> set d = set (profile_config i)"
proof -
  have "set (map fst d) = {''schema_version'', ''profile_id''}" using assms(1) by (simp add: keys_are_def dict_keys_def profile_config_def)
  then have len: "length d = 2" using assms(2) distinct_card[of "map fst d"] by simp
  then obtain x y where d: "d = [x, y]" by (metis One_nat_def Suc_1 length_0_conv length_Suc_conv)
  obtain a u b v where xy: "x = (a, u)" "y = (b, v)" by (cases x; cases y) auto
  have "a = ''schema_version'' \<and> b = ''profile_id'' \<or> a = ''profile_id'' \<and> b = ''schema_version''"
    using \<open>set (map fst d) = _\<close> by (auto simp: d xy doubleton_eq_iff)
  then show ?thesis
    using assms(3) by (auto simp: d xy profile_config_def dict_get_def py_eq_int_iff py_eq_str_iff doubleton_eq_iff)
qed

lemma declared_profile_iff:
  assumes "\<And>d. runtime = Some (PDict d) \<Longrightarrow> distinct (map fst d)"
  shows "declared_profile i p runtime = Inr q \<longleftrightarrow> q = p \<and> (\<exists>d. runtime = Some (PDict d) \<and> set d = set (profile_config i))"
proof (cases "\<exists>d. runtime = Some (PDict d)")
  case True
  then obtain d where d: "runtime = Some (PDict d)" by blast
  have dist: "distinct (map fst d)" using assms d by simp
  have "keys_are (map fst (profile_config i)) d \<and> dict_get d ''schema_version'' = Some (PInt 1)" if "set d = set (profile_config i)"
    using that dist by (auto simp: keys_are_def dict_keys_def profile_config_def dict_get_def)
  then show ?thesis
    using profile_config_sub[OF _ dist, of i] by (auto simp: declared_profile_def d split: option.splits pyval.splits if_splits)
next
  case False
  then show ?thesis by (auto simp: declared_profile_def split: option.splits pyval.splits)
qed

text \<open>What a configuration must declare for a profile.\<close>

definition declares :: "(string \<times> pyval) list \<Rightarrow> course_profile \<Rightarrow> bool" where
  "declares value_items p \<longleftrightarrow> dict_get value_items ''schema_version'' = Some (PInt (cr_version p)) \<and>
     (case cr_profile_id p of
        None \<Rightarrow> dict_get value_items ''runtime'' = None
      | Some i \<Rightarrow> \<exists>d. dict_get value_items ''runtime'' = Some (PDict d) \<and> set d = set (profile_config i))"

text \<open>
  C33. A configuration resolves exactly to the admitted profile that it declares: the legacy profile by its
  version and no runtime field, every other by its version and exactly its two fields, whatever their order; and
  to no profile otherwise.
\<close>

theorem profile_resolves_iff:
  assumes distinct_keys: "\<forall>d. dict_get value_items ''runtime'' = Some (PDict d) \<longrightarrow> distinct (dict_keys d)"
  shows "runtime_profile_from_config value_items = Inr p \<longleftrightarrow> p \<in> set RUNTIMES \<and> declares value_items p"
proof -
  have d: "distinct (map fst d)" if "dict_get value_items ''runtime'' = Some (PDict d)" for d
    using distinct_keys that by (simp add: dict_keys_def)
  note iff = declared_profile_iff[of "dict_get value_items ''runtime''", OF d]
  have members: "p \<in> set RUNTIMES \<and> declares value_items p \<longleftrightarrow> p = LEGACY_RUNTIME \<and> declares value_items LEGACY_RUNTIME \<or>
      p = LOOP_RUNTIME \<and> declares value_items LOOP_RUNTIME \<or> p = FINITE_HORIZON_RUNTIME \<and> declares value_items FINITE_HORIZON_RUNTIME \<or>
      p = AFTER_HEADING_FEEDBACK_RUNTIME \<and> declares value_items AFTER_HEADING_FEEDBACK_RUNTIME \<or>
      p = FOUR_STATE_FINITE_HORIZON_RUNTIME \<and> declares value_items FOUR_STATE_FINITE_HORIZON_RUNTIME"
    by (auto simp: RUNTIMES_def)
  note profiles = LEGACY_RUNTIME_def LOOP_RUNTIME_def FINITE_HORIZON_RUNTIME_def AFTER_HEADING_FEEDBACK_RUNTIME_def
    FOUR_STATE_FINITE_HORIZON_RUNTIME_def
  show ?thesis
  proof (cases "\<exists>n. dict_get value_items ''schema_version'' = Some (PInt n)")
    case True
    then obtain n where n: "dict_get value_items ''schema_version'' = Some (PInt n)" by blast
    have l: "declares value_items LEGACY_RUNTIME \<longleftrightarrow> n = 1 \<and> dict_get value_items ''runtime'' = None"
      by (simp add: declares_def n LEGACY_RUNTIME_def)
    have o: "declares value_items q \<longleftrightarrow> n = cr_version q \<and> (\<exists>d. dict_get value_items ''runtime'' = Some (PDict d) \<and> set d = set (profile_config i))"
      if "cr_profile_id q = Some i" for q i
      by (auto simp: declares_def n that)
    have ids: "cr_profile_id LOOP_RUNTIME = Some LOOP_RUNTIME_PROFILE_ID" "cr_profile_id FINITE_HORIZON_RUNTIME = Some FINITE_HORIZON_RUNTIME_PROFILE_ID"
      "cr_profile_id AFTER_HEADING_FEEDBACK_RUNTIME = Some AFTER_HEADING_FEEDBACK_RUNTIME_PROFILE_ID"
      "cr_profile_id FOUR_STATE_FINITE_HORIZON_RUNTIME = Some FOUR_STATE_FINITE_HORIZON_RUNTIME_PROFILE_ID"
      "cr_version LOOP_RUNTIME = 2" "cr_version FINITE_HORIZON_RUNTIME = 3" "cr_version AFTER_HEADING_FEEDBACK_RUNTIME = 4"
      "cr_version FOUR_STATE_FINITE_HORIZON_RUNTIME = 5" by (simp_all add: profiles)
    show ?thesis
      unfolding runtime_profile_from_config_def n option.case pyval.case members l o[OF ids(1)] o[OF ids(2)] o[OF ids(3)] o[OF ids(4)] ids(5-8)
      by (simp only: iff if_split sum.inject split: if_split) auto
  next
    case False
    then have "\<not> declares value_items p" by (simp add: declares_def)
    then show ?thesis using False by (auto simp: runtime_profile_from_config_def split: option.splits pyval.splits)
  qed
qed

section \<open>Loop programs change the behavior with the state\<close>

lemma any_same_behavior_spec:
  assumes "any_same_behavior program ts = Inr b"
  shows "b = False \<Longrightarrow> t \<in> set ts \<Longrightarrow> \<exists>a a'. program_behavior program (t_source t) = Inr a \<and>
    program_behavior program (t_target t) = Inr a' \<and> a \<noteq> a'"
  using assms by (induction ts) (auto split: if_splits)

definition behaviors_change :: "cycle_program \<Rightarrow> bool" where
  "behaviors_change p \<longleftrightarrow> cy_recovery p = None \<and>
     (\<forall>t \<in> set (cy_transitions p). behavior_of p (t_source t) \<noteq> behavior_of p (t_target t))"

lemma validated_behaviors_change:
  assumes "validate_course_program profile p = Inr ()" "cr_entry_loop profile"
  shows "behaviors_change p"
proof -
  have v: "cy_recovery p = None" "any_same_behavior p (cy_transitions p) = Inr False"
    using assms by (auto simp: validate_course_program_def split: if_splits)
  have "behavior_of p n = a" if "program_behavior p n = Inr a" for n a
    using that by (auto simp: program_behavior_def behavior_of_def split: option.splits)
  then show ?thesis using any_same_behavior_spec[OF v(2)] v(1) by (fastforce simp: behaviors_change_def)
qed

lemma decide_switches:
  assumes ok: "cycle_ok parser p" and inv: "machine_inv p m" and b: "behaviors_change p"
    and d: "decide m signals allow = Inr (d, m')"
  shows "(dc_switched d \<longleftrightarrow> dc_state d \<noteq> mc_state m) \<and> dc_behavior d = behavior_of p (dc_state d)"
proof -
  have m: "mc_behavior m = behavior_of p (mc_state m)" "mc_program m = p"
    using inv b by (auto simp: machine_inv_def behaviors_change_def split: if_splits)
  from ok inv d show ?thesis
  proof (cases rule: decide_cases)
    case (ordinarily s)
    have c: "signals_complete s" using ordinarily(2) by (rule machine_signals_complete)
    show ?thesis
    proof (cases "sort_key t_priority (enabled_transitions m s)")
      case Nil
      then show ?thesis using ordinarily(4) m by (auto simp: ordinary_spec[OF ok inv c] unchanged_def split: if_splits)
    next
      case (Cons t ts)
      have "t \<in> set (enabled_transitions m s)" using Cons by (metis list.set_intros(1) set_sort)
      then have "t_source t = mc_state m" "t \<in> set (cy_transitions p)" by (auto simp: enabled_transitions_def m)
      then have "behavior_of p (mc_state m) \<noteq> behavior_of p (t_target t)" using b by (auto simp: behaviors_change_def)
      then show ?thesis using ordinarily(4) m Cons
        by (cases "allow \<and> dwelt m") (auto simp: ordinary_spec[OF ok inv c] unchanged_def take_transition_def Let_def)
    qed
  qed (use b in \<open>simp_all add: behaviors_change_def\<close>)
qed

text \<open>
  C34. Under a profile with loops the state of an admitted program and the phase of its reference move together:
  a command reports a phase transfer exactly when the state changes, and it always plays the behavior of its own
  state, never a recovery.
\<close>

theorem state_change_transfers_phase:
  assumes v: "validate_course_program profile program = Inr ()" "cr_entry_loop profile" and ok: "cycle_ok parser program"
    and at: "composed_at h T program segments c" and cmd: "composed_command h T c step_v signals pose = Inr (cmd, c')"
  shows "(rc_transition cmd \<noteq> None \<longleftrightarrow> rc_state cmd \<noteq> mc_state (cp_machine c)) \<and>
     rc_behavior cmd = behavior_of program (rc_state cmd)"
proof -
  from cmd obtain allow d m s origin where
    d: "decide (cp_machine c) (signals @ [(''dwell'', PInt (mc_dwell (cp_machine c)))]) allow = Inr (d, m)"
    and tr: "transfer_phase h T c (cp_last_step c + 1) pose s d = Inr (origin, rc_transition cmd)"
    and st: "rc_state cmd = dc_state d" "rc_behavior cmd = dc_behavior d"
    by (rule composed_commandE) simp
  from decide_switches[OF ok composed_machine_inv[OF at ok] validated_behaviors_change[OF v] d] transfer_origin[OF tr] st
  show ?thesis by simp
qed

section \<open>Witnesses\<close>

theorem profile_resolves_iff_witness:
  "runtime_profile_from_config [(''schema_version'', PInt 2), (''runtime'', PDict [(''profile_id'', PStr LOOP_RUNTIME_PROFILE_ID), (''schema_version'', PInt 1)])] =
     Inr LOOP_RUNTIME \<and> LOOP_RUNTIME \<in> set RUNTIMES"
proof -
  let ?v = "[(''schema_version'', PInt 2), (''runtime'', PDict [(''profile_id'', PStr LOOP_RUNTIME_PROFILE_ID), (''schema_version'', PInt 1)])]"
  have "\<forall>d. dict_get ?v ''runtime'' = Some (PDict d) \<longrightarrow> distinct (dict_keys d)" by (simp add: dict_get_def dict_keys_def)
  moreover have "LOOP_RUNTIME \<in> set RUNTIMES" by (simp add: RUNTIMES_def)
  moreover have "declares ?v LOOP_RUNTIME" by (auto simp: declares_def LOOP_RUNTIME_def dict_get_def profile_config_def)
  ultimately show ?thesis using profile_resolves_iff[of ?v LOOP_RUNTIME] by blast
qed

text \<open>A course of three states over the still clip.\<close>

definition course_oracle :: cycle_program where
  "course_oracle = \<lparr>cy_oracle_id = ''course'', cy_behaviors = [''walker'', ''riser'', ''runner''], cy_initial = ''before'',
     cy_states = [(''before'', \<lparr>st_behavior = ''walker'', st_min_dwell = 0\<rparr>), (''inside'', \<lparr>st_behavior = ''riser'', st_min_dwell = 1\<rparr>),
       (''after'', \<lparr>st_behavior = ''runner'', st_min_dwell = 1\<rparr>)],
     cy_transitions = [
       \<lparr>t_source = ''before'', t_target = ''inside'', t_guard = walk_guard ''v_x > 1'', t_priority = 0\<rparr>,
       \<lparr>t_source = ''inside'', t_target = ''after'', t_guard = walk_guard ''v_x < 1'', t_priority = 0\<rparr>],
     cy_recovery = None\<rparr>"

definition course_segments :: "(string \<times> segment) list" where
  "course_segments = [(''walker'', clip_segment), (''riser'', clip_segment), (''runner'', clip_segment)]"

lemma course_oracle_ok: "cycle_ok walk_parser course_oracle"
proof -
  have "oracle_program_from_dict walk_parser walk_behaviors False (cycle_to_dict course_oracle) = Inr course_oracle" by code_simp
  moreover have "dicts_ok (cycle_to_dict course_oracle)" by code_simp
  ultimately show ?thesis using oracle_program_from_dict_ok by blast
qed

lemma course_validated: "validate_course_program LOOP_RUNTIME course_oracle = Inr ()" "validate_course_program LEGACY_RUNTIME course_oracle = Inr ()"
  by code_simp+

definition course_machine :: "int \<Rightarrow> machine" where
  "course_machine k = \<lparr>mc_program = course_oracle, mc_state = ''before'', mc_behavior = ''walker'', mc_dwell = k, mc_recovery_active = False,
     mc_recovery_elapsed = 0, mc_reentry_remaining = 0, mc_outgoing = group_outgoing (cy_transitions course_oracle)\<rparr>"

definition course_start :: composed where
  "course_start = \<lparr>cp_program = course_oracle, cp_segments = course_segments, cp_machine = course_machine 0, cp_last_step = - 1,
     cp_origin_step = 0, cp_origin_seconds = Fin 0, cp_last_behavior = None, cp_last_phase = None\<rparr>"

lemma course_starts: "mk_composed course_oracle course_segments = Inr course_start"
  by (simp add: mk_composed_def composed_reset_def mk_machine_def course_start_def course_segments_def course_oracle_def course_machine_def)

lemma course_enters:
  "decide (course_machine 0) (walk_facts @ [(''dwell'', PInt 0)]) True =
     Inr (\<lparr>dc_state = ''inside'', dc_behavior = ''riser'', dc_switched = True, dc_transition = True, dc_recovery_entered = False,
           dc_recovery_exited = False, dc_reason = TransitionPriority 0\<rparr>,
         (course_machine 0)\<lparr>mc_state := ''inside'', mc_behavior := ''riser'', mc_dwell := 0\<rparr>)"
  by code_simp

text \<open>The first phase of an episode and what the still clip shows there.\<close>

lemma first_phase: "origin_phase (n, Fin 0) n = Inr (Fin 0)"
proof -
  obtain dt where dt: "CONTROL_DT_SECONDS = Fin dt" by (rule control_dt)
  show ?thesis using f64_rep_round[OF f64_rep_of_int[of 0]] float_of_int_small[of 0] by (simp add: origin_phase_def dt)
qed

lemma clip_plays:
  assumes "mild (Fin x)" "x \<le> 3 / 128"
  shows "segment_features still_segments clip_segment [Fin x] = Inr [replicate 30 (Fin 0)]"
    "segment_features still_segments clip_segment (map (f32_add (Fin x)) offset_times) = Inr (replicate 20 (replicate 30 (Fin 0)))"
    "reported_phase still_segments clip_segment (Fin x) = Inr (Fin 0)"
proof -
  show "segment_features still_segments clip_segment [Fin x] = Inr [replicate 30 (Fin 0)]" using clip_features[of "[Fin x]"] assms by simp
  have "length offset_times = 20" by (simp add: offset_times_def REFERENCE_OFFSETS_def)
  then show "segment_features still_segments clip_segment (map (f32_add (Fin x)) offset_times) = Inr (replicate 20 (replicate 30 (Fin 0)))"
    using clip_features[OF window_times_mild[OF assms(1) refl]] assms(2) by simp
  show "reported_phase still_segments clip_segment (Fin x) = Inr (Fin 0)"
    by (simp add: reported_phase_def clip_segment_def WRAP_def HOLD_LAST_def ENTRY_LOOP_def still_segments_def torch.extend_def)
qed

lemma course_command:
  "\<exists>cmd c'. composed_command demo_hasher still_segments course_start (PInt 0) walk_facts still_pose = Inr (cmd, c') \<and> rc_state cmd = ''inside''"
proof -
  have s: "segment_of course_start ''walker'' = Inr clip_segment" "segment_of course_start ''riser'' = Inr clip_segment"
    by (simp_all add: segment_of_def course_start_def course_segments_def)
  have ph: "composed_phase course_start 0 = Inr (Fin 0)" using first_phase[of 0] by (simp add: composed_phase_def course_start_def)
  have allow: "allows_ordinary_transition clip_segment prior (Fin 0) = Inr True" for prior
    by (simp add: allows_ordinary_transition_def clip_segment_def)
  have sel: "cp_last_step course_start + 1 = 0" "cp_machine course_start = course_machine 0" "mc_behavior (course_machine 0) = ''walker''"
    "mc_dwell (course_machine 0) = 0" "dict_get walk_facts ''dwell'' = None"
    by (simp_all add: course_start_def course_machine_def dict_get_def walk_facts_def)
  let ?d = "\<lparr>dc_state = ''inside'', dc_behavior = ''riser'', dc_switched = True, dc_transition = True, dc_recovery_entered = False,
     dc_recovery_exited = False, dc_reason = TransitionPriority 0\<rparr>"
  obtain tr where tr: "transfer_phase demo_hasher still_segments course_start 0 still_pose clip_segment ?d = Inr ((0, Fin 0), Some tr)"
    using runs_on by (simp add: transfer_phase_def)
  have "mild (Fin 0)" by (simp add: mild_def)
  note plays = clip_plays[OF this, simplified]
  from composed_commandI[of walk_facts course_start, unfolded sel, OF refl s(1) ph allow course_enters, simplified decision.simps,
      OF s(2) tr first_phase[of 0] plays]
  show ?thesis by (intro exI) (auto simp del: replicate.simps)
qed

theorem state_change_transfers_phase_witness:
  "\<exists>cmd c'. composed_command demo_hasher still_segments course_start (PInt 0) walk_facts still_pose = Inr (cmd, c') \<and>
     rc_state cmd = ''inside'' \<and> rc_transition cmd \<noteq> None \<and> rc_behavior cmd = ''riser''"
proof -
  obtain cmd c' where cmd: "composed_command demo_hasher still_segments course_start (PInt 0) walk_facts still_pose = Inr (cmd, c')"
    "rc_state cmd = ''inside''" using course_command by blast
  have "cr_entry_loop LOOP_RUNTIME" "mc_state (cp_machine course_start) = ''before''" "behavior_of course_oracle ''inside'' = ''riser''"
    by (simp_all add: LOOP_RUNTIME_def course_start_def course_machine_def behavior_of_def course_oracle_def)
  with state_change_transfers_phase[OF course_validated(1) _ course_oracle_ok composed_at.start[OF course_starts] cmd(1)] cmd
  show ?thesis by auto
qed

end
