(* ===== verification/CourseReward.thy ===== *)
theory CourseReward
  imports CourseTask PySum
begin

text \<open>
  The reward of a measured step of the posture course, the second half of
  \<^verbatim>\<open>src/oracle_composition/adapters/gmt/course_task.py\<close>: the components, the depth factor of the second
  recipe version, the breakdown, what it promises of the total, and when it fails.
\<close>

section \<open>The reward of a measurement\<close>

record reward_breakdown =
  rb_spec_sha256 :: string
  rb_recipe_sha256 :: string
  rb_tracking :: f64
  rb_task :: f64
  rb_total :: f64
  rb_speed :: f64
  rb_posture :: f64
  rb_lateral :: f64
  rb_heading :: f64
  rb_failure :: f64

definition squareE :: "course_math \<Rightarrow> f64 \<Rightarrow> course_error + f64" where
  "squareE M x = (case m_pow2 M x of None \<Rightarrow> Inl PowOverflow | Some y \<Rightarrow> Inr y)"

definition component_reward :: "course_math \<Rightarrow> f64 \<Rightarrow> f64 \<Rightarrow> course_error + f64" where
  "component_reward M error scale = bindE (squareE M (quotient error scale)) (\<lambda>y. Inr (m_exp M (f64_neg y)))"

definition components :: "course_math \<Rightarrow> f64 list \<Rightarrow> f64 list \<Rightarrow> course_error + f64 list" where
  "components M errors scales = mapE (\<lambda>(error, scale). component_reward M error scale) (zip errors scales)"

definition metric_errors :: "step_metrics \<Rightarrow> f64 list" where
  "metric_errors m = [cm_speed_error m, cm_posture_error m, cm_lateral_error m, cm_heading_error m,
     cm_joint_rmse m, cm_height_error m, cm_roll_pitch_rmse m]"

text \<open>The factor of the posture component above the ceiling of the band, or 1.\<close>

definition depth_factor :: "course_math \<Rightarrow> course_spec \<Rightarrow> reward_recipe \<Rightarrow> step_metrics \<Rightarrow> course_error + f64" where
  "depth_factor M s r m = (if \<not> is_finite (cm_root_height m) then Inl RootHeightValue
     else let ceiling = f64_add (cs_band_low s) (f64_mul (rp_ceiling_fraction r) (f64_sub (cs_band_high s) (cs_band_low s)));
              depth_error = py_max (Fin 0) (f64_sub (cm_root_height m) ceiling)
       in bindE (squareE M (quotient depth_error TASK_REWARD_DEPTH_SCALE_M)) (\<lambda>y.
            let cauchy = quotient (Fin 1) (f64_add (Fin 1) y)
            in Inr (f64_sub (Fin 1) (f64_mul (rp_depth_strength r) (f64_sub (Fin 1) cauchy)))))"

definition task_components :: "course_math \<Rightarrow> course_spec \<Rightarrow> reward_recipe \<Rightarrow> step_metrics \<Rightarrow> course_error + f64 list" where
  "task_components M s r m = bindE (components M (take 4 (metric_errors m)) TASK_SCALES) (\<lambda>c.
     if rp_version r = 2 \<and> f64_lt (Fin 0) (rp_depth_strength r) \<and> cm_inside m
     then bindE (depth_factor M s r m) (\<lambda>k. Inr [c ! 0, f64_mul (c ! 1) k, c ! 2, c ! 3])
     else Inr c)"

definition course_reward :: "hasher \<Rightarrow> course_math \<Rightarrow> course_spec \<Rightarrow> reward_recipe \<Rightarrow> step_metrics \<Rightarrow> course_error + reward_breakdown" where
  "course_reward h M s r m = (if cm_spec_sha256 m \<noteq> course_spec_sha256 h s then Inl MetricsSpec
     else if list_ex (\<lambda>x. \<not> is_finite x \<or> f64_lt x (Fin 0)) (metric_errors m) then Inl MetricsValues
     else bindE (if cm_fallen m then Inr (replicate 4 (Fin 0), Fin 0, f64_neg (rp_failure r))
         else bindE (task_components M s r m) (\<lambda>c.
           bindE (components M (drop 4 (metric_errors m)) TRACKING_SCALES) (\<lambda>t.
             Inr (c, py_sum (map2 f64_mul TRACKING_WEIGHTS t), Fin 0))))
       (\<lambda>(c, tracking, penalty).
         let task = f64_add (py_sum (map2 f64_mul [rp_speed r, rp_posture r, rp_lateral r, rp_heading r] c)) penalty
         in Inr \<lparr>rb_spec_sha256 = course_spec_sha256 h s, rb_recipe_sha256 = reward_recipe_sha256 h r, rb_tracking = tracking,
              rb_task = task, rb_total = f64_add tracking task, rb_speed = c ! 0, rb_posture = c ! 1, rb_lateral = c ! 2,
              rb_heading = c ! 3, rb_failure = penalty\<rparr>))"

section \<open>What the reward relies on of the C library\<close>

text \<open>
  A square is not negative and is found whenever it is far from the binary64 range, an infinity has
  the square infinity, and the exponential of a value that is not positive lies in \<open>[0, 1]\<close>.
\<close>

definition libm_ok :: "course_math \<Rightarrow> bool" where
  "libm_ok M \<longleftrightarrow> (\<forall>x y. nonneg x \<longrightarrow> m_pow2 M x = Some y \<longrightarrow> nonneg y) \<and>
     (\<forall>q. 0 \<le> q \<and> q \<le> pow2 500 \<longrightarrow> m_pow2 M (Fin q) \<noteq> None) \<and>
     (\<forall>y. nonneg y \<longrightarrow> fin_in (m_exp M (f64_neg y)) 0 1)"

lemma libmD:
  assumes "libm_ok M"
  shows "nonneg x \<Longrightarrow> m_pow2 M x = Some y \<Longrightarrow> nonneg y"
    and "0 \<le> q \<Longrightarrow> q \<le> pow2 500 \<Longrightarrow> m_pow2 M (Fin q) \<noteq> None"
    and "nonneg y \<Longrightarrow> fin_in (m_exp M (f64_neg y)) 0 1"
  using assms unfolding libm_ok_def by blast+

section \<open>Components in the unit interval\<close>

abbreviation unit :: "f64 \<Rightarrow> bool" where
  "unit x \<equiv> fin_in x 0 1"

abbreviation scale :: "f64 \<Rightarrow> bool" where
  "scale x \<equiv> fin_in x (1 / 16) 1"

lemma f64_rep_sixteenth [simp]: "f64_rep (1 / 16)"
  using f64_rep_pow2[of "- 4"] by (simp add: pow2_def)

lemma scales_in: "list_all scale TASK_SCALES" "list_all scale TRACKING_SCALES" "scale TASK_REWARD_DEPTH_SCALE_M"
  by (simp_all add: TASK_SCALES_def TRACKING_SCALES_def TASK_REWARD_DEPTH_SCALE_M_def round_in fin_in_iff)

lemma quotient_nonneg:
  assumes "nonneg x" "scale k"
  shows "nonneg (quotient x k)"
proof -
  obtain q where "k = Fin q" "0 < q" using assms(2) by (auto simp: fin_in_def)
  then show ?thesis using assms(1) by (auto simp: nonneg_def[of x] quotient_def nonneg_def[of PosInf] intro!: nonneg_round)
qed

lemma component_in:
  assumes "libm_ok M" "nonneg e" "scale k" "component_reward M e k = Inr c"
  shows "unit c"
  using assms libmD[OF assms(1)] quotient_nonneg[OF assms(2,3)]
  by (auto simp: component_reward_def squareE_def split: option.splits)

lemma components_in:
  assumes "libm_ok M" "list_all (\<lambda>e. nonneg e \<and> is_finite e) es" "list_all scale ks" "components M es ks = Inr cs"
  shows "list_all unit cs" "length cs = min (length es) (length ks)"
proof -
  have m: "mapE (\<lambda>(e, k). component_reward M e k) (zip es ks) = Inr cs" using assms(4) by (simp add: components_def)
  show "length cs = min (length es) (length ks)" using mapE_length[OF m] by simp
  show "list_all unit cs"
    unfolding list_all_iff
  proof
    fix c assume "c \<in> set cs"
    from mapE_in_set[OF m this] obtain e k where "(e, k) \<in> set (zip es ks)" "component_reward M e k = Inr c" by auto
    moreover from this(1) have "nonneg e" "scale k" using assms(2,3) by (auto simp: list_all_iff dest: set_zip_leftD set_zip_rightD)
    ultimately show "unit c" using component_in[OF assms(1)] by blast
  qed
qed

lemma one_minus_unit: "unit x \<Longrightarrow> unit (f64_sub (Fin 1) x)"
  by (auto simp: fin_in_def[of x] f64_sub_def intro!: round_in)

lemma unit_times:
  assumes "fin_in w 0 b" "f64_rep b" "unit x"
  shows "fin_in (f64_mul w x) 0 b"
proof -
  obtain p q where pq: "w = Fin p" "x = Fin q" "0 \<le> p" "p \<le> b" "0 \<le> q" "q \<le> 1" using assms(1,3) by (auto simp: fin_in_def)
  then have "p * q \<le> b" using mult_left_le[of q p] by simp
  then show ?thesis using pq assms(2) by (simp add: round_in)
qed

lemma cauchy_in:
  assumes "nonneg y"
  shows "unit (quotient (Fin 1) (f64_add (Fin 1) y))"
proof (cases y)
  case (Fin q)
  then have q: "0 \<le> q" using assms by (simp add: nonneg_def)
  have "f64_le (Fin 1) (f64_round (1 + q))" using f64_round_mono[of 1 "1 + q"] q by (simp add: f64_rep_round)
  then consider "f64_round (1 + q) = PosInf" | r where "f64_round (1 + q) = Fin r" "1 \<le> r"
    by (cases "f64_round (1 + q)") auto
  then show ?thesis
    by cases (auto simp: Fin quotient_def fin_in_iff intro!: round_in)
qed (use assms in \<open>auto simp: nonneg_def quotient_def fin_in_iff\<close>)

lemma recipe_weights_in:
  assumes "reward_recipe_ok r" "list_all f64_ok [rp_speed r, rp_posture r, rp_lateral r, rp_heading r, rp_failure r, rp_depth_strength r]"
  shows "list_all (\<lambda>w. fin_in w 0 5) [rp_speed r, rp_posture r, rp_lateral r, rp_heading r]" "fin_in (rp_failure r) 0 5"
    "unit (rp_depth_strength r)"
  using assms by (auto simp: reward_recipe_ok_def fin_in_def is_finite_iff)

lemma depth_factor_in:
  assumes "libm_ok M" "unit (rp_depth_strength r)" "depth_factor M s r m = Inr k"
  shows "unit k"
proof -
  define ceiling where "ceiling = f64_add (cs_band_low s) (f64_mul (rp_ceiling_fraction r) (f64_sub (cs_band_high s) (cs_band_low s)))"
  define e where "e = py_max (Fin 0) (f64_sub (cm_root_height m) ceiling)"
  obtain y where y: "squareE M (quotient e TASK_REWARD_DEPTH_SCALE_M) = Inr y"
    and k: "k = f64_sub (Fin 1) (f64_mul (rp_depth_strength r) (f64_sub (Fin 1) (quotient (Fin 1) (f64_add (Fin 1) y))))"
    using assms(3) by (auto simp: depth_factor_def Let_def ceiling_def e_def split: if_splits)
  have "nonneg e" by (cases "f64_sub (cm_root_height m) ceiling") (auto simp: e_def py_max_def nonneg_def)
  then have "nonneg (quotient e TASK_REWARD_DEPTH_SCALE_M)"
    using quotient_nonneg scales_in(3) by blast
  then have "nonneg y" using y libmD(1)[OF assms(1)] by (auto simp: squareE_def split: option.splits)
  then show ?thesis
    unfolding k by (intro one_minus_unit unit_times assms(2) cauchy_in) simp_all
qed

lemma metrics_admitted:
  "\<not> list_ex (\<lambda>x. \<not> is_finite x \<or> f64_lt x (Fin 0)) xs \<longleftrightarrow> list_all (\<lambda>e. nonneg e \<and> is_finite e) xs"
proof -
  have "(\<not> is_finite x \<or> f64_lt x (Fin 0)) \<longleftrightarrow> \<not> (nonneg x \<and> is_finite x)" for x
    by (cases x) (auto simp: nonneg_def)
  then show ?thesis by (simp add: list_ex_iff list_all_iff)
qed

lemma task_components_in:
  assumes "libm_ok M" "unit (rp_depth_strength r)" "list_all (\<lambda>e. nonneg e \<and> is_finite e) (metric_errors m)"
    "task_components M s r m = Inr cs"
  shows "list_all unit cs" "length cs = 4"
proof -
  obtain c where c: "components M (take 4 (metric_errors m)) TASK_SCALES = Inr c"
    and cs: "cs = c \<or> (\<exists>k. depth_factor M s r m = Inr k \<and> cs = [c ! 0, f64_mul (c ! 1) k, c ! 2, c ! 3])"
    using assms(4) by (auto simp: task_components_def split: if_splits)
  have "list_all (\<lambda>e. nonneg e \<and> is_finite e) (take 4 (metric_errors m))"
    using assms(3) by (auto simp: list_all_iff dest: in_set_takeD)
  note i = components_in[OF assms(1) this scales_in(1) c]
  have l: "length c = 4" using i(2) by (simp add: metric_errors_def TASK_SCALES_def)
  have u: "unit (c ! j)" if "j < 4" for j using i(1) l that by (simp add: list_all_length)
  show "length cs = 4" using cs l by auto
  from cs show "list_all unit cs"
  proof
    assume "cs = c" then show ?thesis using i(1) by simp
  next
    assume "\<exists>k. depth_factor M s r m = Inr k \<and> cs = [c ! 0, f64_mul (c ! 1) k, c ! 2, c ! 3]"
    then obtain k where k: "depth_factor M s r m = Inr k" "cs = [c ! 0, f64_mul (c ! 1) k, c ! 2, c ! 3]" by blast
    have "unit (f64_mul (c ! 1) k)" using depth_factor_in[OF assms(1,2) k(1)] u by (intro unit_times) simp_all
    then show ?thesis using k(2) u by simp
  qed
qed

section \<open>Weighted sums\<close>

fun exact :: "f64 \<Rightarrow> rat" where
  "exact (Fin q) = q"
| "exact _ = 0"

definition weighted :: "f64 list \<Rightarrow> f64 list \<Rightarrow> rat" where
  "weighted ws cs = sum_list (map2 (\<lambda>w c. exact w * exact c) ws cs)"

lemma products:
  assumes "list_all (\<lambda>w. fin_in w 0 5) ws" "list_all unit cs" "length ws = length cs"
  shows "\<exists>ps. map2 f64_mul ws cs = map Fin ps \<and> length ps = length cs \<and> list_all (\<lambda>q. f64_rep q \<and> 0 \<le> q) ps \<and>
     sum_list ps \<le> 5 * of_nat (length cs) \<and> \<bar>sum_list ps - weighted ws cs\<bar> \<le> of_nat (length cs) / 2 ^ 51"
  using assms(3,1,2)
proof (induction ws cs rule: list_induct2)
  case Nil
  then show ?case by (simp add: weighted_def)
next
  case (Cons w ws c cs)
  then obtain ps where ps: "map2 f64_mul ws cs = map Fin ps" "length ps = length cs" "list_all (\<lambda>q. f64_rep q \<and> 0 \<le> q) ps"
    "sum_list ps \<le> 5 * of_nat (length cs)" "\<bar>sum_list ps - weighted ws cs\<bar> \<le> of_nat (length cs) / 2 ^ 51" by auto
  have w: "fin_in w 0 5" and c: "unit c" using Cons.prems by simp_all
  obtain p q where pq: "w = Fin p" "c = Fin q" "0 \<le> p" "p \<le> 5" "0 \<le> q" "q \<le> 1" using w c by (auto simp: fin_in_def)
  have "fin_in (f64_mul w c) 0 5" using unit_times[OF w _ c] by simp
  then obtain x where x: "f64_mul w c = Fin x" "f64_rep x" "0 \<le> x" "x \<le> 5" by (auto simp: fin_in_def)
  have "x = round_rat (p * q)" using x(1) pq f64_round_FinD by auto
  moreover have "\<bar>p * q\<bar> < pow2 3" using mult_mono[of p 5 q 1] pq by (simp add: pow2_def)
  ultimately have e: "\<bar>x - p * q\<bar> \<le> 1 / 2 ^ 51" using round_error_below[of "p * q" 3] by (simp add: pow2_def)
  have s: "weighted (w # ws) (c # cs) = p * q + weighted ws cs" by (simp add: weighted_def pq)
  have "\<bar>sum_list (x # ps) - weighted (w # ws) (c # cs)\<bar> \<le> 1 / 2 ^ 51 + of_nat (length cs) / 2 ^ 51"
    using e ps(5) unfolding s sum_list.Cons by linarith
  also have "\<dots> = of_nat (length (c # cs)) / 2 ^ 51" by (simp add: add_divide_distrib)
  finally show ?case
    using ps x by (intro exI[of _ "x # ps"]) auto
qed

lemma weighted_sum:
  assumes "list_all (\<lambda>w. fin_in w 0 5) ws" "list_all unit cs" "length ws = length cs" "cs \<noteq> []" "length cs \<le> 4"
  obtains t where "py_sum (map2 f64_mul ws cs) = Fin t" "f64_rep t" "0 \<le> t" "t \<le> 21" "\<bar>t - weighted ws cs\<bar> \<le> 1 / 2 ^ 42"
proof -
  obtain ps where ps: "map2 f64_mul ws cs = map Fin ps" "length ps = length cs" "list_all (\<lambda>q. f64_rep q \<and> 0 \<le> q) ps"
    "sum_list ps \<le> 5 * of_nat (length cs)" "\<bar>sum_list ps - weighted ws cs\<bar> \<le> of_nat (length cs) / 2 ^ 51"
    using products[OF assms(1-3)] by blast
  have n: "(of_nat (length cs) :: rat) \<le> 4" using assms(5) by simp
  have s: "sum_list ps \<le> 20" using ps(4) n by linarith
  have s0: "0 \<le> sum_list ps" using ps(3) by (intro sum_list_nonneg) (auto simp: list_all_iff)
  obtain r where r: "py_sum (map Fin ps) = Fin r" "f64_rep r" "0 \<le> r"
    "\<bar>r - sum_list ps\<bar> \<le> of_nat (length ps) * sum_list ps / 2 ^ 49"
  proof (rule py_sum_value[of ps])
    show "ps \<noteq> []" using ps(2) assms(4) by auto
    show "list_all (\<lambda>q. f64_rep q \<and> 0 \<le> q) ps" by (rule ps(3))
    show "sum_list ps \<le> 2 ^ 50" using s by simp
    show "length ps \<le> 2 ^ 40" using ps(2) assms(5) by simp
  qed (rule that)
  have "of_nat (length ps) * sum_list ps \<le> 4 * 20" using s s0 n ps(2) by (intro mult_mono) simp_all
  then have "of_nat (length ps) * sum_list ps / 2 ^ 49 \<le> 4 * 20 / 2 ^ 49" by (rule divide_right_mono) simp
  with r(4) have "\<bar>r - sum_list ps\<bar> \<le> 4 * 20 / 2 ^ 49" by (rule order_trans)
  then have a: "\<bar>r - sum_list ps\<bar> \<le> 80 / 2 ^ 49" by simp
  have b: "\<bar>sum_list ps - weighted ws cs\<bar> \<le> 1 / 2 ^ 49" using ps(5) n by (simp add: field_simps)
  have "\<bar>r - weighted ws cs\<bar> \<le> 80 / 2 ^ 49 + 1 / 2 ^ 49" using a b by linarith
  then have c: "\<bar>r - weighted ws cs\<bar> \<le> 1 / 2 ^ 42" by simp
  have "80 / 2 ^ 49 \<le> (1 :: rat)" by simp
  then have "r \<le> 21" using a s by linarith
  then show ?thesis using that r(1-3) c by (simp add: ps(1))
qed

section \<open>The reward\<close>

definition task_weights :: "reward_recipe \<Rightarrow> f64 list" where
  "task_weights r = [rp_speed r, rp_posture r, rp_lateral r, rp_heading r]"

definition breakdown_components :: "reward_breakdown \<Rightarrow> f64 list" where
  "breakdown_components b = [rb_speed b, rb_posture b, rb_lateral b, rb_heading b]"

lemma list4: "length c = 4 \<Longrightarrow> [c ! 0, c ! 1, c ! 2, c ! 3] = c"
  by (cases c rule: remdups_adj.cases) (auto simp: length_Suc_conv numeral_eq_Suc)

text \<open>A fallen step, and a step that has not fallen.\<close>

lemma course_reward_Inr:
  assumes "course_reward h M s r m = Inr b"
  shows "cm_spec_sha256 m = course_spec_sha256 h s" "list_all (\<lambda>e. nonneg e \<and> is_finite e) (metric_errors m)"
  using assms metrics_admitted[of "metric_errors m"] by (auto simp: course_reward_def split: if_splits)

lemma zero_products: "list_all is_finite ws \<Longrightarrow> length ws = 4 \<Longrightarrow> map2 f64_mul ws (replicate 4 (Fin 0)) = replicate 4 (Fin 0)"
  by (auto simp: length_Suc_conv numeral_eq_Suc is_finite_iff f64_rep_round)

lemma sum_zeros: "py_sum (replicate 4 (Fin 0)) = Fin 0"
proof -
  have "sum_step (Fin 0) (Fin 0, Fin 0) = (Fin 0, Fin 0)" by (simp add: sum_step_def f64_sub_def f64_rep_round Let_def)
  then show ?thesis by (simp add: numeral_eq_Suc sum_result_def)
qed

lemma fallen_reward:
  assumes "course_reward h M s r m = Inr b" "cm_fallen m" "reward_recipe_ok r" "f64_ok (rp_failure r)"
  shows "breakdown_components b = replicate 4 (Fin 0) \<and> rb_tracking b = Fin 0 \<and> rb_failure b = f64_neg (rp_failure r) \<and>
    rb_task b = f64_neg (rp_failure r) \<and> rb_total b = f64_neg (rp_failure r)"
proof -
  have w: "list_all is_finite [rp_speed r, rp_posture r, rp_lateral r, rp_heading r]" using assms(3) by (simp add: reward_recipe_ok_def)
  have z: "py_sum (map2 f64_mul [rp_speed r, rp_posture r, rp_lateral r, rp_heading r] (replicate 4 (Fin 0))) = Fin 0"
    using zero_products[OF w] sum_zeros by simp
  obtain q where q: "rp_failure r = Fin q" "f64_rep q" using assms(3,4) by (auto simp: reward_recipe_ok_def is_finite_iff)
  have n: "f64_round (- q) = Fin (- q)" using q(2) by (simp add: f64_round_uminus f64_rep_round)
  from assms(1) have "b = \<lparr>rb_spec_sha256 = course_spec_sha256 h s, rb_recipe_sha256 = reward_recipe_sha256 h r, rb_tracking = Fin 0,
      rb_task = f64_neg (rp_failure r), rb_total = f64_neg (rp_failure r), rb_speed = Fin 0, rb_posture = Fin 0,
      rb_lateral = Fin 0, rb_heading = Fin 0, rb_failure = f64_neg (rp_failure r)\<rparr>"
    unfolding course_reward_def Let_def
    unfolding if_P[OF assms(2)] bindE_simps prod.case z
    by (auto simp: q n nth_replicate split: if_splits)
  then show ?thesis by (simp add: breakdown_components_def numeral_eq_Suc)
qed

lemma tracking_weights_in: "list_all (\<lambda>w. fin_in w 0 5) TRACKING_WEIGHTS"
  by (simp add: TRACKING_WEIGHTS_def fin_in_iff)

lemma standing_reward:
  assumes b: "course_reward h M s r m = Inr b" and up: "\<not> cm_fallen m" and M: "libm_ok M"
    and r: "list_all (\<lambda>w. fin_in w 0 5) (task_weights r)" "unit (rp_depth_strength r)"
  obtains t u v track where "list_all unit (breakdown_components b)" "list_all unit track" "length track = 3"
    "components M (drop 4 (metric_errors m)) TRACKING_SCALES = Inr track"
    "rb_tracking b = Fin t" "0 \<le> t" "\<bar>t - weighted TRACKING_WEIGHTS track\<bar> \<le> 1 / 2 ^ 42"
    "rb_task b = Fin u" "0 \<le> u" "\<bar>u - weighted (task_weights r) (breakdown_components b)\<bar> \<le> 1 / 2 ^ 42"
    "rb_total b = Fin v" "0 \<le> v" "\<bar>v - (t + u)\<bar> \<le> 1 / 2 ^ 44" "rb_failure b = Fin 0"
proof -
  note adm = course_reward_Inr(2)[OF b]
  obtain c track where c: "task_components M s r m = Inr c" and track: "components M (drop 4 (metric_errors m)) TRACKING_SCALES = Inr track"
    and parts: "rb_tracking b = py_sum (map2 f64_mul TRACKING_WEIGHTS track)"
      "rb_task b = f64_add (py_sum (map2 f64_mul (task_weights r) c)) (Fin 0)" "rb_total b = f64_add (rb_tracking b) (rb_task b)"
      "breakdown_components b = [c ! 0, c ! 1, c ! 2, c ! 3]" "rb_failure b = Fin 0"
    using b up by (auto simp: course_reward_def task_weights_def breakdown_components_def Let_def split: if_splits)
  note ci = task_components_in[OF M r(2) adm c]
  have "list_all (\<lambda>e. nonneg e \<and> is_finite e) (drop 4 (metric_errors m))"
    using adm by (auto simp: list_all_iff dest: in_set_dropD)
  note ti = components_in[OF M this scales_in(2) track]
  have tl: "length track = 3" using ti(2) by (simp add: metric_errors_def TRACKING_SCALES_def)
  have bc: "breakdown_components b = c" using parts(4) list4[OF ci(2)] by simp
  obtain t where t: "py_sum (map2 f64_mul TRACKING_WEIGHTS track) = Fin t" "f64_rep t" "0 \<le> t" "t \<le> 21"
    "\<bar>t - weighted TRACKING_WEIGHTS track\<bar> \<le> 1 / 2 ^ 42"
  proof (rule weighted_sum[OF tracking_weights_in ti(1)])
    show "length TRACKING_WEIGHTS = length track" "track \<noteq> []" "length track \<le> 4" using tl by (auto simp: TRACKING_WEIGHTS_def)
  qed (rule that)
  obtain u where u: "py_sum (map2 f64_mul (task_weights r) c) = Fin u" "f64_rep u" "0 \<le> u" "u \<le> 21"
    "\<bar>u - weighted (task_weights r) c\<bar> \<le> 1 / 2 ^ 42"
  proof (rule weighted_sum[OF r(1) ci(1)])
    show "length (task_weights r) = length c" "c \<noteq> []" "length c \<le> 4" using ci(2) by (auto simp: task_weights_def)
  qed (rule that)
  have task: "rb_task b = Fin u" using parts(2) u(1,2) by (simp add: f64_rep_round)
  have "\<bar>t + u\<bar> < 1024" using t(3,4) u(3,4) by linarith
  then obtain v where v: "f64_round (t + u) = Fin v" "\<bar>v - (t + u)\<bar> \<le> 1 / 2 ^ 44" using round_value by metis
  have "f64_le (Fin 0) (f64_round (t + u))" using f64_round_mono[of 0 "t + u"] t(3) u(3) by (simp add: f64_rep_round)
  then have v0: "0 \<le> v" using v(1) by simp
  have total: "rb_total b = Fin v" using parts(1,3) task t(1) v(1) by simp
  show ?thesis
    by (rule that[of track t u v]) (use ci ti tl track parts(1,5) t u v v0 task total bc in simp_all)
qed

text \<open>
  C30. Falling never pays: a fallen step gets exactly the failure weight as a penalty, no component and
  no tracking reward, and any step that has not fallen, under any specification and the same recipe,
  gets at least zero.
\<close>

theorem falling_never_pays:
  assumes r: "mk_reward_recipe w1 w2 w3 w4 w5 version_v strength_v fraction_v = Inr r"
    and fl: "list_all f64_ok [rp_speed r, rp_posture r, rp_lateral r, rp_heading r, rp_failure r, rp_depth_strength r]"
    and M: "libm_ok M"
    and fallen: "course_reward h M s r m = Inr b" "cm_fallen m"
    and standing: "course_reward h M s' r m' = Inr b'" "\<not> cm_fallen m'"
  shows "rb_total b = f64_neg (rp_failure r) \<and> rb_tracking b = Fin 0 \<and> breakdown_components b = replicate 4 (Fin 0) \<and>
     f64_le (rb_total b) (Fin 0) \<and> f64_le (Fin 0) (rb_total b') \<and> f64_le (rb_total b) (rb_total b')"
proof -
  have ok: "reward_recipe_ok r" using r by (simp add: mk_reward_recipe_iff)
  note w = recipe_weights_in[OF ok fl]
  have f: "f64_ok (rp_failure r)" using fl by simp
  obtain q where q: "rp_failure r = Fin q" "0 \<le> q" using w(2) by (auto simp: fin_in_def)
  have tw: "list_all (\<lambda>w. fin_in w 0 5) (task_weights r)" using w(1) by (simp add: task_weights_def)
  from standing M tw w(3) obtain v where "rb_total b' = Fin v" "0 \<le> v" by (rule standing_reward)
  with fallen_reward[OF fallen ok f] q show ?thesis by simp
qed

text \<open>
  The breakdown explains the total: for a step that has not fallen every component lies in the unit
  interval, the reported total is not negative, and it differs from the exact weighted sum of the
  reported components and of the tracking components by at most \<open>2^-40\<close>.
\<close>

lemma breakdown_explains_total:
  assumes r: "mk_reward_recipe w1 w2 w3 w4 w5 version_v strength_v fraction_v = Inr r"
    and fl: "list_all f64_ok [rp_speed r, rp_posture r, rp_lateral r, rp_heading r, rp_failure r, rp_depth_strength r]"
    and M: "libm_ok M" and b: "course_reward h M s r m = Inr b" and up: "\<not> cm_fallen m"
  shows "\<exists>track v. components M [cm_joint_rmse m, cm_height_error m, cm_roll_pitch_rmse m] TRACKING_SCALES = Inr track \<and>
     list_all unit track \<and> list_all unit (breakdown_components b) \<and> rb_total b = Fin v \<and> 0 \<le> v \<and>
     \<bar>v - (weighted TRACKING_WEIGHTS track + weighted (task_weights r) (breakdown_components b))\<bar> \<le> 1 / 2 ^ 40"
proof -
  have ok: "reward_recipe_ok r" using r by (simp add: mk_reward_recipe_iff)
  note w = recipe_weights_in[OF ok fl]
  have tw: "list_all (\<lambda>w. fin_in w 0 5) (task_weights r)" using w(1) by (simp add: task_weights_def)
  have d: "drop 4 (metric_errors m) = [cm_joint_rmse m, cm_height_error m, cm_roll_pitch_rmse m]" by (simp add: metric_errors_def)
  from b up M tw w(3) show ?thesis
  proof (rule standing_reward)
    fix t u v track
    assume a: "list_all unit (breakdown_components b)" "list_all unit track" "length track = 3"
      "components M (drop 4 (metric_errors m)) TRACKING_SCALES = Inr track"
      "rb_tracking b = Fin t" "0 \<le> t" "\<bar>t - weighted TRACKING_WEIGHTS track\<bar> \<le> 1 / 2 ^ 42"
      "rb_task b = Fin u" "0 \<le> u" "\<bar>u - weighted (task_weights r) (breakdown_components b)\<bar> \<le> 1 / 2 ^ 42"
      "rb_total b = Fin v" "0 \<le> v" "\<bar>v - (t + u)\<bar> \<le> 1 / 2 ^ 44" "rb_failure b = Fin 0"
    have "\<bar>v - (weighted TRACKING_WEIGHTS track + weighted (task_weights r) (breakdown_components b))\<bar>
        \<le> 1 / 2 ^ 44 + (1 / 2 ^ 42 + 1 / 2 ^ 42)"
      using a(7,10,13) by linarith
    also have "\<dots> \<le> 1 / 2 ^ 40" by simp
    finally show ?thesis using a(1,2,4,11,12) unfolding d by blast
  qed
qed

section \<open>When the reward fails\<close>

text \<open>At most \<open>2^400\<close>, an infinity and NaN excluded.\<close>

definition moderate :: "f64 \<Rightarrow> bool" where
  "moderate x \<longleftrightarrow> (\<exists>q. x = Fin q \<and> q \<le> pow2 400)"

lemma f64_rep_404: "f64_rep (pow2 404)"
  by (rule f64_rep_pow2) simp_all

lemma square_succeeds:
  assumes "libm_ok M" "moderate e" "nonneg e" "scale k"
  shows "\<exists>y. squareE M (quotient e k) = Inr y"
proof -
  obtain q where q: "e = Fin q" "0 \<le> q" "q \<le> pow2 400" using assms(2,3) by (auto simp: moderate_def nonneg_def)
  obtain c where c: "k = Fin c" "1 / 16 \<le> c" using assms(4) by (auto simp: fin_in_def)
  have "pow2 400 * 1 \<le> pow2 400 * (16 * c)" using c(2) by (intro mult_left_mono) simp_all
  moreover have "pow2 400 * (16 * c) = 16 * pow2 400 * c" by simp
  ultimately have "q \<le> 16 * pow2 400 * c" using q(3) by linarith
  then have "q / c \<le> pow2 404" using c pow2_add[of 4 400] by (simp add: pow2_def[of 4] field_simps)
  then have "fin_in (f64_round (q / c)) 0 (pow2 404)" using q(2) c(2) f64_rep_404 by (intro round_in) auto
  then obtain x where x: "f64_round (q / c) = Fin x" "0 \<le> x" "x \<le> pow2 404" by (auto simp: fin_in_def)
  have "x \<le> pow2 500" using x(3) pow2_mono[of 404 500] by linarith
  then have "m_pow2 M (Fin x) \<noteq> None" using libmD(2)[OF assms(1) x(2)] by blast
  moreover have "quotient e k = Fin x" using q c x(1) by (auto simp: quotient_def)
  ultimately show ?thesis by (auto simp: squareE_def)
qed

lemma components_fail:
  assumes "libm_ok M" "list_all (\<lambda>e. nonneg e \<and> is_finite e) es" "list_all scale ks" "components M es ks = Inl err"
  shows "err = PowOverflow \<and> \<not> list_all moderate es"
proof -
  obtain e k where ek: "(e, k) \<in> set (zip es ks)" "component_reward M e k = Inl err"
    using assms(4) mapE_Inl_in_set unfolding components_def by fastforce
  then have i: "nonneg e" "scale k" "e \<in> set es" using assms(2,3) by (auto simp: list_all_iff dest: set_zip_leftD set_zip_rightD)
  have s: "squareE M (quotient e k) = Inl err" using ek(2) by (auto simp: component_reward_def bindE_eq_Inl)
  then have "\<not> moderate e" using square_succeeds[OF assms(1) _ i(1,2)] by auto
  with s i(3) show ?thesis by (auto simp: squareE_def list_all_iff split: option.splits)
qed

lemma ceiling_nonneg:
  assumes "course_spec_ok s" "spec_floats_ok s" "reward_recipe_ok r" "f64_ok (rp_ceiling_fraction r)"
  shows "\<exists>c. f64_add (cs_band_low s) (f64_mul (rp_ceiling_fraction r) (f64_sub (cs_band_high s) (cs_band_low s))) = Fin c \<and> 0 \<le> c \<and> f64_rep c"
proof -
  obtain l u f where v: "cs_band_low s = Fin l" "cs_band_high s = Fin u" "rp_ceiling_fraction r = Fin f"
    using assms(1,3) by (auto simp: course_spec_ok_def reward_recipe_ok_def is_finite_iff)
  then have b: "0 < l" "l < u" "u \<le> 2" "0 \<le> f" "f \<le> 1"
    using assms(1,3) by (auto simp: course_spec_ok_def reward_recipe_ok_def)
  have four: "f64_rep 2" using f64_rep_quarters[of 8] by simp
  have "fin_in (f64_round (u - l)) 0 2" using b four by (intro round_in) simp_all
  then obtain d where d: "f64_round (u - l) = Fin d" "0 \<le> d" "d \<le> 2" by (auto simp: fin_in_def)
  have "f * d \<le> 2" using mult_mono[of f 1 d 2] b d by simp
  then have "fin_in (f64_round (f * d)) 0 2" using b d four by (intro round_in) simp_all
  then obtain g where g: "f64_round (f * d) = Fin g" "0 \<le> g" "g \<le> 2" by (auto simp: fin_in_def)
  have "fin_in (f64_round (l + g)) 0 4" using b g by (intro round_in) simp_all
  then show ?thesis using v d g by (auto simp: fin_in_def f64_sub_def)
qed

lemma depth_fails:
  assumes "libm_ok M" "course_spec_ok s" "spec_floats_ok s" "reward_recipe_ok r" "f64_ok (rp_ceiling_fraction r)"
    "f64_ok (cm_root_height m)" "depth_factor M s r m = Inl err"
  shows "err = RootHeightValue \<and> \<not> is_finite (cm_root_height m) \<or> err = PowOverflow \<and> \<not> moderate (cm_root_height m)"
proof (cases "is_finite (cm_root_height m)")
  case True
  then obtain z where z: "cm_root_height m = Fin z" "f64_rep z" using assms(6) by (auto simp: is_finite_iff)
  obtain c where c: "f64_add (cs_band_low s) (f64_mul (rp_ceiling_fraction r) (f64_sub (cs_band_high s) (cs_band_low s))) = Fin c" "0 \<le> c"
    using ceiling_nonneg[OF assms(2-5)] by blast
  define e where "e = py_max (Fin 0) (f64_sub (Fin z) (Fin c))"
  have "nonneg e" by (cases "f64_sub (Fin z) (Fin c)") (auto simp: e_def py_max_def nonneg_def)
  moreover have "moderate e" if "moderate (cm_root_height m)"
  proof -
    have "z \<le> pow2 400" using that z by (simp add: moderate_def)
    moreover have le: "f64_le (f64_sub (Fin z) (Fin c)) (Fin z)" using f64_sub_le[OF z(2) c(2)] .
    ultimately show ?thesis by (cases "f64_sub (Fin z) (Fin c)") (auto simp: e_def py_max_def moderate_def)
  qed
  moreover have "squareE M (quotient e TASK_REWARD_DEPTH_SCALE_M) = Inl err"
    using assms(7) z(1) c(1) unfolding depth_factor_def Let_def e_def by (auto simp: bindE_eq_Inl)
  ultimately show ?thesis
    using square_succeeds[OF assms(1) _ _ scales_in(3), of e] True by (auto simp: squareE_def split: option.splits)
qed (use assms(7) in \<open>auto simp: depth_factor_def\<close>)

text \<open>
  C31. The reward of a measurement fails only for a foreign specification, for an error that is negative
  or not finite, for a root height that is not finite, or because \<open>**\<close> overflows at a value above
  \<open>2^400\<close>; a fallen step fails for the first two reasons only.
\<close>

theorem reward_failures:
  assumes s: "mk_course_spec a b c d e f g n = Inr s" "spec_floats_ok s"
    and r: "mk_reward_recipe w1 w2 w3 w4 w5 version_v strength_v fraction_v = Inr r" "f64_ok (rp_ceiling_fraction r)"
    and z: "f64_ok (cm_root_height m)" and M: "libm_ok M" and fails: "course_reward h M s r m = Inl err"
  shows "err = MetricsSpec \<and> cm_spec_sha256 m \<noteq> course_spec_sha256 h s \<or>
     err = MetricsValues \<and> list_ex (\<lambda>x. \<not> (is_finite x \<and> nonneg x)) (metric_errors m) \<or>
     err = RootHeightValue \<and> \<not> cm_fallen m \<and> \<not> is_finite (cm_root_height m) \<or>
     err = PowOverflow \<and> \<not> cm_fallen m \<and> \<not> list_all moderate (cm_root_height m # metric_errors m)"
proof (cases "cm_spec_sha256 m \<noteq> course_spec_sha256 h s \<or> list_ex (\<lambda>x. \<not> is_finite x \<or> f64_lt x (Fin 0)) (metric_errors m)")
  case True
  moreover have "list_ex (\<lambda>x. \<not> is_finite x \<or> f64_lt x (Fin 0)) (metric_errors m) \<Longrightarrow>
      list_ex (\<lambda>x. \<not> (is_finite x \<and> nonneg x)) (metric_errors m)"
    using metrics_admitted[of "metric_errors m"] by (auto simp: list_ex_iff list_all_iff)
  ultimately show ?thesis using fails by (auto simp: course_reward_def split: if_splits)
next
  case False
  then have adm: "list_all (\<lambda>e. nonneg e \<and> is_finite e) (metric_errors m)" using metrics_admitted by blast
  have sok: "course_spec_ok s" and rok: "reward_recipe_ok r" using s(1) r(1) by (simp_all add: mk_course_spec_iff mk_reward_recipe_iff)
  have up: "\<not> cm_fallen m" using fails False by (auto simp: course_reward_def Let_def bindE_eq_Inl split: if_splits)
  from fails False up consider "components M (take 4 (metric_errors m)) TASK_SCALES = Inl err" | "depth_factor M s r m = Inl err"
    | "components M (drop 4 (metric_errors m)) TRACKING_SCALES = Inl err"
    by (auto simp: course_reward_def task_components_def Let_def bindE_eq_Inl split: if_splits)
  then show ?thesis
  proof cases
    case 1
    have "list_all (\<lambda>e. nonneg e \<and> is_finite e) (take 4 (metric_errors m))" using adm by (auto simp: list_all_iff dest: in_set_takeD)
    from components_fail[OF M this scales_in(1) 1] up show ?thesis by (auto simp: list_all_iff dest: in_set_takeD)
  next
    case 2
    from depth_fails[OF M sok s(2) rok r(2) z 2] up show ?thesis by auto
  next
    case 3
    have "list_all (\<lambda>e. nonneg e \<and> is_finite e) (drop 4 (metric_errors m))" using adm by (auto simp: list_all_iff dest: in_set_dropD)
    from components_fail[OF M this scales_in(2) 3] up show ?thesis by (auto simp: list_all_iff dest: in_set_dropD)
  qed
qed

section \<open>Witnesses\<close>

definition course_demo_reward_recipe :: reward_recipe where
  "course_demo_reward_recipe = \<lparr>rp_speed = Fin 1, rp_posture = Fin 1, rp_lateral = Fin 1, rp_heading = Fin 1, rp_failure = Fin 5,
     rp_version = 2, rp_depth_strength = Fin (1 / 2), rp_ceiling_fraction = Fin (1 / 2)\<rparr>"

lemma course_demo_math_ok: "libm_ok course_demo_math"
proof -
  have "nonneg (f64_mul x x)" if "nonneg x" for x
    using that nonneg_square[of x] by (auto simp: nonneg_def)
  then have "nonneg y" if "nonneg x" "m_pow2 course_demo_math x = Some y" for x y
    using that by (auto simp: nonneg_def[of PosInf] course_demo_math_def split: f64.splits if_splits) (metis f64_mul.simps(1))
  then show ?thesis
    by (auto simp: libm_ok_def course_demo_math_def fin_in_iff)
qed

lemma course_demo_recipe_made: "mk_reward_recipe (PFloat (Fin 1)) (PFloat (Fin 1)) (PFloat (Fin 1)) (PFloat (Fin 1)) (PFloat (Fin 5))
    (PInt 2) (PFloat (Fin (1 / 2))) (PFloat (Fin (1 / 2))) = Inr course_demo_reward_recipe"
  by (simp add: mk_reward_recipe_iff course_demo_reward_recipe_def reward_recipe_ok_def)

lemma course_demo_recipe_floats:
  "list_all f64_ok [rp_speed course_demo_reward_recipe, rp_posture course_demo_reward_recipe, rp_lateral course_demo_reward_recipe,
     rp_heading course_demo_reward_recipe, rp_failure course_demo_reward_recipe, rp_depth_strength course_demo_reward_recipe]"
  by (simp add: course_demo_reward_recipe_def)

definition course_demo_metrics :: "hasher \<Rightarrow> bool \<Rightarrow> f64 \<Rightarrow> step_metrics" where
  "course_demo_metrics h fallen error = \<lparr>cm_spec_sha256 = course_spec_sha256 h course_demo_spec, cm_control_step = 3, cm_progress = Fin 5,
     cm_lateral = Fin 0, cm_heading_signed = Fin 0, cm_root_height = Fin (3 / 4), cm_torso_up = Fin 1, cm_forward_speed = Fin 0,
     cm_target_speed = Fin (1 / 2), cm_speed_error = error, cm_posture_error = Fin 0, cm_lateral_error = Fin 0, cm_heading_error = Fin 0,
     cm_inside = False, cm_posture_success = False, cm_finished = False, cm_horizon_reached = False, cm_fallen = fallen,
     cm_failure_reasons = [], cm_joint_rmse = Fin 0, cm_height_error = Fin 0, cm_roll_pitch_rmse = Fin 0\<rparr>"

lemma course_demo_component: "scale k \<Longrightarrow> component_reward course_demo_math (Fin 0) k = Inr (Fin 1)"
  by (auto simp: component_reward_def squareE_def quotient_def course_demo_math_def fin_in_def f64_rep_round)

lemma course_demo_components:
  "components course_demo_math (take 4 (metric_errors (course_demo_metrics h fallen (Fin 0)))) TASK_SCALES = Inr (replicate 4 (Fin 1))"
  "components course_demo_math (drop 4 (metric_errors (course_demo_metrics h fallen e))) TRACKING_SCALES = Inr (replicate 3 (Fin 1))"
  using scales_in(1,2)
  by (simp_all add: components_def metric_errors_def course_demo_metrics_def TASK_SCALES_def TRACKING_SCALES_def course_demo_component
      numeral_eq_Suc)

lemma course_demo_rewarded:
  "\<exists>b. course_reward h course_demo_math course_demo_spec course_demo_reward_recipe (course_demo_metrics h fallen (Fin 0)) = Inr b"
proof -
  have t: "task_components course_demo_math course_demo_spec course_demo_reward_recipe (course_demo_metrics h fallen (Fin 0)) = Inr (replicate 4 (Fin 1))"
    using course_demo_components(1)[of h fallen] by (simp add: task_components_def course_demo_metrics_def)
  have m: "\<not> list_ex (\<lambda>x. \<not> is_finite x \<or> f64_lt x (Fin 0)) (metric_errors (course_demo_metrics h fallen (Fin 0)))"
    by (simp add: metric_errors_def course_demo_metrics_def)
  have s: "cm_spec_sha256 (course_demo_metrics h fallen (Fin 0)) = course_spec_sha256 h course_demo_spec"
    by (simp add: course_demo_metrics_def)
  show ?thesis
    unfolding course_reward_def s t course_demo_components(2) using m by (simp add: Let_def)
qed

theorem falling_never_pays_witness:
  "\<exists>b b'. course_reward demo_hasher course_demo_math course_demo_spec course_demo_reward_recipe (course_demo_metrics demo_hasher True (Fin 0)) = Inr b \<and>
     course_reward demo_hasher course_demo_math course_demo_spec course_demo_reward_recipe (course_demo_metrics demo_hasher False (Fin 0)) = Inr b' \<and>
     rb_total b = Fin (- 5) \<and> f64_le (Fin 0) (rb_total b')"
proof -
  obtain b b' where b: "course_reward demo_hasher course_demo_math course_demo_spec course_demo_reward_recipe (course_demo_metrics demo_hasher True (Fin 0)) = Inr b"
    "course_reward demo_hasher course_demo_math course_demo_spec course_demo_reward_recipe (course_demo_metrics demo_hasher False (Fin 0)) = Inr b'"
    using course_demo_rewarded by blast
  have f: "cm_fallen (course_demo_metrics demo_hasher True (Fin 0))" "\<not> cm_fallen (course_demo_metrics demo_hasher False (Fin 0))"
    by (simp_all add: course_demo_metrics_def)
  from falling_never_pays[OF course_demo_recipe_made course_demo_recipe_floats course_demo_math_ok b(1) f(1) b(2) f(2)] b
  show ?thesis by (auto simp: course_demo_reward_recipe_def)
qed

lemma breakdown_explains_total_witness:
  "\<exists>b v. course_reward demo_hasher course_demo_math course_demo_spec course_demo_reward_recipe (course_demo_metrics demo_hasher False (Fin 0)) = Inr b \<and>
     list_all unit (breakdown_components b) \<and> rb_total b = Fin v \<and> 0 \<le> v"
proof -
  obtain b where b: "course_reward demo_hasher course_demo_math course_demo_spec course_demo_reward_recipe (course_demo_metrics demo_hasher False (Fin 0)) = Inr b"
    using course_demo_rewarded by blast
  have f: "\<not> cm_fallen (course_demo_metrics demo_hasher False (Fin 0))" by (simp add: course_demo_metrics_def)
  from breakdown_explains_total[OF course_demo_recipe_made course_demo_recipe_floats course_demo_math_ok b f] b
  show ?thesis by blast
qed

text \<open>A speed error of \<open>2^600\<close> overflows.\<close>

theorem reward_failures_witness:
  "course_reward demo_hasher course_demo_math course_demo_spec course_demo_reward_recipe (course_demo_metrics demo_hasher False (Fin (pow2 600))) = Inl PowOverflow \<and>
     \<not> list_all moderate (cm_root_height (course_demo_metrics demo_hasher False (Fin (pow2 600))) # metric_errors (course_demo_metrics demo_hasher False (Fin (pow2 600))))"
proof -
  let ?m = "course_demo_metrics demo_hasher False (Fin (pow2 600))"
  obtain c where c: "f64_round (3 / 10) = Fin c" "1 / 16 \<le> c" "c \<le> 1"
    using scales_in(1) by (auto simp: TASK_SCALES_def fin_in_def)
  have r: "f64_rep (pow2 600)" "f64_rep (pow2 604)" by (rule f64_rep_pow2; simp)+
  have "pow2 600 * c \<le> pow2 600 * 1" "pow2 600 * 1 \<le> pow2 600 * (16 * c)" using c by (intro mult_left_mono; simp)+
  then have "pow2 600 \<le> pow2 600 / c" "pow2 600 / c \<le> pow2 604"
    using c(2) pow2_add[of 600 4] by (simp_all add: pow2_def[of 4] field_simps)
  then have "fin_in (f64_round (pow2 600 / c)) (pow2 600) (pow2 604)" using r by (intro round_in)
  then obtain x where x: "f64_round (pow2 600 / c) = Fin x" "pow2 600 \<le> x" by (auto simp: fin_in_def)
  have "pow2 500 < x" using x(2) pow2_strict_mono[of 500 600] by linarith
  then have "\<not> \<bar>x\<bar> \<le> pow2 500" by linarith
  then have s: "component_reward course_demo_math (Fin (pow2 600)) (f64_round (3 / 10)) = Inl PowOverflow"
    using c x(1) by (simp add: component_reward_def squareE_def quotient_def course_demo_math_def)
  have t: "task_components course_demo_math course_demo_spec course_demo_reward_recipe ?m = Inl PowOverflow"
    by (simp add: task_components_def components_def metric_errors_def course_demo_metrics_def TASK_SCALES_def s)
  have a: "\<not> list_ex (\<lambda>x. \<not> is_finite x \<or> f64_lt x (Fin 0)) (metric_errors ?m)"
    by (simp add: metric_errors_def course_demo_metrics_def not_less)
  have i: "cm_spec_sha256 ?m = course_spec_sha256 demo_hasher course_demo_spec" "\<not> cm_fallen ?m" by (simp_all add: course_demo_metrics_def)
  have fails: "course_reward demo_hasher course_demo_math course_demo_spec course_demo_reward_recipe ?m = Inl PowOverflow"
    unfolding course_reward_def t using a i by simp
  have v: "f64_ok (rp_ceiling_fraction course_demo_reward_recipe)" "f64_ok (cm_root_height ?m)"
    using f64_rep_quarters[of 3] by (simp_all add: course_demo_reward_recipe_def course_demo_metrics_def)
  from reward_failures[OF course_demo_spec_made course_demo_spec_floats course_demo_recipe_made v course_demo_math_ok fails] fails
  show ?thesis by auto
qed

end
