(* ===== verification/GymEnv.thy ===== *)
theory GymEnv
  imports CourseRuntime CourseReward
begin

text \<open>
  The residual-learning environment of the course (\<open>adapters/gmt/gym_env.py\<close>): around the plant runtime, the
  actor session and the composed reference, with the measurement and the reward of every control interval.  The
  action space of the library gymnasium and the network are parameters.
\<close>

section \<open>State\<close>

text \<open>\<open>BodyIndex\<close> is the \<open>IndexError\<close> of a geom without a body name.\<close>

datatype gym_error =
    RuntimeNotAdmitted | ResetOptions | ResetRequired | ResidualAction | BodyIndex | NotPrepared
  | Profile runtime_error | Feedback feedback_error | Control control_error | Reference compose_error | Course' course_error

record 'p gym_setup =
  gs_plant :: "'p plant"
  gs_actor :: "f64 list \<Rightarrow> np_value"
  gs_contains :: "np_value \<Rightarrow> bool"
  gs_hash :: hasher
  gs_math :: feedback_math
  gs_clips :: segment_math
  gs_task :: course_spec
  gs_recipe :: reward_recipe
  gs_runtime :: course_profile
  gs_bodies :: "string list"
  gs_record :: bool

text \<open>What an episode has prepared for its next action.\<close>

record active =
  ac_boundary :: control_boundary
  ac_frame :: task_frame
  ac_metrics :: step_metrics
  ac_command :: reference_command
  ac_plan :: "heading_plan option"
  ac_prepared :: prepared_control

record 'p gym_env =
  ge_plant :: "'p control_runtime"
  ge_session :: actor_session
  ge_oracle :: composed
  ge_active :: "active option"
  ge_done :: bool

definition mk_env :: "'p gym_setup \<Rightarrow> 'p control_runtime \<Rightarrow> actor_session \<Rightarrow> composed \<Rightarrow> gym_error + 'p gym_env" where
  "mk_env S plant session oracle = (if gs_runtime S \<notin> set RUNTIMES then Inl RuntimeNotAdmitted
     else bindE (liftE Profile (validate_course_program (gs_runtime S) (cp_program oracle))) (\<lambda>_.
       Inr \<lparr>ge_plant = plant, ge_session = session, ge_oracle = oracle, ge_active = None, ge_done = True\<rparr>))"

section \<open>Preparing an action\<close>

text \<open>A window of a segment as an array, and \<open>2 * math.pi\<close>.\<close>

definition window_array :: "rows \<Rightarrow> np_value" where
  "window_array v = NpArray F32 [length v, REFERENCE_FRAME_DIM] True (concat v)"

definition TWO_PI :: f64 where "TWO_PI = Fin (884279719003555 / 2 ^ 47)"

definition observation :: "'p gym_setup \<Rightarrow> composed \<Rightarrow> step_metrics \<Rightarrow> reference_command \<Rightarrow> prepared_control \<Rightarrow> gym_error + f64 list" where
  "observation S oracle metrics cmd prepared = (let phase = f64_mul TWO_PI (rc_phase_fraction cmd)
     in bindE (liftE Course' (domainE (m_sin (gs_math S)) phase)) (\<lambda>s.
        bindE (liftE Course' (domainE (m_cos (gs_math S)) phase)) (\<lambda>c.
        bindE (liftE Course' (task_features (gs_hash S) (course_of (gs_math S)) metrics (gs_task S))) (\<lambda>features.
          let dwell = int_truediv (mc_dwell (cp_machine oracle)) (cs_horizon (gs_task S));
              oracle_features = map to_f32 ([s, c] @ map (\<lambda>name. Fin (if rc_state cmd = name then 1 else 0)) (cr_slots (gs_runtime S)) @
                [if f64_lt (Fin 1) dwell then Fin 1 else dwell])
          in Inr (map to_f32 (pc_obs prepared @ features @ oracle_features))))))"

record prepared_step =
  ps_command :: reference_command
  ps_plan :: "heading_plan option"
  ps_prepared :: prepared_control
  ps_observation :: "f64 list"

definition prepare_step :: "'p gym_setup \<Rightarrow> control_boundary \<Rightarrow> task_frame \<Rightarrow> step_metrics \<Rightarrow> composed \<Rightarrow> actor_session \<Rightarrow>
    gym_error + (prepared_step \<times> composed \<times> actor_session)" where
  "prepare_step S boundary frame metrics oracle session =
     bindE (liftE Feedback (oracle_boundary_inputs (gs_math S) (gs_task S) frame (vec F64 (cb_qpos boundary)) (vec F64 (cb_qvel boundary))
         (PInt (cb_control_step boundary)))) (\<lambda>inputs.
     bindE (liftE Reference (composed_command (gs_hash S) (gs_clips S) oracle (PInt (cb_control_step boundary)) (bi_signals inputs) (bi_pose inputs)))
       (\<lambda>(native, oracle').
     bindE (if cr_heading_feedback (gs_runtime S) \<and> rc_state native = ''after''
         then bindE (liftE Feedback (plan_after_heading_feedback (gs_math S) (window_array (rc_window native))
             (PFloat (fp_lateral (bi_projection inputs))) (PFloat (fp_heading (bi_projection inputs))))) (\<lambda>plan.
           Inr (Some plan, native\<lparr>rc_window := hp_issued plan\<rparr>))
         else Inr (None, native)) (\<lambda>(plan, cmd).
     bindE (liftE Control (session_prepare (control_of (gs_math S)) (gs_actor S) boundary (window_array (rc_window cmd)) session)) (\<lambda>(prepared, session').
     bindE (observation S oracle' metrics cmd prepared) (\<lambda>obs.
       Inr (\<lparr>ps_command = cmd, ps_plan = plan, ps_prepared = prepared, ps_observation = obs\<rparr>, oracle', session'))))))"

section \<open>Reset\<close>

definition first_reference :: "'p gym_setup \<Rightarrow> composed \<Rightarrow> gym_error + f64 list" where
  "first_reference S oracle = liftE Reference (bindE (segment_of oracle (mc_behavior (cp_machine oracle))) (\<lambda>s.
     bindE (segment_features (gs_clips S) s [Fin 0]) (\<lambda>features. Inr (features ! 0))))"

definition ORACLE_SIGNAL_CONTRACT_ID :: string where
  "ORACLE_SIGNAL_CONTRACT_ID = ''gmt_initial_heading_frame_boundary_signals/v1''"

definition reset_info :: "'p gym_setup \<Rightarrow> composed \<Rightarrow> pyval" where
  "reset_info S oracle = PDict ([
     (''runtime_id'', PStr (cr_gym (gs_runtime S))),
     (''signal_contract_id'', PStr ORACLE_SIGNAL_CONTRACT_ID),
     (''reset_distribution'', PStr ''fixed_home_keyframe_one_warmup_step''),
     (''seed_effect'', PStr ''policy_training_rng_only_no_reset_randomization''),
     (''task_sha256'', PStr (course_spec_sha256 (gs_hash S) (gs_task S))),
     (''oracle_sha256'', PStr (content_hash (gs_hash S) (cycle_to_dict (cp_program oracle)))),
     (''reward_sha256'', PStr (reward_recipe_sha256 (gs_hash S) (gs_recipe S)))] @
     (if manifest_contract (gs_runtime S) \<noteq> PNone then [(''course_runtime'', manifest_contract (gs_runtime S))] else []))"

definition env_reset :: "'p gym_setup \<Rightarrow> bool \<Rightarrow> 'p gym_env \<Rightarrow> gym_error + (f64 list \<times> pyval \<times> 'p gym_env)" where
  "env_reset S has_options e = (if has_options then Inl ResetOptions
     else bindE (liftE Control (runtime_reset (gs_plant S) (ge_plant e))) (\<lambda>(boundary, plant).
       let session = session_reset (as_prepared (ge_session e))
       in bindE (liftE Reference (composed_reset (cp_program (ge_oracle e)) (cp_segments (ge_oracle e)))) (\<lambda>oracle.
          bindE (liftE Course' (frame_initialize (course_of (gs_math S)) (Floating [2] (take 2 (cb_qpos boundary)))
             (Floating [4] (take 4 (drop 3 (cb_qpos boundary)))))) (\<lambda>frame.
          bindE (first_reference S oracle) (\<lambda>current.
          bindE (liftE Course' (evaluate_course_step (gs_hash S) (course_of (gs_math S)) (gs_task S) frame (Floating [30] (cb_qpos boundary))
             (Floating [30] (cb_qpos boundary)) (PTuple []) (Floating [length current] current) (PInt 0))) (\<lambda>metrics.
          bindE (prepare_step S boundary frame metrics oracle session) (\<lambda>(p, oracle', session').
            Inr (ps_observation p, reset_info S oracle',
              \<lparr>ge_plant = plant, ge_session = session', ge_oracle = oracle',
               ge_active = Some \<lparr>ac_boundary = boundary, ac_frame = frame, ac_metrics = metrics, ac_command = ps_command p,
                 ac_plan = ps_plan p, ac_prepared = ps_prepared p\<rparr>, ge_done = False\<rparr>))))))))"

section \<open>A step\<close>

text \<open>The bodies that touch the ground in any substep.\<close>

definition is_ground :: "string \<Rightarrow> bool" where
  "is_ground name \<longleftrightarrow> name = ''world'' \<or> name = ''body:0''"

definition body_name :: "string list \<Rightarrow> int \<Rightarrow> gym_error + string" where
  "body_name names i = (if 0 \<le> i \<and> i < int (length names) then Inr (names ! nat i) else Inl BodyIndex)"

definition ground_bodies :: "string list \<Rightarrow> contact_pair list list \<Rightarrow> gym_error + string list" where
  "ground_bodies names contacts = bindE (mapE (\<lambda>(first, second). bindE (body_name names first) (\<lambda>a. bindE (body_name names second) (\<lambda>b.
       Inr ((if is_ground a then [b] else []) @ (if is_ground b then [a] else []))))) (concat contacts)) (\<lambda>found.
     Inr (sort (uniq (concat found))))"

text \<open>A fall within the interval, and what it makes of the verdicts.\<close>

definition substep_reasons :: "feedback_math \<Rightarrow> f64 list list \<Rightarrow> string list" where
  "substep_reasons M q =
     (if list_ex (\<lambda>row. f64_lt (row ! 2) ROOT_HEIGHT_FAILURE_M) q then [''substep_root_height_failure''] else []) @
     (if list_ex (\<lambda>row. f64_lt (f64_sub (Fin 1) (f64_mul (Fin 2) (f64_add (np_square M (row ! 4)) (np_square M (row ! 5)))))
        TORSO_UP_FAILURE_MIN) q then [''substep_uprightness_failure''] else [])"

definition interval_metrics :: "feedback_math \<Rightarrow> f64 list list \<Rightarrow> step_metrics \<Rightarrow> step_metrics" where
  "interval_metrics M q metrics = (let reasons = cm_failure_reasons metrics @ substep_reasons M q
     in if reasons = [] then metrics
        else metrics\<lparr>cm_fallen := True, cm_posture_success := False, cm_failure_reasons := sort (uniq reasons)\<rparr>)"

text \<open>What one step gives its caller, apart from the observation.\<close>

record step_result =
  sr_boundary :: control_boundary
  sr_interval :: control_interval
  sr_composite :: "f64 list"
  sr_native :: "f64 list"
  sr_reference :: "f64 list"
  sr_metrics :: step_metrics
  sr_reward :: reward_breakdown
  sr_executed :: reference_command
  sr_plan :: "heading_plan option"
  sr_before :: int
  sr_terminated :: bool
  sr_truncated :: bool
  sr_observation :: "f64 list"

section \<open>What a step reports\<close>

definition course_metrics_to_dict :: "step_metrics \<Rightarrow> pyval" where
  "course_metrics_to_dict m = PDict [
     (''task_spec_sha256'', PStr (cm_spec_sha256 m)),
     (''control_step'', PInt (cm_control_step m)),
     (''progress_m'', PFloat (cm_progress m)),
     (''lateral_m'', PFloat (cm_lateral m)),
     (''heading_error_signed_rad'', PFloat (cm_heading_signed m)),
     (''root_height_m'', PFloat (cm_root_height m)),
     (''torso_up'', PFloat (cm_torso_up m)),
     (''forward_speed_m_s'', PFloat (cm_forward_speed m)),
     (''target_speed_m_s'', PFloat (cm_target_speed m)),
     (''speed_error_m_s'', PFloat (cm_speed_error m)),
     (''posture_band_error_m'', PFloat (cm_posture_error m)),
     (''lateral_error_m'', PFloat (cm_lateral_error m)),
     (''heading_error_rad'', PFloat (cm_heading_error m)),
     (''inside_posture_region'', PBool (cm_inside m)),
     (''posture_success'', PBool (cm_posture_success m)),
     (''finish_condition_met'', PBool (cm_finished m)),
     (''horizon_reached'', PBool (cm_horizon_reached m)),
     (''episode_success'', PNone),
     (''fallen'', PBool (cm_fallen m)),
     (''failure_reasons'', PTuple (map PStr (cm_failure_reasons m))),
     (''joint_position_rmse_rad'', PFloat (cm_joint_rmse m)),
     (''root_height_abs_error_m'', PFloat (cm_height_error m)),
     (''roll_pitch_rmse_rad'', PFloat (cm_roll_pitch_rmse m))]"

definition breakdown_to_dict :: "reward_breakdown \<Rightarrow> pyval" where
  "breakdown_to_dict b = PDict [
     (''task_spec_sha256'', PStr (rb_spec_sha256 b)),
     (''task_reward_recipe_sha256'', PStr (rb_recipe_sha256 b)),
     (''tracking_reward'', PFloat (rb_tracking b)),
     (''task_reward'', PFloat (rb_task b)),
     (''total_reward'', PFloat (rb_total b)),
     (''speed_component_reward'', PFloat (rb_speed b)),
     (''posture_component_reward'', PFloat (rb_posture b)),
     (''lateral_component_reward'', PFloat (rb_lateral b)),
     (''heading_component_reward'', PFloat (rb_heading b)),
     (''failure_penalty'', PFloat (rb_failure b))]"

definition phase_transition_dict :: "phase_transition option \<Rightarrow> pyval" where
  "phase_transition_dict tr = (case tr of None \<Rightarrow> PNone | Some t \<Rightarrow> PDict [
     (''control_step'', PInt (tr_control_step t)),
     (''from_state'', PStr (tr_from_state t)),
     (''to_state'', PStr (tr_to_state t)),
     (''from_behavior'', PStr (tr_from_behavior t)),
     (''to_behavior'', PStr (tr_to_behavior t)),
     (''selected_phase_seconds'', PFloat (tr_selected t)),
     (''normalized_pose_distance'', PFloat (tr_distance t)),
     (''rule'', PStr ''nearest_native_phase_first_tie''),
     (''segment_sha256'', PStr (tr_segment_sha256 t))])"

definition trajectory_dict :: "'p gym_setup \<Rightarrow> step_result \<Rightarrow> pyval" where
  "trajectory_dict S r = PDict [
     (''qpos'', PList (map PFloat (cb_qpos (sr_boundary r)))),
     (''qvel'', PList (map PFloat (cb_qvel (sr_boundary r)))),
     (''current_reference'', PList (map PFloat (sr_reference r))),
     (''composite_raw_action'', PList (map PFloat (sr_composite r))),
     (''contact_pairs'', PTuple (map (\<lambda>pairs. PTuple (map (\<lambda>(a, b). PTuple [PInt a, PInt b]) pairs)) (ci_contacts (sr_interval r)))),
     (''geom_body_names'', PTuple (map PStr (gs_bodies S)))]"

definition step_info :: "'p gym_setup \<Rightarrow> step_result \<Rightarrow> gym_error + (string \<times> pyval) list" where
  "step_info S r = bindE (case sr_plan r of None \<Rightarrow> Inr []
       | Some p \<Rightarrow> bindE (liftE Feedback (after_heading_feedback_trace (gs_hash S) (gs_math S) (sr_before r) p
            (vec F32 (sr_native r)) (vec F32 (sr_reference r)))) (\<lambda>t. Inr [(AFTER_HEADING_FEEDBACK_TRACE_KEY, t)])) (\<lambda>feedback.
     Inr ([
       (''metrics'', course_metrics_to_dict (sr_metrics r)),
       (''reward'', breakdown_to_dict (sr_reward r)),
       (''executed_mode'', PStr (rc_state (sr_executed r))),
       (''executed_behavior'', PStr (rc_behavior (sr_executed r))),
       (''executed_phase_seconds'', PFloat (rc_phase_seconds (sr_executed r))),
       (''transition'', phase_transition_dict (rc_transition (sr_executed r))),
       (''action_saturation_fraction'', PFloat (action_saturation_fraction (sr_interval r))),
       (''torque_saturation_fraction'', PFloat (torque_saturation_fraction (sr_interval r)))] @
       feedback @ (if gs_record S then [(''trajectory'', trajectory_dict S r)] else [])))"

definition RESIDUAL_RAW_SCALE :: f64 where "RESIDUAL_RAW_SCALE = to_f32 COURSE_RESIDUAL_RAW_SCALE"

definition residual_action :: "'p gym_setup \<Rightarrow> np_value \<Rightarrow> gym_error + np_value" where
  "residual_action S action_v = (case action_v of
       NpArray d s contiguous data \<Rightarrow> if d \<noteq> F32 \<or> \<not> gs_contains S action_v then Inl ResidualAction else Inr (NpArray d s True data)
     | NotNpArray \<Rightarrow> Inl ResidualAction)"

definition poststep_reference :: "heading_plan option \<Rightarrow> f64 list \<Rightarrow> gym_error + f64 list" where
  "poststep_reference plan native = (case plan of None \<Rightarrow> Inr native
     | Some p \<Rightarrow> liftE Feedback (issue_held_poststep_target p (vec F32 native)))"

definition episode_ends :: "course_profile \<Rightarrow> step_metrics \<Rightarrow> bool \<times> bool" where
  "episode_ends runtime metrics = (if cr_horizon_terminates runtime then (cm_fallen metrics \<or> cm_horizon_reached metrics, False)
     else (cm_fallen metrics, cm_horizon_reached metrics))"

definition env_step :: "'p gym_setup \<Rightarrow> np_value \<Rightarrow> 'p gym_env \<Rightarrow> gym_error + (step_result \<times> (string \<times> pyval) list \<times> 'p gym_env)" where
  "env_step S action_v e = (if ge_done e then Inl ResetRequired
     else case ge_active e of None \<Rightarrow> Inl NotPrepared | Some a \<Rightarrow>
       bindE (residual_action S action_v) (\<lambda>action.
       bindE (liftE Control (compose_residual_raw_action (vec F32 (pc_base_raw (ac_prepared a))) action RESIDUAL_RAW_SCALE)) (\<lambda>composite.
       bindE (liftE Control (runtime_step (gs_plant S) (vec F32 composite) (ge_plant e))) (\<lambda>(boundary, interval, plant).
       bindE (liftE Control (session_commit (ac_prepared a) (vec F32 composite) (ge_session e))) (\<lambda>session.
       bindE (liftE Reference (current_after_step (gs_clips S) (ge_oracle e) (cb_control_step boundary))) (\<lambda>native.
       bindE (poststep_reference (ac_plan a) native) (\<lambda>reference.
       bindE (ground_bodies (gs_bodies S) (ci_contacts interval)) (\<lambda>bodies.
       bindE (liftE Course' (evaluate_course_step (gs_hash S) (course_of (gs_math S)) (gs_task S) (ac_frame a)
            (Floating [30] (cb_qpos (ac_boundary a))) (Floating [30] (cb_qpos boundary)) (PTuple (map PStr bodies))
            (Floating [length reference] reference) (PInt (cb_control_step boundary)))) (\<lambda>measured.
       let metrics = interval_metrics (gs_math S) (ci_qpos interval) measured
       in bindE (liftE Course' (course_reward (gs_hash S) (course_of (gs_math S)) (gs_task S) (gs_recipe S) metrics)) (\<lambda>breakdown.
       let (terminated, truncated) = episode_ends (gs_runtime S) metrics
       in bindE (prepare_step S boundary (ac_frame a) metrics (ge_oracle e) session) (\<lambda>(p, oracle', session').
         let r = \<lparr>sr_boundary = boundary, sr_interval = interval, sr_composite = composite, sr_native = native, sr_reference = reference,
               sr_metrics = metrics, sr_reward = breakdown, sr_executed = ac_command a, sr_plan = ac_plan a,
               sr_before = cb_control_step (ac_boundary a), sr_terminated = terminated, sr_truncated = truncated,
               sr_observation = ps_observation p\<rparr>
         in bindE (step_info S r) (\<lambda>info.
           Inr (r, info,
              \<lparr>ge_plant = plant, ge_session = session', ge_oracle = oracle',
               ge_active = Some \<lparr>ac_boundary = boundary, ac_frame = ac_frame a, ac_metrics = metrics, ac_command = ps_command p,
                 ac_plan = ps_plan p, ac_prepared = ps_prepared p\<rparr>, ge_done = (terminated \<or> truncated)\<rparr>)))))))))))))"

section \<open>The parts of a prepared and of an executed action\<close>

text \<open>The command that is executed is the native one, with the steered window when the plan asks for it.\<close>

definition issued_command :: "heading_plan option \<Rightarrow> reference_command \<Rightarrow> reference_command" where
  "issued_command plan native = (case plan of None \<Rightarrow> native | Some p \<Rightarrow> native\<lparr>rc_window := hp_issued p\<rparr>)"

definition planned :: "'p gym_setup \<Rightarrow> reference_command \<Rightarrow> frame_projection \<Rightarrow> heading_plan option \<Rightarrow> bool" where
  "planned S native projection plan \<longleftrightarrow> (if cr_heading_feedback (gs_runtime S) \<and> rc_state native = ''after''
     then (\<exists>p. plan = Some p \<and> plan_after_heading_feedback (gs_math S) (window_array (rc_window native))
       (PFloat (fp_lateral projection)) (PFloat (fp_heading projection)) = Inr p)
     else plan = None)"

lemma prepare_stepE:
  assumes "prepare_step S boundary frame metrics oracle session = Inr (p, oracle', session')"
  obtains inputs native where
    "oracle_boundary_inputs (gs_math S) (gs_task S) frame (vec F64 (cb_qpos boundary)) (vec F64 (cb_qvel boundary))
       (PInt (cb_control_step boundary)) = Inr inputs"
    "composed_command (gs_hash S) (gs_clips S) oracle (PInt (cb_control_step boundary)) (bi_signals inputs) (bi_pose inputs) = Inr (native, oracle')"
    "planned S native (bi_projection inputs) (ps_plan p)"
    "ps_command p = issued_command (ps_plan p) native"
    "session_prepare (control_of (gs_math S)) (gs_actor S) boundary (window_array (rc_window (ps_command p))) session = Inr (ps_prepared p, session')"
    "observation S oracle' metrics (ps_command p) (ps_prepared p) = Inr (ps_observation p)"
proof -
  from assms obtain inputs native where i: "oracle_boundary_inputs (gs_math S) (gs_task S) frame (vec F64 (cb_qpos boundary)) (vec F64 (cb_qvel boundary))
       (PInt (cb_control_step boundary)) = Inr inputs"
    and c: "composed_command (gs_hash S) (gs_clips S) oracle (PInt (cb_control_step boundary)) (bi_signals inputs) (bi_pose inputs) = Inr (native, oracle')"
    by (auto simp: prepare_step_def)
  show ?thesis
    using assms by (intro that[OF i c]) (auto simp: prepare_step_def i c planned_def issued_command_def split: if_splits)
qed

lemma env_stepE:
  assumes "env_step S action_v e = Inr (r, info, e')"
  obtains a action boundary interval plant session native reference bodies measured breakdown p oracle' session' where
    "\<not> ge_done e" "ge_active e = Some a" "residual_action S action_v = Inr action"
    "compose_residual_raw_action (vec F32 (pc_base_raw (ac_prepared a))) action RESIDUAL_RAW_SCALE = Inr (sr_composite r)"
    "runtime_step (gs_plant S) (vec F32 (sr_composite r)) (ge_plant e) = Inr (boundary, interval, plant)"
    "session_commit (ac_prepared a) (vec F32 (sr_composite r)) (ge_session e) = Inr session"
    "current_after_step (gs_clips S) (ge_oracle e) (cb_control_step boundary) = Inr native"
    "poststep_reference (ac_plan a) native = Inr reference"
    "ground_bodies (gs_bodies S) (ci_contacts interval) = Inr bodies"
    "evaluate_course_step (gs_hash S) (course_of (gs_math S)) (gs_task S) (ac_frame a)
       (Floating [30] (cb_qpos (ac_boundary a))) (Floating [30] (cb_qpos boundary)) (PTuple (map PStr bodies))
       (Floating [length reference] reference) (PInt (cb_control_step boundary)) = Inr measured"
    "sr_metrics r = interval_metrics (gs_math S) (ci_qpos interval) measured"
    "course_reward (gs_hash S) (course_of (gs_math S)) (gs_task S) (gs_recipe S) (sr_metrics r) = Inr breakdown"
    "prepare_step S boundary (ac_frame a) (sr_metrics r) (ge_oracle e) session = Inr (p, oracle', session')"
    "step_info S r = Inr info"
    "r = \<lparr>sr_boundary = boundary, sr_interval = interval, sr_composite = sr_composite r, sr_native = native, sr_reference = reference,
       sr_metrics = sr_metrics r, sr_reward = breakdown, sr_executed = ac_command a, sr_plan = ac_plan a,
       sr_before = cb_control_step (ac_boundary a), sr_terminated = fst (episode_ends (gs_runtime S) (sr_metrics r)),
       sr_truncated = snd (episode_ends (gs_runtime S) (sr_metrics r)), sr_observation = ps_observation p\<rparr>"
    "e' = \<lparr>ge_plant = plant, ge_session = session', ge_oracle = oracle',
       ge_active = Some \<lparr>ac_boundary = boundary, ac_frame = ac_frame a, ac_metrics = sr_metrics r, ac_command = ps_command p,
         ac_plan = ps_plan p, ac_prepared = ps_prepared p\<rparr>, ge_done = (sr_terminated r \<or> sr_truncated r)\<rparr>"
proof -
  have live: "\<not> ge_done e" using assms by (auto simp: env_step_def)
  then obtain a where a: "ge_active e = Some a" using assms by (auto simp: env_step_def split: option.splits)
  from assms show ?thesis
    unfolding env_step_def Let_def a option.case
    using live a
    by (simp only: if_False bindE_eq_Inr split_paired_Ex split_beta prod.case prod.sel liftE_Inr sum.inject prod.inject)
      (elim exE conjE, hypsubst, rule that, simp_all add: prod_eq_iff)
qed

section \<open>The counters of an episode\<close>

definition boundary_ok :: "control_boundary \<Rightarrow> bool" where
  "boundary_ok b \<longleftrightarrow> length (cb_qpos b) = 30 \<and> list_all is_finite (cb_qpos b) \<and> length (cb_qvel b) = 29 \<and> list_all is_finite (cb_qvel b) \<and>
     0 \<le> cb_control_step b \<and> cb_simulation_step b = 20 * cb_control_step b"

lemma boundary_nowE:
  assumes "boundary_now P rt = Inr b"
  shows "boundary_ok b \<and> cb_control_step b = rt_control_step rt"
  using assms
  by (auto simp: boundary_now_def mk_boundary_def exact_array_Inr nonnegative_integer_def boundary_ok_def SIMULATION_DECIMATION_def split: if_splits)

lemma runtime_resetE:
  assumes "runtime_reset P rt = Inr (b, rt')"
  shows "boundary_ok b \<and> cb_control_step b = 0 \<and> cadence_ok rt' \<and> rt_control_step rt' = 0"
proof -
  have "boundary_now P rt' = Inr b" using assms by (auto simp: runtime_reset_def Let_def)
  then show ?thesis using boundary_nowE[of P rt' b] runtime_reset_cadence[OF assms] by simp
qed

lemma runtime_stepE:
  assumes "runtime_step P v rt = Inr (b, i, rt')" "cadence_ok rt"
  shows "boundary_ok b \<and> cb_control_step b = rt_control_step rt + 1 \<and> cadence_ok rt' \<and> rt_control_step rt' = rt_control_step rt + 1"
proof -
  have "boundary_now P rt' = Inr b" "rt_control_step rt' = rt_control_step rt + 1" "rt_ready rt' = rt_ready rt"
    "rt_simulation_step rt' = rt_simulation_step rt + int SIMULATION_DECIMATION"
    using assms(1) by (auto simp: runtime_step_def Let_def split: if_splits)
  then show ?thesis using boundary_nowE[of P rt' b] assms(2) by (simp add: cadence_ok_def algebra_simps)
qed

lemma session_prepareE:
  assumes "session_prepare M actor b w s = Inr (p, s')"
  shows "as_pending s = None \<and> as_expected_step s = cb_control_step b \<and> as_pending s' = Some p \<and> pc_control_step p = cb_control_step b \<and>
     as_expected_step s' = as_expected_step s"
  using assms by (auto simp: session_prepare_def mk_prepared_def nonnegative_integer_def split: if_splits)

lemma session_commitE:
  assumes "session_commit p v s = Inr s'"
  shows "as_pending s = Some p \<and> as_pending s' = None \<and> as_expected_step s' = as_expected_step s + 1"
  using assms by (auto simp: session_commit_def split: if_splits)

lemma commandE:
  assumes "composed_command h T c step_v signals pose = Inr (cmd, c')"
  shows "step_v = PInt (cp_last_step c + 1) \<and> cp_last_step c' = cp_last_step c + 1 \<and> cp_program c' = cp_program c \<and> cp_segments c' = cp_segments c"
  using assms by (rule composed_commandE) simp

lemma prepare_counts:
  assumes "prepare_step S boundary frame metrics oracle session = Inr (p, oracle', session')"
  shows "as_pending session' = Some (ps_prepared p) \<and> pc_control_step (ps_prepared p) = cb_control_step boundary \<and>
     as_expected_step session' = cb_control_step boundary \<and> cp_last_step oracle' = cb_control_step boundary \<and>
     cp_last_step oracle + 1 = cb_control_step boundary"
  using assms
proof (rule prepare_stepE)
  fix inputs native
  assume c: "composed_command (gs_hash S) (gs_clips S) oracle (PInt (cb_control_step boundary)) (bi_signals inputs) (bi_pose inputs) = Inr (native, oracle')"
    and s: "session_prepare (control_of (gs_math S)) (gs_actor S) boundary (window_array (rc_window (ps_command p))) session = Inr (ps_prepared p, session')"
  from commandE[OF c] session_prepareE[OF s] show ?thesis by simp
qed

lemma prepare_reaches:
  assumes "prepare_step S boundary frame metrics oracle session = Inr (p, oracle', session')"
    and "composed_at (gs_hash S) (gs_clips S) program segments oracle"
  shows "composed_at (gs_hash S) (gs_clips S) program segments oracle'"
  using assms(1) by (rule prepare_stepE) (use assms(2) in \<open>blast intro: composed_at.step\<close>)

lemma interval_metrics_sel [simp]:
  "cm_control_step (interval_metrics M q m) = cm_control_step m" "cm_spec_sha256 (interval_metrics M q m) = cm_spec_sha256 m"
  "cm_horizon_reached (interval_metrics M q m) = cm_horizon_reached m"
  by (simp_all add: interval_metrics_def Let_def)

lemma evaluate_counts:
  assumes "evaluate_course_step h M s frame before_v after_v contacts_v reference_v step_v = Inr m"
  shows "step_v = PInt (cm_control_step m) \<and> cm_control_step m \<le> cs_horizon s \<and> cm_spec_sha256 m = course_spec_sha256 h s \<and>
     cm_horizon_reached m = (cs_horizon s \<le> cm_control_step m)"
  using assms by (rule evaluate_course_stepE) simp

text \<open>Plant, actor, oracle and measurement agree on the control step.\<close>

definition counters_agree :: "'p gym_setup \<Rightarrow> 'p gym_env \<Rightarrow> active \<Rightarrow> bool" where
  "counters_agree S e a \<longleftrightarrow> (let k = cb_control_step (ac_boundary a) in
     0 \<le> k \<and> k \<le> cs_horizon (gs_task S) \<and> boundary_ok (ac_boundary a) \<and>
     cadence_ok (ge_plant e) \<and> rt_control_step (ge_plant e) = k \<and> rt_simulation_step (ge_plant e) = 20 * k \<and>
     as_expected_step (ge_session e) = k \<and> as_pending (ge_session e) = Some (ac_prepared a) \<and> pc_control_step (ac_prepared a) = k \<and>
     cp_last_step (ge_oracle e) = k \<and>
     cm_control_step (ac_metrics a) = k \<and> cm_spec_sha256 (ac_metrics a) = course_spec_sha256 (gs_hash S) (gs_task S) \<and>
     (ge_done e \<longrightarrow> cm_fallen (ac_metrics a) \<or> k = cs_horizon (gs_task S)) \<and> (\<not> ge_done e \<longrightarrow> k < cs_horizon (gs_task S)))"

definition env_inv :: "'p gym_setup \<Rightarrow> cycle_program \<Rightarrow> (string \<times> segment) list \<Rightarrow> 'p gym_env \<Rightarrow> bool" where
  "env_inv S program segments e \<longleftrightarrow> composed_at (gs_hash S) (gs_clips S) program segments (ge_oracle e) \<and>
     (case ge_active e of None \<Rightarrow> ge_done e | Some a \<Rightarrow> counters_agree S e a)"

text \<open>The environments that resets and steps lead to.\<close>

inductive env_at :: "'p gym_setup \<Rightarrow> cycle_program \<Rightarrow> (string \<times> segment) list \<Rightarrow> 'p gym_env \<Rightarrow> bool" for S program segments where
  made: "mk_composed program segments = Inr oracle \<Longrightarrow> mk_env S plant session oracle = Inr e \<Longrightarrow> env_at S program segments e"
| reset: "env_at S program segments e \<Longrightarrow> env_reset S has_options e = Inr (obs, info, e') \<Longrightarrow> env_at S program segments e'"
| step: "env_at S program segments e \<Longrightarrow> env_step S action_v e = Inr (r, info, e') \<Longrightarrow> env_at S program segments e'"

lemma env_resetE:
  assumes "env_reset S has_options e = Inr (obs, info, e')"
  obtains boundary plant orc frame current metrics p oracle' session' where
    "runtime_reset (gs_plant S) (ge_plant e) = Inr (boundary, plant)"
    "composed_reset (cp_program (ge_oracle e)) (cp_segments (ge_oracle e)) = Inr orc"
    "frame_initialize (course_of (gs_math S)) (Floating [2] (take 2 (cb_qpos boundary))) (Floating [4] (take 4 (drop 3 (cb_qpos boundary)))) = Inr frame"
    "first_reference S orc = Inr current"
    "evaluate_course_step (gs_hash S) (course_of (gs_math S)) (gs_task S) frame (Floating [30] (cb_qpos boundary))
       (Floating [30] (cb_qpos boundary)) (PTuple []) (Floating [length current] current) (PInt 0) = Inr metrics"
    "prepare_step S boundary frame metrics orc (session_reset (as_prepared (ge_session e))) = Inr (p, oracle', session')"
    "e' = \<lparr>ge_plant = plant, ge_session = session', ge_oracle = oracle',
       ge_active = Some \<lparr>ac_boundary = boundary, ac_frame = frame, ac_metrics = metrics, ac_command = ps_command p,
         ac_plan = ps_plan p, ac_prepared = ps_prepared p\<rparr>, ge_done = False\<rparr>"
  using assms unfolding env_reset_def Let_def
  by (auto split: if_splits intro: that)

lemma reset_reaches:
  assumes "composed_at h T program segments c" "composed_reset (cp_program c) (cp_segments c) = Inr c'"
  shows "mk_composed program segments = Inr c'"
  using composed_at_inv[OF assms(1)] assms(2) by (simp add: composed_inv_def mk_composed_def)

lemma env_at_inv:
  assumes "env_at S program segments e" and h: "1 \<le> cs_horizon (gs_task S)"
  shows "env_inv S program segments e"
  using assms(1)
proof (induction rule: env_at.induct)
  case (made orc plant session e)
  then show ?case by (auto simp: mk_env_def env_inv_def intro: composed_at.start split: if_splits)
next
  case (reset e has_options obs info e')
  from reset.hyps(2) obtain boundary plant orc frame current metrics p oracle' session' where
    r: "runtime_reset (gs_plant S) (ge_plant e) = Inr (boundary, plant)" and o: "composed_reset (cp_program (ge_oracle e)) (cp_segments (ge_oracle e)) = Inr orc"
    and m: "evaluate_course_step (gs_hash S) (course_of (gs_math S)) (gs_task S) frame (Floating [30] (cb_qpos boundary))
       (Floating [30] (cb_qpos boundary)) (PTuple []) (Floating [length current] current) (PInt 0) = Inr metrics"
    and p: "prepare_step S boundary frame metrics orc (session_reset (as_prepared (ge_session e))) = Inr (p, oracle', session')"
    and e': "e' = \<lparr>ge_plant = plant, ge_session = session', ge_oracle = oracle',
       ge_active = Some \<lparr>ac_boundary = boundary, ac_frame = frame, ac_metrics = metrics, ac_command = ps_command p,
         ac_plan = ps_plan p, ac_prepared = ps_prepared p\<rparr>, ge_done = False\<rparr>"
    by (rule env_resetE)
  have "composed_at (gs_hash S) (gs_clips S) program segments orc"
    using reset.IH o by (auto simp: env_inv_def intro: composed_at.start reset_reaches)
  note prepare_reaches[OF p this]
  then show ?case
    using runtime_resetE[OF r] prepare_counts[OF p] evaluate_counts[OF m] h
    by (simp add: env_inv_def e' counters_agree_def Let_def cadence_ok_def)
next
  case (step e action_v r info e')
  from step.hyps(2) show ?case
  proof (rule env_stepE)
    fix a action boundary interval plant session native reference bodies measured breakdown p oracle' session'
    assume a: "\<not> ge_done e" "ge_active e = Some a"
      and run: "runtime_step (gs_plant S) (vec F32 (sr_composite r)) (ge_plant e) = Inr (boundary, interval, plant)"
      and commit: "session_commit (ac_prepared a) (vec F32 (sr_composite r)) (ge_session e) = Inr session"
      and m: "evaluate_course_step (gs_hash S) (course_of (gs_math S)) (gs_task S) (ac_frame a)
         (Floating [30] (cb_qpos (ac_boundary a))) (Floating [30] (cb_qpos boundary)) (PTuple (map PStr bodies))
         (Floating [length reference] reference) (PInt (cb_control_step boundary)) = Inr measured"
      and im: "sr_metrics r = interval_metrics (gs_math S) (ci_qpos interval) measured"
      and p: "prepare_step S boundary (ac_frame a) (sr_metrics r) (ge_oracle e) session = Inr (p, oracle', session')"
      and r: "r = \<lparr>sr_boundary = boundary, sr_interval = interval, sr_composite = sr_composite r, sr_native = native, sr_reference = reference,
         sr_metrics = sr_metrics r, sr_reward = breakdown, sr_executed = ac_command a, sr_plan = ac_plan a,
         sr_before = cb_control_step (ac_boundary a), sr_terminated = fst (episode_ends (gs_runtime S) (sr_metrics r)),
         sr_truncated = snd (episode_ends (gs_runtime S) (sr_metrics r)), sr_observation = ps_observation p\<rparr>"
      and e': "e' = \<lparr>ge_plant = plant, ge_session = session', ge_oracle = oracle',
         ge_active = Some \<lparr>ac_boundary = boundary, ac_frame = ac_frame a, ac_metrics = sr_metrics r, ac_command = ps_command p,
           ac_plan = ps_plan p, ac_prepared = ps_prepared p\<rparr>, ge_done = (sr_terminated r \<or> sr_truncated r)\<rparr>"
    have at: "composed_at (gs_hash S) (gs_clips S) program segments (ge_oracle e)" and agree: "counters_agree S e a"
      using step.IH a by (simp_all add: env_inv_def)
    have ends: "sr_terminated r \<or> sr_truncated r \<longleftrightarrow> cm_fallen (sr_metrics r) \<or> cm_horizon_reached (sr_metrics r)"
      by (subst r, subst (2) r) (simp add: episode_ends_def)
    have k: "cadence_ok (ge_plant e)" "rt_control_step (ge_plant e) = cb_control_step (ac_boundary a)"
      using agree by (simp_all add: counters_agree_def Let_def)
    show ?thesis
      using prepare_reaches[OF p at] runtime_stepE[OF run k(1)] session_commitE[OF commit] prepare_counts[OF p] evaluate_counts[OF m] agree ends
      by (auto simp: env_inv_def e' counters_agree_def Let_def k(2) im cadence_ok_def SIMULATION_DECIMATION_def)
  qed
qed

text \<open>
  C35. In every environment that resets and steps lead to, plant, actor session, oracle and measurement agree on
  the control step, at 20 simulation steps each; the step never passes the horizon, an episode is over only when
  the robot has fallen or the horizon is reached, and one that is not over is before the horizon.
\<close>

theorem env_counters_agree:
  assumes "env_at S program segments e" "1 \<le> cs_horizon (gs_task S)" "ge_active e = Some a"
  shows "let k = cb_control_step (ac_boundary a) in 0 \<le> k \<and> k \<le> cs_horizon (gs_task S) \<and>
     rt_control_step (ge_plant e) = k \<and> rt_simulation_step (ge_plant e) = 20 * k \<and>
     as_expected_step (ge_session e) = k \<and> as_pending (ge_session e) = Some (ac_prepared a) \<and>
     cp_last_step (ge_oracle e) = k \<and> cm_control_step (ac_metrics a) = k \<and>
     (ge_done e \<longrightarrow> cm_fallen (ac_metrics a) \<or> k = cs_horizon (gs_task S)) \<and> (\<not> ge_done e \<longrightarrow> k < cs_horizon (gs_task S))"
  using env_at_inv[OF assms(1,2)] assms(3) by (simp add: env_inv_def counters_agree_def Let_def)

section \<open>The bookkeeping never refuses\<close>

text \<open>
  The errors that only disagreeing counters, names, identities or an order of calls raise: among them the call of a
  step without a reset, and the oracle machine's own comparison of its dwell and of the names of its signals.
\<close>

definition order_control :: "control_error \<Rightarrow> bool" where
  "order_control e \<longleftrightarrow> e \<in> {NotReset, PriorPending, CountersDiffer, CommitMismatch, BoundaryCadence, IntervalCadence}"

definition order_reference :: "compose_error \<Rightarrow> bool" where
  "order_reference e \<longleftrightarrow> e \<in> {CommandOrder, ObjectiveOrder, DwellSupplied, Machine DwellMismatch, Machine MachineSignalsDiffer}"

definition order_course :: "course_error \<Rightarrow> bool" where
  "order_course e \<longleftrightarrow> e \<in> {ControlStep, FeatureSpec, MetricsSpec}"

definition order_failure :: "gym_error \<Rightarrow> bool" where
  "order_failure e \<longleftrightarrow> (case e of Control c \<Rightarrow> order_control c | Reference c \<Rightarrow> order_reference c | Course' c \<Rightarrow> order_course c
     | Feedback f \<Rightarrow> f = FeedbackStep | ResetRequired \<Rightarrow> True | NotPrepared \<Rightarrow> True | _ \<Rightarrow> False)"

lemma deploy_array_fails: "deploy_array shape field v = Inl e \<Longrightarrow> \<not> order_control e"
  by (auto simp: deploy_array_def order_control_def split: np_value.splits if_splits)

lemma exact_array_fails: "exact_array d shape field v = Inl e \<Longrightarrow> \<not> order_control e"
  by (auto simp: exact_array_def order_control_def split: np_value.splits if_splits)

lemma nonnegative_integer_fails: "nonnegative_integer field v = Inl e \<Longrightarrow> \<not> order_control e"
  by (auto simp: nonnegative_integer_def order_control_def split: pyval.splits if_splits)

lemmas control_fails = deploy_array_fails exact_array_fails nonnegative_integer_fails

lemma pd_torque_fails: "pd_torque a b c = Inl e \<Longrightarrow> \<not> order_control e"
  by (auto simp: pd_torque_def bindE_eq_Inl Let_def dest: control_fails)

lemma apply_pd_control_fails: "apply_pd_control a b c = Inl e \<Longrightarrow> \<not> order_control e"
  by (auto simp: apply_pd_control_def bindE_eq_Inl Let_def dest: control_fails pd_torque_fails)

lemma contact_pairs_fails: "contact_pairs P data = Inl e \<Longrightarrow> \<not> order_control e"
  by (auto simp: contact_pairs_def order_control_def split: if_splits)

lemma run_substeps_fails: "run_substeps P target n data = Inl e \<Longrightarrow> \<not> order_control e"
  by (induction n arbitrary: data) (auto simp: bindE_eq_Inl Let_def dest: pd_torque_fails contact_pairs_fails)

lemma mapE_fails: "mapE f xs = Inl e \<Longrightarrow> \<exists>x \<in> set xs. f x = Inl e"
  by (induction xs) (auto simp: bindE_eq_Inl)

lemma contact_trace_fails: "contact_trace v = Inl e \<Longrightarrow> \<not> order_control e"
  by (auto simp: contact_trace_def contact_substep_def order_control_def dest!: mapE_fails split: if_splits)

lemma mk_interval_fails:
  "m = n * int SIMULATION_DECIMATION \<Longrightarrow> mk_interval a b c q v t contacts (PInt n) (PInt m) = Inl e \<Longrightarrow> \<not> order_control e"
  by (auto simp: mk_interval_def bindE_eq_Inl nonnegative_integer_def order_control_def[of "NotNonnegative _"]
      dest: control_fails contact_trace_fails split: if_splits)

lemma boundary_now_fails: "cadence_ok rt \<Longrightarrow> boundary_now P rt = Inl e \<Longrightarrow> \<not> order_control e"
  by (auto simp: boundary_now_def mk_boundary_def bindE_eq_Inl cadence_ok_def dest: control_fails split: if_splits)
    (auto simp: nonnegative_integer_def order_control_def split: if_splits)

lemma runtime_step_fails:
  assumes "cadence_ok rt" "runtime_step P v rt = Inl e"
  shows "\<not> order_control e"
proof -
  have c: "cadence_ok (rt\<lparr>rt_data := data, rt_control_step := rt_control_step rt + 1, rt_simulation_step := rt_simulation_step rt + int SIMULATION_DECIMATION\<rparr>)"
    for data using assms(1) by (simp add: cadence_ok_def algebra_simps)
  have r: "rt_ready rt" and sim: "rt_simulation_step rt = rt_control_step rt * int SIMULATION_DECIMATION"
    using assms(1) by (simp_all add: cadence_ok_def)
  from r show ?thesis using assms(2)
    by (auto simp: runtime_step_def bindE_eq_Inl Let_def split_beta
        dest: control_fails apply_pd_control_fails run_substeps_fails mk_interval_fails[OF sim] boundary_now_fails[OF c])
qed

lemma runtime_reset_fails: "runtime_reset P rt = Inl e \<Longrightarrow> \<not> order_control e"
  using boundary_now_fails[of "\<lparr>rt_data = pl_reset P (rt_data rt), rt_control_step = 0, rt_simulation_step = 0, rt_ready = True\<rparr>" P e]
  by (auto simp: runtime_reset_def bindE_eq_Inl Let_def cadence_ok_def)

lemma compose_residual_fails: "compose_residual_raw_action a b s = Inl e \<Longrightarrow> \<not> order_control e"
  by (auto simp: compose_residual_raw_action_def bindE_eq_Inl order_control_def[of ResidualScaleFinite] order_control_def[of ResidualScaleSign]
      order_control_def[of ResidualRange] dest: control_fails split: if_splits)

lemma session_commit_fails: "as_pending s = Some p \<Longrightarrow> session_commit p v s = Inl e \<Longrightarrow> \<not> order_control e"
  by (auto simp: session_commit_def bindE_eq_Inl history_append_def dest: control_fails)

lemma sensor_euler_fails: "sensor_euler M d v = Inl e \<Longrightarrow> \<not> order_control e"
  by (auto simp: sensor_euler_def order_control_def Let_def split: list.splits)

lemma session_prepare_fails:
  assumes "as_pending s = None" "cb_control_step b = as_expected_step s" "session_prepare M actor b w s = Inl e"
  shows "\<not> order_control e"
proof -
  have p: "\<not> order_control e" if "build_proprioception M q v o' a l = Inl e" for q v o' a l
    using that by (auto simp: build_proprioception_def bindE_eq_Inl Let_def order_control_def[of ProprioceptionShape]
        dest: control_fails sensor_euler_fails split: if_splits)
  have a: "\<not> order_control e" if "assemble h w x = Inl e" for h w x
    using that by (auto simp: assemble_def bindE_eq_Inl Let_def order_control_def[of ObservationShape] dest: control_fails split: if_splits)
  have out: "\<not> order_control e" if "(case v of NpArray d shape c output \<Rightarrow>
      if d \<noteq> F32 \<or> shape \<noteq> [1, ACTION_DIM] \<or> \<not> list_all is_finite output then Inl ActorOutput else Inr output
    | NotNpArray \<Rightarrow> Inl ActorOutput) = (Inl e :: control_error + f64 list)" for v
    using that by (auto simp: order_control_def split: np_value.splits if_splits)
  have mk: "\<not> order_control e" if "mk_prepared n q o' v i = Inl e" for n q o' v i
    using that by (auto simp: mk_prepared_def bindE_eq_Inl dest: control_fails)
  have ok: "as_pending s \<noteq> None \<longleftrightarrow> False" "cb_control_step b \<noteq> as_expected_step s \<longleftrightarrow> False" using assms(1,2) by simp_all
  from assms(3) show ?thesis unfolding session_prepare_def ok if_False bindE_eq_Inl
    by (elim disjE exE conjE) (auto dest: control_fails p a out mk)
qed

lemma segment_of_fails: "segment_of c b = Inl e \<Longrightarrow> \<not> order_reference e"
  by (auto simp: segment_of_def order_reference_def split: option.splits)

lemma origin_phase_fails: "origin_phase o' n = Inl e \<Longrightarrow> \<not> order_reference e"
  by (auto simp: origin_phase_def order_reference_def split: option.splits)

lemma entry_loop_phase_fails: "entry_loop_phase T s p = Inl e \<Longrightarrow> \<not> order_reference e"
  by (auto simp: entry_loop_phase_def order_reference_def Let_def split: option.splits)

lemma segment_features_fails: "segment_features T s ps = Inl e \<Longrightarrow> \<not> order_reference e"
  by (auto simp: segment_features_def bindE_eq_Inl Let_def order_reference_def[of "Clip _"]
      dest!: mapE_fails dest: entry_loop_phase_fails split: if_splits)

lemma transfer_phase_fails: "transfer_phase h T c n pose s d = Inl e \<Longrightarrow> \<not> order_reference e"
  by (auto simp: transfer_phase_def nearest_phase_def bindE_eq_Inl Let_def order_reference_def[of PoseInvalid] order_reference_def[of NoCandidates]
      dest: segment_features_fails split: if_splits)

lemma reported_phase_fails: "reported_phase T s p = Inl e \<Longrightarrow> \<not> order_reference e"
  by (auto simp: reported_phase_def dest: entry_loop_phase_fails split: if_splits)

lemma allows_transition_fails: "allows_ordinary_transition s p q = Inl e \<Longrightarrow> \<not> order_reference e"
  by (auto simp: allows_ordinary_transition_def entry_loop_boundary_index_def bindE_eq_Inl order_reference_def
      split: option.splits if_splits f64.splits)

lemma current_after_step_fails: "n = cp_last_step c + 1 \<Longrightarrow> current_after_step T c n = Inl e \<Longrightarrow> \<not> order_reference e"
  by (auto simp: current_after_step_def bindE_eq_Inl composed_phase_def dest: segment_of_fails origin_phase_fails segment_features_fails)

text \<open>Every signal of the machine but its dwell.\<close>

definition all_but_dwell :: "(string \<times> pyval) list \<Rightarrow> bool" where
  "all_but_dwell signals \<longleftrightarrow> dict_get signals ''dwell'' = None \<and>
     (\<forall>name \<in> set ALLOWED_SIGNALS. name \<noteq> ''dwell'' \<longrightarrow> dict_get signals name \<noteq> None)"

lemma decide_fails:
  assumes s: "all_but_dwell signals" and f: "decide m (signals @ [(''dwell'', PInt (mc_dwell m))]) allow = Inl e"
  shows "\<not> order_reference (Machine e)"
proof -
  let ?s = "signals @ [(''dwell'', PInt (mc_dwell m))]"
  have dwell: "dict_get ?s ''dwell'' = Some (PInt (mc_dwell m))" using s by (simp add: all_but_dwell_def dict_get_def map_add_def)
  have "dict_get ?s name \<noteq> None" if "name \<in> set ALLOWED_SIGNALS" for name
    using s that by (cases "name = ''dwell''") (auto simp: all_but_dwell_def dict_get_def map_add_def split: option.splits)
  then have all: "filter (\<lambda>name. dict_get ?s name \<noteq> None) (sort ALLOWED_SIGNALS) = sort ALLOWED_SIGNALS" by (simp add: filter_id_conv)
  have names: "keys_are ALLOWED_SIGNALS checked" if "mapE (\<lambda>name. bindE (finite_value (SignalInvalid name) (SignalInvalid name)
              (case dict_get ?s name of Some v \<Rightarrow> v | None \<Rightarrow> PNone)) (\<lambda>f. Inr (name, PFloat f))) (sort ALLOWED_SIGNALS) = Inr checked" for checked
  proof -
    have "map fst checked = sort ALLOWED_SIGNALS"
      using that unfolding mapE_Inr_iff by (induction rule: list_all2_induct) (auto split: option.splits)
    then show ?thesis by (metis dict_keys_def keys_are_def set_sort)
  qed
  have signals: "\<not> order_reference (Machine e')" if "machine_signals (mc_dwell m) ?s = Inl e'" for e'
    using that names unfolding machine_signals_def dwell all
    by (auto simp: bindE_eq_Inl order_reference_def finite_value_def dest!: mapE_fails split: option.splits if_splits pyval.splits num_read.splits)
  have guard: "\<not> order_reference (Machine e')" if "guard_holds g c = Inl e'" for g c e'
    using that by (auto simp: guard_holds_def order_reference_def split: sum.splits)
  have state: "\<not> order_reference (Machine e')" if "state_behavior p n = Inl e'" for p n e'
    using that by (auto simp: state_behavior_def order_reference_def split: option.splits)
  have enabled: "\<not> order_reference (Machine e')" if "first_enabled c ts = Inl e'" for c ts e'
    using that by (induction ts) (auto simp: bindE_eq_Inl dest: guard split: if_splits)
  have ordinary: "\<not> order_reference (Machine e')" if "ordinary m c allow = Inl e'" for c e'
    using that by (auto simp: ordinary_def Let_def bindE_eq_Inl order_reference_def[of "Machine (MachineKeyError _)"]
        dest: enabled state split: option.splits if_splits)
  have recovery: "\<not> order_reference (Machine e')" if "rejoin r m = Inl e'" for r e'
    using that by (auto simp: rejoin_def bindE_eq_Inl dest: state)
  from f show ?thesis unfolding decide_def bindE_eq_Inl
    by (elim disjE exE conjE)
      (auto simp: bindE_eq_Inl order_reference_def[of "Machine RecoveryTooLong"] dest: signals guard ordinary recovery split: option.splits if_splits)
qed

lemma composed_command_fails:
  assumes "n = cp_last_step c + 1" "all_but_dwell signals" "composed_command h T c (PInt n) signals pose = Inl e"
  shows "\<not> order_reference e"
  using assms
  by (auto simp: composed_command_def bindE_eq_Inl split_beta composed_phase_def all_but_dwell_def[of signals]
      dest: decide_fails[OF assms(2)] segment_of_fails origin_phase_fails allows_transition_fails transfer_phase_fails segment_features_fails reported_phase_fails)

lemma domainE_fails: "domainE f x = Inl e \<Longrightarrow> \<not> order_course e"
  by (auto simp: domainE_def order_course_def split: if_splits)

lemma course_array_fails: "course_array CourseArray shape field v = Inl e \<Longrightarrow> \<not> order_course e"
  "course_array DeploymentArray shape field v = Inl e \<Longrightarrow> \<not> order_course e"
  by (auto simp: course_array_def order_course_def split: float_array.splits if_splits)

lemma orientation_euler_fails: "orientation_euler M v = Inl e \<Longrightarrow> \<not> order_course e"
  by (auto simp: orientation_euler_def quaternion_to_euler_wxyz_def bindE_eq_Inl Let_def order_course_def[of NotUnitQuaternion]
      order_course_def[of SensorShape] dest: course_array_fails split: if_splits list.splits)

lemma frame_project_fails: "frame_project M frame a b = Inl e \<Longrightarrow> \<not> order_course e"
  by (auto simp: frame_project_def bindE_eq_Inl Let_def dest: course_array_fails orientation_euler_fails domainE_fails)

lemma frame_initialize_fails: "frame_initialize M a b = Inl e \<Longrightarrow> \<not> order_course e"
  by (auto simp: frame_initialize_def bindE_eq_Inl dest: course_array_fails orientation_euler_fails)

lemma contact_names_fails: "contact_names v = Inl e \<Longrightarrow> \<not> order_course e"
  by (auto simp: contact_names_def order_course_def dest!: mapE_fails split: option.splits pyval.splits if_splits)

lemma tracking_errors_fails: "reference_tracking_errors M a b c d = Inl e \<Longrightarrow> \<not> order_course e"
  by (auto simp: reference_tracking_errors_def bindE_eq_Inl dest: course_array_fails)

lemma evaluate_fails:
  assumes "0 \<le> k" "k \<le> cs_horizon s" "evaluate_course_step h M s frame a b c d (PInt k) = Inl e"
  shows "\<not> order_course e"
  using assms
  by (auto simp: evaluate_course_step_def bindE_eq_Inl Let_def split_beta boundary_step_def
      dest: course_array_fails contact_names_fails frame_project_fails orientation_euler_fails domainE_fails tracking_errors_fails)

lemma components_fails: "components M xs ks = Inl e \<Longrightarrow> e = PowOverflow"
  by (auto simp: components_def component_reward_def squareE_def bindE_eq_Inl dest!: mapE_fails split: option.splits)

lemma course_reward_fails:
  assumes "cm_spec_sha256 m = course_spec_sha256 h s" "course_reward h M s r m = Inl e"
  shows "\<not> order_course e"
proof -
  have "e' = PowOverflow \<or> e' = RootHeightValue" if "depth_factor M s r m = Inl e'" for e'
    using that by (auto simp: depth_factor_def squareE_def bindE_eq_Inl Let_def split: option.splits if_splits)
  then have t: "e' = PowOverflow \<or> e' = RootHeightValue" if "task_components M s r m = Inl e'" for e'
    using that by (auto simp: task_components_def bindE_eq_Inl Let_def dest!: components_fails split: if_splits)
  show ?thesis using assms
    by (auto simp: course_reward_def bindE_eq_Inl Let_def order_course_def split_beta dest!: components_fails t split: if_splits)
qed

lemma reference_values_fails: "reference_values shape field v = Inl e \<Longrightarrow> e \<noteq> FeedbackStep"
  by (auto simp: reference_values_def float_values_def bindE_eq_Inl split: np_value.splits if_splits)

lemma trace_fails: "after_heading_feedback_trace h M n p a b = Inl e \<Longrightarrow> e \<noteq> FeedbackStep"
  by (auto simp: after_heading_feedback_trace_def bindE_eq_Inl Let_def dest: reference_values_fails)

lemma held_target_fails: "issue_held_poststep_target p v = Inl e \<Longrightarrow> e \<noteq> FeedbackStep"
  by (auto simp: issue_held_poststep_target_def bindE_eq_Inl dest: reference_values_fails)

definition order_feedback :: "feedback_error \<Rightarrow> bool" where
  "order_feedback f \<longleftrightarrow> order_failure (Feedback f)"

lemma plan_fails: "plan_after_heading_feedback M a b c = Inl e \<Longrightarrow> e \<noteq> FeedbackStep"
  by (auto simp: plan_after_heading_feedback_def feedback_value_def wrap_angle_def bindE_eq_Inl Let_def
      dest: reference_values_fails split: pyval.splits if_splits)

lemma boundary_inputs_fails:
  assumes "0 \<le> k" "oracle_boundary_inputs M task frame a b (PInt k) = Inl e"
  shows "e \<noteq> FeedbackStep"
  using assms by (auto simp: oracle_boundary_inputs_def float_values_def bindE_eq_Inl Let_def split_beta
      split: np_value.splits if_splits option.splits)

lemma boundary_inputs_signals:
  "oracle_boundary_inputs M task frame a b v = Inr inputs \<Longrightarrow> all_but_dwell (bi_signals inputs)"
  by (auto simp: oracle_boundary_inputs_def Let_def split_beta dict_get_def all_but_dwell_def ALLOWED_SIGNALS_def)

lemma observation_fails:
  assumes "cm_spec_sha256 m = course_spec_sha256 (gs_hash S) (gs_task S)" "observation S c m cmd p = Inl e"
  shows "\<not> order_failure e"
  using assms by (auto simp: observation_def bindE_eq_Inl Let_def order_failure_def task_features_def dest: domainE_fails split: if_splits)

lemma prepare_step_fails:
  assumes k: "0 \<le> cb_control_step b" "cb_control_step b = cp_last_step c + 1"
    and s: "as_pending session = None" "cb_control_step b = as_expected_step session"
    and m: "cm_spec_sha256 m = course_spec_sha256 (gs_hash S) (gs_task S)"
    and f: "prepare_step S b frame m c session = Inl e"
  shows "\<not> order_failure e"
proof -
  have planned: "\<not> order_failure e" if "(if cr_heading_feedback (gs_runtime S) \<and> rc_state native = ''after''
         then bindE (liftE Feedback (plan_after_heading_feedback (gs_math S) (window_array (rc_window native)) v w)) (\<lambda>plan.
           Inr (Some plan, native\<lparr>rc_window := hp_issued plan\<rparr>))
         else Inr (None, native)) = Inl e" for native v w
    using that plan_fails by (auto simp: bindE_eq_Inl order_failure_def split: if_splits)
  from f show ?thesis
    unfolding prepare_step_def bindE_eq_Inl split_beta
    by (elim disjE exE conjE)
      (auto simp: order_failure_def[of "Feedback _"] order_failure_def[of "Reference _"] order_failure_def[of "Control _"]
        dest: boundary_inputs_fails[OF k(1)] composed_command_fails[OF k(2) boundary_inputs_signals] planned session_prepare_fails[OF s]
          observation_fails[OF m])
qed

lemma ground_bodies_fails: "ground_bodies names contacts = Inl e \<Longrightarrow> \<not> order_failure e"
  by (auto simp: ground_bodies_def body_name_def bindE_eq_Inl order_failure_def split_beta dest!: mapE_fails split: if_splits)

lemma step_info_fails: "step_info S r = Inl e \<Longrightarrow> \<not> order_failure e"
  by (auto simp: step_info_def bindE_eq_Inl order_failure_def dest: trace_fails split: option.splits)

lemma composed_reset_fails: "composed_reset p ss = Inl e \<Longrightarrow> \<not> order_reference e"
  by (auto simp: composed_reset_def bindE_eq_Inl order_reference_def mk_machine_def split: option.splits)

lemma composed_reset_step: "composed_reset p ss = Inr c \<Longrightarrow> cp_last_step c = - 1"
  by (auto simp: composed_reset_def)

lemma first_reference_fails: "first_reference S c = Inl e \<Longrightarrow> \<not> order_failure e"
  by (auto simp: first_reference_def bindE_eq_Inl order_failure_def dest: segment_of_fails segment_features_fails)

lemma env_reset_fails:
  assumes h: "1 \<le> cs_horizon (gs_task S)" and f: "env_reset S has_options e = Inl err"
  shows "\<not> order_failure err"
proof (cases "has_options")
  case False
  have horizon: "0 \<le> cs_horizon (gs_task S)" using h by simp
  have prep: "\<not> order_failure err"
    if "runtime_reset (gs_plant S) (ge_plant e) = Inr (b, plant)" "composed_reset p ss = Inr orc"
      "evaluate_course_step (gs_hash S) (course_of (gs_math S)) (gs_task S) frame q v contacts current (PInt 0) = Inr metrics"
      "prepare_step S b frame metrics orc (session_reset n) = Inl err" for b plant p ss orc frame q v contacts current metrics n
    by (rule prepare_step_fails[OF _ _ _ _ _ that(4)])
      (use runtime_resetE[OF that(1)] composed_reset_step[OF that(2)] evaluate_counts[OF that(3)] in \<open>simp_all add: session_reset_def\<close>)
  from f show ?thesis
    unfolding env_reset_def Let_def if_not_P[OF False] bindE_eq_Inl split_beta
    by (elim disjE exE conjE)
      (auto simp: order_failure_def[of "Control _"] order_failure_def[of "Reference _"] order_failure_def[of "Course' _"] bindE_eq_Inl
        dest: runtime_reset_fails composed_reset_fails frame_initialize_fails first_reference_fails evaluate_fails[OF order.refl horizon] prep)
qed (use f in \<open>simp add: env_reset_def order_failure_def\<close>)

lemma env_step_fails:
  assumes inv: "env_inv S program segments e" and live: "\<not> ge_done e" and f: "env_step S action_v e = Inl err"
  shows "\<not> order_failure err"
proof -
  from live obtain a where a: "ge_active e = Some a" "counters_agree S e a" using inv by (auto simp: env_inv_def split: option.splits)
  let ?k = "cb_control_step (ac_boundary a)"
  have c: "0 \<le> ?k" "?k < cs_horizon (gs_task S)" "cadence_ok (ge_plant e)" "rt_control_step (ge_plant e) = ?k"
    "as_expected_step (ge_session e) = ?k" "as_pending (ge_session e) = Some (ac_prepared a)" "cp_last_step (ge_oracle e) = ?k"
    using a(2) live by (simp_all add: counters_agree_def Let_def)
  have act: "\<not> order_failure err" if "residual_action S action_v = Inl err"
    using that by (auto simp: residual_action_def order_failure_def split: np_value.splits if_splits)
  have held: "\<not> order_failure err" if "poststep_reference plan native = Inl err" for plan native
    using that held_target_fails by (auto simp: poststep_reference_def order_failure_def split: option.splits)
  have prep: "\<not> order_failure err"
    if "runtime_step (gs_plant S) v (ge_plant e) = Inr (b, i, plant)" "session_commit (ac_prepared a) v' (ge_session e) = Inr session"
      "evaluate_course_step (gs_hash S) (course_of (gs_math S)) (gs_task S) frame q q' contacts current (PInt k) = Inr m"
      "prepare_step S b frame (interval_metrics (gs_math S) w m) (ge_oracle e) session = Inl err"
    for v b i plant v' session frame q q' contacts current k m w
    by (rule prepare_step_fails[OF _ _ _ _ _ that(4)])
      (use runtime_stepE[OF that(1) c(3)] session_commitE[OF that(2)] evaluate_counts[OF that(3)] c in simp_all)
  have next_k: "cb_control_step b = ?k + 1" if "runtime_step (gs_plant S) v (ge_plant e) = Inr (b, i, plant)" for v b i plant
    using runtime_stepE[OF that c(3)] c(4) by simp
  have objective: "\<not> order_reference err'" if "runtime_step (gs_plant S) v (ge_plant e) = Inr (b, i, plant)"
      "current_after_step (gs_clips S) (ge_oracle e) (cb_control_step b) = Inl err'" for v b i plant err'
    using current_after_step_fails[OF _ that(2)] next_k[OF that(1)] c(7) by simp
  have measure: "\<not> order_course err'" if "runtime_step (gs_plant S) v (ge_plant e) = Inr (b, i, plant)"
      "evaluate_course_step h M (gs_task S) frame q q' contacts current (PInt (cb_control_step b)) = Inl err'" for v b i plant h M frame q q' contacts current err'
    using evaluate_fails[OF _ _ that(2)] next_k[OF that(1)] c(1,2) by simp
  have pay: "\<not> order_course err'" if "evaluate_course_step (gs_hash S) M (gs_task S) frame q q' contacts current v = Inr m"
      "course_reward (gs_hash S) M' (gs_task S) r (interval_metrics M'' w m) = Inl err'" for M frame q q' contacts current v m M' r M'' w err'
    using course_reward_fails[OF _ that(2)] evaluate_counts[OF that(1)] by simp
  from f show ?thesis
    unfolding env_step_def Let_def a(1) option.case if_not_P[OF live] bindE_eq_Inl split_beta
    by (elim disjE exE conjE)
      (auto simp: order_failure_def[of "Control _"] order_failure_def[of "Reference _"] order_failure_def[of "Course' _"]
        dest: act compose_residual_fails runtime_step_fails[OF c(3)] session_commit_fails[OF c(6)] objective held ground_bodies_fails
          measure pay prep step_info_fails)
qed

text \<open>
  C36. In an environment that resets and steps lead to, a step is refused for want of a reset exactly when the
  episode is over, and no other check that compares counters, names, identities or the order of calls refuses a
  reset or a step: a prepared action is committed to its own preparation, the oracle is asked for consecutive steps
  with its own dwell and every other signal, the objective for the next step, and the measurement stays within the
  horizon, whatever the action, the simulator and the network return.
\<close>

theorem env_order_never_fails:
  assumes at: "env_at S program segments e" and h: "1 \<le> cs_horizon (gs_task S)"
  shows "(\<forall>has_options err. env_reset S has_options e = Inl err \<longrightarrow> \<not> order_failure err) \<and>
     (\<forall>action_v. env_step S action_v e = Inl ResetRequired \<longleftrightarrow> ge_done e) \<and>
     (\<forall>action_v err. env_step S action_v e = Inl err \<longrightarrow> order_failure err \<longrightarrow> err = ResetRequired)"
proof -
  note fails = env_step_fails[OF env_at_inv[OF at h]]
  have over: "env_step S action_v e = Inl ResetRequired" if "ge_done e" for action_v using that by (simp add: env_step_def)
  have live: "ge_done e" if "env_step S action_v e = Inl err" "order_failure err" for action_v err using fails[OF _ that(1)] that(2) by blast
  moreover have "order_failure ResetRequired" by (simp add: order_failure_def)
  ultimately have "env_step S action_v e = Inl ResetRequired \<longleftrightarrow> ge_done e" for action_v using over by blast
  moreover have "err = ResetRequired" if "env_step S action_v e = Inl err" "order_failure err" for action_v err
    using over[OF live[OF that], of action_v] that(1) by simp
  ultimately show ?thesis using env_reset_fails[OF h] by blast
qed

section \<open>Falls end the episode\<close>

text \<open>A fall within the interval is a fall of the step.\<close>

lemma substep_fall:
  assumes "substep_reasons M q \<noteq> []"
  shows "cm_fallen (interval_metrics M q m) \<and> \<not> cm_posture_success (interval_metrics M q m)"
  using assms by (simp add: interval_metrics_def Let_def)

lemma standing_interval: "substep_reasons M q = [] \<Longrightarrow> cm_fallen m = (cm_failure_reasons m \<noteq> []) \<Longrightarrow> cm_fallen (interval_metrics M q m) = cm_fallen m"
  by (simp add: interval_metrics_def Let_def)

text \<open>
  C37. A fall in any of the 20 substeps of an interval, even one that is over at the next boundary, ends the
  episode: the step is terminated (and not truncated, where the horizon terminates too), it reports a reason, it has
  no posture success, its reward is minus the failure weight, and no action is accepted afterwards.
\<close>

theorem substep_fall_ends_episode:
  assumes step: "env_step S action_v e = Inr (r, info, e')"
    and recipe: "reward_recipe_ok (gs_recipe S)" "f64_ok (rp_failure (gs_recipe S))"
    and fall: "row \<in> set (ci_qpos (sr_interval r))" "f64_lt (row ! 2) ROOT_HEIGHT_FAILURE_M \<or>
       f64_lt (f64_sub (Fin 1) (f64_mul (Fin 2) (f64_add (np_square (gs_math S) (row ! 4)) (np_square (gs_math S) (row ! 5))))) TORSO_UP_FAILURE_MIN"
  shows "sr_terminated r \<and> (cr_horizon_terminates (gs_runtime S) \<longrightarrow> \<not> sr_truncated r) \<and> ge_done e' \<and>
     \<not> cm_posture_success (sr_metrics r) \<and> cm_failure_reasons (sr_metrics r) \<noteq> [] \<and>
     rb_total (sr_reward r) = f64_neg (rp_failure (gs_recipe S)) \<and> env_step S action_v' e' = Inl ResetRequired"
  using step
proof (rule env_stepE)
  fix a action boundary interval plant session native reference bodies measured breakdown p oracle' session'
  assume m: "sr_metrics r = interval_metrics (gs_math S) (ci_qpos interval) measured"
    and pay: "course_reward (gs_hash S) (course_of (gs_math S)) (gs_task S) (gs_recipe S) (sr_metrics r) = Inr breakdown"
    and r: "r = \<lparr>sr_boundary = boundary, sr_interval = interval, sr_composite = sr_composite r, sr_native = native, sr_reference = reference,
       sr_metrics = sr_metrics r, sr_reward = breakdown, sr_executed = ac_command a, sr_plan = ac_plan a,
       sr_before = cb_control_step (ac_boundary a), sr_terminated = fst (episode_ends (gs_runtime S) (sr_metrics r)),
       sr_truncated = snd (episode_ends (gs_runtime S) (sr_metrics r)), sr_observation = ps_observation p\<rparr>"
    and e': "e' = \<lparr>ge_plant = plant, ge_session = session', ge_oracle = oracle',
       ge_active = Some \<lparr>ac_boundary = boundary, ac_frame = ac_frame a, ac_metrics = sr_metrics r, ac_command = ps_command p,
         ac_plan = ps_plan p, ac_prepared = ps_prepared p\<rparr>, ge_done = (sr_terminated r \<or> sr_truncated r)\<rparr>"
  have sel: "sr_interval r = interval" "sr_reward r = breakdown" "sr_terminated r = fst (episode_ends (gs_runtime S) (sr_metrics r))"
    "sr_truncated r = snd (episode_ends (gs_runtime S) (sr_metrics r))"
    by (subst r, simp)+
  have reasons: "substep_reasons (gs_math S) (ci_qpos interval) \<noteq> []"
    using fall by (auto simp: substep_reasons_def sel list_ex_iff)
  note f = substep_fall[OF this, of measured, folded m]
  have total: "rb_total breakdown = f64_neg (rp_failure (gs_recipe S))" using fallen_reward[OF pay _ recipe] f by simp
  have "cm_failure_reasons (sr_metrics r) \<noteq> []"
    using reasons by (simp add: m interval_metrics_def Let_def) (metis append_is_Nil_conv set_empty set_sort set_uniq)
  moreover have "sr_terminated r" using f by (simp add: sel episode_ends_def)
  moreover have "ge_done e'" unfolding e' using \<open>sr_terminated r\<close> by simp
  moreover have "env_step S action_v' e' = Inl ResetRequired" using \<open>ge_done e'\<close> by (simp add: env_step_def)
  moreover have "cr_horizon_terminates (gs_runtime S) \<longrightarrow> \<not> sr_truncated r" by (simp add: sel episode_ends_def)
  ultimately show ?thesis using f total by (simp add: sel(2))
qed

section \<open>Episodes\<close>

fun env_run :: "'p gym_setup \<Rightarrow> np_value list \<Rightarrow> 'p gym_env \<Rightarrow> gym_error + ((step_result \<times> (string \<times> pyval) list) list \<times> 'p gym_env)" where
  "env_run S [] e = Inr ([], e)"
| "env_run S (a # actions) e = bindE (env_step S a e) (\<lambda>(r, info, e'). bindE (env_run S actions e') (\<lambda>(rs, e''). Inr ((r, info) # rs, e'')))"

lemma env_run_at:
  assumes "env_run S actions e = Inr (rs, e')" "env_at S program segments e"
  shows "env_at S program segments e' \<and> length rs = length actions"
  using assms by (induction actions arbitrary: e rs) (auto simp: split_beta dest: env_at.step)

text \<open>What a step leaves behind.\<close>

lemma env_step_leaves:
  assumes "env_step S action_v e = Inr (r, info, e')"
  shows "\<not> ge_done e \<and> (\<exists>a a'. ge_active e = Some a \<and> ge_active e' = Some a' \<and> ac_metrics a' = sr_metrics r \<and> ac_boundary a' = sr_boundary r \<and>
     sr_executed r = ac_command a \<and> sr_before r = cb_control_step (ac_boundary a)) \<and> (ge_done e' \<longleftrightarrow> sr_terminated r \<or> sr_truncated r)"
  using assms
proof (rule env_stepE)
  fix a action boundary interval plant session native reference bodies measured breakdown p oracle' session'
  assume a: "\<not> ge_done e" "ge_active e = Some a"
    and r: "r = \<lparr>sr_boundary = boundary, sr_interval = interval, sr_composite = sr_composite r, sr_native = native, sr_reference = reference,
       sr_metrics = sr_metrics r, sr_reward = breakdown, sr_executed = ac_command a, sr_plan = ac_plan a,
       sr_before = cb_control_step (ac_boundary a), sr_terminated = fst (episode_ends (gs_runtime S) (sr_metrics r)),
       sr_truncated = snd (episode_ends (gs_runtime S) (sr_metrics r)), sr_observation = ps_observation p\<rparr>"
    and e': "e' = \<lparr>ge_plant = plant, ge_session = session', ge_oracle = oracle',
       ge_active = Some \<lparr>ac_boundary = boundary, ac_frame = ac_frame a, ac_metrics = sr_metrics r, ac_command = ps_command p,
         ac_plan = ps_plan p, ac_prepared = ps_prepared p\<rparr>, ge_done = (sr_terminated r \<or> sr_truncated r)\<rparr>"
  have sel: "sr_boundary r = boundary" "sr_executed r = ac_command a" "sr_before r = cb_control_step (ac_boundary a)"
    by (subst r, simp)+
  show ?thesis using a by (simp add: e' sel)
qed

lemma env_step_counts:
  assumes step: "env_step S action_v e = Inr (r, info, e')" and at: "env_at S program segments e" and h: "1 \<le> cs_horizon (gs_task S)"
    and a: "ge_active e = Some a"
  shows "cm_control_step (sr_metrics r) = cb_control_step (ac_boundary a) + 1 \<and> cm_control_step (sr_metrics r) \<le> cs_horizon (gs_task S) \<and>
     (sr_terminated r \<or> sr_truncated r \<longleftrightarrow> cm_fallen (sr_metrics r) \<or> cm_control_step (sr_metrics r) = cs_horizon (gs_task S))"
  using step
proof (rule env_stepE)
  fix a' action boundary interval plant session native reference bodies measured breakdown p oracle' session'
  assume a': "\<not> ge_done e" "ge_active e = Some a'"
    and run: "runtime_step (gs_plant S) (vec F32 (sr_composite r)) (ge_plant e) = Inr (boundary, interval, plant)"
    and m: "evaluate_course_step (gs_hash S) (course_of (gs_math S)) (gs_task S) (ac_frame a')
       (Floating [30] (cb_qpos (ac_boundary a'))) (Floating [30] (cb_qpos boundary)) (PTuple (map PStr bodies))
       (Floating [length reference] reference) (PInt (cb_control_step boundary)) = Inr measured"
    and im: "sr_metrics r = interval_metrics (gs_math S) (ci_qpos interval) measured"
    and r: "r = \<lparr>sr_boundary = boundary, sr_interval = interval, sr_composite = sr_composite r, sr_native = native, sr_reference = reference,
       sr_metrics = sr_metrics r, sr_reward = breakdown, sr_executed = ac_command a', sr_plan = ac_plan a',
       sr_before = cb_control_step (ac_boundary a'), sr_terminated = fst (episode_ends (gs_runtime S) (sr_metrics r)),
       sr_truncated = snd (episode_ends (gs_runtime S) (sr_metrics r)), sr_observation = ps_observation p\<rparr>"
  have sel: "sr_terminated r = fst (episode_ends (gs_runtime S) (sr_metrics r))" "sr_truncated r = snd (episode_ends (gs_runtime S) (sr_metrics r))"
    by (subst r, simp)+
  have c: "cadence_ok (ge_plant e)" "rt_control_step (ge_plant e) = cb_control_step (ac_boundary a)"
    using env_at_inv[OF at h] a by (simp_all add: env_inv_def counters_agree_def Let_def)
  show ?thesis using runtime_stepE[OF run c(1)] evaluate_counts[OF m] c(2) by (auto simp: sel episode_ends_def im)
qed

lemma reset_active:
  assumes "env_reset S has_options e = Inr (obs, info, e')"
  obtains a where "ge_active e' = Some a" "cb_control_step (ac_boundary a) = 0" "\<not> ge_done e'"
  using assms by (rule env_resetE) (use runtime_resetE in \<open>fastforce intro: that\<close>)

definition ends_episode :: "'p gym_setup \<Rightarrow> step_result \<Rightarrow> bool" where
  "ends_episode S r \<longleftrightarrow> cm_fallen (sr_metrics r) \<or> cm_control_step (sr_metrics r) = cs_horizon (gs_task S)"

lemma run_counts:
  assumes "env_run S actions e = Inr (rs, e')" "env_at S program segments e" "1 \<le> cs_horizon (gs_task S)" "ge_active e = Some a"
  shows "map (cm_control_step \<circ> sr_metrics \<circ> fst) rs = map (\<lambda>k. cb_control_step (ac_boundary a) + 1 + int k) [0..<length actions] \<and>
     (\<forall>x \<in> set (butlast rs). \<not> ends_episode S (fst x)) \<and> (rs \<noteq> [] \<longrightarrow> (ge_done e' \<longleftrightarrow> ends_episode S (fst (last rs)))) \<and>
     (\<forall>x \<in> set rs. cm_control_step (sr_metrics (fst x)) \<le> cs_horizon (gs_task S))"
  using assms
proof (induction actions arbitrary: e rs a)
  case (Cons action_v actions)
  from Cons.prems(1) obtain r info e1 rs1 where step: "env_step S action_v e = Inr (r, info, e1)" and run: "env_run S actions e1 = Inr (rs1, e')"
    and rs: "rs = (r, info) # rs1" by (auto simp: split_beta)
  note c = env_step_counts[OF step Cons.prems(2-4)] and l = env_step_leaves[OF step]
  obtain a1 where a1: "ge_active e1 = Some a1" "ac_metrics a1 = sr_metrics r" using l by blast
  have at: "env_at S program segments e1" using Cons.prems(2) step by (rule env_at.step)
  have k: "cb_control_step (ac_boundary a1) = cm_control_step (sr_metrics r)"
    using env_at_inv[OF at Cons.prems(3)] a1 by (simp add: env_inv_def counters_agree_def Let_def)
  note ih = Cons.IH[OF run at Cons.prems(3) a1(1)]
  have live: "rs1 \<noteq> [] \<longrightarrow> \<not> ge_done e1" using run by (cases actions) (auto simp: env_step_def bindE_eq_Inr split_beta split: if_splits)
  have u: "[0..<length (action_v # actions)] = 0 # map Suc [0..<length actions]" by (simp only: length_Cons upt_conv_Cons map_Suc_upt zero_less_Suc)
  have nil: "rs1 = [] \<Longrightarrow> e' = e1" using run by (cases actions) (auto simp: bindE_eq_Inr split_beta)
  show ?case
    unfolding u using ih c l live nil by (cases rs1) (auto simp: rs k o_def ends_episode_def simp del: upt_Suc)
qed simp

text \<open>
  C38. An episode is a run of at most as many steps as its horizon: the steps carry the control steps 1, 2, ...,
  only the last one may end the episode, it does exactly when the robot fell or the horizon was reached, and
  after the horizon no action is accepted.
\<close>

theorem episode_within_horizon:
  assumes at: "env_at S program segments e" and h: "1 \<le> cs_horizon (gs_task S)"
    and reset: "env_reset S has_options e = Inr (obs, info, e0)" and run: "env_run S actions e0 = Inr (rs, e')"
  shows "int (length actions) \<le> cs_horizon (gs_task S) \<and>
     map (cm_control_step \<circ> sr_metrics \<circ> fst) rs = map (\<lambda>k. 1 + int k) [0..<length actions] \<and>
     (\<forall>x \<in> set (butlast rs). \<not> ends_episode S (fst x)) \<and> (ge_done e' \<longleftrightarrow> rs \<noteq> [] \<and> ends_episode S (fst (last rs))) \<and>
     (int (length actions) = cs_horizon (gs_task S) \<longrightarrow> env_step S action_v e' = Inl ResetRequired)"
proof -
  have at0: "env_at S program segments e0" using at reset by (rule env_at.reset)
  obtain a where a: "ge_active e0 = Some a" "cb_control_step (ac_boundary a) = 0" "\<not> ge_done e0" by (rule reset_active[OF reset])
  note c = run_counts[OF run at0 h a(1), unfolded a(2)]
  have len: "length rs = length actions" using env_run_at[OF run at0] by simp
  have empty: "rs = [] \<Longrightarrow> e' = e0" using run len by (cases actions) auto
  have last: "cm_control_step (sr_metrics (fst (last rs))) = int (length actions) \<and> last rs \<in> set rs" if "rs \<noteq> []"
  proof -
    have "last (map (cm_control_step \<circ> sr_metrics \<circ> fst) rs) = last (map (\<lambda>k. 0 + 1 + int k) [0..<length actions])"
      using c by (simp only:)
    then show ?thesis using that len by (cases actions) (simp_all add: last_map)
  qed
  have "int (length actions) \<le> cs_horizon (gs_task S)"
  proof (cases "rs = []")
    case False
    with last c have "cm_control_step (sr_metrics (fst (last rs))) \<le> cs_horizon (gs_task S)" by blast
    then show ?thesis using last False by simp
  qed (use h len in simp)
  moreover have "ge_done e' \<longleftrightarrow> rs \<noteq> [] \<and> ends_episode S (fst (last rs))" using c a(3) empty by (cases "rs = []") auto
  moreover have "env_step S action_v e' = Inl ResetRequired" if "int (length actions) = cs_horizon (gs_task S)"
  proof -
    have "rs \<noteq> []" using that h len by auto
    then have "ge_done e'" using c last that by (simp add: ends_episode_def)
    then show ?thesis by (simp add: env_step_def)
  qed
  ultimately show ?thesis using c by simp
qed

section \<open>An episode runs the oracle machine\<close>

lemma prepare_command:
  assumes "prepare_step S boundary frame metrics oracle session = Inr (p, oracle', session')"
  shows "\<exists>i native. composed_command (gs_hash S) (gs_clips S) oracle (PInt (cp_last_step oracle + 1)) (fst i) (snd i) = Inr (native, oracle') \<and>
     rc_state (ps_command p) = rc_state native \<and> rc_behavior (ps_command p) = rc_behavior native \<and>
     rc_transition (ps_command p) = rc_transition native \<and> rc_phase_seconds (ps_command p) = rc_phase_seconds native"
  using assms
proof (rule prepare_stepE)
  fix inputs native
  assume c: "composed_command (gs_hash S) (gs_clips S) oracle (PInt (cb_control_step boundary)) (bi_signals inputs) (bi_pose inputs) = Inr (native, oracle')"
    and p: "ps_command p = issued_command (ps_plan p) native"
  have "composed_command (gs_hash S) (gs_clips S) oracle (PInt (cp_last_step oracle + 1)) (fst (bi_signals inputs, bi_pose inputs)) (snd (bi_signals inputs, bi_pose inputs)) =
      Inr (native, oracle')" using c commandE[OF c] by simp
  then show ?thesis by (intro exI conjI) (assumption, simp_all add: p issued_command_def split: option.splits)
qed

text \<open>What the record of a step shows of its command.\<close>

definition command_view :: "reference_command \<Rightarrow> string \<times> string \<times> phase_transition option \<times> f64" where
  "command_view c = (rc_state c, rc_behavior c, rc_transition c, rc_phase_seconds c)"

lemma env_step_command:
  assumes "env_step S action_v e = Inr (r, info, e')"
  shows "\<exists>i native a'. composed_command (gs_hash S) (gs_clips S) (ge_oracle e) (PInt (cp_last_step (ge_oracle e) + 1)) (fst i) (snd i) =
      Inr (native, ge_oracle e') \<and> ge_active e' = Some a' \<and> command_view (ac_command a') = command_view native"
  using assms
proof (rule env_stepE)
  fix a action boundary interval plant session native reference bodies measured breakdown p oracle' session'
  assume p: "prepare_step S boundary (ac_frame a) (sr_metrics r) (ge_oracle e) session = Inr (p, oracle', session')"
    and e': "e' = \<lparr>ge_plant = plant, ge_session = session', ge_oracle = oracle',
       ge_active = Some \<lparr>ac_boundary = boundary, ac_frame = ac_frame a, ac_metrics = sr_metrics r, ac_command = ps_command p,
         ac_plan = ps_plan p, ac_prepared = ps_prepared p\<rparr>, ge_done = (sr_terminated r \<or> sr_truncated r)\<rparr>"
  from prepare_command[OF p] show ?thesis by (fastforce simp: e' command_view_def)
qed

lemma run_commands:
  assumes "env_run S actions e = Inr (rs, e')" "ge_active e = Some a"
  shows "\<exists>inputs natives a'. command_run (gs_hash S) (gs_clips S) (ge_oracle e) inputs = Inr (natives, ge_oracle e') \<and>
     length inputs = length actions \<and> ge_active e' = Some a' \<and>
     map command_view (map (sr_executed \<circ> fst) rs @ [ac_command a']) = map command_view (ac_command a # natives)"
  using assms
proof (induction actions arbitrary: e rs a)
  case (Cons action_v actions)
  from Cons.prems(1) obtain r info e1 rs1 where step: "env_step S action_v e = Inr (r, info, e1)" and run: "env_run S actions e1 = Inr (rs1, e')"
    and rs: "rs = (r, info) # rs1" by (auto simp: split_beta)
  from env_step_command[OF step] obtain i native a1 where
    c: "composed_command (gs_hash S) (gs_clips S) (ge_oracle e) (PInt (cp_last_step (ge_oracle e) + 1)) (fst i) (snd i) = Inr (native, ge_oracle e1)"
    and a1: "ge_active e1 = Some a1" "command_view (ac_command a1) = command_view native" by blast
  from Cons.IH[OF run a1(1)] obtain inputs natives a' where ih: "command_run (gs_hash S) (gs_clips S) (ge_oracle e1) inputs = Inr (natives, ge_oracle e')"
    "length inputs = length actions" "ge_active e' = Some a'"
    "map command_view (map (sr_executed \<circ> fst) rs1 @ [ac_command a']) = map command_view (ac_command a1 # natives)" by blast
  have "sr_executed r = ac_command a" using env_step_leaves[OF step] Cons.prems(2) by auto
  moreover have "command_run (gs_hash S) (gs_clips S) (ge_oracle e) (i # inputs) = Inr (native # natives, ge_oracle e')"
    using c ih(1) by simp
  ultimately show ?case using ih(2-4) a1(2) by (intro exI[of _ "i # inputs"] exI[of _ "native # natives"] exI[of _ a']) (simp add: rs o_def)
qed (auto intro!: exI[of _ "[]"])

text \<open>The commands of an episode: one at the reset, and one after every step.\<close>

lemma episode_commands:
  assumes at: "env_at S program segments e" and h: "1 \<le> cs_horizon (gs_task S)" and reset: "env_reset S has_options e = Inr (obs, info, e0)"
    and run: "env_run S actions e0 = Inr (rs, e')"
  shows "\<exists>c inputs cmds a'. mk_composed program segments = Inr c \<and> command_run (gs_hash S) (gs_clips S) c inputs = Inr (cmds, ge_oracle e') \<and>
     length inputs = Suc (length actions) \<and> ge_active e' = Some a' \<and>
     map command_view (map (sr_executed \<circ> fst) rs @ [ac_command a']) = map command_view cmds"
  using reset
proof (rule env_resetE)
  fix boundary plant orc frame current metrics p oracle' session'
  assume o: "composed_reset (cp_program (ge_oracle e)) (cp_segments (ge_oracle e)) = Inr orc"
    and p: "prepare_step S boundary frame metrics orc (session_reset (as_prepared (ge_session e))) = Inr (p, oracle', session')"
    and e0: "e0 = \<lparr>ge_plant = plant, ge_session = session', ge_oracle = oracle',
       ge_active = Some \<lparr>ac_boundary = boundary, ac_frame = frame, ac_metrics = metrics, ac_command = ps_command p,
         ac_plan = ps_plan p, ac_prepared = ps_prepared p\<rparr>, ge_done = False\<rparr>"
  have made: "mk_composed program segments = Inr orc"
    using env_at_inv[OF at h] o by (auto simp: env_inv_def intro: reset_reaches)
  from prepare_command[OF p] obtain i native where
    c: "composed_command (gs_hash S) (gs_clips S) orc (PInt (cp_last_step orc + 1)) (fst i) (snd i) = Inr (native, oracle')"
    and v: "command_view (ps_command p) = command_view native" by (auto simp: command_view_def)
  let ?a = "\<lparr>ac_boundary = boundary, ac_frame = frame, ac_metrics = metrics, ac_command = ps_command p, ac_plan = ps_plan p, ac_prepared = ps_prepared p\<rparr>"
  have "ge_active e0 = Some ?a" by (simp add: e0)
  from run_commands[OF run this] obtain inputs natives a' where r: "command_run (gs_hash S) (gs_clips S) (ge_oracle e0) inputs = Inr (natives, ge_oracle e')"
    "length inputs = length actions" "ge_active e' = Some a'"
    "map command_view (map (sr_executed \<circ> fst) rs @ [ac_command a']) = map command_view (ac_command ?a # natives)" by blast
  have "command_run (gs_hash S) (gs_clips S) orc (i # inputs) = Inr (native # natives, ge_oracle e')" using c r(1) by (simp add: e0)
  with made r v show ?thesis by (intro exI[of _ orc] exI[of _ "i # inputs"] exI[of _ "native # natives"] exI[of _ a']) simp
qed

text \<open>
  C39. An episode of the environment is a run of \<open>OracleMachine\<close> on the program: one decision at the reset and one
  after every step, and the mode, the controller and the switch that a step reports are those of the decision
  before it.
\<close>

theorem episode_refines_machine:
  assumes at: "env_at S program segments e" and h: "1 \<le> cs_horizon (gs_task S)" and reset: "env_reset S has_options e = Inr (obs, info, e0)"
    and run: "env_run S actions e0 = Inr (rs, e')"
  shows "\<exists>m is ds. mk_machine program = Inr m \<and> control_run m is = Inr (ds, cp_machine (ge_oracle e')) \<and> length ds = Suc (length actions) \<and>
     map (rc_state \<circ> sr_executed \<circ> fst) rs = map dc_state (butlast ds) \<and>
     map (rc_behavior \<circ> sr_executed \<circ> fst) rs = map dc_behavior (butlast ds) \<and>
     map (\<lambda>x. rc_transition (sr_executed (fst x)) \<noteq> None) rs = map dc_switched (butlast ds)"
proof -
  from episode_commands[OF assms] obtain c inputs cmds a' where c: "mk_composed program segments = Inr c"
    "command_run (gs_hash S) (gs_clips S) c inputs = Inr (cmds, ge_oracle e')" "length inputs = Suc (length actions)"
    "ge_active e' = Some a'" and v: "map command_view (map (sr_executed \<circ> fst) rs @ [ac_command a']) = map command_view cmds" by blast
  from command_run_refines[OF composed_at.start[OF c(1)] c(2)] obtain "is" ds where
    run: "control_run (cp_machine c) is = Inr (ds, cp_machine (ge_oracle e'))" "length cmds = length inputs" "length ds = length inputs"
    and each: "\<forall>k < length inputs. \<exists>m. control_run (cp_machine c) (take k is) = Inr (take k ds, m) \<and>
        commanded (gs_hash S) (gs_clips S) segments (origin_after (take k cmds) (cp_origin_step c, cp_origin_seconds c)) (cp_last_step c + 1 + int k) m
          (inputs ! k) (is ! k) (ds ! k) (cmds ! k)" by blast
  note m = run(1,2) commanded_maps[OF run(2,3) each]
  have "mk_machine program = Inr (cp_machine c)" using c(1) by (auto simp: mk_composed_def composed_reset_def split: if_splits)
  have view: "map f (butlast cmds) = map (f \<circ> sr_executed \<circ> fst) rs" if f: "\<And>x y. command_view x = command_view y \<Longrightarrow> f x = f y"
    for f :: "reference_command \<Rightarrow> 'x"
  proof -
    have eq: "map f xs = map f ys" if "map command_view xs = map command_view ys" for xs ys
      using that by (induction xs ys rule: list_induct2') (auto dest: f)
    have "butlast (map f (map (sr_executed \<circ> fst) rs @ [ac_command a'])) = butlast (map f cmds)" using eq[OF v] by (simp only:)
    then show ?thesis by (simp add: map_butlast[symmetric] comp_assoc)
  qed
  have "length ds = length cmds" using run by simp
  moreover have "map (rc_state \<circ> sr_executed \<circ> fst) rs = map dc_state (butlast ds)"
    using view[of rc_state] m(3) by (simp add: command_view_def map_butlast)
  moreover have "map (rc_behavior \<circ> sr_executed \<circ> fst) rs = map dc_behavior (butlast ds)"
    using view[of rc_behavior] m(3) by (simp add: command_view_def map_butlast)
  moreover have "map (\<lambda>x. rc_transition (sr_executed (fst x)) \<noteq> None) rs = map dc_switched (butlast ds)"
    using view[of "\<lambda>x. rc_transition x \<noteq> None"] m(3) by (simp add: command_view_def map_butlast o_def)
  ultimately show ?thesis using \<open>mk_machine program = _\<close> m(1,2) c(3) by (intro exI[of _ "cp_machine c"] exI[of _ "is"] exI[of _ ds]) simp
qed

section \<open>Witnesses\<close>

text \<open>
  A robot that lies still at height 1/4, on a course of one step: the environment is reset, and its only step is a
  fall.
\<close>

definition low_qpos :: "f64 list" where
  "low_qpos = [Fin 0, Fin 0, Fin (1 / 4), Fin 1, Fin 0, Fin 0, Fin 0] @ replicate 23 (Fin 0)"

definition low_plant :: "unit plant" where
  "low_plant = still_plant\<lparr>pl_qpos := \<lambda>_. low_qpos\<rparr>"

definition low_math :: feedback_math where
  "low_math = control_math.extend still_math \<lparr>fb_square = (\<lambda>d x. mul_in d x x), fb_bytes = (\<lambda>_. [])\<rparr>"

definition low_task :: course_spec where
  "low_task = course_demo_spec\<lparr>cs_horizon := 1\<rparr>"

definition low_setup :: "unit gym_setup" where
  "low_setup = \<lparr>gs_plant = low_plant, gs_actor = still_actor, gs_contains = (\<lambda>_. True), gs_hash = demo_hasher, gs_math = low_math,
     gs_clips = still_segments, gs_task = low_task, gs_recipe = course_demo_reward_recipe, gs_runtime = LEGACY_RUNTIME,
     gs_bodies = [''world'', ''pelvis''], gs_record = True\<rparr>"

definition low_start :: "unit gym_env" where
  "low_start = \<lparr>ge_plant = runtime_start (), ge_session = session_reset 0, ge_oracle = course_start, ge_active = None, ge_done = True\<rparr>"

definition low_boundary :: "int \<Rightarrow> control_boundary" where
  "low_boundary k = \<lparr>cb_qpos = low_qpos, cb_qvel = replicate 29 (Fin 0), cb_orientation = [Fin 1, Fin 0, Fin 0, Fin 0],
     cb_angular_velocity = replicate 3 (Fin 0), cb_control_step = k, cb_simulation_step = 20 * k\<rparr>"

definition low_runtime :: "int \<Rightarrow> unit control_runtime" where
  "low_runtime k = \<lparr>rt_data = (), rt_control_step = k, rt_simulation_step = 20 * k, rt_ready = True\<rparr>"

lemma low_setup_sel [simp]:
  "gs_plant low_setup = low_plant" "gs_actor low_setup = still_actor" "gs_contains low_setup = (\<lambda>_. True)" "gs_hash low_setup = demo_hasher"
  "gs_math low_setup = low_math" "gs_clips low_setup = still_segments" "gs_task low_setup = low_task"
  "gs_recipe low_setup = course_demo_reward_recipe" "gs_runtime low_setup = LEGACY_RUNTIME" "gs_bodies low_setup = [''world'', ''pelvis'']"
  "gs_record low_setup"
  by (simp_all add: low_setup_def)

lemma low_math_sel [simp]: "course_of low_math = course_demo_math" "control_of low_math = still_math"
  "m_cos low_math x = Fin 1" "m_sin low_math x = Fin 0" "fb_square low_math d x = mul_in d x x" "np_square low_math x = f64_mul x x"
  by (simp_all add: low_math_def course_of_def control_of_def still_math_def course_demo_math_def course_math.defs control_math.defs)

lemma low_plant_ok: "plant_ok low_plant"
  by (simp add: plant_ok_def low_plant_def still_plant_def reading_ok_def low_qpos_def f32_rep_round)

lemma low_started: "env_at low_setup course_oracle course_segments low_start"
proof (rule env_at.made[OF course_starts])
  show "mk_env low_setup (runtime_start ()) (session_reset 0) course_start = Inr low_start"
    using course_validated(2) by (simp add: mk_env_def low_start_def RUNTIMES_def course_start_def)
qed

lemma low_boundary_now: "0 \<le> k \<Longrightarrow> boundary_now low_plant (low_runtime k) = Inr (low_boundary k)"
  by (simp add: boundary_now_def mk_boundary_def exact_array_def low_plant_def still_plant_def low_qpos_def low_runtime_def low_boundary_def
      nonnegative_integer_def SIMULATION_DECIMATION_def f32_rep_round)

lemma low_reset: "runtime_reset low_plant rt = Inr (low_boundary 0, low_runtime 0)"
  using low_boundary_now[of 0] by (simp add: runtime_reset_def low_runtime_def Let_def)

lemma low_substeps: "run_substeps low_plant target n data = Inr (subs, final) \<Longrightarrow>
    length subs = n \<and> (\<forall>s \<in> set subs. su_qpos s = low_qpos \<and> su_contacts s = [])"
proof (induction n arbitrary: data subs)
  case (Suc n)
  then obtain rest s where "run_substeps low_plant target n () = Inr (rest, final)" "subs = s # rest" "su_qpos s = low_qpos" "su_contacts s = []"
    by (auto simp: low_plant_def still_plant_def contact_pairs_def Let_def bindE_eq_Inr)
  with Suc.IH show ?case by auto
qed simp

lemma contact_substep_same: "contact_substep c = Inr d \<Longrightarrow> d = c"
  by (auto simp: contact_substep_def split: if_splits)

lemma interval_trace:
  assumes "mk_interval a b c qpos qvel torque contacts x y = Inr interval"
  shows "ci_qpos interval = qpos \<and> mapE contact_substep contacts = Inr (ci_contacts interval)"
proof -
  from assms have "ci_qpos interval = qpos \<and> contact_trace contacts = Inr (ci_contacts interval)"
    by (auto simp: mk_interval_def split: if_splits)
  then show ?thesis by (auto simp: contact_trace_def split: if_splits)
qed

lemma runtime_step_parts:
  assumes "runtime_step P v rt = Inr (b, interval, rt')"
  obtains raw clipped target subs data where "run_substeps P target SIMULATION_DECIMATION (rt_data rt) = Inr (subs, data)"
    "mk_interval raw clipped (vec F64 target) (map su_qpos subs) (map su_qvel subs) (map su_torque subs) (map su_contacts subs)
      (PInt (rt_control_step rt)) (PInt (rt_simulation_step rt)) = Inr interval"
    "rt' = rt\<lparr>rt_data := data, rt_control_step := rt_control_step rt + 1, rt_simulation_step := rt_simulation_step rt + int SIMULATION_DECIMATION\<rparr>"
    "boundary_now P rt' = Inr b"
proof -
  have "rt_ready rt" using assms by (simp add: runtime_step_def split: if_splits)
  then show ?thesis using assms unfolding runtime_step_def Let_def
    by (simp only: not_True_eq_False if_False bindE_eq_Inr split_paired_Ex prod.case prod.inject sum.inject)
      (elim exE conjE, rule that, assumption, simp_all)
qed

lemma low_step:
  "\<exists>interval. runtime_step low_plant (vec F32 (replicate 23 (Fin 0))) (low_runtime 0) = Inr (low_boundary 1, interval, low_runtime 1) \<and>
     ci_qpos interval = replicate 20 low_qpos \<and> concat (ci_contacts interval) = []"
proof -
  have "cadence_ok (low_runtime 0)" by (simp add: cadence_ok_def low_runtime_def)
  from runtime_step_total[OF low_plant_ok this, of "replicate 23 (Fin 0)"] obtain b interval rt' where
    s: "runtime_step low_plant (vec F32 (replicate 23 (Fin 0))) (low_runtime 0) = Inr (b, interval, rt')" by auto
  obtain raw clipped target subs data where p: "run_substeps low_plant target SIMULATION_DECIMATION (rt_data (low_runtime 0)) = Inr (subs, data)"
    "mk_interval raw clipped (vec F64 target) (map su_qpos subs) (map su_qvel subs) (map su_torque subs) (map su_contacts subs)
      (PInt (rt_control_step (low_runtime 0))) (PInt (rt_simulation_step (low_runtime 0))) = Inr interval"
    "rt' = low_runtime 0\<lparr>rt_data := data, rt_control_step := rt_control_step (low_runtime 0) + 1,
       rt_simulation_step := rt_simulation_step (low_runtime 0) + int SIMULATION_DECIMATION\<rparr>" and b: "boundary_now low_plant rt' = Inr b"
    using s by (elim runtime_step_parts)
  have rt': "rt' = low_runtime 1" unfolding p(3) by (simp add: low_runtime_def SIMULATION_DECIMATION_def)
  note r = p(1) and i = p(2)
  note l = low_substeps[OF r] and i = interval_trace[OF i]
  have "map su_qpos subs = map (\<lambda>_. low_qpos) subs" using l by simp
  then have "ci_qpos interval = replicate 20 low_qpos" using i l by (simp add: map_replicate_const SIMULATION_DECIMATION_def)
  moreover have "d = []" if "d \<in> set (ci_contacts interval)" for d
    using mapE_in_set[OF conjunct2[OF i] that] l by (auto dest: contact_substep_same)
  ultimately show ?thesis using s rt' b low_boundary_now[of 1] by auto
qed

section \<open>Measurement and signals\<close>

lemma low_projection:
  "frame_project course_demo_math course_demo_frame (Floating [2] [Fin 0, Fin 0]) (Floating [4] [Fin 1, Fin 0, Fin 0, Fin 0]) =
     Inr \<lparr>fp_progress = Fin 0, fp_lateral = Fin 0, fp_heading = Fin 0\<rparr>"
  by (simp add: frame_project_def course_array_def course_demo_euler course_demo_frame_def domainE_def yaw_of_def f64_sub_def
      f64_rep_round Let_def) (simp add: course_demo_math_def yaw_of_def f64_rep_round)

lemma low_parts: "take 2 low_qpos = [Fin 0, Fin 0]" "take 4 (drop 3 low_qpos) = [Fin 1, Fin 0, Fin 0, Fin 0]" "low_qpos ! 2 = Fin (1 / 4)"
    "drop 7 low_qpos = replicate 23 (Fin 0)" "length low_qpos = 30" "list_all is_finite low_qpos" "low_qpos ! 4 = Fin 0" "low_qpos ! 5 = Fin 0"
  by (simp_all add: low_qpos_def)

lemma low_frame: "frame_initialize course_demo_math (Floating [2] (take 2 low_qpos)) (Floating [4] (take 4 (drop 3 low_qpos))) = Inr course_demo_frame"
  by (simp add: yaw_of_def low_parts frame_initialize_def course_array_def course_demo_euler course_demo_frame_def Let_def)

lemma low_errors:
  "reference_tracking_errors course_demo_math (Floating [ACTION_DIM] (replicate 23 (Fin 0))) (Fin (1 / 4)) (Floating [2] [Fin 0, Fin 0])
     (Floating [REFERENCE_FRAME_DIM] (replicate 30 (Fin 0))) = Inr (Fin 0, Fin (1 / 4), Fin 0)"
proof -
  have d: "drop 7 (replicate 30 (Fin 0)) = replicate 23 (Fin 0)" "take 2 (drop 1 (replicate 30 (Fin 0))) = [Fin 0, Fin 0]"
    "replicate 30 (Fin 0) ! 0 = Fin 0"
    by (simp_all add: numeral_eq_Suc)
  have "f64_rep (1 / 4)" using f64_rep_quarters[of 1] by simp
  then show ?thesis
    by (simp add: reference_tracking_errors_def course_array_def ACTION_DIM_def REFERENCE_FRAME_DIM_def d f64_sub_def f64_rep_round
        zip_replicate course_demo_math_def numeral_2_eq_2)
qed

definition low_metrics :: "int \<Rightarrow> step_metrics" where
  "low_metrics k = \<lparr>cm_spec_sha256 = course_spec_sha256 demo_hasher low_task, cm_control_step = k, cm_progress = Fin 0,
     cm_lateral = Fin 0, cm_heading_signed = Fin 0, cm_root_height = Fin (1 / 4), cm_torso_up = Fin 1, cm_forward_speed = Fin 0,
     cm_target_speed = Fin 1, cm_speed_error = Fin 1, cm_posture_error = posture_error low_task False (Fin (1 / 4)), cm_lateral_error = Fin 0,
     cm_heading_error = Fin 0, cm_inside = False, cm_posture_success = False, cm_finished = False, cm_horizon_reached = (1 \<le> k),
     cm_fallen = (failure_reasons (Fin (1 / 4)) (Fin 1) [] \<noteq> []), cm_failure_reasons = failure_reasons (Fin (1 / 4)) (Fin 1) [],
     cm_joint_rmse = Fin 0, cm_height_error = Fin (1 / 4), cm_roll_pitch_rmse = Fin 0\<rparr>"

lemma low_measured:
  assumes "k = 0 \<or> k = 1"
  shows "evaluate_course_step demo_hasher course_demo_math low_task course_demo_frame (Floating [30] low_qpos) (Floating [30] low_qpos)
     (PTuple []) (Floating [30] (replicate 30 (Fin 0))) (PInt k) = Inr (low_metrics k)"
proof -
  obtain dt where dt: "CONTROL_DT_SECONDS = Fin dt" "0 < dt" by (rule control_dt)
  have n: "contact_names (PTuple []) = Inr []" by (simp add: contact_names_def)
  have b: "boundary_step low_task (PInt k) = Inr k" using assms by (auto simp: boundary_step_def low_task_def)
  have c: "m_cos course_demo_math x = Fin 1" for x by (simp add: course_demo_math_def)
  have a: "course_array CourseArray [7 + ACTION_DIM] f (Floating [30] low_qpos) = Inr low_qpos" for f
    by (simp add: course_array_def low_parts ACTION_DIM_def)
  have r: "course_array CourseArray [REFERENCE_FRAME_DIM] f (Floating [30] (replicate 30 (Fin 0))) = Inr (replicate 30 (Fin 0))" for f
    by (simp add: course_array_def REFERENCE_FRAME_DIM_def)
  have t: "\<not> inside_region low_task (Fin 0)" "cs_speed_outside low_task = Fin 1" "cs_horizon low_task = 1" "\<not> f64_le (cs_finish low_task) (Fin 0)"
    by (simp_all add: inside_region_def low_task_def course_demo_spec_def)
  have q: "quotient (Fin 0) CONTROL_DT_SECONDS = Fin 0" unfolding dt(1) using dt(2) by (simp add: quotient_def f64_rep_round)
  have "f64_rep (- 1)" using f64_rep_of_int[of "- 1"] by simp
  then show ?thesis
    using t by (simp add: evaluate_course_step_def a r n b low_parts low_projection course_demo_euler low_errors q
        domainE_def c f64_rep_round f64_sub_def low_metrics_def Let_def)
qed

definition low_signals :: "int \<Rightarrow> (string \<times> pyval) list" where
  "low_signals k = [(''t'', PFloat (f64_mul (Fin (of_int k)) CONTROL_DT_SECONDS)), (''v_x'', PFloat (Fin 0)), (''v_target'', PFloat (Fin 1)),
     (''z_root'', PFloat (Fin (1 / 4))), (''torso_up'', PFloat (Fin 1)), (''x_travelled'', PFloat (Fin 0))]"

lemma low_inputs:
  assumes "k = 0 \<or> k = 1"
  shows "\<exists>i. oracle_boundary_inputs low_math low_task course_demo_frame (vec F64 (cb_qpos (low_boundary k))) (vec F64 (cb_qvel (low_boundary k)))
     (PInt k) = Inr i \<and> bi_signals i = low_signals k \<and> bi_projection i = \<lparr>fp_progress = Fin 0, fp_lateral = Fin 0, fp_heading = Fin 0\<rparr>"
proof -
  have t: "\<not> inside_region low_task (Fin 0)" "cs_speed_outside low_task = Fin 1"
    by (simp_all add: inside_region_def low_task_def course_demo_spec_def)
  have q: "float_values [7 + ACTION_DIM] f (vec F64 low_qpos) = Inr (F64, low_qpos)" for f
    by (simp add: float_values_def low_parts ACTION_DIM_def)
  have v: "float_values [6 + ACTION_DIM] f (vec F64 (replicate 29 (Fin 0))) = Inr (F64, replicate 29 (Fin 0))" for f
    by (simp add: float_values_def ACTION_DIM_def)
  have e: "sensor_euler still_math F64 [Fin 1, Fin 0, Fin 0, Fin 0] = Inr (Fin 0, Fin 0, Fin 0)"
    by (simp add: sensor_euler_def still_math_def course_math.defs control_math.defs course_demo_math_def mul_in_def add_in_def sub_in_def f64_sub_def
      f64_rep_round Let_def)
  have z: "replicate 29 (Fin 0) ! 0 = Fin 0" "replicate 29 (Fin 0) ! 1 = Fin 0" by simp_all
  have n: "float_of_int k = Some (Fin (of_int k))" using assms by (intro float_of_int_small) auto
  have k: "\<not> k < 0" using assms by auto
  have b: "cb_qpos (low_boundary k) = low_qpos" "cb_qvel (low_boundary k) = replicate 29 (Fin 0)" by (simp_all add: low_boundary_def)
  have f: "tf_yaw course_demo_frame = Fin 0" by (simp add: course_demo_frame_def)
  show ?thesis
    unfolding oracle_boundary_inputs_def b q v
    unfolding bindE_simps prod.case pyval.case if_not_P[OF k] low_parts low_math_sel low_projection liftE_simps
      domainE_def f n e Let_def option.case
    using t z by (simp add: low_signals_def mul_in_def add_in_def sub_in_def cast_in_def f64_rep_round f64_sub_def)
qed

section \<open>The oracle of the course\<close>

definition low_course :: "int \<Rightarrow> composed" where
  "low_course k = \<lparr>cp_program = course_oracle, cp_segments = course_segments, cp_machine = course_machine k, cp_last_step = k - 1,
     cp_origin_step = 0, cp_origin_seconds = Fin 0, cp_last_behavior = (if k = 0 then None else Some ''walker''),
     cp_last_phase = (if k = 0 then None else Some (projr (origin_phase (0, Fin 0) (k - 1))))\<rparr>"

lemma low_course_start: "course_start = low_course 0"
  by (simp add: course_start_def low_course_def)

definition low_values :: "int \<Rightarrow> f64 \<Rightarrow> (string \<times> pyval) list" where
  "low_values k t = [(''dwell'', PFloat (Fin (of_int k))), (''t'', PFloat t), (''torso_up'', PFloat (Fin 1)), (''v_target'', PFloat (Fin 1)),
     (''v_x'', PFloat (Fin 0)), (''x_travelled'', PFloat (Fin 0)), (''z_root'', PFloat (Fin (1 / 4)))]"

lemma low_time:
  assumes "k = 0 \<or> k = 1"
  shows "is_finite (f64_mul (Fin (of_int k)) CONTROL_DT_SECONDS)"
proof -
  obtain dt where dt: "CONTROL_DT_SECONDS = Fin dt" "0 < dt" "dt \<le> 3 / 128" by (rule control_dt)
  have "fin_in (f64_round (of_int k * dt)) 0 1" using assms dt by (intro round_in) auto
  then show ?thesis by (auto simp: dt(1) fin_in_def)
qed

lemma low_keys: "keys_are ALLOWED_SIGNALS (low_values k t)"
  by (auto simp: keys_are_def dict_keys_def ALLOWED_SIGNALS_def low_values_def)

lemma low_checked:
  assumes k: "k = 0 \<or> k = 1"
  shows "machine_signals k (low_signals k @ [(''dwell'', PInt k)]) = Inr (low_values k (f64_mul (Fin (of_int k)) CONTROL_DT_SECONDS))"
proof -
  have s: "sort ALLOWED_SIGNALS = [''dwell'', ''t'', ''torso_up'', ''v_target'', ''v_x'', ''x_travelled'', ''z_root'']" by code_simp
  have n: "read_number (PInt k) = Number (Fin (of_int k))" using k by (auto simp: float_of_int_small)
  show ?thesis
    using low_time[OF k] low_keys by (simp add: machine_signals_def low_signals_def dict_get_def s finite_value_def n low_values_def del: read_number.simps(1))
qed

lemma low_guard:
  assumes t: "is_finite t"
  shows "guard_holds (walk_guard ''v_x > 1'') (low_values k t) = Inr False"
proof -
  have g: "ge_tree (walk_guard ''v_x > 1'') = Expression (Compare (Name ''v_x'') [Gt] [Constant (PInt 1)])" by code_simp
  have a: "admitted (Expression (Compare (Name ''v_x'') [Gt] [Constant (PInt 1)]))" by code_simp
  have "\<forall>(n, v) \<in> set (low_values k t). finite_constant v" using t by (simp add: low_values_def finite_constant_def)
  from evaluate_expr_sem[OF a[folded g] low_keys this] show ?thesis
    by (simp add: guard_holds_def g signal_env_def low_values_def dict_get_def float_of_int_small)
qed

lemma low_decides:
  assumes k: "k = 0 \<or> k = 1"
  shows "decide (course_machine k) (low_signals k @ [(''dwell'', PInt k)]) True = Inr (unchanged (course_machine k) Hold, course_machine k)"
proof -
  have m: "mc_dwell (course_machine k) = k" "mc_program (course_machine k) = course_oracle" "mc_state (course_machine k) = ''before''"
    "cy_recovery course_oracle = None" "map_of (cy_states course_oracle) ''before'' = Some \<lparr>st_behavior = ''walker'', st_min_dwell = 0\<rparr>"
    by (simp_all add: course_machine_def course_oracle_def)
  have o: "map_of (mc_outgoing (course_machine k)) ''before'' =
      Some [\<lparr>t_source = ''before'', t_target = ''inside'', t_guard = walk_guard ''v_x > 1'', t_priority = 0\<rparr>]"
    by (simp add: course_machine_def course_oracle_def group_outgoing_def dd_push_def)
  have "0 \<le> k" using k by auto
  then show ?thesis using low_guard[OF low_time[OF k]]
    by (simp add: decide_def m low_checked[OF k] ordinary_def o Let_def)
qed

lemma course_advances: "advance (course_machine k) = course_machine (k + 1)"
  by (simp add: advance_def course_machine_def)

lemma low_command:
  assumes k: "k = 0 \<or> k = 1"
  shows "\<exists>cmd. composed_command demo_hasher still_segments (low_course k) (PInt k) (low_signals k) pose = Inr (cmd, low_course (k + 1)) \<and>
     rc_window cmd = replicate 20 (replicate 30 (Fin 0)) \<and> rc_state cmd = ''before'' \<and> rc_phase_fraction cmd = Fin 0"
proof -
  have k': "k \<in> {0, 1, 2}" using k by auto
  obtain x where x: "origin_phase (0, Fin 0) k = Inr (Fin x)" "f32_rep x" "of_int k / 64 \<le> x" "x \<le> of_int k * 3 / 128"
    using early_phase[OF k'] by blast
  have m: "mild (Fin x)" "x \<le> 3 / 128" using x k by (auto simp: mild_def)
  have s: "segment_of (low_course k) ''walker'' = Inr clip_segment" by (simp add: segment_of_def low_course_def course_segments_def)
  have ph: "composed_phase (low_course k) k = Inr (Fin x)" using x(1) by (simp add: composed_phase_def low_course_def)
  have allow: "allows_ordinary_transition clip_segment prior (Fin x) = Inr True" for prior
    by (simp add: allows_ordinary_transition_def clip_segment_def)
  note plays = clip_plays[OF m]
  have sel: "cp_last_step (low_course k) + 1 = k" "cp_machine (low_course k) = course_machine k" "mc_behavior (course_machine k) = ''walker''"
    "mc_dwell (course_machine k) = k" "dict_get (low_signals k) ''dwell'' = None"
    by (simp_all add: low_course_def course_machine_def dict_get_def low_signals_def)
  have un: "dc_behavior (unchanged (course_machine k) r) = ''walker''" "dc_switched (unchanged (course_machine k) r) = False"
    "dc_state (unchanged (course_machine k) r) = ''before''" for r by (simp_all add: unchanged_def course_machine_def)
  have tr: "transfer_phase demo_hasher still_segments (low_course k) k pose clip_segment (unchanged (course_machine k) Hold) = Inr ((0, Fin 0), None)"
    unfolding transfer_phase_def un by (simp add: low_course_def)
  have next_state: "(low_course k)\<lparr>cp_machine := course_machine (k + 1), cp_last_step := k, cp_origin_step := 0, cp_origin_seconds := Fin 0,
      cp_last_behavior := Some ''walker'', cp_last_phase := Some (Fin x)\<rparr> = low_course (k + 1)"
    using x(1) k by (auto simp: low_course_def)
  have q: "CourseTask.quotient (Fin 0) (sg_duration clip_segment) = Fin 0"
    by (simp add: sg_duration_def clip_segment_def quotient_def f64_sub_def f64_rep_round)
  from composed_commandI[of "low_signals k" "low_course k", unfolded sel un, OF refl s ph allow low_decides[OF k], unfolded un,
      OF s tr x(1) plays]
  show ?thesis unfolding fst_conv snd_conv course_advances next_state by (intro exI conjI) (assumption, simp_all add: q)
qed

section \<open>The actor\<close>

definition small_rows :: "f64 list list \<Rightarrow> bool" where
  "small_rows h \<longleftrightarrow> length h = 20 \<and> list_all (\<lambda>row. length row = 74 \<and> list_all (\<lambda>x. fin_in x (- 2) 2) row) h"

lemma small_rows_empty: "small_rows empty_history"
  by (simp add: small_rows_def empty_history_def HISTORY_LENGTH_def PROPRIOCEPTION_DIM_def fin_in_iff)

lemma small_rows_concat: "small_rows h \<Longrightarrow> length (concat h) = 1480 \<and> list_all is_finite (map to_f32 (concat h))"
proof
  assume h: "small_rows h"
  then have "map length h = map (\<lambda>_. 74) h" by (simp add: small_rows_def list_all_iff)
  then have "sum_list (map length h) = 1480" using h by (simp add: map_replicate_const sum_list_replicate small_rows_def)
  then show "length (concat h) = 1480" by (simp add: length_concat)
  show "list_all is_finite (map to_f32 (concat h))"
    using h small_f32 by (force simp: small_rows_def list_all_iff)
qed

lemma low_prepared_control:
  assumes k: "0 \<le> k" and s: "small_rows (as_history s)" "as_last_raw s = replicate 23 (Fin 0)" "as_expected_step s = k" "as_pending s = None"
  shows "\<exists>p. session_prepare still_math still_actor (low_boundary k) (window_array (replicate 20 (replicate 30 (Fin 0)))) s =
      Inr (p, s\<lparr>as_pending := Some p, as_prepared := as_prepared s + 1\<rparr>) \<and> pc_base_raw p = replicate 23 (Fin 0) \<and>
      length (pc_proprio p) = 74 \<and> list_all (\<lambda>x. fin_in x (- 2) 2) (pc_proprio p)"
proof -
  obtain ps where ps: "build_proprioception still_math (vec F32 (replicate 23 (Fin 0))) (vec F32 (replicate 23 (Fin 0))) (vec F32 [Fin 1, Fin 0, Fin 0, Fin 0])
     (vec F32 (replicate 3 (Fin 0))) (vec F32 (replicate 23 (Fin 0))) = Inr ps" "length ps = 74" "list_all (\<lambda>x. fin_in x (- 2) 2) ps"
    using still_proprioception by blast
  have f: "list_all is_finite ps" "list_all is_finite (map to_f32 ps)"
    using ps(3) small_f32 by (auto simp: list_all_iff fin_in_def)
  note h = small_rows_concat[OF s(1)]
  define obs where "obs = map to_f32 (replicate 600 (Fin 0) @ ps @ concat (as_history s))"
  have obs: "length obs = 2154" "list_all is_finite obs"
    using f(2) h ps(2) by (simp_all add: obs_def f32_rep_round)
  have asm: "assemble (as_history s) (NpArray F32 [REFERENCE_HORIZON, REFERENCE_FRAME_DIM] True (replicate 600 (Fin 0))) (vec F64 ps) = Inr obs"
    using ps(2) f(1) obs(1) by (simp add: assemble_def deploy_array_def PROPRIOCEPTION_DIM_def OBSERVATION_DIM_def Let_def obs_def)
  have "concat (replicate n (replicate m (x::f64))) = replicate (n * m) x" for n m x
    by (induction n) (simp_all add: replicate_add)
  then have w: "exact_array F32 [REFERENCE_HORIZON, REFERENCE_FRAME_DIM] ''reference window'' (window_array (replicate 20 (replicate 30 (Fin 0)))) =
      Inr (replicate 600 (Fin 0))"
    by (simp add: exact_array_def window_array_def REFERENCE_HORIZON_def REFERENCE_FRAME_DIM_def)
  define p where "p = \<lparr>pc_control_step = k, pc_proprio = ps, pc_obs = obs, pc_base_raw = replicate 23 (Fin 0), pc_identity = as_prepared s\<rparr>"
  have mk: "mk_prepared (PInt k) (vec F64 ps) (vec F32 obs) (vec F32 (replicate 23 (Fin 0))) (as_prepared s) = Inr p"
    using k ps(2) f(1) obs by (simp add: mk_prepared_def nonnegative_integer_def exact_array_def PROPRIOCEPTION_DIM_def OBSERVATION_DIM_def ACTION_DIM_def p_def)
  have j: "joints_f32 low_qpos = vec F32 (replicate 23 (Fin 0))" "joints_f32 (replicate 29 (Fin 0)) = vec F32 (replicate 23 (Fin 0))"
    by (simp_all add: joints_f32_def low_qpos_def ACTION_DIM_def f32_rep_round Let_def)
  have "session_prepare still_math still_actor (low_boundary k) (window_array (replicate 20 (replicate 30 (Fin 0)))) s =
      Inr (p, s\<lparr>as_pending := Some p, as_prepared := as_prepared s + 1\<rparr>)"
    using w ps(1) asm mk s(2-4)
    by (simp add: session_prepare_def low_boundary_def j ACTION_DIM_def still_actor_def)
  then show ?thesis using ps(2,3) by (intro exI[of _ p]) (simp add: p_def)
qed

lemma low_observed:
  assumes "rc_phase_fraction cmd = Fin 0" "cm_spec_sha256 m = course_spec_sha256 demo_hasher low_task"
  shows "\<exists>obs. observation low_setup oracle m cmd p = Inr obs"
proof -
  have "f64_mul TWO_PI (Fin 0) = Fin 0" by (simp add: TWO_PI_def f64_rep_round)
  then show ?thesis using assms by (simp add: observation_def domainE_def task_features_def Let_def)
qed

lemma low_prepares:
  assumes k: "k = 0 \<or> k = 1" and s: "small_rows (as_history s)" "as_last_raw s = replicate 23 (Fin 0)" "as_expected_step s = k" "as_pending s = None"
    and m: "cm_spec_sha256 m = course_spec_sha256 demo_hasher low_task"
  shows "\<exists>p s'. prepare_step low_setup (low_boundary k) course_demo_frame m (low_course k) s = Inr (p, low_course (k + 1), s') \<and> ps_plan p = None \<and>
     pc_base_raw (ps_prepared p) = replicate 23 (Fin 0) \<and> s' = s\<lparr>as_pending := Some (ps_prepared p), as_prepared := as_prepared s + 1\<rparr> \<and>
     length (pc_proprio (ps_prepared p)) = 74 \<and> list_all (\<lambda>x. fin_in x (- 2) 2) (pc_proprio (ps_prepared p))"
proof -
  obtain i where i: "oracle_boundary_inputs low_math low_task course_demo_frame (vec F64 (cb_qpos (low_boundary k))) (vec F64 (cb_qvel (low_boundary k)))
     (PInt k) = Inr i" "bi_signals i = low_signals k" using low_inputs[OF k] by blast
  obtain cmd where c: "composed_command demo_hasher still_segments (low_course k) (PInt k) (low_signals k) (bi_pose i) = Inr (cmd, low_course (k + 1))"
    "rc_window cmd = replicate 20 (replicate 30 (Fin 0))" "rc_state cmd = ''before''" "rc_phase_fraction cmd = Fin 0"
    using low_command[OF k] by blast
  have "0 \<le> k" using k by auto
  from low_prepared_control[OF this s] obtain p where p: "session_prepare still_math still_actor (low_boundary k)
      (window_array (replicate 20 (replicate 30 (Fin 0)))) s = Inr (p, s\<lparr>as_pending := Some p, as_prepared := as_prepared s + 1\<rparr>)"
    "pc_base_raw p = replicate 23 (Fin 0)" "length (pc_proprio p) = 74" "list_all (\<lambda>x. fin_in x (- 2) 2) (pc_proprio p)" by blast
  obtain obs where o: "observation low_setup (low_course (k + 1)) m cmd p = Inr obs" using low_observed[OF c(4) m] by blast
  have n: "cb_control_step (low_boundary k) = k" "cr_heading_feedback LEGACY_RUNTIME = False" by (simp_all add: low_boundary_def LEGACY_RUNTIME_def)
  show ?thesis using o p c(1-3) i by (simp add: prepare_step_def n)
qed

section \<open>The episode\<close>

lemma low_first: "first_reference low_setup (low_course 0) = Inr (replicate 30 (Fin 0))"
  using clip_features[of "[Fin 0]"]
  by (simp add: first_reference_def segment_of_def low_course_def course_machine_def course_segments_def mild_def del: replicate.simps)

lemma low_poststep: "current_after_step still_segments (low_course 1) 1 = Inr (replicate 30 (Fin 0))"
proof -
  obtain x where x: "origin_phase (0, Fin 0) 1 = Inr (Fin x)" "f32_rep x" "of_int 1 / 64 \<le> x" "x \<le> of_int 1 * 3 / 128"
    using early_phase[of 1] by blast
  then have "mild (Fin x)" by (auto simp: mild_def)
  with x(1) clip_features[of "[Fin x]"] show ?thesis
    by (simp add: current_after_step_def segment_of_def composed_phase_def low_course_def course_machine_def course_segments_def del: replicate.simps)
qed

lemma low_resets:
  "\<exists>obs info e a. env_reset low_setup False low_start = Inr (obs, info, e) \<and> ge_active e = Some a \<and> \<not> ge_done e \<and> ge_plant e = low_runtime 0 \<and>
     ge_oracle e = low_course 1 \<and> as_last_raw (ge_session e) = replicate 23 (Fin 0) \<and> small_rows (as_history (ge_session e)) \<and>
     as_expected_step (ge_session e) = 0 \<and> as_pending (ge_session e) = Some (ac_prepared a) \<and>
     ac_boundary a = low_boundary 0 \<and> ac_frame a = course_demo_frame \<and> ac_plan a = None \<and> pc_base_raw (ac_prepared a) = replicate 23 (Fin 0) \<and>
     length (pc_proprio (ac_prepared a)) = 74 \<and> list_all (\<lambda>x. fin_in x (- 2) 2) (pc_proprio (ac_prepared a))"
proof -
  have c: "composed_reset (cp_program course_start) (cp_segments course_start) = Inr (low_course 0)"
    using course_starts unfolding low_course_start[symmetric]
    by (simp add: mk_composed_def course_start_def split: if_splits)
  have b: "cb_qpos (low_boundary 0) = low_qpos" by (simp add: low_boundary_def)
  have m: "evaluate_course_step demo_hasher course_demo_math low_task course_demo_frame (Floating [30] low_qpos) (Floating [30] low_qpos)
     (PTuple []) (Floating [30] (replicate 30 (Fin 0))) (PInt 0) = Inr (low_metrics 0)" by (rule low_measured) simp
  let ?s = "session_reset 0"
  have "\<exists>p s'. prepare_step low_setup (low_boundary 0) course_demo_frame (low_metrics 0) (low_course 0) ?s = Inr (p, low_course (0 + 1), s') \<and>
     ps_plan p = None \<and> pc_base_raw (ps_prepared p) = replicate 23 (Fin 0) \<and> s' = ?s\<lparr>as_pending := Some (ps_prepared p), as_prepared := as_prepared ?s + 1\<rparr> \<and>
     length (pc_proprio (ps_prepared p)) = 74 \<and> list_all (\<lambda>x. fin_in x (- 2) 2) (pc_proprio (ps_prepared p))"
    by (rule low_prepares) (simp_all add: small_rows_empty session_reset_def ACTION_DIM_def low_metrics_def)
  then obtain p s' where p: "prepare_step low_setup (low_boundary 0) course_demo_frame (low_metrics 0) (low_course 0) ?s = Inr (p, low_course 1, s')"
    "ps_plan p = None" "pc_base_raw (ps_prepared p) = replicate 23 (Fin 0)" "s' = ?s\<lparr>as_pending := Some (ps_prepared p), as_prepared := as_prepared ?s + 1\<rparr>"
    "length (pc_proprio (ps_prepared p)) = 74" "list_all (\<lambda>x. fin_in x (- 2) 2) (pc_proprio (ps_prepared p))" by auto
  have "as_prepared (session_reset 0) = 0" by (simp add: session_reset_def)
  with p m show ?thesis
    by (simp add: env_reset_def low_start_def low_reset c b low_frame low_first Let_def small_rows_empty session_reset_def[of 0] ACTION_DIM_def)
qed

definition low_fallen :: step_metrics where
  "low_fallen = interval_metrics low_math (replicate 20 low_qpos) (low_metrics 1)"

lemma low_height: "f64_lt (Fin (1 / 4)) ROOT_HEIGHT_FAILURE_M"
proof -
  have "f64_rep (9 / 32)" "f64_rep (1 / 2)" using round_rat_scaled[of 9 "- 5"] f64_rep_pow2[of "- 1"] by (simp_all add: f64_rep_def pow2_def)
  then have "fin_in (f64_round (3 / 10)) (9 / 32) (1 / 2)" by (intro round_in) simp_all
  then show ?thesis by (auto simp: ROOT_HEIGHT_FAILURE_M_def fin_in_def)
qed

lemma low_falls: "cm_fallen low_fallen" "cm_spec_sha256 low_fallen = course_spec_sha256 demo_hasher low_task"
  "metric_errors low_fallen = [Fin 1, Fin 0, Fin 0, Fin 0, Fin 0, Fin (1 / 4), Fin 0]"
  using low_height
  by (simp_all add: low_fallen_def interval_metrics_def failure_reasons_def low_parts Let_def low_metrics_def metric_errors_def posture_error_def)

lemma low_rewarded: "\<exists>b. course_reward demo_hasher course_demo_math low_task course_demo_reward_recipe low_fallen = Inr b"
  using low_falls by (simp add: course_reward_def Let_def)

definition low_action :: np_value where
  "low_action = NpArray F32 [23] True (replicate 23 (Fin 0))"

lemma low_composes: "compose_residual_raw_action (vec F32 (replicate 23 (Fin 0))) low_action RESIDUAL_RAW_SCALE = Inr (replicate 23 (Fin 0))"
proof -
  have "f32_rep (1 / 4)" using f32_rep_scaled[of 1 "- 2"] by (simp add: pow2_def)
  then show ?thesis
    by (simp add: compose_residual_raw_action_def exact_array_def ACTION_DIM_def low_action_def RESIDUAL_RAW_SCALE_def COURSE_RESIDUAL_RAW_SCALE_def
        f32_rep_round zip_replicate list_ex_iff)
qed

lemma env_stepI:
  assumes "\<not> ge_done e" "ge_active e = Some a" "residual_action S action_v = Inr action"
    "compose_residual_raw_action (vec F32 (pc_base_raw (ac_prepared a))) action RESIDUAL_RAW_SCALE = Inr composite"
    "runtime_step (gs_plant S) (vec F32 composite) (ge_plant e) = Inr (boundary, interval, plant)"
    "session_commit (ac_prepared a) (vec F32 composite) (ge_session e) = Inr session"
    "current_after_step (gs_clips S) (ge_oracle e) (cb_control_step boundary) = Inr native"
    "poststep_reference (ac_plan a) native = Inr reference" "ground_bodies (gs_bodies S) (ci_contacts interval) = Inr bodies"
    "evaluate_course_step (gs_hash S) (course_of (gs_math S)) (gs_task S) (ac_frame a)
       (Floating [30] (cb_qpos (ac_boundary a))) (Floating [30] (cb_qpos boundary)) (PTuple (map PStr bodies))
       (Floating [length reference] reference) (PInt (cb_control_step boundary)) = Inr measured"
    "course_reward (gs_hash S) (course_of (gs_math S)) (gs_task S) (gs_recipe S) (interval_metrics (gs_math S) (ci_qpos interval) measured) = Inr breakdown"
    "prepare_step S boundary (ac_frame a) (interval_metrics (gs_math S) (ci_qpos interval) measured) (ge_oracle e) session = Inr (p, oracle', session')"
    "ac_plan a = None"
  shows "\<exists>r info e'. env_step S action_v e = Inr (r, info, e') \<and> sr_interval r = interval"
  using assms by (simp add: env_step_def Let_def split_beta step_info_def del: bindE_eq_Inr)

text \<open>The first step of the environment: it falls and uses up the horizon.\<close>

lemma low_steps:
  assumes e: "ge_active e = Some a" "\<not> ge_done e" "ge_plant e = low_runtime 0" "ge_oracle e = low_course 1"
    and s: "as_last_raw (ge_session e) = replicate 23 (Fin 0)" "small_rows (as_history (ge_session e))" "as_expected_step (ge_session e) = 0"
      "as_pending (ge_session e) = Some (ac_prepared a)"
    and a: "ac_boundary a = low_boundary 0" "ac_frame a = course_demo_frame" "ac_plan a = None" "pc_base_raw (ac_prepared a) = replicate 23 (Fin 0)"
      "length (pc_proprio (ac_prepared a)) = 74" "list_all (\<lambda>x. fin_in x (- 2) 2) (pc_proprio (ac_prepared a))"
  shows "\<exists>r info e'. env_step low_setup low_action e = Inr (r, info, e') \<and> ci_qpos (sr_interval r) = replicate 20 low_qpos"
proof -
  obtain interval where run: "runtime_step low_plant (vec F32 (replicate 23 (Fin 0))) (low_runtime 0) = Inr (low_boundary 1, interval, low_runtime 1)"
    "ci_qpos interval = replicate 20 low_qpos" "concat (ci_contacts interval) = []" using low_step by blast
  have fin: "list_all is_finite (pc_proprio (ac_prepared a))" using a(6) by (auto simp: list_all_iff fin_in_def)
  define s1 where "s1 = (ge_session e)\<lparr>as_history := drop 1 (as_history (ge_session e)) @ [pc_proprio (ac_prepared a)],
     as_last_raw := replicate 23 (Fin 0), as_expected_step := 1, as_pending := None\<rparr>"
  have commit: "session_commit (ac_prepared a) (vec F32 (replicate 23 (Fin 0))) (ge_session e) = Inr s1"
    using fin a(5) s(3,4) by (simp add: session_commit_def exact_array_def ACTION_DIM_def history_append_def deploy_array_def PROPRIOCEPTION_DIM_def s1_def)
  have rows: "small_rows (as_history s1)"
    using s(2) a(5,6) by (auto simp: s1_def small_rows_def list_all_iff dest: in_set_dropD)
  have "\<exists>p s'. prepare_step low_setup (low_boundary 1) course_demo_frame low_fallen (low_course 1) s1 = Inr (p, low_course (1 + 1), s') \<and>
     ps_plan p = None \<and> pc_base_raw (ps_prepared p) = replicate 23 (Fin 0) \<and> s' = s1\<lparr>as_pending := Some (ps_prepared p), as_prepared := as_prepared s1 + 1\<rparr> \<and>
     length (pc_proprio (ps_prepared p)) = 74 \<and> list_all (\<lambda>x. fin_in x (- 2) 2) (pc_proprio (ps_prepared p))"
    by (rule low_prepares) (use rows in \<open>simp_all add: s1_def low_falls\<close>)
  then obtain p oracle' s' where p: "prepare_step low_setup (low_boundary 1) course_demo_frame low_fallen (low_course 1) s1 = Inr (p, oracle', s')" by blast
  obtain b where b: "course_reward demo_hasher course_demo_math low_task course_demo_reward_recipe low_fallen = Inr b" using low_rewarded by blast
  have m: "evaluate_course_step demo_hasher course_demo_math low_task course_demo_frame (Floating [30] low_qpos) (Floating [30] low_qpos)
     (PTuple []) (Floating [30] (replicate 30 (Fin 0))) (PInt 1) = Inr (low_metrics 1)" by (rule low_measured) simp
  have sel: "cb_qpos (low_boundary k) = low_qpos" "cb_control_step (low_boundary k) = k" for k by (simp_all add: low_boundary_def)
  have act: "residual_action low_setup low_action = Inr low_action" by (simp add: residual_action_def low_action_def)
  have g: "ground_bodies [''world'', ''pelvis''] (ci_contacts interval) = Inr []" by (simp add: ground_bodies_def run(3))
  let ?z = "replicate 23 (Fin 0)" and ?f = "replicate 30 (Fin 0)"
  have 1: "compose_residual_raw_action (vec F32 (pc_base_raw (ac_prepared a))) low_action RESIDUAL_RAW_SCALE = Inr ?z"
    unfolding a(4) by (rule low_composes)
  have 2: "runtime_step (gs_plant low_setup) (vec F32 ?z) (ge_plant e) = Inr (low_boundary 1, interval, low_runtime 1)"
    unfolding e(3) low_setup_sel by (rule run(1))
  have 3: "current_after_step (gs_clips low_setup) (ge_oracle e) (cb_control_step (low_boundary 1)) = Inr ?f"
    unfolding e(4) low_setup_sel sel by (rule low_poststep)
  have 4: "poststep_reference (ac_plan a) ?f = Inr ?f" by (simp add: poststep_reference_def a(3))
  have 5: "ground_bodies (gs_bodies low_setup) (ci_contacts interval) = Inr []" using g by simp
  have 6: "evaluate_course_step (gs_hash low_setup) (course_of (gs_math low_setup)) (gs_task low_setup) (ac_frame a) (Floating [30] (cb_qpos (ac_boundary a)))
      (Floating [30] (cb_qpos (low_boundary 1))) (PTuple (map PStr [])) (Floating [length ?f] ?f) (PInt (cb_control_step (low_boundary 1))) = Inr (low_metrics 1)"
    unfolding a(1,2) low_setup_sel low_math_sel sel length_replicate list.map by (rule m)
  have i: "interval_metrics (gs_math low_setup) (ci_qpos interval) (low_metrics 1) = low_fallen" by (simp add: run(2) low_fallen_def)
  have 7: "course_reward (gs_hash low_setup) (course_of (gs_math low_setup)) (gs_task low_setup) (gs_recipe low_setup)
      (interval_metrics (gs_math low_setup) (ci_qpos interval) (low_metrics 1)) = Inr b"
    unfolding i unfolding low_setup_sel low_math_sel by (rule b)
  have 8: "prepare_step low_setup (low_boundary 1) (ac_frame a) (interval_metrics (gs_math low_setup) (ci_qpos interval) (low_metrics 1)) (ge_oracle e) s1 =
      Inr (p, oracle', s')" unfolding i a(2) e(4) by (rule p)
  from env_stepI[OF e(2,1) act 1 2 commit 3 4 5 6 7 8 a(3)] run(2) show ?thesis by auto
qed

lemma low_episode:
  "\<exists>obs info e0 r info' e1. env_reset low_setup False low_start = Inr (obs, info, e0) \<and> env_step low_setup low_action e0 = Inr (r, info', e1) \<and>
     ci_qpos (sr_interval r) = replicate 20 low_qpos"
proof -
  obtain obs info e a where "env_reset low_setup False low_start = Inr (obs, info, e)" and e: "ge_active e = Some a" "\<not> ge_done e" "ge_plant e = low_runtime 0"
     "ge_oracle e = low_course 1" "as_last_raw (ge_session e) = replicate 23 (Fin 0)" "small_rows (as_history (ge_session e))"
     "as_expected_step (ge_session e) = 0" "as_pending (ge_session e) = Some (ac_prepared a)"
     "ac_boundary a = low_boundary 0" "ac_frame a = course_demo_frame" "ac_plan a = None" "pc_base_raw (ac_prepared a) = replicate 23 (Fin 0)"
     "length (pc_proprio (ac_prepared a)) = 74" "list_all (\<lambda>x. fin_in x (- 2) 2) (pc_proprio (ac_prepared a))"
    using low_resets by blast
  with low_steps[OF e] show ?thesis by blast
qed

lemma low_at:
  assumes "env_reset low_setup False low_start = Inr (obs, info, e0)"
  shows "env_at low_setup course_oracle course_segments e0"
  using low_started assms by (rule env_at.reset)

lemma low_horizon: "1 \<le> cs_horizon (gs_task low_setup)" "cs_horizon low_task = 1"
  by (simp_all add: low_task_def)

theorem env_counters_agree_witness:
  "\<exists>obs info e0 a. env_reset low_setup False low_start = Inr (obs, info, e0) \<and> ge_active e0 = Some a \<and>
     rt_control_step (ge_plant e0) = cb_control_step (ac_boundary a) \<and> cp_last_step (ge_oracle e0) = cb_control_step (ac_boundary a)"
proof -
  obtain obs info e0 a where r: "env_reset low_setup False low_start = Inr (obs, info, e0)" and a: "ge_active e0 = Some a"
    using low_resets by blast
  from env_counters_agree[OF low_at[OF r] low_horizon(1) a] r a show ?thesis unfolding Let_def by blast
qed

theorem env_order_never_fails_witness:
  "env_reset low_setup True low_start = Inl ResetOptions \<and> \<not> order_failure ResetOptions \<and>
   env_step low_setup NotNpArray low_start = Inl ResetRequired \<and>
   (\<exists>obs info e0. env_reset low_setup False low_start = Inr (obs, info, e0) \<and>
     env_step low_setup NotNpArray e0 = Inl ResidualAction \<and> \<not> order_failure ResidualAction \<and> env_step low_setup low_action e0 \<noteq> Inl ResetRequired)"
proof -
  obtain obs info e0 a where r: "env_reset low_setup False low_start = Inr (obs, info, e0)" and a: "ge_active e0 = Some a" "\<not> ge_done e0"
    using low_resets by blast
  have reset: "env_reset low_setup True low_start = Inl ResetOptions" by (simp add: env_reset_def)
  have step: "env_step low_setup NotNpArray e0 = Inl ResidualAction" using a by (simp add: env_step_def residual_action_def)
  have "ge_done low_start" by (simp add: low_start_def)
  note start = env_order_never_fails[OF low_started low_horizon(1)] and ready = env_order_never_fails[OF low_at[OF r] low_horizon(1)]
  from start have "\<not> order_failure ResetOptions" using reset by blast
  moreover from start have "env_step low_setup NotNpArray low_start = Inl ResetRequired" using \<open>ge_done low_start\<close> by blast
  moreover from ready have "order_failure ResidualAction \<Longrightarrow> ResidualAction = ResetRequired" using step by blast
  moreover from ready have "env_step low_setup low_action e0 \<noteq> Inl ResetRequired" using a(2) by blast
  ultimately show ?thesis using r reset step by auto
qed

theorem substep_fall_ends_episode_witness:
  "\<exists>obs info e0 r info' e1. env_reset low_setup False low_start = Inr (obs, info, e0) \<and> env_step low_setup low_action e0 = Inr (r, info', e1) \<and>
     sr_terminated r \<and> rb_total (sr_reward r) = Fin (- 5) \<and> env_step low_setup low_action e1 = Inl ResetRequired"
proof -
  obtain obs info e0 r info' e1 where s: "env_reset low_setup False low_start = Inr (obs, info, e0)" "env_step low_setup low_action e0 = Inr (r, info', e1)"
    and q: "ci_qpos (sr_interval r) = replicate 20 low_qpos" using low_episode by blast
  have c: "reward_recipe_ok (gs_recipe low_setup)" "f64_ok (rp_failure (gs_recipe low_setup))"
    using course_demo_recipe_made course_demo_recipe_floats by (simp_all add: mk_reward_recipe_iff)
  have "low_qpos \<in> set (ci_qpos (sr_interval r))" "f64_lt (low_qpos ! 2) ROOT_HEIGHT_FAILURE_M"
    using low_height by (simp_all add: q low_parts)
  from substep_fall_ends_episode[OF s(2) c this(1) disjI1[OF this(2)], of low_action] s show ?thesis
    by (auto simp: course_demo_reward_recipe_def)
qed

theorem episode_within_horizon_witness:
  "\<exists>obs info e0 rs e1. env_reset low_setup False low_start = Inr (obs, info, e0) \<and> env_run low_setup [low_action] e0 = Inr (rs, e1) \<and>
     map (cm_control_step \<circ> sr_metrics \<circ> fst) rs = [1] \<and> env_step low_setup low_action e1 = Inl ResetRequired"
proof -
  obtain obs info e0 r info' e1 where s: "env_reset low_setup False low_start = Inr (obs, info, e0)" "env_step low_setup low_action e0 = Inr (r, info', e1)"
    using low_episode by blast
  then have run: "env_run low_setup [low_action] e0 = Inr ([(r, info')], e1)" by simp
  from episode_within_horizon[OF low_started low_horizon(1) s(1) run, of low_action] s(1) run low_horizon show ?thesis
    by (intro exI[of _ obs] exI[of _ info] exI[of _ e0] exI[of _ "[(r, info')]"] exI[of _ e1]) auto
qed

theorem episode_refines_machine_witness:
  "\<exists>obs info e0 rs e1 is ds m. env_reset low_setup False low_start = Inr (obs, info, e0) \<and> env_run low_setup [low_action] e0 = Inr (rs, e1) \<and>
     control_run m is = Inr (ds, cp_machine (ge_oracle e1)) \<and> length ds = 2 \<and>
     map (rc_state \<circ> sr_executed \<circ> fst) rs = map dc_state (butlast ds)"
proof -
  obtain obs info e0 r info' e1 where s: "env_reset low_setup False low_start = Inr (obs, info, e0)" "env_step low_setup low_action e0 = Inr (r, info', e1)"
    using low_episode by blast
  then have run: "env_run low_setup [low_action] e0 = Inr ([(r, info')], e1)" by simp
  from episode_refines_machine[OF low_started low_horizon(1) s(1) run] obtain m "is" ds where
    "control_run m is = Inr (ds, cp_machine (ge_oracle e1))" "length ds = 2"
    "map (rc_state \<circ> sr_executed \<circ> fst) [(r, info')] = map dc_state (butlast ds)" by auto
  with s(1) run show ?thesis by blast
qed

end
