(* ===== verification/Spec2Isabelle.thy ===== *)
theory Spec2Isabelle
  imports RuntimeProperties TaskTermProperties RewardStep Executor GymEnv
begin

text \<open>
  The core of the oracle composition harness, the Python package \<^verbatim>\<open>src/src/oracle_composition\<close>.
  The program composes controllers of a simulated humanoid by finite oracles, gives an agent a
  bounded language for rewards, and records episodes so that they can be checked again.  This
  development models the parts that decide: what is accepted, which mode or controller runs,
  which reward a step earns, and what an episode reports.  Paths below are relative to that package.
\<close>

section \<open>Parts of the program and the theories that model them\<close>

text \<open>
  The theories build on each other in this order.

  \<^bold>\<open>Common layers.\<close>
  \<^item> \<open>Prelude\<close>: exceptions as values (\<open>'e + 'a\<close>, \<open>bindE\<close>), comprehensions and loops that may raise
    (\<open>mapE\<close>, \<open>foldE\<close>), dictionaries as lists of items, identifier patterns.
  \<^item> \<open>Float64\<close>: Python's \<open>float\<close> as rationals with one rounding function (\<open>f64_round\<close>: nearest, ties
    to even, subnormals, overflow to infinity), and the arithmetic and comparisons on it.
  \<^item> \<open>PyValues\<close>: dynamic values where the source inspects types, Python's \<open>==\<close>, \<open>float()\<close> with its
    \<open>OverflowError\<close>, canonical JSON text.
  \<^item> \<open>Graphs\<close>: the graph searches the validators run, with their correctness: breadth-first and
    depth-first reachability, recursive and iterative cycle detection.
  \<^item> \<open>JsonDecode\<close>: the hooks and the bounded walk of \<open>decode_json_object\<close> (\<open>harness/contract.py\<close>).

  \<^bold>\<open>The reference-window oracle\<close> (\<open>contracts/reference.py\<close>, \<open>contracts/program.py\<close>, \<open>runtime/oracle.py\<close>).
  \<^item> \<open>Reference\<close>: schema, identity, artifact and \<open>window\<close>, a bounded request for frames.
  \<^item> \<open>Program\<close>: signals, guards with hysteresis, modes, rules; their constructors and dictionaries.
  \<^item> \<open>Validate\<close>: \<open>validate_program\<close>, and \<open>program_accepted_iff\<close>: the loops decide the declarative
    well-formedness of a program.
  \<^item> \<open>OracleRuntime\<close>, \<open>RuntimeProperties\<close>: construction, \<open>reset\<close> and \<open>query\<close>; the reachable runtimes,
    their invariant, which rule is taken, why a query fails, dwell bounds, phase transfer.

  \<^bold>\<open>The controller-switching oracle\<close> (\<open>harness/contract.py\<close>).
  \<^item> \<open>GuardLang\<close>: the guard expressions, their validation and evaluation, against an order-free
    semantics (\<open>sem\<close>).
  \<^item> \<open>CycleContract\<close>: the data classes, \<open>oracle_program_from_dict\<close> and \<open>to_dict\<close>; \<open>cycle_ok\<close> specifies
    an accepted program.
  \<^item> \<open>CycleMachine\<close>: \<open>OracleMachine\<close> with \<open>decide\<close> and \<open>advance\<close>, recovery and re-entry; its reachable
    machines and runs.
  \<^item> \<open>HarnessInputs\<close> (\<open>harness/inputs.py\<close>): the library manifest and the task specification, with the
    schedule of target speeds and the selection of the slow behavior.
  \<^item> \<open>Executor\<close> (\<open>harness/executor.py\<close>): one episode of the machine over a simulator and actors, its
    metrics and its trace.  \<open>executor_refines_machine\<close> makes every theorem on runs of the machine a
    theorem on executed episodes; \<open>episode_path\<close> says who acts on what, and what is measured.

  \<^bold>\<open>Rewards\<close> (\<open>rewards\<close>, \<open>phase_b/task_input_admission.py\<close>).
  \<^item> \<open>TaskTerm\<close>, \<open>TaskTermSource\<close>, \<open>TaskTermRun\<close>, \<open>TaskTermProperties\<close> (\<open>static_validation.py\<close>,
    \<open>_sandbox_worker.py\<close>): the language an agent may write a task term in, the validator, the
    acceptance receipt, and the worker that installs the source and answers framed requests.
    \<open>TaskTermLanguage\<close> states that language a second time, as a grammar that uses none of the
    validator's predicates, and shows that they agree.
  \<^item> \<open>SpeedFormula\<close> (\<open>target_speed_formula.py\<close>, \<open>target_speed_formula_t2.py\<close>, \<open>task_inputs_v2.py\<close>,
    \<open>task_input_admission.py\<close>): the recipe, its evaluation in binary64, the admitted inputs.
  \<^item> \<open>RewardContract\<close> (\<open>contract.py\<close>): canonical bytes, the frozen schema, the result of a step and the
    content identity of an artifact.
  \<^item> \<open>RewardStep\<close> (\<open>contract.py\<close>, \<open>stock_humanoid.py\<close>): the trusted step, its capture from the
    simulator and the composition of the reward.

  \<^bold>\<open>The posture course of the G1 robot\<close> (\<open>adapters/gmt\<close>).
  \<^item> \<open>PySum\<close>: the compensated \<open>sum\<close> of Python 3.12 and its accuracy; \<open>Float32\<close>: binary32 by the same
    rounding function.
  \<^item> \<open>CourseTask\<close>, \<open>CourseReward\<close> (\<open>course_task.py\<close>): the specification of a course, the measurement of a
    control boundary with its verdicts, the reward recipe and the breakdown of a reward.
  \<^item> \<open>GmtControl\<close> (\<open>contracts.py\<close>, \<open>deployment.py\<close>, \<open>control_runtime.py\<close>): PD control under torque
    limits, the plant runtime of twenty substeps per control, the bounded residual action, and the
    actor session with its history of executed proprioceptions.
  \<^item> \<open>ReferenceClip\<close> (\<open>reference_math.py\<close>, \<open>reference_runtime.py\<close>): quaternion math on rows of binary32,
    a clip with its derived velocities, sampling, and the windows of twenty frames.
  \<^item> \<open>Composition\<close> (\<open>composition.py\<close>): segments of clips with their boundary semantics, and the composed
    reference, which runs the machine of \<open>CycleMachine\<close> once per control boundary and carries a phase
    through its switches.  \<open>composition_refines_machine\<close> relates the two: at every boundary it says what the
    machine is given, which pose a switch selects (\<open>nearest_pose\<close>, against the scan of \<open>argmin\<close>) and what is
    played (\<open>commanded\<close>).
  \<^item> \<open>HeadingFeedback\<close> (\<open>heading_feedback.py\<close>): what the oracle is told at a control boundary, and the law
    that steers the yaw rate of the windows after the course, with its evidence.
  \<^item> \<open>CourseRuntime\<close> (\<open>course_runtime.py\<close>): the five runtime profiles and the programs they admit.
  \<^item> \<open>GymEnv\<close> (\<open>gym_env.py\<close>): the environment that a residual policy acts in.  Its \<open>env_step\<close> composes the
    plant runtime, the actor session, the composed reference, the heading feedback, the measurement and the
    reward; the lemmas show that their counters stay in step (\<open>env_at_inv\<close>), so that none of the checks on
    them ever fires but the one that asks for a reset, that an episode is a run of the machine, and that it ends at a fall or at the horizon.
\<close>

section \<open>How the model corresponds to the code\<close>

text \<open>
  A frozen data class is a \<open>record\<close>, its \<open>__post_init__\<close> a function \<open>mk_...\<close> that takes the unchecked
  fields; an enumeration is a \<open>datatype\<close>.  Each \<open>raise\<close> is a constructor of the component's error type,
  in the order in which the code tests, and an exception that escapes the code's own handlers
  (\<open>OverflowError\<close>, \<open>KeyError\<close>, \<open>ValueError\<close> of \<open>max\<close>) has a constructor of its own.  State is passed
  explicitly: \<open>query\<close>, \<open>decide\<close>, \<open>episode_step\<close> return the next state.  Integers are unbounded as in
  Python.  Floats keep their rounding: no theorem replaces them by reals.  Signed zeros are one
  value, which no modelled comparison or arithmetic result distinguishes except the text of a float,
  and that is a parameter.  A string is a list of code points below 256, and an identifier is one of
  Python's over these code points.

  Recursion is structural or proved to terminate by a measure: the searches of \<open>Graphs\<close> by the
  number of unvisited nodes, \<open>walk_json\<close> by the number of nodes of the value, the request loop of the
  worker by the length of its input.  The model takes no fuel; \<open>walk_terminates\<close> counts
  the rounds of the walk over a decoded document and shows that 65537 are enough.  The loop of an episode runs over the
  steps of the horizon, which \<open>load_task_spec\<close> bounds by 1000.

  Parameters stand for code that is not part of the package: SHA-256 and the decimal text of floats
  (\<open>hasher\<close>), the text scanner of JSON, \<open>ast.parse\<close> (as functions from text to trees), the
  arithmetic of candidate values in the worker, numpy's reductions (\<open>numpy\<close>), the simulators and
  the actors (\<open>world\<close>, \<open>plant\<close>), the C library's functions (\<open>course_math\<close>), and those of the tensor
  library (\<open>torch\<close>, \<open>segment_math\<close>, \<open>feedback_math\<close>), and the action space of the environment (\<open>gs_contains\<close>).  Where a theorem needs something of them it is a named hypothesis:
  \<open>ieee_numpy\<close> (each operation rounds once, a sum adds in some order), \<open>sized\<close> (an array has as many
  elements as its shape says), \<open>libm_ok\<close> (exponential and square are monotone and stay in their range),
  \<open>plant_ok\<close> (the simulator keeps its state finite), \<open>torch_ok\<close> and \<open>segment_math_ok\<close> (a cross product has three
  entries, a smoothing keeps the shape of its rows, a range of times begins at zero), \<open>angles_ok\<close> (sine, cosine
  and \<open>atan2\<close> of finite values are finite, and \<open>atan2\<close> is an angle), digests are 64 hexadecimal digits.
\<close>

section \<open>Interfaces\<close>

text \<open>
  A contract between components is a locale that the provider's theory interprets on its own
  definitions: \<open>reachability\<close> and \<open>cycle_check\<close> (\<open>Graphs\<close>, for the recursive and the iterative
  searches), \<open>window_source\<close> (what the runtime needs of a reference), \<open>target_source\<close> (what the
  executor needs of a task),
  \<open>total_guards\<close> (what the machine needs of guard expressions), \<open>speed_target\<close> (what the formula needs
  of its target), and \<open>wire_format\<close> (a checking constructor, a printer, and a reader that goes through
  the constructor), interpreted for reward results, artifact identities, trusted
  steps, course specifications and reward recipes.
\<close>

section \<open>What is not modelled\<close>

text \<open>
  Opening, locking and publishing files, starting processes and the operating-system limits of the
  sandbox; the fingerprint of installed packages (\<open>runtime_fingerprint\<close>); re-hashing the bound
  artifacts (\<open>verify_library_artifacts\<close>); command lines, reports and rendering; the tensor code of
  \<open>adapters/gmt\<close> (actor network, training, rendering), the training and evaluation runners (\<open>phase_b\<close>,
  \<open>experiments\<close>), the importers of external data (\<open>sources\<close>) and the read-only user interface.  They
  move data between the parts above and the outside.  What an exception leaves behind in a mutable object is
  not modelled: a failing operation returns its error and no state.  Nor is the depth of Python's call stack: the
  recursive search \<open>_has_directed_cycle\<close> raises \<open>RecursionError\<close> on a long chain of modes, where
  \<open>has_directed_cycle\<close> answers.
\<close>

end
